(* ===== verification/PG_Prelude.thy ===== *)
theory PG_Prelude
  imports
    Main
    "HOL-Library.Word"
    "HOL-Library.Char_ord"
    "HOL-Library.List_Lexorder"
    "HOL-Library.Product_Lexorder"
    "HOL-Library.Multiset"
    "HOL-Library.Monad_Syntax"
    "HOL-Library.Sublist"
    "HOL-Library.Code_Target_Nat"
begin

text \<open>
  The shared vocabulary of the development: the machine integer types, the parts of the C++
  standard library the sources use (character search, \<open>std::from_chars\<close>,
  \<open>std::to_string\<close>, \<open>std::sort\<close>), separated text, and the interface of a fixed-width
  binary codec with its little-endian instances.

  Strings (\<open>std::string\<close>, \<open>std::string_view\<close>) are \<open>string\<close>, that is lists of 8-bit
  characters, ordered as \<open>char_traits<char>::compare\<close> orders them (unsigned,
  lexicographic: \<open>Char_ord\<close> and \<open>List_Lexorder\<close>).  A \<open>std::vector<std::uint8_t>\<close> is a
  list of 8-bit words.  A loop that walks a string by an offset is a recursion on the
  suffix that starts at that offset.

  \<open>std::sort\<close> with a comparison on a key is the library's \<open>sort_key\<close>.  The C++ function
  leaves the order of elements with equal keys open; \<open>sorted_permutation_unique\<close> shows that
  where keys are distinct every sorted permutation is the same list.
\<close>

named_theorems codec_simps \<open>reading back what a codec wrote\<close>
named_theorems text_simps \<open>separated text\<close>

subsection \<open>Types\<close>

type_synonym u8 = "8 word"
type_synonym u16 = "16 word"
type_synonym u32 = "32 word"
type_synonym u64 = "64 word"
type_synonym bytes = "u8 list"

text \<open>\<open>PATH_MAX\<close> of \<open>limits.h\<close>.\<close>

definition PATH_MAX :: nat where "PATH_MAX = 4096"

subsection \<open>Lists\<close>

lemma sorted_permutation_unique:
  assumes "sorted (map f xs)" "sorted (map f ys)" "mset xs = mset ys"
    and "distinct (map f xs)"
  shows "xs = ys"
proof -
  have inj: "inj_on f (set xs)"
    using assms(4) by (simp add: distinct_map)
  have set: "set ys = set xs"
    using assms(3) by (metis set_mset_mset)
  have "mset (map f xs) = mset (map f ys)"
    using assms(3) by simp
  hence "map f xs = map f ys"
    using assms(1,2) by (metis sorted_list_of_multiset_mset sorted_sort_id)
  with inj set show ?thesis
    by (metis map_inj_on sup.idem)
qed

lemma sort_key_sorted_id: "sorted (map f xs) \<Longrightarrow> sort_key f xs = xs"
  by (induction xs) (auto simp: insort_is_Cons)

lemma sort_key_idem [simp]: "sort_key f (sort_key f xs) = sort_key f xs"
  by (rule sort_key_sorted_id) simp

lemma sort_key_cong: "(\<And>x. x \<in> set xs \<Longrightarrow> f x = g x) \<Longrightarrow> sort_key f xs = sort_key g xs"
proof (induction xs)
  case (Cons x xs)
  have "insort_key f x ys = insort_key g x ys" if "set ys \<subseteq> set xs" for ys
    using that Cons.prems by (induction ys) auto
  moreover have "set (sort_key g xs) \<subseteq> set xs" by simp
  ultimately show ?case using Cons by auto
qed simp

lemma sort_key_map: "sort_key f (map g xs) = map g (sort_key (f \<circ> g) xs)"
proof (induction xs)
  case (Cons x xs)
  have "insort_key f (g x) (map g ys) = map g (insort_key (f \<circ> g) x ys)" for ys
    by (induction ys) auto
  with Cons show ?case by (simp add: comp_def)
qed simp

lemma mset_eq_sort_key_eq:
  assumes "mset xs = mset ys" and "distinct (map f xs)"
  shows "sort_key f xs = sort_key f ys"
proof (rule sorted_permutation_unique [where f = f])
  show "distinct (map f (sort_key f xs))"
    using assms(2) by (metis mset_map mset_sort mset_eq_imp_distinct_iff)
qed (use assms in auto)

lemma distinct_map_sort_key [simp]:
  "distinct (map f (sort_key g xs)) = distinct (map f xs)"
  by (metis mset_map mset_sort mset_eq_imp_distinct_iff)

lemma find_None_all: "List.find P xs = None \<longleftrightarrow> (\<forall>x \<in> set xs. \<not> P x)"
  by (induction xs) auto

lemma find_append:
  "List.find P (xs @ ys) = (case List.find P xs of None \<Rightarrow> List.find P ys | Some x \<Rightarrow> Some x)"
  by (induction xs) auto

lemma concat_chunk:
  assumes "\<forall>e \<in> set es. length e = w" "i < length es"
  shows "concat es = concat (take i es) @ es ! i @ concat (drop (Suc i) es)"
    "length (concat (take i es)) = i * w"
proof -
  show "concat es = concat (take i es) @ es ! i @ concat (drop (Suc i) es)"
    using id_take_nth_drop [OF assms(2)] by (metis concat.simps(2) concat_append)
  have "map length (take i es) = replicate i w"
    using assms by (intro replicate_eqI) (auto dest: in_set_takeD)
  thus "length (concat (take i es)) = i * w" by (simp add: length_concat sum_list_replicate)
qed

lemma remdups_adj_tl: "remdups_adj (x # xs) = x # tl (remdups_adj (x # xs))"
  by (metis list.sel(3) remdups_adj_Cons_alt)

lemma sorted_remdups_adj: "sorted xs \<Longrightarrow> remdups_adj xs = sorted_list_of_set (set xs)"
proof -
  assume s: "sorted xs"
  hence "sorted (remdups_adj xs) \<and> distinct (remdups_adj xs)"
    by (induction xs rule: remdups_adj.induct) auto
  thus ?thesis
    by (metis remdups_adj_set sorted_list_of_set.idem_if_sorted_distinct)
qed

lemma sorted_successively_distinct:
  fixes xs :: "'a::linorder list"
  assumes "sorted xs" "successively (\<noteq>) xs"
  shows "distinct xs"
  using assms
proof (induction xs rule: induct_list012)
  case (3 x y zs)
  thus ?case by (auto simp: order.order_iff_strict)
qed simp_all

lemma sorted_wrt_subseq: "subseq xs ys \<Longrightarrow> sorted_wrt P ys \<Longrightarrow> sorted_wrt P xs"
  by (induction rule: list_emb.induct) (auto dest: list_emb_set)

lemma map_item_image:
  assumes "map item xs = map Some ys" "\<And>x y. item x = Some y \<Longrightarrow> f y = g x"
  shows "map f ys = map g xs"
  using assms(1)
proof (induction xs arbitrary: ys)
  case (Cons x xs)
  then obtain y ys' where "ys = y # ys'" "item x = Some y" "map item xs = map Some ys'"
    by (cases ys) auto
  with Cons.IH assms(2) show ?case by simp
qed simp

lemma mset_list_all2:
  assumes "list_all2 (\<lambda>r a. f r = g a \<and> P r = Q a) rs as"
  shows "mset (map f (filter P rs)) = mset (map g (filter Q as))"
  using assms by (induction rule: list_all2_induct) auto

subsection \<open>Characters and searches\<close>

text \<open>\<open>s.find(c)\<close>: the offset of the first \<open>c\<close>, or \<open>npos\<close>.\<close>

definition find_char :: "char \<Rightarrow> string \<Rightarrow> nat option" where
  "find_char c s =
     (let i = length (takeWhile (\<lambda>x. x \<noteq> c) s) in if i < length s then Some i else None)"

lemma length_takeWhile_less: "length (takeWhile P s) < length s \<longleftrightarrow> (\<exists>x \<in> set s. \<not> P x)"
  by (induction s) auto

lemma find_char_None [simp]: "find_char c s = None \<longleftrightarrow> c \<notin> set s"
  by (auto simp: find_char_def Let_def length_takeWhile_less)

lemma find_char_Some:
  "find_char c s = Some i \<longleftrightarrow> c \<in> set s \<and> i = length (takeWhile (\<lambda>x. x \<noteq> c) s)"
  by (auto simp: find_char_def Let_def length_takeWhile_less)

lemma find_char_Nil [simp]: "find_char c [] = None"
  by simp

lemma find_char_split:
  "find_char c s = Some i \<Longrightarrow> \<exists>p r. s = p @ c # r \<and> length p = i \<and> c \<notin> set p"
proof -
  assume f: "find_char c s = Some i"
  let ?p = "takeWhile (\<lambda>x. x \<noteq> c) s"
  let ?q = "dropWhile (\<lambda>x. x \<noteq> c) s"
  from f have i: "i = length ?p" and "c \<in> set s" by (auto simp: find_char_Some)
  hence ne: "?q \<noteq> []" by (auto simp: dropWhile_eq_Nil_conv)
  have "hd ?q = c" using hd_dropWhile [OF ne] by simp
  hence q: "?q = c # tl ?q" using list.collapse [OF ne] by simp
  have "s = ?p @ ?q" by (rule takeWhile_dropWhile_id [symmetric])
  hence "s = ?p @ c # tl ?q" using q by simp
  moreover have "c \<notin> set ?p" using set_takeWhileD by fastforce
  ultimately show ?thesis using i by blast
qed

lemma find_char_appendI: "c \<notin> set p \<Longrightarrow> find_char c (p @ c # r) = Some (length p)"
  by (induction p) (auto simp: find_char_Some)

text \<open>Decimal digits: \<open>std::from_chars\<close> into an unsigned type of width \<open>w\<close> reads the longest
  digit prefix, fails when it is empty or too large, and says where it stopped.\<close>

definition is_digit :: "char \<Rightarrow> bool" where
  "is_digit c \<longleftrightarrow> CHR ''0'' \<le> c \<and> c \<le> CHR ''9''"

definition digit_value :: "char \<Rightarrow> nat" where
  "digit_value c = of_char c - 48"

fun decimal_value :: "nat \<Rightarrow> string \<Rightarrow> nat" where
  "decimal_value acc [] = acc"
| "decimal_value acc (c # cs) = decimal_value (acc * 10 + digit_value c) cs"

definition from_chars :: "nat \<Rightarrow> string \<Rightarrow> (nat \<times> string) option" where
  "from_chars w s =
     (let ds = takeWhile is_digit s; v = decimal_value 0 ds in
      if ds = [] \<or> v \<ge> 2 ^ w then None else Some (v, dropWhile is_digit s))"

text \<open>\<open>std::to_string\<close> of an unsigned number.\<close>

definition digit_char :: "nat \<Rightarrow> char" where
  "digit_char d = char_of (48 + d)"

fun to_string :: "nat \<Rightarrow> string" where
  "to_string n = (if n < 10 then [digit_char n] else to_string (n div 10) @ [digit_char (n mod 10)])"

declare to_string.simps [simp del]

lemma digit_char_props:
  assumes "d < 10"
  shows "is_digit (digit_char d)" "digit_value (digit_char d) = d"
  using assms by (simp_all add: is_digit_def digit_value_def digit_char_def less_eq_char_def)

lemma decimal_value_append: "decimal_value acc (xs @ ys) = decimal_value (decimal_value acc xs) ys"
  by (induction xs arbitrary: acc) auto

lemma to_string_digits: "\<forall>c \<in> set (to_string n). is_digit c"
proof (induction n rule: to_string.induct)
  case (1 n)
  thus ?case
    by (subst to_string.simps) (auto simp: digit_char_props)
qed

lemma to_string_nonempty [simp]: "to_string n \<noteq> []"
  by (subst to_string.simps) simp

lemma decimal_value_to_string [simp]: "decimal_value 0 (to_string n) = n"
proof (induction n rule: to_string.induct)
  case (1 n)
  thus ?case
    by (subst to_string.simps) (auto simp: digit_char_props decimal_value_append)
qed

lemma takeWhile_all: "(\<forall>x \<in> set xs. P x) \<Longrightarrow> takeWhile P xs = xs"
  by (simp add: takeWhile_eq_all_conv)

theorem from_chars_to_string: "n < 2 ^ w \<Longrightarrow> from_chars w (to_string n) = Some (n, [])"
  by (simp add: from_chars_def Let_def takeWhile_all to_string_digits dropWhile_eq_Nil_conv)

lemma from_chars_complete:
  assumes "from_chars w s = Some (v, [])"
  shows "s \<noteq> []" "\<forall>c \<in> set s. is_digit c" "v < 2 ^ w"
  using assms by (auto simp: from_chars_def Let_def dropWhile_eq_Nil_conv split: if_splits)

lemma is_digit_not_special:
  "is_digit c \<Longrightarrow> c \<noteq> CHR '','' \<and> c \<noteq> CHR 0x00 \<and> c \<noteq> CHR ''/'' \<and> c \<noteq> CHR ''*''"
  by (auto simp: is_digit_def less_eq_char_def)

subsection \<open>\<open>strtol\<close>\<close>

definition isspace :: "char \<Rightarrow> bool" where
  "isspace c \<longleftrightarrow> c = CHR '' '' \<or> (CHR 0x09 \<le> c \<and> c \<le> CHR 0x0D)"

text \<open>\<open>strtol(text, &end, 10)\<close>: the value, saturated at the bounds of \<open>long\<close>, and the text from \<open>end\<close> on.\<close>

definition strtol :: "string \<Rightarrow> int \<times> string" where
  "strtol text =
     (let t = dropWhile isspace text;
          (negative, t1) = (case t of c # r \<Rightarrow> if c = CHR ''-'' then (True, r)
                                               else if c = CHR ''+'' then (False, r) else (False, t)
                                    | [] \<Rightarrow> (False, t));
          digits = takeWhile is_digit t1;
          v = int (decimal_value 0 digits)
      in if digits = [] then (0, text)
         else (if negative then max (- v) (- (2 ^ 63)) else min v (2 ^ 63 - 1), dropWhile is_digit t1))"

lemma strtol_rest: "length (snd (strtol s)) \<le> length s"
proof -
  have d: "length (dropWhile P (r :: string)) \<le> length r" for P r by (rule length_dropWhile_le)
  have "length r \<le> length s" if "dropWhile isspace s = c # r" for c r
    using d [of isspace s] that by simp
  thus ?thesis using d [of isspace s]
    by (auto simp: strtol_def Let_def split: list.splits intro: order.trans [OF d])
qed

subsection \<open>Separated text\<close>

text \<open>The components of a text between separators, and their concatenation.  A text with \<open>n\<close>
  separators has \<open>n + 1\<close> components, possibly empty.\<close>

fun split_on :: "char \<Rightarrow> string \<Rightarrow> string list" where
  "split_on d [] = [[]]"
| "split_on d (c # cs) =
     (if c = d then [] # split_on d cs
      else case split_on d cs of [] \<Rightarrow> [[c]] | p # ps \<Rightarrow> (c # p) # ps)"

fun join_with :: "char \<Rightarrow> string list \<Rightarrow> string" where
  "join_with d [] = []"
| "join_with d [p] = p"
| "join_with d (p # q # ps) = p @ d # join_with d (q # ps)"

lemma split_on_nonempty [simp]: "split_on d s \<noteq> []"
  by (cases s) (auto split: list.splits)

lemma split_on_free: "d \<notin> set s \<Longrightarrow> split_on d s = [s]"
  by (induction s) auto

lemma split_on_append [text_simps]:
  "d \<notin> set p \<Longrightarrow> split_on d (p @ d # r) = p # split_on d r"
  by (induction p) auto

lemma split_on_components: "p \<in> set (split_on d s) \<Longrightarrow> d \<notin> set p"
proof (induction s arbitrary: p)
  case (Cons c cs)
  thus ?case by (auto split: if_splits list.splits)
qed simp

lemma split_on_unfold:
  "split_on d s =
     takeWhile (\<lambda>c. c \<noteq> d) s #
       (case dropWhile (\<lambda>c. c \<noteq> d) s of [] \<Rightarrow> [] | _ # r \<Rightarrow> split_on d r)"
  by (induction s) (auto split: list.splits)

lemma join_with_Cons: "ps \<noteq> [] \<Longrightarrow> join_with d (p # ps) = p @ d # join_with d ps"
  by (cases ps) auto

lemma join_split [simp]: "join_with d (split_on d s) = s"
proof (induction s)
  case (Cons c cs)
  obtain p ps where "split_on d cs = p # ps" by (metis neq_Nil_conv split_on_nonempty)
  with Cons show ?case by (cases ps) auto
qed simp

lemma split_join [text_simps]:
  "ps \<noteq> [] \<Longrightarrow> \<forall>p \<in> set ps. d \<notin> set p \<Longrightarrow> split_on d (join_with d ps) = ps"
proof (induction ps rule: join_with.induct)
  case (2 d p)
  thus ?case by (simp add: split_on_free)
next
  case (3 d p q ps)
  thus ?case by (simp add: split_on_append)
qed simp

lemma split_on_append_sep: "split_on d (p @ d # r) = split_on d p @ split_on d r"
  by (induction p) (auto split: list.splits)

lemma join_with_append:
  "ps \<noteq> [] \<Longrightarrow> qs \<noteq> [] \<Longrightarrow> join_with d (ps @ qs) = join_with d ps @ d # join_with d qs"
  by (induction ps rule: join_with.induct) (auto simp: join_with_Cons)

lemma concat_sep_split: "concat (map (\<lambda>p. d # p) (split_on d s)) = d # s"
proof -
  have "concat (map (\<lambda>p. d # p) ps) = d # join_with d ps" if "ps \<noteq> []" for ps
    using that by (induction ps rule: join_with.induct) auto
  from this [of "split_on d s"] show ?thesis by simp
qed

lemma set_split_on: "\<Union> (set ` set (split_on d s)) = set s - {d}"
proof (induction s)
  case (Cons c cs)
  obtain p ps where "split_on d cs = p # ps" by (metis neq_Nil_conv split_on_nonempty)
  with Cons show ?case by auto
qed simp

lemma component_subset: "p \<in> set (split_on d s) \<Longrightarrow> set p \<subseteq> set s"
  using set_split_on [of d s] by blast

lemma set_join_with: "set (join_with d ps) \<subseteq> insert d (\<Union> (set ` set ps))"
  by (induction ps rule: join_with.induct) auto

lemma length_dropWhile_Cons [termination_simp]:
  "dropWhile P s = c # r \<Longrightarrow> length r < length s"
  using length_dropWhile_le [of P s] by simp

text \<open>The components of a text in which one trailing separator is tolerated.\<close>

definition trimmed_split :: "char \<Rightarrow> string \<Rightarrow> string list" where
  "trimmed_split d s = (let cs = split_on d s in if last cs = [] then butlast cs else cs)"

lemma trimmed_split_Nil [simp]: "trimmed_split d [] = []"
  by (simp add: trimmed_split_def)

lemma trimmed_split_unfold:
  assumes "s \<noteq> []"
  shows "trimmed_split d s = takeWhile (\<lambda>c. c \<noteq> d) s #
    (case dropWhile (\<lambda>c. c \<noteq> d) s of [] \<Rightarrow> [] | _ # r \<Rightarrow> trimmed_split d r)"
proof (cases "dropWhile (\<lambda>c. c \<noteq> d) s")
  case Nil
  hence "takeWhile (\<lambda>c. c \<noteq> d) s = s" by (metis append_Nil2 takeWhile_dropWhile_id)
  moreover have "split_on d s = [takeWhile (\<lambda>c. c \<noteq> d) s]" by (subst split_on_unfold) (simp add: Nil)
  ultimately show ?thesis using assms Nil
    by (simp add: trimmed_split_def Let_def del: dropWhile_eq_Nil_conv takeWhile_eq_all_conv)
next
  case (Cons c r)
  have "split_on d s = takeWhile (\<lambda>c. c \<noteq> d) s # split_on d r"
    by (subst split_on_unfold) (simp add: Cons)
  thus ?thesis by (simp add: trimmed_split_def Let_def Cons)
qed

lemma split_on_trimmed: "p \<in> set (split_on d s) \<Longrightarrow> p \<in> set (trimmed_split d s) \<or> p = []"
  using split_on_nonempty [of d s]
  by (cases "split_on d s" rule: rev_cases) (auto simp: trimmed_split_def Let_def)

text \<open>
  The interface of a component loop.  The sources walk separated text in several places
  (paths at slashes, the user and process lists of the binary format at commas) with the same
  loop: take the text up to the next separator, reject it if it is not acceptable, store it,
  stop when there is no further separator.  The laws below are that loop's one-step equation;
  the client lemma says what the whole loop computes.
\<close>

locale component_loop =
  fixes sep :: char
    and ok :: "string \<Rightarrow> bool"
    and loop :: "string \<Rightarrow> string list \<Rightarrow> string list option"
  assumes loop_step:
    "loop rest acc =
       (let part = takeWhile (\<lambda>c. c \<noteq> sep) rest in
        if \<not> ok part then None
        else case dropWhile (\<lambda>c. c \<noteq> sep) rest of
               [] \<Rightarrow> Some (acc @ [part])
             | _ # rest' \<Rightarrow> loop rest' (acc @ [part]))"
begin

lemma loop_result:
  "loop rest acc =
     (if \<forall>p \<in> set (split_on sep rest). ok p then Some (acc @ split_on sep rest) else None)"
proof (induction "length rest" arbitrary: rest acc rule: less_induct)
  case less
  show ?case
  proof (cases "dropWhile (\<lambda>c. c \<noteq> sep) rest")
    case Nil
    show ?thesis
      by (subst loop_step, subst (1 2) split_on_unfold) (simp add: Nil Let_def)
  next
    case (Cons c rest')
    have IH: "loop rest' (acc @ [takeWhile (\<lambda>c. c \<noteq> sep) rest]) =
        (if \<forall>p \<in> set (split_on sep rest'). ok p
         then Some ((acc @ [takeWhile (\<lambda>c. c \<noteq> sep) rest]) @ split_on sep rest') else None)"
      by (rule less) (rule length_dropWhile_Cons [OF Cons])
    show ?thesis
      by (subst loop_step, subst (1 2) split_on_unfold) (simp add: Cons Let_def IH)
  qed
qed

lemma loop_join:
  assumes "ps \<noteq> []" "\<forall>p \<in> set ps. ok p" "\<forall>p \<in> set ps. sep \<notin> set p"
  shows "loop (join_with sep ps) [] = Some ps"
  using assms by (simp add: loop_result split_join)

lemma loop_sound:
  assumes "loop s [] = Some ps"
  shows "ps \<noteq> []" "join_with sep ps = s" "\<forall>p \<in> set ps. ok p"
  using assms by (auto simp: loop_result split: if_splits)

end

subsection \<open>Reads of a byte vector\<close>

text \<open>\<open>input[i]\<close> on raw memory.  C++ leaves a read past the end undefined; here it is \<open>None\<close>, so
  that a theorem about a decoder can state that no such read happens.\<close>

definition rd8 :: "bytes \<Rightarrow> nat \<Rightarrow> u8 option" where
  "rd8 xs i = (if i < length xs then Some (xs ! i) else None)"

lemma rd8_in: "i < length xs \<Longrightarrow> rd8 xs i = Some (xs ! i)"
  by (simp add: rd8_def)

lemma rd8_append [codec_simps]: "length xs \<le> i \<Longrightarrow> rd8 (xs @ ys) i = rd8 ys (i - length xs)"
  by (auto simp: rd8_def nth_append)

lemma rd8_prefix: "i < length xs \<Longrightarrow> rd8 (xs @ ys) i = rd8 xs i"
  by (simp add: rd8_def nth_append)

lemma rd8_Cons_0 [simp]: "rd8 (x # xs) 0 = Some x"
  by (simp add: rd8_def)

lemma rd8_Cons_Suc [simp]: "rd8 (x # xs) (Suc i) = rd8 xs i"
  by (simp add: rd8_def)

text \<open>
  The interface of a fixed-width codec: \<open>put\<close> writes \<open>width\<close> bytes, \<open>rd\<close> reads them back at any
  offset, depends only on the bytes it covers, and is defined exactly when they exist.
\<close>

locale fixed_codec =
  fixes width :: nat
    and put :: "'a \<Rightarrow> bytes"
    and rd :: "bytes \<Rightarrow> nat \<Rightarrow> 'a option"
  assumes put_length [simp, codec_simps]: "length (put v) = width"
    and rd_put [codec_simps]: "rd (put v @ ys) 0 = Some v"
    and rd_skip [codec_simps]: "length xs \<le> i \<Longrightarrow> rd (xs @ ys) i = rd ys (i - length xs)"
    and rd_prefix: "i + width \<le> length xs \<Longrightarrow> rd (xs @ ys) i = rd xs i"
    and rd_defined: "rd xs i = None \<longleftrightarrow> length xs < i + width"
begin

lemma rd_put_only [codec_simps]: "rd (put v) 0 = Some v"
  using rd_put [of v "[]"] by simp

lemma rd_at: "rd (pre @ put v @ post) (length pre) = Some v"
  by (simp add: rd_skip rd_put)

lemma rd_window:
  "k + width \<le> length entry \<Longrightarrow>
   rd (pre @ entry @ post) (length pre + k) = rd entry k"
  by (simp add: rd_skip rd_prefix)

text \<open>A field of the \<open>i\<close>-th entry of a table of entries of \<open>w\<close> bytes each.\<close>

lemma rd_chunk:
  assumes es: "\<forall>e \<in> set es. length e = w" and i: "i < length es" and k: "k + width \<le> w"
  shows "rd (pre @ concat es @ post) (length pre + i * w + k) = rd (es ! i) k"
proof -
  have "k + width \<le> length (es ! i)" using es i k by simp
  from rd_window [OF this, of "pre @ concat (take i es)" "concat (drop (Suc i) es) @ post"]
  show ?thesis using concat_chunk [OF es i] by simp
qed

lemma rd_total: "i + width \<le> length xs \<Longrightarrow> \<exists>v. rd xs i = Some v"
  using rd_defined [of xs i] by auto

lemma put_inj: "put v = put w \<Longrightarrow> v = w"
  by (metis option.inject rd_put_only)

end

end
