(* ===== verification/PG_Path.thy ===== *)
theory PG_Path
  imports PG_Prelude
begin

text \<open>
  Path handling, \<open>core/src/path.cpp\<close>: splitting and validating components, normalisation of
  absolute storage paths and of logical (relative) paths, expansion of the
  \<open>{package}\<close> and \<open>{user}\<close> placeholders, and the ancestor test.  A function that returns
  \<open>bool\<close> and fills an output string is a function into \<open>string option\<close>.
\<close>

subsection \<open>Splitting\<close>

definition kMaxLogicalPathBytes :: nat where
  "kMaxLogicalPathBytes = 4095"

definition kMaxPathComponentBytes :: nat where
  "kMaxPathComponentBytes = 255"

definition ValidComponent :: "string \<Rightarrow> bool" where
  "ValidComponent part \<longleftrightarrow>
     \<not> (part = [] \<or> length part > kMaxPathComponentBytes \<or> part = ''.'' \<or> part = ''..'')"

text \<open>The \<open>while\<close> loop of \<open>SplitAndValidate\<close>, on the suffix that begins at \<open>start\<close>.\<close>

fun SplitLoop :: "string \<Rightarrow> string list \<Rightarrow> string list option" where
  "SplitLoop rest parts =
     (let part = takeWhile (\<lambda>c. c \<noteq> CHR ''/'') rest in
      if \<not> ValidComponent part then None
      else case dropWhile (\<lambda>c. c \<noteq> CHR ''/'') rest of
             [] \<Rightarrow> Some (parts @ [part])
           | _ # rest' \<Rightarrow> SplitLoop rest' (parts @ [part]))"

declare SplitLoop.simps [simp del]

definition SplitAndValidate :: "string \<Rightarrow> string list option" where
  "SplitAndValidate input =
     (if input = [] \<or> length input > kMaxLogicalPathBytes \<or> CHR 0x00 \<in> set input then None
      else SplitLoop (if hd input = CHR ''/'' then tl input else input) [])"

interpretation slash: component_loop "CHR ''/''" ValidComponent SplitLoop
  by unfold_locales (subst SplitLoop.simps, simp)

text \<open>A relative path that needs no change: what \<open>SplitAndValidate\<close> accepts without a leading slash.\<close>

definition is_logical_path :: "string \<Rightarrow> bool" where
  "is_logical_path s \<longleftrightarrow>
     length s \<le> kMaxLogicalPathBytes \<and> CHR 0x00 \<notin> set s \<and>
     (\<forall>p \<in> set (split_on CHR ''/'' s). ValidComponent p)"

lemma ValidComponent_nonempty: "ValidComponent p \<Longrightarrow> p \<noteq> []"
  by (auto simp: ValidComponent_def)

lemma is_logical_path_nonempty: "is_logical_path s \<Longrightarrow> s \<noteq> []"
proof
  assume "is_logical_path s" "s = []"
  hence "ValidComponent []" by (simp add: is_logical_path_def)
  thus False by (simp add: ValidComponent_def)
qed

lemma is_logical_path_hd: "is_logical_path s \<Longrightarrow> hd s \<noteq> CHR ''/''"
proof
  assume s: "is_logical_path s" and "hd s = CHR ''/''"
  hence "[] \<in> set (split_on CHR ''/'' s)"
    by (cases s) (auto dest: is_logical_path_nonempty)
  with s have "ValidComponent []" by (simp add: is_logical_path_def)
  thus False by (simp add: ValidComponent_def)
qed

lemma SplitAndValidate_relative:
  "hd s \<noteq> CHR ''/'' \<Longrightarrow>
   SplitAndValidate s = (if is_logical_path s then Some (split_on CHR ''/'' s) else None)"
  by (auto simp: SplitAndValidate_def is_logical_path_def slash.loop_result ValidComponent_def
      split: if_splits)

lemma SplitAndValidate_absolute:
  "SplitAndValidate (CHR ''/'' # s) =
     (if length s < kMaxLogicalPathBytes \<and> is_logical_path s
      then Some (split_on CHR ''/'' s) else None)"
  by (auto simp: SplitAndValidate_def is_logical_path_def slash.loop_result split: if_splits)

subsection \<open>Normalisation\<close>

text \<open>The aliases of the primary storage root that \<open>NormalizePath\<close> rewrites.\<close>

definition RewriteStorageAlias :: "string \<Rightarrow> string" where
  "RewriteStorageAlias value =
     (if prefix ''/sdcard/'' value then ''/storage/emulated/0/'' @ drop 8 value
      else if value = ''/sdcard'' then ''/storage/emulated/0''
      else if prefix ''/storage/self/primary/'' value
           then ''/storage/emulated/0/'' @ drop 22 value
      else if value = ''/storage/self/primary'' then ''/storage/emulated/0''
      else if hd value \<noteq> CHR ''/'' then ''/storage/emulated/0/'' @ value
      else value)"

text \<open>\<open>while (value.size() > 1 && value.back() == '/') value.pop_back();\<close>\<close>

fun StripTrailingSlashes :: "string \<Rightarrow> string" where
  "StripTrailingSlashes value =
     (if length value > 1 \<and> last value = CHR ''/'' then StripTrailingSlashes (butlast value)
      else value)"

declare StripTrailingSlashes.simps [simp del]

definition NormalizePath :: "string \<Rightarrow> string option" where
  "NormalizePath input =
     (if input = [] then None
      else case SplitAndValidate (StripTrailingSlashes (RewriteStorageAlias input)) of
             None \<Rightarrow> None
           | Some parts \<Rightarrow> Some (concat (map (\<lambda>part. CHR ''/'' # part) parts)))"

definition NormalizeLogicalPath :: "string \<Rightarrow> string option" where
  "NormalizeLogicalPath input =
     (if input = [] \<or> hd input = CHR ''/'' then None
      else case SplitAndValidate input of
             None \<Rightarrow> None
           | Some parts \<Rightarrow> Some (join_with CHR ''/'' parts))"

lemma NormalizeLogicalPath_eq:
  "NormalizeLogicalPath s = (if is_logical_path s then Some s else None)"
  by (auto simp: NormalizeLogicalPath_def SplitAndValidate_relative
      dest: is_logical_path_nonempty is_logical_path_hd)

subsection \<open>Placeholders\<close>

definition PackageAllowed :: "string \<Rightarrow> bool" where
  "PackageAllowed package \<longleftrightarrow>
     package \<noteq> [] \<and>
     (\<forall>c \<in> set package.
        c \<notin> {CHR ''/'', CHR ''{'', CHR ''}'', CHR '' '', CHR 0x09, CHR 0x0D, CHR 0x0A})"

text \<open>The replacement loop: \<open>find("{package}", offset)\<close>, replace, continue after the package name.\<close>

function ReplacePackage :: "string \<Rightarrow> string \<Rightarrow> string" where
  "ReplacePackage package [] = []"
| "ReplacePackage package (c # cs) =
     (if prefix ''{package}'' (c # cs) then package @ ReplacePackage package (drop 9 (c # cs))
      else c # ReplacePackage package cs)"
  by pat_completeness auto
termination
  by (relation "measure (\<lambda>(p, s). length s)") auto

definition ExpandPackagePlaceholder :: "string \<Rightarrow> string \<Rightarrow> string option" where
  "ExpandPackagePlaceholder input package =
     (if \<not> PackageAllowed package then None
      else let output = ReplacePackage package input in
           if find_char CHR ''{'' output = None \<and> find_char CHR ''}'' output = None
           then Some output else None)"

text \<open>The second loop of \<open>ExpandPathPlaceholders\<close>, on the suffix at \<open>offset\<close>: every brace must belong
  to a \<open>{user}\<close>.\<close>

function CheckUserPlaceholders :: "string \<Rightarrow> bool" where
  "CheckUserPlaceholders s =
     (if s = [] then True
      else let open = find_char CHR ''{'' s; close = find_char CHR ''}'' s in
           if (case close of None \<Rightarrow> False
               | Some k \<Rightarrow> (case open of None \<Rightarrow> True | Some i \<Rightarrow> k < i)) then False
           else case open of
                  None \<Rightarrow> True
                | Some i \<Rightarrow>
                    if take 6 (drop i s) \<noteq> ''{user}'' then False
                    else CheckUserPlaceholders (drop (i + 6) s))"
  by pat_completeness auto
termination
  by (relation "measure length") (auto simp: find_char_Some)

declare CheckUserPlaceholders.simps [simp del]

definition ExpandPathPlaceholders :: "string \<Rightarrow> string \<Rightarrow> string option" where
  "ExpandPathPlaceholders input package =
     (if \<not> PackageAllowed package then None
      else let output = ReplacePackage package input in
           if CheckUserPlaceholders output then Some output else None)"

subsection \<open>Ancestors\<close>

definition IsPathOrDescendant :: "string \<Rightarrow> string \<Rightarrow> bool" where
  "IsPathOrDescendant path directory \<longleftrightarrow>
     path = directory \<or>
     (length path > length directory \<and> prefix (directory @ ''/'') path)"

subsection \<open>Facts about the placeholders\<close>

text \<open>Text without braces other than those of \<open>{user}\<close>.\<close>

inductive user_only :: "string \<Rightarrow> bool" where
  user_only_Nil: "user_only []"
| user_only_char: "c \<noteq> CHR ''{'' \<Longrightarrow> c \<noteq> CHR ''}'' \<Longrightarrow> user_only s \<Longrightarrow> user_only (c # s)"
| user_only_user: "user_only s \<Longrightarrow> user_only (''{user}'' @ s)"

inductive_cases user_only_ConsE: "user_only (c # s)"

lemma user_only_append:
  "\<forall>c \<in> set p. c \<noteq> CHR ''{'' \<and> c \<noteq> CHR ''}'' \<Longrightarrow> user_only s \<Longrightarrow> user_only (p @ s)"
  by (induction p) (auto intro: user_only_char)

lemma CheckUserPlaceholders_open:
  assumes "CHR ''{'' \<notin> set p"
  shows "CheckUserPlaceholders (p @ CHR ''{'' # r) \<longleftrightarrow>
    CHR ''}'' \<notin> set p \<and> take 5 r = ''user}'' \<and> CheckUserPlaceholders (drop 5 r)"
proof -
  let ?s = "p @ CHR ''{'' # r"
  have first: "find_char CHR ''{'' ?s = Some (length p)"
    using assms by (rule find_char_appendI)
  have "(case find_char CHR ''}'' ?s of None \<Rightarrow> False | Some k \<Rightarrow> k < length p) \<longleftrightarrow> CHR ''}'' \<in> set p"
    by (auto simp: find_char_Some takeWhile_append length_takeWhile_less split: option.splits)
  hence "(case find_char CHR ''}'' ?s of None \<Rightarrow> False
      | Some k \<Rightarrow> (case Some (length p) of None \<Rightarrow> True | Some i \<Rightarrow> k < i)) \<longleftrightarrow> CHR ''}'' \<in> set p"
    by (simp only: option.case)
  thus ?thesis
    by (subst CheckUserPlaceholders.simps) (simp only: Let_def first, simp add: numeral_eq_Suc)
qed

lemma CheckUserPlaceholders_closed:
  "CHR ''{'' \<notin> set s \<Longrightarrow> CheckUserPlaceholders s \<longleftrightarrow> CHR ''}'' \<notin> set s"
  by (subst CheckUserPlaceholders.simps) (auto simp: Let_def find_char_Some split: option.splits)

lemma CheckUserPlaceholders_sound: "CheckUserPlaceholders s \<Longrightarrow> user_only s"
proof (induction "length s" arbitrary: s rule: less_induct)
  case less
  show ?case
  proof (cases "find_char CHR ''{'' s")
    case None
    with less.prems have "CHR ''}'' \<notin> set s" by (simp add: CheckUserPlaceholders_closed)
    with None show ?thesis
      using user_only_append [of s "[]"] by (auto intro: user_only_Nil)
  next
    case (Some i)
    from find_char_split [OF Some] obtain p r where
      s: "s = p @ CHR ''{'' # r" and p: "CHR ''{'' \<notin> set p" by blast
    with less.prems have close: "CHR ''}'' \<notin> set p" and user: "take 5 r = ''user}''"
      and rest: "CheckUserPlaceholders (drop 5 r)"
      by (simp_all add: CheckUserPlaceholders_open)
    from s rest have "user_only (drop 5 r)" by (intro less.hyps) auto
    moreover have "CHR ''{'' # r = ''{user}'' @ drop 5 r"
      using user append_take_drop_id [of 5 r] by simp
    ultimately have "user_only (CHR ''{'' # r)" by (metis user_only_user)
    thus ?thesis using s p close user_only_append [of p "CHR ''{'' # r"] by metis
  qed
qed

lemma CheckUserPlaceholders_Cons:
  "c \<noteq> CHR ''{'' \<Longrightarrow> c \<noteq> CHR ''}'' \<Longrightarrow> CheckUserPlaceholders (c # s) = CheckUserPlaceholders s"
proof (cases "CHR ''{'' \<in> set s")
  case True
  then obtain p r where s: "s = p @ CHR ''{'' # r" and p: "CHR ''{'' \<notin> set p"
    by (metis split_list_first)
  assume "c \<noteq> CHR ''{''" "c \<noteq> CHR ''}''"
  thus ?thesis
    using CheckUserPlaceholders_open [of "c # p" r] CheckUserPlaceholders_open [of p r] p s by simp
qed (simp add: CheckUserPlaceholders_closed)

lemma CheckUserPlaceholders_iff: "CheckUserPlaceholders s \<longleftrightarrow> user_only s"
proof
  assume "user_only s"
  thus "CheckUserPlaceholders s"
  proof induction
    case user_only_Nil
    show ?case by (simp add: CheckUserPlaceholders_closed)
  next
    case (user_only_user s)
    thus ?case using CheckUserPlaceholders_open [of "[]" "''user}'' @ s"] by simp
  qed (simp add: CheckUserPlaceholders_Cons)
qed (rule CheckUserPlaceholders_sound)

lemma ReplacePackage_user_only: "user_only s \<Longrightarrow> ReplacePackage package s = s"
  by (induction rule: user_only.induct) (auto simp: prefix_def)

lemma ExpandPathPlaceholders_Some:
  "ExpandPathPlaceholders s package = Some t \<Longrightarrow> PackageAllowed package \<and> user_only t"
  by (auto simp: ExpandPathPlaceholders_def Let_def CheckUserPlaceholders_iff split: if_splits)

lemma ExpandPathPlaceholders_user_only:
  "PackageAllowed package \<Longrightarrow> user_only t \<Longrightarrow> ExpandPathPlaceholders t package = Some t"
  by (simp add: ExpandPathPlaceholders_def ReplacePackage_user_only CheckUserPlaceholders_iff)

text \<open>Expanding placeholders twice is expanding them once, for any second package name.\<close>

lemma ExpandPathPlaceholders_idem:
  "ExpandPathPlaceholders s package = Some t \<Longrightarrow>
   PackageAllowed package' \<Longrightarrow> ExpandPathPlaceholders t package' = Some t"
  by (blast dest: ExpandPathPlaceholders_Some ExpandPathPlaceholders_user_only)

lemma ExpandPackagePlaceholder_Some:
  "ExpandPackagePlaceholder s package = Some t \<Longrightarrow>
   PackageAllowed package \<and> CHR ''{'' \<notin> set t \<and> CHR ''}'' \<notin> set t"
  by (auto simp: ExpandPackagePlaceholder_def Let_def split: if_splits)

text \<open>The stricter expansion is the general one restricted to texts that end up without braces.\<close>

lemma ExpandPackagePlaceholder_refines:
  "ExpandPackagePlaceholder s package = Some t \<longleftrightarrow>
   ExpandPathPlaceholders s package = Some t \<and> CHR ''{'' \<notin> set t"
  using CheckUserPlaceholders_closed [of "ReplacePackage package s"]
  by (auto simp: ExpandPackagePlaceholder_def ExpandPathPlaceholders_def Let_def split: if_splits)

subsection \<open>Facts about normalisation\<close>

lemma StripTrailingSlashes_replicate:
  "\<exists>k. s = StripTrailingSlashes s @ replicate k CHR ''/''"
proof (induction s rule: StripTrailingSlashes.induct)
  case (1 s)
  show ?case
  proof (cases "length s > 1 \<and> last s = CHR ''/''")
    case True
    then obtain k where "butlast s = StripTrailingSlashes (butlast s) @ replicate k CHR ''/''"
      using 1 by blast
    moreover have "s = butlast s @ ''/''"
      using True append_butlast_last_id [of s] by fastforce
    ultimately have "s = StripTrailingSlashes (butlast s) @ replicate (Suc k) CHR ''/''"
      by (metis append_assoc replicate_append_same replicate_Suc)
    moreover have "StripTrailingSlashes s = StripTrailingSlashes (butlast s)"
      using True by (subst StripTrailingSlashes.simps) simp
    ultimately show ?thesis by metis
  next
    case False
    thus ?thesis by (subst StripTrailingSlashes.simps) (auto intro: exI [of _ 0])
  qed
qed

lemma StripTrailingSlashes_prefix: "prefix (StripTrailingSlashes s) s"
  using StripTrailingSlashes_replicate [of s] by (metis prefixI)

lemma StripTrailingSlashes_keeps:
  assumes "prefix p s" "p \<noteq> []" "last p \<noteq> CHR ''/''"
  shows "prefix p (StripTrailingSlashes s)"
proof -
  let ?v = "StripTrailingSlashes s"
  obtain k where s: "s = ?v @ replicate k CHR ''/''"
    using StripTrailingSlashes_replicate by blast
  have "prefix p ?v \<or> strict_prefix ?v p"
    using prefix_same_cases [OF assms(1) StripTrailingSlashes_prefix [of s]]
    by (auto simp: strict_prefix_def)
  moreover have False if "strict_prefix ?v p"
  proof -
    from that obtain c cs where p: "p = ?v @ c # cs" by (metis strict_prefixE')
    have "prefix (?v @ c # cs) (?v @ replicate k CHR ''/'')" using assms(1) p s by simp
    hence "prefix (c # cs) (replicate k CHR ''/'')" by (simp only: same_prefix_prefix)
    hence "set (c # cs) \<subseteq> set (replicate k CHR ''/'')" by (rule set_mono_prefix)
    moreover have "last (c # cs) \<in> set (c # cs)" by (rule last_in_set) simp
    ultimately have "last (c # cs) \<in> set (replicate k CHR ''/'')" by (rule subsetD)
    hence "last (c # cs) = CHR ''/''" by (simp add: in_set_replicate del: last.simps)
    with assms(3) p show False by simp
  qed
  ultimately show ?thesis by blast
qed

lemma StripTrailingSlashes_id: "last s \<noteq> CHR ''/'' \<Longrightarrow> StripTrailingSlashes s = s"
  by (subst StripTrailingSlashes.simps) simp

lemma StripTrailingSlashes_absolute:
  "prefix ''/'' s \<Longrightarrow> prefix ''/'' (StripTrailingSlashes s)"
proof (induction s rule: StripTrailingSlashes.induct)
  case (1 s)
  show ?case
  proof (cases "length s > 1 \<and> last s = CHR ''/''")
    case True
    with 1 have "prefix ''/'' (butlast s)"
      by (cases s) (auto simp: prefix_def)
    with 1 True show ?thesis by (subst StripTrailingSlashes.simps) simp
  next
    case False
    with 1 show ?thesis by (subst StripTrailingSlashes.simps) auto
  qed
qed

text \<open>An absolute path that is its own normal form: absolute, well-formed components, and not one
  of the aliases of the primary storage root.\<close>

definition is_storage_alias :: "string \<Rightarrow> bool" where
  "is_storage_alias s \<longleftrightarrow>
     s = ''/sdcard'' \<or> prefix ''/sdcard/'' s \<or>
     s = ''/storage/self/primary'' \<or> prefix ''/storage/self/primary/'' s"

definition is_normal_path :: "string \<Rightarrow> bool" where
  "is_normal_path s \<longleftrightarrow>
     \<not> is_storage_alias s \<and> length s \<le> kMaxLogicalPathBytes \<and>
     (\<exists>w. s = CHR ''/'' # w \<and> is_logical_path w)"

lemma RewriteStorageAlias_absolute: "s \<noteq> [] \<Longrightarrow> prefix ''/'' (RewriteStorageAlias s)"
  by (auto simp: RewriteStorageAlias_def neq_Nil_conv)

lemma RewriteStorageAlias_cases:
  assumes "s \<noteq> []"
  shows "prefix ''/storage/emulated/0'' (RewriteStorageAlias s) \<or>
         RewriteStorageAlias s = s \<and> \<not> is_storage_alias s"
  using assms by (auto simp: RewriteStorageAlias_def is_storage_alias_def)

lemma not_alias_storage: "prefix ''/storage/emulated/0'' s \<Longrightarrow> \<not> is_storage_alias s"
  by (auto simp: is_storage_alias_def prefix_def)

lemma not_alias_strip:
  assumes "\<not> is_storage_alias s"
  shows "\<not> is_storage_alias (StripTrailingSlashes s)"
proof -
  obtain k where s: "s = StripTrailingSlashes s @ replicate k CHR ''/''"
    using StripTrailingSlashes_replicate by blast
  hence slash: "StripTrailingSlashes s \<noteq> s \<Longrightarrow> prefix (StripTrailingSlashes s @ ''/'') s"
    by (cases k) (auto simp: prefix_def)
  have "is_storage_alias s" if "is_storage_alias (StripTrailingSlashes s)"
    using that slash prefix_order.trans [OF _ StripTrailingSlashes_prefix [of s]]
    unfolding is_storage_alias_def by fastforce
  with assms show ?thesis by blast
qed

lemma logical_path_last: "is_logical_path w \<Longrightarrow> last w \<noteq> CHR ''/''"
proof
  assume w: "is_logical_path w" and l: "last w = CHR ''/''"
  hence "w = butlast w @ CHR ''/'' # []"
    using append_butlast_last_id [of w] is_logical_path_nonempty [OF w] by simp
  hence "split_on CHR ''/'' w = split_on CHR ''/'' (butlast w) @ [[]]"
    using split_on_append_sep [of "CHR ''/''" "butlast w" "[]"] by simp
  with w have "ValidComponent []" by (simp add: is_logical_path_def)
  thus False by (simp add: ValidComponent_def)
qed

lemma NormalizePath_eq:
  assumes "s \<noteq> []"
  shows "NormalizePath s =
    (let v = StripTrailingSlashes (RewriteStorageAlias s) in if is_normal_path v then Some v else None)"
proof -
  let ?r = "RewriteStorageAlias s" and ?v = "StripTrailingSlashes (RewriteStorageAlias s)"
  obtain w where v: "?v = CHR ''/'' # w"
    using StripTrailingSlashes_absolute [OF RewriteStorageAlias_absolute [OF assms]]
    by (auto simp: prefix_def)
  have "\<not> is_storage_alias ?v"
    using RewriteStorageAlias_cases [OF assms]
  proof
    assume "prefix ''/storage/emulated/0'' ?r"
    hence "prefix ''/storage/emulated/0'' ?v" by (rule StripTrailingSlashes_keeps) simp_all
    thus ?thesis by (rule not_alias_storage)
  qed (simp add: not_alias_strip)
  with v show ?thesis
    using assms
    by (auto simp: NormalizePath_def SplitAndValidate_absolute concat_sep_split Let_def
        is_normal_path_def)
qed

lemma NormalizePath_normal: "is_normal_path s \<Longrightarrow> NormalizePath s = Some s"
proof -
  assume n: "is_normal_path s"
  then obtain w where s: "s = CHR ''/'' # w" and w: "is_logical_path w"
    by (auto simp: is_normal_path_def)
  have "RewriteStorageAlias s = s"
    using n s by (auto simp: RewriteStorageAlias_def is_normal_path_def is_storage_alias_def)
  moreover have "StripTrailingSlashes s = s"
    using s logical_path_last [OF w] is_logical_path_nonempty [OF w]
    by (intro StripTrailingSlashes_id) simp
  ultimately show ?thesis using n s by (subst NormalizePath_eq) (simp_all add: Let_def)
qed

lemma NormalizePath_result: "NormalizePath s = Some t \<Longrightarrow> is_normal_path t"
proof -
  assume n: "NormalizePath s = Some t"
  hence "s \<noteq> []" by (auto simp: NormalizePath_def)
  with n show ?thesis by (auto simp: NormalizePath_eq Let_def split: if_splits)
qed

subsection \<open>Facts about ancestors\<close>

lemma IsPathOrDescendant_iff: "IsPathOrDescendant p d \<longleftrightarrow> p = d \<or> (\<exists>r. p = d @ CHR ''/'' # r)"
  by (auto simp: IsPathOrDescendant_def prefix_def)

lemma IsPathOrDescendant_refl [simp]: "IsPathOrDescendant p p"
  by (simp add: IsPathOrDescendant_def)

lemma IsPathOrDescendant_trans:
  "IsPathOrDescendant p q \<Longrightarrow> IsPathOrDescendant q r \<Longrightarrow> IsPathOrDescendant p r"
  by (auto simp: IsPathOrDescendant_iff)

lemma IsPathOrDescendant_antisym:
  "IsPathOrDescendant p q \<Longrightarrow> IsPathOrDescendant q p \<Longrightarrow> p = q"
  by (auto simp: IsPathOrDescendant_iff)

lemma IsPathOrDescendant_prefix:
  "IsPathOrDescendant p d \<longleftrightarrow> prefix (split_on CHR ''/'' d) (split_on CHR ''/'' p)"
proof
  assume "IsPathOrDescendant p d"
  thus "prefix (split_on CHR ''/'' d) (split_on CHR ''/'' p)"
    by (auto simp: IsPathOrDescendant_iff split_on_append_sep)
next
  assume "prefix (split_on CHR ''/'' d) (split_on CHR ''/'' p)"
  then obtain ys where ys: "split_on CHR ''/'' p = split_on CHR ''/'' d @ ys"
    by (auto simp: prefix_def)
  show "IsPathOrDescendant p d"
  proof (cases "ys = []")
    case True
    with ys show ?thesis by (metis IsPathOrDescendant_refl append_Nil2 join_split)
  next
    case False
    hence "join_with CHR ''/'' (split_on CHR ''/'' d @ ys) =
        d @ CHR ''/'' # join_with CHR ''/'' ys"
      by (simp add: join_with_append)
    with ys show ?thesis by (metis IsPathOrDescendant_iff join_split)
  qed
qed

subsection \<open>Properties\<close>

text \<open>
  \<open>NormalizePath\<close> computes a normal form.  It succeeds exactly when the text, with the
  storage aliases rewritten and trailing slashes removed, is an absolute path of at most 4096 bytes
  whose components are non-empty, at most 255 bytes and neither \<open>.\<close> nor \<open>..\<close>, without NUL and not below
  an alias; that path is the result.  The normal forms are exactly the fixed points.
\<close>

theorem NormalizePath_normal_form:
  "(NormalizePath s = Some t \<longleftrightarrow>
      s \<noteq> [] \<and> t = StripTrailingSlashes (RewriteStorageAlias s) \<and> is_normal_path t) \<and>
   (is_normal_path t \<longleftrightarrow> NormalizePath t = Some t)"
  using NormalizePath_eq [of s] NormalizePath_normal [of t] NormalizePath_result [of t t]
  by (auto simp: Let_def NormalizePath_def split: if_splits)

text \<open>
  \<open>ExpandPathPlaceholders\<close> replaces every \<open>{package}\<close> from left to right and accepts the
  result exactly when its only remaining braces are those of \<open>{user}\<close> (a grammar given by rules, not by
  the scanning loop).  Expanding an expanded path again, for any package, changes nothing.
\<close>

theorem ExpandPathPlaceholders_spec:
  "(ExpandPathPlaceholders s package = Some t \<longleftrightarrow>
      PackageAllowed package \<and> t = ReplacePackage package s \<and> user_only t) \<and>
   (ExpandPathPlaceholders s package = Some t \<and> PackageAllowed package' \<longrightarrow>
      ExpandPathPlaceholders t package' = Some t)"
  using ExpandPathPlaceholders_idem [of s package t package']
  by (auto simp: ExpandPathPlaceholders_def Let_def CheckUserPlaceholders_iff)

theorem ExpandPathPlaceholders_spec_witness:
  "ExpandPathPlaceholders ''a/{package}/{user}'' ''org.x'' = Some ''a/org.x/{user}'' \<and>
   ExpandPathPlaceholders ''a/org.x/{user}'' ''com.y'' = Some ''a/org.x/{user}''"
proof -
  have "ExpandPathPlaceholders ''a/{package}/{user}'' ''org.x'' = Some ''a/org.x/{user}''"
    "PackageAllowed ''com.y''" by code_simp+
  with ExpandPathPlaceholders_spec show ?thesis by blast
qed

end
