(* ===== verification/PG_Topology.thy ===== *)
theory PG_Topology
  imports PG_Path
begin

text \<open>
  The storage topology, \<open>core/src/topology.cpp\<close>: the parser of \<open>/proc/self/mountinfo\<close>, the discovery of
  the emulated storage roots of every Android user, and the resolution of logical paths to visible
  and backend paths.

  \<open>ParseMountInfo\<close> walks a \<open>std::unordered_map\<close>, whose iteration order the standard leaves open.  The
  map is kept as the association list of its insertions, and the order in which the loop sees it is
  the parameter \<open>iter\<close>; the theorems hold for every \<open>iter\<close> that permutes its argument.
\<close>

subsection \<open>Data\<close>

record StorageTopologyAlias =
  alias_mount_id :: u64
  alias_path :: string

record StorageTopologyMount =
  user_id :: u32
  topology_mount_id :: u64
  visible_root :: string
  backend_root :: string
  mount_filesystem_type :: string
  aliases :: "StorageTopologyAlias list"

record StorageTopology =
  supported :: bool
  unsupported_reason :: string
  topology_mounts :: "StorageTopologyMount list"

record MountRecord =
  mount_id :: u64
  device_id :: string
  record_root :: string
  mountpoint :: string
  filesystem_type :: string
  record_source :: string

text \<open>\<open>Unsupported\<close> marks the topology and reports the reason: the value of a failed run is the
  topology it leaves behind.\<close>

definition Unsupported :: "StorageTopology \<Rightarrow> string \<Rightarrow> StorageTopology + 'a" where
  "Unsupported topology message =
     Inl (topology\<lparr>supported := False, unsupported_reason := message\<rparr>)"

subsection \<open>Fields of a line\<close>

definition ParseUnsigned :: "string \<Rightarrow> u64 option" where
  "ParseUnsigned text =
     (if text = [] then None
      else case from_chars 64 text of Some (v, []) \<Rightarrow> Some (of_nat v) | _ \<Rightarrow> None)"

definition IsDeviceId :: "string \<Rightarrow> bool" where
  "IsDeviceId text =
     (case find_char CHR '':'' text of
        None \<Rightarrow> False
      | Some separator \<Rightarrow>
          if separator = 0 \<or> separator + 1 = length text \<or>
             find_char CHR '':'' (drop (separator + 1) text) \<noteq> None then False
          else ParseUnsigned (take separator text) \<noteq> None \<and>
               ParseUnsigned (drop (separator + 1) text) \<noteq> None)"

definition is_octal :: "char \<Rightarrow> bool" where
  "is_octal c \<longleftrightarrow> CHR ''0'' \<le> c \<and> c \<le> CHR ''7''"

definition octal_value :: "char \<Rightarrow> char \<Rightarrow> char \<Rightarrow> nat" where
  "octal_value a b c = digit_value a * 64 + digit_value b * 8 + digit_value c"

fun DecodeMountInfoPath :: "string \<Rightarrow> string option" where
  "DecodeMountInfoPath [] = Some []"
| "DecodeMountInfoPath (c # cs) =
     (if c \<noteq> CHR 0x5C then map_option ((#) c) (DecodeMountInfoPath cs)
      else case cs of
             d1 # d2 # d3 # rest \<Rightarrow>
               if \<not> is_octal d1 \<or> \<not> is_octal d2 \<or> \<not> is_octal d3 then None
               else let v = octal_value d1 d2 d3 in
                    if v = 0 \<or> v > 0x7F then None
                    else map_option ((#) (char_of v)) (DecodeMountInfoPath rest)
           | _ \<Rightarrow> None)"

definition IsDecimal :: "string \<Rightarrow> bool" where
  "IsDecimal text \<longleftrightarrow> text \<noteq> [] \<and> list_all is_digit text"

definition ParseUserId :: "string \<Rightarrow> u32 option" where
  "ParseUserId text =
     (if \<not> IsDecimal text then None
      else case ParseUnsigned text of
             None \<Rightarrow> None
           | Some parsed \<Rightarrow> if unat parsed < 2 ^ 32 then Some (ucast parsed) else None)"

definition ParsePrimaryRoot :: "string \<Rightarrow> u32 option" where
  "ParsePrimaryRoot path =
     (if prefix ''/storage/emulated/'' path then ParseUserId (drop 18 path) else None)"

definition ParseUserMountpoint :: "string \<Rightarrow> string \<Rightarrow> string \<Rightarrow> u32 option" where
  "ParseUserMountpoint path pre suf =
     (if \<not> prefix pre path then None
      else let rest = drop (length pre) path in
           case find_char CHR ''/'' rest of
             None \<Rightarrow> None
           | Some separator \<Rightarrow>
               if drop separator rest \<noteq> suf then None else ParseUserId (take separator rest))"

text \<open>\<open>std::getline\<close> over the whole text and \<open>operator>>\<close> over one line (white space of the C locale).\<close>

definition getlines :: "string \<Rightarrow> string list" where
  "getlines text =
     (let ls = split_on CHR 0x0A text in if last ls = [] then butlast ls else ls)"

definition is_space :: "char \<Rightarrow> bool" where
  "is_space c \<longleftrightarrow> c = CHR '' '' \<or> (CHR 0x09 \<le> c \<and> c \<le> CHR 0x0D)"

function tokens_of :: "string \<Rightarrow> string list" where
  "tokens_of s =
     (case dropWhile is_space s of
        [] \<Rightarrow> []
      | c # cs \<Rightarrow> (c # takeWhile (\<lambda>x. \<not> is_space x) cs) #
                 tokens_of (dropWhile (\<lambda>x. \<not> is_space x) cs))"
  by pat_completeness auto
termination
proof (relation "measure length")
  fix s c cs assume "dropWhile is_space s = c # cs"
  hence "length cs < length s" by (rule length_dropWhile_Cons)
  thus "(dropWhile (\<lambda>x. \<not> is_space x) cs, s) \<in> measure length"
    using length_dropWhile_le [of "\<lambda>x. \<not> is_space x" cs] by simp
qed simp

declare tokens_of.simps [simp del]

fun index_of :: "'a \<Rightarrow> 'a list \<Rightarrow> nat option" where
  "index_of x [] = None"
| "index_of x (y # ys) = (if y = x then Some 0 else map_option Suc (index_of x ys))"

definition ParseRecord :: "string list \<Rightarrow> nat \<Rightarrow> MountRecord option" where
  "ParseRecord tokens separator =
     (case (ParseUnsigned (tokens ! 0), DecodeMountInfoPath (tokens ! 3),
            DecodeMountInfoPath (tokens ! 4), DecodeMountInfoPath (tokens ! (separator + 2))) of
        (Some mid, Some root, Some point, Some src) \<Rightarrow>
          if \<not> IsDeviceId (tokens ! 2) \<or> point = [] \<or> hd point \<noteq> CHR ''/'' then None
          else Some \<lparr>mount_id = mid, device_id = tokens ! 2, record_root = root, mountpoint = point,
                     filesystem_type = tokens ! (separator + 1), record_source = src\<rparr>
      | _ \<Rightarrow> None)"

fun ParseLines :: "StorageTopology \<Rightarrow> nat \<Rightarrow> string list \<Rightarrow> StorageTopology + MountRecord list" where
  "ParseLines topology line_number [] = Inr []"
| "ParseLines topology line_number (line # rest) =
     (if line = [] then ParseLines topology (line_number + 1) rest
      else let tokens = tokens_of line in
        case index_of ''-'' tokens of
          None \<Rightarrow> Unsupported topology (''malformed mountinfo line '' @ to_string (line_number + 1))
        | Some separator \<Rightarrow>
            if length tokens < 7 \<or> separator < 6 \<or> separator + 2 \<ge> length tokens
            then Unsupported topology (''malformed mountinfo line '' @ to_string (line_number + 1))
            else case ParseRecord tokens separator of
                   None \<Rightarrow> Unsupported topology (''invalid mountinfo line '' @ to_string (line_number + 1))
                 | Some rec \<Rightarrow>
                     (case ParseLines topology (line_number + 1) rest of
                        Inl t \<Rightarrow> Inl t | Inr recs \<Rightarrow> Inr (rec # recs)))"

subsection \<open>Roots\<close>

definition MediaRoot :: "u32 \<Rightarrow> string" where
  "MediaRoot user = ''/data/media/'' @ to_string (unat user)"

definition DeriveBackendRoot :: "string \<Rightarrow> u32 \<Rightarrow> string option" where
  "DeriveBackendRoot src user =
     (if src = ''/data/media'' then Some (MediaRoot user)
      else if src = MediaRoot user then Some (MediaRoot user) else None)"

definition DerivePassThroughBackendRoot ::
  "MountRecord \<Rightarrow> MountRecord list \<Rightarrow> u32 \<Rightarrow> string option" where
  "DerivePassThroughBackendRoot rec recs user =
     (case DeriveBackendRoot (record_source rec) user of
        Some root \<Rightarrow> Some root
      | None \<Rightarrow>
          if record_root rec \<noteq> ''/media'' \<or>
             ParseUserMountpoint (mountpoint rec) ''/mnt/pass_through/'' ''/emulated'' \<noteq> Some user
          then None
          else if list_ex (\<lambda>candidate. mountpoint candidate = ''/data'' \<and> record_root candidate = ''/'' \<and>
                  device_id candidate = device_id rec \<and>
                  filesystem_type candidate = filesystem_type rec \<and>
                  record_source candidate = record_source rec) recs
          then Some (MediaRoot user) else None)"

definition FindUserMount :: "StorageTopologyMount list \<Rightarrow> u32 \<Rightarrow> StorageTopologyMount option" where
  "FindUserMount ms user = List.find (\<lambda>m. user_id m = user) ms"

definition AddAlias :: "u64 \<Rightarrow> string \<Rightarrow> StorageTopologyMount \<Rightarrow> StorageTopologyMount" where
  "AddAlias mid path mount =
     (if list_ex (\<lambda>a. alias_mount_id a = mid \<and> alias_path a = path) (aliases mount) then mount
      else mount\<lparr>aliases := aliases mount @ [\<lparr>alias_mount_id = mid, alias_path = path\<rparr>]\<rparr>)"

text \<open>A write through the pointer that \<open>FindUserMount\<close> returned: the first mount of the user.\<close>

fun update_user :: "u32 \<Rightarrow> (StorageTopologyMount \<Rightarrow> StorageTopologyMount) \<Rightarrow>
    StorageTopologyMount list \<Rightarrow> StorageTopologyMount list" where
  "update_user user f [] = []"
| "update_user user f (m # ms) = (if user_id m = user then f m # ms else m # update_user user f ms)"

subsection \<open>The phases of \<open>ParseMountInfo\<close>\<close>

fun PrimaryRoots :: "StorageTopology \<Rightarrow> MountRecord list \<Rightarrow> StorageTopology + StorageTopology" where
  "PrimaryRoots topology [] = Inr topology"
| "PrimaryRoots topology (rec # recs) =
     (case ParsePrimaryRoot (mountpoint rec) of
        None \<Rightarrow> PrimaryRoots topology recs
      | Some user \<Rightarrow>
          case DeriveBackendRoot (record_source rec) user of
            None \<Rightarrow> PrimaryRoots topology recs
          | Some root \<Rightarrow>
              case FindUserMount (topology_mounts topology) user of
                Some existing \<Rightarrow>
                  if topology_mount_id existing \<noteq> mount_id rec \<or> backend_root existing \<noteq> root
                  then Unsupported topology
                         (''conflicting storage roots for user '' @ to_string (unat user))
                  else PrimaryRoots topology recs
              | None \<Rightarrow>
                  PrimaryRoots (topology\<lparr>topology_mounts := topology_mounts topology @
                    [\<lparr>user_id = user, topology_mount_id = mount_id rec,
                      visible_root = mountpoint rec, backend_root = root,
                      mount_filesystem_type = filesystem_type rec, aliases = []\<rparr>]\<rparr>) recs)"

fun AggregateVisible ::
  "StorageTopology \<Rightarrow> MountRecord option \<Rightarrow> MountRecord list \<Rightarrow> StorageTopology + MountRecord option" where
  "AggregateVisible topology aggregate [] = Inr aggregate"
| "AggregateVisible topology aggregate (rec # recs) =
     (if mountpoint rec \<noteq> ''/storage/emulated'' then AggregateVisible topology aggregate recs
      else case aggregate of
             Some a \<Rightarrow> if mount_id a \<noteq> mount_id rec
                       then Unsupported topology ''conflicting aggregate storage roots''
                       else AggregateVisible topology (Some rec) recs
           | None \<Rightarrow> AggregateVisible topology (Some rec) recs)"

text \<open>\<open>emplace\<close> keeps the value that is already there.\<close>

definition emplace :: "'k \<Rightarrow> 'v \<Rightarrow> ('k \<times> 'v) list \<Rightarrow> ('k \<times> 'v) list" where
  "emplace k v al = (if k \<in> fst ` set al then al else al @ [(k, v)])"

fun CollectEvidence ::
  "MountRecord list \<Rightarrow> (u32 \<times> MountRecord) list \<Rightarrow> (u32 \<times> string) list \<Rightarrow> MountRecord list \<Rightarrow>
   (u32 \<times> MountRecord) list \<times> (u32 \<times> string) list" where
  "CollectEvidence records visible evidence [] = (visible, evidence)"
| "CollectEvidence records visible evidence (rec # recs) =
     (let visible' =
            (case ParseUserMountpoint (mountpoint rec) ''/mnt/user/'' ''/emulated'' of
               Some user \<Rightarrow> emplace user rec visible | None \<Rightarrow> visible);
          evidence' =
            (case ParseUserMountpoint (mountpoint rec) ''/mnt/pass_through/'' ''/emulated'' of
               Some user \<Rightarrow>
                 (case DerivePassThroughBackendRoot rec records user of
                    Some root \<Rightarrow> emplace user root evidence | None \<Rightarrow> evidence)
             | None \<Rightarrow> evidence)
      in CollectEvidence records visible' evidence' recs)"

fun AddVisibleAliases ::
  "MountRecord option \<Rightarrow> (u32 \<times> string) list \<Rightarrow> StorageTopology \<Rightarrow> (u32 \<times> MountRecord) list \<Rightarrow>
   StorageTopology + StorageTopology" where
  "AddVisibleAliases aggregate evidence topology [] = Inr topology"
| "AddVisibleAliases aggregate evidence topology ((user, rec) # items) =
     (case FindUserMount (topology_mounts topology) user of
        Some _ \<Rightarrow>
          AddVisibleAliases aggregate evidence
            (topology\<lparr>topology_mounts :=
               update_user user (AddAlias (mount_id rec) (mountpoint rec)) (topology_mounts topology)\<rparr>)
            items
      | None \<Rightarrow>
          (case aggregate of
             None \<Rightarrow> Unsupported topology ''missing aggregate visible storage root''
           | Some a \<Rightarrow>
               case map_of evidence user of
                 None \<Rightarrow> Unsupported topology
                   (''missing backend evidence for user '' @ to_string (unat user))
               | Some root \<Rightarrow>
                   AddVisibleAliases aggregate evidence
                     (topology\<lparr>topology_mounts := topology_mounts topology @
                        [AddAlias (mount_id rec) (mountpoint rec)
                          \<lparr>user_id = user, topology_mount_id = mount_id a,
                           visible_root = ''/storage/emulated/'' @ to_string (unat user),
                           backend_root = root, mount_filesystem_type = filesystem_type a,
                           aliases = []\<rparr>]\<rparr>) items))"

fun AddPrimaryAliases :: "StorageTopologyMount list \<Rightarrow> MountRecord list \<Rightarrow> StorageTopologyMount list" where
  "AddPrimaryAliases ms [] = ms"
| "AddPrimaryAliases ms (rec # recs) =
     (if mountpoint rec \<noteq> ''/sdcard'' \<and> mountpoint rec \<noteq> ''/storage/self/primary''
      then AddPrimaryAliases ms recs
      else AddPrimaryAliases
             (map (\<lambda>m. if user_id m = 0 then AddAlias (mount_id rec) (mountpoint rec) m else m) ms) recs)"

definition empty_topology :: StorageTopology where
  "empty_topology = \<lparr>supported = False, unsupported_reason = [], topology_mounts = []\<rparr>"

definition ParseMountInfo ::
  "((u32 \<times> MountRecord) list \<Rightarrow> (u32 \<times> MountRecord) list) \<Rightarrow> string \<Rightarrow>
   StorageTopology + StorageTopology" where
  "ParseMountInfo iter mountinfo =
     (case ParseLines empty_topology 0 (getlines mountinfo) of
        Inl t \<Rightarrow> Inl t
      | Inr records \<Rightarrow>
        case PrimaryRoots empty_topology records of
          Inl t \<Rightarrow> Inl t
        | Inr topology \<Rightarrow>
          case AggregateVisible topology None records of
            Inl t \<Rightarrow> Inl t
          | Inr aggregate \<Rightarrow>
            let (visible, evidence) = CollectEvidence records [] [] records in
            case AddVisibleAliases aggregate evidence topology (iter visible) of
              Inl t \<Rightarrow> Inl t
            | Inr topology' \<Rightarrow>
                let mounts' = sort_key user_id (AddPrimaryAliases (topology_mounts topology') records);
                    topology'' = topology'\<lparr>topology_mounts := mounts'\<rparr> in
                if mounts' = [] then Unsupported topology'' ''no supported emulated storage root found''
                else Inr (topology''\<lparr>supported := True, unsupported_reason := []\<rparr>))"

subsection \<open>Resolving paths\<close>

definition SafeComponent :: "string \<Rightarrow> bool" where
  "SafeComponent component \<longleftrightarrow>
     component \<noteq> [] \<and> component \<noteq> ''.'' \<and> component \<noteq> ''..'' \<and>
     CHR 0x5C \<notin> set component \<and> CHR ''{'' \<notin> set component \<and> CHR ''}'' \<notin> set component"

text \<open>The component loop runs while \<open>start < path.size()\<close>.\<close>

fun SafeLoop :: "string \<Rightarrow> bool" where
  "SafeLoop rest =
     (if rest = [] then True
      else if \<not> SafeComponent (takeWhile (\<lambda>c. c \<noteq> CHR ''/'') rest) then False
      else case dropWhile (\<lambda>c. c \<noteq> CHR ''/'') rest of
             [] \<Rightarrow> True
           | _ # rest' \<Rightarrow> SafeLoop rest')"

declare SafeLoop.simps [simp del]

definition IsSafeLogicalPath :: "string \<Rightarrow> bool" where
  "IsSafeLogicalPath path =
     (if path = [] then True
      else if hd path = CHR ''/'' \<or> last path = CHR ''/'' then False
      else SafeLoop path)"

definition ResolvePath :: "StorageTopology \<Rightarrow> u32 \<Rightarrow> string \<Rightarrow> bool \<Rightarrow> string + string" where
  "ResolvePath topology user logical_path backend =
     (if \<not> supported topology
      then Inl (if unsupported_reason topology = [] then ''storage topology is unsupported''
                else unsupported_reason topology)
      else if \<not> IsSafeLogicalPath logical_path then Inl ''invalid logical storage path''
      else case FindUserMount (topology_mounts topology) user of
             None \<Rightarrow> Inl ''storage user is not mounted''
           | Some mount \<Rightarrow>
               let root = (if backend then backend_root mount else visible_root mount) in
               Inr (if logical_path \<noteq> [] then root @ CHR ''/'' # logical_path else root))"

definition ResolveVisibleStoragePath :: "StorageTopology \<Rightarrow> u32 \<Rightarrow> string \<Rightarrow> string + string" where
  "ResolveVisibleStoragePath topology user logical_path = ResolvePath topology user logical_path False"

definition ResolveBackendStoragePath :: "StorageTopology \<Rightarrow> u32 \<Rightarrow> string \<Rightarrow> string + string" where
  "ResolveBackendStoragePath topology user logical_path = ResolvePath topology user logical_path True"

subsection \<open>Escaped paths\<close>

text \<open>How the kernel writes a path into a mountinfo line: characters of an escape set (blanks, line ends,
  the backslash) become three octal digits.\<close>

definition octal_escape :: "char \<Rightarrow> string" where
  "octal_escape c =
     (let n = of_char c :: nat in
      [CHR 0x5C, digit_char (n div 64), digit_char (n div 8 mod 8), digit_char (n mod 8)])"

definition mangle :: "char set \<Rightarrow> string \<Rightarrow> string" where
  "mangle esc s = concat (map (\<lambda>c. if c \<in> esc then octal_escape c else [c]) s)"

lemma octal_digit:
  assumes "d < 8"
  shows "is_octal (digit_char d)" "digit_value (digit_char d) = d"
  using assms digit_char_props [of d]
  by (simp_all add: is_octal_def digit_char_def less_eq_char_def)

lemma DecodeMountInfoPath_escape:
  assumes "0 < (of_char c :: nat)" "of_char c \<le> (127 :: nat)"
  shows "DecodeMountInfoPath (octal_escape c @ rest) = map_option ((#) c) (DecodeMountInfoPath rest)"
proof -
  let ?n = "of_char c :: nat"
  have d: "?n div 64 < 8" "?n div 8 mod 8 < 8" "?n mod 8 < 8" using assms(2) by auto
  have "?n div 64 = ?n div 8 div 8" by (simp flip: div_mult2_eq)
  hence "?n div 64 * 64 + ?n div 8 mod 8 * 8 + ?n mod 8 = ?n"
    using div_mult_mod_eq [of ?n 8] div_mult_mod_eq [of "?n div 8" 8] by linarith
  with d assms show ?thesis
    by (simp add: octal_escape_def Let_def octal_digit octal_value_def)
qed

lemma DecodeMountInfoPath_mangle:
  assumes "CHR 0x5C \<in> esc" "\<forall>c \<in> esc. 0 < (of_char c :: nat) \<and> of_char c \<le> (127 :: nat)"
  shows "DecodeMountInfoPath (mangle esc s) = Some s"
proof (induction s)
  case (Cons c s)
  have split: "mangle esc (c # s) = (if c \<in> esc then octal_escape c else [c]) @ mangle esc s"
    by (simp add: mangle_def)
  show ?case
  proof (cases "c \<in> esc")
    case True
    with assms(2) Cons show ?thesis by (simp add: split DecodeMountInfoPath_escape)
  next
    case False
    with assms(1) have "c \<noteq> CHR 0x5C" by blast
    with False Cons show ?thesis by (simp add: split)
  qed
qed (simp add: mangle_def)

subsection \<open>Safe logical paths\<close>

lemma SafeLoop_components:
  "rest \<noteq> [] \<Longrightarrow> last rest \<noteq> CHR ''/'' \<Longrightarrow>
   SafeLoop rest \<longleftrightarrow> (\<forall>p \<in> set (split_on CHR ''/'' rest). SafeComponent p)"
proof (induction "length rest" arbitrary: rest rule: less_induct)
  case less
  show ?case
  proof (cases "dropWhile (\<lambda>c. c \<noteq> CHR ''/'') rest")
    case Nil
    show ?thesis
      by (subst SafeLoop.simps, subst split_on_unfold) (simp add: Nil less.prems)
  next
    case (Cons c rest')
    have "rest = takeWhile (\<lambda>c. c \<noteq> CHR ''/'') rest @ c # rest'"
      using Cons takeWhile_dropWhile_id by metis
    moreover have "c = CHR ''/''"
      using hd_dropWhile [of "\<lambda>c. c \<noteq> CHR ''/''" rest] Cons by simp
    ultimately have ne: "rest' \<noteq> []" "last rest' \<noteq> CHR ''/''"
      using less.prems(2) by (metis last_snoc, metis last_appendR last_ConsR list.distinct(1) last_snoc)
    have "length rest' < length rest" using Cons by (rule length_dropWhile_Cons)
    from less.hyps [OF this ne] show ?thesis
      by (subst SafeLoop.simps, subst split_on_unfold) (simp add: Cons less.prems)
  qed
qed

lemma IsSafeLogicalPath_iff:
  "IsSafeLogicalPath path \<longleftrightarrow> path = [] \<or> (\<forall>p \<in> set (split_on CHR ''/'' path). SafeComponent p)"
proof -
  have first: "[] \<in> set (split_on CHR ''/'' path)" if "path \<noteq> []" "hd path = CHR ''/''"
    using that by (cases path) auto
  have final: "[] \<in> set (split_on CHR ''/'' path)" if "path \<noteq> []" "last path = CHR ''/''"
    using split_on_append_sep [of "CHR ''/''" "butlast path" "[]"] that
      append_butlast_last_id [of path] by simp
  have "\<not> SafeComponent []" by (simp add: SafeComponent_def)
  thus ?thesis using first final SafeLoop_components [of path] by (auto simp: IsSafeLogicalPath_def)
qed

subsection \<open>User numbers\<close>

lemma ParseUserId_digits: "ParseUserId d = Some u \<Longrightarrow> d \<noteq> [] \<and> (\<forall>c \<in> set d. is_digit c)"
  by (auto simp: ParseUserId_def IsDecimal_def list_all_iff split: if_splits)

lemma ParseUserId_to_string: "ParseUserId (to_string (unat u)) = Some u"
proof -
  have lt: "unat u < 2 ^ 32" using unsigned_less [of u] by simp
  hence "ParseUnsigned (to_string (unat u)) = Some (of_nat (unat u))"
    by (simp add: ParseUnsigned_def from_chars_to_string)
  moreover have n: "unat (of_nat n :: u64) = n" if "n < 2 ^ 32" for n
    using that by (simp add: unat_of_nat)
  moreover have "ucast (of_nat (unat u) :: u64) = u"
  proof -
    have "(ucast x :: u32) = of_nat (unat x)" for x :: u64 by simp
    from this [of "of_nat (unat u)"] show ?thesis unfolding n [OF lt] by simp
  qed
  moreover have "IsDecimal (to_string (unat u))"
    using to_string_digits by (auto simp: IsDecimal_def list_all_iff)
  ultimately show ?thesis using lt n [OF lt] by (simp only: ParseUserId_def option.case if_True not_True_eq_False if_False)
qed

lemma MediaRoot_inj: "MediaRoot u = MediaRoot v \<longleftrightarrow> u = v"
  by (auto simp: MediaRoot_def) (metis ParseUserId_to_string option.inject)

subsection \<open>The invariant of the topology\<close>

definition user_root :: "u32 \<Rightarrow> string \<Rightarrow> bool" where
  "user_root u root \<longleftrightarrow> (\<exists>d. root = ''/storage/emulated/'' @ d \<and> ParseUserId d = Some u)"

definition mounts_ok :: "StorageTopologyMount list \<Rightarrow> bool" where
  "mounts_ok ms \<longleftrightarrow> distinct (map user_id ms) \<and>
     (\<forall>m \<in> set ms. backend_root m = MediaRoot (user_id m) \<and> user_root (user_id m) (visible_root m))"

definition evidence_ok :: "(u32 \<times> string) list \<Rightarrow> bool" where
  "evidence_ok ev \<longleftrightarrow> (\<forall>(u, root) \<in> set ev. root = MediaRoot u)"

lemma DeriveBackendRoot_Some: "DeriveBackendRoot src u = Some root \<Longrightarrow> root = MediaRoot u"
  by (auto simp: DeriveBackendRoot_def split: if_splits)

lemma DerivePassThroughBackendRoot_Some:
  "DerivePassThroughBackendRoot rec recs u = Some root \<Longrightarrow> root = MediaRoot u"
  by (auto simp: DerivePassThroughBackendRoot_def dest: DeriveBackendRoot_Some
      split: option.splits if_splits)

lemma ParsePrimaryRoot_Some: "ParsePrimaryRoot path = Some u \<Longrightarrow> user_root u path"
  by (auto simp: ParsePrimaryRoot_def user_root_def prefix_def split: if_splits)

lemma AddAlias_frame [simp]:
  "user_id (AddAlias i p m) = user_id m" "backend_root (AddAlias i p m) = backend_root m"
  "visible_root (AddAlias i p m) = visible_root m"
  by (simp_all add: AddAlias_def)

lemma FindUserMount_None: "FindUserMount ms u = None \<longleftrightarrow> u \<notin> user_id ` set ms"
  by (auto simp: FindUserMount_def find_None_all)

lemma FindUserMount_Some: "FindUserMount ms u = Some m \<Longrightarrow> m \<in> set ms \<and> user_id m = u"
  by (auto simp: FindUserMount_def find_Some_iff)

lemma update_user_absent: "u \<notin> user_id ` set ms \<Longrightarrow> update_user u f ms = ms"
  by (induction ms) auto

lemma update_user_map:
  "distinct (map user_id ms) \<Longrightarrow> update_user u f ms = map (\<lambda>m. if user_id m = u then f m else m) ms"
proof (induction ms)
  case (Cons m ms)
  thus ?case by (auto intro!: nth_equalityI) (metis image_eqI nth_mem)
qed simp

lemma mounts_ok_map:
  assumes "mounts_ok ms"
    and "\<And>m. user_id (f m) = user_id m \<and> backend_root (f m) = backend_root m \<and>
      visible_root (f m) = visible_root m"
  shows "mounts_ok (map f ms)"
  using assms by (auto simp: mounts_ok_def comp_def)

lemma mounts_ok_snoc:
  assumes "mounts_ok ms" "FindUserMount ms (user_id m) = None"
    and "backend_root m = MediaRoot (user_id m)" "user_root (user_id m) (visible_root m)"
  shows "mounts_ok (ms @ [m])"
  using assms by (auto simp: mounts_ok_def FindUserMount_None)

lemma PrimaryRoots_ok:
  "PrimaryRoots topology recs = Inr topology' \<Longrightarrow> mounts_ok (topology_mounts topology) \<Longrightarrow>
   mounts_ok (topology_mounts topology') \<and> supported topology' = supported topology \<and>
   unsupported_reason topology' = unsupported_reason topology"
proof (induction recs arbitrary: topology)
  case (Cons rec recs)
  show ?case
  proof (cases "\<exists>u root. ParsePrimaryRoot (mountpoint rec) = Some u \<and>
      DeriveBackendRoot (record_source rec) u = Some root \<and>
      FindUserMount (topology_mounts topology) u = None")
    case True
    then obtain u root where u: "ParsePrimaryRoot (mountpoint rec) = Some u"
      "DeriveBackendRoot (record_source rec) u = Some root"
      "FindUserMount (topology_mounts topology) u = None" by blast
    from mounts_ok_snoc [OF Cons.prems(2), of "\<lparr>user_id = u, topology_mount_id = mount_id rec,
        visible_root = mountpoint rec, backend_root = root,
        mount_filesystem_type = filesystem_type rec, aliases = []\<rparr>"]
    have ok: "mounts_ok (topology_mounts topology @ [\<lparr>user_id = u, topology_mount_id = mount_id rec,
        visible_root = mountpoint rec, backend_root = root,
        mount_filesystem_type = filesystem_type rec, aliases = []\<rparr>])"
      using u ParsePrimaryRoot_Some DeriveBackendRoot_Some by auto
    from Cons.IH [OF _ ] Cons.prems(1) u ok show ?thesis by fastforce
  next
    case False
    with Cons.prems(1) have "PrimaryRoots topology recs = Inr topology'"
      by (auto simp: Unsupported_def split: option.splits if_splits)
    with Cons show ?thesis by blast
  qed
qed simp

lemma emplace_keys: "distinct (map fst al) \<Longrightarrow> distinct (map fst (emplace k v al))"
  by (auto simp: emplace_def)

lemma set_emplace: "set (emplace k v al) \<subseteq> insert (k, v) (set al)"
  by (auto simp: emplace_def)

lemma CollectEvidence_ok:
  "CollectEvidence records vis ev recs = (vis', ev') \<Longrightarrow> distinct (map fst vis) \<Longrightarrow> evidence_ok ev \<Longrightarrow>
   distinct (map fst vis') \<and> evidence_ok ev'"
proof (induction recs arbitrary: vis ev)
  case (Cons rec recs)
  let ?vis = "case ParseUserMountpoint (mountpoint rec) ''/mnt/user/'' ''/emulated'' of
               Some user \<Rightarrow> emplace user rec vis | None \<Rightarrow> vis"
  let ?ev = "case ParseUserMountpoint (mountpoint rec) ''/mnt/pass_through/'' ''/emulated'' of
               Some user \<Rightarrow>
                 (case DerivePassThroughBackendRoot rec records user of
                    Some root \<Rightarrow> emplace user root ev | None \<Rightarrow> ev)
             | None \<Rightarrow> ev"
  have "distinct (map fst ?vis)" using Cons.prems(2) by (auto simp: emplace_keys split: option.splits)
  moreover have "evidence_ok ?ev"
    using Cons.prems(3) set_emplace
    by (fastforce simp: evidence_ok_def dest: DerivePassThroughBackendRoot_Some split: option.splits)
  moreover have "CollectEvidence records ?vis ?ev recs = (vis', ev')"
    using Cons.prems(1) by (simp only: CollectEvidence.simps Let_def)
  ultimately show ?case using Cons.IH by blast
qed simp

text \<open>What the alias loop computes when it succeeds, without the order of its items: the mounts that
  existed get their alias, the users that had none get a new mount.\<close>

definition aliased :: "(u32 \<times> MountRecord) list \<Rightarrow> StorageTopologyMount \<Rightarrow> StorageTopologyMount" where
  "aliased items m =
     (case map_of items (user_id m) of
        None \<Rightarrow> m | Some rec \<Rightarrow> AddAlias (mount_id rec) (mountpoint rec) m)"

definition new_mount ::
  "MountRecord option \<Rightarrow> (u32 \<times> string) list \<Rightarrow> u32 \<times> MountRecord \<Rightarrow> StorageTopologyMount" where
  "new_mount aggregate evidence item =
     AddAlias (mount_id (snd item)) (mountpoint (snd item))
       \<lparr>user_id = fst item, topology_mount_id = mount_id (the aggregate),
        visible_root = ''/storage/emulated/'' @ to_string (unat (fst item)),
        backend_root = the (map_of evidence (fst item)),
        mount_filesystem_type = filesystem_type (the aggregate), aliases = []\<rparr>"

definition needs_mount :: "StorageTopologyMount list \<Rightarrow> u32 \<times> MountRecord \<Rightarrow> bool" where
  "needs_mount ms item \<longleftrightarrow> fst item \<notin> user_id ` set ms"

lemma aliased_Nil [simp]: "aliased [] = id"
  by (intro ext) (simp add: aliased_def)

lemma new_mount_user [simp]: "user_id (new_mount aggregate evidence item) = fst item"
  by (simp add: new_mount_def)

lemma AddVisibleAliases_result:
  assumes "distinct (map fst items)" "distinct (map user_id (topology_mounts topology))"
  shows "AddVisibleAliases aggregate evidence topology items = Inr topology' \<longleftrightarrow>
    (\<forall>item \<in> set items. needs_mount (topology_mounts topology) item \<longrightarrow>
       aggregate \<noteq> None \<and> map_of evidence (fst item) \<noteq> None) \<and>
    topology' = topology\<lparr>topology_mounts := map (aliased items) (topology_mounts topology) @
      map (new_mount aggregate evidence) (filter (needs_mount (topology_mounts topology)) items)\<rparr>"
  using assms
proof (induction items arbitrary: topology)
  case (Cons item items)
  obtain u rec where item: "item = (u, rec)" by (cases item)
  let ?ms = "topology_mounts topology"
  have fresh: "u \<notin> fst ` set items" and d: "distinct (map fst items)"
    using Cons.prems(1) by (auto simp: item)
  hence none: "map_of items u = None" by (simp add: map_of_eq_None_iff)
  show ?case
  proof (cases "u \<in> user_id ` set ?ms")
    case True
    define t where
      "t = topology\<lparr>topology_mounts := update_user u (AddAlias (mount_id rec) (mountpoint rec)) ?ms\<rparr>"
    have upd: "t\<lparr>topology_mounts := x\<rparr> = topology\<lparr>topology_mounts := x\<rparr>" for x by (simp add: t_def)
    have ms: "topology_mounts t = map (aliased [item]) ?ms"
      using Cons.prems(2) by (simp add: t_def update_user_map aliased_def item)
    have users: "map user_id (topology_mounts t) = map user_id ?ms"
      unfolding ms by (auto simp: aliased_def split: option.splits)
    hence needs: "needs_mount (topology_mounts t) = needs_mount ?ms"
      by (intro ext) (metis needs_mount_def set_map)
    have "aliased items (aliased [item] m) = aliased (item # items) m" for m
      using none by (auto simp: aliased_def item split: option.splits if_splits)
    hence al: "map (aliased items) (topology_mounts t) = map (aliased (item # items)) ?ms"
      unfolding ms by simp
    obtain m where "FindUserMount ?ms u = Some m"
      using True FindUserMount_None [of ?ms u] by fastforce
    hence "AddVisibleAliases aggregate evidence topology (item # items) =
        AddVisibleAliases aggregate evidence t items" by (simp add: item t_def)
    moreover have "\<not> needs_mount ?ms item" using True by (simp add: needs_mount_def item)
    moreover have "distinct (map user_id (topology_mounts t))" using users Cons.prems(2) by simp
    ultimately show ?thesis
      using Cons.IH [OF d, of t] by (simp add: needs al upd)
  next
    case False
    hence find: "FindUserMount ?ms u = None" by (simp add: FindUserMount_None)
    have need: "needs_mount ?ms item" using False by (simp add: needs_mount_def item)
    show ?thesis
    proof (cases "aggregate \<noteq> None \<and> map_of evidence u \<noteq> None")
      case True
      then obtain a root where a: "aggregate = Some a" "map_of evidence u = Some root" by auto
      let ?t = "topology\<lparr>topology_mounts := ?ms @ [new_mount aggregate evidence item]\<rparr>"
      have step: "AddVisibleAliases aggregate evidence topology (item # items) =
          AddVisibleAliases aggregate evidence ?t items"
        using find a by (simp add: item new_mount_def)
      have needs: "filter (needs_mount (topology_mounts ?t)) items = filter (needs_mount ?ms) items"
        "\<forall>it \<in> set items. needs_mount (topology_mounts ?t) it = needs_mount ?ms it"
        using fresh by (force simp: needs_mount_def item intro!: filter_cong)+
      have "aliased items (new_mount aggregate evidence item) = new_mount aggregate evidence item"
        using none by (simp add: aliased_def item)
      moreover have "map (aliased items) ?ms = map (aliased (item # items)) ?ms"
        using False by (intro map_cong) (auto simp: aliased_def item)
      ultimately show ?thesis
        using Cons.IH [OF d, of ?t] Cons.prems(2) False a need needs step by (auto simp: item)
    next
      case False
      with find need show ?thesis by (auto simp: item Unsupported_def split: option.splits)
    qed
  qed
qed auto

lemma AddPrimaryAliases_map:
  "\<exists>f. (\<forall>m. user_id (f m) = user_id m \<and> backend_root (f m) = backend_root m \<and>
      visible_root (f m) = visible_root m) \<and> (\<forall>ms. AddPrimaryAliases ms recs = map f ms)"
proof (induction recs)
  case Nil
  show ?case by (rule exI [of _ id]) simp
next
  case (Cons rec recs)
  then obtain f where f: "\<And>m. user_id (f m) = user_id m \<and> backend_root (f m) = backend_root m \<and>
      visible_root (f m) = visible_root m" "\<And>ms. AddPrimaryAliases ms recs = map f ms" by blast
  let ?g = "\<lambda>m. if user_id m = 0 then AddAlias (mount_id rec) (mountpoint rec) m else m"
  show ?case
    by (cases "mountpoint rec \<noteq> ''/sdcard'' \<and> mountpoint rec \<noteq> ''/storage/self/primary''")
      (rule exI [of _ f], use f in simp, rule exI [of _ "f \<circ> ?g"], use f in auto)
qed

lemma ParseMountInfo_success:
  assumes "ParseMountInfo iter text = Inr topology" and "\<And>xs. mset (iter xs) = mset xs"
  obtains records t0 aggregate vis ev f where
    "ParseLines empty_topology 0 (getlines text) = Inr records"
    "PrimaryRoots empty_topology records = Inr t0" "AggregateVisible t0 None records = Inr aggregate"
    "CollectEvidence records [] [] records = (vis, ev)" "distinct (map fst vis)" "evidence_ok ev"
    "mounts_ok (topology_mounts t0)"
    "\<And>m. user_id (f m) = user_id m \<and> backend_root (f m) = backend_root m \<and>
       visible_root (f m) = visible_root m" "\<And>ms. AddPrimaryAliases ms records = map f ms"
    "\<forall>item \<in> set vis. needs_mount (topology_mounts t0) item \<longrightarrow>
       aggregate \<noteq> None \<and> map_of ev (fst item) \<noteq> None"
    "topology_mounts topology \<noteq> []"
    "topology = \<lparr>supported = True, unsupported_reason = [],
       topology_mounts = sort_key user_id (map f (map (aliased (iter vis)) (topology_mounts t0) @
         map (new_mount aggregate ev) (filter (needs_mount (topology_mounts t0)) (iter vis))))\<rparr>"
proof -
  from assms(1) obtain records t0 aggregate vis ev t1 where
    p: "ParseLines empty_topology 0 (getlines text) = Inr records"
    "PrimaryRoots empty_topology records = Inr t0" "AggregateVisible t0 None records = Inr aggregate"
    and ce: "CollectEvidence records [] [] records = (vis, ev)"
    and av: "AddVisibleAliases aggregate ev t0 (iter vis) = Inr t1"
    and ne: "topology_mounts topology \<noteq> []"
    and res: "topology = t1\<lparr>topology_mounts := sort_key user_id (AddPrimaryAliases (topology_mounts t1) records),
      supported := True, unsupported_reason := []\<rparr>"
    by (auto simp: ParseMountInfo_def Let_def Unsupported_def split: sum.splits prod.splits if_splits)
  have ok: "mounts_ok (topology_mounts t0)"
    using PrimaryRoots_ok [OF p(2)] by (simp add: empty_topology_def mounts_ok_def)
  have d: "distinct (map fst vis)" "evidence_ok ev"
    using CollectEvidence_ok [OF ce] by (simp_all add: evidence_ok_def)
  have "mset (map fst (iter vis)) = mset (map fst vis)" using assms(2) by simp
  hence di: "distinct (map fst (iter vis))" using d(1) by (metis mset_eq_imp_distinct_iff)
  have set: "set (iter vis) = set vis" using assms(2) by (metis set_mset_mset)
  have du: "distinct (map user_id (topology_mounts t0))" using ok by (simp add: mounts_ok_def)
  from AddVisibleAliases_result [OF di du] av have t1:
    "\<forall>item \<in> set vis. needs_mount (topology_mounts t0) item \<longrightarrow>
       aggregate \<noteq> None \<and> map_of ev (fst item) \<noteq> None"
    "t1 = t0\<lparr>topology_mounts := map (aliased (iter vis)) (topology_mounts t0) @
      map (new_mount aggregate ev) (filter (needs_mount (topology_mounts t0)) (iter vis))\<rparr>"
    by (auto simp: set)
  obtain f where f: "\<And>m. user_id (f m) = user_id m \<and> backend_root (f m) = backend_root m \<and>
      visible_root (f m) = visible_root m" "\<And>ms. AddPrimaryAliases ms records = map f ms"
    using AddPrimaryAliases_map by blast
  show ?thesis by (rule that [OF p ce d ok f t1(1) ne]) (simp add: res t1(2) f(2))
qed

text \<open>The iteration order of the hash map only permutes the mounts before the final sort.\<close>

lemma alias_phase_perm:
  assumes p: "mset items = mset items'" and d: "distinct (map fst items)"
  shows "mset (map f (map (aliased items) ms @ map g (filter P items))) =
    mset (map f (map (aliased items') ms @ map g (filter P items')))"
proof -
  have "mset (map fst items) = mset (map fst items')" using p by simp
  hence d': "distinct (map fst items')" using d by (metis mset_eq_imp_distinct_iff)
  have "map_of items = map_of items'"
    using map_of_inject_set [OF d d'] p by (metis set_mset_mset)
  hence "aliased items = aliased items'" by (intro ext) (simp add: aliased_def)
  thus ?thesis using p by simp
qed

lemma alias_phase_users:
  assumes "distinct (map user_id ms)" "distinct (map fst items)" "\<And>m. user_id (f m) = user_id m"
  shows "distinct (map user_id (map f (map (aliased items) ms @
      map (new_mount aggregate ev) (filter (needs_mount ms) items))))"
proof -
  have al: "user_id (aliased items m) = user_id m" for m
    by (simp add: aliased_def split: option.splits)
  have "distinct (map fst (filter (needs_mount ms) items))" using assms(2) by (rule distinct_map_filter)
  moreover have "fst ` set (filter (needs_mount ms) items) \<inter> user_id ` set ms = {}"
    by (auto simp: needs_mount_def)
  moreover have "map user_id (map f (map (aliased items) ms @
      map (new_mount aggregate ev) (filter (needs_mount ms) items))) =
      map user_id ms @ map fst (filter (needs_mount ms) items)"
    by (simp add: comp_def assms(3) al)
  ultimately show ?thesis using assms(1) by (simp only: distinct_append set_map) blast
qed

lemma ParseMountInfo_forward:
  assumes "ParseMountInfo iter text = Inr topology" "\<And>xs. mset (iter xs) = mset xs"
    and "\<And>xs. mset (iter' xs) = mset xs"
  shows "ParseMountInfo iter' text = Inr topology"
proof (rule ParseMountInfo_success [OF assms(1,2)])
  fix records t0 aggregate vis ev f
  assume p: "ParseLines empty_topology 0 (getlines text) = Inr records"
    "PrimaryRoots empty_topology records = Inr t0" "AggregateVisible t0 None records = Inr aggregate"
    "CollectEvidence records [] [] records = (vis, ev)" and d: "distinct (map fst vis)"
    and ok: "mounts_ok (topology_mounts t0)"
    and f: "\<And>m. user_id (f m) = user_id m \<and> backend_root (f m) = backend_root m \<and>
       visible_root (f m) = visible_root m" "\<And>ms. AddPrimaryAliases ms records = map f ms"
    and need: "\<forall>item \<in> set vis. needs_mount (topology_mounts t0) item \<longrightarrow>
       aggregate \<noteq> None \<and> map_of ev (fst item) \<noteq> None"
    and ne: "topology_mounts topology \<noteq> []"
    and res: "topology = \<lparr>supported = True, unsupported_reason = [],
       topology_mounts = sort_key user_id (map f (map (aliased (iter vis)) (topology_mounts t0) @
         map (new_mount aggregate ev) (filter (needs_mount (topology_mounts t0)) (iter vis))))\<rparr>"
  let ?ms = "topology_mounts t0"
  let ?all = "\<lambda>items. map f (map (aliased items) ?ms @
      map (new_mount aggregate ev) (filter (needs_mount ?ms) items))"
  have du: "distinct (map user_id ?ms)" using ok by (simp add: mounts_ok_def)
  have dk: "distinct (map fst (it vis))" if "\<And>xs. mset (it xs) = mset xs" for it
    using d that by (metis mset_map mset_eq_imp_distinct_iff)
  have set: "set (iter' vis) = set vis" using assms(3) by (metis set_mset_mset)
  have "AddVisibleAliases aggregate ev t0 (iter' vis) =
      Inr (t0\<lparr>topology_mounts := map (aliased (iter' vis)) ?ms @
        map (new_mount aggregate ev) (filter (needs_mount ?ms) (iter' vis))\<rparr>)"
    using AddVisibleAliases_result [OF dk [OF assms(3)] du] need by (simp add: set)
  moreover have sorted: "sort_key user_id (?all (iter' vis)) = sort_key user_id (?all (iter vis))"
  proof (rule mset_eq_sort_key_eq)
    show "mset (?all (iter' vis)) = mset (?all (iter vis))"
      by (rule alias_phase_perm [OF _ dk [OF assms(3)]]) (simp add: assms(2,3))
    show "distinct (map user_id (?all (iter' vis)))"
      by (rule alias_phase_users [OF du dk [OF assms(3)]]) (simp add: f(1))
  qed
  moreover have "sort_key user_id (?all (iter vis)) \<noteq> []" using ne res by simp
  ultimately show ?thesis using p by (simp add: ParseMountInfo_def f(2) res)
qed

lemma ParseMountInfo_ok:
  assumes "ParseMountInfo iter text = Inr topology" "\<And>xs. mset (iter xs) = mset xs"
  shows "supported topology" "topology_mounts topology \<noteq> []" "mounts_ok (topology_mounts topology)"
    "sorted (map user_id (topology_mounts topology))"
proof -
  have "supported topology \<and> topology_mounts topology \<noteq> [] \<and> mounts_ok (topology_mounts topology) \<and>
    sorted (map user_id (topology_mounts topology))"
  proof (rule ParseMountInfo_success [OF assms])
    fix records t0 aggregate vis ev f
    assume d: "distinct (map fst vis)" "evidence_ok ev" and ok: "mounts_ok (topology_mounts t0)"
      and f: "\<And>m. user_id (f m) = user_id m \<and> backend_root (f m) = backend_root m \<and>
         visible_root (f m) = visible_root m"
      and need: "\<forall>item \<in> set vis. needs_mount (topology_mounts t0) item \<longrightarrow>
         aggregate \<noteq> None \<and> map_of ev (fst item) \<noteq> None"
      and ne: "topology_mounts topology \<noteq> []"
      and res: "topology = \<lparr>supported = True, unsupported_reason = [],
         topology_mounts = sort_key user_id (map f (map (aliased (iter vis)) (topology_mounts t0) @
           map (new_mount aggregate ev) (filter (needs_mount (topology_mounts t0)) (iter vis))))\<rparr>"
    let ?ms = "topology_mounts t0"
    let ?all = "map f (map (aliased (iter vis)) ?ms @
      map (new_mount aggregate ev) (filter (needs_mount ?ms) (iter vis)))"
    have set: "set (iter vis) = set vis" using assms(2) by (metis set_mset_mset)
    have di: "distinct (map fst (iter vis))"
      using d(1) assms(2) by (metis mset_map mset_eq_imp_distinct_iff)
    have dist: "distinct (map user_id ?all)"
      using ok di f by (intro alias_phase_users) (auto simp: mounts_ok_def)
    have al: "user_id (aliased it m) = user_id m" "backend_root (aliased it m) = backend_root m"
      "visible_root (aliased it m) = visible_root m" for it m
      by (simp_all add: aliased_def split: option.splits)
    have new: "backend_root (new_mount aggregate ev item) = MediaRoot (fst item)"
      "user_root (fst item) (visible_root (new_mount aggregate ev item))"
      if item: "item \<in> set vis" "needs_mount ?ms item" for item
    proof -
      have "map_of ev (fst item) \<noteq> None" using need item by (metis (no_types))
      then obtain root where "map_of ev (fst item) = Some root" by (cases "map_of ev (fst item)") simp_all
      moreover from this d(2) have "root = MediaRoot (fst item)"
        by (auto simp: evidence_ok_def dest: map_of_SomeD)
      ultimately show "backend_root (new_mount aggregate ev item) = MediaRoot (fst item)"
        by (simp add: new_mount_def)
      show "user_root (fst item) (visible_root (new_mount aggregate ev item))"
        by (auto simp: user_root_def new_mount_def intro: ParseUserId_to_string)
    qed
    have "backend_root x = MediaRoot (user_id x) \<and> user_root (user_id x) (visible_root x)"
      if x: "x \<in> set ?all" for x
    proof -
      from x consider m where "m \<in> set ?ms" "x = f (aliased (iter vis) m)"
        | item where "item \<in> set vis" "needs_mount ?ms item" "x = f (new_mount aggregate ev item)"
        by (auto simp: set)
      thus ?thesis
      proof cases
        case 1
        with ok show ?thesis by (simp add: f al mounts_ok_def)
      next
        case 2
        with new show ?thesis by (simp add: f)
      qed
    qed
    with dist have "mounts_ok ?all" unfolding mounts_ok_def by blast
    hence "mounts_ok (sort_key user_id ?all)" by (simp add: mounts_ok_def)
    thus ?thesis using ne by (simp add: res)
  qed
  thus "supported topology" "topology_mounts topology \<noteq> []" "mounts_ok (topology_mounts topology)"
    "sorted (map user_id (topology_mounts topology))" by simp_all
qed

subsection \<open>Confinement of resolved paths\<close>

lemma split_root:
  assumes "\<forall>c \<in> set d. c \<noteq> CHR ''/''"
  shows "split_on CHR ''/'' (''/data/media/'' @ d) = [[], ''data'', ''media'', d]"
    "split_on CHR ''/'' (''/storage/emulated/'' @ d) = [[], ''storage'', ''emulated'', d]"
proof -
  have "split_on CHR ''/'' d = [d]" using assms by (intro split_on_free) blast
  thus "split_on CHR ''/'' (''/data/media/'' @ d) = [[], ''data'', ''media'', d]"
    "split_on CHR ''/'' (''/storage/emulated/'' @ d) = [[], ''storage'', ''emulated'', d]" by simp_all
qed

lemma root_components:
  assumes "mounts_ok ms" "m \<in> set ms"
  obtains a b d where "split_on CHR ''/'' (if backend then backend_root m else visible_root m) = [[], a, b, d]"
    "ParseUserId d = Some (user_id m)"
proof -
  have m: "backend_root m = MediaRoot (user_id m)" "user_root (user_id m) (visible_root m)"
    using assms by (auto simp: mounts_ok_def)
  then obtain d where d: "visible_root m = ''/storage/emulated/'' @ d" "ParseUserId d = Some (user_id m)"
    by (auto simp: user_root_def)
  have digits: "\<forall>c \<in> set x. c \<noteq> CHR ''/''" if "ParseUserId x = Some u" for x u
    using ParseUserId_digits [OF that] is_digit_not_special by blast
  show ?thesis
  proof (cases backend)
    case True
    with split_root(1) [OF digits [OF ParseUserId_to_string]] m(1) ParseUserId_to_string show ?thesis
      by (intro that [of "''data''" "''media''" "to_string (unat (user_id m))"]) (simp_all add: MediaRoot_def)
  next
    case False
    with split_root(2) [OF digits [OF d(2)]] d show ?thesis
      by (intro that [of "''storage''" "''emulated''" d]) simp_all
  qed
qed

lemma ResolvePath_components:
  assumes "ResolvePath topology u path backend = Inr out" "mounts_ok (topology_mounts topology)"
  obtains a b d comps where "split_on CHR ''/'' out = [[], a, b, d] @ comps"
    "ParseUserId d = Some u" "\<forall>p \<in> set comps. SafeComponent p"
    "comps = (if path = [] then [] else split_on CHR ''/'' path)"
proof -
  from assms(1) obtain m where m: "FindUserMount (topology_mounts topology) u = Some m"
    and safe: "IsSafeLogicalPath path"
    and out: "out = (if path \<noteq> [] then (if backend then backend_root m else visible_root m) @ CHR ''/'' # path
      else (if backend then backend_root m else visible_root m))"
    by (auto simp: ResolvePath_def Let_def split: if_splits option.splits)
  obtain a b d where r: "split_on CHR ''/'' (if backend then backend_root m else visible_root m) = [[], a, b, d]"
    and d: "ParseUserId d = Some (user_id m)"
    using root_components [OF assms(2)] FindUserMount_Some [OF m] by blast
  have "split_on CHR ''/'' out = [[], a, b, d] @ (if path = [] then [] else split_on CHR ''/'' path)"
    using r by (simp add: out split_on_append_sep)
  moreover have "\<forall>p \<in> set (if path = [] then [] else split_on CHR ''/'' path). SafeComponent p"
    using safe by (auto simp: IsSafeLogicalPath_iff)
  ultimately show ?thesis using that [OF _ _ _ refl] d FindUserMount_Some [OF m] by blast
qed

subsection \<open>Properties\<close>

text \<open>
  A parsed storage topology is well formed whatever the mount table: it is marked
  supported, has at least one mount, lists every user once in increasing order, and every user's
  backend root is \<open>/data/media/<user>\<close> while the visible root is a mount below \<open>/storage/emulated/\<close>
  whose last component is a decimal spelling of that user.
\<close>

theorem ParseMountInfo_well_formed:
  assumes "ParseMountInfo iter text = Inr topology" "\<And>xs. mset (iter xs) = mset xs"
  shows "supported topology \<and> topology_mounts topology \<noteq> [] \<and>
    sorted (map user_id (topology_mounts topology)) \<and> distinct (map user_id (topology_mounts topology)) \<and>
    (\<forall>m \<in> set (topology_mounts topology). backend_root m = MediaRoot (user_id m) \<and>
       (\<exists>d. visible_root m = ''/storage/emulated/'' @ d \<and> ParseUserId d = Some (user_id m)))"
  using ParseMountInfo_ok [OF assms] by (simp add: mounts_ok_def user_root_def)

definition sample_mountinfo :: string where
  "sample_mountinfo =
     ''30 1 0:5 / /storage/emulated rw - fuse /dev/fuse rw'' @ [CHR 0x0A] @
     ''31 1 0:6 / /storage/emulated/0 rw - sdcardfs /data/media rw'' @ [CHR 0x0A] @
     ''32 1 0:7 / /mnt/user/0/emulated rw - fuse /dev/fuse rw'' @ [CHR 0x0A] @
     ''33 1 0:8 / /mnt/user/10/emulated rw - fuse /dev/fuse rw'' @ [CHR 0x0A] @
     ''34 1 0:9 / /mnt/pass_through/10/emulated rw - ext4 /data/media/10 rw'' @ [CHR 0x0A]"

definition sample_topology :: StorageTopology where
  "sample_topology = \<lparr>supported = True, unsupported_reason = [],
     topology_mounts =
       [\<lparr>user_id = 0, topology_mount_id = 31, visible_root = ''/storage/emulated/0'',
         backend_root = ''/data/media/0'', mount_filesystem_type = ''sdcardfs'',
         aliases = [\<lparr>alias_mount_id = 32, alias_path = ''/mnt/user/0/emulated''\<rparr>]\<rparr>,
        \<lparr>user_id = 10, topology_mount_id = 30, visible_root = ''/storage/emulated/10'',
         backend_root = ''/data/media/10'', mount_filesystem_type = ''fuse'',
         aliases = [\<lparr>alias_mount_id = 33, alias_path = ''/mnt/user/10/emulated''\<rparr>]\<rparr>]\<rparr>"

lemma sample_topology_parsed: "ParseMountInfo rev sample_mountinfo = Inr sample_topology"
  by code_simp

theorem ParseMountInfo_well_formed_witness:
  "ParseMountInfo rev sample_mountinfo = Inr sample_topology \<and> supported sample_topology"
  using ParseMountInfo_well_formed [OF sample_topology_parsed] sample_topology_parsed by simp

text \<open>
  The iteration order of the hash map of visible aliases does not matter: for any two
  orders, the parse succeeds with the same topology or fails under both.
\<close>

theorem ParseMountInfo_order_independent:
  assumes "\<And>xs. mset (iter xs) = mset xs" "\<And>xs. mset (iter' xs) = mset xs"
  shows "ParseMountInfo iter text = Inr topology \<longleftrightarrow> ParseMountInfo iter' text = Inr topology"
  using ParseMountInfo_forward assms by metis

theorem ParseMountInfo_order_independent_witness:
  "ParseMountInfo id sample_mountinfo = Inr sample_topology"
  using ParseMountInfo_order_independent [of rev id sample_mountinfo sample_topology]
    sample_topology_parsed by simp

text \<open>
  Claim C20.  Resolved storage paths stay inside their user's tree.  On a parsed topology, the
  components of a resolved visible or backend path are the four components of the user's root
  followed by the components of the logical path, none of which is empty, \<open>.\<close> or \<open>..\<close>; and paths
  resolved for two different users are never equal or nested, whatever the logical paths.
\<close>

theorem ResolvePath_confined:
  assumes "ParseMountInfo iter text = Inr topology" "\<And>xs. mset (iter xs) = mset xs"
    and "ResolvePath topology u path backend = Inr out"
  shows "(\<exists>a b d comps. split_on CHR ''/'' out = [[], a, b, d] @ comps \<and> ParseUserId d = Some u \<and>
      comps = (if path = [] then [] else split_on CHR ''/'' path) \<and>
      (\<forall>p \<in> set comps. p \<noteq> [] \<and> p \<noteq> ''.'' \<and> p \<noteq> ''..'')) \<and>
    (\<forall>v path' out'. v \<noteq> u \<longrightarrow> ResolvePath topology v path' backend = Inr out' \<longrightarrow>
      \<not> IsPathOrDescendant out' out)"
proof
  note ok = ParseMountInfo_ok(3) [OF assms(1,2)]
  obtain a b d comps where out: "split_on CHR ''/'' out = [[], a, b, d] @ comps" "ParseUserId d = Some u"
    "\<forall>p \<in> set comps. SafeComponent p" "comps = (if path = [] then [] else split_on CHR ''/'' path)"
    by (rule ResolvePath_components [OF assms(3) ok])
  have "\<forall>p \<in> set comps. p \<noteq> [] \<and> p \<noteq> ''.'' \<and> p \<noteq> ''..''"
    using out(3) by (simp add: SafeComponent_def)
  with out(1,2,4) show "\<exists>a b d comps. split_on CHR ''/'' out = [[], a, b, d] @ comps \<and> ParseUserId d = Some u \<and>
      comps = (if path = [] then [] else split_on CHR ''/'' path) \<and>
      (\<forall>p \<in> set comps. p \<noteq> [] \<and> p \<noteq> ''.'' \<and> p \<noteq> ''..'')"
    by (metis (no_types))
  show "\<forall>v path' out'. v \<noteq> u \<longrightarrow> ResolvePath topology v path' backend = Inr out' \<longrightarrow>
      \<not> IsPathOrDescendant out' out"
  proof (intro allI impI notI)
    fix v path' out'
    assume v: "v \<noteq> u" and r: "ResolvePath topology v path' backend = Inr out'"
      and desc: "IsPathOrDescendant out' out"
    obtain a' b' d' comps' where out': "split_on CHR ''/'' out' = [[], a', b', d'] @ comps'"
      "ParseUserId d' = Some v" by (rule ResolvePath_components [OF r ok])
    from desc have "prefix ([[], a, b, d] @ comps) ([[], a', b', d'] @ comps')"
      using out(1) out'(1) by (simp add: IsPathOrDescendant_prefix)
    hence "d = d'" by simp
    with out(2) out'(2) v show False by simp
  qed
qed

theorem ResolvePath_confined_witness:
  "ResolvePath sample_topology 10 ''DCIM/x'' True = Inr ''/data/media/10/DCIM/x'' \<and>
   \<not> IsPathOrDescendant ''/data/media/0/a'' ''/data/media/10/DCIM/x''"
proof -
  have r: "ResolvePath sample_topology 10 ''DCIM/x'' True = Inr ''/data/media/10/DCIM/x''"
    "ResolvePath sample_topology 0 ''a'' True = Inr ''/data/media/0/a''" by code_simp+
  from ResolvePath_confined [OF sample_topology_parsed _ r(1)]
  have "\<forall>v path' out'. v \<noteq> 10 \<longrightarrow> ResolvePath sample_topology v path' True = Inr out' \<longrightarrow>
      \<not> IsPathOrDescendant out' ''/data/media/10/DCIM/x''" by simp
  from this [rule_format, OF _ r(2)] r(1) show ?thesis by simp
qed

text \<open>
  \<open>DecodeMountInfoPath\<close> inverts the kernel's escaping of mountinfo paths: for every escape
  set of ASCII characters that contains the backslash, decoding an escaped path gives the path.
\<close>

theorem DecodeMountInfoPath_unescapes:
  assumes "CHR 0x5C \<in> esc" "\<forall>c \<in> esc. 0 < (of_char c :: nat) \<and> of_char c \<le> (127 :: nat)"
  shows "DecodeMountInfoPath (mangle esc s) = Some s"
  using assms by (rule DecodeMountInfoPath_mangle)

theorem DecodeMountInfoPath_unescapes_witness:
  "DecodeMountInfoPath (mangle {CHR '' '', CHR 0x09, CHR 0x0A, CHR 0x5C, CHR ''#''} ''/mnt/my disk'') =
     Some ''/mnt/my disk'' \<and>
   mangle {CHR '' '', CHR 0x09, CHR 0x0A, CHR 0x5C, CHR ''#''} ''/a b'' = ''/a'' @ [CHR 0x5C] @ ''040b''"
proof
  show "DecodeMountInfoPath (mangle {CHR '' '', CHR 0x09, CHR 0x0A, CHR 0x5C, CHR ''#''} ''/mnt/my disk'') =
     Some ''/mnt/my disk''" by (rule DecodeMountInfoPath_unescapes) simp_all
qed code_simp

end
