(* ===== verification/PG_Source.thy ===== *)
theory PG_Source
  imports PG_Prelude
begin

text \<open>
  The front of the rules compiler: limits, byte spans and diagnostics (\<open>rules_contract.h\<close>,
  \<open>diagnostic.h\<close>, \<open>document.h\<close>), the source buffer with its line index (\<open>source.cpp\<close>), the rendering of
  diagnostics (\<open>diagnostic.cpp\<close>) and the format probe (\<open>format_probe.cpp\<close>).

  A source text is a string of bytes.  Byte offsets are natural numbers: a source has at most
  \<open>max_source_bytes\<close> bytes (1 MiB unless the caller raises it), so no sum of offsets reaches \<open>2^32\<close>.
\<close>

subsection \<open>Limits, spans and diagnostics\<close>

record RulesLimits =
  max_source_bytes :: nat
  max_container_depth :: nat
  max_tokens_or_nodes :: nat
  max_apps :: nat
  max_rules_per_app :: nat
  max_expanded_rules :: nat
  max_path_bytes :: nat
  max_path_components :: nat
  max_string_token_bytes :: nat
  max_rewrites :: nat
  max_rewrite_segments :: nat
  max_diagnostics :: nat
  max_related_spans :: nat
  max_generated_bytes :: nat

definition default_limits :: RulesLimits where
  "default_limits =
     \<lparr>max_source_bytes = 1024 * 1024, max_container_depth = 128, max_tokens_or_nodes = 65536,
      max_apps = 1024, max_rules_per_app = 4096, max_expanded_rules = 8192, max_path_bytes = 4095,
      max_path_components = 256, max_string_token_bytes = 4096, max_rewrites = 4096,
      max_rewrite_segments = 24577, max_diagnostics = 64, max_related_spans = 8,
      max_generated_bytes = 2 * 1024 * 1024\<rparr>"

definition kArrowContext :: string where "kArrowContext = ''PG-ARROW-CONTEXT''"
definition kArrowOperand :: string where "kArrowOperand = ''PG-ARROW-OPERAND''"
definition kArrowChained :: string where "kArrowChained = ''PG-ARROW-CHAINED''"
definition kArrowMissingComma :: string where "kArrowMissingComma = ''PG-ARROW-MISSING-COMMA''"
definition kArrowCommentInside :: string where "kArrowCommentInside = ''PG-ARROW-COMMENT-INSIDE''"
definition kArrowStringBoundary :: string where "kArrowStringBoundary = ''PG-ARROW-STRING-BOUNDARY''"
definition kDesugarInternal :: string where "kDesugarInternal = ''PG-DESUGAR-INTERNAL''"
definition kResourceLimit :: string where "kResourceLimit = ''PG-RESOURCE-LIMIT''"
definition kFormatMissing :: string where "kFormatMissing = ''PG-FORMAT-MISSING''"
definition kFormatInvalid :: string where "kFormatInvalid = ''PG-FORMAT-INVALID''"
definition kFormatUnsupported :: string where "kFormatUnsupported = ''PG-FORMAT-UNSUPPORTED''"
definition kDiagnosticsOmitted :: string where "kDiagnosticsOmitted = ''PG-DIAGNOSTICS-OMITTED''"
definition kInvalidValue :: string where "kInvalidValue = ''PG-RULE-INVALID-VALUE''"
definition kPathInvalid :: string where "kPathInvalid = ''PG-PATH-INVALID''"
definition kRuleRedundant :: string where "kRuleRedundant = ''PG-RULE-REDUNDANT''"
definition kRuleConflict :: string where "kRuleConflict = ''PG-RULE-CONFLICT''"
definition kRedirectCycle :: string where "kRedirectCycle = ''PG-REDIRECT-CYCLE''"
definition kPolicyEncode :: string where "kPolicyEncode = ''PG-POLICY-ENCODE''"
definition kLintUnicode :: string where "kLintUnicode = ''PG-LINT-UNICODE''"
definition kLintLegacy :: string where "kLintLegacy = ''PG-LINT-LEGACY''"

type_synonym RuleId = nat

record ByteSpan =
  span_begin :: nat
  span_end :: nat

definition Span :: "nat \<Rightarrow> nat \<Rightarrow> ByteSpan" where
  "Span b e = \<lparr>span_begin = b, span_end = e\<rparr>"

lemma Span_simps [simp]: "span_begin (Span b e) = b" "span_end (Span b e) = e"
  by (simp_all add: Span_def)

definition span_size :: "ByteSpan \<Rightarrow> nat" where
  "span_size s = span_end s - span_begin s"

datatype DiagnosticSeverity = SevError | SevWarning

datatype DiagnosticPhase =
  PhaseSource | PhaseLex | PhaseParse | PhaseDecode | PhaseSemantic | PhaseAdmission | PhasePublish | PhaseInternal

record RelatedSpan =
  related_span :: ByteSpan
  related_key :: string

record Diagnostic =
  diag_code :: string
  diag_key :: string
  diag_primary :: ByteSpan
  diag_omitted :: bool
  diag_severity :: DiagnosticSeverity
  diag_phase :: DiagnosticPhase
  diag_related :: "RelatedSpan list"
  diag_field_path :: string
  diag_arguments :: "string list"

text \<open>The aggregate \<open>{code, message_key, primary, omitted}\<close> with the default members.\<close>

definition diagnostic :: "string \<Rightarrow> string \<Rightarrow> ByteSpan \<Rightarrow> bool \<Rightarrow> Diagnostic" where
  "diagnostic code key primary omitted =
     \<lparr>diag_code = code, diag_key = key, diag_primary = primary, diag_omitted = omitted,
      diag_severity = SevError, diag_phase = PhaseLex, diag_related = [], diag_field_path = [],
      diag_arguments = []\<rparr>"

subsection \<open>The source buffer and its line index\<close>

abbreviation newline :: char where "newline \<equiv> CHR 0x0A"
abbreviation carriage_return :: char where "carriage_return \<equiv> CHR 0x0D"
abbreviation byte_of :: "char \<Rightarrow> nat" where "byte_of \<equiv> of_char"

record SourceBuffer =
  file_name :: string
  source_bytes :: string

record SourcePosition =
  pos_line :: nat
  pos_column :: nat

definition HasUtf8Bom :: "string \<Rightarrow> bool" where
  "HasUtf8Bom bs \<longleftrightarrow> length bs \<ge> 3 \<and> byte_of (bs ! 0) = 0xEF \<and> byte_of (bs ! 1) = 0xBB \<and> byte_of (bs ! 2) = 0xBF"

definition Utf8Lead :: "char \<Rightarrow> nat" where
  "Utf8Lead c =
     (let lead = byte_of c in
      if and lead 0xE0 = 0xC0 then 2 else if and lead 0xF0 = 0xE0 then 3
      else if and lead 0xF8 = 0xF0 then 4 else 1)"

definition Utf8Width :: "string \<Rightarrow> nat \<Rightarrow> nat \<Rightarrow> nat" where
  "Utf8Width bs offset limit =
     (let width = Utf8Lead (bs ! offset) in
      if offset + width > limit then 1
      else if \<exists>index \<in> set [1..<width]. and (byte_of (bs ! (offset + index))) 0xC0 \<noteq> 0x80 then 1
      else width)"

lemma Utf8Width_pos [simp]: "0 < Utf8Width bs offset limit"
  by (simp add: Utf8Width_def Utf8Lead_def Let_def)

definition LineStarts :: "string \<Rightarrow> nat list" where
  "LineStarts bs = 0 # map Suc (filter (\<lambda>offset. bs ! offset = newline) [0..<length bs])"

text \<open>\<open>std::upper_bound\<close> on a sorted range: how many elements are not above the value.\<close>

definition upper_bound :: "nat \<Rightarrow> nat list \<Rightarrow> nat" where
  "upper_bound v xs = length (takeWhile (\<lambda>x. \<not> v < x) xs)"

function ColumnLoop :: "string \<Rightarrow> nat \<Rightarrow> nat \<Rightarrow> nat \<Rightarrow> nat" where
  "ColumnLoop bs offset cursor column =
     (if cursor < offset then
        if bs ! cursor = carriage_return \<and> cursor + 1 < length bs \<and> bs ! (cursor + 1) = newline
        then ColumnLoop bs offset (cursor + 1) column
        else ColumnLoop bs offset (cursor + Utf8Width bs cursor offset) (column + 1)
      else column)"
  by pat_completeness auto
termination
  by (relation "measure (\<lambda>(_, offset, cursor, _). offset - cursor)") (auto intro!: diff_less_mono2)

declare ColumnLoop.simps [simp del]

definition PositionAt :: "string \<Rightarrow> nat \<Rightarrow> SourcePosition option" where
  "PositionAt bs offset =
     (if offset > length bs then None
      else let line_index = upper_bound offset (LineStarts bs) - 1;
               start = LineStarts bs ! line_index;
               cursor = (if line_index = 0 \<and> HasUtf8Bom bs \<and> start < 3 \<and> offset \<ge> 3 then 3 else start) in
           Some \<lparr>pos_line = line_index + 1, pos_column = ColumnLoop bs offset cursor 1\<rparr>)"

definition SourceBuffer_Create :: "string \<Rightarrow> string \<Rightarrow> RulesLimits \<Rightarrow> Diagnostic + SourceBuffer" where
  "SourceBuffer_Create name bs limits =
     (if length bs > max_source_bytes limits \<or> length bs > 2 ^ 32 - 1
      then Inl (diagnostic kResourceLimit ''rules.source_too_large'' (Span 0 (min (length bs) (2 ^ 32 - 1))) False)
      else Inr \<lparr>file_name = name, source_bytes = bs\<rparr>)"

definition IsValidSpan :: "SourceBuffer \<Rightarrow> ByteSpan \<Rightarrow> bool" where
  "IsValidSpan source s \<longleftrightarrow> span_begin s \<le> span_end s \<and> span_end s \<le> length (source_bytes source)"

subsection \<open>Rendering diagnostics\<close>

definition SeverityName :: "DiagnosticSeverity \<Rightarrow> string" where
  "SeverityName s = (if s = SevWarning then ''warning'' else ''error'')"

fun PhaseName :: "DiagnosticPhase \<Rightarrow> string" where
  "PhaseName PhaseSource = ''source''"
| "PhaseName PhaseLex = ''lex''"
| "PhaseName PhaseParse = ''parse''"
| "PhaseName PhaseDecode = ''decode''"
| "PhaseName PhaseSemantic = ''semantic''"
| "PhaseName PhaseAdmission = ''admission''"
| "PhaseName PhasePublish = ''publish''"
| "PhaseName PhaseInternal = ''internal''"

definition hex_digits :: string where "hex_digits = ''0123456789abcdef''"

definition EscapeByte :: "char \<Rightarrow> string" where
  "EscapeByte c =
     (let byte = byte_of c in
      if c = CHR 0x22 then [CHR 0x5C, CHR 0x22]
      else if c = CHR 0x5C then [CHR 0x5C, CHR 0x5C]
      else if byte = 8 then [CHR 0x5C, CHR ''b'']
      else if byte = 12 then [CHR 0x5C, CHR ''f'']
      else if byte = 10 then [CHR 0x5C, CHR ''n'']
      else if byte = 13 then [CHR 0x5C, CHR ''r'']
      else if byte = 9 then [CHR 0x5C, CHR ''t'']
      else if byte < 0x20 then
        [CHR 0x5C, CHR ''u'', CHR ''0'', CHR ''0'', hex_digits ! (drop_bit 4 byte), hex_digits ! (and byte 15)]
      else [c])"

definition EscapeJson :: "string \<Rightarrow> string" where
  "EscapeJson s = concat (map EscapeByte s)"

definition PositionOrDefault :: "SourceBuffer \<Rightarrow> nat \<Rightarrow> SourcePosition" where
  "PositionOrDefault source offset =
     (case PositionAt (source_bytes source) offset of
        Some p \<Rightarrow> p | None \<Rightarrow> \<lparr>pos_line = 1, pos_column = 1\<rparr>)"

definition RenderDiagnosticText :: "Diagnostic \<Rightarrow> SourceBuffer \<Rightarrow> string" where
  "RenderDiagnosticText d source =
     (let position = PositionOrDefault source (span_begin (diag_primary d)) in
      file_name source @ '':'' @ to_string (pos_line position) @ '':'' @ to_string (pos_column position) @
      '': '' @ SeverityName (diag_severity d) @ ''['' @ diag_code d @ ''] '' @ diag_key d @
      (if diag_field_path d = [] then [] else '' ('' @ diag_field_path d @ '')''))"

text \<open>A quoted member name with its colon, as the literals of the source spell it.\<close>

definition quoted :: "string \<Rightarrow> string" where
  "quoted s = [CHR 0x22] @ s @ [CHR 0x22]"

definition RenderDiagnosticJson :: "Diagnostic \<Rightarrow> SourceBuffer \<Rightarrow> string" where
  "RenderDiagnosticJson d source =
     (let begin = PositionOrDefault source (span_begin (diag_primary d));
          finish = PositionOrDefault source (span_end (diag_primary d)) in
      ''{'' @ quoted ''file'' @ '':'' @ quoted (EscapeJson (file_name source)) @
      '','' @ quoted ''code'' @ '':'' @ quoted (EscapeJson (diag_code d)) @
      '','' @ quoted ''severity'' @ '':'' @ quoted (SeverityName (diag_severity d)) @
      '','' @ quoted ''phase'' @ '':'' @ quoted (PhaseName (diag_phase d)) @
      '','' @ quoted ''message_key'' @ '':'' @ quoted (EscapeJson (diag_key d)) @
      '','' @ quoted ''field_path'' @ '':'' @ quoted (EscapeJson (diag_field_path d)) @
      '','' @ quoted ''span'' @ '':{'' @ quoted ''begin'' @ '':'' @ to_string (span_begin (diag_primary d)) @
      '','' @ quoted ''end'' @ '':'' @ to_string (span_end (diag_primary d)) @
      '','' @ quoted ''begin_line'' @ '':'' @ to_string (pos_line begin) @
      '','' @ quoted ''begin_column'' @ '':'' @ to_string (pos_column begin) @
      '','' @ quoted ''end_line'' @ '':'' @ to_string (pos_line finish) @
      '','' @ quoted ''end_column'' @ '':'' @ to_string (pos_column finish) @ ''}}'')"

subsection \<open>The format probe\<close>

definition IsHorizontalSpace :: "char \<Rightarrow> bool" where
  "IsHorizontalSpace c \<longleftrightarrow> c = CHR '' '' \<or> c = CHR 0x09"

text \<open>\<open>while (offset < size && p(bytes[offset])) ++offset\<close>\<close>

definition skip_while :: "(char \<Rightarrow> bool) \<Rightarrow> string \<Rightarrow> nat \<Rightarrow> nat" where
  "skip_while p bs offset = offset + length (takeWhile p (drop offset bs))"

function SkipBlank :: "string \<Rightarrow> nat \<Rightarrow> nat" where
  "SkipBlank bs offset =
     (if offset < length bs then
        let c = bs ! offset in
        if c = CHR '' '' \<or> c = CHR 0x09 \<or> c = carriage_return \<or> c = newline then SkipBlank bs (offset + 1)
        else if c = CHR ''#'' then SkipBlank bs (skip_while (\<lambda>c. c \<noteq> newline) bs offset)
        else offset
      else offset)"
  by pat_completeness auto

lemma skip_while_progress:
  "offset < length bs \<Longrightarrow> p (bs ! offset) \<Longrightarrow> offset < skip_while p bs offset"
  by (auto simp: skip_while_def Cons_nth_drop_Suc [symmetric])

lemma skip_while_le: "offset \<le> length bs \<Longrightarrow> skip_while p bs offset \<le> length bs"
  using length_takeWhile_le [of p "drop offset bs"] by (simp add: skip_while_def)

termination SkipBlank
  by (relation "measure (\<lambda>(bs, offset). length bs - offset)")
     (auto intro!: diff_less_mono2 skip_while_progress)

declare SkipBlank.simps [simp del]

record FormatProbeResult =
  probe_version :: nat
  probe_diagnostic :: Diagnostic

definition empty_diagnostic :: Diagnostic where
  "empty_diagnostic = diagnostic [] [] (Span 0 0) False"

definition ProbeError :: "string \<Rightarrow> string \<Rightarrow> nat \<Rightarrow> nat \<Rightarrow> FormatProbeResult" where
  "ProbeError code key b e = \<lparr>probe_version = 0, probe_diagnostic = diagnostic code key (Span b e) False\<rparr>"

definition probe_ok :: "FormatProbeResult \<Rightarrow> bool" where
  "probe_ok r \<longleftrightarrow> probe_version r \<noteq> 0 \<and> diag_code (probe_diagnostic r) = []"

definition ProbeValue :: "string \<Rightarrow> nat \<Rightarrow> FormatProbeResult" where
  "ProbeValue bs value_begin =
     (let value_end = skip_while (\<lambda>c. \<not> IsHorizontalSpace c \<and> c \<noteq> CHR ''#'' \<and> c \<noteq> carriage_return \<and> c \<noteq> newline)
                        bs value_begin;
          text = take (value_end - value_begin) (drop value_begin bs);
          offset = skip_while IsHorizontalSpace bs value_end in
      if offset < length bs \<and> bs ! offset \<noteq> CHR ''#'' \<and> bs ! offset \<noteq> carriage_return \<and> bs ! offset \<noteq> newline
      then ProbeError kFormatInvalid ''rules.format_invalid_value'' value_begin (offset + 1)
      else if text = ''1'' then \<lparr>probe_version = 1, probe_diagnostic = empty_diagnostic\<rparr>
      else if text \<noteq> [] \<and> list_all is_digit text \<and> (text = ''0'' \<or> hd text \<noteq> CHR ''0'')
      then ProbeError kFormatUnsupported ''rules.format_unsupported'' value_begin offset
      else ProbeError kFormatInvalid ''rules.format_invalid_value'' value_begin offset)"

definition ProbeRulesFormat :: "SourceBuffer \<Rightarrow> FormatProbeResult" where
  "ProbeRulesFormat source =
     (let bs = source_bytes source;
          declaration_begin = SkipBlank bs (if HasUtf8Bom bs then 3 else 0) in
      if declaration_begin = length bs
      then ProbeError kFormatMissing ''rules.format_missing'' declaration_begin declaration_begin
      else if take 6 (drop declaration_begin bs) \<noteq> ''format''
      then ProbeError kFormatInvalid ''rules.format_must_be_first'' declaration_begin
             (min (length bs) (declaration_begin + 1))
      else let key_end = declaration_begin + 6 in
        if key_end < length bs \<and> \<not> IsHorizontalSpace (bs ! key_end) \<and> bs ! key_end \<noteq> CHR ''=''
        then ProbeError kFormatInvalid ''rules.format_bare_key_required'' declaration_begin
               (min (length bs) (key_end + 1))
        else let equals = skip_while IsHorizontalSpace bs key_end in
          if equals = length bs \<or> bs ! equals \<noteq> CHR ''=''
          then ProbeError kFormatInvalid ''rules.format_equals_required'' declaration_begin equals
          else ProbeValue bs (skip_while IsHorizontalSpace bs (equals + 1)))"


subsection \<open>Lines and columns\<close>

lemma sorted_LineStarts: "sorted_wrt (<) (LineStarts bs)"
proof -
  have "sorted_wrt (<) (filter (\<lambda>offset. bs ! offset = newline) [0..<length bs])"
    by (rule sorted_wrt_filter) simp
  thus ?thesis by (auto simp: LineStarts_def sorted_wrt_map)
qed

lemma takeWhile_le_sorted:
  fixes xs :: "nat list"
  shows "sorted_wrt (<) xs \<Longrightarrow> takeWhile (\<lambda>x. \<not> v < x) xs = filter (\<lambda>x. x \<le> v) xs"
proof (induction xs)
  case (Cons x xs)
  show ?case
  proof (cases "x \<le> v")
    case False
    with Cons.prems have "filter (\<lambda>x. x \<le> v) xs = []" by (fastforce simp: filter_empty_conv)
    with False show ?thesis by simp
  qed (use Cons in \<open>simp add: not_less\<close>)
qed simp

definition line_text :: "string \<Rightarrow> nat \<Rightarrow> string" where
  "line_text bs offset = rev (takeWhile (\<lambda>c. c \<noteq> newline) (rev (take offset bs)))"

lemma line_text_Suc:
  "offset < length bs \<Longrightarrow>
   line_text bs (Suc offset) = (if bs ! offset = newline then [] else line_text bs offset @ [bs ! offset])"
  by (simp add: line_text_def take_Suc_conv_app_nth)

lemma line_start_le: "length (line_text bs offset) \<le> offset"
  using length_takeWhile_le [of "\<lambda>c. c \<noteq> newline" "rev (take offset bs)"] by (simp add: line_text_def)

lemma line_text_drop:
  assumes "offset \<le> length bs"
  shows "line_text bs offset = drop (offset - length (line_text bs offset)) (take offset bs)"
proof -
  let ?P = "\<lambda>c. c \<noteq> newline" and ?xs = "take offset bs"
  have "rev (takeWhile ?P (rev ?xs) @ dropWhile ?P (rev ?xs)) = ?xs"
    by (simp only: takeWhile_dropWhile_id rev_rev_ident)
  hence split: "?xs = rev (dropWhile ?P (rev ?xs)) @ line_text bs offset"
    by (simp only: rev_append line_text_def)
  have "length ?xs = offset" using assms by simp
  hence "offset - length (line_text bs offset) = length (rev (dropWhile ?P (rev ?xs)))"
    by (metis split add_diff_cancel_right' length_append)
  thus ?thesis by (metis split append_eq_conv_conj)
qed

lemma LineStarts_upto:
  assumes "offset \<le> length bs"
  shows "filter (\<lambda>x. x \<le> offset) (LineStarts bs) =
      0 # map Suc (filter (\<lambda>i. bs ! i = newline) [0..<offset])"
proof -
  have "[0..<length bs] = [0..<offset] @ [offset..<length bs]" using assms by (metis le_add_diff_inverse upt_add_eq_append zero_le)
  hence "filter (\<lambda>i. Suc i \<le> offset) (filter (\<lambda>i. bs ! i = newline) [0..<length bs]) =
      filter (\<lambda>i. bs ! i = newline) [0..<offset]"
    by (simp add: filter_empty_conv) (auto intro!: filter_cong)
  thus ?thesis by (simp add: LineStarts_def filter_map comp_def)
qed

lemma newlines_before:
  assumes "offset \<le> length bs"
  shows "length (filter (\<lambda>i. bs ! i = newline) [0..<offset]) = count_list (take offset bs) newline"
    "last (0 # map Suc (filter (\<lambda>i. bs ! i = newline) [0..<offset])) = offset - length (line_text bs offset)"
  using assms
proof (induction offset)
  case (Suc n)
  {
    case 1
    with Suc show ?case by (simp add: take_Suc_conv_app_nth)
  next
    case 2
    with Suc(2) line_text_Suc [of n bs] line_start_le [of bs n] show ?case
      by (auto simp: Suc_diff_le split: if_splits)
  }
qed (simp_all add: line_text_def)

lemma PositionAt_eq:
  assumes "offset \<le> length bs"
  defines "start \<equiv> offset - length (line_text bs offset)"
  shows "PositionAt bs offset =
    Some \<lparr>pos_line = 1 + count_list (take offset bs) newline,
          pos_column = ColumnLoop bs offset
            (if count_list (take offset bs) newline = 0 \<and> HasUtf8Bom bs \<and> start < 3 \<and> offset \<ge> 3
             then 3 else start) 1\<rparr>"
proof -
  let ?nl = "filter (\<lambda>i. bs ! i = newline) [0..<offset]"
  have tw: "takeWhile (\<lambda>x. \<not> offset < x) (LineStarts bs) = 0 # map Suc ?nl"
    using takeWhile_le_sorted [OF sorted_LineStarts] LineStarts_upto [OF assms(1)] by simp
  hence ub: "upper_bound offset (LineStarts bs) - 1 = length ?nl" by (simp add: upper_bound_def)
  have "LineStarts bs ! length ?nl = last (0 # map Suc ?nl)"
  proof -
    have "length ?nl < length (takeWhile (\<lambda>x. \<not> offset < x) (LineStarts bs))" by (simp add: tw)
    hence "LineStarts bs ! length ?nl = (0 # map Suc ?nl) ! length ?nl" using takeWhile_nth tw by metis
    thus ?thesis by (simp add: last_conv_nth)
  qed
  with newlines_before [OF assms(1)] ub assms(1) show ?thesis
    by (simp add: PositionAt_def Let_def start_def)
qed

lemma ColumnLoop_bounds:
  "column \<le> ColumnLoop bs offset cursor column \<and>
   ColumnLoop bs offset cursor column \<le> column + (offset - cursor)"
proof (induction bs offset cursor column rule: ColumnLoop.induct)
  case (1 bs offset cursor column)
  show ?case
  proof (cases "cursor < offset")
    case True
    have "offset - (cursor + Utf8Width bs cursor offset) < offset - cursor"
      using True Utf8Width_pos [of bs cursor offset] by (intro diff_less_mono2) simp_all
    with 1(1) [OF True] 1(2) [OF True] True show ?thesis
      by (subst (1 2) ColumnLoop.simps) (simp, linarith)
  qed (subst (1 2) ColumnLoop.simps; simp)
qed

lemma Utf8Lead_ascii:
  assumes "byte_of c < 128"
  shows "Utf8Lead c = 1"
proof -
  have "and n m \<noteq> k" if "n < 128" "128 \<le> k" for n m k :: nat
  proof
    assume "and n m = k"
    moreover have "int (and n m) \<le> int n" by (simp add: of_nat_and_eq AND_upper1)
    ultimately show False using that by linarith
  qed
  from this [OF assms] show ?thesis by (simp add: Utf8Lead_def Let_def)
qed

lemma ColumnLoop_ascii:
  "\<forall>i. cursor \<le> i \<and> i < offset \<longrightarrow> byte_of (bs ! i) < 128 \<and> bs ! i \<noteq> carriage_return \<Longrightarrow>
   ColumnLoop bs offset cursor column = column + (offset - cursor)"
proof (induction bs offset cursor column rule: ColumnLoop.induct)
  case (1 bs offset cursor column)
  show ?case
  proof (cases "cursor < offset")
    case True
    with 1(3) have c: "byte_of (bs ! cursor) < 128" "bs ! cursor \<noteq> carriage_return" by simp_all
    have w: "Utf8Width bs cursor offset = 1"
      using Utf8Lead_ascii [OF c(1)] True by (simp add: Utf8Width_def)
    have "ColumnLoop bs offset (cursor + 1) (column + 1) = column + 1 + (offset - (cursor + 1))"
      using 1(2) [OF True] 1(3) c(2) w by simp
    with True c(2) w show ?thesis by (subst ColumnLoop.simps) simp
  qed (subst ColumnLoop.simps; simp)
qed

subsection \<open>JSON text\<close>

text \<open>A reference reader for the body of a JSON string (RFC 8259), for the escapes below \<open>\u0100\<close>.\<close>

definition hex_value :: "char \<Rightarrow> nat option" where
  "hex_value c =
     (if is_digit c then Some (digit_value c)
      else if CHR ''a'' \<le> c \<and> c \<le> CHR ''f'' then Some (byte_of c - 87) else None)"

definition short_escape :: "char \<Rightarrow> char option" where
  "short_escape c =
     (if c = CHR 0x22 \<or> c = CHR 0x5C \<or> c = CHR ''/'' then Some c
      else if c = CHR ''b'' then Some (CHR 0x08) else if c = CHR ''f'' then Some (CHR 0x0C)
      else if c = CHR ''n'' then Some newline else if c = CHR ''r'' then Some carriage_return
      else if c = CHR ''t'' then Some (CHR 0x09) else None)"

fun json_unescape :: "string \<Rightarrow> string option" where
  "json_unescape [] = Some []"
| "json_unescape (c # cs) =
     (if c = CHR 0x22 \<or> byte_of c < 32 then None
      else if c \<noteq> CHR 0x5C then map_option (Cons c) (json_unescape cs)
      else case cs of
        [] \<Rightarrow> None
      | e # rest \<Rightarrow>
          (case short_escape e of
             Some d \<Rightarrow> map_option (Cons d) (json_unescape rest)
           | None \<Rightarrow>
               (case rest of
                  z0 # z1 # h # l # rest' \<Rightarrow>
                    if e = CHR ''u'' \<and> z0 = CHR ''0'' \<and> z1 = CHR ''0'' then
                      (case (hex_value h, hex_value l) of
                         (Some x, Some y) \<Rightarrow> map_option (Cons (char_of (16 * x + y))) (json_unescape rest')
                       | _ \<Rightarrow> None)
                    else None
                | _ \<Rightarrow> None)))"

lemma hex_pair:
  "n < 32 \<Longrightarrow> hex_value (hex_digits ! (drop_bit 4 n)) = Some (n div 16) \<and>
              hex_value (hex_digits ! (and n 15)) = Some (n mod 16)"
proof -
  have "list_all (\<lambda>n. hex_value (hex_digits ! (drop_bit 4 n)) = Some (n div 16) \<and>
      hex_value (hex_digits ! (and n 15)) = Some (n mod 16)) [0..<32]" by code_simp
  thus "n < 32 \<Longrightarrow> ?thesis" by (simp add: list_all_iff)
qed

lemma json_unescape_byte:
  "json_unescape (EscapeByte c @ rest) = map_option (Cons c) (json_unescape rest)"
proof -
  let ?n = "byte_of c :: nat"
  have inj: "?n = byte_of d \<Longrightarrow> c = d" for d by simp
  consider (quote) "c = CHR 0x22" | (slash) "c = CHR 0x5C" | (short) "?n \<in> {8, 9, 10, 12, 13}"
    | (hex) "?n < 32" "?n \<notin> {8, 9, 10, 12, 13}" | (plain) "32 \<le> ?n" "c \<noteq> CHR 0x22" "c \<noteq> CHR 0x5C" by fastforce
  thus ?thesis
  proof cases
    case short
    hence "c \<in> {CHR 0x08, CHR 0x09, CHR 0x0A, CHR 0x0C, CHR 0x0D}"
      using inj [of "CHR 0x08"] inj [of "CHR 0x09"] inj [of "CHR 0x0A"] inj [of "CHR 0x0C"] inj [of "CHR 0x0D"]
      by auto
    thus ?thesis by (auto simp: EscapeByte_def short_escape_def Let_def)
  next
    case hex
    hence ne: "c \<noteq> CHR 0x22" "c \<noteq> CHR 0x5C" by auto
    have "char_of (16 * (?n div 16) + ?n mod 16) = c" by simp
    with hex ne hex_pair [OF hex(1)] show ?thesis
      by (simp add: EscapeByte_def Let_def short_escape_def)
  qed (simp_all add: EscapeByte_def short_escape_def Let_def)
qed

lemma json_unescape_escape: "json_unescape (EscapeJson s) = Some s"
proof -
  have "json_unescape (EscapeJson s @ []) = Some s"
    by (induction s) (simp_all add: EscapeJson_def json_unescape_byte)
  thus ?thesis by simp
qed

subsection \<open>The format declaration\<close>

lemma drop_skip_while: "drop (skip_while p bs offset) bs = dropWhile p (drop offset bs)"
  by (simp add: skip_while_def dropWhile_eq_drop add.commute)

lemma skip_while_end:
  "offset \<le> length bs \<Longrightarrow> skip_while p bs offset < length bs \<longleftrightarrow> dropWhile p (drop offset bs) \<noteq> []"
  "offset \<le> length bs \<Longrightarrow> dropWhile p (drop offset bs) \<noteq> [] \<Longrightarrow>
   bs ! skip_while p bs offset = hd (dropWhile p (drop offset bs))"
  using skip_while_le [of offset bs p] by (auto simp: drop_skip_while [symmetric] hd_drop_conv_nth)

lemma take_skip_while:
  "take (skip_while p bs offset - offset) (drop offset bs) = takeWhile p (drop offset bs)"
  by (simp add: skip_while_def takeWhile_eq_take [symmetric])

definition line_end :: "string \<Rightarrow> bool" where
  "line_end rest \<longleftrightarrow> rest = [] \<or> hd rest = CHR ''#'' \<or> hd rest = carriage_return \<or> hd rest = newline"

lemma probe_error: "\<not> probe_ok (ProbeError code key b e)"
  by (simp add: ProbeError_def probe_ok_def)

definition version_ok :: "FormatProbeResult \<Rightarrow> bool" where
  "version_ok r \<longleftrightarrow> probe_version r = (if probe_ok r then 1 else 0)"

lemma version_ok_intros:
  "version_ok (ProbeError code key b e)"
  "version_ok \<lparr>probe_version = 1, probe_diagnostic = empty_diagnostic\<rparr>"
  "version_ok a \<Longrightarrow> version_ok b' \<Longrightarrow> version_ok (if c then a else b')"
  by (simp add: version_ok_def ProbeError_def probe_ok_def)
     (simp add: version_ok_def probe_ok_def empty_diagnostic_def diagnostic_def, simp)

lemma version_ok_probe: "version_ok (ProbeRulesFormat source)"
  unfolding ProbeRulesFormat_def ProbeValue_def Let_def by (intro version_ok_intros)

lemma ProbeValue_ok:
  assumes "value_begin \<le> length bs"
  shows "probe_ok (ProbeValue bs value_begin) \<longleftrightarrow>
    (\<exists>w rest. drop value_begin bs = ''1'' @ w @ rest \<and> list_all IsHorizontalSpace w \<and> line_end rest)"
proof -
  let ?nd = "\<lambda>c. \<not> IsHorizontalSpace c \<and> c \<noteq> CHR ''#'' \<and> c \<noteq> carriage_return \<and> c \<noteq> newline"
  let ?t = "drop value_begin bs"
  let ?rest = "dropWhile IsHorizontalSpace (dropWhile ?nd ?t)"
  have ve: "skip_while ?nd bs value_begin \<le> length bs" by (rule skip_while_le [OF assms])
  note rest = skip_while_end [OF ve, of IsHorizontalSpace, unfolded drop_skip_while]
  let ?o = "skip_while IsHorizontalSpace bs (skip_while ?nd bs value_begin)"
  have cond: "(?o < length bs \<and> bs ! ?o \<noteq> CHR ''#'' \<and> bs ! ?o \<noteq> carriage_return \<and> bs ! ?o \<noteq> newline) \<longleftrightarrow>
      \<not> line_end ?rest"
  proof (cases "?rest = []")
    case True
    hence "\<not> ?o < length bs" using rest(1) by blast
    with True show ?thesis by (simp add: line_end_def del: dropWhile_eq_Nil_conv)
  next
    case False
    hence "?o < length bs" "bs ! ?o = hd ?rest" using rest by blast+
    with False show ?thesis by (simp add: line_end_def del: dropWhile_eq_Nil_conv)
  qed
  have one: "probe_ok \<lparr>probe_version = 1, probe_diagnostic = empty_diagnostic\<rparr>"
    by (simp add: probe_ok_def empty_diagnostic_def diagnostic_def)
  have "probe_ok (ProbeValue bs value_begin) \<longleftrightarrow> line_end ?rest \<and> takeWhile ?nd ?t = ''1''"
    unfolding ProbeValue_def Let_def take_skip_while cond using one probe_error by presburger
  also have "\<dots> \<longleftrightarrow> (\<exists>w rest. ?t = ''1'' @ w @ rest \<and> list_all IsHorizontalSpace w \<and> line_end rest)"
  proof
    assume a: "line_end ?rest \<and> takeWhile ?nd ?t = ''1''"
    let ?w = "takeWhile IsHorizontalSpace (dropWhile ?nd ?t)"
    have split: "takeWhile ?nd ?t @ ?w @ ?rest = ?t" by (simp only: takeWhile_dropWhile_id)
    from a have one: "takeWhile ?nd ?t = ''1''" by blast
    have "?t = ''1'' @ ?w @ ?rest" by (rule split [unfolded one, symmetric])
    moreover have "list_all IsHorizontalSpace ?w" by (auto simp: list_all_iff dest: set_takeWhileD)
    ultimately show "\<exists>w rest. ?t = ''1'' @ w @ rest \<and> list_all IsHorizontalSpace w \<and> line_end rest"
      using a by blast
  next
    assume "\<exists>w rest. ?t = ''1'' @ w @ rest \<and> list_all IsHorizontalSpace w \<and> line_end rest"
    then obtain w rest where t: "?t = ''1'' @ w @ rest" and w: "list_all IsHorizontalSpace w" and r: "line_end rest"
      by blast
    have one: "?nd CHR ''1''" by (simp add: IsHorizontalSpace_def)
    have stop: "takeWhile ?nd (w @ rest) = []" "dropWhile ?nd (w @ rest) = w @ rest"
      using w r by (cases w; cases rest; auto simp: line_end_def)+
    have "dropWhile IsHorizontalSpace rest = rest"
      using r by (cases rest) (auto simp: line_end_def IsHorizontalSpace_def)
    hence "dropWhile IsHorizontalSpace (w @ rest) = rest"
      using w by (simp add: dropWhile_append list_all_iff)
    with one stop r show "line_end ?rest \<and> takeWhile ?nd ?t = ''1''"
      by (simp add: t)
  qed
  finally show ?thesis .
qed

lemma SkipBlank_le: "offset \<le> length bs \<Longrightarrow> SkipBlank bs offset \<le> length bs"
proof (induction bs offset rule: SkipBlank.induct)
  case (1 bs offset)
  thus ?case
    by (subst SkipBlank.simps) (auto simp: Let_def skip_while_le)
qed

lemma SkipBlank_start: "(if HasUtf8Bom bs then 3 else 0) \<le> length bs"
  by (simp add: HasUtf8Bom_def)

definition format_declaration :: "string \<Rightarrow> bool" where
  "format_declaration s \<longleftrightarrow>
     (\<exists>w1 w2 w3 rest. s = ''format'' @ w1 @ ''='' @ w2 @ ''1'' @ w3 @ rest \<and>
        list_all IsHorizontalSpace w1 \<and> list_all IsHorizontalSpace w2 \<and> list_all IsHorizontalSpace w3 \<and>
        line_end rest)"

lemma blank_then:
  assumes "\<not> IsHorizontalSpace c"
  shows "(\<exists>w rest. s = w @ c # rest \<and> list_all IsHorizontalSpace w \<and> P rest) \<longleftrightarrow>
    (\<exists>rest. dropWhile IsHorizontalSpace s = c # rest \<and> P rest)"
proof
  assume "\<exists>w rest. s = w @ c # rest \<and> list_all IsHorizontalSpace w \<and> P rest"
  then obtain w rest where "s = w @ c # rest" "list_all IsHorizontalSpace w" "P rest" by blast
  with assms show "\<exists>rest. dropWhile IsHorizontalSpace s = c # rest \<and> P rest"
    by (simp add: dropWhile_append list_all_iff)
next
  assume "\<exists>rest. dropWhile IsHorizontalSpace s = c # rest \<and> P rest"
  then obtain rest where "dropWhile IsHorizontalSpace s = c # rest" "P rest" by blast
  moreover have "s = takeWhile IsHorizontalSpace s @ dropWhile IsHorizontalSpace s" by simp
  moreover have "list_all IsHorizontalSpace (takeWhile IsHorizontalSpace s)"
    by (auto simp: list_all_iff dest: set_takeWhileD)
  ultimately show "\<exists>w rest. s = w @ c # rest \<and> list_all IsHorizontalSpace w \<and> P rest" by metis
qed

lemma blank_chars: "\<not> IsHorizontalSpace CHR ''=''" "\<not> IsHorizontalSpace CHR ''1''"
  by (simp_all add: IsHorizontalSpace_def)

lemma format_declaration_chain:
  "format_declaration (''format'' @ t) \<longleftrightarrow>
   (\<exists>w1 r1. t = w1 @ CHR ''='' # r1 \<and> list_all IsHorizontalSpace w1 \<and>
      (\<exists>w2 r2. r1 = w2 @ CHR ''1'' # r2 \<and> list_all IsHorizontalSpace w2 \<and>
         (\<exists>w3 rest. r2 = w3 @ rest \<and> list_all IsHorizontalSpace w3 \<and> line_end rest)))"
  by (simp add: format_declaration_def) blast

lemma ProbeRulesFormat_ok:
  fixes source :: SourceBuffer
  defines "bs \<equiv> source_bytes source"
  defines "d \<equiv> SkipBlank bs (if HasUtf8Bom bs then 3 else 0)"
  shows "probe_ok (ProbeRulesFormat source) \<longleftrightarrow> format_declaration (drop d bs)"
proof -
  have d: "d \<le> length bs" unfolding d_def by (rule SkipBlank_le [OF SkipBlank_start])
  let ?s = "drop d bs" and ?k = "d + 6"
  let ?e = "skip_while IsHorizontalSpace bs ?k"
  show ?thesis
  proof (cases "take 6 ?s = ''format''")
    case False
    hence "\<not> format_declaration ?s" by (auto simp: format_declaration_def)
    with False show ?thesis
      unfolding ProbeRulesFormat_def Let_def bs_def [symmetric] d_def [symmetric] by (auto simp: probe_error)
  next
    case True
    hence "length (take 6 ?s) = 6" by simp
    hence k: "?k \<le> length bs" "d \<noteq> length bs" by auto
    have s: "?s = ''format'' @ drop ?k bs" by (metis True append_take_drop_id drop_drop add.commute)
    let ?u = "dropWhile IsHorizontalSpace (drop ?k bs)"
    have e: "?e \<le> length bs" "drop ?e bs = ?u" by (rule skip_while_le [OF k(1)], rule drop_skip_while)
    have at_e: "(?e = length bs \<or> bs ! ?e \<noteq> CHR ''='') \<longleftrightarrow> \<not> (\<exists>rest. ?u = CHR ''='' # rest)"
    proof (cases "?u = []")
      case True
      with skip_while_end(1) [OF k(1), of IsHorizontalSpace] e(1) have "?e = length bs" by simp
      with True show ?thesis by (simp del: dropWhile_eq_Nil_conv)
    next
      case False
      with skip_while_end [OF k(1), of IsHorizontalSpace] have "?e < length bs" "bs ! ?e = hd ?u" by blast+
      with False show ?thesis by (metis less_irrefl list.collapse list.sel(1))
    qed
    have bare: "?k < length bs \<and> \<not> IsHorizontalSpace (bs ! ?k) \<and> bs ! ?k \<noteq> CHR ''='' \<Longrightarrow>
        \<not> (\<exists>rest. ?u = CHR ''='' # rest)"
      by (auto simp: Cons_nth_drop_Suc [symmetric])
    have val: "probe_ok (ProbeValue bs (skip_while IsHorizontalSpace bs (?e + 1))) \<longleftrightarrow>
        (\<exists>w3 rest'. dropWhile IsHorizontalSpace rest = ''1'' @ w3 @ rest' \<and>
           list_all IsHorizontalSpace w3 \<and> line_end rest')" if "?u = CHR ''='' # rest" for rest
    proof -
      have "?e < length bs" using e that by (metis drop_all list.distinct(1) not_le_imp_less)
      hence "drop (?e + 1) bs = rest" "?e + 1 \<le> length bs"
        using e(2) that by (simp_all add: Cons_nth_drop_Suc [symmetric])
      thus ?thesis
        by (simp only: ProbeValue_ok [OF skip_while_le [OF \<open>?e + 1 \<le> length bs\<close>]] drop_skip_while)
    qed
    have "probe_ok (ProbeRulesFormat source) \<longleftrightarrow>
        (\<exists>rest. ?u = CHR ''='' # rest \<and> probe_ok (ProbeValue bs (skip_while IsHorizontalSpace bs (?e + 1))))"
      unfolding ProbeRulesFormat_def Let_def bs_def [symmetric] d_def [symmetric]
      using True k(2) at_e bare by (auto simp: probe_error)
    also have "\<dots> \<longleftrightarrow> format_declaration ?s"
      unfolding s format_declaration_chain
        blank_then [OF blank_chars(1)] blank_then [OF blank_chars(2)] using val by auto blast+
    finally show ?thesis .
  qed
qed

subsection \<open>Properties\<close>

text \<open>
  \<open>PositionAt\<close> is defined exactly for the offsets of the source and its end.  The line is
  one more than the number of newlines before the offset; the column is at least 1 and at most one more
  than the number of bytes of the line before the offset, and exactly that for a line of ASCII without
  carriage returns in a source without a byte order mark.
\<close>

theorem PositionAt_line_and_column:
  "case PositionAt bs offset of
     None \<Rightarrow> length bs < offset
   | Some p \<Rightarrow>
       offset \<le> length bs \<and> pos_line p = 1 + count_list (take offset bs) newline \<and>
       1 \<le> pos_column p \<and> pos_column p \<le> 1 + length (line_text bs offset) \<and>
       (\<not> HasUtf8Bom bs \<and> list_all (\<lambda>c. byte_of c < 128 \<and> c \<noteq> carriage_return) (line_text bs offset) \<longrightarrow>
          pos_column p = 1 + length (line_text bs offset))"
proof (cases "offset \<le> length bs")
  case True
  let ?n = "length (line_text bs offset)"
  have ascii: "ColumnLoop bs offset (offset - ?n) 1 = 1 + ?n"
    if "list_all (\<lambda>c. byte_of c < 128 \<and> c \<noteq> carriage_return) (line_text bs offset)"
  proof -
    have "byte_of (bs ! i) < 128 \<and> bs ! i \<noteq> carriage_return" if i: "offset - ?n \<le> i" "i < offset" for i
    proof -
      have "line_text bs offset ! (i - (offset - ?n)) = drop (offset - ?n) (take offset bs) ! (i - (offset - ?n))"
        by (rule arg_cong [OF line_text_drop [OF True], of "\<lambda>xs. xs ! (i - (offset - ?n))"])
      also have "\<dots> = bs ! i" using i True by simp
      finally have "line_text bs offset ! (i - (offset - ?n)) = bs ! i" .
      moreover have "i - (offset - ?n) < ?n" using i line_start_le [of bs offset] by linarith
      ultimately have "line_text bs offset ! (i - (offset - ?n)) = bs ! i" "i - (offset - ?n) < ?n"
        by blast+
      with \<open>list_all _ _\<close> show ?thesis unfolding list_all_length by fastforce
    qed
    thus ?thesis using line_start_le [of bs offset] by (simp add: ColumnLoop_ascii)
  qed
  have bounds: "1 \<le> ColumnLoop bs offset c 1 \<and> ColumnLoop bs offset c 1 \<le> 1 + ?n" if "offset - ?n \<le> c" for c
    using ColumnLoop_bounds [of 1 bs offset c] that by linarith
  show ?thesis
    unfolding PositionAt_eq [OF True] option.case SourcePosition.simps using True bounds ascii by auto
qed (simp add: PositionAt_def)

theorem PositionAt_line_and_column_witness:
  "PositionAt ''ab'' 2 = Some \<lparr>pos_line = 1, pos_column = 3\<rparr> \<and> length (line_text ''ab'' 2) = 2"
proof -
  have p: "PositionAt ''ab'' 2 = Some \<lparr>pos_line = 1, pos_column = 3\<rparr>" by code_simp
  have "\<not> HasUtf8Bom ''ab'' \<and> list_all (\<lambda>c. byte_of c < 128 \<and> c \<noteq> carriage_return) (line_text ''ab'' 2)"
    by code_simp
  with PositionAt_line_and_column [of "''ab''" 2] p show ?thesis by simp
qed

text \<open>
  JSON escaping loses nothing and is well formed: a JSON reader of string bodies, which
  refuses raw quotes and control characters, reads every escaped text back as the original bytes.
\<close>

theorem EscapeJson_round_trip: "json_unescape (EscapeJson s) = Some s"
  by (rule json_unescape_escape)

text \<open>
  The format probe accepts a source exactly when, after an optional byte order mark, blanks
  and comments, it continues with the key \<open>format\<close>, an equals sign and the value \<open>1\<close>, separated by
  horizontal space only and followed by horizontal space and the end of the line, a comment or the end
  of the source; it then reports version 1.
\<close>

theorem ProbeRulesFormat_accepts:
  "(probe_ok (ProbeRulesFormat source) \<longleftrightarrow>
      format_declaration (drop (SkipBlank (source_bytes source) (if HasUtf8Bom (source_bytes source) then 3 else 0))
        (source_bytes source))) \<and>
   probe_version (ProbeRulesFormat source) = (if probe_ok (ProbeRulesFormat source) then 1 else 0)"
proof
  show "probe_version (ProbeRulesFormat source) = (if probe_ok (ProbeRulesFormat source) then 1 else 0)"
    using version_ok_probe [of source] by (simp only: version_ok_def)
qed (rule ProbeRulesFormat_ok)

end
