(* ===== verification/PG_Scanner.thy ===== *)
theory PG_Scanner
  imports PG_Source
begin

text \<open>
  The arrow scanner, \<open>rules/src/arrow_scanner.cpp\<close>: a lexer over the raw TOML text that finds the
  redirect arrows \<open>"a" -> "b"\<close> inside value arrays.  The private members of the class \<open>Scanner\<close> are the
  record \<open>Scanner\<close>, its methods are functions on it, and \<open>Run\<close> is the loop \<open>ScanLoop\<close> over \<open>ScanStep\<close>.
  The top of the frame stack (\<open>frames_.back()\<close>) is the head of the list.
\<close>

subsection \<open>Tokens and frames\<close>

datatype SignificantKind =
  TkString | TkMultilineString | TkArrow | TkOpenArray | TkCloseArray | TkOpenInlineTable |
  TkCloseInlineTable | TkComma | TkEquals | TkDot | TkOther

datatype FrameKind =
  ValueArray | InlineTable | TableHeader | ArrayTableHeader | UnknownBracket | UnknownBrace

record SignificantToken =
  tok_kind :: SignificantKind
  tok_span :: ByteSpan
  tok_frame :: nat

record Frame =
  frame_kind :: FrameKind
  frame_id :: nat
  frame_closing :: char
  frame_closing_count :: nat

datatype PendingStage = WaitingTarget | WaitingDelimiter

record PendingCandidate =
  pend_stage :: PendingStage
  pend_source :: ByteSpan
  pend_arrow :: ByteSpan
  pend_target :: ByteSpan
  pend_frame :: nat

record StringToken =
  str_end :: nat
  str_multiline :: bool
  str_terminated :: bool

record ArrowCandidate =
  cand_rule :: ByteSpan
  cand_source :: ByteSpan
  cand_arrow :: ByteSpan
  cand_target :: ByteSpan
  cand_frame :: nat

record ArrowScanResult =
  scan_candidates :: "ArrowCandidate list"
  scan_diagnostics :: "Diagnostic list"
  significant_tokens :: nat
  max_frame_depth :: nat
  bytes_consumed :: nat
  open_frames_at_eof :: nat

definition parser_allowed :: "ArrowScanResult \<Rightarrow> bool" where
  "parser_allowed r \<longleftrightarrow> scan_diagnostics r = []"

definition IsNewline :: "char \<Rightarrow> bool" where
  "IsNewline c \<longleftrightarrow> c = carriage_return \<or> c = newline"

abbreviation double_quote :: char where "double_quote \<equiv> CHR 0x22"
abbreviation single_quote :: char where "single_quote \<equiv> CHR 0x27"
abbreviation backslash :: char where "backslash \<equiv> CHR 0x5C"

definition IsTokenBoundary :: "char \<Rightarrow> bool" where
  "IsTokenBoundary c \<longleftrightarrow>
     IsHorizontalSpace c \<or> IsNewline c \<or> c = CHR ''#'' \<or> c = double_quote \<or> c = single_quote \<or>
     c = CHR ''['' \<or> c = CHR '']'' \<or> c = CHR ''{'' \<or> c = CHR ''}'' \<or> c = CHR ''='' \<or>
     c = CHR '','' \<or> c = CHR ''.''"

definition QuoteRun :: "string \<Rightarrow> char \<Rightarrow> nat" where
  "QuoteRun rest quote = length (takeWhile (\<lambda>c. c = quote) rest)"

text \<open>The two loops of \<open>ScanStringToken\<close>, on the text that is left and its offset.\<close>

fun ScanSimpleString :: "char \<Rightarrow> bool \<Rightarrow> nat \<Rightarrow> nat \<Rightarrow> string \<Rightarrow> StringToken" where
  "ScanSimpleString quote basic slash_run offset [] =
     \<lparr>str_end = offset, str_multiline = False, str_terminated = False\<rparr>"
| "ScanSimpleString quote basic slash_run offset (c # rest) =
     (if IsNewline c then \<lparr>str_end = offset, str_multiline = False, str_terminated = False\<rparr>
      else if c = quote \<and> (\<not> basic \<or> slash_run mod 2 = 0)
      then \<lparr>str_end = offset + 1, str_multiline = False, str_terminated = True\<rparr>
      else ScanSimpleString quote basic (if basic \<and> c = backslash then slash_run + 1 else 0) (offset + 1) rest)"

function ScanMultilineString :: "char \<Rightarrow> bool \<Rightarrow> nat \<Rightarrow> nat \<Rightarrow> string \<Rightarrow> StringToken" where
  "ScanMultilineString quote basic slash_run offset [] =
     \<lparr>str_end = offset, str_multiline = True, str_terminated = False\<rparr>"
| "ScanMultilineString quote basic slash_run offset (c # rest) =
     (if c = quote then
        let run = QuoteRun (c # rest) quote in
        if \<not> basic \<and> run \<ge> 3 then \<lparr>str_end = offset + min run 5, str_multiline = True, str_terminated = True\<rparr>
        else if basic \<and> slash_run mod 2 = 0 \<and> run \<ge> 3
        then \<lparr>str_end = offset + min run 5, str_multiline = True, str_terminated = True\<rparr>
        else if basic \<and> slash_run mod 2 = 1 \<and> run \<ge> 4
        then \<lparr>str_end = offset + 1 + min (run - 1) 5, str_multiline = True, str_terminated = True\<rparr>
        else ScanMultilineString quote basic 0 (offset + run) (drop run (c # rest))
      else ScanMultilineString quote basic (if basic \<and> c = backslash then slash_run + 1 else 0) (offset + 1) rest)"
  by pat_completeness auto
termination
  by (relation "measure (\<lambda>(_, _, _, _, rest). length rest)") (auto simp: QuoteRun_def)

declare ScanMultilineString.simps [simp del]

definition ScanStringToken :: "string \<Rightarrow> nat \<Rightarrow> StringToken" where
  "ScanStringToken bs start =
     (let quote = bs ! start; basic = (quote = double_quote) in
      if start + 2 < length bs \<and> bs ! (start + 1) = quote \<and> bs ! (start + 2) = quote
      then ScanMultilineString quote basic 0 (start + 3) (drop (start + 3) bs)
      else ScanSimpleString quote basic 0 (start + 1) (drop (start + 1) bs))"

subsection \<open>The scanner\<close>

record Scanner =
  candidates :: "ArrowCandidate list"
  diagnostics :: "Diagnostic list"
  token_count :: nat
  frame_depth :: nat
  frames :: "Frame list"
  previous_token :: "SignificantToken option"
  last_token :: "SignificantToken option"
  pending :: "PendingCandidate option"
  suppress_arrow_frame :: "nat option"
  next_frame_id :: nat
  at_statement_start :: bool
  expecting_value :: bool
  comment_since_significant :: bool
  has_error :: bool
  omitted :: bool
  stopped :: bool

definition Scanner_new :: Scanner where
  "Scanner_new =
     \<lparr>candidates = [], diagnostics = [], token_count = 0, frame_depth = 0, frames = [],
      previous_token = None, last_token = None, pending = None, suppress_arrow_frame = None,
      next_frame_id = 1, at_statement_start = True, expecting_value = False,
      comment_since_significant = False, has_error = False, omitted = False, stopped = False\<rparr>"

definition CurrentFrameId :: "Scanner \<Rightarrow> nat" where
  "CurrentFrameId st = (case frames st of [] \<Rightarrow> 0 | f # _ \<Rightarrow> frame_id f)"

definition CurrentFrameKind :: "Scanner \<Rightarrow> FrameKind" where
  "CurrentFrameKind st = (case frames st of [] \<Rightarrow> UnknownBracket | f # _ \<Rightarrow> frame_kind f)"

definition IsValueArrayFrame :: "Scanner \<Rightarrow> nat \<Rightarrow> bool" where
  "IsValueArrayFrame st i \<longleftrightarrow> list_ex (\<lambda>f. frame_id f = i \<and> frame_kind f = ValueArray) (frames st)"

definition AddDiagnostic :: "RulesLimits \<Rightarrow> string \<Rightarrow> string \<Rightarrow> ByteSpan \<Rightarrow> Scanner \<Rightarrow> Scanner" where
  "AddDiagnostic limits code key primary st =
     (let limit = max (max_diagnostics limits) 1 in
      if length (diagnostics st) < limit
      then st\<lparr>has_error := True, diagnostics := diagnostics st @ [diagnostic code key primary False]\<rparr>
      else if \<not> omitted st
      then st\<lparr>has_error := True, omitted := True,
              diagnostics := butlast (diagnostics st) @
                [diagnostic kDiagnosticsOmitted ''rules.diagnostics_omitted'' primary True]\<rparr>
      else st\<lparr>has_error := True\<rparr>)"

definition PushFrame :: "RulesLimits \<Rightarrow> FrameKind \<Rightarrow> char \<Rightarrow> nat \<Rightarrow> nat \<Rightarrow> Scanner \<Rightarrow> bool \<times> Scanner" where
  "PushFrame limits kind closing closing_count offset st =
     (if length (frames st) \<ge> max_container_depth limits
      then (False, (AddDiagnostic limits kResourceLimit ''rules.container_depth'' (Span offset (offset + 1)) st)
              \<lparr>stopped := True\<rparr>)
      else let fs = \<lparr>frame_kind = kind, frame_id = next_frame_id st, frame_closing = closing,
                     frame_closing_count = closing_count\<rparr> # frames st in
           (True, st\<lparr>frames := fs, next_frame_id := next_frame_id st + 1,
                     frame_depth := max (frame_depth st) (length fs)\<rparr>))"

definition ConfirmCandidate :: "RulesLimits \<Rightarrow> Scanner \<Rightarrow> Scanner" where
  "ConfirmCandidate limits st =
     (case pending st of
        None \<Rightarrow> st
      | Some p \<Rightarrow>
          if length (candidates st) \<ge> max_rewrites limits
          then (AddDiagnostic limits kResourceLimit ''rules.rewrite_limit'' (pend_arrow p) st)\<lparr>pending := None\<rparr>
          else st\<lparr>candidates := candidates st @
                    [\<lparr>cand_rule = Span (span_begin (pend_source p)) (span_end (pend_target p)),
                      cand_source = pend_source p, cand_arrow = pend_arrow p, cand_target = pend_target p,
                      cand_frame = pend_frame p\<rparr>],
                  pending := None\<rparr>)"

definition HandleComment :: "RulesLimits \<Rightarrow> string \<Rightarrow> nat \<Rightarrow> Scanner \<Rightarrow> Scanner" where
  "HandleComment limits bs offset st =
     (case pending st of
        Some p \<Rightarrow>
          if pend_stage p = WaitingTarget
          then (AddDiagnostic limits kArrowCommentInside ''rules.arrow_comment_inside''
                 (Span offset (min (length bs) (offset + 1))) st)\<lparr>pending := None\<rparr>
          else st
      | None \<Rightarrow> st\<lparr>comment_since_significant := True\<rparr>)"

definition DelimiterOf :: "SignificantToken \<Rightarrow> nat \<Rightarrow> bool" where
  "DelimiterOf token frame \<longleftrightarrow>
     (tok_kind token = TkComma \<or> tok_kind token = TkCloseArray) \<and> tok_frame token = frame"

definition HandleWaiting :: "RulesLimits \<Rightarrow> SignificantToken \<Rightarrow> PendingCandidate \<Rightarrow> Scanner \<Rightarrow> Scanner" where
  "HandleWaiting limits token p st =
     (if pend_stage p = WaitingTarget then
        if tok_kind token = TkString \<and> tok_frame token = pend_frame p
        then st\<lparr>pending := Some (p\<lparr>pend_target := tok_span token, pend_stage := WaitingDelimiter\<rparr>)\<rparr>
        else (AddDiagnostic limits kArrowOperand ''rules.arrow_operand'' (tok_span token) st)\<lparr>pending := None\<rparr>
      else if DelimiterOf token (pend_frame p) then ConfirmCandidate limits st
      else (if tok_kind token = TkArrow
            then AddDiagnostic limits kArrowChained ''rules.arrow_chained'' (tok_span token) st
            else if tok_kind token = TkString \<or> tok_kind token = TkMultilineString
            then (AddDiagnostic limits kArrowMissingComma ''rules.arrow_missing_comma'' (tok_span token) st)
                   \<lparr>suppress_arrow_frame := Some (pend_frame p)\<rparr>
            else AddDiagnostic limits kArrowContext ''rules.arrow_context'' (tok_span token) st)\<lparr>pending := None\<rparr>)"

definition HandleArrow :: "RulesLimits \<Rightarrow> SignificantToken \<Rightarrow> Scanner \<Rightarrow> Scanner" where
  "HandleArrow limits token st =
     (case last_token st of
        None \<Rightarrow> AddDiagnostic limits kArrowOperand ''rules.arrow_operand'' (tok_span token) st
      | Some l \<Rightarrow>
          if tok_kind l \<noteq> TkString
          then AddDiagnostic limits kArrowOperand ''rules.arrow_operand'' (tok_span token) st
          else if comment_since_significant st
          then AddDiagnostic limits kArrowCommentInside ''rules.arrow_comment_inside'' (tok_span token) st
          else if (case previous_token st of
                     None \<Rightarrow> True
                   | Some q \<Rightarrow> (tok_kind q \<noteq> TkOpenArray \<and> tok_kind q \<noteq> TkComma) \<or> tok_frame q \<noteq> tok_frame l) \<or>
                  tok_frame l \<noteq> tok_frame token \<or> \<not> IsValueArrayFrame st (tok_frame token)
          then AddDiagnostic limits kArrowContext ''rules.arrow_context'' (tok_span token) st
          else st\<lparr>pending := Some \<lparr>pend_stage = WaitingTarget, pend_source = tok_span l,
                                   pend_arrow = tok_span token, pend_target = Span 0 0,
                                   pend_frame = tok_frame token\<rparr>\<rparr>)"

definition HandlePending :: "RulesLimits \<Rightarrow> SignificantToken \<Rightarrow> Scanner \<Rightarrow> Scanner" where
  "HandlePending limits token st =
     (if tok_kind token = TkArrow \<and> suppress_arrow_frame st = Some (tok_frame token) then st
      else let st = (case suppress_arrow_frame st of
                       Some f \<Rightarrow> if DelimiterOf token f then st\<lparr>suppress_arrow_frame := None\<rparr> else st
                     | None \<Rightarrow> st) in
           case pending st of
             Some p \<Rightarrow> HandleWaiting limits token p st
           | None \<Rightarrow> if tok_kind token \<noteq> TkArrow then st else HandleArrow limits token st)"

definition Emit :: "RulesLimits \<Rightarrow> SignificantToken \<Rightarrow> Scanner \<Rightarrow> Scanner" where
  "Emit limits token st =
     (if stopped st then st
      else if token_count st \<ge> max_tokens_or_nodes limits
      then (AddDiagnostic limits kResourceLimit ''rules.token_limit'' (tok_span token) st)\<lparr>stopped := True\<rparr>
      else let st1 = HandlePending limits token (st\<lparr>token_count := token_count st + 1\<rparr>) in
           st1\<lparr>previous_token := last_token st1, last_token := Some token, comment_since_significant := False\<rparr>)"

abbreviation tok :: "SignificantKind \<Rightarrow> nat \<Rightarrow> nat \<Rightarrow> nat \<Rightarrow> SignificantToken" where
  "tok k b e f \<equiv> \<lparr>tok_kind = k, tok_span = Span b e, tok_frame = f\<rparr>"

definition OpenArray :: "RulesLimits \<Rightarrow> string \<Rightarrow> nat \<Rightarrow> Scanner \<Rightarrow> nat \<times> Scanner" where
  "OpenArray limits bs offset st =
     (let header = frames st = [] \<and> at_statement_start st \<and> \<not> expecting_value st;
          array_table = header \<and> offset + 1 < length bs \<and> bs ! (offset + 1) = CHR ''['';
          kind = (if array_table then ArrayTableHeader else if header then TableHeader
                  else if expecting_value st then ValueArray else UnknownBracket);
          width = (if array_table then 2 else 1) in
      case PushFrame limits kind CHR '']'' width offset st of
        (False, st1) \<Rightarrow> (length bs, st1)
      | (True, st1) \<Rightarrow>
          (offset + width,
           (Emit limits (tok TkOpenArray offset (offset + width) (CurrentFrameId st1)) st1)
             \<lparr>expecting_value := (kind = ValueArray), at_statement_start := False\<rparr>))"

definition CloseArray :: "RulesLimits \<Rightarrow> string \<Rightarrow> nat \<Rightarrow> Scanner \<Rightarrow> nat \<times> Scanner" where
  "CloseArray limits bs offset st =
     (let width = (case frames st of
                     [] \<Rightarrow> 1
                   | f # _ \<Rightarrow> if frame_closing f = CHR '']'' \<and> frame_closing_count f = 2 \<and>
                                 offset + 1 < length bs \<and> bs ! (offset + 1) = CHR '']'' then 2 else 1);
          st1 = Emit limits (tok TkCloseArray offset (offset + width) (CurrentFrameId st)) st;
          fs = (case frames st1 of
                  [] \<Rightarrow> [] | f # rest \<Rightarrow> if frame_closing f = CHR '']'' then rest else frames st1) in
      (offset + width, st1\<lparr>frames := fs, expecting_value := False\<rparr>))"

definition OpenBrace :: "RulesLimits \<Rightarrow> nat \<Rightarrow> Scanner \<Rightarrow> Scanner" where
  "OpenBrace limits offset st =
     (case PushFrame limits (if expecting_value st then InlineTable else UnknownBrace) CHR ''}'' 1 offset st of
        (False, st1) \<Rightarrow> st1
      | (True, st1) \<Rightarrow>
          (Emit limits (tok TkOpenInlineTable offset (offset + 1) (CurrentFrameId st1)) st1)
            \<lparr>expecting_value := False, at_statement_start := False\<rparr>)"

definition CloseBrace :: "RulesLimits \<Rightarrow> nat \<Rightarrow> Scanner \<Rightarrow> Scanner" where
  "CloseBrace limits offset st =
     (let st1 = Emit limits (tok TkCloseInlineTable offset (offset + 1) (CurrentFrameId st)) st;
          fs = (case frames st1 of
                  [] \<Rightarrow> [] | f # rest \<Rightarrow> if frame_closing f = CHR ''}'' then rest else frames st1) in
      st1\<lparr>frames := fs, expecting_value := False\<rparr>)"

definition ScanString :: "RulesLimits \<Rightarrow> string \<Rightarrow> nat \<Rightarrow> Scanner \<Rightarrow> nat \<times> Scanner" where
  "ScanString limits bs offset st =
     (let str = ScanStringToken bs offset; token_end = max (offset + 1) (str_end str) in
      if token_end - offset > max_string_token_bytes limits
      then (token_end, (AddDiagnostic limits kResourceLimit ''rules.string_token_too_large''
                         (Span offset token_end) st)\<lparr>stopped := True\<rparr>)
      else if \<not> str_terminated str
      then (token_end, (AddDiagnostic limits kArrowStringBoundary ''rules.arrow_string_boundary''
                         (Span offset token_end) st)\<lparr>stopped := True\<rparr>)
      else (str_end str,
            (Emit limits (tok (if str_multiline str then TkMultilineString else TkString) offset (str_end str)
                           (CurrentFrameId st)) st)
              \<lparr>expecting_value := False, at_statement_start := False\<rparr>))"

text \<open>The end of a bare token: a boundary character or an arrow.\<close>

fun BareEnd :: "nat \<Rightarrow> string \<Rightarrow> nat" where
  "BareEnd offset [] = offset"
| "BareEnd offset (c # rest) =
     (if \<not> IsTokenBoundary c \<and> \<not> (c = CHR ''-'' \<and> rest \<noteq> [] \<and> hd rest = CHR ''>'')
      then BareEnd (offset + 1) rest else offset)"

definition ScanStep :: "RulesLimits \<Rightarrow> string \<Rightarrow> nat \<Rightarrow> Scanner \<Rightarrow> nat \<times> Scanner" where
  "ScanStep limits bs offset st =
     (let c = bs ! offset in
      if IsHorizontalSpace c then (offset + 1, st)
      else if IsNewline c then
        (if c = carriage_return \<and> offset + 1 < length bs \<and> bs ! (offset + 1) = newline
         then offset + 2 else offset + 1,
         if frames st = [] then st\<lparr>at_statement_start := True, expecting_value := False\<rparr> else st)
      else if c = CHR ''#'' then
        (skip_while (\<lambda>c. c \<noteq> newline) bs offset, HandleComment limits bs offset st)
      else if c = double_quote \<or> c = single_quote then ScanString limits bs offset st
      else if c = CHR ''-'' \<and> offset + 1 < length bs \<and> bs ! (offset + 1) = CHR ''>'' then
        (offset + 2, Emit limits (tok TkArrow offset (offset + 2) (CurrentFrameId st)) st)
      else if c = CHR ''['' then OpenArray limits bs offset st
      else if c = CHR '']'' then CloseArray limits bs offset st
      else if c = CHR ''{'' then (offset + 1, OpenBrace limits offset st)
      else if c = CHR ''}'' then (offset + 1, CloseBrace limits offset st)
      else if c = CHR ''='' then
        (offset + 1, (Emit limits (tok TkEquals offset (offset + 1) (CurrentFrameId st)) st)
                       \<lparr>expecting_value := True, at_statement_start := False\<rparr>)
      else if c = CHR '','' then
        (let st1 = Emit limits (tok TkComma offset (offset + 1) (CurrentFrameId st)) st in
         (offset + 1, st1\<lparr>expecting_value := (CurrentFrameKind st1 = ValueArray)\<rparr>))
      else if c = CHR ''.'' then
        (offset + 1, (Emit limits (tok TkDot offset (offset + 1) (CurrentFrameId st)) st)
                       \<lparr>expecting_value := False, at_statement_start := False\<rparr>)
      else let end_offset = BareEnd (offset + 1) (drop (offset + 1) bs) in
        (end_offset, (Emit limits (tok TkOther offset end_offset (CurrentFrameId st)) st)
                       \<lparr>expecting_value := False, at_statement_start := False\<rparr>))"

subsection \<open>Progress of a step\<close>

lemma ScanSimpleString_end:
  "offset \<le> str_end (ScanSimpleString quote basic slash_run offset rest) \<and>
   str_end (ScanSimpleString quote basic slash_run offset rest) \<le> offset + length rest"
  by (induction quote basic slash_run offset rest rule: ScanSimpleString.induct)
     (force split: if_splits)+

lemma QuoteRun_le: "QuoteRun rest quote \<le> length rest"
  by (simp add: QuoteRun_def length_takeWhile_le)

lemma ScanMultilineString_end:
  "offset \<le> str_end (ScanMultilineString quote basic slash_run offset rest) \<and>
   str_end (ScanMultilineString quote basic slash_run offset rest) \<le> offset + length rest"
proof (induction quote basic slash_run offset rest rule: ScanMultilineString.induct)
  case (1 quote basic slash_run offset)
  show ?case by (simp add: ScanMultilineString.simps)
next
  case (2 quote basic slash_run offset c rest)
  let ?run = "QuoteRun (c # rest) quote"
  have run: "?run \<le> length (c # rest)" by (rule QuoteRun_le)
  show ?case
  proof (cases "c = quote")
    case True
    note IH = 2(1) [OF True refl]
    have len: "length (drop ?run (c # rest)) = length (c # rest) - ?run" by (rule length_drop)
    show ?thesis
      unfolding ScanMultilineString.simps(2) Let_def using True IH run unfolding len
      by (auto simp: min_def simp del: drop_Cons' drop_Suc_Cons split del: if_split split: if_split_asm if_split)
  next
    case False
    with 2(2) show ?thesis by (simp add: ScanMultilineString.simps(2))
  qed
qed

lemma ScanStringToken_end:
  assumes "start < length bs"
  shows "start < str_end (ScanStringToken bs start) \<and> str_end (ScanStringToken bs start) \<le> length bs"
proof (cases "start + 2 < length bs \<and> bs ! (start + 1) = bs ! start \<and> bs ! (start + 2) = bs ! start")
  case True
  with ScanMultilineString_end [of "start + 3" "bs ! start" "bs ! start = double_quote" 0 "drop (start + 3) bs"]
  show ?thesis unfolding ScanStringToken_def Let_def by (simp only: if_True) simp
next
  case False
  hence "ScanStringToken bs start =
      ScanSimpleString (bs ! start) (bs ! start = double_quote) 0 (start + 1) (drop (start + 1) bs)"
    unfolding ScanStringToken_def Let_def by (simp only: if_False)
  with ScanSimpleString_end [of "start + 1" "bs ! start" "bs ! start = double_quote" 0 "drop (start + 1) bs"] assms
  show ?thesis by auto
qed

lemma BareEnd_bounds: "offset \<le> BareEnd offset rest \<and> BareEnd offset rest \<le> offset + length rest"
  by (induction offset rest rule: BareEnd.induct) auto

text \<open>A step that starts inside the text moves forward and stays inside it.\<close>

definition advances :: "string \<Rightarrow> nat \<Rightarrow> nat \<times> Scanner \<Rightarrow> bool" where
  "advances bs offset r \<longleftrightarrow> offset < fst r \<and> fst r \<le> length bs"

lemma advances_intros:
  "offset < n \<Longrightarrow> n \<le> length bs \<Longrightarrow> advances bs offset (n, st)"
  "(c \<Longrightarrow> advances bs offset a) \<Longrightarrow> (\<not> c \<Longrightarrow> advances bs offset b) \<Longrightarrow> advances bs offset (if c then a else b)"
  by (simp_all add: advances_def)

lemma ScanString_advances: "offset < length bs \<Longrightarrow> advances bs offset (ScanString limits bs offset st)"
  using ScanStringToken_end [of offset bs]
  unfolding ScanString_def Let_def by (intro advances_intros) (simp_all add: max_def)

lemma OpenArray_advances: "offset < length bs \<Longrightarrow> advances bs offset (OpenArray limits bs offset st)"
  by (auto simp: OpenArray_def Let_def advances_def split: prod.split bool.split)

lemma CloseArray_advances: "offset < length bs \<Longrightarrow> advances bs offset (CloseArray limits bs offset st)"
  by (auto simp: CloseArray_def Let_def advances_def split: list.split)

lemma BareEnd_advances:
  "offset < length bs \<Longrightarrow>
   offset < BareEnd (offset + 1) (drop (offset + 1) bs) \<and> BareEnd (offset + 1) (drop (offset + 1) bs) \<le> length bs"
  using BareEnd_bounds [of "offset + 1" "drop (offset + 1) bs"] unfolding length_drop by linarith

lemma ScanStep_advances:
  assumes "offset < length bs"
  shows "advances bs offset (ScanStep limits bs offset st)"
proof -
  have hash: "bs ! offset = CHR ''#'' \<Longrightarrow> offset < skip_while (\<lambda>c. c \<noteq> newline) bs offset"
    using assms by (intro skip_while_progress) simp_all
  have skip: "skip_while (\<lambda>c. c \<noteq> newline) bs offset \<le> length bs" using assms by (intro skip_while_le) simp
  show ?thesis
    unfolding ScanStep_def Let_def
    by (intro advances_intros ScanString_advances OpenArray_advances CloseArray_advances hash skip
        conjunct1 [OF BareEnd_advances] conjunct2 [OF BareEnd_advances])
      (use assms in simp_all)
qed

lemma ScanStep_forward:
  "(offset', st') = ScanStep limits bs offset st \<Longrightarrow> offset < length bs \<Longrightarrow> offset < offset'"
  using ScanStep_advances [of offset bs limits st] by (metis advances_def fst_conv)

subsection \<open>The loop\<close>

function ScanLoop :: "RulesLimits \<Rightarrow> string \<Rightarrow> nat \<Rightarrow> Scanner \<Rightarrow> nat \<times> Scanner" where
  "ScanLoop limits bs offset st =
     (if offset < length bs \<and> \<not> stopped st
      then case ScanStep limits bs offset st of (offset', st') \<Rightarrow> ScanLoop limits bs offset' st'
      else (offset, st))"
  by pat_completeness auto
termination
proof (relation "measure (\<lambda>(_, bs, offset, _). length bs - offset)", goal_cases)
  case (2 limits bs offset st offset' st')
  from ScanStep_forward [OF 2(2) [symmetric, symmetric]] 2(1) have "offset < offset'" "offset < length bs" by blast+
  thus ?case by (simp add: diff_less_mono2)
qed simp

declare ScanLoop.simps [simp del]

definition FinishAtEof :: "RulesLimits \<Rightarrow> Scanner \<Rightarrow> Scanner" where
  "FinishAtEof limits st =
     (case pending st of
        None \<Rightarrow> st
      | Some p \<Rightarrow>
          if pend_stage p = WaitingTarget
          then (AddDiagnostic limits kArrowOperand ''rules.arrow_operand'' (pend_arrow p) st)\<lparr>pending := None\<rparr>
          else ConfirmCandidate limits st)"

definition ScanArrowCandidates :: "SourceBuffer \<Rightarrow> RulesLimits \<Rightarrow> ArrowScanResult" where
  "ScanArrowCandidates source limits =
     (case ScanLoop limits (source_bytes source) 0 Scanner_new of
        (offset, st) \<Rightarrow>
          let st1 = FinishAtEof limits st in
          \<lparr>scan_candidates = (if has_error st1 then [] else candidates st1),
           scan_diagnostics = diagnostics st1, significant_tokens = token_count st1,
           max_frame_depth = frame_depth st1, bytes_consumed = offset,
           open_frames_at_eof = length (frames st)\<rparr>)"

record RulesLexResult = ArrowScanResult +
  format_version :: nat

definition AnalyzeRulesSource :: "SourceBuffer \<Rightarrow> RulesLimits \<Rightarrow> RulesLexResult" where
  "AnalyzeRulesSource source limits =
     (let format = ProbeRulesFormat source in
      if \<not> probe_ok format
      then \<lparr>scan_candidates = [], scan_diagnostics = [probe_diagnostic format], significant_tokens = 0,
            max_frame_depth = 0, bytes_consumed = 0, open_frames_at_eof = 0, format_version = 0\<rparr>
      else let scanned = ScanArrowCandidates source limits in
           \<lparr>scan_candidates = scan_candidates scanned, scan_diagnostics = scan_diagnostics scanned,
            significant_tokens = significant_tokens scanned, max_frame_depth = max_frame_depth scanned,
            bytes_consumed = bytes_consumed scanned, open_frames_at_eof = open_frames_at_eof scanned,
            format_version = probe_version format\<rparr>)"

subsection \<open>Texts of tokens\<close>

definition slice :: "string \<Rightarrow> ByteSpan \<Rightarrow> string" where
  "slice bs sp = take (span_end sp - span_begin sp) (drop (span_begin sp) bs)"

text \<open>A single-line TOML string with its quotes.\<close>

definition string_text :: "string \<Rightarrow> bool" where
  "string_text s \<longleftrightarrow>
     (\<exists>quote body. s = [quote] @ body @ [quote] \<and> (quote = double_quote \<or> quote = single_quote) \<and>
        list_all (\<lambda>c. \<not> IsNewline c) body)"

definition token_ok :: "string \<Rightarrow> SignificantToken \<Rightarrow> bool" where
  "token_ok bs t \<longleftrightarrow>
     span_begin (tok_span t) < span_end (tok_span t) \<and> span_end (tok_span t) \<le> length bs \<and>
     (tok_kind t = TkString \<longrightarrow> string_text (slice bs (tok_span t))) \<and>
     (tok_kind t = TkArrow \<longrightarrow> slice bs (tok_span t) = ''->'')"

lemma ScanSimpleString_text:
  "str_terminated (ScanSimpleString quote basic slash_run offset rest) \<Longrightarrow>
   \<exists>body tl. rest = body @ quote # tl \<and> list_all (\<lambda>c. \<not> IsNewline c) body \<and>
     str_end (ScanSimpleString quote basic slash_run offset rest) = offset + length body + 1"
proof (induction quote basic slash_run offset rest rule: ScanSimpleString.induct)
  case (2 quote basic slash_run offset c rest)
  from 2(2) have nl: "\<not> IsNewline c" by (auto split: if_splits)
  show ?case
  proof (cases "c = quote \<and> (\<not> basic \<or> slash_run mod 2 = 0)")
    case True
    with nl show ?thesis by (intro exI [of _ "[]"] exI [of _ rest]) simp
  next
    case False
    from 2(2) nl False have "str_terminated (ScanSimpleString quote basic
        (if basic \<and> c = backslash then slash_run + 1 else 0) (offset + 1) rest)" by (auto split: if_splits)
    from 2(1) [OF nl False this] obtain body tl where b: "rest = body @ quote # tl"
      "list_all (\<lambda>c. \<not> IsNewline c) body"
      "str_end (ScanSimpleString quote basic (if basic \<and> c = backslash then slash_run + 1 else 0) (offset + 1) rest) =
         offset + 1 + length body + 1" by blast
    from nl False b show ?thesis by (intro exI [of _ "c # body"] exI [of _ tl]) (auto split: if_splits)
  qed
qed simp

lemma ScanMultilineString_kind: "str_multiline (ScanMultilineString quote basic slash_run offset rest)"
proof (induction quote basic slash_run offset rest rule: ScanMultilineString.induct)
  case (2 quote basic slash_run offset c rest)
  show ?case
  proof (cases "c = quote")
    case True
    show ?thesis
      unfolding ScanMultilineString.simps(2) Let_def if_P [OF True] using 2(1) [OF True refl]
      by (simp only: split: if_split) simp
  qed (use 2(2) in \<open>simp add: ScanMultilineString.simps(2)\<close>)
qed (simp add: ScanMultilineString.simps)

lemma ScanStringToken_text:
  assumes "start < length bs" "bs ! start = double_quote \<or> bs ! start = single_quote"
    and t: "str_terminated (ScanStringToken bs start)" "\<not> str_multiline (ScanStringToken bs start)"
  shows "string_text (slice bs (Span start (str_end (ScanStringToken bs start))))"
proof -
  let ?q = "bs ! start" and ?rest = "drop (start + 1) bs"
  have tok: "ScanStringToken bs start = ScanSimpleString ?q (?q = double_quote) 0 (start + 1) ?rest"
    using t(2) ScanMultilineString_kind [of ?q "?q = double_quote" 0 "start + 3" "drop (start + 3) bs"]
    unfolding ScanStringToken_def Let_def by (auto split: if_split_asm)
  from ScanSimpleString_text [OF t(1) [unfolded tok]] obtain body tl where
    b: "?rest = body @ ?q # tl" "list_all (\<lambda>c. \<not> IsNewline c) body"
    "str_end (ScanStringToken bs start) = start + 1 + length body + 1" unfolding tok by blast
  have "drop start bs = ?q # body @ ?q # tl"
    using b(1) Cons_nth_drop_Suc [OF assms(1)] by simp
  hence "slice bs (Span start (str_end (ScanStringToken bs start))) = [?q] @ body @ [?q]"
    by (simp add: slice_def b(3))
  with assms(2) b(2) show ?thesis unfolding string_text_def by blast
qed

subsection \<open>Invariants of the scanner\<close>

text \<open>
  What an invariant of the scanner has to withstand.  The first argument is a position such that
  everything recorded so far ends at or before it.
\<close>

locale scan_invariant =
  fixes limits :: RulesLimits and bs :: string and inv :: "nat \<Rightarrow> Scanner \<Rightarrow> bool"
  assumes mono: "inv pos st \<Longrightarrow> pos \<le> pos' \<Longrightarrow> inv pos' st"
    and flags: "inv pos st \<Longrightarrow> inv pos (st\<lparr>expecting_value := a, at_statement_start := b\<rparr>)"
    and stop: "inv pos st \<Longrightarrow> inv pos ((AddDiagnostic limits code key sp st)\<lparr>stopped := True\<rparr>)"
    and pop: "inv pos st \<Longrightarrow> frames st = f # rest \<Longrightarrow> inv pos (st\<lparr>frames := rest\<rparr>)"
    and push: "inv pos st \<Longrightarrow> length (frames st) < max_container_depth limits \<Longrightarrow>
      inv pos (st\<lparr>frames := f # frames st, next_frame_id := n,
                  frame_depth := max (frame_depth st) (Suc (length (frames st)))\<rparr>)"
    and comment: "inv pos st \<Longrightarrow> inv pos (HandleComment limits bs offset st)"
    and emit: "inv pos st \<Longrightarrow> pos \<le> span_begin (tok_span t) \<Longrightarrow> token_ok bs t \<Longrightarrow>
      inv (span_end (tok_span t)) (Emit limits t st)"
begin

lemma flag_updates:
  assumes "inv pos st"
  shows "inv pos (st\<lparr>expecting_value := a\<rparr>)" "inv pos (st\<lparr>expecting_value := a, at_statement_start := b\<rparr>)"
    "inv pos (st\<lparr>at_statement_start := b, expecting_value := a\<rparr>)"
proof -
  show "inv pos (st\<lparr>expecting_value := a\<rparr>)"
    using flags [OF assms, where a = a and b = "at_statement_start st"] by simp
  show "inv pos (st\<lparr>expecting_value := a, at_statement_start := b\<rparr>)" by (rule flags [OF assms])
  moreover have "st\<lparr>at_statement_start := b, expecting_value := a\<rparr> = st\<lparr>expecting_value := a, at_statement_start := b\<rparr>"
    by simp
  ultimately show "inv pos (st\<lparr>at_statement_start := b, expecting_value := a\<rparr>)" by (simp only:)
qed

lemma emit_at:
  assumes "inv offset st" "token_ok bs (tok k offset e f)"
  shows "inv e (Emit limits (tok k offset e f) st)"
  using emit [OF assms(1) _ assms(2)] by simp

lemma pushed:
  assumes "inv pos st"
  shows "inv pos (snd (PushFrame limits kind closing n offset st))"
proof (cases "length (frames st) < max_container_depth limits")
  case True
  with push [OF assms True] show ?thesis by (simp add: PushFrame_def Let_def)
next
  case False
  with stop [OF assms] show ?thesis by (simp add: PushFrame_def)
qed

lemma popped:
  assumes "inv pos st"
  shows "inv pos (st\<lparr>frames := case frames st of [] \<Rightarrow> [] | f # rest \<Rightarrow> if frame_closing f = c then rest else frames st,
    expecting_value := False\<rparr>)"
proof (cases "frames st")
  case Nil
  have "st\<lparr>frames := frames st\<rparr> = st" by simp
  hence "st\<lparr>frames := []\<rparr> = st" by (simp only: Nil)
  thus ?thesis using flag_updates(1) [OF assms] by (simp only: Nil list.case)
next
  case (Cons f rest)
  show ?thesis
  proof (cases "frame_closing f = c")
    case True
    with Cons flag_updates(1) [OF pop [OF assms Cons]] show ?thesis by simp
  next
    case False
    have "st\<lparr>frames := frames st\<rparr> = st" by simp
    hence "st\<lparr>frames := f # rest\<rparr> = st" by (simp only: Cons)
    with False Cons flag_updates(1) [OF assms] show ?thesis by (simp only: list.case if_False)
  qed
qed

text \<open>A step keeps the invariant, with the offset as the position.\<close>

definition step_inv :: "nat \<times> Scanner \<Rightarrow> bool" where
  "step_inv r \<longleftrightarrow> inv (fst r) (snd r)"

lemma step_inv_intros:
  "inv n st \<Longrightarrow> step_inv (n, st)"
  "(c \<Longrightarrow> step_inv a) \<Longrightarrow> (\<not> c \<Longrightarrow> step_inv b) \<Longrightarrow> step_inv (if c then a else b)"
  by (simp_all add: step_inv_def)

lemma step_string:
  assumes "inv offset st" "offset < length bs" "bs ! offset = double_quote \<or> bs ! offset = single_quote"
  shows "step_inv (ScanString limits bs offset st)"
proof -
  let ?s = "ScanStringToken bs offset"
  note e = ScanStringToken_end [OF assms(2)]
  have halt: "inv (max (offset + 1) (str_end ?s)) ((AddDiagnostic limits code key sp st)\<lparr>stopped := True\<rparr>)"
    for code key sp
    by (rule mono [OF stop [OF assms(1)]]) simp
  have "token_ok bs (tok (if str_multiline ?s then TkMultilineString else TkString) offset (str_end ?s) f)"
    if "str_terminated ?s" for f
    using e ScanStringToken_text [OF assms(2,3) that] by (simp add: token_ok_def)
  note emit = flag_updates(2) [OF emit_at [OF assms(1) this]]
  show ?thesis
    unfolding ScanString_def Let_def by (intro step_inv_intros halt emit) simp
qed

lemma punct_ok:
  assumes "offset < length bs" "k \<noteq> TkString" "k \<noteq> TkArrow"
  shows "token_ok bs (tok k offset (offset + 1) f)"
  using assms by (simp add: token_ok_def)

lemma step_open_array:
  assumes "inv offset st" "offset < length bs"
  shows "step_inv (OpenArray limits bs offset st)"
proof -
  obtain header kind width where w: "width = (if header \<and> offset + 1 < length bs \<and> bs ! (offset + 1) = CHR ''['' then 2 else 1 :: nat)"
    and o: "OpenArray limits bs offset st =
      (case PushFrame limits kind CHR '']'' width offset st of
        (False, st1) \<Rightarrow> (length bs, st1)
      | (True, st1) \<Rightarrow>
          (offset + width,
           (Emit limits (tok TkOpenArray offset (offset + width) (CurrentFrameId st1)) st1)
             \<lparr>expecting_value := (kind = ValueArray), at_statement_start := False\<rparr>))"
    unfolding OpenArray_def Let_def by blast
  obtain ok st1 where p: "PushFrame limits kind CHR '']'' width offset st = (ok, st1)" by fastforce
  have i: "inv offset st1" using pushed [OF assms(1), of kind "CHR '']''" width offset] p by simp
  have "token_ok bs (tok TkOpenArray offset (offset + width) f)" for f
    using assms(2) w by (auto simp: token_ok_def)
  note e = flag_updates(2) [OF emit_at [OF i this]]
  show ?thesis
    using mono [OF i less_imp_le [OF assms(2)]] e by (cases ok) (simp_all add: o p step_inv_def)
qed

lemma step_close_array:
  assumes "inv offset st" "offset < length bs"
  shows "step_inv (CloseArray limits bs offset st)"
proof -
  define width :: nat where "width =
    (case frames st of
       [] \<Rightarrow> 1
     | f # _ \<Rightarrow> if frame_closing f = CHR '']'' \<and> frame_closing_count f = 2 \<and>
                   offset + 1 < length bs \<and> bs ! (offset + 1) = CHR '']'' then 2 else 1)"
  hence w: "width = 1 \<or> (width = 2 \<and> offset + 1 < length bs)" by (auto split: list.split)
  have c: "CloseArray limits bs offset st =
      (let st1 = Emit limits (tok TkCloseArray offset (offset + width) (CurrentFrameId st)) st in
       (offset + width,
        st1\<lparr>frames := case frames st1 of [] \<Rightarrow> [] | f # rest \<Rightarrow> if frame_closing f = CHR '']'' then rest else frames st1,
            expecting_value := False\<rparr>))"
    unfolding CloseArray_def Let_def width_def by (rule refl)
  have "token_ok bs (tok TkCloseArray offset (offset + width) f)" for f
    using assms(2) w by (auto simp: token_ok_def)
  from popped [OF emit_at [OF assms(1) this]] show ?thesis
    unfolding c Let_def step_inv_def by simp
qed

lemma step_open_brace:
  assumes "inv offset st" "offset < length bs"
  shows "inv (offset + 1) (OpenBrace limits offset st)"
proof -
  let ?k = "if expecting_value st then InlineTable else UnknownBrace"
  obtain ok st1 where p: "PushFrame limits ?k CHR ''}'' 1 offset st = (ok, st1)" by fastforce
  have i: "inv offset st1" using pushed [OF assms(1), of ?k "CHR ''}''" 1 offset] p by simp
  from mono [OF i, of "offset + 1"] flag_updates(2) [OF emit_at [OF i punct_ok [OF assms(2)]]] show ?thesis
    unfolding OpenBrace_def p prod.case by (cases ok) simp_all
qed

lemma step_close_brace:
  assumes "inv offset st" "offset < length bs"
  shows "inv (offset + 1) (CloseBrace limits offset st)"
  using popped [OF emit_at [OF assms(1) punct_ok [OF assms(2), where k = TkCloseInlineTable]],
      where c = "CHR ''}''"]
  unfolding CloseBrace_def Let_def by simp

lemma step:
  assumes i: "inv offset st" and o: "offset < length bs"
  shows "step_inv (ScanStep limits bs offset st)"
proof -
  let ?c = "bs ! offset"
  have forward: "inv n st" if "offset \<le> n" for n by (rule mono [OF i that])
  have newlines: "inv n (if frames st = [] then st\<lparr>at_statement_start := True, expecting_value := False\<rparr> else st)"
    if "offset \<le> n" for n
    using forward [OF that] flag_updates(3) [OF forward [OF that]] by simp
  have hash: "inv (skip_while p bs offset) (HandleComment limits bs offset st)" for p
    by (rule mono [OF comment [OF i]]) (simp add: skip_while_def)
  have arrow: "token_ok bs (tok TkArrow offset (offset + 2) f)"
    if "?c = CHR ''-''" "offset + 1 < length bs" "bs ! (offset + 1) = CHR ''>''" for f
  proof -
    have "drop offset bs = ?c # bs ! (offset + 1) # drop (offset + 2) bs"
      using that(2) by (simp add: Cons_nth_drop_Suc)
    thus ?thesis using that by (simp add: token_ok_def slice_def)
  qed
  have bare: "token_ok bs (tok TkOther offset (BareEnd (offset + 1) (drop (offset + 1) bs)) f)" for f
    using BareEnd_advances [OF o] by (simp add: token_ok_def)
  note emits = emit_at [OF i punct_ok [OF o]] emit_at [OF i arrow] emit_at [OF i bare]
  show ?thesis
    unfolding ScanStep_def Let_def
    by (intro step_inv_intros flag_updates(1,2) emits hash newlines forward step_string [OF i o]
        step_open_array [OF i o] step_close_array [OF i o] step_open_brace [OF i o] step_close_brace [OF i o])
      simp_all
qed

lemma loop: "inv offset st \<Longrightarrow> step_inv (ScanLoop limits bs offset st)"
proof (induction "length bs - offset" arbitrary: offset st rule: less_induct)
  case less
  show ?case
  proof (cases "offset < length bs \<and> \<not> stopped st")
    case True
    obtain o' st' where e: "ScanStep limits bs offset st = (o', st')" by fastforce
    have "inv o' st'" using step [OF less.prems] True e by (simp add: step_inv_def)
    moreover have "length bs - o' < length bs - offset"
      using ScanStep_forward [OF e [symmetric]] True by (simp add: diff_less_mono2)
    ultimately show ?thesis using less.hyps True e by (subst ScanLoop.simps) simp
  next
    case False
    with less.prems show ?thesis by (subst ScanLoop.simps) (auto simp: step_inv_def)
  qed
qed

end

subsubsection \<open>Resource bounds\<close>

lemma AddDiagnostic_fields [simp]:
  "candidates (AddDiagnostic limits code key sp st) = candidates st"
  "token_count (AddDiagnostic limits code key sp st) = token_count st"
  "frame_depth (AddDiagnostic limits code key sp st) = frame_depth st"
  "frames (AddDiagnostic limits code key sp st) = frames st"
  "last_token (AddDiagnostic limits code key sp st) = last_token st"
  "pending (AddDiagnostic limits code key sp st) = pending st"
  "stopped (AddDiagnostic limits code key sp st) = stopped st"
  "has_error (AddDiagnostic limits code key sp st)"
  by (simp_all add: AddDiagnostic_def Let_def)

lemma AddDiagnostic_diagnostics:
  "length (diagnostics st) \<le> max (max_diagnostics limits) 1 \<Longrightarrow>
   diagnostics (AddDiagnostic limits code key sp st) \<noteq> [] \<and>
   length (diagnostics (AddDiagnostic limits code key sp st)) \<le> max (max_diagnostics limits) 1"
  by (cases "diagnostics st" rule: rev_cases) (auto simp: AddDiagnostic_def Let_def)

definition scan_bounded :: "RulesLimits \<Rightarrow> Scanner \<Rightarrow> bool" where
  "scan_bounded limits st \<longleftrightarrow>
     (has_error st \<longleftrightarrow> diagnostics st \<noteq> []) \<and> (stopped st \<longrightarrow> diagnostics st \<noteq> []) \<and>
     length (diagnostics st) \<le> max (max_diagnostics limits) 1 \<and>
     length (candidates st) \<le> max_rewrites limits \<and> token_count st \<le> max_tokens_or_nodes limits \<and>
     length (frames st) \<le> max_container_depth limits \<and> frame_depth st \<le> max_container_depth limits"

lemma bounded_diag: "scan_bounded limits st \<Longrightarrow> scan_bounded limits (AddDiagnostic limits code key sp st)"
  using AddDiagnostic_diagnostics [of st limits code key sp] by (auto simp: scan_bounded_def)

lemma bounded_neutral:
  "scan_bounded limits st \<Longrightarrow> scan_bounded limits (st\<lparr>pending := p\<rparr>)"
  "scan_bounded limits st \<Longrightarrow> scan_bounded limits (st\<lparr>suppress_arrow_frame := f\<rparr>)"
  "scan_bounded limits st \<Longrightarrow> scan_bounded limits (st\<lparr>comment_since_significant := c\<rparr>)"
  "scan_bounded limits st \<Longrightarrow>
   scan_bounded limits (st\<lparr>previous_token := a, last_token := b, comment_since_significant := c\<rparr>)"
  by (simp_all add: scan_bounded_def)

lemma bounded_confirm: "scan_bounded limits st \<Longrightarrow> scan_bounded limits (ConfirmCandidate limits st)"
  using bounded_neutral(1) [OF bounded_diag]
  by (auto simp: ConfirmCandidate_def scan_bounded_def split: option.split)

lemma bounded_pending:
  assumes "scan_bounded limits st"
  shows "scan_bounded limits (HandlePending limits t st)"
proof -
  note i = assms bounded_neutral bounded_diag bounded_confirm
  have w: "scan_bounded limits st' \<Longrightarrow> scan_bounded limits (HandleWaiting limits t p st')" for st' p
    unfolding HandleWaiting_def using bounded_neutral bounded_diag bounded_confirm by (simp split: if_split)
  have a: "scan_bounded limits st' \<Longrightarrow> scan_bounded limits (HandleArrow limits t st')" for st'
    unfolding HandleArrow_def using bounded_neutral bounded_diag by (simp split: if_split option.split)
  show ?thesis
    unfolding HandlePending_def Let_def using assms
    by (auto intro!: w a bounded_neutral split: option.split)
qed

lemma bounded_emit: "scan_bounded limits st \<Longrightarrow> scan_bounded limits (Emit limits t st)"
proof -
  assume b: "scan_bounded limits st"
  show ?thesis
  proof (cases "token_count st \<ge> max_tokens_or_nodes limits")
    case True
    with b bounded_diag [OF b] show ?thesis by (simp add: Emit_def scan_bounded_def)
  next
    case False
    with b have "scan_bounded limits (st\<lparr>token_count := token_count st + 1\<rparr>)" by (simp add: scan_bounded_def)
    from bounded_neutral(4) [OF bounded_pending [OF this]] b False show ?thesis
      by (simp add: Emit_def Let_def)
  qed
qed

interpretation bounds: scan_invariant limits bs "\<lambda>_. scan_bounded limits" for limits bs
proof
  fix st :: Scanner and a b code key sp f rest n offset pos pos' t
  assume b: "scan_bounded limits st"
  show "scan_bounded limits (st\<lparr>expecting_value := a, at_statement_start := b\<rparr>)"
    using b by (simp add: scan_bounded_def)
  show "scan_bounded limits ((AddDiagnostic limits code key sp st)\<lparr>stopped := True\<rparr>)"
    using bounded_diag [OF b] by (simp add: scan_bounded_def)
  show "scan_bounded limits (st\<lparr>frames := rest\<rparr>)" if "frames st = f # rest"
    using b that by (simp add: scan_bounded_def)
  show "scan_bounded limits (st\<lparr>frames := f # frames st, next_frame_id := n,
                  frame_depth := max (frame_depth st) (Suc (length (frames st)))\<rparr>)"
    if "length (frames st) < max_container_depth limits"
    using b that by (simp add: scan_bounded_def)
  show "scan_bounded limits (HandleComment limits bs offset st)"
    using b bounded_neutral(1) [OF bounded_diag [OF b]] bounded_neutral(3) [OF b]
    by (simp add: HandleComment_def split: option.split)
  show "scan_bounded limits (Emit limits t st)" by (rule bounded_emit [OF b])
qed

subsubsection \<open>Geometry of the candidates\<close>

definition operand :: "string \<Rightarrow> ByteSpan \<Rightarrow> bool" where
  "operand bs sp \<longleftrightarrow> span_begin sp < span_end sp \<and> span_end sp \<le> length bs \<and> string_text (slice bs sp)"

definition arrow_at :: "string \<Rightarrow> ByteSpan \<Rightarrow> bool" where
  "arrow_at bs sp \<longleftrightarrow> span_begin sp < span_end sp \<and> span_end sp \<le> length bs \<and> slice bs sp = ''->''"

definition candidate_ok :: "string \<Rightarrow> ArrowCandidate \<Rightarrow> bool" where
  "candidate_ok bs c \<longleftrightarrow>
     operand bs (cand_source c) \<and> arrow_at bs (cand_arrow c) \<and> operand bs (cand_target c) \<and>
     cand_rule c = Span (span_begin (cand_source c)) (span_end (cand_target c)) \<and>
     span_end (cand_source c) \<le> span_begin (cand_arrow c) \<and>
     span_end (cand_arrow c) \<le> span_begin (cand_target c)"

definition pending_ok :: "string \<Rightarrow> PendingCandidate \<Rightarrow> bool" where
  "pending_ok bs p \<longleftrightarrow>
     operand bs (pend_source p) \<and> arrow_at bs (pend_arrow p) \<and>
     span_end (pend_source p) \<le> span_begin (pend_arrow p) \<and>
     (pend_stage p = WaitingDelimiter \<longrightarrow>
        operand bs (pend_target p) \<and> span_end (pend_arrow p) \<le> span_begin (pend_target p))"

definition pending_end :: "PendingCandidate \<Rightarrow> nat" where
  "pending_end p = (if pend_stage p = WaitingTarget then span_end (pend_arrow p) else span_end (pend_target p))"

text \<open>What the candidates and the pending one look like just after a token.\<close>

definition after_token :: "string \<Rightarrow> ArrowCandidate list \<Rightarrow> PendingCandidate option \<Rightarrow> SignificantToken \<Rightarrow> bool" where
  "after_token bs cs pd t \<longleftrightarrow>
     list_all (candidate_ok bs) cs \<and>
     sorted_wrt (\<lambda>a b. span_end (cand_rule a) \<le> span_begin (cand_rule b)) cs \<and>
     (case pd of
        None \<Rightarrow> list_all (\<lambda>c. span_end (cand_rule c) \<le> span_begin (tok_span t)) cs
      | Some p \<Rightarrow> pending_ok bs p \<and> span_begin (pend_source p) \<le> span_begin (tok_span t) \<and>
          pending_end p \<le> span_end (tok_span t) \<and>
          list_all (\<lambda>c. span_end (cand_rule c) \<le> span_begin (pend_source p)) cs)"

definition scan_geometry :: "string \<Rightarrow> nat \<Rightarrow> Scanner \<Rightarrow> bool" where
  "scan_geometry bs pos st \<longleftrightarrow>
     (case last_token st of
        None \<Rightarrow> candidates st = [] \<and> pending st = None
      | Some t \<Rightarrow> token_ok bs t \<and> span_end (tok_span t) \<le> pos \<and> after_token bs (candidates st) (pending st) t)"

lemma token_operand: "token_ok bs t \<Longrightarrow> tok_kind t = TkString \<Longrightarrow> operand bs (tok_span t)"
  by (simp add: token_ok_def operand_def)

lemma token_arrow: "token_ok bs t \<Longrightarrow> tok_kind t = TkArrow \<Longrightarrow> arrow_at bs (tok_span t)"
  by (simp add: token_ok_def arrow_at_def)

lemma after_reset: "after_token bs cs pd t \<Longrightarrow> after_token bs cs None t"
  by (auto simp: after_token_def list_all_iff split: option.splits)

lemma after_next:
  "after_token bs cs pd l \<Longrightarrow> token_ok bs l \<Longrightarrow> token_ok bs t \<Longrightarrow>
   span_end (tok_span l) \<le> span_begin (tok_span t) \<Longrightarrow> after_token bs cs pd t"
  by (auto simp: after_token_def token_ok_def list_all_iff split: option.splits)

lemma after_target:
  assumes "after_token bs cs (Some p) l" "token_ok bs t" "tok_kind t = TkString"
    "pend_stage p = WaitingTarget" "span_end (tok_span l) \<le> span_begin (tok_span t)" "token_ok bs l"
  shows "after_token bs cs (Some (p\<lparr>pend_target := tok_span t, pend_stage := WaitingDelimiter\<rparr>)) t"
proof -
  note t = token_operand [OF assms(2,3)]
  from assms(1,4,5,6) have "pending_ok bs p" "span_end (pend_arrow p) \<le> span_begin (tok_span t)"
    "span_begin (pend_source p) \<le> span_begin (tok_span t)"
    by (auto simp: after_token_def pending_end_def token_ok_def)
  with assms(1) t show ?thesis by (simp add: after_token_def pending_ok_def pending_end_def)
qed

lemma after_confirm:
  assumes "after_token bs (candidates st) (Some p) t" "pending st = Some p" "pend_stage p \<noteq> WaitingTarget"
    "pending_end p \<le> span_begin (tok_span t)"
  shows "after_token bs (candidates (ConfirmCandidate limits st)) (pending (ConfirmCandidate limits st)) t"
proof (cases "length (candidates st) \<ge> max_rewrites limits")
  case True
  with assms show ?thesis by (simp add: ConfirmCandidate_def after_reset)
next
  case False
  from assms(3) have d: "pend_stage p = WaitingDelimiter" by (cases "pend_stage p") simp_all
  with assms False show ?thesis
    by (auto simp: ConfirmCandidate_def after_token_def pending_ok_def pending_end_def candidate_ok_def
        sorted_wrt_append list_all_iff)
qed

lemma after_start:
  assumes "after_token bs cs None l" "token_ok bs l" "token_ok bs t" "tok_kind l = TkString" "tok_kind t = TkArrow"
    "span_end (tok_span l) \<le> span_begin (tok_span t)"
  shows "after_token bs cs (Some \<lparr>pend_stage = WaitingTarget, pend_source = tok_span l, pend_arrow = tok_span t,
    pend_target = Span 0 0, pend_frame = f\<rparr>) t"
  using assms token_operand [OF assms(2,4)] token_arrow [OF assms(3,5)]
  by (auto simp: after_token_def pending_ok_def pending_end_def token_ok_def)

lemma HandleWaiting_after:
  assumes "pending st = Some p" "after_token bs (candidates st) (Some p) l" "token_ok bs l" "token_ok bs t"
    "span_end (tok_span l) \<le> span_begin (tok_span t)"
  shows "after_token bs (candidates (HandleWaiting limits t p st)) (pending (HandleWaiting limits t p st)) t"
proof -
  note nxt = after_next [OF assms(2,3,4,5)]
  have "pending_end p \<le> span_begin (tok_span t)" using assms(2,5) by (simp add: after_token_def)
  note confirm = after_confirm [OF nxt assms(1) _ this]
  show ?thesis
    unfolding HandleWaiting_def
    using nxt confirm after_reset [OF nxt] after_target [OF assms(2,4) _ _ assms(5,3)] by auto
qed

lemma HandleArrow_after:
  assumes "tok_kind t = TkArrow" "token_ok bs t" "pending st = None"
    and l: "last_token st = None \<Longrightarrow> candidates st = []"
      "\<And>l. last_token st = Some l \<Longrightarrow> token_ok bs l \<and> span_end (tok_span l) \<le> span_begin (tok_span t) \<and>
         after_token bs (candidates st) None l"
  shows "after_token bs (candidates (HandleArrow limits t st)) (pending (HandleArrow limits t st)) t"
proof (cases "last_token st")
  case None
  with l(1) assms(3) show ?thesis by (simp add: HandleArrow_def after_token_def)
next
  case (Some k)
  note k = l(2) [OF Some]
  have nxt: "after_token bs (candidates st) None t" using k assms(2) by (blast intro: after_next)
  show ?thesis
    unfolding HandleArrow_def Some option.case using k assms(1,2,3) nxt after_start [of bs "candidates st" k t]
    by (simp split: if_split)
qed

lemma HandlePending_after:
  assumes g: "scan_geometry bs pos st" and t: "token_ok bs t" "pos \<le> span_begin (tok_span t)"
  shows "after_token bs (candidates (HandlePending limits t st)) (pending (HandlePending limits t st)) t \<and>
    last_token (HandlePending limits t st) = last_token st"
proof -
  have last: "last_token (HandlePending limits t st) = last_token st"
    by (auto simp: HandlePending_def HandleWaiting_def HandleArrow_def ConfirmCandidate_def Let_def
        split: option.split)
  let ?s = "case suppress_arrow_frame st of
      Some f \<Rightarrow> if DelimiterOf t f then st\<lparr>suppress_arrow_frame := None\<rparr> else st | None \<Rightarrow> st"
  have s: "candidates ?s = candidates st" "pending ?s = pending st" "last_token ?s = last_token st"
    by (simp_all split: option.split)
  have l: "last_token st = None \<Longrightarrow> candidates st = [] \<and> pending st = None"
    "\<And>l. last_token st = Some l \<Longrightarrow> token_ok bs l \<and> span_end (tok_span l) \<le> span_begin (tok_span t) \<and>
       after_token bs (candidates st) (pending st) l"
    using g t(2) by (auto simp: scan_geometry_def)
  have same: "after_token bs (candidates st) (pending st) t"
  proof (cases "last_token st")
    case None
    with l(1) show ?thesis by (simp add: after_token_def)
  next
    case (Some k)
    with l(2) [OF Some] t(1) show ?thesis by (blast intro: after_next)
  qed
  have "after_token bs (candidates (HandlePending limits t st)) (pending (HandlePending limits t st)) t"
  proof (cases "tok_kind t = TkArrow \<and> suppress_arrow_frame st = Some (tok_frame t)")
    case True
    with same show ?thesis by (simp add: HandlePending_def)
  next
    case sup: False
    show ?thesis
    proof (cases "pending st")
      case None
      hence "HandlePending limits t st = (if tok_kind t \<noteq> TkArrow then ?s else HandleArrow limits t ?s)"
        using sup s(2) by (simp add: HandlePending_def Let_def)
      with same HandleArrow_after [of t bs ?s limits] None s l t(1) show ?thesis by auto
    next
      case (Some p)
      hence "pending ?s = Some p" using s(2) by simp
      hence h: "HandlePending limits t st = HandleWaiting limits t p ?s"
        unfolding HandlePending_def Let_def using sup by (simp only: if_False option.case)
      from Some l(1) obtain k where k: "last_token st = Some k" by (cases "last_token st") auto
      show ?thesis
        unfolding h using HandleWaiting_after [of ?s p bs k t limits] l(2) [OF k] Some s t(1) by simp
    qed
  qed
  with last show ?thesis by blast
qed

lemma geometry_emit:
  assumes "scan_geometry bs pos st" "token_ok bs t" "pos \<le> span_begin (tok_span t)"
  shows "scan_geometry bs (span_end (tok_span t)) (Emit limits t st)"
proof -
  have le: "pos \<le> span_end (tok_span t)" using assms(2,3) by (simp add: token_ok_def)
  have "scan_geometry bs pos (st\<lparr>token_count := token_count st + 1\<rparr>)"
    using assms(1) by (simp add: scan_geometry_def cong: option.case_cong)
  note h = HandlePending_after [OF this assms(2,3), of limits]
  show ?thesis
    using assms(1,2) h le by (auto simp: Emit_def Let_def scan_geometry_def split: option.splits)
qed

interpretation geometry: scan_invariant limits bs "scan_geometry bs" for limits bs
proof
  fix st :: Scanner and a b code key sp f rest n offset pos pos' t
  assume g: "scan_geometry bs pos st"
  show "scan_geometry bs pos' st" if "pos \<le> pos'"
    using g that by (auto simp: scan_geometry_def split: option.splits)
  show "scan_geometry bs pos (st\<lparr>expecting_value := a, at_statement_start := b\<rparr>)"
    "scan_geometry bs pos ((AddDiagnostic limits code key sp st)\<lparr>stopped := True\<rparr>)"
    "scan_geometry bs pos (st\<lparr>frames := rest\<rparr>)"
    "scan_geometry bs pos (st\<lparr>frames := f # frames st, next_frame_id := n,
        frame_depth := max (frame_depth st) (Suc (length (frames st)))\<rparr>)"
    using g by (simp_all add: scan_geometry_def cong: option.case_cong)
  show "scan_geometry bs pos (HandleComment limits bs offset st)"
    using g by (auto simp: HandleComment_def scan_geometry_def intro: after_reset split: option.splits)
  show "scan_geometry bs (span_end (tok_span t)) (Emit limits t st)"
    if "pos \<le> span_begin (tok_span t)" "token_ok bs t"
    using geometry_emit [OF g that(2,1)] .
qed

subsection \<open>The result of a scan\<close>

lemma ScanLoop_end:
  "offset \<le> length bs \<Longrightarrow> fst (ScanLoop limits bs offset st) \<le> length bs \<and>
   (\<not> stopped (snd (ScanLoop limits bs offset st)) \<longrightarrow> fst (ScanLoop limits bs offset st) = length bs)"
proof (induction limits bs offset st rule: ScanLoop.induct)
  case (1 limits bs offset st)
  show ?case
  proof (cases "offset < length bs \<and> \<not> stopped st")
    case True
    obtain o' st' where e: "ScanStep limits bs offset st = (o', st')" by fastforce
    have "o' \<le> length bs" using ScanStep_advances [of offset bs limits st] True e by (simp add: advances_def)
    from 1(1) [OF True e [symmetric] this] True e show ?thesis by (subst (1 2 3) ScanLoop.simps) simp
  next
    case False
    with 1(2) show ?thesis by (subst (1 2 3) ScanLoop.simps) auto
  qed
qed

lemma scan_run:
  assumes "ScanLoop limits bs 0 Scanner_new = (offset, st)"
  shows "scan_bounded limits st" "scan_geometry bs offset st"
proof -
  have "scan_bounded limits Scanner_new" by (simp add: scan_bounded_def Scanner_new_def)
  from bounds.loop [OF this, of bs 0] assms show "scan_bounded limits st"
    by (simp add: bounds.step_inv_def)
  have "scan_geometry bs 0 Scanner_new" by (simp add: scan_geometry_def Scanner_new_def)
  from geometry.loop [OF this, of limits] assms show "scan_geometry bs offset st"
    by (simp add: geometry.step_inv_def)
qed

lemma FinishAtEof_candidates:
  assumes "scan_geometry bs pos st"
  shows "list_all (candidate_ok bs) (candidates (FinishAtEof limits st)) \<and>
    sorted_wrt (\<lambda>a b. span_end (cand_rule a) \<le> span_begin (cand_rule b)) (candidates (FinishAtEof limits st))"
proof (cases "pending st")
  case None
  with assms show ?thesis
    by (auto simp: FinishAtEof_def scan_geometry_def after_token_def split: option.splits)
next
  case (Some p)
  with assms obtain t where a: "after_token bs (candidates st) (Some p) t"
    by (auto simp: scan_geometry_def split: option.splits)
  let ?t = "\<lparr>tok_kind = TkOther, tok_span = Span (pending_end p) (pending_end p), tok_frame = 0\<rparr>"
  from a have "pending_ok bs p" by (simp add: after_token_def)
  hence "span_begin (pend_source p) \<le> pending_end p"
    by (cases "pend_stage p") (auto simp: pending_ok_def operand_def arrow_at_def pending_end_def)
  with a have "after_token bs (candidates st) (Some p) ?t" by (simp add: after_token_def)
  from after_confirm [OF this Some] a show ?thesis
    by (auto simp: FinishAtEof_def Some after_token_def)
qed

lemma bounded_finish: "scan_bounded limits st \<Longrightarrow> scan_bounded limits (FinishAtEof limits st)"
  using bounded_neutral(1) [OF bounded_diag] bounded_confirm
  by (auto simp: FinishAtEof_def split: option.split)

subsection \<open>Properties\<close>

text \<open>
  Claim C33.  What the arrow scanner returns can be rewritten blindly.  Its candidates appear in source
  order without overlapping; each consists of a single-line quoted string, the two bytes \<open>->\<close> and
  another single-line quoted string, in this order and inside the source, and its rule span runs from
  the first string to the end of the second.  If any diagnostic was reported there is no candidate.
\<close>

theorem scan_candidates_well_formed:
  "let r = ScanArrowCandidates source limits; bs = source_bytes source in
   list_all (candidate_ok bs) (scan_candidates r) \<and>
   sorted_wrt (\<lambda>a b. span_end (cand_rule a) \<le> span_begin (cand_rule b)) (scan_candidates r) \<and>
   (parser_allowed r \<or> scan_candidates r = [])"
proof -
  obtain offset st where run: "ScanLoop limits (source_bytes source) 0 Scanner_new = (offset, st)" by fastforce
  note inv = scan_run [OF run]
  from FinishAtEof_candidates [OF inv(2), of limits] bounded_finish [OF inv(1)] show ?thesis
    by (auto simp: ScanArrowCandidates_def run Let_def parser_allowed_def scan_bounded_def)
qed

text \<open>
  Claim C34.  The scanner stays within every limit it is given: at most \<open>max_tokens_or_nodes\<close> tokens are
  counted, the frame stack never exceeds \<open>max_container_depth\<close>, at most \<open>max_rewrites\<close> candidates and at
  most \<open>max_diagnostics\<close> diagnostics (but at least one slot) are kept.  It never reads past the source,
  and without a diagnostic it has consumed all of it.
\<close>

theorem scan_respects_limits:
  "let r = ScanArrowCandidates source limits in
   significant_tokens r \<le> max_tokens_or_nodes limits \<and> max_frame_depth r \<le> max_container_depth limits \<and>
   open_frames_at_eof r \<le> max_container_depth limits \<and> length (scan_candidates r) \<le> max_rewrites limits \<and>
   length (scan_diagnostics r) \<le> max (max_diagnostics limits) 1 \<and>
   bytes_consumed r \<le> length (source_bytes source) \<and>
   (bytes_consumed r = length (source_bytes source) \<or> \<not> parser_allowed r)"
proof -
  obtain offset st where run: "ScanLoop limits (source_bytes source) 0 Scanner_new = (offset, st)" by fastforce
  note inv = scan_run(1) [OF run]
  have "offset \<le> length (source_bytes source)" "\<not> stopped st \<Longrightarrow> offset = length (source_bytes source)"
    using ScanLoop_end [of 0 "source_bytes source" limits Scanner_new] run by auto
  moreover have "stopped st \<Longrightarrow> diagnostics (FinishAtEof limits st) \<noteq> []"
  proof -
    assume "stopped st"
    hence "stopped (FinishAtEof limits st)"
      by (auto simp: FinishAtEof_def ConfirmCandidate_def split: option.split)
    thus ?thesis using bounded_finish [OF inv] by (simp add: scan_bounded_def)
  qed
  ultimately show ?thesis
    using inv bounded_finish [OF inv]
    by (auto simp: ScanArrowCandidates_def run Let_def parser_allowed_def scan_bounded_def)
qed

theorem scan_respects_limits_witness:
  "bytes_consumed (ScanArrowCandidates \<lparr>file_name = ''r'', source_bytes = ''a = [1]''\<rparr> default_limits) = 7 \<and>
   significant_tokens (ScanArrowCandidates \<lparr>file_name = ''r'', source_bytes = ''a = [1]''\<rparr> default_limits) \<le> 65536"
proof -
  have "parser_allowed (ScanArrowCandidates \<lparr>file_name = ''r'', source_bytes = ''a = [1]''\<rparr> default_limits)"
    by code_simp
  with scan_respects_limits [of "\<lparr>file_name = ''r'', source_bytes = ''a = [1]''\<rparr>" default_limits] show ?thesis
    by (simp add: Let_def default_limits_def)
qed

end
