(* ===== verification/PG_Desugar.thy ===== *)
theory PG_Desugar
  imports PG_Scanner
begin

text \<open>
  The desugarer, \<open>rules/src/desugarer.cpp\<close>: every arrow \<open>"a" -> "b"\<close> the scanner found becomes the
  inline table \<open>{ from = "a", to = "b" }\<close>, and a map from the generated text back to the source is kept
  for diagnostics.  The query counter of \<open>RewriteMap\<close>, a statistic, is left out.
\<close>

subsection \<open>Rewrites, segments and the rewrite map\<close>

definition kPrefix :: string where "kPrefix = ''{ from = ''"
definition kMiddle :: string where "kMiddle = '', to = ''"
definition kSuffix :: string where "kSuffix = '' }''"

record ArrowRewrite =
  rw_id :: RuleId
  rw_rule :: ByteSpan
  rw_source :: ByteSpan
  rw_arrow :: ByteSpan
  rw_target :: ByteSpan

datatype RewriteSegmentKind = Copied | SyntheticRule | SyntheticArrow

record RewriteSegment =
  seg_generated :: ByteSpan
  seg_original :: ByteSpan
  seg_kind :: RewriteSegmentKind

record RewriteMap =
  map_segments :: "RewriteSegment list"
  map_generated_size :: nat
  map_original_size :: nat

record GeneratedRedirect =
  red_id :: RuleId
  original_rule :: ByteSpan
  original_source :: ByteSpan
  original_arrow :: ByteSpan
  original_target :: ByteSpan
  generated_table :: ByteSpan
  generated_source :: ByteSpan
  generated_target :: ByteSpan

record DesugarResult =
  generated_storage :: "string option"
  rewrite_map :: RewriteMap
  redirects :: "GeneratedRedirect list"
  ds_diagnostics :: "Diagnostic list"

definition desugar_ok :: "DesugarResult \<Rightarrow> bool" where
  "desugar_ok r \<longleftrightarrow> ds_diagnostics r = []"

definition parser_input :: "DesugarResult \<Rightarrow> SourceBuffer \<Rightarrow> string" where
  "parser_input r source = (case generated_storage r of Some s \<Rightarrow> s | None \<Rightarrow> source_bytes source)"

definition RewriteMap_Identity :: "nat \<Rightarrow> RewriteMap" where
  "RewriteMap_Identity n = \<lparr>map_segments = [], map_generated_size = n, map_original_size = n\<rparr>"

definition Failure :: "SourceBuffer \<Rightarrow> string \<Rightarrow> string \<Rightarrow> ByteSpan \<Rightarrow> DesugarResult" where
  "Failure source code key sp =
     \<lparr>generated_storage = None, rewrite_map = RewriteMap_Identity (length (source_bytes source)),
      redirects = [], ds_diagnostics = [diagnostic code key sp False]\<rparr>"

definition IsValidRewrite :: "SourceBuffer \<Rightarrow> ArrowRewrite \<Rightarrow> bool" where
  "IsValidRewrite source r \<longleftrightarrow>
     rw_id r \<noteq> 0 \<and> IsValidSpan source (rw_rule r) \<and> IsValidSpan source (rw_source r) \<and>
     IsValidSpan source (rw_arrow r) \<and> IsValidSpan source (rw_target r) \<and>
     span_begin (rw_rule r) = span_begin (rw_source r) \<and> span_end (rw_rule r) = span_end (rw_target r) \<and>
     span_begin (rw_source r) < span_end (rw_source r) \<and> span_begin (rw_arrow r) < span_end (rw_arrow r) \<and>
     span_begin (rw_target r) < span_end (rw_target r) \<and>
     span_end (rw_source r) \<le> span_begin (rw_arrow r) \<and> span_end (rw_arrow r) \<le> span_begin (rw_target r)"

definition AddSize :: "nat \<Rightarrow> nat \<Rightarrow> nat option" where
  "AddSize v increment = (if increment > 2 ^ 64 - 1 - v then None else Some (v + increment))"

fun CheckSegments :: "nat \<Rightarrow> nat \<Rightarrow> nat \<Rightarrow> RewriteSegment list \<Rightarrow> nat option" where
  "CheckSegments generated original expected [] = Some expected"
| "CheckSegments generated original expected (s # rest) =
     (if span_begin (seg_generated s) \<noteq> expected \<or>
         span_begin (seg_generated s) \<ge> span_end (seg_generated s) \<or>
         span_end (seg_generated s) > generated \<or>
         span_begin (seg_original s) > span_end (seg_original s) \<or>
         span_end (seg_original s) > original \<or>
         (seg_kind s = Copied \<and> span_size (seg_generated s) \<noteq> span_size (seg_original s))
      then None
      else CheckSegments generated original (span_end (seg_generated s)) rest)"

definition RewriteMap_Create :: "RewriteSegment list \<Rightarrow> nat \<Rightarrow> nat \<Rightarrow> RewriteMap option" where
  "RewriteMap_Create segments generated original =
     (if segments = [] then None
      else case CheckSegments generated original 0 segments of
             None \<Rightarrow> None
           | Some expected \<Rightarrow>
               if expected \<noteq> generated then None
               else Some \<lparr>map_segments = segments, map_generated_size = generated,
                          map_original_size = original\<rparr>)"

definition MapPositionUnchecked :: "RewriteMap \<Rightarrow> nat \<Rightarrow> ByteSpan option" where
  "MapPositionUnchecked m offset =
     (if offset > map_generated_size m then None
      else if map_segments m = [] then
        if map_generated_size m \<noteq> map_original_size m then None else Some (Span offset offset)
      else if offset = map_generated_size m then Some (Span (map_original_size m) (map_original_size m))
      else let next_index = upper_bound offset (map (span_begin \<circ> seg_generated) (map_segments m)) in
        if next_index = 0 then None
        else let s = map_segments m ! (next_index - 1) in
          if offset \<ge> span_end (seg_generated s) then None
          else if seg_kind s \<noteq> Copied then Some (seg_original s)
          else let mapped = span_begin (seg_original s) + (offset - span_begin (seg_generated s)) in
               Some (Span mapped mapped))"

definition MapGeneratedPosition :: "RewriteMap \<Rightarrow> nat \<Rightarrow> ByteSpan option" where
  "MapGeneratedPosition m offset = MapPositionUnchecked m offset"

definition MapPart :: "ByteSpan \<Rightarrow> RewriteSegment \<Rightarrow> ByteSpan option" where
  "MapPart sp s =
     (let b = max (span_begin sp) (span_begin (seg_generated s));
          e = min (span_end sp) (span_end (seg_generated s)) in
      if b \<ge> e then None
      else if seg_kind s = Copied then
        let d = b - span_begin (seg_generated s) in
        Some (Span (span_begin (seg_original s) + d) (span_begin (seg_original s) + d + (e - b)))
      else Some (seg_original s))"

fun MapSpanLoop :: "ByteSpan \<Rightarrow> ByteSpan option \<Rightarrow> RewriteSegment list \<Rightarrow> ByteSpan option" where
  "MapSpanLoop sp mapped [] = mapped"
| "MapSpanLoop sp mapped (s # rest) =
     MapSpanLoop sp
       (case MapPart sp s of
          None \<Rightarrow> mapped
        | Some part \<Rightarrow>
            (case mapped of
               None \<Rightarrow> Some part
             | Some m \<Rightarrow> Some (Span (min (span_begin m) (span_begin part)) (max (span_end m) (span_end part)))))
       rest"

definition MapGeneratedSpan :: "RewriteMap \<Rightarrow> ByteSpan \<Rightarrow> ByteSpan option" where
  "MapGeneratedSpan m sp =
     (if span_begin sp > span_end sp \<or> span_end sp > map_generated_size m then None
      else if span_begin sp = span_end sp then MapPositionUnchecked m (span_begin sp)
      else if map_segments m = [] then
        if map_generated_size m \<noteq> map_original_size m then None else Some sp
      else MapSpanLoop sp None (map_segments m))"

subsection \<open>Emitting the generated source\<close>

definition ReplacementSize :: "ArrowRewrite \<Rightarrow> nat" where
  "ReplacementSize r =
     length kPrefix + span_size (rw_source r) + length kMiddle + span_size (rw_target r) + length kSuffix"

fun CheckRewrites ::
  "SourceBuffer \<Rightarrow> RulesLimits \<Rightarrow> RuleId set \<Rightarrow> nat \<Rightarrow> nat \<Rightarrow> ArrowRewrite list \<Rightarrow> DesugarResult + nat" where
  "CheckRewrites source limits ids generated previous_end [] = Inr generated"
| "CheckRewrites source limits ids generated previous_end (r # rest) =
     (if \<not> IsValidRewrite source r \<or> span_begin (rw_rule r) < previous_end \<or> rw_id r \<in> ids
      then Inl (Failure source kDesugarInternal ''rules.desugar_invalid_rewrite'' (rw_rule r))
      else case AddSize (generated - span_size (rw_rule r)) (ReplacementSize r) of
             None \<Rightarrow> Inl (Failure source kResourceLimit ''rules.generated_too_large'' (rw_rule r))
           | Some new_size \<Rightarrow>
               if new_size > max_generated_bytes limits \<or> new_size > 2 ^ 32 - 1
               then Inl (Failure source kResourceLimit ''rules.generated_too_large'' (rw_rule r))
               else CheckRewrites source limits (insert (rw_id r) ids) new_size (span_end (rw_rule r)) rest)"

type_synonym emission = "string \<times> RewriteSegment list"

definition append_segment :: "RulesLimits \<Rightarrow> string \<Rightarrow> ByteSpan \<Rightarrow> RewriteSegmentKind \<Rightarrow> emission \<Rightarrow> emission option" where
  "append_segment limits text original kind em =
     (case em of (out, segments) \<Rightarrow>
        if text = [] then Some em
        else if length segments \<ge> max_rewrite_segments limits then None
        else Some (out @ text,
               segments @ [\<lparr>seg_generated = Span (length out) (length out + length text),
                            seg_original = original, seg_kind = kind\<rparr>]))"

definition append_copied :: "RulesLimits \<Rightarrow> SourceBuffer \<Rightarrow> ByteSpan \<Rightarrow> emission \<Rightarrow> emission option" where
  "append_copied limits source sp em = append_segment limits (slice (source_bytes source) sp) sp Copied em"

definition EmitRewrite ::
  "RulesLimits \<Rightarrow> SourceBuffer \<Rightarrow> nat \<Rightarrow> ArrowRewrite \<Rightarrow> emission \<Rightarrow> (GeneratedRedirect \<times> emission) option" where
  "EmitRewrite limits source cursor r em0 =
     do { em1 \<leftarrow> append_copied limits source (Span cursor (span_begin (rw_rule r))) em0;
          em2 \<leftarrow> append_segment limits kPrefix (rw_rule r) SyntheticRule em1;
          em3 \<leftarrow> append_copied limits source (rw_source r) em2;
          em4 \<leftarrow> append_segment limits kMiddle (rw_arrow r) SyntheticArrow em3;
          em5 \<leftarrow> append_copied limits source (rw_target r) em4;
          em6 \<leftarrow> append_segment limits kSuffix (rw_rule r) SyntheticRule em5;
          Some (\<lparr>red_id = rw_id r, original_rule = rw_rule r, original_source = rw_source r,
                 original_arrow = rw_arrow r, original_target = rw_target r,
                 generated_table = Span (length (fst em1)) (length (fst em6)),
                 generated_source = Span (length (fst em2)) (length (fst em3)),
                 generated_target = Span (length (fst em4)) (length (fst em5))\<rparr>, em6) }"

fun EmitLoop ::
  "RulesLimits \<Rightarrow> SourceBuffer \<Rightarrow> nat \<Rightarrow> emission \<Rightarrow> GeneratedRedirect list \<Rightarrow> ArrowRewrite list \<Rightarrow>
   DesugarResult + (nat \<times> emission \<times> GeneratedRedirect list)" where
  "EmitLoop limits source cursor em reds [] = Inr (cursor, em, reds)"
| "EmitLoop limits source cursor em reds (r # rest) =
     (case EmitRewrite limits source cursor r em of
        None \<Rightarrow> Inl (Failure source kResourceLimit ''rules.rewrite_segment_limit'' (rw_rule r))
      | Some (g, em') \<Rightarrow> EmitLoop limits source (span_end (rw_rule r)) em' (reds @ [g]) rest)"

definition EmitDesugaredSource :: "SourceBuffer \<Rightarrow> ArrowRewrite list \<Rightarrow> RulesLimits \<Rightarrow> DesugarResult" where
  "EmitDesugaredSource source rewrites limits =
     (let total = length (source_bytes source) in
      if rewrites = [] then
        \<lparr>generated_storage = None, rewrite_map = RewriteMap_Identity total, redirects = [], ds_diagnostics = []\<rparr>
      else if length rewrites > max_rewrites limits
      then Failure source kResourceLimit ''rules.rewrite_limit'' (rw_rule (hd rewrites))
      else case CheckRewrites source limits {} total 0 rewrites of
        Inl failure \<Rightarrow> failure
      | Inr generated_size \<Rightarrow>
          (case EmitLoop limits source 0 ([], []) [] rewrites of
             Inl failure \<Rightarrow> failure
           | Inr (cursor, em, reds) \<Rightarrow>
               (case append_copied limits source (Span cursor total) em of
                  None \<Rightarrow> Failure source kDesugarInternal ''rules.desugar_emit_mismatch'' (Span cursor total)
                | Some (out, segments) \<Rightarrow>
                    if length out \<noteq> generated_size
                    then Failure source kDesugarInternal ''rules.desugar_emit_mismatch'' (Span cursor total)
                    else case RewriteMap_Create segments (length out) total of
                           None \<Rightarrow> Failure source kDesugarInternal ''rules.desugar_map_invalid'' (Span 0 total)
                         | Some m \<Rightarrow> \<lparr>generated_storage = Some out, rewrite_map = m, redirects = reds,
                                     ds_diagnostics = []\<rparr>)))"

definition NumberRewrites :: "ArrowCandidate list \<Rightarrow> ArrowRewrite list" where
  "NumberRewrites cs =
     map (\<lambda>(index, c). \<lparr>rw_id = index + 1, rw_rule = cand_rule c, rw_source = cand_source c,
                          rw_arrow = cand_arrow c, rw_target = cand_target c\<rparr>) (enumerate 0 cs)"

definition DesugarRulesSource :: "SourceBuffer \<Rightarrow> RulesLimits \<Rightarrow> DesugarResult" where
  "DesugarRulesSource source limits =
     (let lexical = AnalyzeRulesSource source limits in
      if scan_diagnostics lexical \<noteq> [] then
        \<lparr>generated_storage = None, rewrite_map = RewriteMap_Identity (length (source_bytes source)),
         redirects = [], ds_diagnostics = scan_diagnostics lexical\<rparr>
      else EmitDesugaredSource source (NumberRewrites (scan_candidates lexical)) limits)"

subsection \<open>The generated text\<close>

text \<open>The reference: gaps are copied, rules are replaced by their inline tables.\<close>

definition template :: "string \<Rightarrow> ArrowRewrite \<Rightarrow> string" where
  "template bs r = kPrefix @ slice bs (rw_source r) @ kMiddle @ slice bs (rw_target r) @ kSuffix"

fun desugared :: "string \<Rightarrow> nat \<Rightarrow> ArrowRewrite list \<Rightarrow> string" where
  "desugared bs cursor [] = drop cursor bs"
| "desugared bs cursor (r # rest) =
     slice bs (Span cursor (span_begin (rw_rule r))) @ template bs r @ desugared bs (span_end (rw_rule r)) rest"

lemma length_slice: "span_end sp \<le> length bs \<Longrightarrow> length (slice bs sp) = span_size sp"
  by (simp add: slice_def span_size_def)

lemma slice_append: "span_end sp \<le> length out \<Longrightarrow> slice (out @ t) sp = slice out sp"
  by (auto simp: slice_def)

lemma slice_end: "slice (out @ t @ u) (Span (length out) (length out + length t)) = t"
  by (simp add: slice_def)

lemma append_segment_Some:
  "append_segment limits text original kind (out, segs) = Some em \<longleftrightarrow>
   (text = [] \<and> em = (out, segs)) \<or>
   (text \<noteq> [] \<and> length segs < max_rewrite_segments limits \<and>
    em = (out @ text, segs @ [\<lparr>seg_generated = Span (length out) (length out + length text),
                              seg_original = original, seg_kind = kind\<rparr>]))"
  by (auto simp: append_segment_def)

lemma append_segment_text: "append_segment limits text original kind em = Some em' \<Longrightarrow> fst em' = fst em @ text"
  by (cases em) (auto simp: append_segment_Some)

text \<open>The segments recorded for a text.\<close>

definition segments_ok :: "string \<Rightarrow> emission \<Rightarrow> bool" where
  "segments_ok bs em \<longleftrightarrow>
     CheckSegments (length (fst em)) (length bs) 0 (snd em) = Some (length (fst em)) \<and>
     (\<forall>s \<in> set (snd em). seg_kind s = Copied \<longrightarrow> slice (fst em) (seg_generated s) = slice bs (seg_original s))"

lemma CheckSegments_append:
  "CheckSegments g n b (xs @ ys) = Option.bind (CheckSegments g n b xs) (\<lambda>e. CheckSegments g n e ys)"
  by (induction g n b xs rule: CheckSegments.induct) simp_all

lemma CheckSegments_mono:
  "CheckSegments g n b xs = Some e \<Longrightarrow> g \<le> g' \<Longrightarrow> CheckSegments g' n b xs = Some e"
  by (induction g n b xs rule: CheckSegments.induct) (auto split: if_splits)

lemma CheckSegments_bounds:
  "CheckSegments g n b xs = Some e \<Longrightarrow> b \<le> e \<and> (\<forall>s \<in> set xs. b \<le> span_begin (seg_generated s) \<and>
     span_begin (seg_generated s) < span_end (seg_generated s) \<and> span_end (seg_generated s) \<le> e \<and>
     span_end (seg_generated s) \<le> g \<and>
     span_begin (seg_original s) \<le> span_end (seg_original s) \<and> span_end (seg_original s) \<le> n \<and>
     (seg_kind s = Copied \<longrightarrow> span_size (seg_generated s) = span_size (seg_original s)))"
proof (induction g n b xs rule: CheckSegments.induct)
  case (2 g n b s rest)
  from 2(2) have s: "span_begin (seg_generated s) = b" "b < span_end (seg_generated s)"
    "span_end (seg_generated s) \<le> g" "span_begin (seg_original s) \<le> span_end (seg_original s)"
    "span_end (seg_original s) \<le> n"
    "seg_kind s = Copied \<longrightarrow> span_size (seg_generated s) = span_size (seg_original s)"
    and rest: "CheckSegments g n (span_end (seg_generated s)) rest = Some e"
    by (auto split: if_splits)
  have "span_end (seg_generated s) \<le> e \<and> (\<forall>t \<in> set rest. span_end (seg_generated s) \<le> span_begin (seg_generated t) \<and>
     span_begin (seg_generated t) < span_end (seg_generated t) \<and> span_end (seg_generated t) \<le> e \<and>
     span_end (seg_generated t) \<le> g \<and>
     span_begin (seg_original t) \<le> span_end (seg_original t) \<and> span_end (seg_original t) \<le> n \<and>
     (seg_kind t = Copied \<longrightarrow> span_size (seg_generated t) = span_size (seg_original t)))"
    by (rule 2(1) [OF _ rest]) (use 2(2) in \<open>simp split: if_splits\<close>)
  with s show ?case by fastforce
qed simp

lemma segments_append:
  assumes ok: "segments_ok bs em" and a: "append_segment limits text original kind em = Some em'"
    and o: "span_begin original \<le> span_end original" "span_end original \<le> length bs"
    and c: "kind = Copied \<Longrightarrow> text = slice bs original"
  shows "segments_ok bs em'"
proof (cases "text = []")
  case True
  with ok a show ?thesis by (cases em) (simp add: append_segment_Some)
next
  case False
  obtain out segs where em: "em = (out, segs)" by (cases em)
  let ?s = "\<lparr>seg_generated = Span (length out) (length out + length text), seg_original = original, seg_kind = kind\<rparr>"
  from a False em have em': "em' = (out @ text, segs @ [?s])" by (simp add: append_segment_Some)
  have chk: "CheckSegments (length out) (length bs) 0 segs = Some (length out)"
    using ok em by (simp add: segments_ok_def)
  have "CheckSegments (length out + length text) (length bs) 0 segs = Some (length out)"
    by (rule CheckSegments_mono [OF chk]) simp
  moreover have "kind = Copied \<Longrightarrow> length text = span_size original" using c length_slice [OF o(2)] by simp
  ultimately have "CheckSegments (length out + length text) (length bs) 0 (segs @ [?s]) =
      Some (length out + length text)"
    using False o by (simp add: CheckSegments_append span_size_def)
  moreover have "slice (out @ text) (seg_generated s) = slice bs (seg_original s)"
    if "s \<in> set segs" "seg_kind s = Copied" for s
    using CheckSegments_bounds [OF chk] that ok em by (simp add: slice_append segments_ok_def)
  ultimately show ?thesis
    using c slice_end [of out "text" "[]"] by (auto simp: em' segments_ok_def)
qed

lemma append_copied_text:
  "append_copied limits source sp em = Some em' \<Longrightarrow> fst em' = fst em @ slice (source_bytes source) sp"
  unfolding append_copied_def by (rule append_segment_text)

lemma segments_copied:
  assumes "segments_ok (source_bytes source) em" "append_copied limits source sp em = Some em'"
    "span_begin sp \<le> span_end sp" "span_end sp \<le> length (source_bytes source)"
  shows "segments_ok (source_bytes source) em'"
  by (rule segments_append [OF assms(1) assms(2) [unfolded append_copied_def] assms(3,4)]) simp

definition span_in :: "string \<Rightarrow> ByteSpan \<Rightarrow> bool" where
  "span_in bs sp \<longleftrightarrow> span_begin sp \<le> span_end sp \<and> span_end sp \<le> length bs"

definition has_copy :: "emission \<Rightarrow> ByteSpan \<Rightarrow> ByteSpan \<Rightarrow> bool" where
  "has_copy em generated original \<longleftrightarrow>
     \<lparr>seg_generated = generated, seg_original = original, seg_kind = Copied\<rparr> \<in> set (snd em)"

definition redirect_ok :: "string \<Rightarrow> emission \<Rightarrow> GeneratedRedirect \<Rightarrow> bool" where
  "redirect_ok bs em g \<longleftrightarrow>
     has_copy em (generated_source g) (original_source g) \<and> has_copy em (generated_target g) (original_target g) \<and>
     span_end (generated_table g) \<le> length (fst em) \<and>
     slice (fst em) (generated_table g) =
       kPrefix @ slice bs (original_source g) @ kMiddle @ slice bs (original_target g) @ kSuffix"

lemma append_grows:
  assumes "append_segment limits text original kind em = Some em'"
  shows "set (snd em) \<subseteq> set (snd em')" "prefix (fst em) (fst em')"
  using assms by (cases em; auto simp: append_segment_Some)+

lemma copied_grows:
  assumes "append_copied limits source sp em = Some em'"
  shows "set (snd em) \<subseteq> set (snd em')" "prefix (fst em) (fst em')"
  using assms unfolding append_copied_def by (rule append_grows)+

lemma redirect_ok_mono:
  assumes "redirect_ok bs em g" "set (snd em) \<subseteq> set (snd em')" "prefix (fst em) (fst em')"
  shows "redirect_ok bs em' g"
proof -
  from assms(3) obtain t where "fst em' = fst em @ t" by (auto simp: prefix_def)
  with assms show ?thesis by (auto simp: redirect_ok_def has_copy_def slice_append)
qed

lemma copied_segment:
  assumes "append_copied limits source sp em = Some em'" "span_begin sp < span_end sp"
    "span_end sp \<le> length (source_bytes source)"
  shows "has_copy em' (Span (length (fst em)) (length (fst em'))) sp"
proof -
  have "slice (source_bytes source) sp \<noteq> []"
    using assms(2) length_slice [OF assms(3)] by (auto simp: span_size_def)
  with assms(1) show ?thesis
    by (cases em) (auto simp: append_copied_def append_segment_Some has_copy_def)
qed

lemma EmitRewrite_ok:
  assumes e: "EmitRewrite limits source cursor r em = Some (g, em')" and v: "IsValidRewrite source r"
    and cur: "cursor \<le> span_begin (rw_rule r)" and ok: "segments_ok (source_bytes source) em"
  shows "segments_ok (source_bytes source) em'"
    "fst em' = fst em @ slice (source_bytes source) (Span cursor (span_begin (rw_rule r))) @ template (source_bytes source) r"
    "redirect_ok (source_bytes source) em' g" "set (snd em) \<subseteq> set (snd em')"
    "(red_id g, original_rule g, original_source g, original_arrow g, original_target g) =
     (rw_id r, rw_rule r, rw_source r, rw_arrow r, rw_target r)"
proof -
  let ?bs = "source_bytes source"
  from e obtain em1 em2 em3 em4 em5 where
    a1: "append_copied limits source (Span cursor (span_begin (rw_rule r))) em = Some em1"
    and a2: "append_segment limits kPrefix (rw_rule r) SyntheticRule em1 = Some em2"
    and a3: "append_copied limits source (rw_source r) em2 = Some em3"
    and a4: "append_segment limits kMiddle (rw_arrow r) SyntheticArrow em3 = Some em4"
    and a5: "append_copied limits source (rw_target r) em4 = Some em5"
    and a6: "append_segment limits kSuffix (rw_rule r) SyntheticRule em5 = Some em'"
    and g: "g = \<lparr>red_id = rw_id r, original_rule = rw_rule r, original_source = rw_source r,
                 original_arrow = rw_arrow r, original_target = rw_target r,
                 generated_table = Span (length (fst em1)) (length (fst em')),
                 generated_source = Span (length (fst em2)) (length (fst em3)),
                 generated_target = Span (length (fst em4)) (length (fst em5))\<rparr>"
    unfolding EmitRewrite_def by (auto simp: bind_eq_Some_conv)
  have sp: "span_in ?bs (rw_rule r)" "span_in ?bs (rw_source r)" "span_in ?bs (rw_arrow r)" "span_in ?bs (rw_target r)"
    "span_begin (rw_source r) < span_end (rw_source r)" "span_begin (rw_target r) < span_end (rw_target r)"
    using v by (auto simp: IsValidRewrite_def IsValidSpan_def span_in_def)
  note spans = sp(1-4) [unfolded span_in_def]
  have s1: "segments_ok ?bs em1" using spans(1) cur by (intro segments_copied [OF ok a1]) simp_all
  have s2: "segments_ok ?bs em2" using spans(1) by (intro segments_append [OF s1 a2]) simp_all
  have s3: "segments_ok ?bs em3" using spans(2) by (intro segments_copied [OF s2 a3]) simp_all
  have s4: "segments_ok ?bs em4" using spans(3) by (intro segments_append [OF s3 a4]) simp_all
  have s5: "segments_ok ?bs em5" using spans(4) by (intro segments_copied [OF s4 a5]) simp_all
  show "segments_ok ?bs em'" using spans(1) by (intro segments_append [OF s5 a6]) simp_all
  note texts = append_copied_text [OF a1] append_segment_text [OF a2] append_copied_text [OF a3]
    append_segment_text [OF a4] append_copied_text [OF a5] append_segment_text [OF a6]
  show "fst em' = fst em @ slice ?bs (Span cursor (span_begin (rw_rule r))) @ template ?bs r"
    by (simp add: texts template_def)
  note grow = copied_grows(1) [OF a1] append_grows(1) [OF a2] copied_grows(1) [OF a3]
    append_grows(1) [OF a4] copied_grows(1) [OF a5] append_grows(1) [OF a6]
  show "set (snd em) \<subseteq> set (snd em')" using grow by blast
  have "has_copy em3 (generated_source g) (rw_source r)" "has_copy em5 (generated_target g) (rw_target r)"
    using copied_segment [OF a3 sp(5)] copied_segment [OF a5 sp(6)] spans by (simp_all add: g)
  hence "has_copy em' (generated_source g) (rw_source r)" "has_copy em' (generated_target g) (rw_target r)"
    using grow unfolding has_copy_def by blast+
  moreover have "fst em' = fst em1 @ template ?bs r" by (simp add: texts template_def)
  hence "slice (fst em') (generated_table g) = template ?bs r"
    using slice_end [of "fst em1" "template ?bs r" "[]"] by (simp add: g)
  ultimately show "redirect_ok ?bs em' g" by (simp add: redirect_ok_def template_def g)
  show "(red_id g, original_rule g, original_source g, original_arrow g, original_target g) =
     (rw_id r, rw_rule r, rw_source r, rw_arrow r, rw_target r)" by (simp add: g)
qed

definition origin_of :: "ArrowRewrite \<Rightarrow> RuleId \<times> ByteSpan \<times> ByteSpan \<times> ByteSpan \<times> ByteSpan" where
  "origin_of r = (rw_id r, rw_rule r, rw_source r, rw_arrow r, rw_target r)"

definition recorded_origin :: "GeneratedRedirect \<Rightarrow> RuleId \<times> ByteSpan \<times> ByteSpan \<times> ByteSpan \<times> ByteSpan" where
  "recorded_origin g = (red_id g, original_rule g, original_source g, original_arrow g, original_target g)"

definition emit_state :: "string \<Rightarrow> nat \<Rightarrow> nat \<Rightarrow> emission \<Rightarrow> GeneratedRedirect list \<Rightarrow> bool" where
  "emit_state bs generated cursor em reds \<longleftrightarrow>
     cursor \<le> length bs \<and> length (fst em) + (length bs - cursor) = generated \<and> segments_ok bs em \<and>
     list_all (redirect_ok bs em) reds"

lemma CheckRewrites_Cons:
  assumes "CheckRewrites source limits ids generated cursor (r # rest) = Inr generated'"
  shows "IsValidRewrite source r" "cursor \<le> span_begin (rw_rule r)" "rw_id r \<notin> ids"
    "CheckRewrites source limits (insert (rw_id r) ids) (generated - span_size (rw_rule r) + ReplacementSize r)
       (span_end (rw_rule r)) rest = Inr generated'"
  using assms by (auto simp: AddSize_def split: if_splits)

lemma valid_spans:
  assumes "IsValidRewrite source r"
  shows "span_begin (rw_rule r) \<le> span_end (rw_rule r)" "span_end (rw_rule r) \<le> length (source_bytes source)"
    "length (template (source_bytes source) r) = ReplacementSize r"
  using assms by (simp_all add: IsValidRewrite_def IsValidSpan_def template_def ReplacementSize_def length_slice)

lemma emit_state_step:
  assumes c: "CheckRewrites source limits ids generated cursor (r # rest) = Inr generated'"
    and e: "EmitRewrite limits source cursor r em = Some (g, em')"
    and st: "emit_state (source_bytes source) generated cursor em reds"
  shows "emit_state (source_bytes source) (generated - span_size (rw_rule r) + ReplacementSize r)
    (span_end (rw_rule r)) em' (reds @ [g])"
proof -
  let ?bs = "source_bytes source"
  note ch = CheckRewrites_Cons [OF c] and v = valid_spans [OF CheckRewrites_Cons(1) [OF c]]
  from st have cur: "cursor \<le> length ?bs" "length (fst em) + (length ?bs - cursor) = generated"
    "segments_ok ?bs em" "list_all (redirect_ok ?bs em) reds" by (simp_all add: emit_state_def)
  note em' = EmitRewrite_ok [OF e ch(1,2) cur(3)]
  have "length (slice ?bs (Span cursor (span_begin (rw_rule r)))) = span_begin (rw_rule r) - cursor"
    using v(1,2) ch(2) by (subst length_slice) (simp_all add: span_size_def)
  hence len: "length (fst em') = length (fst em) + (span_begin (rw_rule r) - cursor) + ReplacementSize r"
    using em'(2) v(3) by simp
  have "prefix (fst em) (fst em')" using em'(2) by simp
  hence "list_all (redirect_ok ?bs em') reds"
    using cur(4) em'(4) redirect_ok_mono unfolding list_all_iff by blast
  moreover have "length (fst em') + (length ?bs - span_end (rw_rule r)) =
      generated - span_size (rw_rule r) + ReplacementSize r"
    using len cur(1,2) v(1,2) ch(2) by (simp add: span_size_def)
  ultimately show ?thesis using em'(1,3) v(2) by (simp add: emit_state_def)
qed

lemma EmitLoop_ok:
  "CheckRewrites source limits ids generated cursor rs = Inr generated' \<Longrightarrow>
   emit_state (source_bytes source) generated cursor em reds \<Longrightarrow>
   EmitLoop limits source cursor em reds rs = Inr (cursor', em', reds') \<Longrightarrow>
   emit_state (source_bytes source) generated' cursor' em' reds' \<and>
   fst em' @ drop cursor' (source_bytes source) = fst em @ desugared (source_bytes source) cursor rs \<and>
   map recorded_origin reds' = map recorded_origin reds @ map origin_of rs"
proof (induction rs arbitrary: ids generated cursor em reds)
  case (Cons r rest)
  from Cons.prems(3) obtain g em1 where e: "EmitRewrite limits source cursor r em = Some (g, em1)"
    and loop: "EmitLoop limits source (span_end (rw_rule r)) em1 (reds @ [g]) rest = Inr (cursor', em', reds')"
    by (auto split: option.splits)
  note ch = CheckRewrites_Cons [OF Cons.prems(1)]
  from Cons.prems(2) have "segments_ok (source_bytes source) em" by (simp add: emit_state_def)
  note one = EmitRewrite_ok [OF e ch(1,2) this]
  from Cons.IH [OF ch(4) emit_state_step [OF Cons.prems(1) e Cons.prems(2)] loop] one(2,5) show ?case
    by (simp add: recorded_origin_def origin_of_def)
qed simp

lemma append_segment_room:
  assumes "length (snd em) < max_rewrite_segments limits"
  obtains em' where "append_segment limits text original kind em = Some em'" "length (snd em') \<le> length (snd em) + 1"
proof (cases "text = []")
  case True
  thus thesis using that [of em] by (cases em) (simp add: append_segment_Some)
next
  case False
  with assms that show thesis by (cases em) (simp add: append_segment_def)
qed

lemma append_copied_room:
  assumes "length (snd em) < max_rewrite_segments limits"
  obtains em' where "append_copied limits source sp em = Some em'" "length (snd em') \<le> length (snd em) + 1"
  unfolding append_copied_def using append_segment_room [OF assms] by blast

lemma EmitRewrite_room:
  assumes "length (snd em) + 6 \<le> max_rewrite_segments limits"
  obtains g em' where "EmitRewrite limits source cursor r em = Some (g, em')" "length (snd em') \<le> length (snd em) + 6"
proof -
  have r1: "length (snd em) < max_rewrite_segments limits" using assms by linarith
  obtain em1 where 1: "append_copied limits source (Span cursor (span_begin (rw_rule r))) em = Some em1"
    "length (snd em1) \<le> length (snd em) + 1" by (rule append_copied_room [OF r1])
  have r2: "length (snd em1) < max_rewrite_segments limits" using assms 1(2) by linarith
  obtain em2 where 2: "append_segment limits kPrefix (rw_rule r) SyntheticRule em1 = Some em2"
    "length (snd em2) \<le> length (snd em1) + 1" by (rule append_segment_room [OF r2])
  have r3: "length (snd em2) < max_rewrite_segments limits" using assms 1(2) 2(2) by linarith
  obtain em3 where 3: "append_copied limits source (rw_source r) em2 = Some em3"
    "length (snd em3) \<le> length (snd em2) + 1" by (rule append_copied_room [OF r3])
  have r4: "length (snd em3) < max_rewrite_segments limits" using assms 1(2) 2(2) 3(2) by linarith
  obtain em4 where 4: "append_segment limits kMiddle (rw_arrow r) SyntheticArrow em3 = Some em4"
    "length (snd em4) \<le> length (snd em3) + 1" by (rule append_segment_room [OF r4])
  have r5: "length (snd em4) < max_rewrite_segments limits" using assms 1(2) 2(2) 3(2) 4(2) by linarith
  obtain em5 where 5: "append_copied limits source (rw_target r) em4 = Some em5"
    "length (snd em5) \<le> length (snd em4) + 1" by (rule append_copied_room [OF r5])
  have r6: "length (snd em5) < max_rewrite_segments limits" using assms 1(2) 2(2) 3(2) 4(2) 5(2) by linarith
  obtain em6 where 6: "append_segment limits kSuffix (rw_rule r) SyntheticRule em5 = Some em6"
    "length (snd em6) \<le> length (snd em5) + 1" by (rule append_segment_room [OF r6])
  show thesis
  proof (rule that)
    show "EmitRewrite limits source cursor r em = Some
       (\<lparr>red_id = rw_id r, original_rule = rw_rule r, original_source = rw_source r,
         original_arrow = rw_arrow r, original_target = rw_target r,
         generated_table = Span (length (fst em1)) (length (fst em6)),
         generated_source = Span (length (fst em2)) (length (fst em3)),
         generated_target = Span (length (fst em4)) (length (fst em5))\<rparr>, em6)"
      by (simp add: EmitRewrite_def 1 2 3 4 5 6)
    show "length (snd em6) \<le> length (snd em) + 6" using 1 2 3 4 5 6 by linarith
  qed
qed

lemma EmitLoop_room:
  "length (snd em) + 6 * length rs < max_rewrite_segments limits \<Longrightarrow>
   \<exists>cursor' em' reds'. EmitLoop limits source cursor em reds rs = Inr (cursor', em', reds') \<and>
     length (snd em') < max_rewrite_segments limits"
proof (induction rs arbitrary: cursor em reds)
  case (Cons r rest)
  obtain g em1 where e: "EmitRewrite limits source cursor r em = Some (g, em1)"
    "length (snd em1) \<le> length (snd em) + 6"
    using EmitRewrite_room [of em limits source cursor r] Cons.prems by auto
  with Cons.IH [of em1 "span_end (rw_rule r)" "reds @ [g]"] Cons.prems show ?case by simp
qed simp

subsection \<open>Mapping back\<close>

lemma CheckSegments_ConsD:
  assumes "CheckSegments g n b (s # rest) = Some e"
  shows "span_begin (seg_generated s) = b" "CheckSegments g n (span_end (seg_generated s)) rest = Some e"
    "b < span_end (seg_generated s)"
  using assms by (auto split: if_splits)

lemma CheckSegments_split:
  assumes "CheckSegments g n b (xs @ s # ys) = Some e"
  shows "\<forall>x \<in> set xs. span_begin (seg_generated x) < span_begin (seg_generated s) \<and>
           span_end (seg_generated x) \<le> span_begin (seg_generated s)"
    "\<forall>y \<in> set ys. span_end (seg_generated s) \<le> span_begin (seg_generated y)"
proof -
  from assms obtain c where xs: "CheckSegments g n b xs = Some c"
    and s: "CheckSegments g n c (s # ys) = Some e" by (auto simp: CheckSegments_append bind_eq_Some_conv)
  note d = CheckSegments_ConsD [OF s]
  show "\<forall>x \<in> set xs. span_begin (seg_generated x) < span_begin (seg_generated s) \<and>
           span_end (seg_generated x) \<le> span_begin (seg_generated s)"
    using CheckSegments_bounds [OF xs] d(1) by fastforce
  show "\<forall>y \<in> set ys. span_end (seg_generated s) \<le> span_begin (seg_generated y)"
    using CheckSegments_bounds [OF d(2)] by blast
qed

lemma CheckSegments_find:
  "CheckSegments g n b segs = Some e \<Longrightarrow> b \<le> offset \<Longrightarrow> offset < e \<Longrightarrow>
   \<exists>xs s ys. segs = xs @ s # ys \<and> span_begin (seg_generated s) \<le> offset \<and> offset < span_end (seg_generated s)"
proof (induction g n b segs rule: CheckSegments.induct)
  case (2 g n b s rest)
  note d = CheckSegments_ConsD [OF 2(2)]
  show ?case
  proof (cases "offset < span_end (seg_generated s)")
    case True
    with d(1) 2(3) show ?thesis by (intro exI [of _ "[]"] exI [of _ s] exI [of _ rest]) simp
  next
    case False
    have "\<exists>xs t ys. rest = xs @ t # ys \<and> span_begin (seg_generated t) \<le> offset \<and> offset < span_end (seg_generated t)"
      using 2(2) d(2) False 2(4) by (intro 2(1)) (auto split: if_splits)
    thus ?thesis by (metis append_Cons)
  qed
qed simp

lemma MapSpanLoop_skip: "(\<And>x. x \<in> set xs \<Longrightarrow> MapPart sp x = None) \<Longrightarrow> MapSpanLoop sp m (xs @ ys) = MapSpanLoop sp m ys"
  by (induction xs) simp_all

definition emitted_map :: "string \<Rightarrow> emission \<Rightarrow> RewriteMap" where
  "emitted_map bs em = \<lparr>map_segments = snd em, map_generated_size = length (fst em), map_original_size = length bs\<rparr>"

lemma MapGeneratedSpan_copy:
  assumes ok: "segments_ok bs em" and c: "has_copy em generated original"
  shows "MapGeneratedSpan (emitted_map bs em) generated = Some original"
proof -
  let ?s = "\<lparr>seg_generated = generated, seg_original = original, seg_kind = Copied\<rparr>"
  have chk: "CheckSegments (length (fst em)) (length bs) 0 (snd em) = Some (length (fst em))"
    using ok by (simp add: segments_ok_def)
  from c have mem: "?s \<in> set (snd em)" by (simp add: has_copy_def)
  then obtain xs ys where split: "snd em = xs @ ?s # ys" by (meson split_list)
  have b: "span_begin generated < span_end generated" "span_end generated \<le> length (fst em)"
    "span_begin original \<le> span_end original" "span_size generated = span_size original"
    using CheckSegments_bounds [OF chk] mem by auto
  note parts = CheckSegments_split [OF chk [unfolded split]]
  have "MapPart generated x = None" if "x \<in> set xs" for x
    using parts(1) that by (auto simp: MapPart_def Let_def)
  hence "MapSpanLoop generated None (snd em) = MapSpanLoop generated None (?s # ys)"
    unfolding split by (rule MapSpanLoop_skip)
  moreover have "MapPart generated ?s = Some original"
    using b by (simp add: MapPart_def Let_def span_size_def Span_def)
  moreover have "MapPart generated y = None" if "y \<in> set ys" for y
    using parts(2) that by (auto simp: MapPart_def Let_def)
  hence "MapSpanLoop generated (Some original) (ys @ []) = Some original"
    by (subst MapSpanLoop_skip) simp_all
  ultimately have "MapSpanLoop generated None (snd em) = Some original" by simp
  moreover have "snd em \<noteq> []" using mem by auto
  ultimately show ?thesis using b by (simp add: MapGeneratedSpan_def emitted_map_def)
qed

lemma MapGeneratedPosition_found:
  assumes ok: "segments_ok bs em" and o: "offset < length (fst em)"
  obtains s where "s \<in> set (snd em)" "span_begin (seg_generated s) \<le> offset" "offset < span_end (seg_generated s)"
    "MapGeneratedPosition (emitted_map bs em) offset =
       (if seg_kind s = Copied
        then let mapped = span_begin (seg_original s) + (offset - span_begin (seg_generated s)) in Some (Span mapped mapped)
        else Some (seg_original s))"
proof -
  have chk: "CheckSegments (length (fst em)) (length bs) 0 (snd em) = Some (length (fst em))"
    using ok by (simp add: segments_ok_def)
  from CheckSegments_find [OF chk _ o] obtain xs s ys where split: "snd em = xs @ s # ys"
    and s: "span_begin (seg_generated s) \<le> offset" "offset < span_end (seg_generated s)" by auto
  note parts = CheckSegments_split [OF chk [unfolded split]]
  have xs: "\<forall>x \<in> set xs. \<not> offset < span_begin (seg_generated x)" using parts(1) s(1) by fastforce
  have ys: "ys = [] \<or> offset < span_begin (seg_generated (hd ys))" using parts(2) s(2) by (cases ys) auto
  have "upper_bound offset (map (span_begin \<circ> seg_generated) (snd em)) = Suc (length xs)"
    using xs ys s(1) by (cases ys) (auto simp: split upper_bound_def takeWhile_map takeWhile_append)
  hence "MapGeneratedPosition (emitted_map bs em) offset =
       (if seg_kind s = Copied
        then let mapped = span_begin (seg_original s) + (offset - span_begin (seg_generated s)) in Some (Span mapped mapped)
        else Some (seg_original s))"
    using o s(2) by (simp add: MapGeneratedPosition_def MapPositionUnchecked_def emitted_map_def Let_def split nth_append)
  thus thesis using that [of s] s split by simp
qed

lemma slice_nth:
  assumes "slice out g = slice bs sp" "span_begin g \<le> i" "i < span_end g" "span_end g \<le> length out"
    "span_end sp \<le> length bs" "span_size g = span_size sp"
  shows "out ! i = bs ! (span_begin sp + (i - span_begin g))"
proof -
  have "slice out g ! (i - span_begin g) = out ! i" using assms(2-4) by (simp add: slice_def)
  moreover have "slice bs sp ! (i - span_begin g) = bs ! (span_begin sp + (i - span_begin g))"
    using assms(2,3,5,6) by (simp add: slice_def span_size_def)
  ultimately show ?thesis using assms(1) by simp
qed

lemma desugared_nonempty: "rs \<noteq> [] \<Longrightarrow> desugared bs cursor rs \<noteq> []"
  by (cases rs) (simp_all add: template_def kPrefix_def)

lemma Failure_not_ok: "\<not> desugar_ok (Failure source code key sp)"
  by (simp add: desugar_ok_def Failure_def)

lemma CheckRewrites_fail: "CheckRewrites source limits ids g c rs = Inl f \<Longrightarrow> \<not> desugar_ok f"
  by (induction source limits ids g c rs rule: CheckRewrites.induct)
     (auto simp: Failure_not_ok split: if_splits option.splits)

lemma EmitLoop_fail: "EmitLoop limits source c em reds rs = Inl f \<Longrightarrow> \<not> desugar_ok f"
  by (induction rs arbitrary: c em reds) (auto simp: Failure_not_ok split: option.splits)

lemma EmitDesugaredSource_success:
  assumes r: "EmitDesugaredSource source rewrites limits = r" "desugar_ok r" "rewrites \<noteq> []"
  obtains em where "generated_storage r = Some (fst em)" "fst em = desugared (source_bytes source) 0 rewrites"
    "rewrite_map r = emitted_map (source_bytes source) em" "segments_ok (source_bytes source) em"
    "list_all (redirect_ok (source_bytes source) em) (redirects r)"
    "map recorded_origin (redirects r) = map origin_of rewrites"
proof -
  let ?bs = "source_bytes source"
  obtain gen where chk: "CheckRewrites source limits {} (length ?bs) 0 rewrites = Inr gen"
    using r CheckRewrites_fail Failure_not_ok by (cases "CheckRewrites source limits {} (length ?bs) 0 rewrites")
      (auto simp: EmitDesugaredSource_def Let_def split: if_splits)
  obtain cursor em reds where loop: "EmitLoop limits source 0 ([], []) [] rewrites = Inr (cursor, em, reds)"
    using r chk EmitLoop_fail Failure_not_ok by (cases "EmitLoop limits source 0 ([], []) [] rewrites")
      (auto simp: EmitDesugaredSource_def Let_def split: if_splits)
  obtain em' where ap: "append_copied limits source (Span cursor (length ?bs)) em = Some em'"
    using r chk loop Failure_not_ok by (cases "append_copied limits source (Span cursor (length ?bs)) em")
      (auto simp: EmitDesugaredSource_def Let_def split: if_splits)
  have "emit_state ?bs (length ?bs) 0 ([], []) []" by (simp add: emit_state_def segments_ok_def)
  note st = EmitLoop_ok [OF chk this loop]
  from st have seg: "segments_ok ?bs em'" by (intro segments_copied [OF _ ap]) (simp_all add: emit_state_def)
  have "slice ?bs (Span cursor (length ?bs)) = drop cursor ?bs" by (simp add: slice_def)
  hence out: "fst em' = desugared ?bs 0 rewrites" using append_copied_text [OF ap] st by simp
  have reds: "list_all (redirect_ok ?bs em') reds"
    using st copied_grows [OF ap] redirect_ok_mono unfolding emit_state_def list_all_iff by blast
  have "r = \<lparr>generated_storage = Some (fst em'), rewrite_map = emitted_map ?bs em', redirects = reds, ds_diagnostics = []\<rparr>"
    using r chk loop ap Failure_not_ok seg out
    by (cases em') (auto simp: EmitDesugaredSource_def Let_def RewriteMap_Create_def segments_ok_def emitted_map_def
        split: if_splits)
  thus thesis using that [of em'] out seg reds st by simp
qed

subsection \<open>From the scanner to the desugarer\<close>

lemma NumberRewrites_nth:
  "i < length cs \<Longrightarrow> NumberRewrites cs ! i =
     \<lparr>rw_id = i + 1, rw_rule = cand_rule (cs ! i), rw_source = cand_source (cs ! i),
      rw_arrow = cand_arrow (cs ! i), rw_target = cand_target (cs ! i)\<rparr>"
  by (simp add: NumberRewrites_def nth_enumerate_eq)

lemma length_NumberRewrites [simp]: "length (NumberRewrites cs) = length cs"
  by (simp add: NumberRewrites_def)

definition rewrites_valid :: "SourceBuffer \<Rightarrow> RuleId set \<Rightarrow> nat \<Rightarrow> ArrowRewrite list \<Rightarrow> bool" where
  "rewrites_valid source ids cursor rs \<longleftrightarrow>
     list_all (IsValidRewrite source) rs \<and> distinct (map rw_id rs) \<and> set (map rw_id rs) \<inter> ids = {} \<and>
     sorted_wrt (\<lambda>a b. span_end (rw_rule a) \<le> span_begin (rw_rule b)) rs \<and>
     list_all (\<lambda>r. cursor \<le> span_begin (rw_rule r)) rs"

lemma rewrites_valid_Cons:
  "rewrites_valid source ids cursor (r # rest) \<Longrightarrow> rewrites_valid source (insert (rw_id r) ids) (span_end (rw_rule r)) rest"
  by (auto simp: rewrites_valid_def list_all_iff)

lemma candidate_valid:
  "candidate_ok (source_bytes source) c \<Longrightarrow>
   IsValidRewrite source \<lparr>rw_id = Suc i, rw_rule = cand_rule c, rw_source = cand_source c, rw_arrow = cand_arrow c,
     rw_target = cand_target c\<rparr>"
  by (auto simp: candidate_ok_def operand_def arrow_at_def IsValidRewrite_def IsValidSpan_def)

lemma scanned_rewrites_valid:
  assumes "list_all (candidate_ok (source_bytes source)) cs"
    "sorted_wrt (\<lambda>a b. span_end (cand_rule a) \<le> span_begin (cand_rule b)) cs"
  shows "rewrites_valid source {} 0 (NumberRewrites cs)"
proof -
  have "list_all (IsValidRewrite source) (NumberRewrites cs)"
    using assms(1) candidate_valid by (auto simp: list_all_length NumberRewrites_nth)
  moreover have "distinct (map rw_id (NumberRewrites cs))"
    by (auto simp: distinct_conv_nth NumberRewrites_nth)
  moreover have "sorted_wrt (\<lambda>a b. span_end (rw_rule a) \<le> span_begin (rw_rule b)) (NumberRewrites cs)"
    using assms(2) by (auto simp: sorted_wrt_iff_nth_less NumberRewrites_nth)
  ultimately show ?thesis by (simp add: rewrites_valid_def list_all_iff)
qed

definition resource_failure :: "DesugarResult \<Rightarrow> bool" where
  "resource_failure r \<longleftrightarrow> list_all (\<lambda>d. diag_code d = kResourceLimit) (ds_diagnostics r)"

lemma resource_failure_Failure [simp]: "resource_failure (Failure source kResourceLimit key sp)"
  by (simp add: resource_failure_def Failure_def diagnostic_def)

lemma CheckRewrites_valid:
  "rewrites_valid source ids cursor rs \<Longrightarrow> CheckRewrites source limits ids g cursor rs = Inl f \<Longrightarrow> resource_failure f"
proof (induction rs arbitrary: ids g cursor)
  case (Cons r rest)
  from Cons.prems(1) have "IsValidRewrite source r" "cursor \<le> span_begin (rw_rule r)" "rw_id r \<notin> ids"
    by (auto simp: rewrites_valid_def)
  with Cons.prems(2) Cons.IH [OF rewrites_valid_Cons [OF Cons.prems(1)]] show ?case
    by (auto split: option.splits if_splits)
qed simp

lemma EmitDesugaredSource_no_internal:
  assumes v: "rewrites_valid source {} 0 rs" and room: "6 * length rs < max_rewrite_segments limits"
  shows "resource_failure (EmitDesugaredSource source rs limits)"
proof (cases "rs = [] \<or> length rs > max_rewrites limits")
  case True
  thus ?thesis by (auto simp: EmitDesugaredSource_def resource_failure_def Failure_def diagnostic_def Let_def)
next
  case False
  let ?bs = "source_bytes source"
  from EmitLoop_room [of "([], [])" rs limits source 0 "[]"] room obtain cursor em reds where
    loop: "EmitLoop limits source 0 ([], []) [] rs = Inr (cursor, em, reds)" "length (snd em) < max_rewrite_segments limits"
    by auto
  obtain em' where ap: "append_copied limits source (Span cursor (length ?bs)) em = Some em'"
    by (rule append_copied_room [OF loop(2)])
  show ?thesis
  proof (cases "CheckRewrites source limits {} (length ?bs) 0 rs")
    case (Inl f)
    with CheckRewrites_valid [OF v Inl] False show ?thesis by (simp add: EmitDesugaredSource_def Let_def)
  next
    case (Inr gen)
    have "emit_state ?bs (length ?bs) 0 ([], []) []" by (simp add: emit_state_def segments_ok_def)
    note st = EmitLoop_ok [OF Inr this loop(1)]
    hence seg: "segments_ok ?bs em'" by (intro segments_copied [OF _ ap]) (simp_all add: emit_state_def)
    have "slice ?bs (Span cursor (length ?bs)) = drop cursor ?bs" by (simp add: slice_def)
    hence t: "fst em' = fst em @ drop cursor ?bs" using append_copied_text [OF ap] by simp
    have out: "fst em' = desugared ?bs 0 rs" "length (fst em') = gen"
      unfolding t length_append length_drop using st unfolding emit_state_def by simp_all
    have "snd em' \<noteq> []"
      using seg desugared_nonempty [of rs ?bs 0] False out(1) by (auto simp: segments_ok_def)
    hence "RewriteMap_Create (snd em') (length (fst em')) (length ?bs) = Some (emitted_map ?bs em')"
      using seg by (simp add: RewriteMap_Create_def segments_ok_def emitted_map_def)
    with False Inr loop(1) ap out(2) show ?thesis
      by (cases em') (simp add: EmitDesugaredSource_def Let_def resource_failure_def)
  qed
qed

subsection \<open>Properties\<close>

text \<open>
  Claim C16.  Desugaring is exactly the intended textual rewriting, and it can be traced back.  When
  \<open>DesugarRulesSource\<close> succeeds, the parser's input is the source with every scanned arrow rule replaced
  by its inline table and nothing else changed; there is one recorded redirect per rule, in order, with
  the spans of the rule in the source; the recorded spans of the generated operands contain the bytes
  of the original operands, and \<open>MapGeneratedSpan\<close> maps them back to the original operands.
\<close>

theorem desugar_rewrites_arrows:
  assumes "desugar_ok (DesugarRulesSource source limits)"
  shows "let r = DesugarRulesSource source limits; bs = source_bytes source;
             rules = NumberRewrites (scan_candidates (AnalyzeRulesSource source limits));
             out = parser_input r source in
    out = desugared bs 0 rules \<and> map recorded_origin (redirects r) = map origin_of rules \<and>
    (\<forall>g \<in> set (redirects r).
       slice out (generated_source g) = slice bs (original_source g) \<and>
       slice out (generated_target g) = slice bs (original_target g) \<and>
       MapGeneratedSpan (rewrite_map r) (generated_source g) = Some (original_source g) \<and>
       MapGeneratedSpan (rewrite_map r) (generated_target g) = Some (original_target g))"
proof -
  let ?r = "DesugarRulesSource source limits" and ?bs = "source_bytes source"
  let ?rules = "NumberRewrites (scan_candidates (AnalyzeRulesSource source limits))"
  have r: "EmitDesugaredSource source ?rules limits = ?r"
    using assms by (auto simp: DesugarRulesSource_def desugar_ok_def Let_def)
  show ?thesis
  proof (cases "?rules = []")
    case True
    hence "?r = \<lparr>generated_storage = None, rewrite_map = RewriteMap_Identity (length ?bs), redirects = [], ds_diagnostics = []\<rparr>"
      unfolding r [symmetric] by (simp add: EmitDesugaredSource_def Let_def)
    with True show ?thesis by (simp add: Let_def parser_input_def)
  next
    case False
    obtain em where em: "generated_storage ?r = Some (fst em)" "fst em = desugared ?bs 0 ?rules"
      "rewrite_map ?r = emitted_map ?bs em" "segments_ok ?bs em" "list_all (redirect_ok ?bs em) (redirects ?r)"
      "map recorded_origin (redirects ?r) = map origin_of ?rules"
      by (rule EmitDesugaredSource_success [OF r assms False])
    have out: "parser_input ?r source = fst em" by (simp add: parser_input_def em(1))
    have copy: "slice (fst em) generated = slice ?bs original \<and>
        MapGeneratedSpan (emitted_map ?bs em) generated = Some original" if "has_copy em generated original"
      for generated original
      using MapGeneratedSpan_copy [OF em(4) that] em(4) that by (fastforce simp: segments_ok_def has_copy_def)
    have "slice (fst em) (generated_source g) = slice ?bs (original_source g) \<and>
       slice (fst em) (generated_target g) = slice ?bs (original_target g) \<and>
       MapGeneratedSpan (rewrite_map ?r) (generated_source g) = Some (original_source g) \<and>
       MapGeneratedSpan (rewrite_map ?r) (generated_target g) = Some (original_target g)"
      if "g \<in> set (redirects ?r)" for g
      using em(5) that copy by (auto simp: list_all_iff redirect_ok_def em(3))
    with em(2,6) show ?thesis unfolding Let_def out by blast
  qed
qed

definition sample_source :: SourceBuffer where
  "sample_source = \<lparr>file_name = ''rules.toml'',
     source_bytes = ''format = 1'' @ [newline] @ ''r = ['' @ quoted ''a'' @ '' -> '' @ quoted ''b'' @ '']'' @ [newline]\<rparr>"

lemma sample_source_ok: "desugar_ok (DesugarRulesSource sample_source default_limits)"
  by code_simp

theorem desugar_rewrites_arrows_witness:
  "parser_input (DesugarRulesSource sample_source default_limits) sample_source =
     ''format = 1'' @ [newline] @ ''r = [{ from = '' @ quoted ''a'' @ '', to = '' @ quoted ''b'' @ '' }]'' @ [newline]"
proof -
  have "desugared (source_bytes sample_source) 0
      (NumberRewrites (scan_candidates (AnalyzeRulesSource sample_source default_limits))) =
     ''format = 1'' @ [newline] @ ''r = [{ from = '' @ quoted ''a'' @ '', to = '' @ quoted ''b'' @ '' }]'' @ [newline]"
    by code_simp
  with desugar_rewrites_arrows [OF sample_source_ok] show ?thesis unfolding Let_def by simp
qed

text \<open>
  Claim C35.  The desugarer never runs into its internal consistency errors on what the scanner found:
  as long as the segment limit leaves room for six segments per rewrite and one more (as the default
  limits do, exactly), every diagnostic it adds after a clean scan is a resource limit.
\<close>

theorem desugar_no_internal_error:
  assumes "6 * max_rewrites limits < max_rewrite_segments limits"
  shows "parser_allowed (ScanArrowCandidates source limits) \<and> probe_ok (ProbeRulesFormat source) \<longrightarrow>
    list_all (\<lambda>d. diag_code d = kResourceLimit) (ds_diagnostics (DesugarRulesSource source limits))"
proof
  assume "parser_allowed (ScanArrowCandidates source limits) \<and> probe_ok (ProbeRulesFormat source)"
  hence d: "DesugarRulesSource source limits =
      EmitDesugaredSource source (NumberRewrites (scan_candidates (ScanArrowCandidates source limits))) limits"
    by (simp add: DesugarRulesSource_def AnalyzeRulesSource_def parser_allowed_def Let_def)
  obtain offset st where run: "ScanLoop limits (source_bytes source) 0 Scanner_new = (offset, st)" by fastforce
  note inv = scan_run [OF run]
  let ?cs = "scan_candidates (ScanArrowCandidates source limits)"
  have "list_all (candidate_ok (source_bytes source)) ?cs"
    "sorted_wrt (\<lambda>a b. span_end (cand_rule a) \<le> span_begin (cand_rule b)) ?cs" "length ?cs \<le> max_rewrites limits"
    using FinishAtEof_candidates [OF inv(2), of limits] bounded_finish [OF inv(1)]
    by (auto simp: ScanArrowCandidates_def run Let_def scan_bounded_def)
  with assms EmitDesugaredSource_no_internal [OF scanned_rewrites_valid, of source ?cs limits]
  show "list_all (\<lambda>d. diag_code d = kResourceLimit) (ds_diagnostics (DesugarRulesSource source limits))"
    by (simp add: d resource_failure_def)
qed

theorem desugar_no_internal_error_witness:
  "6 * max_rewrites default_limits < max_rewrite_segments default_limits \<and>
   list_all (\<lambda>d. diag_code d = kResourceLimit) (ds_diagnostics (DesugarRulesSource sample_source default_limits))"
proof -
  have "6 * max_rewrites default_limits < max_rewrite_segments default_limits"
    "parser_allowed (ScanArrowCandidates sample_source default_limits) \<and> probe_ok (ProbeRulesFormat sample_source)"
    by code_simp+
  with desugar_no_internal_error [OF this(1), of sample_source] show ?thesis by blast
qed

text \<open>
  Every byte of the generated text has a position in the source: a copied byte is mapped to
  the position of the same byte in the source, a synthetic byte to the rule or arrow it stands for.
\<close>

theorem generated_bytes_traceable:
  assumes "desugar_ok (EmitDesugaredSource source rewrites limits)" "rewrites \<noteq> []"
    "offset < length (parser_input (EmitDesugaredSource source rewrites limits) source)"
  shows "let r = EmitDesugaredSource source rewrites limits; bs = source_bytes source in
    \<exists>sp. MapGeneratedPosition (rewrite_map r) offset = Some sp \<and> span_begin sp \<le> span_end sp \<and> span_end sp \<le> length bs \<and>
      ((span_begin sp = span_end sp \<and> span_begin sp < length bs \<and> bs ! span_begin sp = parser_input r source ! offset) \<or>
       (\<exists>s \<in> set (map_segments (rewrite_map r)). seg_kind s \<noteq> Copied \<and> seg_original s = sp))"
proof -
  let ?r = "EmitDesugaredSource source rewrites limits" and ?bs = "source_bytes source"
  obtain em where em: "generated_storage ?r = Some (fst em)" "rewrite_map ?r = emitted_map ?bs em" "segments_ok ?bs em"
    by (rule EmitDesugaredSource_success [OF refl assms(1,2)])
  have out: "parser_input ?r source = fst em" by (simp add: parser_input_def em(1))
  obtain s where s: "s \<in> set (snd em)" "span_begin (seg_generated s) \<le> offset" "offset < span_end (seg_generated s)"
    and m: "MapGeneratedPosition (emitted_map ?bs em) offset =
       (if seg_kind s = Copied
        then let mapped = span_begin (seg_original s) + (offset - span_begin (seg_generated s)) in Some (Span mapped mapped)
        else Some (seg_original s))"
    by (rule MapGeneratedPosition_found [OF em(3) assms(3) [unfolded out]])
  from em(3) have b: "span_end (seg_generated s) \<le> length (fst em)" "span_begin (seg_original s) \<le> span_end (seg_original s)"
    "span_end (seg_original s) \<le> length ?bs"
    "seg_kind s = Copied \<Longrightarrow> span_size (seg_generated s) = span_size (seg_original s)"
    "seg_kind s = Copied \<Longrightarrow> slice (fst em) (seg_generated s) = slice ?bs (seg_original s)"
    using CheckSegments_bounds [of "length (fst em)" "length ?bs" 0 "snd em"] s(1) by (auto simp: segments_ok_def)
  show ?thesis
  proof (cases "seg_kind s = Copied")
    case True
    let ?m = "span_begin (seg_original s) + (offset - span_begin (seg_generated s))"
    have "?m < length ?bs" using b(2,3) b(4) [OF True] s(2,3) by (simp add: span_size_def)
    moreover have "?bs ! ?m = fst em ! offset"
      using slice_nth [OF b(5) [OF True] s(2,3) b(1,3) b(4) [OF True]] by simp
    ultimately show ?thesis using m True by (simp add: out em(2) Let_def)
  next
    case False
    with m s(1) b(2,3) show ?thesis by (auto simp: out em(2) emitted_map_def Let_def)
  qed
qed

definition sample_rewrites :: "ArrowRewrite list" where
  "sample_rewrites = [\<lparr>rw_id = 1, rw_rule = Span 16 26, rw_source = Span 16 19, rw_arrow = Span 20 22, rw_target = Span 23 26\<rparr>]"

theorem generated_bytes_traceable_witness:
  "\<exists>sp. MapGeneratedPosition (rewrite_map (EmitDesugaredSource sample_source sample_rewrites default_limits)) 17 = Some sp \<and>
     span_end sp \<le> length (source_bytes sample_source)"
proof -
  have "desugar_ok (EmitDesugaredSource sample_source sample_rewrites default_limits)" "sample_rewrites \<noteq> []"
    "17 < length (parser_input (EmitDesugaredSource sample_source sample_rewrites default_limits) sample_source)"
    by code_simp+
  from generated_bytes_traceable [OF this] show ?thesis by (auto simp: Let_def)
qed

end
