(* ===== verification/PG_Policy.thy ===== *)
theory PG_Policy
  imports PG_Path
begin

text \<open>
  The policy data model, \<open>core/include/pathguard/policy.h\<close>, and the validation and
  canonicalisation of one application's policy, \<open>core/src/validation.cpp\<close>.

  \<open>ValidatePolicy\<close> rewrites its argument in place and reports through an out parameter; here it
  returns \<open>Inr\<close> of the rewritten policy or \<open>Inl\<close> of the reported error.  The reported error is
  optional because the first test of the function returns without writing it.  The loops over
  the rules are recursions that carry the loop's local state (the isolate rule seen so far, the
  set of visible paths, the set of event keys).
\<close>

subsection \<open>Data\<close>

datatype FailureMode = FailureOpen | FailureClosed

datatype MountAction = MountDeny | MountRedirect | MountRestore | MountIsolateRoot

datatype EventAction = EventObserve | EventExport

datatype MediaCompat = MediaOff | MediaHideDenied

datatype ProviderCompat = ProviderOff | ProviderVirtualize

definition kEventModeTrash :: u32 where "kEventModeTrash = 2"
definition kEventModeMask :: u32 where "kEventModeMask = 3"
definition kEventMediaScan :: u32 where "kEventMediaScan = push_bit 2 1"

record LogicalMountRule =
  mount_action :: MountAction
  visible_path :: string
  backing_path :: string
  mount_depth :: u16
  mount_flags :: u16
  mount_line :: nat

record EventRule =
  event_action :: EventAction
  source_path :: string
  target_path :: string
  event_options :: u32
  event_line :: nat

record AppPolicy =
  package :: string
  media_compat :: MediaCompat
  provider_compat :: ProviderCompat
  users :: "string list"
  processes :: "string list"
  mounts :: "LogicalMountRule list"
  events :: "EventRule list"

record PolicyDocument =
  schema :: int
  failure_mode :: FailureMode
  allow_legacy_string_bind :: bool
  apps :: "AppPolicy list"

record ParseError =
  error_line :: nat
  error_message :: string

subsection \<open>Numeric values of the enumerations\<close>

definition FailureMode_code :: "FailureMode \<Rightarrow> u8" where
  "FailureMode_code m = (case m of FailureOpen \<Rightarrow> 0 | FailureClosed \<Rightarrow> 1)"

definition MountAction_code :: "MountAction \<Rightarrow> u8" where
  "MountAction_code a =
     (case a of MountDeny \<Rightarrow> 0 | MountRedirect \<Rightarrow> 1 | MountRestore \<Rightarrow> 2 | MountIsolateRoot \<Rightarrow> 3)"

definition EventAction_code :: "EventAction \<Rightarrow> u8" where
  "EventAction_code a = (case a of EventObserve \<Rightarrow> 0 | EventExport \<Rightarrow> 1)"

definition MediaCompat_code :: "MediaCompat \<Rightarrow> u8" where
  "MediaCompat_code m = (case m of MediaOff \<Rightarrow> 0 | MediaHideDenied \<Rightarrow> 1)"

definition ProviderCompat_code :: "ProviderCompat \<Rightarrow> u8" where
  "ProviderCompat_code p = (case p of ProviderOff \<Rightarrow> 0 | ProviderVirtualize \<Rightarrow> 1)"

text \<open>Enumerations compare by their values.\<close>

instantiation EventAction :: linorder
begin

definition less_eq_EventAction :: "EventAction \<Rightarrow> EventAction \<Rightarrow> bool" where
  "less_eq_EventAction a b \<longleftrightarrow> a = EventObserve \<or> b = EventExport"

definition less_EventAction :: "EventAction \<Rightarrow> EventAction \<Rightarrow> bool" where
  "less_EventAction a b \<longleftrightarrow> a = EventObserve \<and> b = EventExport"

instance
  by standard (auto simp: less_eq_EventAction_def less_EventAction_def
      intro: EventAction.exhaust)

end

lemma less_eq_EventAction_code: "a \<le> b \<longleftrightarrow> EventAction_code a \<le> EventAction_code b"
  by (cases a; cases b) (simp_all add: less_eq_EventAction_def EventAction_code_def)

subsection \<open>Helpers of the validation\<close>

definition ContainsPlaceholder :: "string \<Rightarrow> bool" where
  "ContainsPlaceholder path \<longleftrightarrow>
     find_char CHR ''{'' path \<noteq> None \<or> find_char CHR ''}'' path \<noteq> None"

definition NormalizeBacking :: "string \<Rightarrow> string \<Rightarrow> string option" where
  "NormalizeBacking input pkg =
     do { expanded \<leftarrow> ExpandPathPlaceholders input pkg; NormalizeLogicalPath expanded }"

definition NormalizeVisible :: "string \<Rightarrow> string option" where
  "NormalizeVisible input =
     (if ContainsPlaceholder input then None else NormalizeLogicalPath input)"

text \<open>An Android user number: the whole string must be an unsigned decimal.  The comparison of
  \<open>std::sort\<close> reads the same number, 0 where the conversion fails.\<close>

definition IsUserNumber :: "string \<Rightarrow> bool" where
  "IsUserNumber user = (case from_chars 32 user of Some (_, []) \<Rightarrow> True | _ \<Rightarrow> False)"

definition UserValue :: "string \<Rightarrow> nat" where
  "UserValue user = (case from_chars 32 user of Some (v, _) \<Rightarrow> v | None \<Rightarrow> 0)"

definition NormalizeUsers :: "string list \<Rightarrow> string list option" where
  "NormalizeUsers us =
     (if length us = 1 \<and> hd us = ''*'' then Some us
      else if \<not> list_all IsUserNumber us then None
      else Some (sort_key UserValue us))"

definition MountStage :: "MountAction \<Rightarrow> int" where
  "MountStage a =
     (case a of MountIsolateRoot \<Rightarrow> 0 | MountRestore \<Rightarrow> 1 | MountRedirect \<Rightarrow> 2 | MountDeny \<Rightarrow> 3)"

definition SetError :: "nat \<Rightarrow> string \<Rightarrow> ParseError option + 'a" where
  "SetError line message = Inl (Some \<lparr>error_line = line, error_message = message\<rparr>)"

subsection \<open>The mount rules\<close>

text \<open>The depth counter is a 16-bit increment per slash.\<close>

definition PathDepth16 :: "string \<Rightarrow> u16" where
  "PathDepth16 path = foldl (\<lambda>d c. if c = CHR ''/'' then d + 1 else d) 1 path"

text \<open>The body of the first loop: the isolate rule so far and the visible paths seen.\<close>

record MountLoopState =
  isolate :: "LogicalMountRule option"
  visible_sources :: "string set"

definition ValidateMountStep ::
  "string \<Rightarrow> MountLoopState \<Rightarrow> LogicalMountRule \<Rightarrow>
   ParseError option + (MountLoopState \<times> LogicalMountRule)" where
  "ValidateMountStep pkg st rule =
     (if mount_action rule = MountIsolateRoot then
        if isolate st \<noteq> None then SetError (mount_line rule) ''multiple isolate rules''
        else case NormalizeBacking (backing_path rule) pkg of
               None \<Rightarrow> SetError (mount_line rule) ''invalid isolate backing path''
             | Some normalized_backing \<Rightarrow>
                 let rule' = rule\<lparr>visible_path := [], backing_path := normalized_backing,
                                  mount_depth := 0\<rparr>
                 in Inr (st\<lparr>isolate := Some rule'\<rparr>, rule')
      else case NormalizeVisible (visible_path rule) of
             None \<Rightarrow> SetError (mount_line rule) ''invalid visible path''
           | Some normalized_visible \<Rightarrow>
               let rule1 = rule\<lparr>visible_path := normalized_visible,
                                mount_depth := PathDepth16 normalized_visible\<rparr> in
               if normalized_visible \<in> visible_sources st
               then SetError (mount_line rule) ''conflicting synchronous action''
               else let st' = st\<lparr>visible_sources :=
                                   insert normalized_visible (visible_sources st)\<rparr> in
                 (case mount_action rule of
                    MountRedirect \<Rightarrow>
                      (case NormalizeBacking (backing_path rule) pkg of
                         None \<Rightarrow> SetError (mount_line rule) ''invalid redirect backing path''
                       | Some normalized_backing \<Rightarrow>
                           Inr (st', rule1\<lparr>backing_path := normalized_backing\<rparr>))
                  | MountRestore \<Rightarrow> Inr (st', rule1\<lparr>backing_path := normalized_visible\<rparr>)
                  | _ \<Rightarrow> Inr (st', rule1\<lparr>backing_path := []\<rparr>)))"

fun ValidateMounts ::
  "string \<Rightarrow> MountLoopState \<Rightarrow> LogicalMountRule list \<Rightarrow>
   ParseError option + (MountLoopState \<times> LogicalMountRule list)" where
  "ValidateMounts pkg st [] = Inr (st, [])"
| "ValidateMounts pkg st (rule # rules) =
     (case ValidateMountStep pkg st rule of
        Inl e \<Rightarrow> Inl e
      | Inr (st', rule') \<Rightarrow>
          (case ValidateMounts pkg st' rules of
             Inl e \<Rightarrow> Inl e
           | Inr (st'', rules') \<Rightarrow> Inr (st'', rule' # rules')))"

text \<open>The second loop: restore needs an isolate rule, and no visible path may overlap the isolate
  backing path.\<close>

fun CheckIsolate ::
  "LogicalMountRule option \<Rightarrow> LogicalMountRule list \<Rightarrow> ParseError option + unit" where
  "CheckIsolate isol [] = Inr ()"
| "CheckIsolate isol (rule # rules) =
     (if mount_action rule = MountRestore \<and> isol = None
      then SetError (mount_line rule) ''allow requires isolate''
      else if (case isol of
                 None \<Rightarrow> False
               | Some i \<Rightarrow> mount_action rule \<noteq> MountIsolateRoot \<and>
                   (IsPathOrDescendant (visible_path rule) (backing_path i) \<or>
                    IsPathOrDescendant (backing_path i) (visible_path rule)))
      then SetError (mount_line rule) ''visible path conflicts with isolate backing path''
      else CheckIsolate isol rules)"

definition CheckProvider ::
  "ProviderCompat \<Rightarrow> string list \<Rightarrow> LogicalMountRule list \<Rightarrow> ParseError option + unit" where
  "CheckProvider provider us rules =
     (if provider = ProviderVirtualize then
        if length us = 1 \<and> hd us = ''*''
        then SetError 0 ''provider virtualization requires explicit users''
        else if \<not> list_ex (\<lambda>r. mount_action r = MountRedirect) rules
        then SetError 0 ''provider virtualization requires redirect rules''
        else Inr ()
      else Inr ())"

subsection \<open>The event rules\<close>

text \<open>The key of an event rule is the byte string of its action, source, a NUL, target and the four
  option bytes in memory order.\<close>

definition OptionBytes :: "u32 \<Rightarrow> string" where
  "OptionBytes v = map (\<lambda>i. char_of (unat (drop_bit (8 * i) v) mod 256)) [0..<4]"

definition EventKey :: "EventRule \<Rightarrow> string" where
  "EventKey rule =
     [char_of (unat (EventAction_code (event_action rule)))] @ source_path rule @ [CHR 0x00] @
     target_path rule @ OptionBytes (event_options rule)"

definition InvalidExportOptions :: "u32 \<Rightarrow> bool" where
  "InvalidExportOptions opts \<longleftrightarrow>
     and opts kEventModeMask > kEventModeTrash \<or>
     and opts (not (or kEventModeMask kEventMediaScan)) \<noteq> 0"

definition ValidateEventStep ::
  "string \<Rightarrow> string set \<Rightarrow> EventRule \<Rightarrow> ParseError option + (string set \<times> EventRule)" where
  "ValidateEventStep pkg keys rule =
     (case NormalizeVisible (source_path rule) of
        None \<Rightarrow> SetError (event_line rule) ''invalid event source path''
      | Some normalized_source \<Rightarrow>
          let rule1 = rule\<lparr>source_path := normalized_source\<rparr>;
              finish = (\<lambda>r. if EventKey r \<in> keys
                            then SetError (event_line rule) ''duplicate event rule''
                            else Inr (insert (EventKey r) keys, r)) in
          (case event_action rule of
             EventExport \<Rightarrow>
               (case NormalizeBacking (target_path rule) pkg of
                  None \<Rightarrow> SetError (event_line rule) ''invalid export target path''
                | Some normalized_target \<Rightarrow>
                    if IsPathOrDescendant normalized_target normalized_source
                    then SetError (event_line rule) ''invalid export target path''
                    else if InvalidExportOptions (event_options rule)
                    then SetError (event_line rule) ''invalid export options''
                    else finish (rule1\<lparr>target_path := normalized_target\<rparr>))
           | EventObserve \<Rightarrow> finish (rule1\<lparr>target_path := [], event_options := 0\<rparr>)))"

fun ValidateEvents ::
  "string \<Rightarrow> string set \<Rightarrow> EventRule list \<Rightarrow> ParseError option + EventRule list" where
  "ValidateEvents pkg keys [] = Inr []"
| "ValidateEvents pkg keys (rule # rules) =
     (case ValidateEventStep pkg keys rule of
        Inl e \<Rightarrow> Inl e
      | Inr (keys', rule') \<Rightarrow>
          (case ValidateEvents pkg keys' rules of
             Inl e \<Rightarrow> Inl e
           | Inr rules' \<Rightarrow> Inr (rule' # rules')))"

subsection \<open>The whole validation\<close>

definition MountKey :: "LogicalMountRule \<Rightarrow> int \<times> u16 \<times> string \<times> string \<times> u16" where
  "MountKey r = (MountStage (mount_action r), mount_depth r, visible_path r, backing_path r,
                 mount_flags r)"

definition EventSortKey :: "EventRule \<Rightarrow> EventAction \<times> string \<times> string \<times> u32" where
  "EventSortKey r = (event_action r, source_path r, target_path r, event_options r)"

definition ValidatePolicy :: "AppPolicy \<Rightarrow> ParseError option + AppPolicy" where
  "ValidatePolicy policy =
     (if package policy = [] then Inl None
      else case NormalizeUsers (users policy) of
        None \<Rightarrow> SetError 0 ''invalid Android user list''
      | Some us \<Rightarrow>
        (case ValidateMounts (package policy) \<lparr>isolate = None, visible_sources = {}\<rparr>
                (mounts policy) of
           Inl e \<Rightarrow> Inl e
         | Inr (st, ms) \<Rightarrow>
           (case CheckIsolate (isolate st) ms of
              Inl e \<Rightarrow> Inl e
            | Inr _ \<Rightarrow>
              (case CheckProvider (provider_compat policy) us ms of
                 Inl e \<Rightarrow> Inl e
               | Inr _ \<Rightarrow>
                 (case ValidateEvents (package policy) {} (events policy) of
                    Inl e \<Rightarrow> Inl e
                  | Inr es \<Rightarrow>
                      Inr (policy\<lparr>users := us, processes := sort (processes policy),
                                  mounts := sort_key MountKey ms,
                                  events := sort_key EventSortKey es\<rparr>))))))"

subsection \<open>Canonical mount rules\<close>

text \<open>What the first loop leaves behind: every rule is in a normal form of its action, visible paths
  are distinct, and there is at most one isolate rule.\<close>

definition canonical_backing :: "string \<Rightarrow> string \<Rightarrow> bool" where
  "canonical_backing pkg s \<longleftrightarrow> PackageAllowed pkg \<and> user_only s \<and> is_logical_path s"

definition canonical_visible :: "string \<Rightarrow> bool" where
  "canonical_visible s \<longleftrightarrow> is_logical_path s \<and> CHR ''{'' \<notin> set s \<and> CHR ''}'' \<notin> set s"

definition is_isolate :: "LogicalMountRule \<Rightarrow> bool" where
  "is_isolate r \<longleftrightarrow> mount_action r = MountIsolateRoot"

definition canonical_mount :: "string \<Rightarrow> LogicalMountRule \<Rightarrow> bool" where
  "canonical_mount pkg r \<longleftrightarrow>
     (if is_isolate r then visible_path r = [] \<and> mount_depth r = 0 \<and>
        canonical_backing pkg (backing_path r)
      else canonical_visible (visible_path r) \<and> mount_depth r = PathDepth16 (visible_path r) \<and>
        (case mount_action r of
           MountRedirect \<Rightarrow> canonical_backing pkg (backing_path r)
         | MountRestore \<Rightarrow> backing_path r = visible_path r
         | _ \<Rightarrow> backing_path r = []))"

lemma NormalizeBacking_Some: "NormalizeBacking s pkg = Some t \<Longrightarrow> canonical_backing pkg t"
  by (auto simp: NormalizeBacking_def canonical_backing_def NormalizeLogicalPath_eq bind_eq_Some_conv
      dest: ExpandPathPlaceholders_Some split: if_splits)

lemma NormalizeBacking_canonical: "canonical_backing pkg s \<Longrightarrow> NormalizeBacking s pkg = Some s"
  by (simp add: NormalizeBacking_def canonical_backing_def ExpandPathPlaceholders_user_only
      NormalizeLogicalPath_eq)

lemma NormalizeVisible_eq: "NormalizeVisible s = (if canonical_visible s then Some s else None)"
  by (auto simp: NormalizeVisible_def ContainsPlaceholder_def canonical_visible_def
      NormalizeLogicalPath_eq)

definition mount_fits :: "MountLoopState \<Rightarrow> LogicalMountRule \<Rightarrow> bool" where
  "mount_fits st r \<longleftrightarrow>
     (if is_isolate r then isolate st = None else visible_path r \<notin> visible_sources st)"

definition mount_push :: "MountLoopState \<Rightarrow> LogicalMountRule \<Rightarrow> MountLoopState" where
  "mount_push st r =
     (if is_isolate r then st\<lparr>isolate := Some r\<rparr>
      else st\<lparr>visible_sources := insert (visible_path r) (visible_sources st)\<rparr>)"

lemmas mount_step_defs =
  ValidateMountStep_def canonical_mount_def mount_fits_def mount_push_def is_isolate_def
  SetError_def Let_def NormalizeVisible_eq

lemma ValidateMountStep_sound:
  assumes "ValidateMountStep pkg st rule = Inr (st', r)"
  shows "canonical_mount pkg r" "mount_fits st r" "st' = mount_push st r"
    "mount_action r = mount_action rule" "mount_line r = mount_line rule"
    "mount_flags r = mount_flags rule"
  using assms
  by (cases "mount_action rule";
      auto simp: mount_step_defs dest: NormalizeBacking_Some split: if_splits option.splits)+

lemma ValidateMountStep_canonical:
  assumes "canonical_mount pkg r" "mount_fits st r"
  shows "ValidateMountStep pkg st r = Inr (mount_push st r, r)"
  using assms
  by (cases "mount_action r")
    (auto simp: mount_step_defs NormalizeBacking_canonical)

fun mounts_fit :: "MountLoopState \<Rightarrow> LogicalMountRule list \<Rightarrow> bool" where
  "mounts_fit st [] = True"
| "mounts_fit st (r # rs) = (mount_fits st r \<and> mounts_fit (mount_push st r) rs)"

lemma ValidateMounts_sound:
  "ValidateMounts pkg st rules = Inr (st', rs) \<Longrightarrow>
   list_all (canonical_mount pkg) rs \<and> mounts_fit st rs \<and> st' = foldl mount_push st rs \<and>
   map mount_action rs = map mount_action rules"
proof (induction rules arbitrary: st rs st')
  case (Cons rule rules)
  then obtain st1 r rs' where "ValidateMountStep pkg st rule = Inr (st1, r)"
    "ValidateMounts pkg st1 rules = Inr (st', rs')" "rs = r # rs'"
    by (auto split: sum.splits prod.splits)
  thus ?case using Cons.IH ValidateMountStep_sound by fastforce
qed simp

lemma ValidateMounts_canonical:
  "list_all (canonical_mount pkg) rs \<Longrightarrow> mounts_fit st rs \<Longrightarrow>
   ValidateMounts pkg st rs = Inr (foldl mount_push st rs, rs)"
  by (induction rs arbitrary: st) (auto simp: ValidateMountStep_canonical)

abbreviation visible_of :: "LogicalMountRule list \<Rightarrow> string list" where
  "visible_of rs \<equiv> map visible_path (filter (\<lambda>r. \<not> is_isolate r) rs)"

abbreviation isolates_of :: "LogicalMountRule list \<Rightarrow> LogicalMountRule list" where
  "isolates_of rs \<equiv> filter is_isolate rs"

lemma mounts_fit_iff:
  "mounts_fit st rs \<longleftrightarrow>
     distinct (visible_of rs) \<and> set (visible_of rs) \<inter> visible_sources st = {} \<and>
     length (isolates_of rs) \<le> (if isolate st = None then 1 else 0)"
proof (induction rs arbitrary: st)
  case (Cons r rs)
  show ?case
    by (cases "is_isolate r") (auto simp: Cons.IH mount_fits_def mount_push_def)
qed simp

lemma isolate_mount_push [simp]:
  "isolate (mount_push st r) = (if is_isolate r then Some r else isolate st)"
  by (simp add: mount_push_def)

lemma foldl_mount_push_isolate:
  "isolate (foldl mount_push st rs) =
     (case rev (isolates_of rs) of [] \<Rightarrow> isolate st | r # _ \<Rightarrow> Some r)"
proof (induction rs arbitrary: st)
  case (Cons r rs)
  show ?case
    by (cases "rev (isolates_of rs)") (auto simp: Cons.IH)
qed simp

text \<open>The list-level contract: these three conditions do not depend on the order of the rules.\<close>

definition canonical_mounts :: "string \<Rightarrow> LogicalMountRule list \<Rightarrow> bool" where
  "canonical_mounts pkg rs \<longleftrightarrow>
     list_all (canonical_mount pkg) rs \<and> distinct (visible_of rs) \<and> length (isolates_of rs) \<le> 1"

definition isolate_rule :: "LogicalMountRule list \<Rightarrow> LogicalMountRule option" where
  "isolate_rule rs = (case isolates_of rs of [] \<Rightarrow> None | r # _ \<Rightarrow> Some r)"

abbreviation mount_init :: MountLoopState where
  "mount_init \<equiv> \<lparr>isolate = None, visible_sources = {}\<rparr>"

lemma ValidateMounts_init_sound:
  assumes "ValidateMounts pkg mount_init rules = Inr (st, rs)"
  shows "canonical_mounts pkg rs" "isolate st = isolate_rule rs"
proof -
  from ValidateMounts_sound [OF assms] show c: "canonical_mounts pkg rs"
    by (auto simp: canonical_mounts_def mounts_fit_iff)
  hence "rev (isolates_of rs) = isolates_of rs"
    by (cases "isolates_of rs") (auto simp: canonical_mounts_def)
  with ValidateMounts_sound [OF assms] show "isolate st = isolate_rule rs"
    by (auto simp: foldl_mount_push_isolate isolate_rule_def split: list.splits)
qed

lemma ValidateMounts_init_canonical:
  assumes "canonical_mounts pkg rs"
  shows "\<exists>st. ValidateMounts pkg mount_init rs = Inr (st, rs) \<and> isolate st = isolate_rule rs"
proof -
  have "ValidateMounts pkg mount_init rs = Inr (foldl mount_push mount_init rs, rs)"
    using assms by (intro ValidateMounts_canonical) (auto simp: canonical_mounts_def mounts_fit_iff)
  thus ?thesis using ValidateMounts_init_sound(2) by blast
qed

lemma canonical_mounts_perm:
  assumes "mset rs = mset ss"
  shows "canonical_mounts pkg rs = canonical_mounts pkg ss"
proof -
  have "set rs = set ss" using assms by (metis set_mset_mset)
  moreover have "mset (visible_of rs) = mset (visible_of ss)" using assms by simp
  hence "distinct (visible_of rs) = distinct (visible_of ss)" by (rule mset_eq_imp_distinct_iff)
  moreover have "length (isolates_of rs) = length (isolates_of ss)"
    using assms by (metis mset_filter size_mset)
  ultimately show ?thesis by (simp add: canonical_mounts_def list_all_iff)
qed

lemma isolate_rule_perm:
  assumes "mset rs = mset ss" "canonical_mounts pkg rs"
  shows "isolate_rule rs = isolate_rule ss"
proof -
  have m: "mset (isolates_of rs) = mset (isolates_of ss)" using assms(1) by simp
  have "isolates_of rs = isolates_of ss"
  proof (cases "isolates_of rs")
    case Nil
    with m show ?thesis by simp
  next
    case (Cons r rs')
    with assms(2) have "isolates_of rs = [r]" by (simp add: canonical_mounts_def)
    with m show ?thesis by (metis mset_single_iff_right)
  qed
  thus ?thesis by (simp add: isolate_rule_def)
qed

text \<open>Canonical rules have distinct sort keys, so every sorting algorithm gives the same table.\<close>

lemma canonical_mounts_key_distinct:
  "canonical_mounts pkg rs \<Longrightarrow> distinct (map MountKey rs)"
proof (induction rs)
  case (Cons r rs)
  have sub: "canonical_mounts pkg rs"
    using Cons.prems by (auto simp: canonical_mounts_def split: if_splits)
  have "MountKey r \<notin> MountKey ` set rs"
  proof
    assume "MountKey r \<in> MountKey ` set rs"
    then obtain q where q: "q \<in> set rs" and key: "MountKey q = MountKey r" by auto
    from key have v: "visible_path q = visible_path r" and "is_isolate q = is_isolate r"
      by (auto simp: MountKey_def MountStage_def is_isolate_def split: MountAction.splits)
    moreover from Cons.prems have "is_isolate r \<Longrightarrow> isolates_of rs = []"
      and "\<not> is_isolate r \<Longrightarrow> visible_path r \<notin> set (visible_of rs)"
      by (auto simp: canonical_mounts_def)
    moreover from q have "\<not> is_isolate q \<Longrightarrow> visible_path q \<in> set (visible_of rs)"
      and "is_isolate q \<Longrightarrow> isolates_of rs \<noteq> []"
      by (auto simp: filter_empty_conv)
    ultimately show False by (cases "is_isolate r") simp_all
  qed
  with sub Cons.IH show ?case by simp
qed simp

lemma CheckIsolate_iff:
  "CheckIsolate isol rs = Inr () \<longleftrightarrow>
     (\<forall>r \<in> set rs. \<not> (mount_action r = MountRestore \<and> isol = None) \<and>
        (\<forall>i. isol = Some i \<longrightarrow> \<not> is_isolate r \<longrightarrow>
           \<not> IsPathOrDescendant (visible_path r) (backing_path i) \<and>
           \<not> IsPathOrDescendant (backing_path i) (visible_path r)))"
  by (induction rs) (auto simp: SetError_def is_isolate_def split: option.splits)

lemma CheckIsolate_perm:
  "set rs = set ss \<Longrightarrow> CheckIsolate isol rs = Inr () \<longleftrightarrow> CheckIsolate isol ss = Inr ()"
  by (simp add: CheckIsolate_iff)

lemma CheckProvider_iff:
  "CheckProvider provider us rs = Inr () \<longleftrightarrow>
     (provider = ProviderVirtualize \<longrightarrow>
        us \<noteq> [''*''] \<and> (\<exists>r \<in> set rs. mount_action r = MountRedirect))"
  by (cases us) (auto simp: CheckProvider_def SetError_def list_ex_iff)

subsection \<open>Canonical event rules\<close>

definition canonical_event :: "string \<Rightarrow> EventRule \<Rightarrow> bool" where
  "canonical_event pkg r \<longleftrightarrow>
     canonical_visible (source_path r) \<and>
     (case event_action r of
        EventExport \<Rightarrow> canonical_backing pkg (target_path r) \<and>
          \<not> IsPathOrDescendant (target_path r) (source_path r) \<and>
          \<not> InvalidExportOptions (event_options r)
      | EventObserve \<Rightarrow> target_path r = [] \<and> event_options r = 0)"

lemma ValidateEventStep_sound:
  assumes "ValidateEventStep pkg keys rule = Inr (keys', r)"
  shows "canonical_event pkg r" "EventKey r \<notin> keys" "keys' = insert (EventKey r) keys"
  using assms
  by (cases "event_action rule";
      auto simp: ValidateEventStep_def canonical_event_def SetError_def Let_def NormalizeVisible_eq
        dest: NormalizeBacking_Some split: if_splits option.splits)+

lemma ValidateEventStep_canonical:
  assumes "canonical_event pkg r" "EventKey r \<notin> keys"
  shows "ValidateEventStep pkg keys r = Inr (insert (EventKey r) keys, r)"
  using assms
  by (cases r; cases "event_action r")
    (auto simp: ValidateEventStep_def canonical_event_def Let_def NormalizeVisible_eq
      NormalizeBacking_canonical)

lemma ValidateEvents_sound:
  "ValidateEvents pkg keys rules = Inr rs \<Longrightarrow>
   list_all (canonical_event pkg) rs \<and> distinct (map EventKey rs) \<and>
   EventKey ` set rs \<inter> keys = {} \<and> length rs = length rules"
proof (induction rules arbitrary: keys rs)
  case (Cons rule rules)
  then obtain keys1 r rs' where "ValidateEventStep pkg keys rule = Inr (keys1, r)"
    "ValidateEvents pkg keys1 rules = Inr rs'" "rs = r # rs'"
    by (auto split: sum.splits prod.splits)
  thus ?case using Cons.IH ValidateEventStep_sound by fastforce
qed simp

lemma ValidateEvents_canonical:
  "list_all (canonical_event pkg) rs \<Longrightarrow> distinct (map EventKey rs) \<Longrightarrow>
   EventKey ` set rs \<inter> keys = {} \<Longrightarrow> ValidateEvents pkg keys rs = Inr rs"
  by (induction rs arbitrary: keys) (auto simp: ValidateEventStep_canonical)

lemma EventKey_distinct_sort_key:
  "distinct (map EventKey rs) \<Longrightarrow> distinct (map EventSortKey rs)"
proof -
  assume d: "distinct (map EventKey rs)"
  have "EventSortKey x = EventSortKey y \<Longrightarrow> EventKey x = EventKey y" for x y
    by (simp add: EventSortKey_def EventKey_def)
  hence "inj_on EventSortKey (set rs)"
    using d by (intro inj_onI) (auto simp: distinct_map dest: inj_onD)
  with d show ?thesis by (simp add: distinct_map)
qed

subsection \<open>Canonical policies\<close>

definition canonical_users :: "string list \<Rightarrow> bool" where
  "canonical_users us \<longleftrightarrow> us = [''*''] \<or> (list_all IsUserNumber us \<and> sorted (map UserValue us))"

lemma NormalizeUsers_sound: "NormalizeUsers us = Some vs \<Longrightarrow> canonical_users vs"
  by (auto simp: NormalizeUsers_def canonical_users_def list_all_iff length_Suc_conv split: if_splits)

lemma NormalizeUsers_canonical: "canonical_users us \<Longrightarrow> NormalizeUsers us = Some us"
  by (auto simp: NormalizeUsers_def canonical_users_def sort_key_sorted_id)

text \<open>The normal form that \<open>ValidatePolicy\<close> computes.  It mentions no line number.\<close>

definition canonical_policy :: "AppPolicy \<Rightarrow> bool" where
  "canonical_policy p \<longleftrightarrow>
     package p \<noteq> [] \<and> canonical_users (users p) \<and> sorted (processes p) \<and>
     canonical_mounts (package p) (mounts p) \<and> sorted (map MountKey (mounts p)) \<and>
     CheckIsolate (isolate_rule (mounts p)) (mounts p) = Inr () \<and>
     CheckProvider (provider_compat p) (users p) (mounts p) = Inr () \<and>
     list_all (canonical_event (package p)) (events p) \<and> distinct (map EventKey (events p)) \<and>
     sorted (map EventSortKey (events p))"

lemma ValidatePolicy_cases:
  assumes "ValidatePolicy p = Inr q"
  obtains us st ms es where
    "package p \<noteq> []" "NormalizeUsers (users p) = Some us"
    "ValidateMounts (package p) mount_init (mounts p) = Inr (st, ms)"
    "CheckIsolate (isolate st) ms = Inr ()"
    "CheckProvider (provider_compat p) us ms = Inr ()"
    "ValidateEvents (package p) {} (events p) = Inr es"
    "q = p\<lparr>users := us, processes := sort (processes p), mounts := sort_key MountKey ms,
           events := sort_key EventSortKey es\<rparr>"
  using assms by (auto simp: ValidatePolicy_def SetError_def split: if_splits option.splits sum.splits)

lemma ValidatePolicy_sound: "ValidatePolicy p = Inr q \<Longrightarrow> canonical_policy q"
proof (erule ValidatePolicy_cases)
  fix us st ms es
  assume ne: "package p \<noteq> []" and us: "NormalizeUsers (users p) = Some us"
    and ms: "ValidateMounts (package p) mount_init (mounts p) = Inr (st, ms)"
    and chk: "CheckIsolate (isolate st) ms = Inr ()"
    and prv: "CheckProvider (provider_compat p) us ms = Inr ()"
    and es: "ValidateEvents (package p) {} (events p) = Inr es"
    and q: "q = p\<lparr>users := us, processes := sort (processes p), mounts := sort_key MountKey ms,
           events := sort_key EventSortKey es\<rparr>"
  have perm: "mset ms = mset (sort_key MountKey ms)" by simp
  from ValidateMounts_init_sound [OF ms]
  have cm: "canonical_mounts (package p) (sort_key MountKey ms)"
    and iso: "isolate st = isolate_rule (sort_key MountKey ms)"
    using canonical_mounts_perm [OF perm] isolate_rule_perm [OF perm] by auto
  moreover have "CheckIsolate (isolate_rule (sort_key MountKey ms)) (sort_key MountKey ms) = Inr ()"
    using chk iso by (simp add: CheckIsolate_iff)
  moreover have "CheckProvider (provider_compat p) us (sort_key MountKey ms) = Inr ()"
    using prv by (simp add: CheckProvider_iff)
  moreover from ValidateEvents_sound [OF es]
  have "list_all (canonical_event (package p)) (sort_key EventSortKey es)"
    and "distinct (map EventKey (sort_key EventSortKey es))"
    by (simp_all add: list_all_iff)
  ultimately show "canonical_policy q"
    using ne NormalizeUsers_sound [OF us] by (simp add: canonical_policy_def q)
qed

lemma ValidatePolicy_canonical: "canonical_policy p \<Longrightarrow> ValidatePolicy p = Inr p"
proof -
  assume c: "canonical_policy p"
  obtain st where "ValidateMounts (package p) mount_init (mounts p) = Inr (st, mounts p)"
    and "isolate st = isolate_rule (mounts p)"
    using c ValidateMounts_init_canonical [of "package p" "mounts p"]
    by (auto simp: canonical_policy_def)
  moreover have "ValidateEvents (package p) {} (events p) = Inr (events p)"
    using c by (intro ValidateEvents_canonical) (auto simp: canonical_policy_def)
  ultimately show ?thesis
    using c by (auto simp: ValidatePolicy_def canonical_policy_def NormalizeUsers_canonical
        sort_key_sorted_id sorted_sort_id)
qed

lemma ValidatePolicy_frame:
  assumes "ValidatePolicy p = Inr q"
  shows "package q = package p" "media_compat q = media_compat p"
    "provider_compat q = provider_compat p" "mset (processes q) = mset (processes p)"
    "length (mounts q) = length (mounts p)" "length (events q) = length (events p)"
    "mset (map mount_action (mounts q)) = mset (map mount_action (mounts p))"
proof -
  from assms obtain us st ms es where
    ms: "ValidateMounts (package p) mount_init (mounts p) = Inr (st, ms)"
    and es: "ValidateEvents (package p) {} (events p) = Inr es"
    and q: "q = p\<lparr>users := us, processes := sort (processes p), mounts := sort_key MountKey ms,
           events := sort_key EventSortKey es\<rparr>"
    by (rule ValidatePolicy_cases) blast
  from ValidateMounts_sound [OF ms] have act: "map mount_action ms = map mount_action (mounts p)"
    by simp
  hence "image_mset mount_action (mset ms) = image_mset mount_action (mset (mounts p))"
    by (metis mset_map)
  moreover from act have "length ms = length (mounts p)" by (metis length_map)
  moreover have "length es = length (events p)" using ValidateEvents_sound [OF es] by simp
  ultimately show "package q = package p" "media_compat q = media_compat p"
    "provider_compat q = provider_compat p" "mset (processes q) = mset (processes p)"
    "length (mounts q) = length (mounts p)" "length (events q) = length (events p)"
    "mset (map mount_action (mounts q)) = mset (map mount_action (mounts p))"
    by (simp_all add: q)
qed

text \<open>The contract of the validation as its callers use it: a canonicaliser, a total map to errors or
  normal forms whose normal forms are its fixed points.\<close>

locale canonicaliser =
  fixes canonicalise :: "'a \<Rightarrow> 'e + 'a"
    and normal :: "'a \<Rightarrow> bool"
  assumes result_normal: "canonicalise x = Inr y \<Longrightarrow> normal y"
    and normal_fixed: "normal x \<Longrightarrow> canonicalise x = Inr x"
begin

lemma idempotent: "canonicalise x = Inr y \<Longrightarrow> canonicalise y = Inr y"
  by (blast intro: result_normal normal_fixed)

lemma normal_iff: "normal x \<longleftrightarrow> canonicalise x = Inr x"
  by (blast intro: result_normal normal_fixed)

lemma range_fixed: "(\<exists>x. canonicalise x = Inr y) \<longleftrightarrow> canonicalise y = Inr y"
  by (blast intro: idempotent)

end

interpretation validation: canonicaliser ValidatePolicy canonical_policy
  by unfold_locales (auto intro: ValidatePolicy_sound ValidatePolicy_canonical)

subsection \<open>Properties\<close>

text \<open>
  Claim C22.  \<open>ValidatePolicy\<close> computes a normal form.  An accepted policy is returned in canonical form:
  user list, process list, mount and event rules sorted, every visible and backing path normalised
  and free of package placeholders, depths recomputed, no visible path twice, at most one isolate rule
  and none overlapping it, provider compatibility only for listed users with a redirect.  The
  canonical policies are exactly the policies it returns unchanged, so validating twice is validating
  once.
\<close>

theorem ValidatePolicy_normal_form:
  "(ValidatePolicy p = Inr q \<longrightarrow> canonical_policy q \<and> ValidatePolicy q = Inr q \<and>
      package q = package p \<and> length (mounts q) = length (mounts p) \<and>
      mset (map mount_action (mounts q)) = mset (map mount_action (mounts p))) \<and>
   (canonical_policy p \<longleftrightarrow> ValidatePolicy p = Inr p)"
  using validation.result_normal [of p q] validation.idempotent [of p q] validation.normal_iff [of p]
    ValidatePolicy_frame [of p q]
  by blast

definition sample_policy :: AppPolicy where
  "sample_policy =
     \<lparr>package = ''org.x'', media_compat = MediaOff, provider_compat = ProviderOff,
      users = [''10'', ''0''], processes = [''org.x''],
      mounts = [\<lparr>mount_action = MountRedirect, visible_path = ''DCIM/Camera'',
                 backing_path = ''Android/{package}/cam'', mount_depth = 0, mount_flags = 0, mount_line = 4\<rparr>,
                \<lparr>mount_action = MountDeny, visible_path = ''Music'', backing_path = [],
                 mount_depth = 0, mount_flags = 0, mount_line = 5\<rparr>],
      events = []\<rparr>"

definition sample_policy_normal :: AppPolicy where
  "sample_policy_normal = sample_policy\<lparr>users := [''0'', ''10''],
      mounts := [\<lparr>mount_action = MountRedirect, visible_path = ''DCIM/Camera'',
                 backing_path = ''Android/org.x/cam'', mount_depth = 2, mount_flags = 0, mount_line = 4\<rparr>,
                \<lparr>mount_action = MountDeny, visible_path = ''Music'', backing_path = [],
                 mount_depth = 1, mount_flags = 0, mount_line = 5\<rparr>]\<rparr>"

theorem ValidatePolicy_normal_form_witness:
  "ValidatePolicy sample_policy = Inr sample_policy_normal \<and> canonical_policy sample_policy_normal"
proof -
  have "ValidatePolicy sample_policy = Inr sample_policy_normal" by code_simp
  with ValidatePolicy_normal_form [of sample_policy sample_policy_normal] show ?thesis by simp
qed

end
