(* ===== verification/PG_Format.thy ===== *)
theory PG_Format
  imports PG_Prelude
begin

text \<open>
  The binary policy format below the document level: constants and hashes
  (\<open>core/include/pathguard/policy_format.h\<close>), the little-endian primitives
  (\<open>core/src/binary.cpp\<close>, \<open>Put8\<close> to \<open>Read64\<close>), and the package index the Zygisk side searches
  (\<open>core/include/pathguard/policy_index.h\<close>).

  A \<open>Put\<close> function appends to a vector; here it is the list of appended bytes.  A \<open>Read\<close> function
  dereferences a pointer into the input; here it takes the input and an offset and is \<open>None\<close> where
  the C++ would read outside the input.
\<close>

unbundle bit_operations_syntax

subsection \<open>Constants\<close>

definition kMagic :: u32 where "kMagic = 0x424E4750"
definition kFormatVersion :: u16 where "kFormatVersion = 5"
definition kSchemaVersion :: u16 where "kSchemaVersion = 2"
definition kHeaderSize :: nat where "kHeaderSize = 56"
definition kPackageSize :: nat where "kPackageSize = 48"
definition kMountRuleSize :: nat where "kMountRuleSize = 16"
definition kEventRuleSize :: nat where "kEventRuleSize = 16"

definition kFileSizeOffset :: nat where "kFileSizeOffset = 8"
definition kPayloadChecksumOffset :: nat where "kPayloadChecksumOffset = 12"
definition kContentGenerationOffset :: nat where "kContentGenerationOffset = 16"
definition kPackageCountOffset :: nat where "kPackageCountOffset = 24"
definition kMountRuleCountOffset :: nat where "kMountRuleCountOffset = 28"
definition kEventRuleCountOffset :: nat where "kEventRuleCountOffset = 32"
definition kPackageTableOffset :: nat where "kPackageTableOffset = 36"
definition kMountRuleTableOffset :: nat where "kMountRuleTableOffset = 40"
definition kEventRuleTableOffset :: nat where "kEventRuleTableOffset = 44"
definition kStringTableOffset :: nat where "kStringTableOffset = 48"
definition kHeaderFlagsOffset :: nat where "kHeaderFlagsOffset = 52"

definition kPolicyFlagAllowLegacyStringBind :: u32 where
  "kPolicyFlagAllowLegacyStringBind = push_bit 0 1"

definition kPackageHashOffset :: nat where "kPackageHashOffset = 0"
definition kPackageNameOffset :: nat where "kPackageNameOffset = 4"
definition kPackageUsersOffset :: nat where "kPackageUsersOffset = 8"
definition kPackageProcessesOffset :: nat where "kPackageProcessesOffset = 12"
definition kPackageFirstMountOffset :: nat where "kPackageFirstMountOffset = 16"
definition kPackageMountCountOffset :: nat where "kPackageMountCountOffset = 20"
definition kPackageFirstEventOffset :: nat where "kPackageFirstEventOffset = 24"
definition kPackageEventCountOffset :: nat where "kPackageEventCountOffset = 28"
definition kPackagePlanGenerationOffset :: nat where "kPackagePlanGenerationOffset = 32"
definition kPackageFailureModeOffset :: nat where "kPackageFailureModeOffset = 40"
definition kPackageMediaCompatOffset :: nat where "kPackageMediaCompatOffset = 41"
definition kPackageProviderCompatOffset :: nat where "kPackageProviderCompatOffset = 42"

definition kMountActionOffset :: nat where "kMountActionOffset = 0"
definition kMountDepthOffset :: nat where "kMountDepthOffset = 2"
definition kMountFlagsOffset :: nat where "kMountFlagsOffset = 4"
definition kMountVisiblePathOffset :: nat where "kMountVisiblePathOffset = 8"
definition kMountBackingPathOffset :: nat where "kMountBackingPathOffset = 12"

definition kEventActionOffset :: nat where "kEventActionOffset = 0"
definition kEventSourcePathOffset :: nat where "kEventSourcePathOffset = 4"
definition kEventTargetPathOffset :: nat where "kEventTargetPathOffset = 8"
definition kEventOptionsOffset :: nat where "kEventOptionsOffset = 12"

lemmas size_defs = kHeaderSize_def kPackageSize_def kMountRuleSize_def kEventRuleSize_def

lemmas header_offset_defs =
  kFileSizeOffset_def kPayloadChecksumOffset_def kContentGenerationOffset_def
  kPackageCountOffset_def kMountRuleCountOffset_def kEventRuleCountOffset_def
  kPackageTableOffset_def kMountRuleTableOffset_def kEventRuleTableOffset_def
  kStringTableOffset_def kHeaderFlagsOffset_def

lemmas package_offset_defs =
  kPackageHashOffset_def kPackageNameOffset_def kPackageUsersOffset_def
  kPackageProcessesOffset_def kPackageFirstMountOffset_def kPackageMountCountOffset_def
  kPackageFirstEventOffset_def kPackageEventCountOffset_def kPackagePlanGenerationOffset_def
  kPackageFailureModeOffset_def kPackageMediaCompatOffset_def kPackageProviderCompatOffset_def

lemmas rule_offset_defs =
  kMountActionOffset_def kMountDepthOffset_def kMountFlagsOffset_def kMountVisiblePathOffset_def
  kMountBackingPathOffset_def kEventActionOffset_def kEventSourcePathOffset_def
  kEventTargetPathOffset_def kEventOptionsOffset_def

subsection \<open>Hashes\<close>

definition kFnv1a32OffsetBasis :: u32 where "kFnv1a32OffsetBasis = 2166136261"
definition kFnv1a64OffsetBasis :: u64 where "kFnv1a64OffsetBasis = 14695981039346656037"
definition kCrc32Initial :: u32 where "kCrc32Initial = 0xffffffff"
definition kCrc32XorOut :: u32 where "kCrc32XorOut = 0xffffffff"

definition Fnv1a32_step :: "u32 \<Rightarrow> u8 \<Rightarrow> u32" where
  "Fnv1a32_step hash byte = (hash XOR ucast byte) * 16777619"

definition Fnv1a32 :: "bytes \<Rightarrow> u32" where
  "Fnv1a32 data = foldl Fnv1a32_step kFnv1a32OffsetBasis data"

definition Fnv1a64_step :: "u64 \<Rightarrow> u8 \<Rightarrow> u64" where
  "Fnv1a64_step hash byte = (hash XOR ucast byte) * 1099511628211"

definition Fnv1a64 :: "bytes \<Rightarrow> u64" where
  "Fnv1a64 data = foldl Fnv1a64_step kFnv1a64OffsetBasis data"

definition Crc32_bit :: "u32 \<Rightarrow> u32" where
  "Crc32_bit crc = (let mask = 0 - (crc AND 1) in drop_bit 1 crc XOR (0xedb88320 AND mask))"

definition Crc32_step :: "u32 \<Rightarrow> u8 \<Rightarrow> u32" where
  "Crc32_step crc byte = (Crc32_bit ^^ 8) (crc XOR ucast byte)"

definition Crc32 :: "bytes \<Rightarrow> u32" where
  "Crc32 data = foldl Crc32_step kCrc32Initial data XOR kCrc32XorOut"

text \<open>The bytes of a string, and back.\<close>

definition string_bytes :: "string \<Rightarrow> bytes" where
  "string_bytes s = map of_char s"

definition bytes_string :: "bytes \<Rightarrow> string" where
  "bytes_string bs = map (\<lambda>b. char_of (unat b)) bs"

definition PackageNameHash :: "string \<Rightarrow> u32" where
  "PackageNameHash value = Fnv1a32 (string_bytes value)"

subsection \<open>Little-endian primitives\<close>

definition Put8 :: "u8 \<Rightarrow> bytes" where
  "Put8 value = [value]"

definition Put16 :: "u16 \<Rightarrow> bytes" where
  "Put16 value = [ucast value, ucast (drop_bit 8 value)]"

definition Put32 :: "u32 \<Rightarrow> bytes" where
  "Put32 value = map (\<lambda>index. ucast (drop_bit (index * 8) value)) [0..<4]"

definition Put64 :: "u64 \<Rightarrow> bytes" where
  "Put64 value = map (\<lambda>index. ucast (drop_bit (index * 8) value)) [0..<8]"

definition Store32 :: "bytes \<Rightarrow> nat \<Rightarrow> u32 \<Rightarrow> bytes" where
  "Store32 output offset value =
     foldl (\<lambda>out index. out[offset + index := ucast (drop_bit (index * 8) value)]) output [0..<4]"

definition Read16 :: "bytes \<Rightarrow> nat \<Rightarrow> u16 option" where
  "Read16 input offset =
     do { b0 \<leftarrow> rd8 input offset; b1 \<leftarrow> rd8 input (offset + 1);
          Some (ucast b0 OR push_bit 8 (ucast b1)) }"

definition Read32 :: "bytes \<Rightarrow> nat \<Rightarrow> u32 option" where
  "Read32 input offset =
     foldl (\<lambda>acc index. do { value \<leftarrow> acc; b \<leftarrow> rd8 input (offset + index);
                              Some (value OR push_bit (index * 8) (ucast b)) })
       (Some 0) [0..<4]"

definition Read64 :: "bytes \<Rightarrow> nat \<Rightarrow> u64 option" where
  "Read64 input offset =
     foldl (\<lambda>acc index. do { value \<leftarrow> acc; b \<leftarrow> rd8 input (offset + index);
                              Some (value OR push_bit (index * 8) (ucast b)) })
       (Some 0) [0..<8]"

text \<open>\<open>ReadLe32\<close> and \<open>ReadLe64\<close> of the index header repeat \<open>Read32\<close> and \<open>Read64\<close>.\<close>

definition ReadLe32 :: "bytes \<Rightarrow> nat \<Rightarrow> u32 option" where
  "ReadLe32 input offset =
     foldl (\<lambda>acc index. do { result \<leftarrow> acc; b \<leftarrow> rd8 input (offset + index);
                              Some (result OR push_bit (index * 8) (ucast b)) })
       (Some 0) [0..<4]"

definition ReadLe64 :: "bytes \<Rightarrow> nat \<Rightarrow> u64 option" where
  "ReadLe64 input offset =
     foldl (\<lambda>acc index. do { result \<leftarrow> acc; b \<leftarrow> rd8 input (offset + index);
                              Some (result OR push_bit (index * 8) (ucast b)) })
       (Some 0) [0..<8]"

lemma ReadLe32_eq [simp]: "ReadLe32 = Read32"
  by (simp add: fun_eq_iff ReadLe32_def Read32_def)

lemma ReadLe64_eq [simp]: "ReadLe64 = Read64"
  by (simp add: fun_eq_iff ReadLe64_def Read64_def)

lemma upt_4: "[0..<4] = [0, 1, 2, 3 :: nat]"
  by (simp add: upt_rec)

lemma upt_8: "[0..<8] = [0, 1, 2, 3, 4, 5, 6, 7 :: nat]"
  by (simp add: upt_rec)

text \<open>Reassembling a word from its bytes: byte \<open>i\<close> contributes exactly the bits \<open>8 i\<close> to \<open>8 i + 7\<close>.\<close>

lemma bit_byte_part:
  fixes v :: "'a :: len word"
  shows "bit (push_bit k (ucast (ucast (drop_bit k v) :: 8 word) :: 'a word)) n \<longleftrightarrow>
    k \<le> n \<and> n < k + 8 \<and> bit v n"
  by (auto simp: bit_simps dest: bit_imp_le_length)

lemma bit_low_byte:
  fixes v :: "'a :: len word"
  shows "bit (ucast (ucast v :: 8 word) :: 'a word) n \<longleftrightarrow> n < 8 \<and> bit v n"
  using bit_byte_part [of 0 v n] by simp

lemma bytes_word16:
  fixes v :: u16
  shows "ucast (ucast v :: 8 word) OR push_bit 8 (ucast (ucast (drop_bit 8 v) :: 8 word)) = v"
proof (rule bit_word_eqI)
  fix n :: nat
  assume "n < LENGTH(16)"
  hence "n < 8 \<or> (8 \<le> n \<and> n < 8 + 8)" by simp arith
  thus "bit (ucast (ucast v :: 8 word) OR push_bit 8 (ucast (ucast (drop_bit 8 v) :: 8 word)) :: u16) n
      = bit v n"
    unfolding bit_or_iff bit_byte_part bit_low_byte by blast
qed

lemma bytes_word32:
  fixes v :: u32
  shows "((ucast (ucast v :: 8 word) OR push_bit 8 (ucast (ucast (drop_bit 8 v) :: 8 word))) OR
    push_bit 16 (ucast (ucast (drop_bit 16 v) :: 8 word))) OR
    push_bit 24 (ucast (ucast (drop_bit 24 v) :: 8 word)) = v" (is "?w = v")
proof (rule bit_word_eqI)
  fix n :: nat
  assume "n < LENGTH(32)"
  hence "n < 8 \<or> (8 \<le> n \<and> n < 8 + 8) \<or> (16 \<le> n \<and> n < 16 + 8) \<or> (24 \<le> n \<and> n < 24 + 8)"
    by simp arith
  thus "bit ?w n = bit v n"
    unfolding bit_or_iff bit_byte_part bit_low_byte by blast
qed

lemma bytes_word64:
  fixes v :: u64
  shows "((((((ucast (ucast v :: 8 word) OR push_bit 8 (ucast (ucast (drop_bit 8 v) :: 8 word))) OR
    push_bit 16 (ucast (ucast (drop_bit 16 v) :: 8 word))) OR
    push_bit 24 (ucast (ucast (drop_bit 24 v) :: 8 word))) OR
    push_bit 32 (ucast (ucast (drop_bit 32 v) :: 8 word))) OR
    push_bit 40 (ucast (ucast (drop_bit 40 v) :: 8 word))) OR
    push_bit 48 (ucast (ucast (drop_bit 48 v) :: 8 word))) OR
    push_bit 56 (ucast (ucast (drop_bit 56 v) :: 8 word)) = v" (is "?w = v")
proof (rule bit_word_eqI)
  fix n :: nat
  assume "n < LENGTH(64)"
  hence "n < 8 \<or> (8 \<le> n \<and> n < 8 + 8) \<or> (16 \<le> n \<and> n < 16 + 8) \<or> (24 \<le> n \<and> n < 24 + 8) \<or>
      (32 \<le> n \<and> n < 32 + 8) \<or> (40 \<le> n \<and> n < 40 + 8) \<or> (48 \<le> n \<and> n < 48 + 8) \<or>
      (56 \<le> n \<and> n < 56 + 8)"
    by simp arith
  thus "bit ?w n = bit v n"
    unfolding bit_or_iff bit_byte_part bit_low_byte by blast
qed

lemmas read_defs = Read16_def Read32_def Read64_def upt_4 upt_8
lemmas put_defs = Put8_def Put16_def Put32_def Put64_def upt_4 upt_8

lemma rd8_None: "rd8 xs i = None \<longleftrightarrow> length xs \<le> i"
  by (auto simp: rd8_def)

lemma rd8_numeral_Cons [simp]: "rd8 (x # xs) (numeral k) = rd8 xs (pred_numeral k)"
  by (simp add: numeral_eq_Suc)

lemma rd8_one_Cons [simp]: "rd8 (x # xs) 1 = rd8 xs 0"
  by simp

lemma rd8_skip: "length xs \<le> i \<Longrightarrow> rd8 (xs @ ys) (i + k) = rd8 ys (i - length xs + k)"
  by (simp add: rd8_append)

lemma read_fold_None:
  "foldl (\<lambda>acc k. do { v \<leftarrow> acc; b \<leftarrow> rd8 xs (i + k); Some (g v k b) }) (Some v) ks = None \<longleftrightarrow>
   (\<exists>k \<in> set ks. rd8 xs (i + k) = None)"
proof (induction ks arbitrary: v)
  case (Cons k ks)
  have none: "foldl (\<lambda>acc k. do { v \<leftarrow> acc; b \<leftarrow> rd8 xs (i + k); Some (g v k b) }) None ks = None"
    by (induction ks) auto
  show ?case by (cases "rd8 xs (i + k)") (simp_all add: none Cons.IH)
qed simp

lemma rd8_range_None:
  "0 < n \<Longrightarrow> (\<exists>k \<in> set [0..<n]. rd8 xs (i + k) = None) \<longleftrightarrow> length xs < i + n"
proof
  assume "0 < n" "length xs < i + n"
  hence "n - 1 \<in> set [0..<n]" "rd8 xs (i + (n - 1)) = None" by (auto simp: rd8_None)
  thus "\<exists>k \<in> set [0..<n]. rd8 xs (i + k) = None" by blast
qed (auto simp: rd8_None)

interpretation le8: fixed_codec 1 Put8 rd8
  by unfold_locales (auto simp: Put8_def rd8_append rd8_prefix rd8_None)

interpretation le16: fixed_codec 2 Put16 Read16
proof unfold_locales
  show "Read16 (Put16 v @ ys) 0 = Some v" for v ys
    by (simp add: read_defs put_defs bytes_word16)
  show "Read16 (xs @ ys) i = Read16 ys (i - length xs)" if "length xs \<le> i" for xs ys i
    using that rd8_skip [of xs i ys 0] rd8_skip [of xs i ys 1] by (simp add: read_defs)
  show "Read16 xs i = None \<longleftrightarrow> length xs < i + 2" for xs i
    by (auto simp: Read16_def rd8_def)
qed (auto simp: Put16_def Read16_def rd8_prefix)

interpretation le32: fixed_codec 4 Put32 Read32
proof unfold_locales
  show "Read32 (Put32 v @ ys) 0 = Some v" for v ys
    by (simp add: read_defs put_defs bytes_word32)
  show "Read32 (xs @ ys) i = Read32 ys (i - length xs)" if "length xs \<le> i" for xs ys i
    unfolding read_defs foldl.simps rd8_skip [OF that] by (rule refl)
  show "Read32 xs i = None \<longleftrightarrow> length xs < i + 4" for xs i
    unfolding Read32_def read_fold_None by (rule rd8_range_None) simp
qed (auto simp: read_defs put_defs rd8_prefix)

interpretation le64: fixed_codec 8 Put64 Read64
proof unfold_locales
  show "Read64 (Put64 v @ ys) 0 = Some v" for v ys
    by (simp add: read_defs put_defs bytes_word64)
  show "Read64 (xs @ ys) i = Read64 ys (i - length xs)" if "length xs \<le> i" for xs ys i
    unfolding read_defs foldl.simps rd8_skip [OF that] by (rule refl)
  show "Read64 xs i = None \<longleftrightarrow> length xs < i + 8" for xs i
    unfolding Read64_def read_fold_None by (rule rd8_range_None) simp
qed (auto simp: read_defs put_defs rd8_prefix)

lemma string_bytes_inverse [simp]: "bytes_string (string_bytes s) = s"
proof -
  have "unat (of_nat (of_char c) :: u8) = of_char c" for c
    by (subst unat_of_nat) simp
  hence "unat (of_char c :: u8) = of_char c" for c
    by (simp only: of_nat_of_char)
  hence "char_of (unat (of_char c :: u8)) = c" for c by simp
  thus ?thesis by (simp add: bytes_string_def string_bytes_def map_idI)
qed

lemma length_string_bytes [simp]: "length (string_bytes s) = length s"
  by (simp add: string_bytes_def)

lemma string_bytes_append [simp]: "string_bytes (s @ t) = string_bytes s @ string_bytes t"
  by (simp add: string_bytes_def)

lemma zero_in_string_bytes: "0 \<in> set (string_bytes s) \<longleftrightarrow> CHR 0x00 \<in> set s"
proof -
  have "(of_char c :: u8) = 0 \<longleftrightarrow> c = CHR 0x00" for c
  proof
    assume "(of_char c :: u8) = 0"
    hence "string_bytes [c] = string_bytes [CHR 0x00]" by (simp add: string_bytes_def)
    hence "bytes_string (string_bytes [c]) = bytes_string (string_bytes [CHR 0x00])" by simp
    thus "c = CHR 0x00" by simp
  qed simp
  thus ?thesis by (force simp: string_bytes_def)
qed

lemma Store32_eq:
  assumes "length pre = offset" "length old = 4"
  shows "Store32 (pre @ old @ post) offset v = pre @ Put32 v @ post"
proof -
  obtain a b c d where old: "old = [a, b, c, d]"
    using assms(2) by (auto simp: numeral_eq_Suc length_Suc_conv)
  show ?thesis
    using assms(1) by (simp add: Store32_def Put32_def upt_4 old list_update_append)
qed

subsection \<open>Hashes notice a changed byte\<close>

text \<open>The interface of a byte-wise hash: the step is injective in the state and in the byte.  Then two
  inputs of equal length that differ in one byte never collide.\<close>

locale byte_hash =
  fixes step :: "'h \<Rightarrow> u8 \<Rightarrow> 'h"
  assumes inj_state: "step h b = step h' b \<Longrightarrow> h = h'"
    and inj_byte: "step h b = step h b' \<Longrightarrow> b = b'"
begin

lemma fold_inj_state: "foldl step h xs = foldl step h' xs \<Longrightarrow> h = h'"
  by (induction xs arbitrary: h h') (auto dest: inj_state)

lemma single_byte:
  assumes "b \<noteq> b'"
  shows "foldl step h (xs @ b # ys) \<noteq> foldl step h (xs @ b' # ys)"
proof
  assume "foldl step h (xs @ b # ys) = foldl step h (xs @ b' # ys)"
  hence "step (foldl step h xs) b = step (foldl step h xs) b'"
    by (auto dest: fold_inj_state)
  with assms show False by (auto dest: inj_byte)
qed

end

lemma xor_left_inj: "(a :: 'a :: len word) XOR b = a XOR c \<Longrightarrow> b = c"
  by (metis xor.assoc xor.left_neutral xor_self_eq)

lemma xor_right_inj: "(a :: 'a :: len word) XOR b = c XOR b \<Longrightarrow> a = c"
  by (metis xor.commute xor_left_inj)

lemma ucast_u8_inj:
  assumes "LENGTH('a) \<ge> 8" and eq: "(ucast (b :: u8) :: 'a :: len word) = ucast b'"
  shows "b = b'"
proof (rule bit_word_eqI)
  fix n assume "n < LENGTH(8)"
  hence "bit (ucast c :: 'a word) n \<longleftrightarrow> bit c n" for c :: u8
    using assms(1) by (auto simp: bit_simps)
  thus "bit b n = bit b' n" using eq by metis
qed

lemma xor_byte_inj32: "(h :: u32) XOR ucast (b :: u8) = h XOR ucast b' \<Longrightarrow> b = b'"
  by (drule xor_left_inj, rule ucast_u8_inj [where 'a = 32]) simp_all

lemma xor_byte_inj64: "(h :: u64) XOR ucast (b :: u8) = h XOR ucast b' \<Longrightarrow> b = b'"
  by (drule xor_left_inj, rule ucast_u8_inj [where 'a = 64]) simp_all

lemma mult_unit_inj:
  fixes a b p q :: "'a :: comm_monoid_mult"
  assumes "p * q = 1" and "a * p = b * p"
  shows "a = b"
proof -
  have "a = (a * p) * q" by (simp only: mult.assoc assms(1) mult_1_right)
  also have "\<dots> = (b * p) * q" by (simp only: assms(2))
  also have "\<dots> = b" by (simp only: mult.assoc assms(1) mult_1_right)
  finally show ?thesis .
qed

lemma fnv32_prime_inj: "(a :: u32) * 16777619 = b * 16777619 \<Longrightarrow> a = b"
  by (rule mult_unit_inj [where q = 899433627]) simp_all

lemma fnv64_prime_inj: "(a :: u64) * 1099511628211 = b * 1099511628211 \<Longrightarrow> a = b"
  by (rule mult_unit_inj [where q = 14886173955864302971]) simp_all

lemma Crc32_bit_eq:
  "Crc32_bit x = drop_bit 1 x XOR (if odd x then 0xedb88320 else 0)"
proof -
  have "x AND 1 = (if odd x then 1 else 0)" by (simp add: and_one_eq odd_iff_mod_2_eq_one)
  thus ?thesis by (simp add: Crc32_bit_def Let_def)
qed

lemma Crc32_bit_inj: "Crc32_bit x = Crc32_bit y \<Longrightarrow> x = y"
proof -
  have top: "bit (Crc32_bit z) 31 \<longleftrightarrow> odd z" for z :: u32
    using bit_imp_le_length [of z 32] by (auto simp: Crc32_bit_eq bit_simps bit_numeral_rec)
  assume eq: "Crc32_bit x = Crc32_bit y"
  hence odd: "odd x \<longleftrightarrow> odd y" by (metis top)
  with eq have "drop_bit 1 x = drop_bit 1 y"
    by (auto simp: Crc32_bit_eq dest: xor_right_inj split: if_splits)
  hence "2 * drop_bit 1 x + of_bool (odd x) = 2 * drop_bit 1 y + of_bool (odd y)"
    by (simp only: odd)
  moreover have "2 * drop_bit 1 z + of_bool (odd z) = z" for z :: u32
    using mult_div_mod_eq [of 2 z] by (simp add: drop_bit_eq_div mod_2_eq_odd [symmetric])
  ultimately show "x = y" by (simp only:)
qed

lemma Crc32_bits_inj: "(Crc32_bit ^^ n) x = (Crc32_bit ^^ n) y \<Longrightarrow> x = y"
  by (induction n) (auto dest: Crc32_bit_inj)

interpretation crc: byte_hash Crc32_step
  by unfold_locales
    (auto simp: Crc32_step_def dest!: Crc32_bits_inj dest: xor_right_inj xor_byte_inj32)

interpretation fnv32: byte_hash Fnv1a32_step
  by unfold_locales
    (auto simp: Fnv1a32_step_def dest!: fnv32_prime_inj dest: xor_right_inj xor_byte_inj32)

interpretation fnv64: byte_hash Fnv1a64_step
  by unfold_locales
    (auto simp: Fnv1a64_step_def dest!: fnv64_prime_inj dest: xor_right_inj xor_byte_inj64)

lemma Crc32_single_byte: "b \<noteq> b' \<Longrightarrow> Crc32 (xs @ b # ys) \<noteq> Crc32 (xs @ b' # ys)"
  using crc.single_byte [of b b'] by (auto simp: Crc32_def dest: xor_right_inj)

lemma Fnv1a64_parity: "odd (Fnv1a64 bs) \<longleftrightarrow> foldl (\<lambda>p b. p \<noteq> bit b 0) True bs"
proof -
  have "bit (ucast b :: u64) 0 \<longleftrightarrow> bit b 0" for b :: u8 by (simp add: bit_ucast_iff)
  hence "odd (ucast b :: u64) \<longleftrightarrow> bit b 0" for b :: u8 by (simp only: bit_0)
  hence step: "odd (Fnv1a64_step h b) \<longleftrightarrow> odd h \<noteq> bit b 0" for h b
    by (auto simp: Fnv1a64_step_def even_mult_iff even_xor_iff)
  have "odd (foldl Fnv1a64_step h bs) \<longleftrightarrow> foldl (\<lambda>p b. p \<noteq> bit b 0) (odd h) bs" for h
    by (induction bs arbitrary: h) (simp_all only: foldl.simps step)
  from this [of kFnv1a64OffsetBasis] show ?thesis by (simp add: Fnv1a64_def kFnv1a64OffsetBasis_def)
qed

subsection \<open>The package index\<close>

text \<open>The view the Zygisk module keeps of a mapped policy file.  \<open>view_data\<close> is the pointer, \<open>None\<close> for
  \<open>nullptr\<close>, with the memory it points to.\<close>

record PolicyIndexView =
  view_data :: "bytes option"
  view_size :: nat
  package_count :: u32
  package_offset :: u32
  package_end :: u32
  string_offset :: u32

definition ValidPolicyIndex :: "PolicyIndexView \<Rightarrow> bool" where
  "ValidPolicyIndex view \<longleftrightarrow>
     view_data view \<noteq> None \<and> package_offset view \<le> package_end view \<and>
     package_end view \<le> string_offset view \<and> unat (string_offset view) \<le> view_size view \<and>
     unat (package_count view) \<le> unat (package_end view - package_offset view) div kPackageSize"

definition EntryOffset :: "PolicyIndexView \<Rightarrow> nat \<Rightarrow> nat" where
  "EntryOffset view index = unat (package_offset view) + index * kPackageSize"

text \<open>The binary search for the first entry whose hash is not below the expected one.\<close>

function LowerBoundLoop ::
  "bytes \<Rightarrow> PolicyIndexView \<Rightarrow> u32 \<Rightarrow> nat \<Rightarrow> nat \<Rightarrow> nat option" where
  "LowerBoundLoop input view expected_hash lower upper =
     (if lower < upper then
        let middle = lower + (upper - lower) div 2 in
        do { h \<leftarrow> ReadLe32 input (EntryOffset view middle + kPackageHashOffset);
             if h < expected_hash then LowerBoundLoop input view expected_hash (middle + 1) upper
             else LowerBoundLoop input view expected_hash lower middle }
      else Some lower)"
  by pat_completeness auto
termination
  by (relation "measure (\<lambda>(_, _, _, lower, upper). upper - lower)") auto

declare LowerBoundLoop.simps [simp del]

definition rd_slice :: "bytes \<Rightarrow> nat \<Rightarrow> nat \<Rightarrow> bytes option" where
  "rd_slice input offset n =
     (if offset + n \<le> length input then Some (take n (drop offset input)) else None)"

text \<open>Does the entry's name equal the wanted one?  The order of the tests is the source's.\<close>

definition EntryNameMatches :: "bytes \<Rightarrow> PolicyIndexView \<Rightarrow> string \<Rightarrow> nat \<Rightarrow> bool option" where
  "EntryNameMatches input view name entry =
     do { relative_offset \<leftarrow> ReadLe32 input (entry + kPackageNameOffset);
          if unat relative_offset \<ge> view_size view - unat (string_offset view) then Some False
          else
            let candidate = unat (string_offset view) + unat relative_offset;
                remaining = view_size view - unat (string_offset view) - unat relative_offset in
            if length name < remaining then
              do { terminator \<leftarrow> rd8 input (candidate + length name);
                   if terminator = 0 then
                     do { text \<leftarrow> rd_slice input candidate (length name);
                          Some (text = string_bytes name) }
                   else Some False }
            else Some False }"

function ScanEntries ::
  "bytes \<Rightarrow> PolicyIndexView \<Rightarrow> string \<Rightarrow> u32 \<Rightarrow> nat \<Rightarrow> nat option option" where
  "ScanEntries input view name expected_hash index =
     (if index < unat (package_count view) then
        do { h \<leftarrow> ReadLe32 input (EntryOffset view index + kPackageHashOffset);
             if h \<noteq> expected_hash then Some None
             else do { hit \<leftarrow> EntryNameMatches input view name (EntryOffset view index);
                       if hit then Some (Some (EntryOffset view index))
                       else ScanEntries input view name expected_hash (index + 1) } }
      else Some None)"
  by pat_completeness auto
termination
  by (relation "measure (\<lambda>(_, view, _, _, index). unat (package_count view) - index)") auto

declare ScanEntries.simps [simp del]

text \<open>The result is the offset of the entry, \<open>Some None\<close> for a null pointer.\<close>

definition FindPackageEntry :: "PolicyIndexView \<Rightarrow> string \<Rightarrow> nat option option" where
  "FindPackageEntry view name =
     (if \<not> ValidPolicyIndex view \<or> name = [] then Some None
      else case view_data view of
        None \<Rightarrow> Some None
      | Some input \<Rightarrow>
          do { lower \<leftarrow> LowerBoundLoop input view (PackageNameHash name) 0
                           (unat (package_count view));
               ScanEntries input view name (PackageNameHash name) lower })"

subsection \<open>The index search against a linear search\<close>

text \<open>The partition point of a predicate that holds on a prefix of an index range.\<close>

definition partition_index :: "(nat \<Rightarrow> bool) \<Rightarrow> nat \<Rightarrow> nat" where
  "partition_index below n = length (takeWhile below [0..<n])"

lemma partition_index_le: "partition_index below n \<le> n"
  using length_takeWhile_le [of below "[0..<n]"] by (simp add: partition_index_def)

lemma partition_index_iff:
  assumes down: "\<And>i j. i \<le> j \<Longrightarrow> j < n \<Longrightarrow> below j \<Longrightarrow> below i" and i: "i < n"
  shows "below i \<longleftrightarrow> i < partition_index below n"
proof
  assume "i < partition_index below n"
  hence lt: "i < length (takeWhile below [0..<n])" by (simp add: partition_index_def)
  hence "takeWhile below [0..<n] ! i = i" using i by (simp add: takeWhile_nth)
  with lt have "i \<in> set (takeWhile below [0..<n])" by (metis nth_mem)
  thus "below i" by (rule set_takeWhileD [THEN conjunct2])
next
  assume "below i"
  show "i < partition_index below n"
  proof (rule ccontr)
    let ?p = "partition_index below n"
    assume le: "\<not> i < ?p"
    hence "length (takeWhile below [0..<n]) < length [0..<n]"
      using i by (simp add: partition_index_def)
    hence "\<not> below ([0..<n] ! ?p)" unfolding partition_index_def by (rule nth_length_takeWhile)
    hence "\<not> below ?p" using i le by simp
    moreover have "below ?p" using down [of ?p i] i le \<open>below i\<close> by simp
    ultimately show False by simp
  qed
qed

lemma LowerBoundLoop_correct:
  assumes rd: "\<And>i. i < n \<Longrightarrow> Read32 input (EntryOffset view i + kPackageHashOffset) = Some (f i)"
    and mono: "\<And>i j. i \<le> j \<Longrightarrow> j < n \<Longrightarrow> f i \<le> f j"
  shows "lower \<le> partition_index (\<lambda>i. f i < h) n \<Longrightarrow>
    partition_index (\<lambda>i. f i < h) n \<le> upper \<Longrightarrow> upper \<le> n \<Longrightarrow>
    LowerBoundLoop input view h lower upper = Some (partition_index (\<lambda>i. f i < h) n)"
proof (induction "upper - lower" arbitrary: lower upper rule: less_induct)
  case less
  let ?p = "partition_index (\<lambda>i. f i < h) n"
  show ?case
  proof (cases "lower < upper")
    case True
    define middle where "middle = lower + (upper - lower) div 2"
    have m: "lower \<le> middle" "middle < upper" using True by (auto simp: middle_def)
    have step: "f middle < h \<longleftrightarrow> middle < ?p"
      using m less.prems(3) mono by (intro partition_index_iff) (auto intro: le_less_trans)
    show ?thesis
    proof (cases "f middle < h")
      case True
      hence "LowerBoundLoop input view h (middle + 1) upper = Some ?p"
        using less step m by (intro less.hyps) auto
      with True m rd [of middle] less.prems(3) \<open>lower < upper\<close> show ?thesis
        by (subst LowerBoundLoop.simps) (simp add: Let_def flip: middle_def)
    next
      case False
      hence "LowerBoundLoop input view h lower middle = Some ?p"
        using less step m by (intro less.hyps) auto
      with False m rd [of middle] less.prems(3) \<open>lower < upper\<close> show ?thesis
        by (subst LowerBoundLoop.simps) (simp add: Let_def flip: middle_def)
    qed
  next
    case False
    with less.prems show ?thesis by (subst LowerBoundLoop.simps) simp
  qed
qed

text \<open>The reference: an entry carries the hash of the name and the name itself.\<close>

definition entry_is :: "bytes \<Rightarrow> PolicyIndexView \<Rightarrow> string \<Rightarrow> nat \<Rightarrow> bool" where
  "entry_is input view name index \<longleftrightarrow>
     Read32 input (EntryOffset view index + kPackageHashOffset) = Some (PackageNameHash name) \<and>
     EntryNameMatches input view name (EntryOffset view index) = Some True"

lemma EntryOffset_in_bounds:
  assumes "ValidPolicyIndex view" "index < unat (package_count view)"
  shows "EntryOffset view index + kPackageSize \<le> unat (string_offset view)"
    "unat (string_offset view) \<le> view_size view"
proof -
  from assms(1) have po: "package_offset view \<le> package_end view"
    and pe: "package_end view \<le> string_offset view"
    and so: "unat (string_offset view) \<le> view_size view"
    and cnt: "unat (package_count view) \<le> unat (package_end view - package_offset view) div kPackageSize"
    by (auto simp: ValidPolicyIndex_def)
  have "(index + 1) * kPackageSize \<le> unat (package_count view) * kPackageSize"
    using assms(2) by (intro mult_le_mono1) simp
  also have "\<dots> \<le> unat (package_end view - package_offset view)"
    using cnt by (metis div_times_less_eq_dividend le_trans mult_le_mono1)
  also have "\<dots> = unat (package_end view) - unat (package_offset view)"
    using po by (rule unat_sub)
  finally have "unat (package_offset view) + (index + 1) * kPackageSize \<le> unat (package_end view)"
    using po by (simp add: word_le_nat_alt)
  with pe show "EntryOffset view index + kPackageSize \<le> unat (string_offset view)"
    by (simp add: EntryOffset_def word_le_nat_alt algebra_simps)
  show "unat (string_offset view) \<le> view_size view" by (rule so)
qed

lemma EntryNameMatches_defined:
  assumes "entry + 8 \<le> length input" "view_size view = length input"
    "unat (string_offset view) \<le> view_size view"
  shows "EntryNameMatches input view name entry \<noteq> None"
proof -
  obtain r where r: "Read32 input (entry + kPackageNameOffset) = Some r"
    using assms(1) le32.rd_total [of "entry + kPackageNameOffset" input]
    by (auto simp: kPackageNameOffset_def)
  have "unat (string_offset view) + unat r + length name < length input"
    if "unat r < view_size view - unat (string_offset view)"
      and "length name < view_size view - unat (string_offset view) - unat r"
    using that assms by simp
  with r assms(2) show ?thesis
    by (auto simp: EntryNameMatches_def Let_def rd8_def rd_slice_def)
qed

lemma ScanEntries_correct:
  assumes v: "ValidPolicyIndex view" and sz: "view_size view = length input"
    and rd: "\<And>i. i < unat (package_count view) \<Longrightarrow>
      Read32 input (EntryOffset view i + kPackageHashOffset) = Some (f i)"
    and mono: "\<And>i j. i \<le> j \<Longrightarrow> j < unat (package_count view) \<Longrightarrow> f i \<le> f j"
  shows "(\<And>i. start \<le> i \<Longrightarrow> i < unat (package_count view) \<Longrightarrow> PackageNameHash name \<le> f i) \<Longrightarrow>
    ScanEntries input view name (PackageNameHash name) start =
      Some (map_option (EntryOffset view)
        (List.find (entry_is input view name) [start..<unat (package_count view)]))"
proof (induction "unat (package_count view) - start" arbitrary: start rule: less_induct)
  case less
  let ?n = "unat (package_count view)" and ?h = "PackageNameHash name"
  show ?case
  proof (cases "start < ?n")
    case True
    hence upt: "[start..<?n] = start # [start + 1..<?n]" by (simp add: upt_conv_Cons)
    have IH: "ScanEntries input view name ?h (start + 1) =
        Some (map_option (EntryOffset view) (List.find (entry_is input view name) [start + 1..<?n]))"
      using True less.prems by (intro less.hyps) auto
    have "EntryNameMatches input view name (EntryOffset view start) \<noteq> None"
      using EntryOffset_in_bounds [OF v True] sz
      by (intro EntryNameMatches_defined) (auto simp: kPackageSize_def)
    then obtain hit where hit: "EntryNameMatches input view name (EntryOffset view start) = Some hit"
      by blast
    show ?thesis
    proof (cases "f start = ?h")
      case True
      with hit IH rd [OF \<open>start < ?n\<close>] \<open>start < ?n\<close> show ?thesis
        by (subst ScanEntries.simps) (auto simp: upt entry_is_def)
    next
      case False
      have "\<not> entry_is input view name i" if "start \<le> i" "i < ?n" for i
      proof -
        have "?h < f start" using False less.prems [of start] \<open>start < ?n\<close> by (simp add: le_neq_trans)
        also have "f start \<le> f i" using mono that by blast
        finally show ?thesis using rd [OF that(2)] by (auto simp: entry_is_def)
      qed
      hence "List.find (entry_is input view name) [start..<?n] = None"
        by (auto simp: find_None_all)
      with False rd [OF \<open>start < ?n\<close>] \<open>start < ?n\<close> show ?thesis
        by (subst ScanEntries.simps) simp
    qed
  qed (subst ScanEntries.simps, simp)
qed

definition index_sorted :: "bytes \<Rightarrow> PolicyIndexView \<Rightarrow> bool" where
  "index_sorted input view \<longleftrightarrow>
     (\<forall>j < unat (package_count view). \<forall>i \<le> j.
        the (Read32 input (EntryOffset view i + kPackageHashOffset))
          \<le> the (Read32 input (EntryOffset view j + kPackageHashOffset)))"

lemma entry_hash_defined:
  assumes "ValidPolicyIndex view" "view_size view = length input" "i < unat (package_count view)"
  shows "Read32 input (EntryOffset view i + kPackageHashOffset) =
    Some (the (Read32 input (EntryOffset view i + kPackageHashOffset)))"
proof -
  have "EntryOffset view i + kPackageHashOffset + 4 \<le> length input"
    using EntryOffset_in_bounds [OF assms(1,3)] assms(2)
    by (simp add: kPackageHashOffset_def kPackageSize_def)
  thus ?thesis using le32.rd_total by fastforce
qed

lemma FindPackageEntry_linear:
  assumes v: "ValidPolicyIndex view" and d: "view_data view = Some input"
    and sz: "view_size view = length input" and ne: "name \<noteq> []" and srt: "index_sorted input view"
  shows "FindPackageEntry view name =
    Some (map_option (EntryOffset view)
      (List.find (entry_is input view name) [0..<unat (package_count view)]))"
proof -
  let ?n = "unat (package_count view)" and ?h = "PackageNameHash name"
  define f where "f i = the (Read32 input (EntryOffset view i + kPackageHashOffset))" for i
  let ?p = "partition_index (\<lambda>i. f i < ?h) ?n"
  have rd: "Read32 input (EntryOffset view i + kPackageHashOffset) = Some (f i)" if "i < ?n" for i
    using entry_hash_defined [OF v sz that] by (simp add: f_def)
  have mono: "f i \<le> f j" if "i \<le> j" "j < ?n" for i j
    using srt that by (auto simp: index_sorted_def f_def)
  have lt: "f i < ?h \<longleftrightarrow> i < ?p" if "i < ?n" for i
    using mono that by (intro partition_index_iff) (auto intro: le_less_trans)
  have ge: "?h \<le> f i" if "?p \<le> i" "i < ?n" for i
    using lt [OF that(2)] that(1) by (simp add: not_less [symmetric])
  have lower: "LowerBoundLoop input view ?h 0 ?n = Some ?p"
    by (rule LowerBoundLoop_correct [OF rd mono]) (auto simp: partition_index_le)
  have scan: "ScanEntries input view name ?h ?p =
      Some (map_option (EntryOffset view) (List.find (entry_is input view name) [?p..<?n]))"
    by (rule ScanEntries_correct [OF v sz rd mono]) (auto simp: ge)
  have "\<not> entry_is input view name i" if "i < ?p" for i
  proof -
    have i: "i < ?n" using that partition_index_le [of "\<lambda>i. f i < ?h" ?n] by simp
    have "f i \<noteq> ?h" using lt [OF i] that by auto
    thus ?thesis using rd [OF i] by (auto simp: entry_is_def)
  qed
  hence "List.find (entry_is input view name) [0..<?p] = None" by (simp add: find_None_all)
  moreover have "[0..<?n] = [0..<?p] @ [?p..<?n]"
    using partition_index_le [of "\<lambda>i. f i < ?h" ?n] by (metis le0 upt_add_eq_append le_add_diff_inverse)
  ultimately have "List.find (entry_is input view name) [0..<?n] =
      List.find (entry_is input view name) [?p..<?n]"
    by (simp add: find_append)
  with v d ne lower scan show ?thesis by (simp add: FindPackageEntry_def)
qed

text \<open>Memory safety needs no sortedness: every probe stays inside the mapped file.\<close>

lemma LowerBoundLoop_defined:
  assumes v: "ValidPolicyIndex view" and sz: "view_size view = length input"
  shows "upper \<le> unat (package_count view) \<Longrightarrow>
    \<exists>r. LowerBoundLoop input view h lower upper = Some r"
proof (induction "upper - lower" arbitrary: lower upper rule: less_induct)
  case less
  show ?case
  proof (cases "lower < upper")
    case True
    define middle where "middle = lower + (upper - lower) div 2"
    have m: "lower \<le> middle" "middle < upper" using True by (auto simp: middle_def)
    obtain x where "Read32 input (EntryOffset view middle + kPackageHashOffset) = Some x"
      using entry_hash_defined [OF v sz, of middle] m less.prems by auto
    moreover have "\<exists>r. LowerBoundLoop input view h (middle + 1) upper = Some r"
      by (rule less.hyps) (use m less.prems in auto)
    moreover have "\<exists>r. LowerBoundLoop input view h lower middle = Some r"
      by (rule less.hyps) (use m less.prems in auto)
    ultimately show ?thesis
      using True by (subst LowerBoundLoop.simps) (auto simp: Let_def simp flip: middle_def)
  qed (subst LowerBoundLoop.simps, simp)
qed

lemma ScanEntries_defined:
  assumes v: "ValidPolicyIndex view" and sz: "view_size view = length input"
  shows "\<exists>r. ScanEntries input view name h start = Some r"
proof (induction "unat (package_count view) - start" arbitrary: start rule: less_induct)
  case less
  show ?case
  proof (cases "start < unat (package_count view)")
    case True
    then obtain x where "Read32 input (EntryOffset view start + kPackageHashOffset) = Some x"
      using entry_hash_defined [OF v sz] by blast
    moreover have "EntryNameMatches input view name (EntryOffset view start) \<noteq> None"
      using EntryOffset_in_bounds [OF v True] sz
      by (intro EntryNameMatches_defined) (auto simp: kPackageSize_def)
    then obtain hit where "EntryNameMatches input view name (EntryOffset view start) = Some hit"
      by blast
    moreover have "\<exists>r. ScanEntries input view name h (start + 1) = Some r"
      by (rule less.hyps) (use True in linarith)
    ultimately show ?thesis using True by (subst ScanEntries.simps) auto
  qed (subst ScanEntries.simps, simp)
qed

lemma FindPackageEntry_defined:
  assumes sz: "\<And>input. view_data view = Some input \<Longrightarrow> view_size view = length input"
  shows "\<exists>r. FindPackageEntry view name = Some r"
proof (cases "ValidPolicyIndex view \<and> name \<noteq> []")
  case True
  then obtain input where d: "view_data view = Some input" by (auto simp: ValidPolicyIndex_def)
  have v: "ValidPolicyIndex view" using True by simp
  obtain l where "LowerBoundLoop input view (PackageNameHash name) 0
      (unat (package_count view)) = Some l"
    using LowerBoundLoop_defined [OF v sz [OF d]] by blast
  moreover obtain r where "ScanEntries input view name (PackageNameHash name) l = Some r"
    using ScanEntries_defined [OF v sz [OF d]] by blast
  ultimately show ?thesis using True d by (simp add: FindPackageEntry_def)
qed (auto simp: FindPackageEntry_def)

subsection \<open>Properties\<close>

text \<open>
  The runtime's package lookup, a binary search for the first entry with the hash followed
  by a scan over the entries with the same hash, is equivalent to a linear search over all entries
  for one that carries the hash and the name, on every valid index whose hashes are sorted.
\<close>

theorem FindPackageEntry_is_linear_search:
  assumes "ValidPolicyIndex view" "view_data view = Some input" "view_size view = length input"
    "name \<noteq> []" "index_sorted input view"
  shows "FindPackageEntry view name =
    Some (map_option (EntryOffset view)
      (List.find (entry_is input view name) [0..<unat (package_count view)]))"
  using assms by (rule FindPackageEntry_linear)

definition sample_index :: bytes where
  "sample_index =
     Put32 (PackageNameHash ''org.x'') @ Put32 0 @ replicate 40 0 @ string_bytes ''org.x'' @ [0]"

definition sample_view :: PolicyIndexView where
  "sample_view = \<lparr>view_data = Some sample_index, view_size = length sample_index, package_count = 1,
     package_offset = 0, package_end = 48, string_offset = 48\<rparr>"

theorem FindPackageEntry_is_linear_search_witness:
  "FindPackageEntry sample_view ''org.x'' = Some (Some 0)"
proof -
  have "ValidPolicyIndex sample_view" by code_simp
  moreover have "index_sorted sample_index sample_view"
    by (simp add: index_sorted_def sample_view_def)
  moreover have "List.find (entry_is sample_index sample_view ''org.x'') [0..<1] = Some 0"
    by code_simp
  moreover have "EntryOffset sample_view 0 = 0" by code_simp
  ultimately show ?thesis
    using FindPackageEntry_is_linear_search [of sample_view sample_index "''org.x''"]
    by (simp add: sample_view_def)
qed

text \<open>
  The package lookup never reads outside the mapped file, whether or not the index is
  sorted and whatever its bytes are; it always returns an entry or a null pointer.
\<close>

theorem FindPackageEntry_memory_safe:
  assumes "\<And>input. view_data view = Some input \<Longrightarrow> view_size view = length input"
  shows "\<exists>r. FindPackageEntry view name = Some r"
  using assms by (rule FindPackageEntry_defined)

theorem FindPackageEntry_memory_safe_witness: "\<exists>r. FindPackageEntry sample_view ''b'' = Some r"
  by (rule FindPackageEntry_memory_safe) (simp add: sample_view_def)

end
