(* ===== verification/PG_Binary.thy ===== *)
theory PG_Binary
  imports PG_Policy PG_Format
begin

text \<open>
  The binary policy codec, \<open>core/src/binary.cpp\<close>: the canonical plan bytes and the generations
  hashed from them, the string table, the canonicalisation of a document, \<open>EncodePolicy\<close> and
  \<open>DecodePolicy\<close>.

  \<open>DecodePolicy\<close> reads raw memory, so it returns an \<open>option\<close>: \<open>None\<close> stands for a read outside the
  input, \<open>Some (Inl e)\<close> for a rejected file (\<open>e\<close> is the reported error, absent where the source
  returns before writing one) and \<open>Some (Inr (document, generation))\<close> for success.  Sizes of
  vectors are naturals; every value that the source keeps in a \<open>uint32_t\<close> is a 32-bit word.
\<close>

subsection \<open>Canonical plan bytes and generations\<close>

definition PutCanonicalString :: "string \<Rightarrow> bytes" where
  "PutCanonicalString value = Put32 (of_nat (length value)) @ string_bytes value"

definition PutCanonicalMount :: "LogicalMountRule \<Rightarrow> bytes" where
  "PutCanonicalMount rule =
     Put8 (MountAction_code (mount_action rule)) @ Put16 (mount_depth rule) @
     Put16 (mount_flags rule) @ PutCanonicalString (visible_path rule) @
     PutCanonicalString (backing_path rule)"

definition PutCanonicalEvent :: "EventRule \<Rightarrow> bytes" where
  "PutCanonicalEvent rule =
     Put8 (EventAction_code (event_action rule)) @ Put32 (event_options rule) @
     PutCanonicalString (source_path rule) @ PutCanonicalString (target_path rule)"

definition CanonicalPlan :: "AppPolicy \<Rightarrow> FailureMode \<Rightarrow> bool \<Rightarrow> bytes" where
  "CanonicalPlan policy fmode legacy =
     string_bytes ''PGPL5'' @ [0] @ Put8 (FailureMode_code fmode) @
     Put8 (MediaCompat_code (media_compat policy)) @
     Put8 (ProviderCompat_code (provider_compat policy)) @ Put8 (if legacy then 1 else 0) @
     PutCanonicalString (package policy) @
     Put32 (of_nat (length (users policy))) @ concat (map PutCanonicalString (users policy)) @
     Put32 (of_nat (length (processes policy))) @
     concat (map PutCanonicalString (processes policy)) @
     Put32 (of_nat (length (mounts policy))) @ concat (map PutCanonicalMount (mounts policy)) @
     Put32 (of_nat (length (events policy))) @ concat (map PutCanonicalEvent (events policy))"

definition PlanGeneration :: "AppPolicy \<Rightarrow> FailureMode \<Rightarrow> bool \<Rightarrow> u64" where
  "PlanGeneration policy fmode legacy = Fnv1a64 (CanonicalPlan policy fmode legacy)"

definition ContentGeneration :: "PolicyDocument \<Rightarrow> u64" where
  "ContentGeneration document =
     (let sorted_apps = sort_key package (apps document) in
      Fnv1a64 (string_bytes ''PGIR5'' @ [0] @ Put16 (of_int (schema document)) @
        Put8 (FailureMode_code (failure_mode document)) @
        Put8 (if allow_legacy_string_bind document then 1 else 0) @
        Put32 (of_nat (length sorted_apps)) @
        concat (map (\<lambda>app.
          let plan = CanonicalPlan app (failure_mode document) (allow_legacy_string_bind document)
          in Put32 (of_nat (length plan)) @ plan) sorted_apps)))"

subsection \<open>Comma-separated lists\<close>

definition Join :: "string list \<Rightarrow> string" where
  "Join vals =
     concat (map (\<lambda>index. (if index \<noteq> 0 then '','' else []) @ vals ! index) [0..<length vals])"

fun SplitListLoop :: "string \<Rightarrow> string list \<Rightarrow> string list option" where
  "SplitListLoop rest acc =
     (let item = takeWhile (\<lambda>c. c \<noteq> CHR '','') rest in
      if item = [] then None
      else case dropWhile (\<lambda>c. c \<noteq> CHR '','') rest of
             [] \<Rightarrow> Some (acc @ [item])
           | _ # rest' \<Rightarrow> SplitListLoop rest' (acc @ [item]))"

declare SplitListLoop.simps [simp del]

definition Split :: "string \<Rightarrow> string list option" where
  "Split text = SplitListLoop text []"

interpretation comma: component_loop "CHR '',''" "\<lambda>p. p \<noteq> []" SplitListLoop
  by unfold_locales (subst SplitListLoop.simps, simp)

lemma Join_eq: "Join vals = join_with CHR '','' vals"
proof (induction vals rule: rev_induct)
  case (snoc v vs)
  have "concat (map (\<lambda>i. (if i \<noteq> 0 then '','' else []) @ (vs @ [v]) ! i) [0..<length vs]) =
      Join vs"
    unfolding Join_def by (intro arg_cong [where f = concat] map_cong refl) (auto simp: nth_append)
  hence "Join (vs @ [v]) = Join vs @ (if vs = [] then [] else '','') @ v"
    by (subst Join_def) simp
  with snoc show ?case
    by (cases "vs = []") (auto simp: join_with_append)
qed (simp add: Join_def)

lemma Split_Join:
  assumes "vals \<noteq> []" "\<forall>v \<in> set vals. v \<noteq> [] \<and> CHR '','' \<notin> set v"
  shows "Split (Join vals) = Some vals"
  using assms by (simp add: Split_def Join_eq comma.loop_join)

subsection \<open>The string table\<close>

record StringTable =
  table_offsets :: "string \<rightharpoonup> u32"
  table_bytes :: bytes

definition StringTable_Add :: "StringTable \<Rightarrow> string \<Rightarrow> u32 \<times> StringTable" where
  "StringTable_Add table text =
     (case table_offsets table text of
        Some offset \<Rightarrow> (offset, table)
      | None \<Rightarrow>
          let offset = of_nat (length (table_bytes table)) in
          (offset, table\<lparr>table_offsets := (table_offsets table)(text \<mapsto> offset),
                         table_bytes := table_bytes table @ string_bytes text @ [0]\<rparr>))"

definition StringTable_new :: StringTable where
  "StringTable_new = snd (StringTable_Add \<lparr>table_offsets = Map.empty, table_bytes = []\<rparr> [])"

definition ReadString :: "bytes \<Rightarrow> u32 \<Rightarrow> u32 \<Rightarrow> string option" where
  "ReadString input str_offset relative_offset =
     (if unat str_offset > length input \<or>
         unat relative_offset \<ge> length input - unat str_offset then None
      else let begin = unat (str_offset + relative_offset);
               text = takeWhile (\<lambda>b. b \<noteq> 0) (drop begin input) in
           if begin + length text \<ge> length input then None
           else Some (bytes_string text))"

subsection \<open>Canonical documents\<close>

definition SameMount :: "LogicalMountRule \<Rightarrow> LogicalMountRule \<Rightarrow> bool" where
  "SameMount lhs rhs \<longleftrightarrow>
     mount_action lhs = mount_action rhs \<and> visible_path lhs = visible_path rhs \<and>
     backing_path lhs = backing_path rhs \<and> mount_depth lhs = mount_depth rhs \<and>
     mount_flags lhs = mount_flags rhs"

definition SameEvent :: "EventRule \<Rightarrow> EventRule \<Rightarrow> bool" where
  "SameEvent lhs rhs \<longleftrightarrow>
     event_action lhs = event_action rhs \<and> source_path lhs = source_path rhs \<and>
     target_path lhs = target_path rhs \<and> event_options lhs = event_options rhs"

definition Fail :: "string \<Rightarrow> ParseError option + 'a" where
  "Fail message = Inl (Some \<lparr>error_line = 0, error_message = message\<rparr>)"

text \<open>The loop over the applications, with the set of packages seen so far.\<close>

fun CanonicalizeApps :: "string set \<Rightarrow> AppPolicy list \<Rightarrow> ParseError option + AppPolicy list" where
  "CanonicalizeApps packages [] = Inr []"
| "CanonicalizeApps packages (app # rest) =
     (if package app \<in> packages then Fail ''duplicate package''
      else case ValidatePolicy app of
             Inl e \<Rightarrow> Inl e
           | Inr app' \<Rightarrow>
               if media_compat app' \<noteq> MediaOff
               then Fail ''media compatibility is not executable in redirect-only R1''
               else if \<not> list_all (\<lambda>r. mount_action r = MountRedirect \<or> mount_action r = MountDeny)
                          (mounts app')
               then Fail ''mount action is not executable in Phase R1''
               else if events app' \<noteq> [] then Fail ''event action is not executable before Phase R4''
               else case CanonicalizeApps (insert (package app) packages) rest of
                      Inl e \<Rightarrow> Inl e
                    | Inr rest' \<Rightarrow> Inr (app' # rest'))"

definition CanonicalizeDocument :: "PolicyDocument \<Rightarrow> ParseError option + PolicyDocument" where
  "CanonicalizeDocument input =
     (if schema input \<noteq> uint kSchemaVersion \<or> failure_mode input \<noteq> FailureOpen \<or> apps input = []
      then Fail ''policy document is not executable schema 2''
      else case CanonicalizeApps {} (apps input) of
             Inl e \<Rightarrow> Inl e
           | Inr as \<Rightarrow> Inr (input\<lparr>apps := as\<rparr>))"

definition ComputeContentGeneration :: "PolicyDocument \<Rightarrow> u64" where
  "ComputeContentGeneration document =
     (case CanonicalizeDocument document of
        Inl _ \<Rightarrow> 0
      | Inr canonical \<Rightarrow> ContentGeneration canonical)"

definition ComputePlanGeneration :: "AppPolicy \<Rightarrow> FailureMode \<Rightarrow> bool \<Rightarrow> u64" where
  "ComputePlanGeneration policy fmode legacy =
     (if fmode \<noteq> FailureOpen then 0
      else case ValidatePolicy policy of
             Inl _ \<Rightarrow> 0
           | Inr canonical \<Rightarrow> PlanGeneration canonical fmode legacy)"

subsection \<open>Encoding\<close>

text \<open>The 48 bytes of a package entry and the 16 bytes of a rule entry, in the order of the
  \<open>Put\<close> calls.\<close>

definition PutPackageEntry ::
  "u32 \<Rightarrow> u32 \<Rightarrow> u32 \<Rightarrow> u32 \<Rightarrow> u32 \<Rightarrow> u32 \<Rightarrow> u32 \<Rightarrow> u32 \<Rightarrow> u64 \<Rightarrow> u8 \<Rightarrow> u8 \<Rightarrow> u8 \<Rightarrow> bytes" where
  "PutPackageEntry hash name us procs first_m n_m first_e n_e plan failure media provider =
     Put32 hash @ Put32 name @ Put32 us @ Put32 procs @ Put32 first_m @ Put32 n_m @
     Put32 first_e @ Put32 n_e @ Put64 plan @ Put8 failure @ Put8 media @ Put8 provider @
     Put8 0 @ Put32 0"

definition PutMountEntry :: "u8 \<Rightarrow> u16 \<Rightarrow> u16 \<Rightarrow> u32 \<Rightarrow> u32 \<Rightarrow> bytes" where
  "PutMountEntry action depth flags visible backing =
     Put8 action @ Put8 0 @ Put16 depth @ Put16 flags @ Put16 0 @ Put32 visible @ Put32 backing"

definition PutEventEntry :: "u8 \<Rightarrow> u32 \<Rightarrow> u32 \<Rightarrow> u32 \<Rightarrow> bytes" where
  "PutEventEntry action source target options =
     Put8 action @ Put8 0 @ Put16 0 @ Put32 source @ Put32 target @ Put32 options"

fun EncodeMounts :: "StringTable \<Rightarrow> LogicalMountRule list \<Rightarrow> bytes \<times> StringTable" where
  "EncodeMounts strings [] = ([], strings)"
| "EncodeMounts strings (rule # rules) =
     (let (visible, strings1) = StringTable_Add strings (visible_path rule);
          (backing, strings2) = StringTable_Add strings1 (backing_path rule);
          (rest, strings3) = EncodeMounts strings2 rules
      in (PutMountEntry (MountAction_code (mount_action rule)) (mount_depth rule)
            (mount_flags rule) visible backing @ rest, strings3))"

fun EncodeEvents :: "StringTable \<Rightarrow> EventRule list \<Rightarrow> bytes \<times> StringTable" where
  "EncodeEvents strings [] = ([], strings)"
| "EncodeEvents strings (rule # rules) =
     (let (source, strings1) = StringTable_Add strings (source_path rule);
          (target, strings2) = StringTable_Add strings1 (target_path rule);
          (rest, strings3) = EncodeEvents strings2 rules
      in (PutEventEntry (EventAction_code (event_action rule)) source target
            (event_options rule) @ rest, strings3))"

record EncodeState =
  enc_packages :: bytes
  enc_mounts :: bytes
  enc_events :: bytes
  enc_strings :: StringTable
  enc_first_mount :: u32
  enc_first_event :: u32

definition EncodeApp :: "FailureMode \<Rightarrow> bool \<Rightarrow> EncodeState \<Rightarrow> AppPolicy \<Rightarrow> EncodeState" where
  "EncodeApp fmode legacy st app =
     (let (name, t1) = StringTable_Add (enc_strings st) (package app);
          (us, t2) = StringTable_Add t1 (Join (users app));
          (procs, t3) = StringTable_Add t2 (Join (processes app));
          (mount_bytes, t4) = EncodeMounts t3 (mounts app);
          (event_bytes, t5) = EncodeEvents t4 (events app)
      in \<lparr>enc_packages = enc_packages st @
            PutPackageEntry (PackageNameHash (package app)) name us procs
              (enc_first_mount st) (of_nat (length (mounts app)))
              (enc_first_event st) (of_nat (length (events app)))
              (PlanGeneration app fmode legacy) (FailureMode_code fmode)
              (MediaCompat_code (media_compat app)) (ProviderCompat_code (provider_compat app)),
          enc_mounts = enc_mounts st @ mount_bytes,
          enc_events = enc_events st @ event_bytes,
          enc_strings = t5,
          enc_first_mount = enc_first_mount st + of_nat (length (mounts app)),
          enc_first_event = enc_first_event st + of_nat (length (events app))\<rparr>)"

definition EncodeInit :: EncodeState where
  "EncodeInit = \<lparr>enc_packages = [], enc_mounts = [], enc_events = [],
     enc_strings = StringTable_new, enc_first_mount = 0, enc_first_event = 0\<rparr>"

definition PutHeader ::
  "u32 \<Rightarrow> u32 \<Rightarrow> u64 \<Rightarrow> u32 \<Rightarrow> u32 \<Rightarrow> u32 \<Rightarrow> u32 \<Rightarrow> u32 \<Rightarrow> u32 \<Rightarrow> u32 \<Rightarrow> u32 \<Rightarrow> bytes" where
  "PutHeader file_size checksum generation n_packages n_mounts n_events
     off_packages off_mounts off_events off_strings flags =
     Put32 kMagic @ Put16 kFormatVersion @ Put16 kSchemaVersion @ Put32 file_size @
     Put32 checksum @ Put64 generation @ Put32 n_packages @ Put32 n_mounts @ Put32 n_events @
     Put32 off_packages @ Put32 off_mounts @ Put32 off_events @ Put32 off_strings @ Put32 flags"

definition PackageOrder :: "AppPolicy \<Rightarrow> u32 \<times> string" where
  "PackageOrder app = (PackageNameHash (package app), package app)"

definition kMaxU32 :: nat where "kMaxU32 = 2 ^ 32 - 1"

definition EncodePolicy :: "PolicyDocument \<Rightarrow> ParseError option + bytes" where
  "EncodePolicy document =
     (case CanonicalizeDocument document of
        Inl e \<Rightarrow> Inl e
      | Inr canonical \<Rightarrow>
        (let mount_count = sum_list (map (length \<circ> mounts) (apps canonical));
             event_count = sum_list (map (length \<circ> events) (apps canonical)) in
         if length (apps canonical) > kMaxU32 \<or> mount_count > kMaxU32 \<or> event_count > kMaxU32
         then Fail ''policy table count overflow''
         else
           let sorted_apps = sort_key PackageOrder (apps canonical);
               st = foldl (EncodeApp (failure_mode canonical) (allow_legacy_string_bind canonical))
                      EncodeInit sorted_apps;
               payload = enc_packages st @ enc_mounts st @ enc_events st @
                         table_bytes (enc_strings st);
               file_size = kHeaderSize + length payload in
           if file_size > kMaxU32 then Fail ''policy file too large''
           else
             let off_packages = of_nat kHeaderSize;
                 off_mounts = off_packages + of_nat (length (enc_packages st));
                 off_events = off_mounts + of_nat (length (enc_mounts st));
                 off_strings = off_events + of_nat (length (enc_events st));
                 output = PutHeader (of_nat file_size) 0 (ContentGeneration canonical)
                            (of_nat (length sorted_apps)) (of_nat mount_count)
                            (of_nat event_count) off_packages off_mounts off_events off_strings
                            (if allow_legacy_string_bind canonical
                             then kPolicyFlagAllowLegacyStringBind else 0) @ payload;
                 checksum = Crc32 (drop kHeaderSize output) in
             Inr (Store32 output kPayloadChecksumOffset checksum)))"

subsection \<open>Decoding\<close>

record PolicyHeader =
  hdr_file_size :: u32
  hdr_checksum :: u32
  hdr_package_count :: u32
  hdr_mount_count :: u32
  hdr_event_count :: u32
  hdr_package_offset :: u32
  hdr_mount_offset :: u32
  hdr_event_offset :: u32
  hdr_string_offset :: u32
  hdr_flags :: u32

definition ReadHeader :: "bytes \<Rightarrow> PolicyHeader option" where
  "ReadHeader input =
     do { file_size \<leftarrow> Read32 input kFileSizeOffset;
          checksum \<leftarrow> Read32 input kPayloadChecksumOffset;
          n_packages \<leftarrow> Read32 input kPackageCountOffset;
          n_mounts \<leftarrow> Read32 input kMountRuleCountOffset;
          n_events \<leftarrow> Read32 input kEventRuleCountOffset;
          off_packages \<leftarrow> Read32 input kPackageTableOffset;
          off_mounts \<leftarrow> Read32 input kMountRuleTableOffset;
          off_events \<leftarrow> Read32 input kEventRuleTableOffset;
          off_strings \<leftarrow> Read32 input kStringTableOffset;
          flags \<leftarrow> Read32 input kHeaderFlagsOffset;
          Some \<lparr>hdr_file_size = file_size, hdr_checksum = checksum,
                hdr_package_count = n_packages, hdr_mount_count = n_mounts,
                hdr_event_count = n_events, hdr_package_offset = off_packages,
                hdr_mount_offset = off_mounts, hdr_event_offset = off_events,
                hdr_string_offset = off_strings, hdr_flags = flags\<rparr> }"

text \<open>The table offsets the header must carry, computed in 64 bits.\<close>

definition ExpectedMountOffset :: "PolicyHeader \<Rightarrow> nat" where
  "ExpectedMountOffset h = kHeaderSize + unat (hdr_package_count h) * kPackageSize"

definition ExpectedEventOffset :: "PolicyHeader \<Rightarrow> nat" where
  "ExpectedEventOffset h = ExpectedMountOffset h + unat (hdr_mount_count h) * kMountRuleSize"

definition ExpectedStringOffset :: "PolicyHeader \<Rightarrow> nat" where
  "ExpectedStringOffset h = ExpectedEventOffset h + unat (hdr_event_count h) * kEventRuleSize"

definition HeaderValid :: "bytes \<Rightarrow> PolicyHeader \<Rightarrow> bool option" where
  "HeaderValid input h =
     do { magic \<leftarrow> Read32 input 0;
          version \<leftarrow> Read16 input 4;
          schema_version \<leftarrow> Read16 input 6;
          Some (magic = kMagic \<and> version = kFormatVersion \<and> schema_version = kSchemaVersion \<and>
            unat (hdr_file_size h) = length input \<and> hdr_package_count h \<noteq> 0 \<and>
            unat (hdr_package_offset h) = kHeaderSize \<and>
            unat (hdr_mount_offset h) = ExpectedMountOffset h \<and>
            unat (hdr_event_offset h) = ExpectedEventOffset h \<and>
            unat (hdr_string_offset h) = ExpectedStringOffset h \<and>
            unat (hdr_string_offset h) < length input \<and>
            and (hdr_flags h) (not kPolicyFlagAllowLegacyStringBind) = 0 \<and>
            Crc32 (drop kHeaderSize input) = hdr_checksum h) }"

text \<open>The casts after the range checks.\<close>

definition MountAction_of :: "u8 \<Rightarrow> MountAction" where
  "MountAction_of c =
     (if c = 0 then MountDeny else if c = 1 then MountRedirect
      else if c = 2 then MountRestore else MountIsolateRoot)"

definition EventAction_of :: "u8 \<Rightarrow> EventAction" where
  "EventAction_of c = (if c = 0 then EventObserve else EventExport)"

definition MediaCompat_of :: "u8 \<Rightarrow> MediaCompat" where
  "MediaCompat_of c = (if c = 0 then MediaOff else MediaHideDenied)"

definition ProviderCompat_of :: "u8 \<Rightarrow> ProviderCompat" where
  "ProviderCompat_of c = (if c = 0 then ProviderOff else ProviderVirtualize)"

definition FailureMode_of :: "u8 \<Rightarrow> FailureMode" where
  "FailureMode_of c = (if c = 0 then FailureOpen else FailureClosed)"

definition DecodeMount ::
  "bytes \<Rightarrow> PolicyHeader \<Rightarrow> u32 \<Rightarrow> (ParseError option + LogicalMountRule) option" where
  "DecodeMount input h index =
     (let rule = unat (hdr_mount_offset h) + unat index * kMountRuleSize in
      do { reserved8 \<leftarrow> rd8 input (rule + 1);
           reserved16 \<leftarrow> Read16 input (rule + 6);
           action \<leftarrow> rd8 input (rule + kMountActionOffset);
           if reserved8 \<noteq> 0 \<or> reserved16 \<noteq> 0 \<or> action > MountAction_code MountIsolateRoot
           then Some (Fail ''invalid mount action'')
           else do {
             depth \<leftarrow> Read16 input (rule + kMountDepthOffset);
             flags \<leftarrow> Read16 input (rule + kMountFlagsOffset);
             visible \<leftarrow> Read32 input (rule + kMountVisiblePathOffset);
             backing \<leftarrow> Read32 input (rule + kMountBackingPathOffset);
             Some (case (ReadString input (hdr_string_offset h) visible,
                         ReadString input (hdr_string_offset h) backing) of
                     (Some v, Some b) \<Rightarrow>
                       Inr \<lparr>mount_action = MountAction_of action, visible_path = v,
                            backing_path = b, mount_depth = depth, mount_flags = flags,
                            mount_line = 0\<rparr>
                   | _ \<Rightarrow> Fail ''invalid mount strings'') } })"

definition DecodeEvent ::
  "bytes \<Rightarrow> PolicyHeader \<Rightarrow> u32 \<Rightarrow> (ParseError option + EventRule) option" where
  "DecodeEvent input h index =
     (let rule = unat (hdr_event_offset h) + unat index * kEventRuleSize in
      do { reserved8 \<leftarrow> rd8 input (rule + 1);
           reserved16 \<leftarrow> Read16 input (rule + 2);
           action \<leftarrow> rd8 input (rule + kEventActionOffset);
           if reserved8 \<noteq> 0 \<or> reserved16 \<noteq> 0 \<or> action > EventAction_code EventExport
           then Some (Fail ''invalid event action'')
           else do {
             options \<leftarrow> Read32 input (rule + kEventOptionsOffset);
             source \<leftarrow> Read32 input (rule + kEventSourcePathOffset);
             target \<leftarrow> Read32 input (rule + kEventTargetPathOffset);
             Some (case (ReadString input (hdr_string_offset h) source,
                         ReadString input (hdr_string_offset h) target) of
                     (Some s, Some t) \<Rightarrow>
                       Inr \<lparr>event_action = EventAction_of action, source_path = s,
                            target_path = t, event_options = options, event_line = 0\<rparr>
                   | _ \<Rightarrow> Fail ''invalid event strings'') } })"

text \<open>The rule loops: \<open>for (rule_index = 0; rule_index < count; ++rule_index)\<close>, stopping at the first
  rejected rule.\<close>

fun DecodeRules ::
  "(u32 \<Rightarrow> (ParseError option + 'r) option) \<Rightarrow> u32 \<Rightarrow> nat list \<Rightarrow>
   (ParseError option + 'r list) option" where
  "DecodeRules decode first [] = Some (Inr [])"
| "DecodeRules decode first (rule_index # rest) =
     do { r \<leftarrow> decode (first + of_nat rule_index);
          case r of
            Inl e \<Rightarrow> Some (Inl e)
          | Inr rule \<Rightarrow>
              do { rs \<leftarrow> DecodeRules decode first rest;
                   Some (case rs of Inl e \<Rightarrow> Inl e | Inr rules \<Rightarrow> Inr (rule # rules)) } }"

record DecodeState =
  previous_hash :: u32
  previous_package :: string
  expected_first_mount :: u32
  expected_first_event :: u32
  decoded_failure_mode :: FailureMode
  decoded_apps :: "AppPolicy list"

text \<open>The checks of a package entry after its strings are read: the validation of the decoded policy
  must not change its rules, and the plan generation must match.\<close>

definition FinishPackage ::
  "bytes \<Rightarrow> nat \<Rightarrow> bool \<Rightarrow> FailureMode \<Rightarrow> AppPolicy \<Rightarrow> (ParseError option + AppPolicy) option" where
  "FinishPackage input entry legacy fmode encoded_order =
     (case ValidatePolicy encoded_order of
        Inl _ \<Rightarrow> Some (Fail ''invalid canonical package plan'')
      | Inr app \<Rightarrow>
          if length (mounts app) \<noteq> length (mounts encoded_order) \<or>
             length (events app) \<noteq> length (events encoded_order)
          then Some (Fail ''invalid canonical package plan'')
          else if \<not> list_all2 SameMount (mounts app) (mounts encoded_order)
          then Some (Fail ''unordered mount table'')
          else if \<not> list_all2 SameEvent (events app) (events encoded_order)
          then Some (Fail ''unordered event table'')
          else do { generation \<leftarrow> Read64 input (entry + kPackagePlanGenerationOffset);
                    Some (if PlanGeneration app fmode legacy \<noteq> generation
                          then Fail ''invalid plan generation'' else Inr app) })"

definition DecodePackage ::
  "bytes \<Rightarrow> PolicyHeader \<Rightarrow> bool \<Rightarrow> DecodeState \<Rightarrow> nat \<Rightarrow>
   (ParseError option + DecodeState) option" where
  "DecodePackage input h legacy st index =
     (let entry = unat (hdr_package_offset h) + index * kPackageSize in
      do { package_hash \<leftarrow> Read32 input (entry + kPackageHashOffset);
           name_offset \<leftarrow> Read32 input (entry + kPackageNameOffset);
           users_offset \<leftarrow> Read32 input (entry + kPackageUsersOffset);
           processes_offset \<leftarrow> Read32 input (entry + kPackageProcessesOffset);
           case (ReadString input (hdr_string_offset h) name_offset,
                 do { t \<leftarrow> ReadString input (hdr_string_offset h) users_offset; Split t },
                 do { t \<leftarrow> ReadString input (hdr_string_offset h) processes_offset; Split t }) of
             (Some name, Some us, Some procs) \<Rightarrow>
               if PackageNameHash name \<noteq> package_hash \<or>
                  (index > 0 \<and> (package_hash < previous_hash st \<or>
                    (package_hash = previous_hash st \<and> name \<le> previous_package st)))
               then Some (Fail ''invalid package index'')
               else do {
                 failure \<leftarrow> rd8 input (entry + kPackageFailureModeOffset);
                 media \<leftarrow> rd8 input (entry + kPackageMediaCompatOffset);
                 provider \<leftarrow> rd8 input (entry + kPackageProviderCompatOffset);
                 reserved8 \<leftarrow> rd8 input (entry + 43);
                 reserved32 \<leftarrow> Read32 input (entry + 44);
                 if failure > FailureMode_code FailureClosed \<or>
                    media > MediaCompat_code MediaHideDenied \<or>
                    provider > ProviderCompat_code ProviderVirtualize \<or>
                    reserved8 \<noteq> 0 \<or> reserved32 \<noteq> 0
                 then Some (Fail ''invalid package flags'')
                 else if FailureMode_of failure \<noteq> FailureOpen \<or>
                    (index > 0 \<and> FailureMode_of failure \<noteq> decoded_failure_mode st)
                 then Some (Fail ''unsupported failure mode'')
                 else do {
                   first_mount \<leftarrow> Read32 input (entry + kPackageFirstMountOffset);
                   app_mount_count \<leftarrow> Read32 input (entry + kPackageMountCountOffset);
                   first_event \<leftarrow> Read32 input (entry + kPackageFirstEventOffset);
                   app_event_count \<leftarrow> Read32 input (entry + kPackageEventCountOffset);
                   if first_mount \<noteq> expected_first_mount st \<or>
                      app_mount_count > hdr_mount_count h - first_mount \<or>
                      first_event \<noteq> expected_first_event st \<or>
                      app_event_count > hdr_event_count h - first_event
                   then Some (Fail ''invalid package rule range'')
                   else do {
                     ms \<leftarrow> DecodeRules (DecodeMount input h) first_mount
                             [0..<unat app_mount_count];
                     case ms of
                       Inl e \<Rightarrow> Some (Inl e)
                     | Inr decoded_mounts \<Rightarrow> do {
                         es \<leftarrow> DecodeRules (DecodeEvent input h) first_event
                                 [0..<unat app_event_count];
                         case es of
                           Inl e \<Rightarrow> Some (Inl e)
                         | Inr decoded_events \<Rightarrow> do {
                             fin \<leftarrow> FinishPackage input entry legacy (FailureMode_of failure)
                               \<lparr>package = name, media_compat = MediaCompat_of media,
                                provider_compat = ProviderCompat_of provider, users = us,
                                processes = procs, mounts = decoded_mounts,
                                events = decoded_events\<rparr>;
                             Some (case fin of
                                     Inl e \<Rightarrow> Inl e
                                   | Inr app \<Rightarrow>
                                       Inr \<lparr>previous_hash = package_hash,
                                            previous_package = name,
                                            expected_first_mount =
                                              expected_first_mount st + app_mount_count,
                                            expected_first_event =
                                              expected_first_event st + app_event_count,
                                            decoded_failure_mode = FailureMode_of failure,
                                            decoded_apps = decoded_apps st @ [app]\<rparr>) } } } } }
           | _ \<Rightarrow> Some (Fail ''invalid package strings'') })"

fun DecodePackages ::
  "bytes \<Rightarrow> PolicyHeader \<Rightarrow> bool \<Rightarrow> DecodeState \<Rightarrow> nat list \<Rightarrow>
   (ParseError option + DecodeState) option" where
  "DecodePackages input h legacy st [] = Some (Inr st)"
| "DecodePackages input h legacy st (index # rest) =
     do { r \<leftarrow> DecodePackage input h legacy st index;
          case r of Inl e \<Rightarrow> Some (Inl e)
          | Inr st' \<Rightarrow> DecodePackages input h legacy st' rest }"

definition DecodeInit :: DecodeState where
  "DecodeInit = \<lparr>previous_hash = 0, previous_package = [], expected_first_mount = 0,
     expected_first_event = 0, decoded_failure_mode = FailureOpen, decoded_apps = []\<rparr>"

definition DecodePolicy ::
  "bytes \<Rightarrow> (ParseError option + (PolicyDocument \<times> u64)) option" where
  "DecodePolicy input =
     (if length input < kHeaderSize then Some (Inl None)
      else do {
        h \<leftarrow> ReadHeader input;
        valid \<leftarrow> HeaderValid input h;
        if \<not> valid then Some (Fail ''invalid policy header or checksum'')
        else do {
          let legacy = and (hdr_flags h) kPolicyFlagAllowLegacyStringBind \<noteq> 0;
          r \<leftarrow> DecodePackages input h legacy DecodeInit [0..<unat (hdr_package_count h)];
          case r of
            Inl e \<Rightarrow> Some (Inl e)
          | Inr st \<Rightarrow>
              if expected_first_mount st \<noteq> hdr_mount_count h \<or>
                 expected_first_event st \<noteq> hdr_event_count h
              then Some (Fail ''unreferenced policy rule'')
              else do {
                encoded_generation \<leftarrow> Read64 input kContentGenerationOffset;
                let decoded = \<lparr>schema = uint kSchemaVersion,
                               failure_mode = decoded_failure_mode st,
                               allow_legacy_string_bind = legacy,
                               apps = decoded_apps st\<rparr>;
                Some (if ContentGeneration decoded \<noteq> encoded_generation
                      then Fail ''invalid content generation''
                      else Inr (decoded, encoded_generation)) } } })"

subsection \<open>Every read of the decoder stays inside the file\<close>

lemma u32_range:
  fixes first count total :: u32
  assumes "first \<le> total" "count \<le> total - first"
  shows "unat (first + count) = unat first + unat count" "first + count \<le> total"
    "i < unat count \<Longrightarrow> unat (first + of_nat i) = unat first + i"
    "i < unat count \<Longrightarrow> unat first + i < unat total"
proof -
  have le: "unat first + unat count \<le> unat total"
    using assms by (simp add: word_le_nat_alt unat_sub)
  have tot: "unat total < 2 ^ 32" using unsigned_less [of total] by simp
  show sum: "unat (first + count) = unat first + unat count"
    using le tot by (subst unat_add_lem [symmetric]) simp
  with le show "first + count \<le> total" by (simp add: word_le_nat_alt)
  assume i: "i < unat count"
  hence "unat (of_nat i :: u32) = i"
    using le tot by (simp add: unat_of_nat)
  moreover from this have "unat first + unat (of_nat i :: u32) < 2 ^ 32"
    using i le tot by simp
  ultimately show "unat (first + of_nat i) = unat first + i"
    using unat_add_lem [of first "of_nat i"] by simp
  show "unat first + i < unat total" using i le by simp
qed

definition table_layout :: "bytes \<Rightarrow> PolicyHeader \<Rightarrow> bool" where
  "table_layout input h \<longleftrightarrow>
     unat (hdr_package_offset h) = kHeaderSize \<and>
     unat (hdr_mount_offset h) = ExpectedMountOffset h \<and>
     unat (hdr_event_offset h) = ExpectedEventOffset h \<and>
     unat (hdr_string_offset h) = ExpectedStringOffset h \<and>
     unat (hdr_string_offset h) < length input"

lemmas layout_defs =
  table_layout_def ExpectedMountOffset_def ExpectedEventOffset_def ExpectedStringOffset_def size_defs

lemma bind_defined: "a \<noteq> None \<Longrightarrow> (\<And>x. a = Some x \<Longrightarrow> f x \<noteq> None) \<Longrightarrow> Option.bind a f \<noteq> None"
  by (cases a) auto

lemma if_defined: "(c \<Longrightarrow> a \<noteq> None) \<Longrightarrow> (\<not> c \<Longrightarrow> b \<noteq> None) \<Longrightarrow> (if c then a else b) \<noteq> None"
  by simp

lemmas rd_defined_simps = le8.rd_defined le16.rd_defined le32.rd_defined le64.rd_defined

lemma ReadHeader_defined: "kHeaderSize \<le> length input \<Longrightarrow> ReadHeader input \<noteq> None"
  unfolding ReadHeader_def header_offset_defs kHeaderSize_def
  by (intro bind_defined) (simp_all add: rd_defined_simps del: not_None_eq)

lemma HeaderValid_defined: "kHeaderSize \<le> length input \<Longrightarrow> HeaderValid input h \<noteq> None"
  unfolding HeaderValid_def kHeaderSize_def
  by (intro bind_defined) (simp_all add: rd_defined_simps del: not_None_eq)

lemma HeaderValid_layout: "HeaderValid input h = Some True \<Longrightarrow> table_layout input h"
  by (auto simp: HeaderValid_def table_layout_def bind_eq_Some_conv)

lemma DecodeMount_defined:
  assumes "table_layout input h" "unat index < unat (hdr_mount_count h)"
  shows "DecodeMount input h index \<noteq> None"
proof -
  have bound: "unat (hdr_mount_offset h) + unat index * kMountRuleSize + 16 \<le> length input"
    using assms by (simp add: layout_defs)
  show ?thesis
    unfolding DecodeMount_def Let_def rule_offset_defs
    by (intro bind_defined if_defined)
      (use bound in \<open>simp_all add: rd_defined_simps del: not_None_eq\<close>)
qed

lemma DecodeEvent_defined:
  assumes "table_layout input h" "unat index < unat (hdr_event_count h)"
  shows "DecodeEvent input h index \<noteq> None"
proof -
  have bound: "unat (hdr_event_offset h) + unat index * kEventRuleSize + 16 \<le> length input"
    using assms by (simp add: layout_defs)
  show ?thesis
    unfolding DecodeEvent_def Let_def rule_offset_defs
    by (intro bind_defined if_defined)
      (use bound in \<open>simp_all add: rd_defined_simps del: not_None_eq\<close>)
qed

lemma DecodeRules_defined:
  "(\<And>i. i \<in> set is \<Longrightarrow> decode (first + of_nat i) \<noteq> None) \<Longrightarrow> DecodeRules decode first is \<noteq> None"
proof (induction "is")
  case (Cons i "is")
  then obtain r where "decode (first + of_nat i) = Some r" by fastforce
  moreover obtain rs where "DecodeRules decode first is = Some rs" using Cons by fastforce
  ultimately show ?case by (cases r) auto
qed simp


definition decode_inv :: "PolicyHeader \<Rightarrow> DecodeState \<Rightarrow> bool" where
  "decode_inv h st \<longleftrightarrow>
     expected_first_mount st \<le> hdr_mount_count h \<and> expected_first_event st \<le> hdr_event_count h"

lemma prod_case_option3_defined:
  assumes "\<And>x y z. a = Some x \<Longrightarrow> b = Some y \<Longrightarrow> c = Some z \<Longrightarrow> f x y z \<noteq> None" "d \<noteq> None"
  shows "(case (a, b, c) of (Some x, Some y, Some z) \<Rightarrow> f x y z | _ \<Rightarrow> d) \<noteq> None"
  using assms by (auto split: option.splits)

lemma sum_case_defined:
  assumes "\<And>x. r = Inl x \<Longrightarrow> f x \<noteq> None" "\<And>y. r = Inr y \<Longrightarrow> g y \<noteq> None"
  shows "(case r of Inl x \<Rightarrow> f x | Inr y \<Rightarrow> g y) \<noteq> None"
  using assms by (cases r) auto

lemma FinishPackage_defined:
  "entry + kPackageSize \<le> length input \<Longrightarrow> FinishPackage input entry legacy fmode app \<noteq> None"
  unfolding FinishPackage_def kPackageSize_def package_offset_defs
  by (intro sum_case_defined if_defined bind_defined)
    (simp_all add: rd_defined_simps del: not_None_eq)

lemma DecodePackage_defined:
  assumes layout: "table_layout input h" and index: "index < unat (hdr_package_count h)"
    and inv: "decode_inv h st"
  shows "DecodePackage input h legacy st index \<noteq> None"
proof -
  let ?entry = "unat (hdr_package_offset h) + index * kPackageSize"
  have entry: "?entry + 48 \<le> length input"
    using layout index by (simp add: layout_defs)
  have fin: "FinishPackage input ?entry legacy fmode app \<noteq> None" for fmode app
    using entry by (intro FinishPackage_defined) (simp add: kPackageSize_def)
  have ms: "DecodeRules (DecodeMount input h) (expected_first_mount st) [0..<unat count] \<noteq> None"
    if "\<not> hdr_mount_count h - expected_first_mount st < count" for count
    using that inv u32_range(3,4) [of "expected_first_mount st" "hdr_mount_count h" count]
    by (intro DecodeRules_defined DecodeMount_defined [OF layout])
      (auto simp: decode_inv_def not_less)
  have es: "DecodeRules (DecodeEvent input h) (expected_first_event st) [0..<unat count] \<noteq> None"
    if "\<not> hdr_event_count h - expected_first_event st < count" for count
    using that inv u32_range(3,4) [of "expected_first_event st" "hdr_event_count h" count]
    by (intro DecodeRules_defined DecodeEvent_defined [OF layout])
      (auto simp: decode_inv_def not_less)
  show ?thesis
    unfolding DecodePackage_def Let_def package_offset_defs
    by (intro bind_defined prod_case_option3_defined if_defined sum_case_defined)
      (use entry fin in \<open>simp_all add: rd_defined_simps ms es del: not_None_eq\<close>)
qed

text \<open>Elimination rules for a successful run of the decoder.\<close>

lemma bind_SomeE:
  assumes "Option.bind a f = Some r"
  obtains x where "a = Some x" "f x = Some r"
  using assms by (cases a) auto

lemma if_FailE:
  assumes "(if c then Some (Fail m) else b) = Some (Inr r)"
  obtains "\<not> c" "b = Some (Inr r)"
  using assms by (auto simp: Fail_def split: if_splits)

lemma sum_caseE:
  assumes "(case x of Inl e \<Rightarrow> Some (Inl e) | Inr y \<Rightarrow> g y) = Some (Inr r)"
  obtains y where "x = Inr y" "g y = Some (Inr r)"
  using assms by (cases x) auto

lemma option3_caseE:
  assumes "(case (a, b, c) of (Some x, Some y, Some z) \<Rightarrow> f x y z | _ \<Rightarrow> Some (Fail m)) = Some (Inr r)"
  obtains x y z where "a = Some x" "b = Some y" "c = Some z" "f x y z = Some (Inr r)"
  using assms by (auto simp: Fail_def split: option.splits)

lemma DecodePackage_success:
  assumes "DecodePackage input h legacy st index = Some (Inr st')"
  obtains m e app enc entry where
    "expected_first_mount st' = expected_first_mount st + m"
    "expected_first_event st' = expected_first_event st + e"
    "m \<le> hdr_mount_count h - expected_first_mount st"
    "e \<le> hdr_event_count h - expected_first_event st"
    "FinishPackage input entry legacy FailureOpen enc = Some (Inr app)"
    "decoded_failure_mode st' = FailureOpen"
    "decoded_apps st' = decoded_apps st @ [app]"
    "previous_hash st' = PackageNameHash (package enc)" "previous_package st' = package enc"
    "0 < index \<Longrightarrow> (previous_hash st, previous_package st) < (previous_hash st', previous_package st')"
  using assms unfolding DecodePackage_def Let_def
  by (elim bind_SomeE option3_caseE if_FailE sum_caseE)
    (simp split: sum.splits; force simp: not_less less_prod_def')

lemma DecodePackage_inv:
  assumes inv: "decode_inv h st" and dec: "DecodePackage input h legacy st index = Some (Inr st')"
  shows "decode_inv h st'"
  using dec by (rule DecodePackage_success) (use inv in \<open>auto simp: decode_inv_def u32_range\<close>)

lemma DecodePackages_defined:
  "table_layout input h \<Longrightarrow> decode_inv h st \<Longrightarrow> \<forall>i \<in> set is. i < unat (hdr_package_count h) \<Longrightarrow>
   DecodePackages input h legacy st is \<noteq> None"
proof (induction "is" arbitrary: st)
  case (Cons i "is")
  then obtain r where r: "DecodePackage input h legacy st i = Some r"
    using DecodePackage_defined by fastforce
  show ?case
  proof (cases r)
    case (Inr st')
    with r Cons DecodePackage_inv show ?thesis by fastforce
  qed (use r in simp)
qed simp

lemma DecodePolicy_defined: "DecodePolicy input \<noteq> None"
proof (cases "length input < kHeaderSize")
  case False
  hence size: "kHeaderSize \<le> length input" by simp
  obtain h where h: "ReadHeader input = Some h" using ReadHeader_defined [OF size] by blast
  obtain valid where valid: "HeaderValid input h = Some valid"
    using HeaderValid_defined [OF size] by blast
  have pk: "DecodePackages input h legacy DecodeInit [0..<unat (hdr_package_count h)] \<noteq> None"
    if valid for legacy
    using valid that by (intro DecodePackages_defined HeaderValid_layout)
      (simp_all add: decode_inv_def DecodeInit_def)
  have gen: "Read64 input kContentGenerationOffset \<noteq> None"
    using size by (simp add: rd_defined_simps kContentGenerationOffset_def kHeaderSize_def
        del: not_None_eq)
  have "(if \<not> valid then Some (Fail ''invalid policy header or checksum'') else X) \<noteq> None"
    if "valid \<Longrightarrow> X \<noteq> None" for X :: "(ParseError option + PolicyDocument \<times> u64) option"
    using that by simp
  thus ?thesis
    unfolding DecodePolicy_def Let_def h valid Option.bind.simps
    by (intro if_defined bind_defined sum_case_defined)
      (use pk gen in \<open>simp_all del: not_None_eq\<close>)
qed (simp add: DecodePolicy_def)

end
