(* ===== verification/PG_RoundTrip.thy ===== *)
theory PG_RoundTrip
  imports PG_Binary
begin

text \<open>
  Correctness of the binary policy codec: what \<open>EncodePolicy\<close> writes, \<open>DecodePolicy\<close> reads back, up to
  the source line numbers, which the format does not carry; a document of bounded size is always
  encoded; a file with one damaged payload byte is always rejected; and the package index of an
  encoded file finds every application.
\<close>

subsection \<open>Line numbers\<close>

definition erase_mount :: "LogicalMountRule \<Rightarrow> LogicalMountRule" where
  "erase_mount r = r\<lparr>mount_line := 0\<rparr>"

definition erase_event :: "EventRule \<Rightarrow> EventRule" where
  "erase_event r = r\<lparr>event_line := 0\<rparr>"

definition erase_app :: "AppPolicy \<Rightarrow> AppPolicy" where
  "erase_app app = app\<lparr>mounts := map erase_mount (mounts app), events := map erase_event (events app)\<rparr>"

lemma erase_mount_simps [simp]:
  "mount_action (erase_mount r) = mount_action r" "visible_path (erase_mount r) = visible_path r"
  "backing_path (erase_mount r) = backing_path r" "mount_depth (erase_mount r) = mount_depth r"
  "mount_flags (erase_mount r) = mount_flags r" "MountKey (erase_mount r) = MountKey r"
  "is_isolate (erase_mount r) = is_isolate r" "canonical_mount pkg (erase_mount r) = canonical_mount pkg r"
  "PutCanonicalMount (erase_mount r) = PutCanonicalMount r"
  by (simp_all add: erase_mount_def MountKey_def is_isolate_def canonical_mount_def PutCanonicalMount_def
      split: MountAction.split)

lemma erase_event_simps [simp]:
  "EventKey (erase_event r) = EventKey r" "EventSortKey (erase_event r) = EventSortKey r"
  "canonical_event pkg (erase_event r) = canonical_event pkg r"
  "PutCanonicalEvent (erase_event r) = PutCanonicalEvent r"
  by (simp_all add: erase_event_def EventKey_def EventSortKey_def canonical_event_def PutCanonicalEvent_def
      split: EventAction.split)

lemma erase_app_simps [simp]:
  "package (erase_app app) = package app" "users (erase_app app) = users app"
  "processes (erase_app app) = processes app" "media_compat (erase_app app) = media_compat app"
  "provider_compat (erase_app app) = provider_compat app"
  "mounts (erase_app app) = map erase_mount (mounts app)"
  "events (erase_app app) = map erase_event (events app)"
  "PackageOrder (erase_app app) = PackageOrder app"
  by (simp_all add: erase_app_def PackageOrder_def)

lemma CanonicalPlan_erase [simp]: "CanonicalPlan (erase_app app) = CanonicalPlan app"
  by (intro ext) (simp add: CanonicalPlan_def comp_def)

lemma PlanGeneration_erase [simp]: "PlanGeneration (erase_app app) = PlanGeneration app"
  by (intro ext) (simp add: PlanGeneration_def)

lemma isolate_rule_erase: "isolate_rule (map erase_mount rs) = map_option erase_mount (isolate_rule rs)"
  by (simp add: isolate_rule_def filter_map comp_def split: list.splits)

lemma canonical_policy_erase [simp]: "canonical_policy (erase_app app) = canonical_policy app"
proof -
  have "canonical_mounts pkg (map erase_mount rs) = canonical_mounts pkg rs" for pkg rs
    by (simp add: canonical_mounts_def list_all_iff filter_map comp_def)
  moreover have "CheckIsolate (map_option erase_mount i) (map erase_mount rs) = Inr () \<longleftrightarrow>
      CheckIsolate i rs = Inr ()" for i rs
    by (auto simp: CheckIsolate_iff)
  moreover have "CheckProvider p us (map erase_mount rs) = Inr () \<longleftrightarrow> CheckProvider p us rs = Inr ()"
    for p us rs by (auto simp: CheckProvider_iff)
  ultimately show ?thesis
    by (simp add: canonical_policy_def isolate_rule_erase comp_def list_all_iff)
qed

subsection \<open>The string table\<close>

text \<open>A string pool hands out offsets that stay valid while it grows.\<close>

locale string_pool =
  fixes ok :: "'pool \<Rightarrow> bool"
    and contents :: "'pool \<Rightarrow> bytes"
    and holds :: "bytes \<Rightarrow> u32 \<Rightarrow> string \<Rightarrow> bool"
    and add :: "'pool \<Rightarrow> string \<Rightarrow> u32 \<times> 'pool"
  assumes add_ok: "ok t \<Longrightarrow> add t s = (off, t') \<Longrightarrow> ok t'"
    and add_holds: "ok t \<Longrightarrow> add t s = (off, t') \<Longrightarrow> holds (contents t') off s"
    and add_prefix: "add t s = (off, t') \<Longrightarrow> prefix (contents t) (contents t')"
    and add_size: "add t s = (off, t') \<Longrightarrow> length (contents t') \<le> length (contents t) + length s + 1"
    and holds_mono: "holds bs off s \<Longrightarrow> prefix bs bs' \<Longrightarrow> holds bs' off s"
begin

lemma add_two:
  assumes "ok t" "add t s1 = (o1, t1)" "add t1 s2 = (o2, t2)"
  shows "ok t2" "holds (contents t2) o1 s1" "holds (contents t2) o2 s2"
    "prefix (contents t) (contents t2)"
    "length (contents t2) \<le> length (contents t) + (length s1 + 1) + (length s2 + 1)"
proof -
  note t1 = add_ok [OF assms(1,2)]
  note facts = add_ok [OF t1 assms(3)] add_holds [OF assms(1,2)] add_holds [OF t1 assms(3)]
    add_prefix [OF assms(2)] add_prefix [OF assms(3)] add_size [OF assms(2)] add_size [OF assms(3)]
  from facts show "ok t2" "holds (contents t2) o1 s1" "holds (contents t2) o2 s2"
    "prefix (contents t) (contents t2)"
    "length (contents t2) \<le> length (contents t) + (length s1 + 1) + (length s2 + 1)"
    by (auto intro: holds_mono prefix_order.trans)
qed

lemma add_three:
  assumes "ok t" "add t s1 = (o1, t1)" "add t1 s2 = (o2, t2)" "add t2 s3 = (o3, t3)"
  shows "ok t3" "holds (contents t3) o1 s1" "holds (contents t3) o2 s2" "holds (contents t3) o3 s3"
    "prefix (contents t) (contents t3)"
    "length (contents t3) \<le>
       length (contents t) + (length s1 + 1) + (length s2 + 1) + (length s3 + 1)"
proof -
  note two = add_two [OF assms(1-3)]
  note third = add_prefix [OF assms(4)] add_size [OF assms(4)]
  from two third assms(4) show "ok t3" "holds (contents t3) o3 s3"
    by (auto intro: add_ok add_holds)
  from two third show "holds (contents t3) o1 s1" "holds (contents t3) o2 s2"
    by (auto intro: holds_mono)
  from two third show "prefix (contents t) (contents t3)" by (auto intro: prefix_order.trans)
  from two third show "length (contents t3) \<le>
       length (contents t) + (length s1 + 1) + (length s2 + 1) + (length s3 + 1)" by simp
qed

end

definition at_offset :: "bytes \<Rightarrow> u32 \<Rightarrow> string \<Rightarrow> bool" where
  "at_offset bs off s \<longleftrightarrow>
     (\<exists>pre post. bs = pre @ string_bytes s @ 0 # post \<and> off = of_nat (length pre))"

definition table_ok :: "StringTable \<Rightarrow> bool" where
  "table_ok t \<longleftrightarrow> (\<forall>s off. table_offsets t s = Some off \<longrightarrow> at_offset (table_bytes t) off s)"

lemma at_offset_mono: "at_offset bs off s \<Longrightarrow> prefix bs bs' \<Longrightarrow> at_offset bs' off s"
  by (fastforce simp: at_offset_def prefix_def)

lemma at_offset_append: "at_offset bs off s \<Longrightarrow> at_offset (bs @ ext) off s"
  by (erule at_offset_mono) simp

lemma at_offset_end: "at_offset (bs @ string_bytes s @ [0]) (of_nat (length bs)) s"
  by (auto simp: at_offset_def)

interpretation pool: string_pool table_ok table_bytes at_offset StringTable_Add
proof
  fix t s off t' assume add: "StringTable_Add t s = (off, t')"
  from add show "prefix (table_bytes t) (table_bytes t')"
    "length (table_bytes t') \<le> length (table_bytes t) + length s + 1"
    by (auto simp: StringTable_Add_def Let_def split: option.splits)
  assume "table_ok t"
  hence old: "at_offset (table_bytes t) o' s'" "at_offset (table_bytes t @ ext) o' s'"
    if "table_offsets t s' = Some o'" for s' o' ext
    using that by (auto simp: table_ok_def intro: at_offset_append)
  show "table_ok t'" "at_offset (table_bytes t') off s"
    using add at_offset_end [of "table_bytes t" s] old
    by (auto simp: StringTable_Add_def table_ok_def Let_def split: option.splits if_splits)
qed (rule at_offset_mono)

lemma StringTable_new_ok: "table_ok StringTable_new" "length (table_bytes StringTable_new) = 1"
  using at_offset_end [of "[]" "[]"]
  by (auto simp: StringTable_new_def StringTable_Add_def table_ok_def string_bytes_def)

lemma ReadString_at:
  assumes "at_offset T off s" "CHR 0x00 \<notin> set s" "length (pre @ T) < 2 ^ 32"
    and "str = of_nat (length pre)"
  shows "ReadString (pre @ T) str off = Some s"
proof -
  obtain p q where T: "T = p @ string_bytes s @ 0 # q" and off: "off = of_nat (length p)"
    using assms(1) by (auto simp: at_offset_def)
  have u: "unat str = length pre" "unat off = length p" "unat (str + off) = length pre + length p"
    using assms(3,4) T by (simp_all add: off unat_of_nat flip: of_nat_add)
  have "takeWhile (\<lambda>b. b \<noteq> 0) (string_bytes s @ 0 # q) = string_bytes s"
    using assms(2) zero_in_string_bytes [of s] by (subst takeWhile_append2) auto
  with u T show ?thesis by (simp add: ReadString_def Let_def)
qed

subsection \<open>The tables that the encoder writes\<close>

definition mount_entry :: "bytes \<Rightarrow> LogicalMountRule \<Rightarrow> bytes \<Rightarrow> bool" where
  "mount_entry T r e \<longleftrightarrow>
     (\<exists>v b. e = PutMountEntry (MountAction_code (mount_action r)) (mount_depth r) (mount_flags r) v b \<and>
        at_offset T v (visible_path r) \<and> at_offset T b (backing_path r))"

definition package_entry ::
  "FailureMode \<Rightarrow> bool \<Rightarrow> bytes \<Rightarrow> u32 \<Rightarrow> AppPolicy \<Rightarrow> bytes \<Rightarrow> bool" where
  "package_entry fmode legacy T first app e \<longleftrightarrow>
     (\<exists>n u p. e = PutPackageEntry (PackageNameHash (package app)) n u p first
                 (of_nat (length (mounts app))) 0 0 (PlanGeneration app fmode legacy)
                 (FailureMode_code fmode) (MediaCompat_code (media_compat app))
                 (ProviderCompat_code (provider_compat app)) \<and>
        at_offset T n (package app) \<and> at_offset T u (Join (users app)) \<and>
        at_offset T p (Join (processes app)))"

lemma mount_entry_mono: "mount_entry T r e \<Longrightarrow> prefix T T' \<Longrightarrow> mount_entry T' r e"
  by (auto simp: mount_entry_def dest: at_offset_mono)

lemma package_entry_mono:
  "package_entry fmode legacy T first app e \<Longrightarrow> prefix T T' \<Longrightarrow> package_entry fmode legacy T' first app e"
  unfolding package_entry_def
  by (elim exE conjE, intro exI conjI) (assumption | erule (1) at_offset_mono)+

lemma mount_entry_length: "mount_entry T r e \<Longrightarrow> length e = kMountRuleSize"
  by (auto simp: mount_entry_def PutMountEntry_def kMountRuleSize_def)

lemma package_entry_length: "package_entry fmode legacy T first app e \<Longrightarrow> length e = kPackageSize"
  by (auto simp: package_entry_def PutPackageEntry_def kPackageSize_def)

definition mount_text :: "LogicalMountRule \<Rightarrow> nat" where
  "mount_text r = (length (visible_path r) + 1) + (length (backing_path r) + 1)"

definition app_text :: "AppPolicy \<Rightarrow> nat" where
  "app_text app = (length (package app) + 1) + (length (Join (users app)) + 1) +
     (length (Join (processes app)) + 1) + sum_list (map mount_text (mounts app))"

lemma EncodeMounts_spec:
  "EncodeMounts t rules = (out, t') \<Longrightarrow> table_ok t \<Longrightarrow>
   table_ok t' \<and> prefix (table_bytes t) (table_bytes t') \<and>
   length (table_bytes t') \<le> length (table_bytes t) + sum_list (map mount_text rules) \<and>
   (\<exists>entries. out = concat entries \<and> list_all2 (mount_entry (table_bytes t')) rules entries)"
proof (induction rules arbitrary: t out t')
  case (Cons r rules)
  obtain v t1 b t2 rest t3 where
    add: "StringTable_Add t (visible_path r) = (v, t1)" "StringTable_Add t1 (backing_path r) = (b, t2)"
    and rest: "EncodeMounts t2 rules = (rest, t3)"
    by (metis prod.exhaust)
  let ?e = "PutMountEntry (MountAction_code (mount_action r)) (mount_depth r) (mount_flags r) v b"
  note two = pool.add_two [OF Cons.prems(2) add]
  from Cons.IH [OF rest two(1)] obtain entries where
    t3: "table_ok t3" and pre: "prefix (table_bytes t2) (table_bytes t3)"
    and len: "length (table_bytes t3) \<le> length (table_bytes t2) + sum_list (map mount_text rules)"
    and es: "rest = concat entries" "list_all2 (mount_entry (table_bytes t3)) rules entries" by blast
  have out: "out = concat (?e # entries)" "t' = t3"
    using Cons.prems(1) add rest es by (simp_all add: Let_def)
  have "mount_entry (table_bytes t3) r ?e"
    using two(2,3) pre by (auto simp: mount_entry_def intro: at_offset_mono)
  hence "list_all2 (mount_entry (table_bytes t3)) (r # rules) (?e # entries)" using es by simp
  moreover have "prefix (table_bytes t) (table_bytes t3)"
    using two(4) pre by (rule prefix_order.trans)
  moreover have "length (table_bytes t3) \<le>
      length (table_bytes t) + sum_list (map mount_text (r # rules))"
    using len two(5) by (simp add: mount_text_def)
  ultimately show ?case using t3 out by blast
qed simp

definition mounts_before :: "AppPolicy list \<Rightarrow> nat \<Rightarrow> nat" where
  "mounts_before done_apps i = length (concat (map mounts (take i done_apps)))"

definition enc_ok :: "FailureMode \<Rightarrow> bool \<Rightarrow> AppPolicy list \<Rightarrow> EncodeState \<Rightarrow> bool" where
  "enc_ok fmode legacy done_apps st \<longleftrightarrow>
     table_ok (enc_strings st) \<and>
     length (table_bytes (enc_strings st)) \<le> 1 + sum_list (map app_text done_apps) \<and>
     enc_events st = [] \<and> enc_first_event st = 0 \<and>
     enc_first_mount st = of_nat (length (concat (map mounts done_apps))) \<and>
     (\<exists>pes mes. enc_packages st = concat pes \<and> enc_mounts st = concat mes \<and>
        list_all2 (mount_entry (table_bytes (enc_strings st))) (concat (map mounts done_apps)) mes \<and>
        length pes = length done_apps \<and>
        (\<forall>i < length done_apps. package_entry fmode legacy (table_bytes (enc_strings st))
           (of_nat (mounts_before done_apps i)) (done_apps ! i) (pes ! i)))"

lemma enc_ok_init: "enc_ok fmode legacy [] EncodeInit"
  using StringTable_new_ok by (simp add: enc_ok_def EncodeInit_def)

lemma enc_ok_step:
  assumes ok: "enc_ok fmode legacy done_apps st" and ev: "events app = []"
  shows "enc_ok fmode legacy (done_apps @ [app]) (EncodeApp fmode legacy st app)"
proof -
  from ok obtain pes mes where tab: "table_ok (enc_strings st)"
    and bnd: "length (table_bytes (enc_strings st)) \<le> 1 + sum_list (map app_text done_apps)"
    and evs: "enc_events st = []" "enc_first_event st = 0"
    and fm: "enc_first_mount st = of_nat (length (concat (map mounts done_apps)))"
    and pes: "enc_packages st = concat pes" "length pes = length done_apps"
    and mes: "enc_mounts st = concat mes"
      "list_all2 (mount_entry (table_bytes (enc_strings st))) (concat (map mounts done_apps)) mes"
    and pe: "\<And>i. i < length done_apps \<Longrightarrow> package_entry fmode legacy (table_bytes (enc_strings st))
           (of_nat (mounts_before done_apps i)) (done_apps ! i) (pes ! i)"
    unfolding enc_ok_def by blast
  obtain n t1 u t2 p t3 mb t4 where
    add: "StringTable_Add (enc_strings st) (package app) = (n, t1)"
      "StringTable_Add t1 (Join (users app)) = (u, t2)"
      "StringTable_Add t2 (Join (processes app)) = (p, t3)"
    and em: "EncodeMounts t3 (mounts app) = (mb, t4)"
    by (metis prod.exhaust)
  note three = pool.add_three [OF tab add]
  from EncodeMounts_spec [OF em three(1)] obtain es where t4: "table_ok t4"
    and p4: "prefix (table_bytes t3) (table_bytes t4)"
    and len: "length (table_bytes t4) \<le> length (table_bytes t3) + sum_list (map mount_text (mounts app))"
    and es: "mb = concat es" "list_all2 (mount_entry (table_bytes t4)) (mounts app) es" by blast
  have grow: "prefix (table_bytes (enc_strings st)) (table_bytes t4)"
    using three(5) p4 by (rule prefix_order.trans)
  let ?T = "table_bytes t4"
  let ?e = "PutPackageEntry (PackageNameHash (package app)) n u p (enc_first_mount st)
     (of_nat (length (mounts app))) 0 0 (PlanGeneration app fmode legacy) (FailureMode_code fmode)
     (MediaCompat_code (media_compat app)) (ProviderCompat_code (provider_compat app))"
  have app: "EncodeApp fmode legacy st app =
      \<lparr>enc_packages = concat (pes @ [?e]), enc_mounts = concat (mes @ es), enc_events = [],
       enc_strings = t4, enc_first_mount = enc_first_mount st + of_nat (length (mounts app)),
       enc_first_event = 0\<rparr>"
    using add em ev evs pes mes es by (simp add: EncodeApp_def Let_def)
  have "package_entry fmode legacy ?T (of_nat (mounts_before (done_apps @ [app]) i))
      ((done_apps @ [app]) ! i) ((pes @ [?e]) ! i)" if "i < length (done_apps @ [app])" for i
  proof (cases "i < length done_apps")
    case True
    with pe [OF True] pes(2) grow show ?thesis
      by (auto simp: nth_append mounts_before_def intro: package_entry_mono)
  next
    case False
    hence "i = length done_apps" using that by simp
    with three(2-4) p4 fm pes(2) show ?thesis
      by (auto simp: nth_append package_entry_def mounts_before_def intro: at_offset_mono)
  qed
  moreover have "list_all2 (mount_entry ?T) (concat (map mounts (done_apps @ [app]))) (mes @ es)"
    using list_all2_mono [OF mes(2) mount_entry_mono [OF _ grow]] es(2)
    by (simp add: list_all2_appendI)
  moreover have "length ?T \<le> 1 + sum_list (map app_text (done_apps @ [app]))"
    using bnd len three(6) by (simp add: app_text_def)
  ultimately show ?thesis
    unfolding enc_ok_def app using t4 fm pes(2)
    by (intro conjI exI [of _ "pes @ [?e]"] exI [of _ "mes @ es"]) simp_all
qed

lemma enc_ok_foldl:
  "(\<And>app. app \<in> set as \<Longrightarrow> events app = []) \<Longrightarrow>
   enc_ok fmode legacy as (foldl (EncodeApp fmode legacy) EncodeInit as)"
  by (induction as rule: rev_induct) (auto simp: enc_ok_init intro: enc_ok_step)

subsection \<open>Decoding an encoded file\<close>

text \<open>What the text of an application must satisfy to survive the format: strings end at the first
  NUL, the user and process lists are joined with commas and an empty item is refused.\<close>

definition wire_item :: "string \<Rightarrow> bool" where
  "wire_item s \<longleftrightarrow> s \<noteq> [] \<and> CHR '','' \<notin> set s \<and> CHR 0x00 \<notin> set s"

definition wire_safe :: "AppPolicy \<Rightarrow> bool" where
  "wire_safe app \<longleftrightarrow>
     CHR 0x00 \<notin> set (package app) \<and> users app \<noteq> [] \<and> processes app \<noteq> [] \<and>
     list_all wire_item (processes app)"

definition policy_image :: "bool \<Rightarrow> AppPolicy list \<Rightarrow> bytes \<Rightarrow> PolicyHeader \<Rightarrow> bool" where
  "policy_image legacy as input h \<longleftrightarrow>
     (\<exists>hdr pes mes T.
        input = hdr @ concat pes @ concat mes @ T \<and> length hdr = kHeaderSize \<and>
        length input < 2 ^ 32 \<and> length pes = length as \<and>
        list_all2 (mount_entry T) (concat (map mounts as)) mes \<and>
        (\<forall>i < length as. package_entry FailureOpen legacy T (of_nat (mounts_before as i))
           (as ! i) (pes ! i)) \<and>
        unat (hdr_package_offset h) = length hdr \<and>
        unat (hdr_mount_offset h) = length (hdr @ concat pes) \<and>
        hdr_string_offset h = of_nat (length (hdr @ concat pes @ concat mes)) \<and>
        hdr_mount_count h = of_nat (length (concat (map mounts as))) \<and> hdr_event_count h = 0)"

lemma MountAction_code_inverse [simp]: "MountAction_of (MountAction_code a) = a"
  by (cases a) (simp_all add: MountAction_of_def MountAction_code_def)

lemma code_ranges [simp]:
  "\<not> MountAction_code MountIsolateRoot < MountAction_code a"
  "\<not> MediaCompat_code MediaHideDenied < MediaCompat_code m"
  "\<not> ProviderCompat_code ProviderVirtualize < ProviderCompat_code p"
  "\<not> FailureMode_code FailureClosed < FailureMode_code f"
  by (simp_all add: MountAction_code_def MediaCompat_code_def ProviderCompat_code_def
      FailureMode_code_def split: MountAction.split MediaCompat.split ProviderCompat.split
      FailureMode.split)

lemma compat_code_inverse [simp]:
  "MediaCompat_of (MediaCompat_code m) = m" "ProviderCompat_of (ProviderCompat_code p) = p"
  "FailureMode_of (FailureMode_code f) = f"
  by (simp_all add: MediaCompat_of_def MediaCompat_code_def ProviderCompat_of_def
      ProviderCompat_code_def FailureMode_of_def FailureMode_code_def
      split: MediaCompat.split ProviderCompat.split FailureMode.split)

lemma canonical_mount_no_nul:
  assumes "canonical_mount pkg r"
  shows "CHR 0x00 \<notin> set (visible_path r)" "CHR 0x00 \<notin> set (backing_path r)"
  using assms
  by (auto simp: canonical_mount_def canonical_visible_def canonical_backing_def is_logical_path_def
      split: if_splits MountAction.splits)

lemma mount_entry_fields:
  assumes "e = PutMountEntry action depth flags v b"
  shows "rd8 e 0 = Some action" "rd8 e 1 = Some 0" "Read16 e 2 = Some depth"
    "Read16 e 4 = Some flags" "Read16 e 6 = Some 0" "Read32 e 8 = Some v" "Read32 e 12 = Some b"
  by (simp_all add: assms PutMountEntry_def codec_simps)

lemma package_entry_fields:
  assumes "e = PutPackageEntry hash n u p fm nm fe ne plan failure media provider"
  shows "Read32 e 0 = Some hash" "Read32 e 4 = Some n" "Read32 e 8 = Some u" "Read32 e 12 = Some p"
    "Read32 e 16 = Some fm" "Read32 e 20 = Some nm" "Read32 e 24 = Some fe" "Read32 e 28 = Some ne"
    "Read64 e 32 = Some plan" "rd8 e 40 = Some failure" "rd8 e 41 = Some media"
    "rd8 e 42 = Some provider" "rd8 e 43 = Some 0" "Read32 e 44 = Some 0"
  by (simp_all add: assms PutPackageEntry_def codec_simps)

definition package_entry_reads ::
  "bytes \<Rightarrow> nat \<Rightarrow> u32 \<Rightarrow> u32 \<Rightarrow> u32 \<Rightarrow> u32 \<Rightarrow> u32 \<Rightarrow> u32 \<Rightarrow> u64 \<Rightarrow> u8 \<Rightarrow> u8 \<Rightarrow> bool" where
  "package_entry_reads input entry hash n u p fm nm plan media provider \<longleftrightarrow>
     Read32 input (entry + 0) = Some hash \<and> Read32 input (entry + 4) = Some n \<and>
     Read32 input (entry + 8) = Some u \<and> Read32 input (entry + 12) = Some p \<and>
     Read32 input (entry + 16) = Some fm \<and> Read32 input (entry + 20) = Some nm \<and>
     Read32 input (entry + 24) = Some 0 \<and> Read32 input (entry + 28) = Some 0 \<and>
     Read64 input (entry + 32) = Some plan \<and>
     rd8 input (entry + 40) = Some (FailureMode_code FailureOpen) \<and>
     rd8 input (entry + 41) = Some media \<and> rd8 input (entry + 42) = Some provider \<and>
     rd8 input (entry + 43) = Some 0 \<and> Read32 input (entry + 44) = Some 0"

lemma policy_imageE:
  assumes "policy_image legacy as input h"
  obtains hdr pes mes T where
    "input = hdr @ concat pes @ concat mes @ T" "length hdr = kHeaderSize" "length input < 2 ^ 32"
    "length pes = length as" "list_all2 (mount_entry T) (concat (map mounts as)) mes"
    "\<And>i. i < length as \<Longrightarrow> package_entry FailureOpen legacy T (of_nat (mounts_before as i))
       (as ! i) (pes ! i)"
    "unat (hdr_package_offset h) = length hdr" "unat (hdr_mount_offset h) = length (hdr @ concat pes)"
    "hdr_string_offset h = of_nat (length (hdr @ concat pes @ concat mes))"
    "hdr_mount_count h = of_nat (length (concat (map mounts as)))" "hdr_event_count h = 0"
    "\<forall>e \<in> set pes. length e = kPackageSize" "\<forall>e \<in> set mes. length e = kMountRuleSize"
    "length mes = length (concat (map mounts as))"
    "\<And>off s. at_offset T off s \<Longrightarrow> CHR 0x00 \<notin> set s \<Longrightarrow>
       ReadString input (hdr_string_offset h) off = Some s"
proof -
  from assms obtain hdr pes mes T where
    i: "input = hdr @ concat pes @ concat mes @ T" "length hdr = kHeaderSize" "length input < 2 ^ 32"
    "length pes = length as" and m: "list_all2 (mount_entry T) (concat (map mounts as)) mes"
    and p: "\<And>i. i < length as \<Longrightarrow> package_entry FailureOpen legacy T (of_nat (mounts_before as i))
       (as ! i) (pes ! i)"
    and h: "unat (hdr_package_offset h) = length hdr"
    "unat (hdr_mount_offset h) = length (hdr @ concat pes)"
    and str: "hdr_string_offset h = of_nat (length (hdr @ concat pes @ concat mes))"
    and c: "hdr_mount_count h = of_nat (length (concat (map mounts as)))" "hdr_event_count h = 0"
    unfolding policy_image_def by blast
  have l1: "\<forall>e \<in> set pes. length e = kPackageSize"
    using p i(4) by (metis in_set_conv_nth package_entry_length)
  have l2: "\<forall>e \<in> set mes. length e = kMountRuleSize"
    using m by (metis in_set_conv_nth list_all2_conv_all_nth mount_entry_length)
  have l3: "length mes = length (concat (map mounts as))"
    using m by (simp add: list_all2_lengthD)
  have rs: "ReadString input (hdr_string_offset h) off = Some s"
    if "at_offset T off s" "CHR 0x00 \<notin> set s" for off s
    using ReadString_at [OF that, of "hdr @ concat pes @ concat mes"] i str by simp
  show ?thesis
    by (rule that [of hdr pes mes T]) (fact i m p h str c l1 l2 l3 rs)+
qed

lemma table_reads:
  assumes "\<forall>e \<in> set es. length e = w" "j < length es" "input = pre @ concat es @ post"
    and "base = length pre + j * w"
  shows "k + 1 \<le> w \<Longrightarrow> rd8 input (base + k) = rd8 (es ! j) k"
    "k + 2 \<le> w \<Longrightarrow> Read16 input (base + k) = Read16 (es ! j) k"
    "k + 4 \<le> w \<Longrightarrow> Read32 input (base + k) = Read32 (es ! j) k"
    "k + 8 \<le> w \<Longrightarrow> Read64 input (base + k) = Read64 (es ! j) k"
  unfolding assms(3,4)
  using le8.rd_chunk [OF assms(1,2)] le16.rd_chunk [OF assms(1,2)] le32.rd_chunk [OF assms(1,2)]
    le64.rd_chunk [OF assms(1,2)] by blast+

definition mount_entry_reads ::
  "bytes \<Rightarrow> nat \<Rightarrow> u8 \<Rightarrow> u16 \<Rightarrow> u16 \<Rightarrow> u32 \<Rightarrow> u32 \<Rightarrow> bool" where
  "mount_entry_reads input rule action depth flags v b \<longleftrightarrow>
     rd8 input (rule + 0) = Some action \<and> rd8 input (rule + 1) = Some 0 \<and>
     Read16 input (rule + 2) = Some depth \<and> Read16 input (rule + 4) = Some flags \<and>
     Read16 input (rule + 6) = Some 0 \<and> Read32 input (rule + 8) = Some v \<and>
     Read32 input (rule + 12) = Some b"

lemma mount_image_reads:
  assumes img: "policy_image legacy as input h" and j: "j < length (concat (map mounts as))"
    and nul: "CHR 0x00 \<notin> set (visible_path (concat (map mounts as) ! j))"
      "CHR 0x00 \<notin> set (backing_path (concat (map mounts as) ! j))"
  obtains v b where
    "mount_entry_reads input (unat (hdr_mount_offset h) + unat (of_nat j :: u32) * kMountRuleSize)
       (MountAction_code (mount_action (concat (map mounts as) ! j)))
       (mount_depth (concat (map mounts as) ! j)) (mount_flags (concat (map mounts as) ! j)) v b"
    "ReadString input (hdr_string_offset h) v = Some (visible_path (concat (map mounts as) ! j))"
    "ReadString input (hdr_string_offset h) b = Some (backing_path (concat (map mounts as) ! j))"
  using img
proof (rule policy_imageE)
  fix hdr pes mes T
  let ?r = "concat (map mounts as) ! j"
  assume inp: "input = hdr @ concat pes @ concat mes @ T" and sz: "length input < 2 ^ 32"
    and ent: "list_all2 (mount_entry T) (concat (map mounts as)) mes"
    and off: "unat (hdr_mount_offset h) = length (hdr @ concat pes)"
    and len: "\<forall>e \<in> set mes. length e = kMountRuleSize" "length mes = length (concat (map mounts as))"
    and str: "\<And>off s. at_offset T off s \<Longrightarrow> CHR 0x00 \<notin> set s \<Longrightarrow>
       ReadString input (hdr_string_offset h) off = Some s"
  have jm: "j < length mes" using j len(2) by simp
  have "j < length (concat mes)"
    using concat_chunk [OF len(1) jm] len(1) jm by (simp add: kMountRuleSize_def)
  hence "unat (of_nat j :: u32) = j" using sz inp by (simp add: unat_of_nat)
  hence rule: "unat (hdr_mount_offset h) + unat (of_nat j :: u32) * kMountRuleSize =
      length (hdr @ concat pes) + j * kMountRuleSize" using off by simp
  obtain v b where e: "mes ! j = PutMountEntry (MountAction_code (mount_action ?r)) (mount_depth ?r)
        (mount_flags ?r) v b"
    and at: "at_offset T v (visible_path ?r)" "at_offset T b (backing_path ?r)"
    using list_all2_nthD [OF ent j] by (auto simp: mount_entry_def)
  have "input = (hdr @ concat pes) @ concat mes @ T" using inp by simp
  note reads = table_reads [OF len(1) jm this rule, unfolded kMountRuleSize_def]
  show thesis
  proof (rule that [OF _ str [OF at(1) nul(1)] str [OF at(2) nul(2)]])
    show "mount_entry_reads input (unat (hdr_mount_offset h) + unat (of_nat j :: u32) * kMountRuleSize)
       (MountAction_code (mount_action ?r)) (mount_depth ?r) (mount_flags ?r) v b"
      unfolding mount_entry_reads_def kMountRuleSize_def
      by (intro conjI; subst reads; simp add: mount_entry_fields [OF e] del: One_nat_def)
  qed
qed

lemma DecodeMount_image:
  assumes "policy_image legacy as input h" "j < length (concat (map mounts as))"
    "CHR 0x00 \<notin> set (visible_path (concat (map mounts as) ! j))"
    "CHR 0x00 \<notin> set (backing_path (concat (map mounts as) ! j))"
  shows "DecodeMount input h (of_nat j) = Some (Inr (erase_mount (concat (map mounts as) ! j)))"
proof (rule mount_image_reads [OF assms])
  fix v b
  let ?r = "concat (map mounts as) ! j"
  assume rd: "mount_entry_reads input (unat (hdr_mount_offset h) + unat (of_nat j :: u32) * kMountRuleSize)
       (MountAction_code (mount_action ?r)) (mount_depth ?r) (mount_flags ?r) v b"
    and strs: "ReadString input (hdr_string_offset h) v = Some (visible_path ?r)"
    "ReadString input (hdr_string_offset h) b = Some (backing_path ?r)"
  from rd show ?thesis
    unfolding DecodeMount_def Let_def rule_offset_defs mount_entry_reads_def
    by (simp add: strs erase_mount_def)
qed

lemma canonical_no_nul:
  assumes "canonical_policy app" "r \<in> set (mounts app)"
  shows "CHR 0x00 \<notin> set (visible_path r)" "CHR 0x00 \<notin> set (backing_path r)"
  using assms canonical_mount_no_nul [of "package app" r]
  by (auto simp: canonical_policy_def canonical_mounts_def list_all_iff)

lemma DecodeRules_all:
  "(\<And>i. i \<in> set is \<Longrightarrow> decode (first + of_nat i) = Some (Inr (f i))) \<Longrightarrow>
   DecodeRules decode first is = Some (Inr (map f is))"
  by (induction "is") auto

lemma mounts_before_nth:
  assumes "i < length as"
  shows "j < length (mounts (as ! i)) \<Longrightarrow>
      concat (map mounts as) ! (mounts_before as i + j) = mounts (as ! i) ! j"
    "mounts_before as i + length (mounts (as ! i)) \<le> length (concat (map mounts as))"
    "mounts_before as (Suc i) = mounts_before as i + length (mounts (as ! i))"
proof -
  have "concat (map mounts as) = concat (map mounts (take i as)) @ mounts (as ! i) @
      concat (map mounts (drop (Suc i) as))"
    using id_take_nth_drop [OF assms(1)] by (metis concat.simps(2) concat_append list.simps(9) map_append)
  thus "j < length (mounts (as ! i)) \<Longrightarrow>
      concat (map mounts as) ! (mounts_before as i + j) = mounts (as ! i) ! j"
    "mounts_before as i + length (mounts (as ! i)) \<le> length (concat (map mounts as))"
    unfolding mounts_before_def by (simp_all add: nth_append)
  show "mounts_before as (Suc i) = mounts_before as i + length (mounts (as ! i))"
    using assms(1) by (simp add: mounts_before_def take_Suc_conv_app_nth)
qed

lemma wire_users:
  assumes "canonical_users us" "us \<noteq> []"
  shows "Split (Join us) = Some us" "CHR 0x00 \<notin> set (Join us)"
proof -
  have u: "u \<noteq> [] \<and> CHR '','' \<notin> set u \<and> CHR 0x00 \<notin> set u" if "u \<in> set us" for u
  proof (cases "us = [''*'']")
    case True
    with that show ?thesis by simp
  next
    case False
    with assms(1) that have "IsUserNumber u" by (auto simp: canonical_users_def list_all_iff)
    then obtain v where "from_chars 32 u = Some (v, [])"
      by (auto simp: IsUserNumber_def split: option.splits prod.splits list.splits)
    from from_chars_complete [OF this] show ?thesis by (blast dest: is_digit_not_special)
  qed
  thus "Split (Join us) = Some us" using assms(2) by (intro Split_Join) auto
  show "CHR 0x00 \<notin> set (Join us)"
    using u set_join_with [of "CHR '',''" us] by (auto simp: Join_eq)
qed

lemma wire_processes:
  assumes "list_all wire_item ps" "ps \<noteq> []"
  shows "Split (Join ps) = Some ps" "CHR 0x00 \<notin> set (Join ps)"
  using assms set_join_with [of "CHR '',''" ps]
  by (auto simp: Join_eq list_all_iff wire_item_def Split_def comma.loop_join)

text \<open>The state of the decoder's package loop before entry \<open>i\<close>.\<close>

definition image_state :: "AppPolicy list \<Rightarrow> nat \<Rightarrow> DecodeState" where
  "image_state as i =
     \<lparr>previous_hash = (if i = 0 then 0 else PackageNameHash (package (as ! (i - 1)))),
      previous_package = (if i = 0 then [] else package (as ! (i - 1))),
      expected_first_mount = of_nat (mounts_before as i), expected_first_event = 0,
      decoded_failure_mode = FailureOpen, decoded_apps = map erase_app (take i as)\<rparr>"

lemma image_state_fields:
  "expected_first_mount (image_state as i) = of_nat (mounts_before as i)"
  "expected_first_event (image_state as i) = 0"
  "decoded_failure_mode (image_state as i) = FailureOpen"
  "decoded_apps (image_state as i) = map erase_app (take i as)"
  by (simp_all add: image_state_def)

lemma FinishPackage_image:
  assumes "canonical_policy app" "events app = []"
    "Read64 input (entry + kPackagePlanGenerationOffset) = Some (PlanGeneration app fmode legacy)"
  shows "FinishPackage input entry legacy fmode (erase_app app) = Some (Inr (erase_app app))"
proof -
  have "ValidatePolicy (erase_app app) = Inr (erase_app app)"
    using assms(1) by (simp add: ValidatePolicy_canonical)
  with assms show ?thesis
    by (simp add: FinishPackage_def list_all2_same SameMount_def)
qed

lemma policy_image_counts:
  assumes img: "policy_image legacy as input h"
  shows "hdr_mount_count h = of_nat (length (concat (map mounts as)))" "hdr_event_count h = 0"
    "length (concat (map mounts as)) < 2 ^ 32"
proof -
  show "hdr_mount_count h = of_nat (length (concat (map mounts as)))" "hdr_event_count h = 0"
    using img by (auto elim: policy_imageE)
  show "length (concat (map mounts as)) < 2 ^ 32"
    using img
  proof (rule policy_imageE)
    fix hdr pes mes T
    assume len: "\<forall>e \<in> set mes. length e = kMountRuleSize"
      "length mes = length (concat (map mounts as))"
      and inp: "input = hdr @ concat pes @ concat mes @ T" "length input < 2 ^ 32"
    have "map length mes = replicate (length mes) kMountRuleSize"
      using len(1) by (simp add: map_replicate_const [symmetric])
    hence "length (concat mes) = length mes * 16"
      by (simp only: length_concat) (simp add: sum_list_replicate kMountRuleSize_def)
    moreover have "length (concat mes) < 2 ^ 32" using inp by simp
    ultimately show ?thesis using len(2) by linarith
  qed
qed

lemma DecodeMounts_image:
  assumes img: "policy_image legacy as input h" and i: "i < length as"
    and can: "\<And>app. app \<in> set as \<Longrightarrow> canonical_policy app"
  shows "DecodeRules (DecodeMount input h) (of_nat (mounts_before as i))
      [0..<unat (of_nat (length (mounts (as ! i))) :: u32)] =
      Some (Inr (map erase_mount (mounts (as ! i))))" (is ?rules)
    "\<not> hdr_mount_count h - of_nat (mounts_before as i) < of_nat (length (mounts (as ! i)))" (is ?range)
proof -
  let ?b = "mounts_before as i" and ?n = "length (mounts (as ! i))" and ?ms = "concat (map mounts as)"
  note mc = policy_image_counts(1) [OF img] and small = policy_image_counts(3) [OF img]
  note before = mounts_before_nth [OF i]
  have u: "unat (of_nat k :: u32) = k" if "k \<le> length ?ms" for k
    using that small by (simp add: unat_of_nat)
  have "?n \<le> length ?ms" "?b \<le> length ?ms" using before(2) by auto
  note un = u [OF this(1)] u [OF this(2)] u [OF order_refl]
  have "DecodeMount input h (of_nat ?b + of_nat j) = Some (Inr (erase_mount (mounts (as ! i) ! j)))"
    if "j < ?n" for j
  proof -
    have "mounts (as ! i) ! j \<in> set (mounts (as ! i))" "as ! i \<in> set as" using that i by auto
    note nul = canonical_no_nul [OF can [OF this(2)] this(1)]
    have "DecodeMount input h (of_nat (?b + j)) = Some (Inr (erase_mount (?ms ! (?b + j))))"
      using before(1) [OF that] before(2) that nul by (intro DecodeMount_image [OF img]) simp_all
    thus ?thesis using before(1) [OF that] by simp
  qed
  hence "DecodeRules (DecodeMount input h) (of_nat ?b) [0..<?n] =
      Some (Inr (map (\<lambda>j. erase_mount (mounts (as ! i) ! j)) [0..<?n]))"
    by (intro DecodeRules_all) simp
  moreover have "map (\<lambda>j. erase_mount (mounts (as ! i) ! j)) [0..<?n] = map erase_mount (mounts (as ! i))"
    by (rule nth_equalityI) simp_all
  ultimately show ?rules using un(1) by simp
  have "(of_nat ?b :: u32) \<le> of_nat (length ?ms)"
    using un before(2) by (simp add: word_le_nat_alt)
  hence "unat (of_nat (length ?ms) - of_nat ?b :: u32) = length ?ms - ?b" using un by (simp add: unat_sub)
  thus ?range using un before(2) by (simp add: mc word_less_nat_alt)
qed

lemma wire_texts:
  assumes "canonical_policy app" "wire_safe app"
  shows "Split (Join (users app)) = Some (users app)" "CHR 0x00 \<notin> set (Join (users app))"
    "Split (Join (processes app)) = Some (processes app)" "CHR 0x00 \<notin> set (Join (processes app))"
  using assms wire_users [of "users app"] wire_processes [of "processes app"]
  by (auto simp: canonical_policy_def wire_safe_def)

lemma package_image_reads:
  assumes img: "policy_image legacy as input h" and i: "i < length as"
    and app: "canonical_policy (as ! i)" "wire_safe (as ! i)"
    and entry: "entry = unat (hdr_package_offset h) + i * kPackageSize"
  obtains n u p where
    "package_entry_reads input entry (PackageNameHash (package (as ! i))) n u p
       (of_nat (mounts_before as i)) (of_nat (length (mounts (as ! i))))
       (PlanGeneration (as ! i) FailureOpen legacy) (MediaCompat_code (media_compat (as ! i)))
       (ProviderCompat_code (provider_compat (as ! i)))"
    "ReadString input (hdr_string_offset h) n = Some (package (as ! i))"
    "ReadString input (hdr_string_offset h) u = Some (Join (users (as ! i)))"
    "ReadString input (hdr_string_offset h) p = Some (Join (processes (as ! i)))"
  using img
proof (rule policy_imageE)
  fix hdr pes mes T
  let ?app = "as ! i"
  assume inp: "input = hdr @ concat pes @ concat mes @ T"
    and lp: "length pes = length as" and off: "unat (hdr_package_offset h) = length hdr"
    and ent: "\<And>i. i < length as \<Longrightarrow> package_entry FailureOpen legacy T (of_nat (mounts_before as i))
       (as ! i) (pes ! i)"
    and len: "\<forall>e \<in> set pes. length e = kPackageSize"
    and str: "\<And>off s. at_offset T off s \<Longrightarrow> CHR 0x00 \<notin> set s \<Longrightarrow>
       ReadString input (hdr_string_offset h) off = Some s"
  obtain n u p where e: "pes ! i = PutPackageEntry (PackageNameHash (package ?app)) n u p
      (of_nat (mounts_before as i)) (of_nat (length (mounts ?app))) 0 0
      (PlanGeneration ?app FailureOpen legacy) (FailureMode_code FailureOpen)
      (MediaCompat_code (media_compat ?app)) (ProviderCompat_code (provider_compat ?app))"
    and at: "at_offset T n (package ?app)" "at_offset T u (Join (users ?app))"
      "at_offset T p (Join (processes ?app))"
    using ent [OF i] by (auto simp: package_entry_def)
  have ip: "i < length pes" using i lp by simp
  have base: "entry = length hdr + i * kPackageSize" using off entry by simp
  note reads = table_reads [OF len ip inp base, unfolded kPackageSize_def]
  note texts = wire_texts(2,4) [OF app]
  show thesis
  proof (rule that [of n u p])
    show "ReadString input (hdr_string_offset h) n = Some (package ?app)"
      "ReadString input (hdr_string_offset h) u = Some (Join (users ?app))"
      "ReadString input (hdr_string_offset h) p = Some (Join (processes ?app))"
      using str at texts app(2) by (auto simp: wire_safe_def)
  qed (use reads(3) [of 0] in \<open>simp add: package_entry_reads_def reads package_entry_fields [OF e]\<close>)
qed

lemma PackageOrder_step:
  assumes "sorted_wrt (\<lambda>a b. PackageOrder a < PackageOrder b) as" "0 < i" "i < length as"
  shows "\<not> (PackageNameHash (package (as ! i)) < PackageNameHash (package (as ! (i - 1))) \<or>
     PackageNameHash (package (as ! i)) = PackageNameHash (package (as ! (i - 1))) \<and>
     package (as ! i) \<le> package (as ! (i - 1)))"
proof -
  have "PackageOrder (as ! (i - 1)) < PackageOrder (as ! i)"
    using assms by (auto simp: sorted_wrt_iff_nth_less)
  thus ?thesis by (auto simp: PackageOrder_def less_prod_def')
qed

lemma DecodePackage_image:
  assumes img: "policy_image legacy as input h" and i: "i < length as"
    and can: "\<And>app. app \<in> set as \<Longrightarrow> canonical_policy app \<and> wire_safe app \<and> events app = []"
    and ord: "sorted_wrt (\<lambda>a b. PackageOrder a < PackageOrder b) as"
  shows "DecodePackage input h legacy (image_state as i) i = Some (Inr (image_state as (Suc i)))"
proof -
  let ?app = "as ! i" and ?entry = "unat (hdr_package_offset h) + i * kPackageSize"
  have app: "canonical_policy ?app" "wire_safe ?app" "events ?app = []" using can i by auto
  obtain n u p where rd: "package_entry_reads input ?entry (PackageNameHash (package ?app)) n u p
       (of_nat (mounts_before as i)) (of_nat (length (mounts ?app)))
       (PlanGeneration ?app FailureOpen legacy) (MediaCompat_code (media_compat ?app))
       (ProviderCompat_code (provider_compat ?app))"
    and strs: "ReadString input (hdr_string_offset h) n = Some (package ?app)"
    "ReadString input (hdr_string_offset h) u = Some (Join (users ?app))"
    "ReadString input (hdr_string_offset h) p = Some (Join (processes ?app))"
    by (rule package_image_reads [OF img i app(1,2) refl])
  note ms = DecodeMounts_image [OF img i can [THEN conjunct1]]
  note ec = policy_image_counts(2) [OF img]
  have erased: "\<lparr>package = package ?app, media_compat = media_compat ?app,
      provider_compat = provider_compat ?app, users = users ?app, processes = processes ?app,
      mounts = map erase_mount (mounts ?app), events = []\<rparr> = erase_app ?app"
    using app(3) by (cases ?app) (simp add: erase_app_def)
  have fin: "FinishPackage input ?entry legacy FailureOpen (erase_app ?app) = Some (Inr (erase_app ?app))"
    using app rd by (intro FinishPackage_image)
      (simp_all add: package_entry_reads_def kPackagePlanGenerationOffset_def)
  have st: "image_state as (Suc i) = \<lparr>previous_hash = PackageNameHash (package ?app),
      previous_package = package ?app,
      expected_first_mount = of_nat (mounts_before as i) + of_nat (length (mounts ?app)),
      expected_first_event = 0, decoded_failure_mode = FailureOpen,
      decoded_apps = map erase_app (take i as) @ [erase_app ?app]\<rparr>"
    using i by (simp add: image_state_def mounts_before_nth take_Suc_conv_app_nth)
  have idx: "(0 < i \<and> (PackageNameHash (package ?app) < previous_hash (image_state as i) \<or>
      PackageNameHash (package ?app) = previous_hash (image_state as i) \<and>
      package ?app \<le> previous_package (image_state as i))) = False"
    using PackageOrder_step [OF ord _ i] by (auto simp: image_state_def)
  show ?thesis
    unfolding DecodePackage_def Let_def package_offset_defs
    using rd ms strs fin wire_texts(1,3) [OF app(1,2)]
    by (simp add: package_entry_reads_def ec erased idx st image_state_fields)
qed

lemma DecodePackages_image:
  assumes img: "policy_image legacy as input h"
    and can: "\<And>app. app \<in> set as \<Longrightarrow> canonical_policy app \<and> wire_safe app \<and> events app = []"
    and ord: "sorted_wrt (\<lambda>a b. PackageOrder a < PackageOrder b) as"
  shows "DecodePackages input h legacy DecodeInit [0..<length as] =
    Some (Inr (image_state as (length as)))"
proof -
  have "DecodePackages input h legacy (image_state as i) [i..<length as] =
      Some (Inr (image_state as (length as)))" if "i \<le> length as" for i
    using that
  proof (induction "length as - i" arbitrary: i)
    case (Suc k)
    hence "i < length as" by simp
    with Suc show ?case
      by (simp add: upt_rec [of i] DecodePackage_image [OF img _ can ord] del: upt_Suc)
  qed simp
  from this [of 0] show ?thesis by (simp add: image_state_def DecodeInit_def mounts_before_def)
qed

subsection \<open>Canonical documents\<close>

lemma CanonicalizeApps_sound:
  "CanonicalizeApps packages as = Inr as' \<Longrightarrow>
   (\<forall>app \<in> set as'. canonical_policy app \<and> events app = [] \<and> media_compat app = MediaOff \<and>
      (\<forall>r \<in> set (mounts app). mount_action r = MountRedirect \<or> mount_action r = MountDeny)) \<and>
   map package as' = map package as \<and> distinct (map package as) \<and>
   set (map package as) \<inter> packages = {}"
proof (induction packages as arbitrary: as' rule: CanonicalizeApps.induct)
  case (2 packages app rest)
  from 2(2) obtain app' rest' where new: "package app \<notin> packages"
    and v: "ValidatePolicy app = Inr app'" and media: "media_compat app' = MediaOff"
    and acts: "list_all (\<lambda>r. mount_action r = MountRedirect \<or> mount_action r = MountDeny) (mounts app')"
    and ev: "events app' = []"
    and rest: "CanonicalizeApps (insert (package app) packages) rest = Inr rest'" "as' = app' # rest'"
    by (auto simp: Fail_def split: if_splits sum.splits)
  from 2(1) [OF new v _ _ _ rest(1)] media acts ev
  have IH: "(\<forall>app \<in> set rest'. canonical_policy app \<and> events app = [] \<and> media_compat app = MediaOff \<and>
      (\<forall>r \<in> set (mounts app). mount_action r = MountRedirect \<or> mount_action r = MountDeny))"
    "map package rest' = map package rest" "distinct (map package rest)"
    "set (map package rest) \<inter> insert (package app) packages = {}" by auto
  with new ev media acts ValidatePolicy_sound [OF v] ValidatePolicy_frame(1) [OF v] show ?case
    by (auto simp: rest(2) list_all_iff)
qed simp

lemma CanonicalizeDocument_cases:
  assumes "CanonicalizeDocument doc = Inr canon"
  shows "schema canon = uint kSchemaVersion" "failure_mode canon = FailureOpen" "apps canon \<noteq> []"
    "allow_legacy_string_bind canon = allow_legacy_string_bind doc"
    "\<And>app. app \<in> set (apps canon) \<Longrightarrow> canonical_policy app \<and> events app = [] \<and>
       media_compat app = MediaOff \<and>
       (\<forall>r \<in> set (mounts app). mount_action r = MountRedirect \<or> mount_action r = MountDeny)"
    "distinct (map package (apps canon))" "map package (apps canon) = map package (apps doc)"
proof -
  from assms obtain as where ne: "apps doc \<noteq> []" and s: "schema doc = uint kSchemaVersion"
    "failure_mode doc = FailureOpen" and as: "CanonicalizeApps {} (apps doc) = Inr as"
    and canon: "canon = doc\<lparr>apps := as\<rparr>"
    by (auto simp: CanonicalizeDocument_def Fail_def split: if_splits sum.splits)
  note snd = CanonicalizeApps_sound [OF as]
  with ne have "as \<noteq> []" by auto
  with snd s canon show "schema canon = uint kSchemaVersion" "failure_mode canon = FailureOpen"
    "apps canon \<noteq> []" "allow_legacy_string_bind canon = allow_legacy_string_bind doc"
    "\<And>app. app \<in> set (apps canon) \<Longrightarrow> canonical_policy app \<and> events app = [] \<and>
       media_compat app = MediaOff \<and>
       (\<forall>r \<in> set (mounts app). mount_action r = MountRedirect \<or> mount_action r = MountDeny)"
    "distinct (map package (apps canon))" "map package (apps canon) = map package (apps doc)"
    by (simp_all add: conjunct1 [OF conjunct2 [OF snd]])
qed

lemma sorted_PackageOrder:
  assumes "distinct (map package as)"
  shows "sorted_wrt (\<lambda>a b. PackageOrder a < PackageOrder b) (sort_key PackageOrder as)"
proof -
  let ?ss = "sort_key PackageOrder as"
  have "distinct (map package ?ss)" using assms by simp
  hence "distinct (map snd (map PackageOrder ?ss))" by (simp add: PackageOrder_def comp_def)
  hence "distinct (map PackageOrder ?ss)" using distinct_map by blast
  hence "sorted_wrt (<) (map PackageOrder ?ss)"
    by (simp add: strict_sorted_iff)
  thus ?thesis by (simp add: sorted_wrt_map)
qed

lemma ContentGeneration_reorder:
  assumes "distinct (map package (apps d))" "mset as = mset (apps d)"
  shows "ContentGeneration (d\<lparr>apps := map erase_app as\<rparr>) = ContentGeneration d"
proof -
  have "sort_key package as = sort_key package (apps d)"
    using assms mset_eq_imp_distinct_iff [of "map package as" "map package (apps d)"]
    by (intro mset_eq_sort_key_eq) simp_all
  moreover have "sort_key package (map erase_app as) = map erase_app (sort_key package as)"
    by (simp add: sort_key_map comp_def)
  ultimately show ?thesis by (simp add: ContentGeneration_def Let_def comp_def)
qed

subsection \<open>The header\<close>

lemma length_PutHeader [simp]: "length (PutHeader fs c g np nm ne op om oe os fl) = kHeaderSize"
  by (simp add: PutHeader_def kHeaderSize_def)

lemma Store_checksum:
  "Store32 (PutHeader fs 0 g np nm ne op om oe os fl @ payload) kPayloadChecksumOffset c =
   PutHeader fs c g np nm ne op om oe os fl @ payload"
  using Store32_eq [of "Put32 kMagic @ Put16 kFormatVersion @ Put16 kSchemaVersion @ Put32 fs"
      kPayloadChecksumOffset "Put32 0" _ c]
  by (simp add: PutHeader_def kPayloadChecksumOffset_def)

lemma header_reads:
  assumes "input = PutHeader fs c g np nm ne op om oe os fl @ payload"
  shows "ReadHeader input = Some \<lparr>hdr_file_size = fs, hdr_checksum = c, hdr_package_count = np,
      hdr_mount_count = nm, hdr_event_count = ne, hdr_package_offset = op, hdr_mount_offset = om,
      hdr_event_offset = oe, hdr_string_offset = os, hdr_flags = fl\<rparr>"
    "Read32 input 0 = Some kMagic" "Read16 input 4 = Some kFormatVersion"
    "Read16 input 6 = Some kSchemaVersion" "Read64 input kContentGenerationOffset = Some g"
  by (simp_all add: assms ReadHeader_def PutHeader_def header_offset_defs codec_simps)

definition encoded_header :: "PolicyDocument \<Rightarrow> nat \<Rightarrow> u32 \<Rightarrow> PolicyHeader" where
  "encoded_header canon fsize checksum =
     (let np = length (apps canon); nm = sum_list (map (length \<circ> mounts) (apps canon)) in
      \<lparr>hdr_file_size = of_nat fsize, hdr_checksum = checksum, hdr_package_count = of_nat np,
       hdr_mount_count = of_nat nm, hdr_event_count = 0, hdr_package_offset = of_nat kHeaderSize,
       hdr_mount_offset = of_nat (kHeaderSize + np * kPackageSize),
       hdr_event_offset = of_nat (kHeaderSize + np * kPackageSize + nm * kMountRuleSize),
       hdr_string_offset = of_nat (kHeaderSize + np * kPackageSize + nm * kMountRuleSize),
       hdr_flags = (if allow_legacy_string_bind canon then kPolicyFlagAllowLegacyStringBind else 0)\<rparr>)"

definition encoded_payload :: "PolicyDocument \<Rightarrow> bytes" where
  "encoded_payload canon =
     (let st = foldl (EncodeApp (failure_mode canon) (allow_legacy_string_bind canon)) EncodeInit
                 (sort_key PackageOrder (apps canon))
      in enc_packages st @ enc_mounts st @ enc_events st @ table_bytes (enc_strings st))"

lemma length_concat_const:
  "\<forall>e \<in> set es. length e = w \<Longrightarrow> length (concat es) = length es * w"
  by (induction es) simp_all

text \<open>The two tables and the string table of the payload.\<close>

lemma encoded_payload_tables:
  assumes "CanonicalizeDocument doc = Inr canon"
  defines "as \<equiv> sort_key PackageOrder (apps canon)"
  obtains pes mes T st where
    "st = foldl (EncodeApp (failure_mode canon) (allow_legacy_string_bind canon)) EncodeInit as"
    "enc_packages st = concat pes" "enc_mounts st = concat mes" "enc_events st = []"
    "table_bytes (enc_strings st) = T" "encoded_payload canon = concat pes @ concat mes @ T"
    "length (concat pes) = length (apps canon) * kPackageSize"
    "length (concat mes) = sum_list (map (length \<circ> mounts) (apps canon)) * kMountRuleSize"
    "T \<noteq> []" "length T \<le> 1 + sum_list (map app_text (apps canon))" "length pes = length as"
    "list_all2 (mount_entry T) (concat (map mounts as)) mes"
    "\<forall>i < length as. package_entry FailureOpen (allow_legacy_string_bind canon) T
       (of_nat (mounts_before as i)) (as ! i) (pes ! i)"
proof -
  note can = CanonicalizeDocument_cases [OF assms(1)]
  define st where
    "st = foldl (EncodeApp (failure_mode canon) (allow_legacy_string_bind canon)) EncodeInit as"
  let ?T = "table_bytes (enc_strings st)"
  have "enc_ok FailureOpen (allow_legacy_string_bind canon) as st"
    unfolding st_def can(2) using can(5) by (intro enc_ok_foldl) (simp add: as_def)
  then obtain pes mes where st: "enc_packages st = concat pes" "enc_mounts st = concat mes"
    "enc_events st = []" "length ?T \<le> 1 + sum_list (map app_text as)" "length pes = length as"
    and mes: "list_all2 (mount_entry ?T) (concat (map mounts as)) mes"
    and pes: "\<forall>i < length as. package_entry FailureOpen (allow_legacy_string_bind canon) ?T
       (of_nat (mounts_before as i)) (as ! i) (pes ! i)"
    unfolding enc_ok_def by blast
  have perm: "sum_list (map f as) = sum_list (map f (apps canon))" for f :: "AppPolicy \<Rightarrow> nat"
    by (metis as_def mset_map mset_sort sum_mset_sum_list)
  have "\<forall>e \<in> set pes. length e = kPackageSize"
    using pes st(5) by (metis in_set_conv_nth package_entry_length)
  from length_concat_const [OF this] st(5)
  have lp: "length (concat pes) = length (apps canon) * kPackageSize" by (simp add: as_def)
  have "\<forall>e \<in> set mes. length e = kMountRuleSize"
    using mes by (metis in_set_conv_nth list_all2_conv_all_nth mount_entry_length)
  from length_concat_const [OF this] list_all2_lengthD [OF mes]
  have lm: "length (concat mes) = sum_list (map (length \<circ> mounts) (apps canon)) * kMountRuleSize"
    using perm [of "length \<circ> mounts"] by (simp add: length_concat comp_def)
  have "0 < length as" using can(3) by (simp add: as_def)
  with pes have "?T \<noteq> []" by (auto simp: package_entry_def at_offset_def)
  moreover have "encoded_payload canon = concat pes @ concat mes @ ?T"
    using st by (simp add: encoded_payload_def Let_def as_def st_def)
  moreover have "length ?T \<le> 1 + sum_list (map app_text (apps canon))" using st(4) perm by simp
  ultimately show ?thesis
    using that [OF st_def st(1-3) refl _ lp lm _ _ st(5) mes pes] by blast
qed

definition encoded_file :: "PolicyDocument \<Rightarrow> bytes" where
  "encoded_file canon =
     (let payload = encoded_payload canon;
          h = encoded_header canon (kHeaderSize + length payload) (Crc32 payload)
      in PutHeader (hdr_file_size h) (hdr_checksum h) (ContentGeneration canon)
           (hdr_package_count h) (hdr_mount_count h) (hdr_event_count h) (hdr_package_offset h)
           (hdr_mount_offset h) (hdr_event_offset h) (hdr_string_offset h) (hdr_flags h) @ payload)"

definition policy_file_bound :: "PolicyDocument \<Rightarrow> nat" where
  "policy_file_bound canon =
     kHeaderSize + length (apps canon) * kPackageSize +
     sum_list (map (length \<circ> mounts) (apps canon)) * kMountRuleSize +
     1 + sum_list (map app_text (apps canon))"

lemma EncodePolicy_eq:
  assumes "CanonicalizeDocument doc = Inr canon"
  shows "EncodePolicy doc =
    (if length (apps canon) > kMaxU32 \<or> sum_list (map (length \<circ> mounts) (apps canon)) > kMaxU32
     then Fail ''policy table count overflow''
     else if kHeaderSize + length (encoded_payload canon) > kMaxU32 then Fail ''policy file too large''
     else Inr (encoded_file canon))"
  using assms
proof (rule encoded_payload_tables)
  fix pes mes T st
  let ?as = "sort_key PackageOrder (apps canon)"
  assume st: "st = foldl (EncodeApp (failure_mode canon) (allow_legacy_string_bind canon)) EncodeInit ?as"
    and tabs: "enc_packages st = concat pes" "enc_mounts st = concat mes" "enc_events st = []"
    "table_bytes (enc_strings st) = T" and pay: "encoded_payload canon = concat pes @ concat mes @ T"
    and len: "length (concat pes) = length (apps canon) * kPackageSize"
    "length (concat mes) = sum_list (map (length \<circ> mounts) (apps canon)) * kMountRuleSize"
  have "\<forall>app \<in> set (apps canon). events app = []"
    using CanonicalizeDocument_cases(5) [OF assms] by blast
  hence ev: "sum_list (map (length \<circ> events) (apps canon)) = 0" by (simp add: sum_list_0)
  have out: "PutHeader (of_nat (kHeaderSize + length (encoded_payload canon)))
      (Crc32 (encoded_payload canon)) (ContentGeneration canon)
      (of_nat (length ?as)) (of_nat (sum_list (map (length \<circ> mounts) (apps canon)))) (of_nat 0)
      (of_nat kHeaderSize) (of_nat kHeaderSize + of_nat (length (concat pes)))
      (of_nat kHeaderSize + of_nat (length (concat pes)) + of_nat (length (concat mes)))
      (of_nat kHeaderSize + of_nat (length (concat pes)) + of_nat (length (concat mes)) + of_nat (length ([] :: bytes)))
      (if allow_legacy_string_bind canon then kPolicyFlagAllowLegacyStringBind else 0) @
      encoded_payload canon = encoded_file canon"
    by (simp only: encoded_file_def encoded_header_def Let_def len PolicyHeader.simps length_sort)
      simp
  have drop: "drop kHeaderSize (PutHeader fs c g np nm ne op om oe os fl @ p) = p"
    for fs c g np nm ne op om oe os fl p by simp
  show ?thesis
    unfolding EncodePolicy_def assms sum.case Let_def st [symmetric] tabs ev append_Nil
      pay [symmetric] drop Store_checksum out
    by simp
qed

lemma EncodePolicy_Inr:
  assumes "EncodePolicy doc = Inr out"
  obtains canon where "CanonicalizeDocument doc = Inr canon" "out = encoded_file canon"
    "length (encoded_file canon) \<le> kMaxU32"
proof -
  from assms obtain canon where c: "CanonicalizeDocument doc = Inr canon"
    by (auto simp: EncodePolicy_def split: sum.splits)
  with assms show ?thesis
    by (intro that [OF c]) (auto simp: EncodePolicy_eq [OF c] Fail_def encoded_file_def Let_def split: if_splits)
qed

lemma EncodePolicy_fits:
  assumes c: "CanonicalizeDocument doc = Inr canon" and b: "policy_file_bound canon \<le> kMaxU32"
  shows "EncodePolicy doc = Inr (encoded_file canon)"
  using c
proof (rule encoded_payload_tables)
  fix pes mes T st
  assume "encoded_payload canon = concat pes @ concat mes @ T"
    "length (concat pes) = length (apps canon) * kPackageSize"
    "length (concat mes) = sum_list (map (length \<circ> mounts) (apps canon)) * kMountRuleSize"
    "length T \<le> 1 + sum_list (map app_text (apps canon))"
  with b show ?thesis
    unfolding EncodePolicy_eq [OF c] policy_file_bound_def by (simp add: size_defs)
qed

lemma unat_u32: "n < 2 ^ 32 \<Longrightarrow> unat (of_nat n :: u32) = n"
  by (simp add: unat_of_nat)

text \<open>An encoded file passes every header check and is an image of the sorted applications.\<close>

lemma encoded_file_valid:
  assumes c: "CanonicalizeDocument doc = Inr canon" and b: "length (encoded_file canon) \<le> kMaxU32"
  obtains h where "ReadHeader (encoded_file canon) = Some h"
    "HeaderValid (encoded_file canon) h = Some True"
    "policy_image (allow_legacy_string_bind canon) (sort_key PackageOrder (apps canon))
       (encoded_file canon) h"
    "unat (hdr_package_count h) = length (apps canon)"
    "(and (hdr_flags h) kPolicyFlagAllowLegacyStringBind \<noteq> 0) = allow_legacy_string_bind canon"
    "Read64 (encoded_file canon) kContentGenerationOffset = Some (ContentGeneration canon)"
  using c
proof (rule encoded_payload_tables)
  fix pes mes T st
  let ?as = "sort_key PackageOrder (apps canon)" and ?pay = "encoded_payload canon"
  let ?nm = "sum_list (map (length \<circ> mounts) (apps canon))" and ?np = "length (apps canon)"
  let ?h = "encoded_header canon (kHeaderSize + length ?pay) (Crc32 ?pay)"
  let ?hdr = "PutHeader (hdr_file_size ?h) (hdr_checksum ?h) (ContentGeneration canon)
           (hdr_package_count ?h) (hdr_mount_count ?h) (hdr_event_count ?h) (hdr_package_offset ?h)
           (hdr_mount_offset ?h) (hdr_event_offset ?h) (hdr_string_offset ?h) (hdr_flags ?h)"
  assume pay: "?pay = concat pes @ concat mes @ T"
    and len: "length (concat pes) = ?np * kPackageSize" "length (concat mes) = ?nm * kMountRuleSize"
    and T: "T \<noteq> []" and lp: "length pes = length ?as"
    and mes: "list_all2 (mount_entry T) (concat (map mounts ?as)) mes"
    and pes: "\<forall>i < length ?as. package_entry FailureOpen (allow_legacy_string_bind canon) T
       (of_nat (mounts_before ?as i)) (?as ! i) (pes ! i)"
  have enc: "encoded_file canon = ?hdr @ ?pay" by (simp add: encoded_file_def Let_def)
  have size: "length (encoded_file canon) = kHeaderSize + length ?pay" by (simp add: enc)
  have small: "kHeaderSize + ?np * kPackageSize + ?nm * kMountRuleSize + length T < 2 ^ 32"
    using b len by (simp add: size pay kMaxU32_def)
  have cnt: "length (concat (map mounts ?as)) = ?nm"
    by (metis length_concat list.map_comp mset_map mset_sort sum_mset_sum_list)
  have h: "unat (hdr_file_size ?h) = length (encoded_file canon)"
    "unat (hdr_package_count ?h) = ?np" "unat (hdr_mount_count ?h) = ?nm" "hdr_event_count ?h = 0"
    "unat (hdr_package_offset ?h) = kHeaderSize"
    "unat (hdr_mount_offset ?h) = kHeaderSize + ?np * kPackageSize"
    "unat (hdr_event_offset ?h) = kHeaderSize + ?np * kPackageSize + ?nm * kMountRuleSize"
    "unat (hdr_string_offset ?h) = kHeaderSize + ?np * kPackageSize + ?nm * kMountRuleSize"
    "hdr_string_offset ?h = of_nat (kHeaderSize + ?np * kPackageSize + ?nm * kMountRuleSize)"
    "hdr_mount_count ?h = of_nat ?nm"
    using small b
    by (simp_all add: encoded_header_def Let_def unat_u32 size_defs kMaxU32_def size
        del: of_nat_add of_nat_mult)
  have flags: "and (hdr_flags ?h) (not kPolicyFlagAllowLegacyStringBind) = 0"
    "(and (hdr_flags ?h) kPolicyFlagAllowLegacyStringBind \<noteq> 0) = allow_legacy_string_bind canon"
    by (simp_all add: encoded_header_def Let_def kPolicyFlagAllowLegacyStringBind_def)
  have crc: "Crc32 (drop kHeaderSize (encoded_file canon)) = hdr_checksum ?h"
    by (simp add: enc encoded_header_def Let_def)
  have np: "hdr_package_count ?h \<noteq> 0"
    using h(2) CanonicalizeDocument_cases(3) [OF c] by (metis length_0_conv unat_0)
  note rd = header_reads [OF enc]
  have "ReadHeader (encoded_file canon) = Some ?h" using rd(1) by (simp add: encoded_header_def Let_def)
  moreover have "HeaderValid (encoded_file canon) ?h = Some True"
    using rd(2-4) h flags(1) crc np T len size
    by (simp add: HeaderValid_def ExpectedMountOffset_def ExpectedEventOffset_def ExpectedStringOffset_def
        pay)
  moreover have "policy_image (allow_legacy_string_bind canon) ?as (encoded_file canon) ?h"
    unfolding policy_image_def
    by (rule exI [of _ ?hdr], rule exI [of _ pes], rule exI [of _ mes], rule exI [of _ T], intro conjI)
      (use enc pay lp mes pes h len cnt b in \<open>simp_all add: kMaxU32_def del: length_concat\<close>)
  ultimately show thesis using that h(2) flags(2) rd(5) by blast
qed

definition decoded_document :: "PolicyDocument \<Rightarrow> PolicyDocument" where
  "decoded_document canon = canon\<lparr>apps := map erase_app (sort_key PackageOrder (apps canon))\<rparr>"

lemma DecodePolicy_encoded:
  assumes c: "CanonicalizeDocument doc = Inr canon" and b: "length (encoded_file canon) \<le> kMaxU32"
    and w: "\<forall>app \<in> set (apps canon). wire_safe app"
  shows "DecodePolicy (encoded_file canon) = Some (Inr (decoded_document canon, ContentGeneration canon))"
proof -
  let ?as = "sort_key PackageOrder (apps canon)" and ?lg = "allow_legacy_string_bind canon"
  note can = CanonicalizeDocument_cases [OF c]
  obtain h where h: "ReadHeader (encoded_file canon) = Some h"
    "HeaderValid (encoded_file canon) h = Some True"
    and img: "policy_image ?lg ?as (encoded_file canon) h"
    and n: "unat (hdr_package_count h) = length ?as"
    and lg: "(and (hdr_flags h) kPolicyFlagAllowLegacyStringBind \<noteq> 0) = ?lg"
    and gen: "Read64 (encoded_file canon) kContentGenerationOffset = Some (ContentGeneration canon)"
    using encoded_file_valid [OF c b] by (metis length_sort)
  have pk: "DecodePackages (encoded_file canon) h ?lg DecodeInit [0..<length ?as] =
      Some (Inr (image_state ?as (length ?as)))"
    using can(5) w by (intro DecodePackages_image [OF img] sorted_PackageOrder can(6)) auto
  have ends: "expected_first_mount (image_state ?as (length ?as)) = hdr_mount_count h"
    "expected_first_event (image_state ?as (length ?as)) = hdr_event_count h"
    using policy_image_counts [OF img] by (simp_all add: image_state_def mounts_before_def)
  have doc: "\<lparr>schema = uint kSchemaVersion, failure_mode = FailureOpen,
      allow_legacy_string_bind = ?lg, apps = map erase_app ?as\<rparr> = decoded_document canon"
    using can(1,2) by (simp add: decoded_document_def)
  have "ContentGeneration (decoded_document canon) = ContentGeneration canon"
    unfolding decoded_document_def using can(6) by (intro ContentGeneration_reorder) simp_all
  moreover have "kHeaderSize \<le> length (encoded_file canon)"
    by (simp add: encoded_file_def Let_def)
  ultimately show ?thesis
    unfolding DecodePolicy_def Let_def
    using h pk ends gen by (simp add: lg n image_state_fields doc)
qed

subsection \<open>The package index of an encoded file\<close>

text \<open>The view that the runtime builds from a header.\<close>

definition index_view :: "bytes \<Rightarrow> PolicyHeader \<Rightarrow> PolicyIndexView" where
  "index_view input h =
     \<lparr>view_data = Some input, view_size = length input, package_count = hdr_package_count h,
      package_offset = hdr_package_offset h, package_end = hdr_mount_offset h,
      string_offset = hdr_string_offset h\<rparr>"

lemma nul_terminated_match:
  assumes "CHR 0x00 \<notin> set s" "CHR 0x00 \<notin> set t"
  shows "(take (length t) (string_bytes s @ 0 # post) = string_bytes t \<and>
          (string_bytes s @ 0 # post) ! length t = 0) \<longleftrightarrow> t = s"
proof
  let ?x = "string_bytes s @ 0 # post"
  assume m: "take (length t) ?x = string_bytes t \<and> ?x ! length t = 0"
  have ns: "0 \<notin> set (string_bytes s)" "0 \<notin> set (string_bytes t)"
    using assms zero_in_string_bytes by auto
  have "\<not> length t < length s"
    using m ns(1) by (auto simp: nth_append) (metis length_string_bytes nth_mem)
  moreover have "\<not> length s < length t"
  proof
    assume lt: "length s < length t"
    hence "take (length t) ?x ! length s = 0" by (simp add: nth_append)
    hence "string_bytes t ! length s = 0" using m by simp
    thus False using ns(2) lt by (metis length_string_bytes nth_mem)
  qed
  ultimately have "length t = length s" by simp
  with m have "string_bytes t = string_bytes s" by simp
  thus "t = s" by (metis string_bytes_inverse)
qed (simp add: nth_append)

lemma EntryNameMatches_at:
  assumes at: "at_offset T n s" and nul: "CHR 0x00 \<notin> set s" "CHR 0x00 \<notin> set t"
    and inp: "input = pre @ T" "length input < 2 ^ 32"
    and view: "view_size view = length input" "unat (string_offset view) = length pre"
    and rd: "Read32 input (entry + kPackageNameOffset) = Some n"
  shows "EntryNameMatches input view t entry = Some (t = s)"
proof -
  obtain p q where T: "T = p @ string_bytes s @ 0 # q" and n: "n = of_nat (length p)"
    using at by (auto simp: at_offset_def)
  have un: "unat n = length p" using inp by (simp add: n T unat_of_nat)
  let ?x = "string_bytes s @ 0 # q"
  have in_x: "input = (pre @ p) @ ?x" by (simp add: inp T)
  have zero: "rd8 input (length pre + length p + length t) = Some (?x ! length t)"
    if "length t < length ?x"
    using that unfolding in_x by (subst rd8_append) (simp_all add: rd8_def)
  have slice: "rd_slice input (length pre + length p) (length t) = Some (take (length t) ?x)"
    if "length t < length ?x"
    using that unfolding in_x rd_slice_def by simp
  have short: "t \<noteq> s" if "\<not> length t < length ?x" using that by auto
  show ?thesis
    using zero slice short nul_terminated_match [OF nul, of q] rd
    by (auto simp: EntryNameMatches_def Let_def view un in_x)
qed

lemma image_entry_is:
  assumes img: "policy_image legacy as input h" and i: "i < length as"
    and can: "\<And>app. app \<in> set as \<Longrightarrow> canonical_policy app \<and> wire_safe app"
    and nul: "CHR 0x00 \<notin> set name"
  shows "Read32 input (EntryOffset (index_view input h) i + kPackageHashOffset) =
      Some (PackageNameHash (package (as ! i)))"
    "entry_is input (index_view input h) name i \<longleftrightarrow> package (as ! i) = name"
proof -
  let ?view = "index_view input h" and ?app = "as ! i"
  have app: "canonical_policy ?app" "wire_safe ?app" using can i by auto
  have off: "EntryOffset ?view i = unat (hdr_package_offset h) + i * kPackageSize"
    by (simp add: EntryOffset_def index_view_def)
  have "Read32 input (EntryOffset ?view i + kPackageHashOffset) = Some (PackageNameHash (package ?app)) \<and>
      EntryNameMatches input ?view name (EntryOffset ?view i) = Some (name = package ?app)"
    using img
  proof (rule policy_imageE)
    fix hdr pes mes T
    assume inp: "input = hdr @ concat pes @ concat mes @ T" "length input < 2 ^ 32"
      and lp: "length pes = length as" and base: "unat (hdr_package_offset h) = length hdr"
      and str: "hdr_string_offset h = of_nat (length (hdr @ concat pes @ concat mes))"
      and ent: "\<And>i. i < length as \<Longrightarrow> package_entry FailureOpen legacy T
         (of_nat (mounts_before as i)) (as ! i) (pes ! i)"
      and len: "\<forall>e \<in> set pes. length e = kPackageSize"
    obtain n u p where e: "pes ! i = PutPackageEntry (PackageNameHash (package ?app)) n u p
        (of_nat (mounts_before as i)) (of_nat (length (mounts ?app))) 0 0
        (PlanGeneration ?app FailureOpen legacy) (FailureMode_code FailureOpen)
        (MediaCompat_code (media_compat ?app)) (ProviderCompat_code (provider_compat ?app))"
      and at: "at_offset T n (package ?app)"
      using ent [OF i] by (auto simp: package_entry_def)
    have ip: "i < length pes" using i lp by simp
    have "EntryOffset ?view i = length hdr + i * kPackageSize" using base off by simp
    note reads = table_reads(3) [OF len ip inp(1) this, unfolded kPackageSize_def]
    have hash: "Read32 input (EntryOffset ?view i + kPackageHashOffset) =
        Some (PackageNameHash (package ?app))"
      using reads [of 0] package_entry_fields(1) [OF e] by (simp add: kPackageHashOffset_def)
    have "Read32 input (EntryOffset ?view i + kPackageNameOffset) = Some n"
      using reads [of 4] package_entry_fields(2) [OF e] by (simp add: kPackageNameOffset_def)
    moreover have "unat (string_offset ?view) = length (hdr @ concat pes @ concat mes)"
      using inp by (simp add: index_view_def str unat_u32 del: of_nat_add)
    ultimately have "EntryNameMatches input ?view name (EntryOffset ?view i) = Some (name = package ?app)"
      using app(2) inp nul
      by (intro EntryNameMatches_at [OF at, where pre = "hdr @ concat pes @ concat mes"])
        (auto simp: wire_safe_def index_view_def)
    with hash show ?thesis by blast
  qed
  thus "Read32 input (EntryOffset ?view i + kPackageHashOffset) = Some (PackageNameHash (package ?app))"
    "entry_is input ?view name i \<longleftrightarrow> package ?app = name"
    by (auto simp: entry_is_def)
qed

lemma index_view_valid: "HeaderValid input h = Some True \<Longrightarrow> ValidPolicyIndex (index_view input h)"
proof -
  assume v: "HeaderValid input h = Some True"
  hence t: "table_layout input h" by (rule HeaderValid_layout)
  hence "hdr_package_offset h \<le> hdr_mount_offset h" by (simp add: layout_defs word_le_nat_alt)
  hence "unat (hdr_mount_offset h - hdr_package_offset h) =
      unat (hdr_mount_offset h) - unat (hdr_package_offset h)" by (rule unat_sub)
  with t show ?thesis by (simp add: ValidPolicyIndex_def index_view_def layout_defs word_le_nat_alt)
qed

lemma FindPackageEntry_image:
  assumes img: "policy_image legacy as input h" and v: "HeaderValid input h = Some True"
    and n: "unat (hdr_package_count h) = length as"
    and can: "\<And>app. app \<in> set as \<Longrightarrow> canonical_policy app \<and> wire_safe app"
    and ord: "sorted_wrt (\<lambda>a b. PackageOrder a < PackageOrder b) as"
    and name: "CHR 0x00 \<notin> set name" "name \<noteq> []"
  shows "FindPackageEntry (index_view input h) name =
    Some (map_option (EntryOffset (index_view input h))
      (List.find (\<lambda>i. package (as ! i) = name) [0..<length as]))"
proof -
  let ?view = "index_view input h"
  note entry = image_entry_is [OF img _ can name(1)]
  have view: "view_data ?view = Some input" "view_size ?view = length input"
    "unat (package_count ?view) = length as" using n by (simp_all add: index_view_def)
  have "PackageNameHash (package (as ! i)) \<le> PackageNameHash (package (as ! j))"
    if "i \<le> j" "j < length as" for i j
  proof (cases "i = j")
    case False
    with ord that have "PackageOrder (as ! i) < PackageOrder (as ! j)"
      by (simp add: sorted_wrt_iff_nth_less)
    thus ?thesis by (auto simp: PackageOrder_def less_prod_def')
  qed simp
  hence "index_sorted input ?view"
    unfolding index_sorted_def view(3) using entry(1) by simp
  moreover have "List.find (entry_is input ?view name) [0..<length as] =
      List.find (\<lambda>i. package (as ! i) = name) [0..<length as]"
    by (rule find_cong) (auto simp: entry(2))
  ultimately show ?thesis
    using FindPackageEntry_linear [OF index_view_valid [OF v] view(1,2) name(2)] view(3) by simp
qed

subsection \<open>What the decoder accepts\<close>

text \<open>The loop invariant: the applications decoded so far are canonical and strictly ordered by hash
  and name, and the last one is the remembered predecessor.\<close>

definition decoded_inv :: "nat \<Rightarrow> DecodeState \<Rightarrow> bool" where
  "decoded_inv index st \<longleftrightarrow>
     length (decoded_apps st) = index \<and> decoded_failure_mode st = FailureOpen \<and>
     list_all canonical_policy (decoded_apps st) \<and>
     sorted_wrt (\<lambda>a b. PackageOrder a < PackageOrder b) (decoded_apps st) \<and>
     (0 < index \<longrightarrow> PackageOrder (last (decoded_apps st)) = (previous_hash st, previous_package st))"

lemma FinishPackage_success:
  assumes "FinishPackage input entry legacy fmode enc = Some (Inr app)"
  shows "canonical_policy app" "package app = package enc"
proof -
  from assms have "ValidatePolicy enc = Inr app"
    by (auto simp: FinishPackage_def Fail_def bind_eq_Some_conv split: sum.splits if_splits)
  thus "canonical_policy app" "package app = package enc"
    by (auto intro: ValidatePolicy_sound dest: ValidatePolicy_frame(1))
qed

lemma decoded_inv_step:
  assumes inv: "decoded_inv index st"
    and dec: "DecodePackage input h legacy st index = Some (Inr st')"
  shows "decoded_inv (Suc index) st'"
  using dec
proof (rule DecodePackage_success)
  fix m e app enc entry
  assume fin: "FinishPackage input entry legacy FailureOpen enc = Some (Inr app)"
    and st': "decoded_failure_mode st' = FailureOpen" "decoded_apps st' = decoded_apps st @ [app]"
    "previous_hash st' = PackageNameHash (package enc)" "previous_package st' = package enc"
    and ord: "0 < index \<Longrightarrow>
      (previous_hash st, previous_package st) < (previous_hash st', previous_package st')"
  note app = FinishPackage_success [OF fin]
  have key: "PackageOrder app = (previous_hash st', previous_package st')"
    by (simp add: PackageOrder_def app st')
  have "PackageOrder a < PackageOrder app" if a: "a \<in> set (decoded_apps st)" for a
  proof -
    have pos: "0 < index" "decoded_apps st \<noteq> []" using a inv by (auto simp: decoded_inv_def)
    have srt: "sorted_wrt (\<lambda>a b. PackageOrder a < PackageOrder b)
        (butlast (decoded_apps st) @ [last (decoded_apps st)])"
      using inv pos by (simp add: decoded_inv_def)
    hence "PackageOrder a \<le> PackageOrder (last (decoded_apps st))"
      using a pos(2) by (metis append_butlast_last_id in_set_conv_decomp less_imp_le list.set_intros(1)
          order_refl rotate1.simps(2) set_ConsD set_rotate1 sorted_wrt_append)
    also have "\<dots> < PackageOrder app" using inv pos ord key by (simp add: decoded_inv_def)
    finally show ?thesis .
  qed
  with inv app st' key show ?thesis
    by (simp add: decoded_inv_def sorted_wrt_append)
qed

lemma decoded_inv_loop:
  "decoded_inv i st \<Longrightarrow> DecodePackages input h legacy st [i..<n] = Some (Inr st') \<Longrightarrow> i \<le> n \<Longrightarrow>
   decoded_inv n st'"
proof (induction "n - i" arbitrary: i st)
  case (Suc k)
  hence upt: "[i..<n] = i # [Suc i..<n]" by (simp add: upt_conv_Cons)
  obtain st1 where "DecodePackage input h legacy st i = Some (Inr st1)"
    "DecodePackages input h legacy st1 [Suc i..<n] = Some (Inr st')"
    using Suc.prems(2) unfolding upt DecodePackages.simps by (elim bind_SomeE sum_caseE) simp
  with Suc.hyps Suc.prems show ?case
    by (intro Suc.hyps(1) [of "Suc i" st1]) (auto intro: decoded_inv_step)
qed simp

lemma DecodePolicy_success:
  assumes "DecodePolicy input = Some (Inr (doc, generation))"
  obtains h st where "ReadHeader input = Some h" "HeaderValid input h = Some True"
    "DecodePackages input h (allow_legacy_string_bind doc) DecodeInit
       [0..<unat (hdr_package_count h)] = Some (Inr st)"
    "schema doc = uint kSchemaVersion" "failure_mode doc = decoded_failure_mode st"
    "apps doc = decoded_apps st" "generation = ContentGeneration doc" "hdr_package_count h \<noteq> 0"
proof -
  have len: "\<not> length input < kHeaderSize" using assms by (auto simp: DecodePolicy_def)
  obtain h v st lg where h: "ReadHeader input = Some h" "HeaderValid input h = Some v" and v: v
    and pk: "DecodePackages input h lg DecodeInit [0..<unat (hdr_package_count h)] = Some (Inr st)"
    and doc: "doc = \<lparr>schema = uint kSchemaVersion, failure_mode = decoded_failure_mode st,
       allow_legacy_string_bind = lg, apps = decoded_apps st\<rparr>"
    and gen: "generation = ContentGeneration doc"
    using assms len unfolding DecodePolicy_def Let_def if_not_P [OF len]
    by (elim bind_SomeE if_FailE sum_caseE) (auto simp: Fail_def split: if_splits)
  have "hdr_package_count h \<noteq> 0" using h(2) v by (auto simp: HeaderValid_def bind_eq_Some_conv)
  with h v pk doc gen show ?thesis by (intro that [of h st]) simp_all
qed

lemma HeaderValid_crc:
  assumes "HeaderValid input h = Some True"
  shows "Crc32 (drop kHeaderSize input) = hdr_checksum h"
  using assms by (auto simp: HeaderValid_def bind_eq_Some_conv)

lemma ReadHeader_prefix:
  assumes "length hdr = kHeaderSize"
  shows "ReadHeader (hdr @ xs) = ReadHeader hdr"
proof -
  have "Read32 (hdr @ xs) k = Read32 hdr k" if "k + 4 \<le> 56" for k
    using that assms by (intro le32.rd_prefix) (simp add: kHeaderSize_def)
  thus ?thesis by (simp add: ReadHeader_def header_offset_defs)
qed

subsection \<open>A sample document\<close>

definition sample_document :: PolicyDocument where
  "sample_document =
     \<lparr>schema = 2, failure_mode = FailureOpen, allow_legacy_string_bind = False,
      apps = [\<lparr>package = ''com.example.app'', media_compat = MediaOff, provider_compat = ProviderOff,
               users = [''0''], processes = [''com.example.app''],
               mounts = [\<lparr>mount_action = MountRedirect, visible_path = ''DCIM/Camera'',
                          backing_path = ''Pictures/app'', mount_depth = 0, mount_flags = 0,
                          mount_line = 7\<rparr>],
               events = []\<rparr>]\<rparr>"

definition sample_canonical :: PolicyDocument where
  "sample_canonical = sample_document\<lparr>apps :=
     map (\<lambda>app. app\<lparr>mounts := map (\<lambda>r. r\<lparr>mount_depth := 2\<rparr>) (mounts app)\<rparr>) (apps sample_document)\<rparr>"

lemma sample_canonicalize: "CanonicalizeDocument sample_document = Inr sample_canonical"
  by code_simp

lemma sample_safe:
  "\<forall>app \<in> set (apps sample_canonical). wire_safe app" "policy_file_bound sample_canonical \<le> kMaxU32"
  by code_simp+

subsection \<open>Properties\<close>

text \<open>
  Claim C1.  The binary codec round-trips.  Let \<open>canon\<close> be the canonical form of a document whose
  package names have no NUL, whose user and process lists are non-empty and whose process names are
  non-empty and free of commas and NULs.  Whatever file \<open>EncodePolicy\<close> writes for it, \<open>DecodePolicy\<close>
  accepts, and it returns the canonical document with the applications in index order and without
  line numbers, together with the content generation of \<open>canon\<close>.  And \<open>EncodePolicy\<close> does write a
  file whenever the size computed from the text lengths fits into 32 bits.
\<close>

theorem policy_round_trip:
  assumes "CanonicalizeDocument doc = Inr canon" "\<forall>app \<in> set (apps canon). wire_safe app"
  shows "(\<forall>out. EncodePolicy doc = Inr out \<longrightarrow>
            DecodePolicy out = Some (Inr (decoded_document canon, ContentGeneration canon))) \<and>
         (policy_file_bound canon \<le> kMaxU32 \<longrightarrow> (\<exists>out. EncodePolicy doc = Inr out))"
proof (intro conjI allI impI)
  fix out assume "EncodePolicy doc = Inr out"
  then obtain canon' where "CanonicalizeDocument doc = Inr canon'" "out = encoded_file canon'"
    "length (encoded_file canon') \<le> kMaxU32" by (rule EncodePolicy_Inr)
  with assms show "DecodePolicy out = Some (Inr (decoded_document canon, ContentGeneration canon))"
    by (auto intro: DecodePolicy_encoded)
qed (blast intro: EncodePolicy_fits [OF assms(1)])

theorem policy_round_trip_witness:
  "\<exists>out. EncodePolicy sample_document = Inr out \<and>
     DecodePolicy out = Some (Inr (decoded_document sample_canonical, ContentGeneration sample_canonical))"
  using policy_round_trip [OF sample_canonicalize sample_safe(1)] sample_safe(2) by blast


text \<open>
  Claim C19.  Whatever file \<open>DecodePolicy\<close> accepts describes a schema-2 document with at least one
  application, in which every application is in canonical form (normalised paths, no duplicate
  sources, rules sorted), the applications are strictly ordered by name hash and name (so no package
  occurs twice), the failure mode is fail-open, and the returned generation is the document's.
\<close>

theorem decoder_accepts_canonical:
  assumes "DecodePolicy input = Some (Inr (doc, generation))"
  shows "schema doc = 2 \<and> failure_mode doc = FailureOpen \<and> apps doc \<noteq> [] \<and>
     (\<forall>app \<in> set (apps doc). canonical_policy app) \<and>
     sorted_wrt (\<lambda>a b. PackageOrder a < PackageOrder b) (apps doc) \<and>
     distinct (map package (apps doc)) \<and> generation = ContentGeneration doc"
  using assms
proof (rule DecodePolicy_success)
  fix h st
  assume pk: "DecodePackages input h (allow_legacy_string_bind doc) DecodeInit
       [0..<unat (hdr_package_count h)] = Some (Inr st)"
    and doc: "schema doc = uint kSchemaVersion" "failure_mode doc = decoded_failure_mode st"
      "apps doc = decoded_apps st"
    and gen: "generation = ContentGeneration doc" and n: "hdr_package_count h \<noteq> 0"
  have "decoded_inv 0 DecodeInit" by (simp add: decoded_inv_def DecodeInit_def)
  from decoded_inv_loop [OF this pk] have inv: "decoded_inv (unat (hdr_package_count h)) st" by simp
  have ne: "decoded_apps st \<noteq> []" using inv n by (auto simp: decoded_inv_def unat_eq_zero)
  have srt: "sorted_wrt (\<lambda>a b. PackageOrder a < PackageOrder b) (decoded_apps st)"
    using inv by (simp add: decoded_inv_def)
  have "sorted_wrt (\<lambda>a b. package a \<noteq> package b) (decoded_apps st)"
    by (rule sorted_wrt_mono_rel [OF _ srt]) (auto simp: PackageOrder_def)
  hence "distinct (map package (decoded_apps st))"
    by (simp add: distinct_conv_nth sorted_wrt_iff_nth_less) (metis nat_neq_iff)
  moreover have "schema doc = 2" using doc(1) by (simp add: kSchemaVersion_def)
  ultimately show ?thesis
    using srt ne inv gen doc by (simp add: decoded_inv_def list_all_iff)
qed

theorem decoder_accepts_canonical_witness:
  "\<exists>out. DecodePolicy out =
       Some (Inr (decoded_document sample_canonical, ContentGeneration sample_canonical)) \<and>
     distinct (map package (apps (decoded_document sample_canonical)))"
proof -
  from DecodePolicy_encoded [OF sample_canonicalize _ sample_safe(1)]
    EncodePolicy_fits [OF sample_canonicalize sample_safe(2)]
  have "DecodePolicy (encoded_file sample_canonical) =
      Some (Inr (decoded_document sample_canonical, ContentGeneration sample_canonical))"
    by (metis EncodePolicy_Inr Inr_inject sample_canonicalize)
  thus ?thesis using decoder_accepts_canonical by blast
qed

text \<open>
  Claim C21.  Damage to the payload is always noticed.  If \<open>DecodePolicy\<close> accepts a file, then it
  rejects every file that differs from it in exactly one byte after the header, with the error of
  the header and checksum test.
\<close>

theorem payload_byte_change_rejected:
  assumes "DecodePolicy (hdr @ xs @ b # ys) = Some (Inr d)" "length hdr = kHeaderSize" "b \<noteq> b'"
  shows "DecodePolicy (hdr @ xs @ b' # ys) = Some (Fail ''invalid policy header or checksum'')"
proof -
  obtain doc g where d: "d = (doc, g)" by (cases d)
  from assms(1) obtain h where h: "ReadHeader (hdr @ xs @ b # ys) = Some h"
    and v: "HeaderValid (hdr @ xs @ b # ys) h = Some True"
    unfolding d by (rule DecodePolicy_success)
  have h': "ReadHeader (hdr @ xs @ b' # ys) = Some h" using h by (simp add: ReadHeader_prefix assms(2))
  have "Crc32 (xs @ b # ys) = hdr_checksum h" using HeaderValid_crc [OF v] assms(2) by simp
  hence "Crc32 (drop kHeaderSize (hdr @ xs @ b' # ys)) \<noteq> hdr_checksum h"
    using Crc32_single_byte [OF assms(3), of xs ys] assms(2) by auto
  hence "HeaderValid (hdr @ xs @ b' # ys) h \<noteq> Some True" using HeaderValid_crc by blast
  moreover obtain v' where "HeaderValid (hdr @ xs @ b' # ys) h = Some v'"
    using HeaderValid_defined [of "hdr @ xs @ b' # ys" h] assms(2) by auto
  ultimately have "HeaderValid (hdr @ xs @ b' # ys) h = Some False" by (cases v') auto
  thus ?thesis by (simp add: DecodePolicy_def h' assms(2))
qed

theorem payload_byte_change_rejected_witness:
  "\<exists>hdr b ys d. DecodePolicy (hdr @ [] @ b # ys) = Some (Inr d) \<and>
     DecodePolicy (hdr @ [] @ (b + 1) # ys) = Some (Fail ''invalid policy header or checksum'')"
proof -
  let ?f = "encoded_file sample_canonical"
  from DecodePolicy_encoded [OF sample_canonicalize _ sample_safe(1)]
    EncodePolicy_fits [OF sample_canonicalize sample_safe(2)]
  obtain d where dec: "DecodePolicy ?f = Some (Inr d)"
    by (metis EncodePolicy_Inr Inr_inject sample_canonicalize)
  obtain pes mes T where "encoded_payload sample_canonical = concat pes @ concat mes @ T" "T \<noteq> []"
    by (rule encoded_payload_tables [OF sample_canonicalize]) blast
  then obtain b ys where "encoded_payload sample_canonical = b # ys" by (metis append_is_Nil_conv neq_Nil_conv)
  then obtain hdr where f: "?f = hdr @ [] @ b # ys" "length hdr = kHeaderSize"
    by (simp add: encoded_file_def Let_def)
  have acc: "DecodePolicy (hdr @ [] @ b # ys) = Some (Inr d)" using dec f(1) by simp
  have "b \<noteq> b + 1" by simp
  from payload_byte_change_rejected [OF acc f(2) this] acc show ?thesis by blast
qed

text \<open>
  Claim C23.  The package index of an encoded file is complete and exact: looking a name up with the
  runtime's binary search over hashes returns the entry of the application with that name, at its
  position in the decoded document, and no entry when there is none, also when several packages share
  a hash.
\<close>

theorem encoded_index_lookup:
  assumes "EncodePolicy doc = Inr out" "CanonicalizeDocument doc = Inr canon"
    "\<forall>app \<in> set (apps canon). wire_safe app" "name \<noteq> []" "CHR 0x00 \<notin> set name"
  shows "\<exists>h. ReadHeader out = Some h \<and>
    FindPackageEntry (index_view out h) name =
      Some (map_option (\<lambda>i. kHeaderSize + i * kPackageSize)
        (List.find (\<lambda>i. package (apps (decoded_document canon) ! i) = name)
          [0..<length (apps canon)]))"
proof -
  note can = CanonicalizeDocument_cases [OF assms(2)]
  from assms(1,2) have out: "out = encoded_file canon" "length (encoded_file canon) \<le> kMaxU32"
    by (auto elim: EncodePolicy_Inr)
  obtain h where h: "ReadHeader out = Some h" "HeaderValid out h = Some True"
    and img: "policy_image (allow_legacy_string_bind canon) (sort_key PackageOrder (apps canon)) out h"
    and n: "unat (hdr_package_count h) = length (sort_key PackageOrder (apps canon))"
    using encoded_file_valid [OF assms(2) out(2)] by (metis length_sort out(1))
  have "unat (hdr_package_offset h) = kHeaderSize"
    using HeaderValid_layout [OF h(2)] by (simp add: table_layout_def)
  hence "EntryOffset (index_view out h) = (\<lambda>i. kHeaderSize + i * kPackageSize)"
    by (intro ext) (simp add: EntryOffset_def index_view_def)
  moreover have "FindPackageEntry (index_view out h) name =
    Some (map_option (EntryOffset (index_view out h))
      (List.find (\<lambda>i. package (sort_key PackageOrder (apps canon) ! i) = name)
        [0..<length (sort_key PackageOrder (apps canon))]))"
    using can(5) assms(3-5)
    by (intro FindPackageEntry_image [OF img h(2) n] sorted_PackageOrder can(6)) auto
  moreover have "List.find (\<lambda>i. package (sort_key PackageOrder (apps canon) ! i) = name) [0..<length (apps canon)] =
      List.find (\<lambda>i. package (apps (decoded_document canon) ! i) = name) [0..<length (apps canon)]"
    by (rule find_cong) (simp_all add: decoded_document_def)
  ultimately show ?thesis using h(1) by auto
qed

theorem encoded_index_lookup_witness:
  "\<exists>out h. EncodePolicy sample_document = Inr out \<and> ReadHeader out = Some h \<and>
     FindPackageEntry (index_view out h) ''com.example.app'' = Some (Some kHeaderSize)"
proof -
  have enc: "EncodePolicy sample_document = Inr (encoded_file sample_canonical)"
    by (rule EncodePolicy_fits [OF sample_canonicalize sample_safe(2)])
  have "List.find (\<lambda>i. package (apps (decoded_document sample_canonical) ! i) = ''com.example.app'')
      [0..<length (apps sample_canonical)] = Some 0"
    by (simp add: decoded_document_def sample_canonical_def sample_document_def)
  with encoded_index_lookup [OF enc sample_canonicalize sample_safe(1), of "''com.example.app''"] enc
  show ?thesis by auto
qed

end
