(* ===== verification/PG_Mount.thy ===== *)
theory PG_Mount
  imports PG_Prelude
begin

unbundle bit_operations_syntax

text \<open>
  The mount transaction's building blocks: the selection of a mount backend
  (\<open>core/include/pathguard/mount_backend.h\<close>), the bounded journal of applied mounts
  (\<open>mutation_journal.h\<close>), the transaction's state machine (\<open>mount_transaction.h\<close>) and the
  compare-and-swap protocol that the application and its companion process run on the shared status
  word (\<open>zygisk/src/module_entry.cpp\<close>).
\<close>

subsection \<open>Capabilities and backends\<close>

definition kCapabilityOpenAt2 :: u64 where "kCapabilityOpenAt2 = push_bit 0 1"
definition kCapabilityComponentFdWalk :: u64 where "kCapabilityComponentFdWalk = push_bit 1 1"
definition kCapabilityProcFdMount :: u64 where "kCapabilityProcFdMount = push_bit 2 1"
definition kCapabilityOpenTreeMoveMount :: u64 where "kCapabilityOpenTreeMoveMount = push_bit 3 1"
definition kCapabilityStringBindMount :: u64 where "kCapabilityStringBindMount = push_bit 4 1"

definition kMountActionRedirect :: u32 where "kMountActionRedirect = push_bit 0 1"
definition kMountActionDenyAnchor :: u32 where "kMountActionDenyAnchor = push_bit 1 1"
definition kMountActionIsolateRoot :: u32 where "kMountActionIsolateRoot = push_bit 2 1"
definition kMountActionRestore :: u32 where "kMountActionRestore = push_bit 3 1"

datatype MountBackendKind = BackendUnsupported | StrictOpenTree | StrictProcFd | LegacyString

datatype MountBackendReason =
  ReasonNone | CapabilityMissing | LegacyNotAuthorized | UnsupportedAction

record MountBackendCapabilities =
  primitives :: u64
  strict_actions :: u32
  legacy_actions :: u32

record MountBackendSelection =
  selected_backend :: MountBackendKind
  selection_reason :: MountBackendReason

definition SupportsAllActions :: "u32 \<Rightarrow> u32 \<Rightarrow> bool" where
  "SupportsAllActions provided required \<longleftrightarrow> required \<noteq> 0 \<and> provided AND required = required"

definition SelectMountBackend :: "u32 \<Rightarrow> MountBackendCapabilities \<Rightarrow> bool \<Rightarrow> MountBackendSelection" where
  "SelectMountBackend required capabilities allow_legacy =
     (if required = 0
      then \<lparr>selected_backend = BackendUnsupported, selection_reason = UnsupportedAction\<rparr>
      else if SupportsAllActions (strict_actions capabilities) required \<and>
              primitives capabilities AND kCapabilityOpenTreeMoveMount \<noteq> 0
      then \<lparr>selected_backend = StrictOpenTree, selection_reason = ReasonNone\<rparr>
      else if SupportsAllActions (strict_actions capabilities) required \<and>
              primitives capabilities AND kCapabilityProcFdMount \<noteq> 0
      then \<lparr>selected_backend = StrictProcFd, selection_reason = ReasonNone\<rparr>
      else if primitives capabilities AND kCapabilityStringBindMount = 0
      then \<lparr>selected_backend = BackendUnsupported, selection_reason = CapabilityMissing\<rparr>
      else if \<not> allow_legacy
      then \<lparr>selected_backend = BackendUnsupported, selection_reason = LegacyNotAuthorized\<rparr>
      else if \<not> SupportsAllActions (legacy_actions capabilities) required
      then \<lparr>selected_backend = BackendUnsupported, selection_reason = UnsupportedAction\<rparr>
      else \<lparr>selected_backend = LegacyString, selection_reason = ReasonNone\<rparr>)"

definition NextMountBackend :: "MountBackendKind \<Rightarrow> u32 \<Rightarrow> bool \<Rightarrow> bool \<Rightarrow> MountBackendKind" where
  "NextMountBackend current required allow_legacy legacy_namespace_allowed =
     (if current = StrictOpenTree then StrictProcFd
      else if current = StrictProcFd \<and> allow_legacy \<and> legacy_namespace_allowed \<and>
              SupportsAllActions kMountActionRedirect required
      then LegacyString
      else BackendUnsupported)"

definition NeedsPostMountSnapshot :: "MountBackendKind \<Rightarrow> bool \<Rightarrow> bool \<Rightarrow> bool" where
  "NeedsPostMountSnapshot backend mutation_recorded apply_succeeded \<longleftrightarrow>
     mutation_recorded \<and> (\<not> apply_succeeded \<or> backend = LegacyString)"

lemma SupportsAllActions_bits:
  "SupportsAllActions provided required \<longleftrightarrow>
     required \<noteq> 0 \<and> (\<forall>n. bit required n \<longrightarrow> bit provided n)"
proof -
  have "provided AND required = required \<longleftrightarrow> (\<forall>n. bit required n \<longrightarrow> bit provided n)"
    by (metis bit_and_iff bit_word_eqI)
  thus ?thesis by (simp add: SupportsAllActions_def)
qed

lemma SupportsRedirectOnly: "SupportsAllActions kMountActionRedirect required \<longleftrightarrow> required = 1"
proof
  assume "SupportsAllActions kMountActionRedirect required"
  hence "required \<noteq> 0" and "1 AND required = required"
    by (auto simp: SupportsAllActions_def kMountActionRedirect_def)
  hence "of_bool (odd required) = required" by (simp add: one_and_eq mod_2_eq_odd)
  with \<open>required \<noteq> 0\<close> show "required = 1" by (metis of_bool_eq(1) of_bool_eq(2))
qed (simp add: SupportsAllActions_def kMountActionRedirect_def)

lemma selected_backend_usable:
  "selected_backend (SelectMountBackend required caps allow_legacy) \<noteq> BackendUnsupported \<longleftrightarrow>
     required \<noteq> 0 \<and>
     ((\<forall>n. bit required n \<longrightarrow> bit (strict_actions caps) n) \<and>
        (bit (primitives caps) 3 \<or> bit (primitives caps) 2) \<or>
      (\<forall>n. bit required n \<longrightarrow> bit (legacy_actions caps) n) \<and> allow_legacy \<and> bit (primitives caps) 4)"
proof -
  have prim: "p AND push_bit n 1 = 0 \<longleftrightarrow> \<not> bit p n" for p :: u64 and n
    by (simp add: push_bit_of_1 and_exp_eq_0_iff_not_bit)
  show ?thesis
    unfolding SelectMountBackend_def Let_def SupportsAllActions_bits
      kCapabilityOpenTreeMoveMount_def kCapabilityProcFdMount_def kCapabilityStringBindMount_def prim
    by auto
qed

subsection \<open>The mutation journal\<close>

text \<open>An array of \<open>Capacity\<close> entries of which the first \<open>size_\<close> are in use.\<close>

record 'e MutationJournal =
  journal_entries :: "'e list"
  journal_size :: nat

definition Journal_new :: "'e list \<Rightarrow> 'e MutationJournal" where
  "Journal_new storage = \<lparr>journal_entries = storage, journal_size = 0\<rparr>"

definition Journal_Push :: "'e \<Rightarrow> 'e MutationJournal \<Rightarrow> 'e MutationJournal option" where
  "Journal_Push entry j =
     (if journal_size j \<ge> length (journal_entries j) then None
      else Some (j\<lparr>journal_entries := (journal_entries j)[journal_size j := entry],
                   journal_size := journal_size j + 1\<rparr>))"

definition Journal_Pop :: "'e MutationJournal \<Rightarrow> ('e \<times> 'e MutationJournal) option" where
  "Journal_Pop j =
     (if journal_size j = 0 then None
      else Some (journal_entries j ! (journal_size j - 1), j\<lparr>journal_size := journal_size j - 1\<rparr>))"

definition Journal_UpdateLast :: "'e \<Rightarrow> 'e MutationJournal \<Rightarrow> 'e MutationJournal option" where
  "Journal_UpdateLast entry j =
     (if journal_size j = 0 then None
      else Some (j\<lparr>journal_entries := (journal_entries j)[journal_size j - 1 := entry]\<rparr>))"

definition Journal_UpdateAt :: "nat \<Rightarrow> 'e \<Rightarrow> 'e MutationJournal \<Rightarrow> 'e MutationJournal option" where
  "Journal_UpdateAt index entry j =
     (if index \<ge> journal_size j then None
      else Some (j\<lparr>journal_entries := (journal_entries j)[index := entry]\<rparr>))"

definition Journal_At :: "nat \<Rightarrow> 'e MutationJournal \<Rightarrow> 'e option" where
  "Journal_At index j = (if index < journal_size j then Some (journal_entries j ! index) else None)"

definition Journal_Clear :: "'e MutationJournal \<Rightarrow> 'e MutationJournal" where
  "Journal_Clear j = j\<lparr>journal_size := 0\<rparr>"

text \<open>The abstraction: the entries in use, oldest first.\<close>

definition journal_inv :: "'e MutationJournal \<Rightarrow> bool" where
  "journal_inv j \<longleftrightarrow> journal_size j \<le> length (journal_entries j)"

definition journal_log :: "'e MutationJournal \<Rightarrow> 'e list" where
  "journal_log j = take (journal_size j) (journal_entries j)"

definition journal_capacity :: "'e MutationJournal \<Rightarrow> nat" where
  "journal_capacity j = length (journal_entries j)"

text \<open>The contract of a bounded stack with indexed access, and what the rollback loops over it see.\<close>

locale bounded_stack =
  fixes ok :: "'s \<Rightarrow> bool"
    and log :: "'s \<Rightarrow> 'e list"
    and capacity :: "'s \<Rightarrow> nat"
    and push :: "'e \<Rightarrow> 's \<Rightarrow> 's option"
    and pop :: "'s \<Rightarrow> ('e \<times> 's) option"
    and at :: "nat \<Rightarrow> 's \<Rightarrow> 'e option"
  assumes push_None: "ok s \<Longrightarrow> push e s = None \<longleftrightarrow> length (log s) = capacity s"
    and push_Some: "ok s \<Longrightarrow> push e s = Some s' \<Longrightarrow>
      ok s' \<and> log s' = log s @ [e] \<and> capacity s' = capacity s"
    and pop_None: "ok s \<Longrightarrow> pop s = None \<longleftrightarrow> log s = []"
    and pop_Some: "ok s \<Longrightarrow> pop s = Some (e, s') \<Longrightarrow>
      ok s' \<and> log s = log s' @ [e] \<and> capacity s' = capacity s"
    and at_log: "ok s \<Longrightarrow> at i s = (if i < length (log s) then Some (log s ! i) else None)"
begin

lemma push_pop:
  assumes "ok s" "push e s = Some s'"
  shows "\<exists>s''. pop s' = Some (e, s'') \<and> log s'' = log s"
proof -
  from push_Some [OF assms] have s': "ok s'" "log s' = log s @ [e]" by auto
  with pop_None obtain e' s'' where p: "pop s' = Some (e', s'')" by (cases "pop s'") auto
  with pop_Some [OF s'(1) p] s' show ?thesis by auto
qed

text \<open>The loop \<open>for (index = size; index > 0; --index) ... At(index - 1)\<close> sees every entry, newest first.\<close>

lemma reverse_walk:
  assumes "ok s"
  shows "map (\<lambda>index. at (index - 1) s) (rev [1..<Suc (length (log s))]) = map Some (rev (log s))"
proof -
  have "[1..<Suc (length (log s))] = map Suc [0..<length (log s)]" by (simp add: map_Suc_upt)
  hence "map (\<lambda>index. at (index - 1) s) [1..<Suc (length (log s))] =
      map (\<lambda>i. at i s) [0..<length (log s)]" by (simp add: comp_def)
  also have "\<dots> = map Some (log s)" by (rule nth_equalityI) (auto simp: at_log [OF assms])
  finally have "map (\<lambda>index. at (index - 1) s) [1..<Suc (length (log s))] = map Some (log s)" .
  thus ?thesis by (metis rev_map)
qed

end

lemma take_update_last: "n < length xs \<Longrightarrow> take (Suc n) (xs[n := e]) = take n xs @ [e]"
  by (simp add: take_Suc_conv_app_nth)

interpretation journal: bounded_stack journal_inv journal_log journal_capacity Journal_Push Journal_Pop Journal_At
proof
  fix e e' :: 'e and j j' :: "'e MutationJournal" and i :: nat
  assume ok: "journal_inv j"
  show "Journal_Push e j = None \<longleftrightarrow> length (journal_log j) = journal_capacity j"
    using ok by (auto simp: Journal_Push_def journal_log_def journal_capacity_def journal_inv_def)
  show "Journal_Push e j = Some j' \<Longrightarrow>
      journal_inv j' \<and> journal_log j' = journal_log j @ [e] \<and> journal_capacity j' = journal_capacity j"
    by (auto simp: Journal_Push_def journal_log_def journal_capacity_def journal_inv_def take_update_last
        split: if_splits)
  show "Journal_Pop j = None \<longleftrightarrow> journal_log j = []"
    using ok by (auto simp: Journal_Pop_def journal_log_def journal_inv_def)
  show "Journal_Pop j = Some (e, j') \<Longrightarrow>
      journal_inv j' \<and> journal_log j = journal_log j' @ [e] \<and> journal_capacity j' = journal_capacity j"
    using ok take_Suc_conv_app_nth [of "journal_size j - 1" "journal_entries j"]
    by (auto simp: Journal_Pop_def journal_log_def journal_capacity_def journal_inv_def split: if_splits)
  show "Journal_At i j = (if i < length (journal_log j) then Some (journal_log j ! i) else None)"
    using ok by (auto simp: Journal_At_def journal_log_def journal_inv_def)
qed

lemma Journal_UpdateAt_log:
  assumes "journal_inv j"
  shows "Journal_UpdateAt i e j = None \<longleftrightarrow> length (journal_log j) \<le> i"
    "Journal_UpdateAt i e j = Some j' \<Longrightarrow> journal_inv j' \<and> journal_log j' = (journal_log j)[i := e]"
  using assms by (auto simp: Journal_UpdateAt_def journal_log_def journal_inv_def take_update_swap
      split: if_splits)

lemma Journal_UpdateLast_eq:
  "Journal_UpdateLast e j = Journal_UpdateAt (journal_size j - 1) e j"
  by (auto simp: Journal_UpdateLast_def Journal_UpdateAt_def)

subsection \<open>The transaction's state machine\<close>

datatype MountTransactionState =
  Pending | Applying | Complete | CancelRequested | Cancelled | Failed | RollbackComplete
  | NamespaceTainted

definition IsMountTransactionTerminal :: "MountTransactionState \<Rightarrow> bool" where
  "IsMountTransactionTerminal state \<longleftrightarrow>
     state = Complete \<or> state = Cancelled \<or> state = Failed \<or> state = RollbackComplete \<or>
     state = NamespaceTainted"

definition MountTransactionHasResult :: "MountTransactionState \<Rightarrow> bool" where
  "MountTransactionHasResult state \<longleftrightarrow>
     state = Complete \<or> state = Failed \<or> state = RollbackComplete \<or> state = NamespaceTainted"

definition IsMountTransitionAllowed :: "MountTransactionState \<Rightarrow> MountTransactionState \<Rightarrow> bool" where
  "IsMountTransitionAllowed from_state to_state =
     (case from_state of
        Pending \<Rightarrow> to_state = Applying \<or> to_state = Complete \<or> to_state = CancelRequested \<or>
                   to_state = Failed
      | Applying \<Rightarrow> to_state = Complete \<or> to_state = CancelRequested \<or>
                    to_state = RollbackComplete \<or> to_state = NamespaceTainted
      | CancelRequested \<Rightarrow> to_state = Cancelled \<or> to_state = RollbackComplete \<or>
                           to_state = NamespaceTainted
      | Failed \<Rightarrow> to_state = RollbackComplete
      | Complete \<Rightarrow> False
      | Cancelled \<Rightarrow> False
      | RollbackComplete \<Rightarrow> False
      | NamespaceTainted \<Rightarrow> False)"

text \<open>The shared page: the status word and the result.  Every operation below is one atomic access, or
  a sequence of them in which the other process may act in between.\<close>

record 'r SharedMountState =
  shared_status :: MountTransactionState
  shared_result :: 'r

definition IsCancelRequested :: "'r SharedMountState \<Rightarrow> bool" where
  "IsCancelRequested st \<longleftrightarrow> shared_status st = CancelRequested"

definition TransitionSharedState ::
  "'r SharedMountState \<Rightarrow> MountTransactionState \<Rightarrow> MountTransactionState \<Rightarrow>
   bool \<times> 'r SharedMountState" where
  "TransitionSharedState st from_state to_state =
     (if \<not> IsMountTransitionAllowed from_state to_state then (False, st)
      else if shared_status st = from_state then (True, st\<lparr>shared_status := to_state\<rparr>)
      else (False, st))"

definition MarkSharedCancelled :: "'r SharedMountState \<Rightarrow> bool \<times> 'r SharedMountState" where
  "MarkSharedCancelled st = TransitionSharedState st CancelRequested Cancelled"

definition PublishSharedResult ::
  "'r SharedMountState \<Rightarrow> 'r \<Rightarrow> MountTransactionState \<Rightarrow> MountTransactionState \<Rightarrow>
   bool \<times> 'r SharedMountState" where
  "PublishSharedResult st result from_state terminal =
     TransitionSharedState (st\<lparr>shared_result := result\<rparr>) from_state terminal"

text \<open>The two composite operations, with the other process's interference between the failed exchange
  and the load as the parameter \<open>other\<close>.\<close>

definition PublishPendingFailure ::
  "('r SharedMountState \<Rightarrow> 'r SharedMountState) \<Rightarrow> 'r SharedMountState \<Rightarrow> 'r \<Rightarrow>
   bool \<times> 'r SharedMountState" where
  "PublishPendingFailure other st result =
     (case PublishSharedResult st result Pending Failed of
        (True, st') \<Rightarrow> (True, st')
      | (False, st') \<Rightarrow>
          let st'' = other st' in
          (False, if shared_status st'' = CancelRequested then snd (MarkSharedCancelled st'') else st''))"

definition AcquireMutationLease ::
  "('r SharedMountState \<Rightarrow> 'r SharedMountState) \<Rightarrow> 'r SharedMountState \<Rightarrow> bool \<times> 'r SharedMountState" where
  "AcquireMutationLease other st =
     (case TransitionSharedState st Pending Applying of
        (True, st') \<Rightarrow> (True, st')
      | (False, st') \<Rightarrow>
          let st'' = other st' in
          (False, if shared_status st'' = CancelRequested then snd (MarkSharedCancelled st'') else st''))"

text \<open>One atomic access by either process: a plain write of the result or a compare-and-swap.\<close>

inductive shared_step :: "'r SharedMountState \<Rightarrow> 'r SharedMountState \<Rightarrow> bool" where
  write_result: "shared_step st (st\<lparr>shared_result := r\<rparr>)"
| exchange: "shared_step st (snd (TransitionSharedState st from_state to_state))"

inductive shared_run :: "'r SharedMountState \<Rightarrow> nat \<Rightarrow> 'r SharedMountState \<Rightarrow> bool" where
  run_refl: "shared_run st 0 st"
| run_step: "shared_run st n st' \<Longrightarrow> shared_step st' st'' \<Longrightarrow>
    shared_run st (if shared_status st'' = shared_status st' then n else Suc n) st''"

inductive_cases shared_stepE: "shared_step st st'"

definition status_rank :: "MountTransactionState \<Rightarrow> nat" where
  "status_rank s = (case s of Pending \<Rightarrow> 0 | Applying \<Rightarrow> 1 | CancelRequested \<Rightarrow> 2 | Failed \<Rightarrow> 2 | _ \<Rightarrow> 3)"

lemma transition_rank: "IsMountTransitionAllowed s t \<Longrightarrow> status_rank s < status_rank t"
  by (cases s; cases t) (simp_all add: IsMountTransitionAllowed_def status_rank_def)

lemma shared_step_status:
  "shared_step st st' \<Longrightarrow>
   shared_status st' = shared_status st \<or> IsMountTransitionAllowed (shared_status st) (shared_status st')"
  by (erule shared_stepE) (auto simp: TransitionSharedState_def)

lemma shared_run_rank:
  "shared_run st n st' \<Longrightarrow> status_rank (shared_status st) + n \<le> status_rank (shared_status st')"
proof (induction rule: shared_run.induct)
  case (run_step st n st' st'')
  thus ?case using shared_step_status [OF run_step.hyps(2)] transition_rank
    by (fastforce split: if_splits)
qed simp

lemma shared_run_zero: "shared_run st 0 st' \<Longrightarrow> shared_status st' = shared_status st"
proof (induction st "0 :: nat" st' rule: shared_run.induct)
  case (run_step st n st' st'')
  thus ?case by (auto split: if_splits)
qed simp

subsection \<open>Properties\<close>

text \<open>
  Backend selection is sound and prefers strict backends: a strict backend is chosen
  exactly when its primitive is present and every required action (and at least one) is supported
  strictly; the legacy string backend only when no strict one is usable, the policy allows it, its
  primitive is present and it supports every required action; the reason is \<open>None\<close> exactly when a
  backend is chosen.
\<close>

theorem SelectMountBackend_sound:
  "let sel = SelectMountBackend required caps allow_legacy;
       strict = required \<noteq> 0 \<and> (\<forall>n. bit required n \<longrightarrow> bit (strict_actions caps) n);
       legacy = required \<noteq> 0 \<and> (\<forall>n. bit required n \<longrightarrow> bit (legacy_actions caps) n) in
   (selected_backend sel = StrictOpenTree \<longleftrightarrow> strict \<and> bit (primitives caps) 3) \<and>
   (selected_backend sel = StrictProcFd \<longleftrightarrow>
      strict \<and> \<not> bit (primitives caps) 3 \<and> bit (primitives caps) 2) \<and>
   (selected_backend sel = LegacyString \<longleftrightarrow>
      \<not> (strict \<and> (bit (primitives caps) 3 \<or> bit (primitives caps) 2)) \<and> legacy \<and>
      allow_legacy \<and> bit (primitives caps) 4) \<and>
   (selection_reason sel = ReasonNone \<longleftrightarrow> selected_backend sel \<noteq> BackendUnsupported)"
proof -
  have prim: "p AND push_bit n 1 = 0 \<longleftrightarrow> \<not> bit p n" for p :: u64 and n
    by (simp add: push_bit_of_1 and_exp_eq_0_iff_not_bit)
  show ?thesis
    unfolding SelectMountBackend_def Let_def SupportsAllActions_bits
      kCapabilityOpenTreeMoveMount_def kCapabilityProcFdMount_def kCapabilityStringBindMount_def prim
    by auto
qed

definition sample_caps :: MountBackendCapabilities where
  "sample_caps = \<lparr>primitives = 4, strict_actions = 3, legacy_actions = 1\<rparr>"

lemma sample_caps_bits: "(\<forall>n. bit (3 :: u32) n \<longrightarrow> bit (strict_actions sample_caps) n)"
  "bit (primitives sample_caps) 2" "\<not> bit (primitives sample_caps) 3"
  by (simp_all add: sample_caps_def bit_numeral_rec)

theorem SelectMountBackend_sound_witness:
  "selected_backend (SelectMountBackend 3 sample_caps False) = StrictProcFd"
  using SelectMountBackend_sound [of 3 sample_caps False] sample_caps_bits by (simp add: Let_def)


text \<open>
  The mutation journal implements a bounded stack.  Seen as the list of recorded mounts,
  oldest first: \<open>Push\<close> appends and fails exactly at capacity, \<open>Pop\<close> removes the newest entry,
  \<open>UpdateAt\<close> replaces an entry and fails exactly out of range, \<open>Clear\<close> empties it, and the rollback
  loops over \<open>At(index - 1)\<close> visit every recorded mount exactly once, newest first.
\<close>

theorem MutationJournal_refines_stack:
  assumes "journal_inv j"
  shows "(Journal_Push e j = None \<longleftrightarrow> length (journal_log j) = journal_capacity j) \<and>
    (\<forall>j'. Journal_Push e j = Some j' \<longrightarrow> journal_inv j' \<and> journal_log j' = journal_log j @ [e]) \<and>
    (\<forall>e' j'. Journal_Pop j = Some (e', j') \<longrightarrow> journal_inv j' \<and> journal_log j = journal_log j' @ [e']) \<and>
    (Journal_Pop j = None \<longleftrightarrow> journal_log j = []) \<and>
    (Journal_UpdateAt i e j = None \<longleftrightarrow> length (journal_log j) \<le> i) \<and>
    (\<forall>j'. Journal_UpdateAt i e j = Some j' \<longrightarrow> journal_inv j' \<and> journal_log j' = (journal_log j)[i := e]) \<and>
    journal_log (Journal_Clear j) = [] \<and>
    map (\<lambda>index. Journal_At (index - 1) j) (rev [1..<Suc (journal_size j)]) = map Some (rev (journal_log j))"
proof -
  have "length (journal_log j) = journal_size j"
    using assms by (simp add: journal_log_def journal_inv_def)
  with journal.reverse_walk [OF assms]
  have "map (\<lambda>index. Journal_At (index - 1) j) (rev [1..<Suc (journal_size j)]) = map Some (rev (journal_log j))"
    by simp
  moreover have "journal_log (Journal_Clear j) = []" by (simp add: journal_log_def Journal_Clear_def)
  ultimately show ?thesis
    using journal.push_None [OF assms] journal.push_Some [OF assms] journal.pop_Some [OF assms]
      journal.pop_None [OF assms] Journal_UpdateAt_log [OF assms]
    by blast
qed

theorem MutationJournal_refines_stack_witness:
  "journal_log (the (Journal_Push (7 :: nat) (Journal_new [0, 0]))) = [7] \<and>
   Journal_Push (7 :: nat) (Journal_new []) = None"
  using MutationJournal_refines_stack [of "Journal_new [0, 0 :: nat]" 7]
    MutationJournal_refines_stack [of "Journal_new [] :: nat MutationJournal" 7]
  by (auto simp: Journal_new_def journal_inv_def journal_log_def journal_capacity_def Journal_Push_def)

text \<open>
  Claim C30.  The shared status word under any interleaving of the two processes.  Whatever atomic
  exchanges and result writes they perform, the status changes at most three times, once cancellation was requested the transaction never becomes \<open>Applying\<close> or
  \<open>Complete\<close>, and a terminal status other than \<open>Failed\<close> never changes again.
\<close>

theorem shared_status_protocol:
  assumes "shared_run st n st'"
  shows "n \<le> 3 \<and>
    (shared_status st = CancelRequested \<longrightarrow>
       shared_status st' \<noteq> Applying \<and> shared_status st' \<noteq> Complete) \<and>
    (IsMountTransactionTerminal (shared_status st) \<and> shared_status st \<noteq> Failed \<longrightarrow>
       shared_status st' = shared_status st)"
proof (intro conjI impI)
  note rank = shared_run_rank [OF assms]
  show "n \<le> 3" using rank by (auto simp: status_rank_def split: MountTransactionState.splits)
  {
    assume c: "shared_status st = CancelRequested"
    show "shared_status st' \<noteq> Applying" using rank c by (auto simp: status_rank_def)
    have "shared_status st' \<in> {CancelRequested, Cancelled, RollbackComplete, NamespaceTainted}"
      using assms c
    proof (induction rule: shared_run.induct)
      case (run_step st n st' st'')
      with shared_step_status [OF run_step.hyps(2)] show ?case
        by (auto simp: IsMountTransitionAllowed_def)
    qed simp
    thus "shared_status st' \<noteq> Complete" by auto
  }
  assume t: "IsMountTransactionTerminal (shared_status st) \<and> shared_status st \<noteq> Failed"
  hence "status_rank (shared_status st) = 3"
    by (auto simp: IsMountTransactionTerminal_def status_rank_def)
  moreover have "status_rank (shared_status st') \<le> 3"
    by (simp add: status_rank_def split: MountTransactionState.splits)
  ultimately have "n = 0" using rank by simp
  with assms show "shared_status st' = shared_status st" by (simp add: shared_run_zero)
qed

theorem shared_status_protocol_witness:
  "\<exists>st'. shared_run \<lparr>shared_status = CancelRequested, shared_result = (0 :: nat)\<rparr> 1 st' \<and>
     shared_status st' = Cancelled \<and> shared_status st' \<noteq> Applying"
proof -
  let ?st = "\<lparr>shared_status = CancelRequested, shared_result = 0 :: nat\<rparr>"
  let ?st' = "snd (TransitionSharedState ?st CancelRequested Cancelled)"
  have "shared_run ?st (if shared_status ?st' = shared_status ?st then 0 else Suc 0) ?st'"
    by (intro shared_run.intros shared_step.exchange)
  hence "shared_run ?st 1 ?st'" by (simp add: TransitionSharedState_def IsMountTransitionAllowed_def)
  with shared_status_protocol [OF this] show ?thesis
    by (intro exI [of _ ?st']) (simp add: TransitionSharedState_def IsMountTransitionAllowed_def)
qed

text \<open>
  Claim C31.  The mutation lease is granted only from \<open>Pending\<close>, whatever the other process does in
  between; if it is refused and a cancellation is pending, the cancellation is acknowledged.  A
  result published as failure leaves the status \<open>Failed\<close>, which still admits one transition, to
  \<open>RollbackComplete\<close>, although it is classified as terminal.
\<close>

theorem mutation_lease_exclusive:
  "(fst (AcquireMutationLease other st) \<longleftrightarrow> shared_status st = Pending) \<and>
   (fst (AcquireMutationLease other st) \<longrightarrow>
      snd (AcquireMutationLease other st) = st\<lparr>shared_status := Applying\<rparr>) \<and>
   (\<not> fst (AcquireMutationLease other st) \<and> shared_status (other st) = CancelRequested \<longrightarrow>
      shared_status (snd (AcquireMutationLease other st)) = Cancelled) \<and>
   IsMountTransactionTerminal Failed \<and> IsMountTransitionAllowed Failed RollbackComplete"
  by (auto simp: AcquireMutationLease_def TransitionSharedState_def MarkSharedCancelled_def Let_def
      IsMountTransitionAllowed_def IsMountTransactionTerminal_def)

theorem mutation_lease_exclusive_witness:
  "fst (AcquireMutationLease id \<lparr>shared_status = Pending, shared_result = (0 :: nat)\<rparr>) \<and>
   shared_status (snd (AcquireMutationLease id
     \<lparr>shared_status = CancelRequested, shared_result = (0 :: nat)\<rparr>)) = Cancelled"
  using mutation_lease_exclusive [of id "\<lparr>shared_status = Pending, shared_result = 0 :: nat\<rparr>"]
    mutation_lease_exclusive [of id "\<lparr>shared_status = CancelRequested, shared_result = 0 :: nat\<rparr>"]
  by simp

end
