(* ===== verification/PG_Semantic.thy ===== *)
theory PG_Semantic
  imports PG_Source PG_RoundTrip PG_Mount
begin

unbundle bit_operations_syntax

text \<open>
  The semantic stage of the rules compiler, \<open>rules/src/semantic.cpp\<close>, with the decoded document of
  \<open>document.h\<close> and the resolved, canonical and binary policies of \<open>semantic.h\<close>: limits on expanded rules
  and paths, normal form of rule paths, redundancy, conflict and cycle checks, canonicalisation, the
  encoded and re-verified policy file, and admission against a device's capabilities.

  A validation step takes the diagnostics reported so far and returns them extended.  Timing counters and
  other statistics are left out.  \<open>std::int32_t\<close> user numbers are integers.  The parsed document is an
  argument of \<open>CompileRules\<close>; the parser that produces it is in \<open>rules/src/compiler.cpp\<close>.
\<close>

subsection \<open>The decoded document and the origins of its rules\<close>

record DenyRule =
  deny_id :: RuleId
  deny_path :: string

record RedirectRule =
  redirect_id :: RuleId
  redirect_source :: string
  redirect_target :: string

record AppRules =
  rules_package :: string
  rules_enabled :: bool
  rules_users :: "int list"
  rules_processes :: "string list"
  rules_file_picker :: bool
  rules_deny :: "DenyRule list"
  rules_redirects :: "RedirectRule list"

record RulesDocument =
  doc_format :: u32
  doc_allow_legacy_mount :: bool
  doc_apps :: "AppRules list"

record RuleOrigin =
  origin_primary :: ByteSpan
  origin_source :: ByteSpan
  origin_arrow :: ByteSpan
  origin_target :: ByteSpan
  has_redirect_operands :: bool

type_synonym OriginMap = "RuleId \<rightharpoonup> RuleOrigin"

definition OriginMap_Add :: "OriginMap \<Rightarrow> RuleId \<Rightarrow> RuleOrigin \<Rightarrow> bool \<times> OriginMap" where
  "OriginMap_Add origins rule origin =
     (if origins rule = None then (True, origins(rule \<mapsto> origin)) else (False, origins))"

definition OriginMap_Find :: "OriginMap \<Rightarrow> RuleId \<Rightarrow> RuleOrigin option" where
  "OriginMap_Find origins rule = origins rule"

record RulesCompileResult =
  parsed_document :: "RulesDocument option"
  parsed_origins :: OriginMap
  parsed_diagnostics :: "Diagnostic list"

definition compile_ok :: "RulesCompileResult \<Rightarrow> bool" where
  "compile_ok r \<longleftrightarrow> parsed_document r \<noteq> None \<and> parsed_diagnostics r = []"

subsection \<open>Resolved and canonical policies\<close>

record NormalizedPath =
  path_bytes :: string
  component_offsets :: "u16 list"

record ResolvedDenyRule =
  res_deny_id :: RuleId
  res_deny_path :: NormalizedPath

record ResolvedRedirectRule =
  res_id :: RuleId
  res_source :: NormalizedPath
  res_target :: NormalizedPath

record ResolvedAppPolicy =
  res_package :: string
  res_enabled :: bool
  res_users :: "int list"
  res_processes :: "string list"
  res_file_picker :: bool
  res_deny :: "ResolvedDenyRule list"
  res_redirects :: "ResolvedRedirectRule list"

record ResolvedPolicy =
  res_allow_legacy_mount :: bool
  res_apps :: "ResolvedAppPolicy list"

record CanonicalRedirectRule =
  can_source :: NormalizedPath
  can_target :: NormalizedPath

record CanonicalAppPolicy =
  can_package :: string
  can_users :: "int list"
  can_processes :: "string list"
  can_file_picker :: bool
  can_deny :: "NormalizedPath list"
  can_redirects :: "CanonicalRedirectRule list"

record CanonicalPolicy =
  can_allow_legacy_mount :: bool
  can_apps :: "CanonicalAppPolicy list"

record PolicyRequirements =
  req_mount_actions :: u32
  req_provider :: bool
  req_topology :: bool

record PolicyBlob =
  blob_bytes :: bytes
  blob_generation :: u64

record DeviceSnapshot =
  snap_mount :: MountBackendCapabilities
  snap_provider_supported :: bool
  snap_topology_supported :: bool
  snap_capability_generation :: u64
  snap_topology_generation :: u64

record AdmissionResult =
  admitted :: bool
  admission_backend :: MountBackendKind
  admission_reason :: MountBackendReason
  admission_content_generation :: u64
  admission_capability_generation :: u64
  admission_topology_generation :: u64

record RulesBuildResult =
  build_resolved :: "ResolvedPolicy option"
  build_canonical :: "CanonicalPolicy option"
  build_requirements :: PolicyRequirements
  build_blob :: "PolicyBlob option"
  build_diagnostics :: "Diagnostic list"
  build_origins :: OriginMap

subsection \<open>Diagnostics\<close>

definition HasErrors :: "Diagnostic list \<Rightarrow> bool" where
  "HasErrors diagnostics \<longleftrightarrow> list_ex (\<lambda>d. diag_severity d = SevError) diagnostics"

definition OriginSpan :: "OriginMap \<Rightarrow> RuleId \<Rightarrow> ByteSpan" where
  "OriginSpan origins rule =
     (case OriginMap_Find origins rule of None \<Rightarrow> Span 0 0 | Some origin \<Rightarrow> origin_primary origin)"

definition AddDiagnostic ::
  "RulesLimits \<Rightarrow> string \<Rightarrow> string \<Rightarrow> ByteSpan \<Rightarrow> DiagnosticSeverity \<Rightarrow> ByteSpan option \<Rightarrow>
   Diagnostic list \<Rightarrow> Diagnostic list" where
  "AddDiagnostic limits code key primary severity related diagnostics =
     (if length diagnostics \<ge> max_diagnostics limits then diagnostics
      else diagnostics @
        [(diagnostic code key primary False)
           \<lparr>diag_severity := severity, diag_phase := PhaseSemantic,
            diag_related :=
              (case related of
                 None \<Rightarrow> []
               | Some span \<Rightarrow> if max_related_spans limits \<noteq> 0
                   then [\<lparr>related_span = span, related_key = ''related_rule''\<rparr>] else [])\<rparr>])"

subsection \<open>Resource limits\<close>

definition AddExpanded :: "nat \<Rightarrow> nat \<Rightarrow> nat \<Rightarrow> nat option" where
  "AddExpanded amount limit sum_so_far =
     (if amount > limit \<or> sum_so_far > limit - amount then None else Some (sum_so_far + amount))"

fun ValidateExpandedLoop ::
  "OriginMap \<Rightarrow> RulesLimits \<Rightarrow> nat \<Rightarrow> Diagnostic list \<Rightarrow> AppRules list \<Rightarrow> bool \<times> Diagnostic list" where
  "ValidateExpandedLoop origins limits expanded diagnostics [] = (True, diagnostics)"
| "ValidateExpandedLoop origins limits expanded diagnostics (app # rest) =
     (if \<not> rules_enabled app then ValidateExpandedLoop origins limits expanded diagnostics rest
      else
        let us = max (length (rules_users app)) 1;
            procs = max (length (rules_processes app)) 1;
            rules = length (rules_deny app) + length (rules_redirects app);
            limit = max_expanded_rules limits;
            failed =
              (let first = (if rules_redirects app \<noteq> [] then redirect_id (hd (rules_redirects app))
                            else deny_id (hd (rules_deny app)))
               in (False, AddDiagnostic limits kResourceLimit ''expanded_rule_limit''
                     (OriginSpan origins first) SevError None diagnostics))
        in if rules = 0 then ValidateExpandedLoop origins limits expanded diagnostics rest
           else if us > limit div rules then failed
           else if us * rules > limit div procs then failed
           else case AddExpanded (us * rules * procs) limit expanded of
                  None \<Rightarrow> failed
                | Some expanded' \<Rightarrow> ValidateExpandedLoop origins limits expanded' diagnostics rest)"

definition ValidateExpandedRuleLimit ::
  "RulesDocument \<Rightarrow> OriginMap \<Rightarrow> RulesLimits \<Rightarrow> Diagnostic list \<Rightarrow> bool \<times> Diagnostic list" where
  "ValidateExpandedRuleLimit document origins limits diagnostics =
     ValidateExpandedLoop origins limits 0 diagnostics (doc_apps document)"

text \<open>The loop counts one more component per slash and stops as soon as there are too many.\<close>

fun ExceedsComponents :: "nat \<Rightarrow> nat \<Rightarrow> string \<Rightarrow> bool" where
  "ExceedsComponents limit components [] = (components > limit)"
| "ExceedsComponents limit components (c # cs) =
     (if c = CHR ''/'' then
        if components + 1 > limit then True else ExceedsComponents limit (components + 1) cs
      else ExceedsComponents limit components cs)"

definition ExceedsPathLimits :: "string \<Rightarrow> RulesLimits \<Rightarrow> bool" where
  "ExceedsPathLimits input limits =
     (if length input > max_path_bytes limits then True
      else ExceedsComponents (max_path_components limits) (if input = [] then 0 else 1) input)"

subsection \<open>Rule paths\<close>

definition IsControlByte :: "char \<Rightarrow> bool" where
  "IsControlByte c \<longleftrightarrow> byte_of c = 0 \<or> byte_of c < 0x20 \<or> byte_of c = 0x7f"

text \<open>One round of the loop takes the component that begins at \<open>component_begin\<close>; \<open>rest\<close> is the input
  from there on, and the loop ends when it is empty.\<close>

function NormalizeLoop :: "nat \<Rightarrow> nat \<Rightarrow> string \<Rightarrow> u16 list \<Rightarrow> u16 list option" where
  "NormalizeLoop max_components component_begin rest offsets =
     (if rest = [] then Some offsets
      else
        let component = takeWhile (\<lambda>c. c \<noteq> CHR ''/'') rest in
        if component = [] \<or> component = ''.'' \<or> component = ''..'' \<or>
           length offsets \<ge> max_components \<or> component_begin > 65535
        then None
        else if list_ex IsControlByte component then None
        else case dropWhile (\<lambda>c. c \<noteq> CHR ''/'') rest of
               [] \<Rightarrow> Some (offsets @ [of_nat component_begin])
             | _ # rest' \<Rightarrow>
                 NormalizeLoop max_components (component_begin + length component + 1) rest'
                   (offsets @ [of_nat component_begin]))"
  by pat_completeness auto
termination
  by (relation "measure (\<lambda>(_, _, rest, _). length rest)") (auto simp: length_dropWhile_Cons)

declare NormalizeLoop.simps [simp del]

definition NormalizeRulePath :: "string \<Rightarrow> RulesLimits \<Rightarrow> NormalizedPath option" where
  "NormalizeRulePath input limits =
     (if input = [] \<or> length input > max_path_bytes limits \<or> hd input = CHR ''/'' then None
      else case NormalizeLoop (max_path_components limits) 0 input [] of
             None \<Rightarrow> None
           | Some offsets \<Rightarrow> Some \<lparr>path_bytes = input, component_offsets = offsets\<rparr>)"

definition IsSameOrAncestor :: "NormalizedPath \<Rightarrow> NormalizedPath \<Rightarrow> bool" where
  "IsSameOrAncestor ancestor path \<longleftrightarrow>
     path_bytes path = path_bytes ancestor \<or>
     (length (path_bytes path) > length (path_bytes ancestor) \<and>
      take (length (path_bytes ancestor)) (path_bytes path) = path_bytes ancestor \<and>
      path_bytes path ! length (path_bytes ancestor) = CHR ''/'')"

definition SamePath :: "NormalizedPath \<Rightarrow> NormalizedPath \<Rightarrow> bool" where
  "SamePath lhs rhs \<longleftrightarrow> path_bytes lhs = path_bytes rhs"

definition PathsOverlap :: "NormalizedPath \<Rightarrow> NormalizedPath \<Rightarrow> bool" where
  "PathsOverlap lhs rhs \<longleftrightarrow> IsSameOrAncestor lhs rhs \<or> IsSameOrAncestor rhs lhs"

definition PathDepth :: "NormalizedPath \<Rightarrow> u16" where
  "PathDepth path = of_nat (length (component_offsets path))"

subsection \<open>Redirect rules\<close>

definition RedirectKey :: "ResolvedRedirectRule \<Rightarrow> string \<times> string \<times> nat" where
  "RedirectKey rule = (path_bytes (res_source rule), path_bytes (res_target rule), res_id rule)"

fun UniqueRedirects ::
  "OriginMap \<Rightarrow> RulesLimits \<Rightarrow> ResolvedRedirectRule list \<Rightarrow> Diagnostic list \<Rightarrow> ResolvedRedirectRule list \<Rightarrow>
   ResolvedRedirectRule list \<times> Diagnostic list" where
  "UniqueRedirects origins limits unique diagnostics [] = (unique, diagnostics)"
| "UniqueRedirects origins limits unique diagnostics (rule # rules) =
     (if unique \<noteq> [] \<and> SamePath (res_source (last unique)) (res_source rule) \<and>
         SamePath (res_target (last unique)) (res_target rule)
      then UniqueRedirects origins limits unique
             (AddDiagnostic limits kRuleRedundant ''duplicate_redirect''
                (OriginSpan origins (res_id rule)) SevWarning
                (Some (OriginSpan origins (res_id (last unique)))) diagnostics) rules
      else UniqueRedirects origins limits (unique @ [rule]) diagnostics rules)"

fun OverlapChecks ::
  "OriginMap \<Rightarrow> RulesLimits \<Rightarrow> ResolvedRedirectRule option \<Rightarrow> Diagnostic list \<Rightarrow> ResolvedRedirectRule list \<Rightarrow>
   Diagnostic list" where
  "OverlapChecks origins limits previous diagnostics [] = diagnostics"
| "OverlapChecks origins limits previous diagnostics (current # rules) =
     (let d1 = (if PathsOverlap (res_source current) (res_target current)
                then AddDiagnostic limits kRuleConflict ''redirect_source_target_overlap''
                       (OriginSpan origins (res_id current)) SevError None diagnostics
                else diagnostics);
          d2 = (case previous of
                  None \<Rightarrow> d1
                | Some p \<Rightarrow>
                    if PathsOverlap (res_source p) (res_source current)
                    then AddDiagnostic limits kRuleConflict ''redirect_source_conflict''
                           (OriginSpan origins (res_id current)) SevError
                           (Some (OriginSpan origins (res_id p))) d1
                    else d1)
      in OverlapChecks origins limits (Some current) d2 rules)"

text \<open>\<open>source_index\<close>: \<open>emplace\<close> keeps the first index of a path.\<close>

fun SourceIndex :: "nat \<Rightarrow> (string \<rightharpoonup> nat) \<Rightarrow> ResolvedRedirectRule list \<Rightarrow> (string \<rightharpoonup> nat)" where
  "SourceIndex index m [] = m"
| "SourceIndex index m (rule # rules) =
     SourceIndex (index + 1)
       (if m (path_bytes (res_source rule)) = None then m(path_bytes (res_source rule) \<mapsto> index) else m)
       rules"

definition NextRedirect :: "ResolvedRedirectRule list \<Rightarrow> nat \<Rightarrow> nat option" where
  "NextRedirect rules index =
     SourceIndex 0 Map.empty rules (path_bytes (res_target (rules ! index)))"

text \<open>The depth-first search over the three colours 0, 1 and 2.  A read of \<open>colors\<close> outside the
  vector, undefined in the source, is \<open>None\<close>.\<close>

lemma white_decreases:
  assumes "index < length colors" "colors ! index \<noteq> 1" "colors ! index \<noteq> 2"
  shows "length (filter (\<lambda>c. c \<noteq> 1 \<and> c \<noteq> 2) (colors[index := (1::nat)])) <
         length (filter (\<lambda>c. c \<noteq> 1 \<and> c \<noteq> 2) colors)"
proof -
  have c: "colors = take index colors @ colors ! index # drop (Suc index) colors"
    using assms(1) by (simp add: id_take_nth_drop)
  have "colors[index := 1] = take index colors @ 1 # drop (Suc index) colors"
    using assms(1) by (simp add: upd_conv_take_nth_drop)
  moreover have "length (filter P colors) =
      length (filter P (take index colors)) + (if P (colors ! index) then 1 else 0) +
      length (filter P (drop (Suc index) colors))" for P
    by (subst c) simp
  ultimately show ?thesis using assms(2,3) by simp
qed

function visit :: "(nat \<Rightarrow> nat option) \<Rightarrow> nat list \<Rightarrow> nat \<Rightarrow> (bool \<times> nat list) option" where
  "visit succ colors index =
     (if index \<ge> length colors then None
      else if colors ! index = 1 then Some (True, colors)
      else if colors ! index = 2 then Some (False, colors)
      else case succ index of
             None \<Rightarrow> Some (False, colors[index := 1, index := 2])
           | Some target \<Rightarrow>
               (case visit succ (colors[index := 1]) target of
                  None \<Rightarrow> None
                | Some (cyclic, colors') \<Rightarrow>
                    Some (if cyclic then (True, colors') else (False, colors'[index := 2]))))"
  by pat_completeness auto
termination
  by (relation "measure (\<lambda>(_, colors, _). length (filter (\<lambda>c. c \<noteq> 1 \<and> c \<noteq> 2) colors))")
    (use white_decreases in simp_all)

declare visit.simps [simp del]

fun FindCycle :: "(nat \<Rightarrow> nat option) \<Rightarrow> nat list \<Rightarrow> nat list \<Rightarrow> nat option" where
  "FindCycle succ colors [] = None"
| "FindCycle succ colors (index # rest) =
     (case visit succ colors index of
        None \<Rightarrow> None
      | Some (True, _) \<Rightarrow> Some index
      | Some (False, colors') \<Rightarrow> FindCycle succ colors' rest)"

definition CycleCheck ::
  "OriginMap \<Rightarrow> RulesLimits \<Rightarrow> ResolvedRedirectRule list \<Rightarrow> Diagnostic list \<Rightarrow> Diagnostic list" where
  "CycleCheck origins limits rules diagnostics =
     (case FindCycle (NextRedirect rules) (replicate (length rules) 0) [0..<length rules] of
        None \<Rightarrow> diagnostics
      | Some index \<Rightarrow> AddDiagnostic limits kRedirectCycle ''redirect_cycle''
                        (OriginSpan origins (res_id (rules ! index))) SevError None diagnostics)"

definition ValidateRedirects ::
  "OriginMap \<Rightarrow> RulesLimits \<Rightarrow> ResolvedAppPolicy \<Rightarrow> Diagnostic list \<Rightarrow>
   ResolvedAppPolicy \<times> Diagnostic list" where
  "ValidateRedirects origins limits app diagnostics =
     (let (unique, d1) = UniqueRedirects origins limits [] diagnostics
                           (sort_key RedirectKey (res_redirects app));
          d2 = OverlapChecks origins limits None d1 unique;
          d3 = CycleCheck origins limits unique d2;
          d4 = (if res_file_picker app \<and> unique = []
                then AddDiagnostic limits kInvalidValue ''file_picker_requires_redirect'' (Span 0 0)
                       SevError None d3
                else d3)
      in (app\<lparr>res_redirects := unique\<rparr>, d4))"

subsection \<open>Deny rules\<close>

definition DenyKey :: "ResolvedDenyRule \<Rightarrow> string \<times> nat" where
  "DenyKey rule = (path_bytes (res_deny_path rule), res_deny_id rule)"

fun UniqueDeny ::
  "OriginMap \<Rightarrow> RulesLimits \<Rightarrow> ResolvedDenyRule list \<Rightarrow> Diagnostic list \<Rightarrow> ResolvedDenyRule list \<Rightarrow>
   ResolvedDenyRule list \<times> Diagnostic list" where
  "UniqueDeny origins limits unique diagnostics [] = (unique, diagnostics)"
| "UniqueDeny origins limits unique diagnostics (current # rules) =
     (if unique \<noteq> [] \<and> IsSameOrAncestor (res_deny_path (last unique)) (res_deny_path current)
      then UniqueDeny origins limits unique
             (AddDiagnostic limits kRuleRedundant ''deny_redundant''
                (OriginSpan origins (res_deny_id current)) SevWarning
                (Some (OriginSpan origins (res_deny_id (last unique)))) diagnostics) rules
      else UniqueDeny origins limits (unique @ [current]) diagnostics rules)"

text \<open>\<open>std::lower_bound\<close> on the deny rules, which are in path order: the first one not below the path.\<close>

definition DenyLowerBound :: "ResolvedDenyRule list \<Rightarrow> string \<Rightarrow> nat" where
  "DenyLowerBound deny path = length (takeWhile (\<lambda>d. path_bytes (res_deny_path d) < path) deny)"

definition DenyConflict :: "ResolvedDenyRule list \<Rightarrow> ResolvedRedirectRule \<Rightarrow> ResolvedDenyRule option" where
  "DenyConflict deny redirect =
     (let i = DenyLowerBound deny (path_bytes (res_source redirect));
          conflict = (if i < length deny \<and> SamePath (res_source redirect) (res_deny_path (deny ! i))
                      then Some (deny ! i) else None)
      in if i \<noteq> 0 \<and> IsSameOrAncestor (res_deny_path (deny ! (i - 1))) (res_source redirect)
         then Some (deny ! (i - 1)) else conflict)"

fun DenyChecks ::
  "OriginMap \<Rightarrow> RulesLimits \<Rightarrow> ResolvedDenyRule list \<Rightarrow> Diagnostic list \<Rightarrow> ResolvedRedirectRule list \<Rightarrow>
   Diagnostic list" where
  "DenyChecks origins limits deny diagnostics [] = diagnostics"
| "DenyChecks origins limits deny diagnostics (redirect # rules) =
     DenyChecks origins limits deny
       (case DenyConflict deny redirect of
          None \<Rightarrow> diagnostics
        | Some conflict \<Rightarrow>
            AddDiagnostic limits kRuleConflict ''deny_redirect_conflict''
              (OriginSpan origins (res_id redirect)) SevError
              (Some (OriginSpan origins (res_deny_id conflict))) diagnostics) rules"

definition ValidateDeny ::
  "OriginMap \<Rightarrow> RulesLimits \<Rightarrow> ResolvedAppPolicy \<Rightarrow> Diagnostic list \<Rightarrow>
   ResolvedAppPolicy \<times> Diagnostic list" where
  "ValidateDeny origins limits app diagnostics =
     (let (unique, d1) = UniqueDeny origins limits [] diagnostics (sort_key DenyKey (res_deny app))
      in (app\<lparr>res_deny := unique\<rparr>, DenyChecks origins limits unique d1 (res_redirects app)))"

subsection \<open>The policy document and its file\<close>

definition int_string :: "int \<Rightarrow> string" where
  "int_string n = (if n < 0 then CHR ''-'' # to_string (nat (- n)) else to_string (nat n))"

definition ToAppPolicy :: "CanonicalAppPolicy \<Rightarrow> AppPolicy" where
  "ToAppPolicy source =
     \<lparr>package = can_package source, media_compat = MediaOff,
      provider_compat = (if can_file_picker source then ProviderVirtualize else ProviderOff),
      users = (if can_users source = [] then [''*''] else map int_string (can_users source)),
      processes = (if can_processes source = [] then [''*''] else can_processes source),
      mounts =
        map (\<lambda>deny. \<lparr>mount_action = MountDeny, visible_path = path_bytes deny, backing_path = [],
                     mount_depth = 0, mount_flags = 0, mount_line = 0\<rparr>) (can_deny source) @
        map (\<lambda>redirect. \<lparr>mount_action = MountRedirect, visible_path = path_bytes (can_source redirect),
                         backing_path = path_bytes (can_target redirect),
                         mount_depth = PathDepth (can_source redirect), mount_flags = 0,
                         mount_line = 0\<rparr>) (can_redirects source),
      events = []\<rparr>"

definition ToPolicyDocument :: "CanonicalPolicy \<Rightarrow> PolicyDocument" where
  "ToPolicyDocument canonical =
     \<lparr>schema = 2, failure_mode = FailureOpen,
      allow_legacy_string_bind = can_allow_legacy_mount canonical,
      apps = map ToAppPolicy (can_apps canonical)\<rparr>"

definition VerifyPolicyBytes :: "bytes \<Rightarrow> u64 \<Rightarrow> bool" where
  "VerifyPolicyBytes input expected =
     (case DecodePolicy input of
        Some (Inr (decoded, generation)) \<Rightarrow>
          generation = expected \<and> ComputeContentGeneration decoded = expected
      | _ \<Rightarrow> False)"

definition VerifyPolicyBlob :: "CanonicalPolicy \<Rightarrow> PolicyBlob \<Rightarrow> bool" where
  "VerifyPolicyBlob policy blob \<longleftrightarrow>
     ComputeContentGeneration (ToPolicyDocument policy) = blob_generation blob \<and>
     VerifyPolicyBytes (blob_bytes blob) (blob_generation blob)"

definition EncodeAndVerify :: "CanonicalPolicy \<Rightarrow> PolicyBlob option" where
  "EncodeAndVerify canonical =
     (let document = ToPolicyDocument canonical in
      case EncodePolicy document of
        Inl _ \<Rightarrow> None
      | Inr bs \<Rightarrow>
          let blob = \<lparr>blob_bytes = bs, blob_generation = ComputeContentGeneration document\<rparr> in
          if blob_generation blob \<noteq> 0 \<and> VerifyPolicyBlob canonical blob then Some blob else None)"

subsection \<open>Compilation of a document\<close>

fun ResolveDeny ::
  "OriginMap \<Rightarrow> RulesLimits \<Rightarrow> Diagnostic list \<Rightarrow> DenyRule list \<Rightarrow>
   ResolvedDenyRule list \<times> Diagnostic list" where
  "ResolveDeny origins limits diagnostics [] = ([], diagnostics)"
| "ResolveDeny origins limits diagnostics (rule # rules) =
     (if ExceedsPathLimits (deny_path rule) limits then
        ResolveDeny origins limits
          (AddDiagnostic limits kResourceLimit ''path_resource_limit''
             (OriginSpan origins (deny_id rule)) SevError None diagnostics) rules
      else case NormalizeRulePath (deny_path rule) limits of
             None \<Rightarrow>
               ResolveDeny origins limits
                 (AddDiagnostic limits kPathInvalid ''invalid_path''
                    (OriginSpan origins (deny_id rule)) SevError None diagnostics) rules
           | Some path \<Rightarrow>
               (let (resolved, d) = ResolveDeny origins limits diagnostics rules
                in (\<lparr>res_deny_id = deny_id rule, res_deny_path = path\<rparr> # resolved, d)))"

fun ResolveRedirects ::
  "OriginMap \<Rightarrow> RulesLimits \<Rightarrow> Diagnostic list \<Rightarrow> RedirectRule list \<Rightarrow>
   ResolvedRedirectRule list \<times> Diagnostic list" where
  "ResolveRedirects origins limits diagnostics [] = ([], diagnostics)"
| "ResolveRedirects origins limits diagnostics (rule # rules) =
     (if ExceedsPathLimits (redirect_source rule) limits \<or>
         ExceedsPathLimits (redirect_target rule) limits then
        ResolveRedirects origins limits
          (AddDiagnostic limits kResourceLimit ''path_resource_limit''
             (OriginSpan origins (redirect_id rule)) SevError None diagnostics) rules
      else case (NormalizeRulePath (redirect_source rule) limits,
                 NormalizeRulePath (redirect_target rule) limits) of
             (Some from_path, Some to_path) \<Rightarrow>
               (let (resolved, d) = ResolveRedirects origins limits diagnostics rules
                in (\<lparr>res_id = redirect_id rule, res_source = from_path, res_target = to_path\<rparr> # resolved, d))
           | _ \<Rightarrow>
               ResolveRedirects origins limits
                 (AddDiagnostic limits kPathInvalid ''invalid_path''
                    (OriginSpan origins (redirect_id rule)) SevError None diagnostics) rules)"

definition ResolveApp ::
  "OriginMap \<Rightarrow> RulesLimits \<Rightarrow> Diagnostic list \<Rightarrow> AppRules \<Rightarrow> ResolvedAppPolicy \<times> Diagnostic list" where
  "ResolveApp origins limits diagnostics source_app =
     (let (deny, d1) = ResolveDeny origins limits diagnostics (rules_deny source_app);
          (redirects, d2) = ResolveRedirects origins limits d1 (rules_redirects source_app);
          app = \<lparr>res_package = rules_package source_app, res_enabled = rules_enabled source_app,
                 res_users = rules_users source_app, res_processes = rules_processes source_app,
                 res_file_picker = rules_file_picker source_app, res_deny = deny,
                 res_redirects = redirects\<rparr>;
          (app', d3) = ValidateRedirects origins limits app d2
      in ValidateDeny origins limits app' d3)"

fun ResolveApps ::
  "OriginMap \<Rightarrow> RulesLimits \<Rightarrow> Diagnostic list \<Rightarrow> AppRules list \<Rightarrow>
   ResolvedAppPolicy list \<times> Diagnostic list" where
  "ResolveApps origins limits diagnostics [] = ([], diagnostics)"
| "ResolveApps origins limits diagnostics (app # rest) =
     (let (resolved, d) = ResolveApp origins limits diagnostics app;
          (others, d') = ResolveApps origins limits d rest
      in (resolved # others, d'))"

definition CanonicalizeApp :: "ResolvedAppPolicy \<Rightarrow> CanonicalAppPolicy" where
  "CanonicalizeApp source_app =
     \<lparr>can_package = res_package source_app,
      can_users = remdups_adj (sort (res_users source_app)),
      can_processes = remdups_adj (sort (res_processes source_app)),
      can_file_picker = res_file_picker source_app,
      can_deny = sort_key path_bytes (map res_deny_path (res_deny source_app)),
      can_redirects =
        sort_key (\<lambda>r. (path_bytes (can_source r), path_bytes (can_target r)))
          (map (\<lambda>r. \<lparr>can_source = res_source r, can_target = res_target r\<rparr>)
             (res_redirects source_app))\<rparr>"

definition CanonicalizePolicy :: "ResolvedPolicy \<Rightarrow> CanonicalPolicy" where
  "CanonicalizePolicy resolved =
     \<lparr>can_allow_legacy_mount = res_allow_legacy_mount resolved,
      can_apps = sort_key can_package (map CanonicalizeApp (filter res_enabled (res_apps resolved)))\<rparr>"

definition Requirements :: "CanonicalPolicy \<Rightarrow> PolicyRequirements" where
  "Requirements canonical =
     \<lparr>req_mount_actions =
        foldl (\<lambda>mask app.
            let m1 = (if can_redirects app \<noteq> [] then mask OR kMountActionRedirect else mask)
            in if can_deny app \<noteq> [] then m1 OR kMountActionDenyAnchor else m1) 0 (can_apps canonical),
      req_provider = list_ex can_file_picker (can_apps canonical),
      req_topology = (can_apps canonical \<noteq> [])\<rparr>"

definition no_requirements :: PolicyRequirements where
  "no_requirements = \<lparr>req_mount_actions = 0, req_provider = False, req_topology = False\<rparr>"

definition CompileRules :: "RulesCompileResult \<Rightarrow> RulesLimits \<Rightarrow> RulesBuildResult" where
  "CompileRules parsed limits =
     (let origins = parsed_origins parsed;
          output = \<lparr>build_resolved = None, build_canonical = None,
                    build_requirements = no_requirements, build_blob = None,
                    build_diagnostics = parsed_diagnostics parsed, build_origins = origins\<rparr>
      in case parsed_document parsed of
           None \<Rightarrow> output
         | Some document \<Rightarrow>
             if HasErrors (build_diagnostics output) then output
             else
               let (within, d1) = ValidateExpandedRuleLimit document origins limits
                                    (build_diagnostics output)
               in if \<not> within then output\<lparr>build_diagnostics := d1\<rparr>
                  else
                    let (resolved_apps, d2) = ResolveApps origins limits d1 (doc_apps document);
                        resolved = \<lparr>res_allow_legacy_mount = doc_allow_legacy_mount document,
                                    res_apps = resolved_apps\<rparr>
                    in if HasErrors d2
                       then output\<lparr>build_resolved := Some resolved, build_diagnostics := d2\<rparr>
                       else
                         let canonical = CanonicalizePolicy resolved;
                             output' = output\<lparr>build_resolved := Some resolved,
                                              build_requirements := Requirements canonical\<rparr>
                         in case EncodeAndVerify canonical of
                              None \<Rightarrow>
                                output'\<lparr>build_diagnostics :=
                                  AddDiagnostic limits kPolicyEncode ''policy_encode_failed'' (Span 0 0)
                                    SevError None d2\<rparr>
                            | Some blob \<Rightarrow>
                                output'\<lparr>build_diagnostics := d2, build_canonical := Some canonical,
                                        build_blob := Some blob\<rparr>)"

definition build_ok :: "RulesBuildResult \<Rightarrow> bool" where
  "build_ok result \<longleftrightarrow>
     build_resolved result \<noteq> None \<and> build_canonical result \<noteq> None \<and> build_blob result \<noteq> None \<and>
     \<not> HasErrors (build_diagnostics result)"

definition AdmitPolicy ::
  "CanonicalPolicy \<Rightarrow> PolicyRequirements \<Rightarrow> DeviceSnapshot \<Rightarrow> AdmissionResult" where
  "AdmitPolicy policy requirements snapshot =
     (let document = ToPolicyDocument policy;
          selection = SelectMountBackend (req_mount_actions requirements) (snap_mount snapshot)
                        (can_allow_legacy_mount policy)
      in \<lparr>admitted = selected_backend selection \<noteq> BackendUnsupported \<and>
                     (\<not> req_provider requirements \<or> snap_provider_supported snapshot) \<and>
                     (\<not> req_topology requirements \<or> snap_topology_supported snapshot),
          admission_backend = selected_backend selection,
          admission_reason = selection_reason selection,
          admission_content_generation = ComputeContentGeneration document,
          admission_capability_generation = snap_capability_generation snapshot,
          admission_topology_generation = snap_topology_generation snapshot\<rparr>)"

subsection \<open>Basic facts\<close>

lemma NormalizeRulePath_bytes: "NormalizeRulePath input limits = Some p \<Longrightarrow> path_bytes p = input"
  by (auto simp: NormalizeRulePath_def split: if_splits option.splits)

end
