(* ===== verification/PG_Conflicts.thy ===== *)
theory PG_Conflicts
  imports PG_Semantic
begin

text \<open>
  What the redirect and deny checks of \<open>rules/src/semantic.cpp\<close> decide.  The depth-first search finds a
  cycle exactly when the redirects have one; the redirects an application is left with are the sorted set
  of its (source, target) pairs; and the checks pass exactly for the sets that \<open>redirects_accepted\<close>
  describes, as long as the list of diagnostics is not full.  Dropping redundant deny rules never changes
  the set of denied paths.
\<close>

subsection \<open>Facts about diagnostics\<close>

lemma HasErrors_append [simp]: "HasErrors (xs @ ys) \<longleftrightarrow> HasErrors xs \<or> HasErrors ys"
  by (simp add: HasErrors_def)

lemma HasErrors_Nil [simp]: "\<not> HasErrors []"
  by (simp add: HasErrors_def)

text \<open>A step that reports something keeps the earlier diagnostics, and is silent once the list is full.\<close>

definition extends :: "RulesLimits \<Rightarrow> Diagnostic list \<Rightarrow> Diagnostic list \<Rightarrow> bool" where
  "extends limits d d' \<longleftrightarrow> prefix d d' \<and> (length d \<ge> max_diagnostics limits \<longrightarrow> d' = d)"

lemma extends_refl [intro, simp]: "extends limits d d"
  by (simp add: extends_def)

lemma extends_trans [trans]: "extends limits a b \<Longrightarrow> extends limits b c \<Longrightarrow> extends limits a c"
  unfolding extends_def by (auto intro: prefix_order.trans)

lemma extends_full: "extends limits d d' \<Longrightarrow> length d \<ge> max_diagnostics limits \<Longrightarrow> d' = d"
  by (simp add: extends_def)

lemma extends_errors: "extends limits d d' \<Longrightarrow> HasErrors d \<Longrightarrow> HasErrors d'"
  by (auto simp: extends_def prefix_def)

lemma extends_length: "extends limits d d' \<Longrightarrow> length d \<le> length d'"
  by (auto simp: extends_def prefix_length_le)

lemma AddDiagnostic_extends [intro, simp]:
  "extends limits d (AddDiagnostic limits code key primary severity related d)"
  by (auto simp: extends_def AddDiagnostic_def)

lemma AddDiagnostic_errors:
  assumes "length (AddDiagnostic limits code key primary severity related d) < max_diagnostics limits"
  shows "HasErrors (AddDiagnostic limits code key primary severity related d) \<longleftrightarrow>
           HasErrors d \<or> severity = SevError"
  using assms by (auto simp: AddDiagnostic_def HasErrors_def split: if_splits)

lemma AddDiagnostic_warning [simp]:
  "HasErrors (AddDiagnostic limits code key primary SevWarning related d) \<longleftrightarrow> HasErrors d"
  by (auto simp: AddDiagnostic_def HasErrors_def)

lemma AddDiagnostic_error_visible:
  assumes "extends limits (AddDiagnostic limits code key span SevError related d) d'"
    "length d' < max_diagnostics limits"
  shows "HasErrors d'"
proof -
  have "length (AddDiagnostic limits code key span SevError related d) < max_diagnostics limits"
    using extends_length [OF assms(1)] assms(2) by simp
  hence "HasErrors (AddDiagnostic limits code key span SevError related d)"
    by (simp add: AddDiagnostic_errors)
  with assms(1) show ?thesis by (rule extends_errors)
qed

lemma extends_clean:
  "extends limits d d' \<Longrightarrow> \<not> HasErrors d' \<Longrightarrow> length d' < max_diagnostics limits \<Longrightarrow>
   \<not> HasErrors d \<and> length d < max_diagnostics limits"
  using extends_errors extends_length by fastforce

subsection \<open>The cycle search\<close>

text \<open>The successor function as a relation; a search that ends has no cycle ahead.\<close>

definition succ_rel :: "(nat \<Rightarrow> nat option) \<Rightarrow> (nat \<times> nat) set" where
  "succ_rel succ = {(i, j). succ i = Some j}"

inductive ends :: "(nat \<Rightarrow> nat option) \<Rightarrow> nat \<Rightarrow> bool" for succ where
  stop: "succ i = None \<Longrightarrow> ends succ i"
| step: "succ i = Some j \<Longrightarrow> ends succ j \<Longrightarrow> ends succ i"

lemma ends_reach: "ends succ i \<Longrightarrow> (i, j) \<in> (succ_rel succ)\<^sup>* \<Longrightarrow> ends succ j"
proof (induction arbitrary: j rule: ends.induct)
  case (stop i)
  from stop(2) stop(1) show ?case
    by (cases rule: converse_rtranclE) (auto simp: succ_rel_def intro: ends.stop)
next
  case (step i k)
  from step(4) show ?case
  proof (cases rule: converse_rtranclE)
    case base
    with step(1,2) show ?thesis by (auto intro: ends.step)
  next
    case (step y)
    with \<open>succ i = Some k\<close> have "y = k" by (simp add: succ_rel_def)
    with step \<open>\<And>j. (k, j) \<in> (succ_rel succ)\<^sup>* \<Longrightarrow> ends succ j\<close> show ?thesis by simp
  qed
qed

lemma ends_no_cycle: "ends succ i \<Longrightarrow> (i, i) \<notin> (succ_rel succ)\<^sup>+"
proof (induction rule: ends.induct)
  case (stop i)
  thus ?case by (auto simp: succ_rel_def dest: tranclD)
next
  case (step i j)
  show ?case
  proof
    assume "(i, i) \<in> (succ_rel succ)\<^sup>+"
    then obtain k where "(i, k) \<in> succ_rel succ" and k: "(k, i) \<in> (succ_rel succ)\<^sup>*"
      by (auto dest: tranclD)
    with step(1) have "k = j" by (simp add: succ_rel_def)
    moreover have "(i, j) \<in> succ_rel succ" using step(1) by (simp add: succ_rel_def)
    ultimately have "(j, j) \<in> (succ_rel succ)\<^sup>+" using k by (auto intro: rtrancl_into_trancl1)
    with step(3) show False ..
  qed
qed

definition cyclic_from :: "(nat \<Rightarrow> nat option) \<Rightarrow> nat \<Rightarrow> bool" where
  "cyclic_from succ i \<longleftrightarrow> (\<exists>j. (i, j) \<in> (succ_rel succ)\<^sup>* \<and> (j, j) \<in> (succ_rel succ)\<^sup>+)"

lemma ends_not_cyclic: "ends succ i \<Longrightarrow> \<not> cyclic_from succ i"
  unfolding cyclic_from_def using ends_reach ends_no_cycle by blast

text \<open>What holds when \<open>visit\<close> is entered: the grey nodes are the path to \<open>index\<close>, and the search from
  every black node ends.\<close>

definition colors_ok :: "(nat \<Rightarrow> nat option) \<Rightarrow> nat list \<Rightarrow> nat \<Rightarrow> bool" where
  "colors_ok succ colors index \<longleftrightarrow>
     (\<forall>g < length colors. colors ! g = 1 \<longrightarrow> (g, index) \<in> (succ_rel succ)\<^sup>+) \<and>
     (\<forall>b < length colors. colors ! b = 2 \<longrightarrow> ends succ b)"

definition visit_post :: "(nat \<Rightarrow> nat option) \<Rightarrow> nat list \<Rightarrow> nat \<Rightarrow> bool \<Rightarrow> nat list \<Rightarrow> bool" where
  "visit_post succ colors index cyclic colors' \<longleftrightarrow>
     length colors' = length colors \<and>
     (if cyclic then cyclic_from succ index
      else ends succ index \<and>
        (\<forall>k < length colors. colors' ! k = 1 \<longleftrightarrow> colors ! k = 1) \<and>
        (\<forall>b < length colors. colors' ! b = 2 \<longrightarrow> ends succ b))"

lemma cyclic_from_step: "succ i = Some j \<Longrightarrow> cyclic_from succ j \<Longrightarrow> cyclic_from succ i"
  unfolding cyclic_from_def
  by (metis (mono_tags, lifting) case_prodI converse_rtrancl_into_rtrancl mem_Collect_eq succ_rel_def)

lemma colors_ok_step:
  assumes "colors_ok succ colors index" "succ index = Some target" "colors ! index \<noteq> 2"
  shows "colors_ok succ (colors[index := 1]) target"
proof -
  have r: "(index, target) \<in> succ_rel succ" using assms(2) by (simp add: succ_rel_def)
  have "(g, target) \<in> (succ_rel succ)\<^sup>+" if "g < length colors" "colors[index := 1] ! g = 1" for g
  proof (cases "g = index")
    case True
    with r show ?thesis by auto
  next
    case False
    with that assms(1) have "(g, index) \<in> (succ_rel succ)\<^sup>+" by (simp add: colors_ok_def)
    with r show ?thesis by (auto intro: trancl_into_trancl)
  qed
  moreover have "ends succ b" if "b < length colors" "colors[index := 1] ! b = 2" for b
    using that assms(1) by (cases "b = index") (auto simp: colors_ok_def)
  ultimately show ?thesis by (simp add: colors_ok_def)
qed

lemma visit_spec:
  assumes "\<forall>i < n. \<forall>j. succ i = Some j \<longrightarrow> j < n" "index < n" "length colors = n"
    "colors_ok succ colors index"
  shows "\<exists>cyclic colors'. visit succ colors index = Some (cyclic, colors') \<and>
           visit_post succ colors index cyclic colors'"
  using assms
proof (induction succ colors index rule: visit.induct)
  case (1 succ colors index)
  note ok = 1(5) and len = 1(4) and index = 1(3) and range = 1(2)
  note unfold = visit.simps [of succ colors index]
  consider (grey) "colors ! index = 1" | (black) "colors ! index = 2"
    | (white) "colors ! index \<noteq> 1" "colors ! index \<noteq> 2" by blast
  thus ?case
  proof cases
    case grey
    hence "(index, index) \<in> (succ_rel succ)\<^sup>+" using ok index len by (simp add: colors_ok_def)
    hence "cyclic_from succ index" by (auto simp: cyclic_from_def)
    with grey index len have "visit succ colors index = Some (True, colors)"
      "visit_post succ colors index True colors" by (simp_all add: unfold visit_post_def)
    thus ?thesis by blast
  next
    case black
    with ok index len have "visit succ colors index = Some (False, colors)"
      "visit_post succ colors index False colors" by (simp_all add: unfold visit_post_def colors_ok_def)
    thus ?thesis by blast
  next
    case white
    show ?thesis
    proof (cases "succ index")
      case None
      hence "ends succ index" by (rule ends.stop)
      with None white ok index len show ?thesis
        by (auto simp: unfold visit_post_def colors_ok_def nth_list_update)
    next
      case (Some target)
      obtain cyclic colors' where v: "visit succ (colors[index := 1]) target = Some (cyclic, colors')"
        and post: "visit_post succ (colors[index := 1]) target cyclic colors'"
        using 1(1) [OF _ white Some] range index len colors_ok_step [OF ok Some white(2)] Some by auto
      show ?thesis
      proof (cases cyclic)
        case True
        with v Some white index len post show ?thesis
          by (auto simp: unfold visit_post_def intro: cyclic_from_step)
      next
        case False
        with post have "ends succ target" by (simp add: visit_post_def)
        with Some have "ends succ index" by (rule ends.step)
        with False v Some white index len post show ?thesis
          by (auto simp: unfold visit_post_def nth_list_update)
      qed
    qed
  qed
qed

lemma FindCycle_spec:
  assumes "\<forall>i < n. \<forall>j. succ i = Some j \<longrightarrow> j < n" "\<forall>i \<in> set indices. i < n" "length colors = n"
    "\<forall>k < n. colors ! k \<noteq> 1" "\<forall>b < n. colors ! b = 2 \<longrightarrow> ends succ b"
  shows "FindCycle succ colors indices = List.find (cyclic_from succ) indices"
  using assms(2-)
proof (induction indices arbitrary: colors)
  case (Cons index rest)
  have "colors_ok succ colors index" using Cons.prems by (auto simp: colors_ok_def)
  then obtain cyclic colors' where
    v: "visit succ colors index = Some (cyclic, colors')" and
    post: "visit_post succ colors index cyclic colors'"
    using visit_spec [of n succ index colors] assms(1) Cons.prems by auto
  show ?case
  proof (cases cyclic)
    case True
    with v post show ?thesis by (simp add: visit_post_def)
  next
    case False
    hence "\<not> cyclic_from succ index" using post by (simp add: visit_post_def ends_not_cyclic)
    moreover have "FindCycle succ colors' rest = List.find (cyclic_from succ) rest"
      using post False Cons.prems by (intro Cons.IH) (auto simp: visit_post_def)
    ultimately show ?thesis using v False by simp
  qed
qed simp

subsection \<open>What the redirect checks decide\<close>

definition edge :: "ResolvedRedirectRule \<Rightarrow> string \<times> string" where
  "edge rule = (path_bytes (res_source rule), path_bytes (res_target rule))"

definition redirect_edges :: "ResolvedAppPolicy \<Rightarrow> (string \<times> string) set" where
  "redirect_edges app = edge ` set (res_redirects app)"

definition path_prefix :: "string \<Rightarrow> string \<Rightarrow> bool" where
  "path_prefix a p \<longleftrightarrow> prefix (split_on (CHR ''/'') a) (split_on (CHR ''/'') p)"

definition overlap :: "string \<Rightarrow> string \<Rightarrow> bool" where
  "overlap a b \<longleftrightarrow> path_prefix a b \<or> path_prefix b a"

lemma path_prefix_refl [simp]: "path_prefix p p"
  by (simp add: path_prefix_def)

lemma path_prefix_trans: "path_prefix a b \<Longrightarrow> path_prefix b c \<Longrightarrow> path_prefix a c"
  by (auto simp: path_prefix_def intro: prefix_order.trans)

lemma path_prefix_text:
  "path_prefix a p \<longleftrightarrow>
     p = a \<or> (length p > length a \<and> take (length a) p = a \<and> p ! length a = CHR ''/'')"
proof -
  have "(\<exists>r. p = a @ CHR ''/'' # r) \<longleftrightarrow>
      length p > length a \<and> take (length a) p = a \<and> p ! length a = CHR ''/''"
    by (auto simp: nth_append) (metis id_take_nth_drop)
  thus ?thesis by (simp add: path_prefix_def flip: IsPathOrDescendant_prefix IsPathOrDescendant_iff)
      (simp add: IsPathOrDescendant_iff)
qed

lemma IsSameOrAncestor_prefix: "IsSameOrAncestor a p \<longleftrightarrow> path_prefix (path_bytes a) (path_bytes p)"
  by (simp only: IsSameOrAncestor_def path_prefix_text)

lemma PathsOverlap_overlap: "PathsOverlap a b \<longleftrightarrow> overlap (path_bytes a) (path_bytes b)"
  by (simp add: PathsOverlap_def overlap_def IsSameOrAncestor_prefix)

paragraph \<open>The unique rules\<close>

lemma UniqueRedirects_edges:
  assumes "u \<noteq> []"
  shows "map edge (fst (UniqueRedirects origins limits u d rs)) =
           map edge u @ tl (remdups_adj (edge (last u) # map edge rs))"
  using assms
proof (induction rs arbitrary: u d)
  case (Cons r rs)
  have same: "(SamePath (res_source (last u)) (res_source r) \<and>
      SamePath (res_target (last u)) (res_target r)) = (edge (last u) = edge r)"
    by (simp add: SamePath_def edge_def)
  show ?case
  proof (cases "edge (last u) = edge r")
    case True
    with same Cons show ?thesis by simp
  next
    case False
    have "remdups_adj (edge r # map edge rs) = edge r # tl (remdups_adj (edge r # map edge rs))"
      by (rule remdups_adj_tl)
    with False same Cons.IH [of "u @ [r]" d] Cons.prems show ?thesis by auto
  qed
qed simp

lemma sort_RedirectKey_edges: "sorted (map edge (sort_key RedirectKey rs))"
proof -
  have "sorted (map RedirectKey (sort_key RedirectKey rs))" by simp
  moreover have "edge a \<le> edge b" if "RedirectKey a \<le> RedirectKey b" for a b
    using that by (auto simp: edge_def RedirectKey_def less_eq_prod_def)
  ultimately show ?thesis by (auto simp: sorted_map intro: sorted_wrt_mono_rel [rotated])
qed

lemma UniqueRedirects_sorted:
  "map edge (fst (UniqueRedirects origins limits [] d (sort_key RedirectKey rs))) =
     sorted_list_of_set (edge ` set rs)"
proof -
  let ?s = "sort_key RedirectKey rs"
  have "map edge (fst (UniqueRedirects origins limits [] d ?s)) = remdups_adj (map edge ?s)"
  proof (cases ?s)
    case (Cons r ss)
    have "remdups_adj (map edge ?s) = edge r # tl (remdups_adj (edge r # map edge ss))"
      using remdups_adj_tl [of "edge r" "map edge ss"] by (simp add: Cons)
    with UniqueRedirects_edges [of "[r]" origins limits d ss] show ?thesis by (simp add: Cons)
  qed simp
  with sorted_remdups_adj [OF sort_RedirectKey_edges, of rs] show ?thesis by simp
qed

lemma UniqueRedirects_diagnostics:
  "extends limits d (snd (UniqueRedirects origins limits u d rs))"
  "HasErrors (snd (UniqueRedirects origins limits u d rs)) \<longleftrightarrow> HasErrors d"
  by (induction rs arbitrary: u d) (auto intro: extends_trans [OF AddDiagnostic_extends])

lemma UniqueRedirects_subset: "set (fst (UniqueRedirects origins limits u d rs)) \<subseteq> set u \<union> set rs"
  by (induction rs arbitrary: u d) (auto, fastforce+)

paragraph \<open>Overlaps\<close>

lemma OverlapChecks_extends: "extends limits d (OverlapChecks origins limits previous d rs)"
proof (induction rs arbitrary: previous d)
  case (Cons r rs)
  have "extends limits d
    (case previous of None \<Rightarrow> d1
     | Some p \<Rightarrow> if PathsOverlap (res_source p) (res_source r)
         then AddDiagnostic limits kRuleConflict ''redirect_source_conflict''
                (OriginSpan origins (res_id r)) SevError (Some (OriginSpan origins (res_id p))) d1
         else d1)" if "extends limits d d1" for d1
    using that by (auto split: option.splits intro: extends_trans)
  thus ?case by (auto simp: Let_def intro: extends_trans [OF _ Cons.IH])
qed simp

lemma OverlapChecks_errors:
  assumes "length (OverlapChecks origins limits previous d rs) < max_diagnostics limits"
  shows "HasErrors (OverlapChecks origins limits previous d rs) \<longleftrightarrow>
     HasErrors d \<or> (\<exists>r \<in> set rs. overlap (fst (edge r)) (snd (edge r))) \<or>
     \<not> successively (\<lambda>a b. \<not> overlap (fst (edge a)) (fst (edge b)))
         (case previous of None \<Rightarrow> rs | Some p \<Rightarrow> p # rs)"
  using assms
proof (induction rs arbitrary: previous d)
  case Nil
  show ?case by (cases previous) simp_all
next
  case (Cons r rs)
  define d1 where "d1 = (if PathsOverlap (res_source r) (res_target r)
      then AddDiagnostic limits kRuleConflict ''redirect_source_target_overlap''
             (OriginSpan origins (res_id r)) SevError None d else d)"
  define d2 where "d2 = (case previous of None \<Rightarrow> d1
     | Some p \<Rightarrow> if PathsOverlap (res_source p) (res_source r)
         then AddDiagnostic limits kRuleConflict ''redirect_source_conflict''
                (OriginSpan origins (res_id r)) SevError (Some (OriginSpan origins (res_id p))) d1
         else d1)"
  have unf: "OverlapChecks origins limits previous d (r # rs) = OverlapChecks origins limits (Some r) d2 rs"
    unfolding OverlapChecks.simps Let_def d1_def d2_def ..
  have l2: "length d2 < max_diagnostics limits"
    using Cons.prems unf extends_length [OF OverlapChecks_extends [of limits d2 origins "Some r" rs]] by simp
  have "extends limits d1 d2" by (auto simp: d2_def split: option.splits)
  with l2 have l1: "length d1 < max_diagnostics limits" using extends_length by fastforce
  have e1: "HasErrors d1 \<longleftrightarrow> HasErrors d \<or> overlap (fst (edge r)) (snd (edge r))"
    using l1 by (simp add: d1_def AddDiagnostic_errors PathsOverlap_overlap edge_def split: if_splits)
  have e2: "HasErrors d2 \<longleftrightarrow> HasErrors d1 \<or>
      (\<exists>p. previous = Some p \<and> overlap (fst (edge p)) (fst (edge r)))"
    using l2 by (cases previous)
      (simp_all add: d2_def AddDiagnostic_errors PathsOverlap_overlap edge_def split: if_splits)
  from Cons.IH [of "Some r" d2] Cons.prems unf e1 e2 show ?case
    by (cases previous) auto
qed

paragraph \<open>Cycles\<close>

lemma SourceIndex_None:
  "SourceIndex k m rs p = None \<longleftrightarrow> m p = None \<and> p \<notin> fst ` edge ` set rs"
  by (induction rs arbitrary: k m) (auto simp: edge_def)

lemma SourceIndex_Some:
  "SourceIndex k m rs p = Some i \<Longrightarrow>
   m p = Some i \<or> (k \<le> i \<and> i < k + length rs \<and> fst (edge (rs ! (i - k))) = p)"
proof (induction rs arbitrary: k m)
  case (Cons r rs)
  let ?m = "if m (path_bytes (res_source r)) = None then m(path_bytes (res_source r) \<mapsto> k) else m"
  from Cons.IH [of "k + 1" ?m] Cons.prems
  consider "?m p = Some i" | "k + 1 \<le> i" "i < k + 1 + length rs" "fst (edge (rs ! (i - (k + 1)))) = p"
    by auto
  thus ?case
  proof cases
    case 1
    hence "m p = Some i \<or> (i = k \<and> p = path_bytes (res_source r))" by (auto split: if_splits)
    thus ?thesis by (auto simp: edge_def)
  next
    case 2
    have "(r # rs) ! (i - k) = rs ! (i - (k + 1))" using 2(1) by (simp add: nth_Cons')
    with 2 show ?thesis by simp
  qed
qed simp

lemma NextRedirect_Some:
  assumes "NextRedirect rs i = Some j"
  shows "j < length rs" "fst (edge (rs ! j)) = snd (edge (rs ! i))"
  using SourceIndex_Some [OF assms [unfolded NextRedirect_def]] by (simp_all add: edge_def)

lemmas NextRedirect_range = NextRedirect_Some(1)

lemma NextRedirect_edge: "NextRedirect rs i = Some j \<Longrightarrow> snd (edge (rs ! i)) = fst (edge (rs ! j))"
  using NextRedirect_Some(2) by simp

lemma NextRedirect_distinct:
  assumes "distinct (map (fst \<circ> edge) rs)" "k < length rs" "snd (edge (rs ! i)) = fst (edge (rs ! k))"
  shows "NextRedirect rs i = Some k"
proof -
  have "fst (edge (rs ! k)) \<in> fst ` edge ` set rs" using assms(2) by simp
  hence "NextRedirect rs i \<noteq> None"
    using assms(3) unfolding NextRedirect_def SourceIndex_None by (simp add: edge_def)
  then obtain j where j: "NextRedirect rs i = Some j" by auto
  have "fst (edge (rs ! j)) = fst (edge (rs ! k))" using NextRedirect_edge [OF j] assms(3) by simp
  with assms(1,2) NextRedirect_range [OF j] have "j = k"
    by (metis comp_apply length_map nth_eq_iff_index_eq nth_map)
  with j show ?thesis by simp
qed

lemma cycle_to_edges:
  assumes "(i, j) \<in> (succ_rel (NextRedirect rs))\<^sup>+" "i < length rs"
  shows "j < length rs \<and> (fst (edge (rs ! i)), fst (edge (rs ! j))) \<in> (edge ` set rs)\<^sup>+"
  using assms(1)
proof (induction rule: trancl_induct)
  have e: "(fst (edge (rs ! a)), fst (edge (rs ! b))) \<in> edge ` set rs"
    if "NextRedirect rs a = Some b" "a < length rs" for a b
  proof -
    have "edge (rs ! a) \<in> edge ` set rs" using that(2) by simp
    thus ?thesis using NextRedirect_edge [OF that(1)] by (metis prod.collapse)
  qed
  {
    case (base y)
    hence "NextRedirect rs i = Some y" by (simp add: succ_rel_def)
    with e assms(2) NextRedirect_range show ?case by auto
  next
    case (step y z)
    hence "NextRedirect rs y = Some z" by (simp add: succ_rel_def)
    with e [OF this] step.IH NextRedirect_range show ?case by (auto intro: trancl_into_trancl)
  }
qed

lemma edges_to_cycle:
  assumes d: "distinct (map (fst \<circ> edge) rs)"
    and "(fst (edge (rs ! i)), t) \<in> (edge ` set rs)\<^sup>+" "i < length rs" "k < length rs" "t = fst (edge (rs ! k))"
  shows "(i, k) \<in> (succ_rel (NextRedirect rs))\<^sup>+"
  using assms(2,4,5)
proof (induction arbitrary: k rule: trancl_induct)
  have only: "snd (edge (rs ! a)) = u"
    if "(fst (edge (rs ! a)), u) \<in> edge ` set rs" "a < length rs" for a u
  proof -
    from that(1) obtain b where "b < length rs" "edge (rs ! b) = (fst (edge (rs ! a)), u)"
      by (metis imageE in_set_conv_nth)
    with d that(2) have "b = a" by (metis comp_apply fst_conv length_map nth_eq_iff_index_eq nth_map)
    with \<open>edge (rs ! b) = _\<close> show ?thesis by (metis snd_conv)
  qed
  {
    case (base y)
    hence "snd (edge (rs ! i)) = fst (edge (rs ! k))" using only assms(3) by blast
    with NextRedirect_distinct [OF d base(2)] show ?case by (auto simp: succ_rel_def)
  next
    case (step y z)
    from step(2) obtain b where b: "b < length rs" "y = fst (edge (rs ! b))"
      by (metis fst_conv imageE in_set_conv_nth)
    have "snd (edge (rs ! b)) = fst (edge (rs ! k))" using only [of b z] step b by auto
    hence "(b, k) \<in> succ_rel (NextRedirect rs)"
      using NextRedirect_distinct [OF d step(4)] by (simp add: succ_rel_def)
    with step.IH [OF b] show ?case by (rule trancl_into_trancl)
  }
qed

lemma cyclic_from_edges:
  assumes "distinct (map (fst \<circ> edge) rs)"
  shows "(\<exists>i \<in> {0..<length rs}. cyclic_from (NextRedirect rs) i) \<longleftrightarrow> \<not> acyclic (edge ` set rs)"
proof
  assume "\<exists>i \<in> {0..<length rs}. cyclic_from (NextRedirect rs) i"
  then obtain i j where i: "i < length rs" and r: "(i, j) \<in> (succ_rel (NextRedirect rs))\<^sup>*"
    and c: "(j, j) \<in> (succ_rel (NextRedirect rs))\<^sup>+" by (auto simp: cyclic_from_def)
  from r i have "j < length rs" by (auto simp: rtrancl_eq_or_trancl dest: cycle_to_edges)
  with cycle_to_edges [OF c] show "\<not> acyclic (edge ` set rs)" by (auto simp: acyclic_def)
next
  assume "\<not> acyclic (edge ` set rs)"
  then obtain s where s: "(s, s) \<in> (edge ` set rs)\<^sup>+" by (auto simp: acyclic_def)
  then obtain t where "(s, t) \<in> edge ` set rs" by (meson tranclD)
  then obtain i where i: "i < length rs" "s = fst (edge (rs ! i))"
    by (metis fst_conv imageE in_set_conv_nth)
  have "(i, i) \<in> (succ_rel (NextRedirect rs))\<^sup>+" by (rule edges_to_cycle [OF assms _ i(1) i]) (use s i in simp)
  hence "cyclic_from (NextRedirect rs) i" by (auto simp: cyclic_from_def)
  with i(1) show "\<exists>i \<in> {0..<length rs}. cyclic_from (NextRedirect rs) i" by auto
qed

lemma FindCycle_rules:
  "FindCycle (NextRedirect rs) (replicate (length rs) 0) [0..<length rs] =
     List.find (cyclic_from (NextRedirect rs)) [0..<length rs]"
  by (rule FindCycle_spec) (auto dest: NextRedirect_range)

lemma CycleCheck_extends: "extends limits d (CycleCheck origins limits rs d)"
  by (simp add: CycleCheck_def split: option.splits)

lemma CycleCheck_errors:
  assumes "length (CycleCheck origins limits rs d) < max_diagnostics limits"
    "distinct (map (fst \<circ> edge) rs)"
  shows "HasErrors (CycleCheck origins limits rs d) \<longleftrightarrow> HasErrors d \<or> \<not> acyclic (edge ` set rs)"
proof -
  have "HasErrors (CycleCheck origins limits rs d) \<longleftrightarrow>
      HasErrors d \<or> (\<exists>i \<in> {0..<length rs}. cyclic_from (NextRedirect rs) i)"
  proof (cases "List.find (cyclic_from (NextRedirect rs)) [0..<length rs]")
    case None
    hence "CycleCheck origins limits rs d = d" by (simp add: CycleCheck_def FindCycle_rules)
    with None show ?thesis by (simp add: find_None_all)
  next
    case (Some i)
    hence "CycleCheck origins limits rs d = AddDiagnostic limits kRedirectCycle
        ''redirect_cycle'' (OriginSpan origins (res_id (rs ! i))) SevError None d"
      by (simp add: CycleCheck_def FindCycle_rules)
    moreover have "\<exists>i \<in> {0..<length rs}. cyclic_from (NextRedirect rs) i"
      using Some by (auto simp: find_Some_iff)
    ultimately show ?thesis using assms(1) by (simp add: AddDiagnostic_errors)
  qed
  thus ?thesis by (simp only: cyclic_from_edges [OF assms(2)])
qed

paragraph \<open>The whole check\<close>

text \<open>What a set of redirects has to satisfy, as a property of the set of its (source, target) pairs.\<close>

definition redirects_accepted :: "(string \<times> string) set \<Rightarrow> bool" where
  "redirects_accepted E \<longleftrightarrow>
     (\<forall>(s, t) \<in> E. \<not> overlap s t) \<and> single_valued E \<and> acyclic E \<and>
     successively (\<lambda>a b. \<not> overlap a b) (sorted_list_of_set (Domain E))"

lemma map_fst_sorted_list_of_set:
  fixes E :: "(string \<times> string) set"
  assumes "finite E"
  shows "sorted (map fst (sorted_list_of_set E))"
    "distinct (map fst (sorted_list_of_set E)) \<longleftrightarrow> single_valued E"
    "single_valued E \<Longrightarrow> map fst (sorted_list_of_set E) = sorted_list_of_set (Domain E)"
proof -
  let ?l = "sorted_list_of_set E"
  have set: "set ?l = E" using assms by simp
  have "sorted ?l" by simp
  hence "sorted_wrt (\<lambda>x y. fst x \<le> fst y) ?l"
    by (rule sorted_wrt_mono_rel [rotated]) (auto simp: less_eq_prod_def)
  thus s: "sorted (map fst ?l)" by (simp add: sorted_map)
  have "inj_on fst E \<longleftrightarrow> single_valued E" by (fastforce simp: inj_on_def single_valued_def)
  thus d: "distinct (map fst ?l) \<longleftrightarrow> single_valued E" by (simp add: distinct_map set)
  assume "single_valued E"
  moreover have "set (map fst ?l) = Domain E" using set by (auto simp: fst_eq_Domain)
  ultimately show "map fst ?l = sorted_list_of_set (Domain E)"
    using s d by (metis sorted_list_of_set.idem_if_sorted_distinct)
qed

lemma successively_sources:
  fixes E :: "(string \<times> string) set"
  assumes "finite E"
  shows "successively (\<lambda>a b. \<not> overlap (fst a) (fst b)) (sorted_list_of_set E) \<longleftrightarrow>
           single_valued E \<and> successively (\<lambda>a b. \<not> overlap a b) (sorted_list_of_set (Domain E))"
proof -
  let ?f = "map fst (sorted_list_of_set E)"
  have eq: "successively (\<lambda>a b. \<not> overlap (fst a) (fst b)) (sorted_list_of_set E) \<longleftrightarrow>
      successively (\<lambda>a b. \<not> overlap a b) ?f" by (simp add: successively_map)
  have "single_valued E" if "successively (\<lambda>a b. \<not> overlap a b) ?f"
  proof -
    from that have "successively (\<noteq>) ?f"
      by (rule successively_mono) (auto simp: overlap_def)
    hence "distinct ?f" by (rule sorted_successively_distinct [OF map_fst_sorted_list_of_set(1) [OF assms]])
    thus ?thesis using map_fst_sorted_list_of_set(2) [OF assms] by simp
  qed
  with eq map_fst_sorted_list_of_set(3) [OF assms] show ?thesis by metis
qed

lemma ValidateRedirects_frame:
  assumes "ValidateRedirects origins limits app d = (app', d')"
  shows "app' = app\<lparr>res_redirects := res_redirects app'\<rparr>"
    "map edge (res_redirects app') = sorted_list_of_set (redirect_edges app)"
    "redirect_edges app' = redirect_edges app"
    "extends limits d d'"
proof -
  let ?s = "sort_key RedirectKey (res_redirects app)"
  obtain u d1 where u: "UniqueRedirects origins limits [] d ?s = (u, d1)" by fastforce
  define d3 where "d3 = CycleCheck origins limits u (OverlapChecks origins limits None d1 u)"
  have app': "app' = app\<lparr>res_redirects := u\<rparr>" and
    d': "d' = (if res_file_picker app \<and> u = [] then AddDiagnostic limits kInvalidValue
        ''file_picker_requires_redirect'' (Span 0 0) SevError None d3 else d3)"
    using assms unfolding ValidateRedirects_def u d3_def by (simp_all add: Let_def)
  show "app' = app\<lparr>res_redirects := res_redirects app'\<rparr>" by (simp add: app')
  show edges: "map edge (res_redirects app') = sorted_list_of_set (redirect_edges app)"
    using UniqueRedirects_sorted [of origins limits d "res_redirects app"]
    by (simp add: u app' redirect_edges_def)
  have "edge ` set u = redirect_edges app"
    using arg_cong [OF edges, of set] by (simp add: app' redirect_edges_def)
  thus "redirect_edges app' = redirect_edges app" by (simp add: app' redirect_edges_def)
  have "extends limits d d1" using UniqueRedirects_diagnostics(1) [of limits d origins "[]" ?s] by (simp add: u)
  hence "extends limits d d3"
    unfolding d3_def by (blast intro: extends_trans OverlapChecks_extends CycleCheck_extends)
  thus "extends limits d d'" by (auto simp: d' intro: extends_trans)
qed

lemma ValidateRedirects_errors:
  assumes "ValidateRedirects origins limits app d = (app', d')" "length d' < max_diagnostics limits"
  shows "\<not> HasErrors d' \<longleftrightarrow> \<not> HasErrors d \<and> redirects_accepted (redirect_edges app) \<and>
           (res_file_picker app \<longrightarrow> redirect_edges app \<noteq> {})"
proof -
  let ?s = "sort_key RedirectKey (res_redirects app)"
  let ?E = "redirect_edges app"
  obtain u d1 where u: "UniqueRedirects origins limits [] d ?s = (u, d1)" by fastforce
  define d2 where "d2 = OverlapChecks origins limits None d1 u"
  define d3 where "d3 = CycleCheck origins limits u d2"
  have app': "app' = app\<lparr>res_redirects := u\<rparr>" and
    d': "d' = (if res_file_picker app \<and> u = [] then AddDiagnostic limits kInvalidValue
        ''file_picker_requires_redirect'' (Span 0 0) SevError None d3 else d3)"
    using assms(1) unfolding ValidateRedirects_def u d3_def d2_def by (simp_all add: Let_def)
  have fin: "finite ?E" by (simp add: redirect_edges_def)
  have edges: "map edge u = sorted_list_of_set ?E" and E: "edge ` set u = ?E"
    using ValidateRedirects_frame(2,3) [OF assms(1)] by (simp_all add: app' redirect_edges_def)
  have "length d3 \<le> length d'" by (simp add: d' extends_length [OF AddDiagnostic_extends])
  with assms(2) have l3: "length d3 < max_diagnostics limits" by simp
  moreover have "length d2 \<le> length d3" unfolding d3_def by (rule extends_length [OF CycleCheck_extends])
  ultimately have l2: "length d2 < max_diagnostics limits" by simp
  have e1: "HasErrors d1 \<longleftrightarrow> HasErrors d"
    using UniqueRedirects_diagnostics(2) [of origins limits "[]" d ?s] by (simp add: u)
  have e2: "HasErrors d2 \<longleftrightarrow> HasErrors d \<or> (\<exists>(s, t) \<in> ?E. overlap s t) \<or>
      \<not> (single_valued ?E \<and> successively (\<lambda>a b. \<not> overlap a b) (sorted_list_of_set (Domain ?E)))"
  proof -
    have "successively (\<lambda>a b. \<not> overlap (fst (edge a)) (fst (edge b))) u \<longleftrightarrow>
        successively (\<lambda>a b. \<not> overlap (fst a) (fst b)) (sorted_list_of_set ?E)"
      unfolding edges [symmetric] by (simp add: successively_map)
    moreover have "(\<exists>r \<in> set u. overlap (fst (edge r)) (snd (edge r))) \<longleftrightarrow> (\<exists>(s, t) \<in> ?E. overlap s t)"
      unfolding E [symmetric] by (simp add: case_prod_beta)
    ultimately show ?thesis
      using OverlapChecks_errors [of origins limits None d1 u] l2 e1
      by (simp add: d2_def successively_sources [OF fin])
  qed
  have e3: "HasErrors d3 \<longleftrightarrow> HasErrors d2 \<or> \<not> acyclic ?E" if "single_valued ?E"
  proof -
    have "distinct (map (fst \<circ> edge) u)"
      using map_fst_sorted_list_of_set(2) [OF fin] that by (simp flip: edges)
    with CycleCheck_errors [of origins limits u d2] l3 show ?thesis by (simp add: d3_def E)
  qed
  have "HasErrors d2 \<Longrightarrow> HasErrors d3" unfolding d3_def by (rule extends_errors [OF CycleCheck_extends])
  with e2 e3 have "\<not> HasErrors d3 \<longleftrightarrow> \<not> HasErrors d \<and> redirects_accepted ?E"
    unfolding redirects_accepted_def by blast
  moreover have "u = [] \<longleftrightarrow> ?E = {}" using E by auto
  ultimately show ?thesis using assms(2) by (auto simp: d' AddDiagnostic_errors split: if_splits)
qed

subsection \<open>What the deny checks decide\<close>

abbreviation deny_text :: "ResolvedDenyRule \<Rightarrow> string" where
  "deny_text rule \<equiv> path_bytes (res_deny_path rule)"

text \<open>The paths a set of deny rules denies: the rules' paths and everything below them.\<close>

definition denied_paths :: "string set \<Rightarrow> string set" where
  "denied_paths D = {x. \<exists>p \<in> D. path_prefix p x}"

lemma UniqueDeny_diagnostics:
  "extends limits d (snd (UniqueDeny origins limits u d rs))"
  "HasErrors (snd (UniqueDeny origins limits u d rs)) \<longleftrightarrow> HasErrors d"
  by (induction rs arbitrary: u d) (auto intro: extends_trans [OF AddDiagnostic_extends])

lemma UniqueDeny_subseq:
  "\<exists>v. fst (UniqueDeny origins limits u d rs) = u @ v \<and> subseq v rs"
proof (induction rs arbitrary: u d)
  case (Cons c rs)
  show ?case
  proof (cases "u \<noteq> [] \<and> IsSameOrAncestor (res_deny_path (last u)) (res_deny_path c)")
    case True
    then obtain d1 where "UniqueDeny origins limits u d (c # rs) = UniqueDeny origins limits u d1 rs" by simp
    with Cons.IH [of u d1] show ?thesis by (metis list_emb_Cons)
  next
    case False
    hence "UniqueDeny origins limits u d (c # rs) = UniqueDeny origins limits (u @ [c]) d rs"
      by (simp only: UniqueDeny.simps if_False)
    with Cons.IH [of "u @ [c]" d] obtain v where
      "fst (UniqueDeny origins limits u d (c # rs)) = u @ c # v" "subseq v rs" by auto
    thus ?thesis by (metis subseq_Cons2)
  qed
qed simp

lemma UniqueDeny_bounds:
  "set u \<subseteq> set (fst (UniqueDeny origins limits u d rs))"
  "set (fst (UniqueDeny origins limits u d rs)) \<subseteq> set u \<union> set rs"
  using UniqueDeny_subseq [of origins limits u d rs] by (auto dest: list_emb_set)

lemma UniqueDeny_covers:
  "r \<in> set rs \<Longrightarrow>
   \<exists>q \<in> set (fst (UniqueDeny origins limits u d rs)). path_prefix (deny_text q) (deny_text r)"
proof (induction rs arbitrary: u d)
  case (Cons c rs)
  let ?cover = "u \<noteq> [] \<and> IsSameOrAncestor (res_deny_path (last u)) (res_deny_path c)"
  obtain u1 d1 where unf: "UniqueDeny origins limits u d (c # rs) = UniqueDeny origins limits u1 d1 rs"
    and q: "\<exists>q \<in> set u1. path_prefix (deny_text q) (deny_text c)"
  proof (cases ?cover)
    case True
    thus ?thesis
      by (intro that [of u]) (auto simp: IsSameOrAncestor_prefix intro!: bexI [of _ "last u"])
  next
    case False
    thus ?thesis by (intro that [of "u @ [c]" d]) (auto simp only: UniqueDeny.simps if_False, auto)
  qed
  show ?case
  proof (cases "r = c")
    case True
    with q UniqueDeny_bounds(1) [of u1 origins limits d1 rs] show ?thesis unfolding unf by blast
  next
    case False
    with Cons.prems Cons.IH [of u1 d1] show ?thesis unfolding unf by simp
  qed
qed simp

lemma DenyConflict_sound:
  "DenyConflict deny r = Some c \<Longrightarrow>
   c \<in> set deny \<and> path_prefix (deny_text c) (path_bytes (res_source r))"
proof -
  assume a: "DenyConflict deny r = Some c"
  let ?i = "DenyLowerBound deny (path_bytes (res_source r))"
  have i: "?i \<le> length deny" by (simp add: DenyLowerBound_def length_takeWhile_le)
  from a consider "?i \<noteq> 0" "c = deny ! (?i - 1)" "IsSameOrAncestor (res_deny_path c) (res_source r)"
    | "?i < length deny" "c = deny ! ?i" "SamePath (res_source r) (res_deny_path c)"
    by (auto simp: DenyConflict_def Let_def split: if_splits)
  thus ?thesis
  proof cases
    case 1
    with i have "deny ! (?i - 1) \<in> set deny" by (intro nth_mem) simp
    with 1 show ?thesis by (simp add: IsSameOrAncestor_prefix)
  next
    case 2
    with nth_mem [OF 2(1)] show ?thesis by (simp add: SamePath_def)
  qed
qed

lemma DenyLowerBound_member:
  assumes "sorted (map deny_text deny)" "p \<in> deny_text ` set deny"
  shows "DenyLowerBound deny p < length deny \<and> deny_text (deny ! DenyLowerBound deny p) = p"
proof -
  let ?i = "DenyLowerBound deny p"
  have lt: "?i < length deny" using assms(2) by (auto simp: DenyLowerBound_def length_takeWhile_less)
  hence "\<not> deny_text (deny ! ?i) < p" unfolding DenyLowerBound_def by (rule nth_length_takeWhile)
  moreover from assms(2) obtain k where k: "k < length deny" "deny_text (deny ! k) = p"
    by (metis imageE in_set_conv_nth)
  have "?i \<le> k"
  proof (rule ccontr)
    assume "\<not> ?i \<le> k"
    hence "deny ! k \<in> set (takeWhile (\<lambda>d. deny_text d < p) deny)"
      by (metis DenyLowerBound_def in_set_conv_nth linorder_not_le takeWhile_nth)
    with k(2) show False by (auto dest: set_takeWhileD)
  qed
  hence "deny_text (deny ! ?i) \<le> p" using assms(1) k by (auto simp: sorted_iff_nth_mono dest!: spec)
  ultimately show ?thesis using lt by simp
qed

lemma DenyConflict_complete:
  assumes "sorted (map deny_text deny)" "path_bytes (res_source r) \<in> deny_text ` set deny"
  shows "DenyConflict deny r \<noteq> None"
  using DenyLowerBound_member [OF assms] by (simp add: DenyConflict_def Let_def SamePath_def)

lemma DenyChecks_extends: "extends limits d (DenyChecks origins limits deny d rs)"
proof (induction rs arbitrary: d)
  case (Cons r rs)
  have "extends limits d (case DenyConflict deny r of None \<Rightarrow> d
      | Some conflict \<Rightarrow> AddDiagnostic limits kRuleConflict ''deny_redirect_conflict''
          (OriginSpan origins (res_id r)) SevError (Some (OriginSpan origins (res_deny_id conflict))) d)"
    by (simp split: option.split)
  thus ?case by (simp only: DenyChecks.simps) (rule extends_trans [OF _ Cons.IH])
qed simp

lemma DenyChecks_errors:
  assumes "length (DenyChecks origins limits deny d rs) < max_diagnostics limits"
  shows "HasErrors (DenyChecks origins limits deny d rs) \<longleftrightarrow>
           HasErrors d \<or> (\<exists>r \<in> set rs. DenyConflict deny r \<noteq> None)"
  using assms
proof (induction rs arbitrary: d)
  case (Cons r rs)
  show ?case
  proof (cases "DenyConflict deny r")
    case None
    with Cons show ?thesis by simp
  next
    case (Some c)
    define d1 where "d1 = AddDiagnostic limits kRuleConflict ''deny_redirect_conflict''
          (OriginSpan origins (res_id r)) SevError (Some (OriginSpan origins (res_deny_id c))) d"
    have unf: "DenyChecks origins limits deny d (r # rs) = DenyChecks origins limits deny d1 rs"
      by (simp add: Some d1_def)
    have "length d1 < max_diagnostics limits"
      using Cons.prems unf extends_length [OF DenyChecks_extends [of limits d1 origins deny rs]] by simp
    hence "HasErrors d1" by (simp add: d1_def AddDiagnostic_errors)
    with Cons.IH [of d1] Cons.prems unf Some show ?thesis by auto
  qed
qed simp

lemma sort_DenyKey_texts: "sorted (map deny_text (sort_key DenyKey rs))"
proof -
  have "sorted (map DenyKey (sort_key DenyKey rs))" by simp
  hence "sorted_wrt (\<lambda>a b. DenyKey a \<le> DenyKey b) (sort_key DenyKey rs)" by (simp add: sorted_map)
  hence "sorted_wrt (\<lambda>a b. deny_text a \<le> deny_text b) (sort_key DenyKey rs)"
    by (rule sorted_wrt_mono_rel [rotated]) (auto simp: DenyKey_def less_eq_prod_def)
  thus ?thesis by (simp add: sorted_map)
qed

lemma ValidateDeny_result:
  assumes "ValidateDeny origins limits app d = (app', d')"
  shows "app' = app\<lparr>res_deny := res_deny app'\<rparr>"
    "set (res_deny app') \<subseteq> set (res_deny app)"
    "sorted (map deny_text (res_deny app'))"
    "denied_paths (deny_text ` set (res_deny app')) = denied_paths (deny_text ` set (res_deny app))"
    "extends limits d d'"
    "length d' < max_diagnostics limits \<Longrightarrow>
       HasErrors d' \<longleftrightarrow> HasErrors d \<or> (\<exists>r \<in> set (res_redirects app). DenyConflict (res_deny app') r \<noteq> None)"
proof -
  let ?s = "sort_key DenyKey (res_deny app)"
  obtain u d1 where u: "UniqueDeny origins limits [] d ?s = (u, d1)" by fastforce
  have app': "app' = app\<lparr>res_deny := u\<rparr>" and d': "d' = DenyChecks origins limits u d1 (res_redirects app)"
    using assms unfolding ValidateDeny_def u by (simp_all add: Let_def)
  show "app' = app\<lparr>res_deny := res_deny app'\<rparr>" by (simp add: app')
  have sub: "set u \<subseteq> set (res_deny app)" using UniqueDeny_bounds(2) [of origins limits "[]" d ?s] by (simp add: u)
  thus "set (res_deny app') \<subseteq> set (res_deny app)" by (simp add: app')
  have "subseq u ?s" using UniqueDeny_subseq [of origins limits "[]" d ?s] by (simp add: u)
  hence "sorted (map deny_text u)" by (rule sorted_wrt_subseq [OF subseq_map sort_DenyKey_texts])
  thus "sorted (map deny_text (res_deny app'))" by (simp add: app')
  have "\<exists>q \<in> set u. path_prefix (deny_text q) (deny_text r)" if "r \<in> set (res_deny app)" for r
    using UniqueDeny_covers [of r ?s origins limits "[]" d] that by (simp add: u)
  hence "denied_paths (deny_text ` set (res_deny app)) \<subseteq> denied_paths (deny_text ` set u)"
    unfolding denied_paths_def by (blast intro: path_prefix_trans)
  moreover have "denied_paths (deny_text ` set u) \<subseteq> denied_paths (deny_text ` set (res_deny app))"
    using sub unfolding denied_paths_def by blast
  ultimately show "denied_paths (deny_text ` set (res_deny app')) = denied_paths (deny_text ` set (res_deny app))"
    by (simp add: app')
  show "extends limits d d'"
    using UniqueDeny_diagnostics(1) [of limits d origins "[]" ?s]
    unfolding d' by (auto simp: u intro: extends_trans DenyChecks_extends)
  show "HasErrors d' \<longleftrightarrow> HasErrors d \<or> (\<exists>r \<in> set (res_redirects app). DenyConflict (res_deny app') r \<noteq> None)"
    if "length d' < max_diagnostics limits"
    using DenyChecks_errors [of origins limits u d1 "res_redirects app"] that
      UniqueDeny_diagnostics(2) [of origins limits "[]" d ?s] by (simp add: d' u app')
qed

subsection \<open>Samples\<close>

definition plain_path :: "string \<Rightarrow> NormalizedPath" where
  "plain_path s = \<lparr>path_bytes = s, component_offsets = map of_nat (0 # map Suc (filter (\<lambda>i. s ! i = CHR ''/'') [0..<length s]))\<rparr>"

definition sample_app :: "string list \<Rightarrow> (string \<times> string) list \<Rightarrow> ResolvedAppPolicy" where
  "sample_app denies redirects =
     \<lparr>res_package = ''com.example.app'', res_enabled = True, res_users = [0], res_processes = [],
      res_file_picker = False,
      res_deny = map (\<lambda>p. \<lparr>res_deny_id = 9, res_deny_path = plain_path p\<rparr>) denies,
      res_redirects = map (\<lambda>(s, t). \<lparr>res_id = 1, res_source = plain_path s, res_target = plain_path t\<rparr>) redirects\<rparr>"

definition chain_app :: ResolvedAppPolicy where
  "chain_app = sample_app [''Music/old'', ''Music'']
     [(''Download'', ''Archive''), (''DCIM'', ''Pictures/app''), (''Download'', ''Archive'')]"

subsection \<open>Properties\<close>

text \<open>
  Claim C15.  As long as the list of diagnostics has room, \<open>ValidateRedirects\<close> decides a property of the
  set \<open>E\<close> of (source, target) pairs alone, whatever the order, numbering and repetition of the rules: it
  leaves the pairs of \<open>E\<close>, each once and in order, and it adds no error exactly when no source overlaps
  its own target, no source has two targets, neighbouring sources in path order do not overlap, the
  redirects have no cycle of any length, and an application with the file picker has a redirect.
\<close>

theorem ValidateRedirects_exact:
  assumes "ValidateRedirects origins limits app d = (app', d')" "length d' < max_diagnostics limits"
  shows "map edge (res_redirects app') = sorted_list_of_set (redirect_edges app) \<and>
    (\<not> HasErrors d' \<longleftrightarrow>
       \<not> HasErrors d \<and> (\<forall>(s, t) \<in> redirect_edges app. \<not> overlap s t) \<and> single_valued (redirect_edges app) \<and>
       acyclic (redirect_edges app) \<and>
       successively (\<lambda>a b. \<not> overlap a b) (sorted_list_of_set (Domain (redirect_edges app))) \<and>
       (res_file_picker app \<longrightarrow> redirect_edges app \<noteq> {}))"
  using ValidateRedirects_frame(2) [OF assms(1)] ValidateRedirects_errors [OF assms]
  unfolding redirects_accepted_def by blast

lemma chain_app_redirects:
  "\<not> HasErrors (snd (ValidateRedirects Map.empty default_limits chain_app []))"
  "length (snd (ValidateRedirects Map.empty default_limits chain_app [])) < max_diagnostics default_limits"
  by code_simp+

theorem ValidateRedirects_exact_witness:
  "acyclic (redirect_edges chain_app) \<and> single_valued (redirect_edges chain_app)"
  using ValidateRedirects_exact [of Map.empty default_limits chain_app "[]", OF prod.collapse [symmetric]]
    chain_app_redirects by blast

text \<open>
  \<open>ValidateDeny\<close> may drop deny rules, but never changes which paths are denied: the rules it
  keeps come from the application, in path order, and the paths equal to or below one of them are the same
  as before.  When it adds no error and the list of diagnostics has room, no redirect starts at a path that
  is itself a kept deny rule.
\<close>

theorem ValidateDeny_preserves:
  assumes "ValidateDeny origins limits app d = (app', d')"
  shows "denied_paths (deny_text ` set (res_deny app')) = denied_paths (deny_text ` set (res_deny app)) \<and>
    set (res_deny app') \<subseteq> set (res_deny app) \<and> sorted (map deny_text (res_deny app')) \<and>
    (length d' < max_diagnostics limits \<longrightarrow> \<not> HasErrors d' \<longrightarrow>
       (\<forall>r \<in> set (res_redirects app). path_bytes (res_source r) \<notin> deny_text ` set (res_deny app')))"
proof -
  note f = ValidateDeny_result [OF assms]
  have "path_bytes (res_source r) \<notin> deny_text ` set (res_deny app')"
    if "length d' < max_diagnostics limits" "\<not> HasErrors d'" "r \<in> set (res_redirects app)" for r
    using f(6) [OF that(1)] that(2,3) DenyConflict_complete [OF f(3), of r] by blast
  with f(2-4) show ?thesis by blast
qed

theorem ValidateDeny_preserves_witness:
  "denied_paths (deny_text ` set (res_deny (fst (ValidateDeny Map.empty default_limits chain_app [])))) =
     denied_paths {''Music/old'', ''Music''} \<and>
   length (res_deny (fst (ValidateDeny Map.empty default_limits chain_app []))) = 1"
proof
  have "deny_text ` set (res_deny chain_app) = {''Music/old'', ''Music''}"
    by (simp add: chain_app_def sample_app_def plain_path_def)
  with ValidateDeny_preserves [of Map.empty default_limits chain_app "[]", OF prod.collapse [symmetric]]
  show "denied_paths (deny_text ` set (res_deny (fst (ValidateDeny Map.empty default_limits chain_app [])))) =
     denied_paths {''Music/old'', ''Music''}" by simp
  show "length (res_deny (fst (ValidateDeny Map.empty default_limits chain_app []))) = 1" by code_simp
qed


end
