(* ===== verification/PG_Build.thy ===== *)
theory PG_Build
  imports PG_Conflicts
begin

unbundle bit_operations_syntax

text \<open>
  The rules compiler from the decoded document on: the normal form of rule paths, the limit on expanded
  rules, the meaning of an application's rules and its preservation by resolution and canonicalisation,
  the encoded file and its verification, and admission against a device's capabilities.
\<close>

subsection \<open>Rule paths\<close>

definition valid_rule_component :: "string \<Rightarrow> bool" where
  "valid_rule_component c \<longleftrightarrow> c \<noteq> [] \<and> c \<noteq> ''.'' \<and> c \<noteq> ''..'' \<and> \<not> list_ex IsControlByte c"

text \<open>The components of a rule path.\<close>

abbreviation rule_components :: "string \<Rightarrow> string list" where
  "rule_components \<equiv> trimmed_split (CHR ''/'')"

fun component_starts :: "nat \<Rightarrow> string list \<Rightarrow> nat list" where
  "component_starts b [] = []"
| "component_starts b (c # cs) = b # component_starts (b + length c + 1) cs"

lemmas rule_components_unfold = trimmed_split_unfold [where d = "CHR ''/''"]

lemma NormalizeLoop_spec:
  "NormalizeLoop m b rest offsets =
     (let cs = rule_components rest in
      if list_all valid_rule_component cs \<and> (cs = [] \<or> length offsets + length cs \<le> m) \<and>
         list_all (\<lambda>k. k \<le> 65535) (component_starts b cs)
      then Some (offsets @ map of_nat (component_starts b cs)) else None)"
proof (induction "length rest" arbitrary: b rest offsets rule: less_induct)
  case less
  show ?case
  proof (cases "rest = []")
    case True
    thus ?thesis by (subst NormalizeLoop.simps) simp
  next
    case False
    let ?c = "takeWhile (\<lambda>c. c \<noteq> CHR ''/'') rest"
    show ?thesis
    proof (cases "dropWhile (\<lambda>c. c \<noteq> CHR ''/'') rest")
      case Nil
      show ?thesis
        by (subst NormalizeLoop.simps, subst rule_components_unfold [OF False])
          (auto simp: False Nil Let_def valid_rule_component_def)
    next
      case (Cons x r)
      have len: "length r < length rest" by (rule length_dropWhile_Cons [OF Cons])
      show ?thesis
        by (subst NormalizeLoop.simps, subst rule_components_unfold [OF False])
          (auto simp: False Cons Let_def valid_rule_component_def less [OF len])
    qed
  qed
qed

lemma component_starts_locate:
  "list_all2 (\<lambda>k c. take (length c) (drop k (pre @ rest)) = c)
     (component_starts (length pre) (rule_components rest)) (rule_components rest)"
proof (induction "length rest" arbitrary: pre rest rule: less_induct)
  case less
  show ?case
  proof (cases "rest = []")
    case False
    let ?c = "takeWhile (\<lambda>c. c \<noteq> CHR ''/'') rest"
    have here: "take (length ?c) rest = ?c" by (metis append_eq_conv_conj takeWhile_dropWhile_id)
    show ?thesis
    proof (cases "dropWhile (\<lambda>c. c \<noteq> CHR ''/'') rest")
      case Nil
      show ?thesis by (subst (1 2) rule_components_unfold [OF False]) (simp add: Nil here)
    next
      case (Cons x r)
      have split: "pre @ rest = (pre @ ?c @ [x]) @ r"
        using takeWhile_dropWhile_id [of "\<lambda>c. c \<noteq> CHR ''/''" rest] by (simp add: Cons)
      have "list_all2 (\<lambda>k c. take (length c) (drop k (pre @ rest)) = c)
          (component_starts (length (pre @ ?c @ [x])) (rule_components r)) (rule_components r)"
        unfolding split by (rule less) (rule length_dropWhile_Cons [OF Cons])
      thus ?thesis by (subst (1 2) rule_components_unfold [OF False]) (simp add: Cons here)
    qed
  qed simp
qed

lemma NormalizeRulePath_eq:
  "NormalizeRulePath input limits =
     (let cs = rule_components input; starts = component_starts 0 cs in
      if input \<noteq> [] \<and> length input \<le> max_path_bytes limits \<and> length cs \<le> max_path_components limits \<and>
         list_all valid_rule_component cs \<and> list_all (\<lambda>k. k \<le> 65535) starts
      then Some \<lparr>path_bytes = input, component_offsets = map of_nat starts\<rparr> else None)"
proof (cases "input = []")
  case False
  have ne: "rule_components input \<noteq> []" using rule_components_unfold [OF False] by simp
  have "hd input \<noteq> CHR ''/''" if "list_all valid_rule_component (rule_components input)"
    using that rule_components_unfold [OF False] False
    by (cases input) (auto simp: valid_rule_component_def)
  with False ne show ?thesis
    by (auto simp: NormalizeRulePath_def NormalizeLoop_spec Let_def)
qed (simp add: NormalizeRulePath_def)

subsection \<open>Resource limits\<close>

lemma ExceedsComponents_count:
  "ExceedsComponents limit n s \<longleftrightarrow> n + length (filter (\<lambda>c. c = CHR ''/'') s) > limit"
  by (induction s arbitrary: n) auto

definition expanded_rules :: "AppRules \<Rightarrow> nat" where
  "expanded_rules app =
     max (length (rules_users app)) 1 * (length (rules_deny app) + length (rules_redirects app)) *
     max (length (rules_processes app)) 1"

lemma AddExpanded_spec:
  "AddExpanded amount limit n = (if n + amount \<le> limit then Some (n + amount) else None)"
  by (auto simp: AddExpanded_def)

lemma ValidateExpandedLoop_spec:
  assumes "n \<le> max_expanded_rules limits"
  shows "if n + sum_list (map expanded_rules (filter rules_enabled as)) \<le> max_expanded_rules limits
     then ValidateExpandedLoop origins limits n d as = (True, d)
     else \<exists>span. ValidateExpandedLoop origins limits n d as =
            (False, AddDiagnostic limits kResourceLimit ''expanded_rule_limit'' span SevError None d)"
  using assms
proof (induction as arbitrary: n)
  case (Cons app as)
  let ?limit = "max_expanded_rules limits"
  let ?us = "max (length (rules_users app)) 1"
  let ?procs = "max (length (rules_processes app)) 1"
  let ?rules = "length (rules_deny app) + length (rules_redirects app)"
  consider (off) "\<not> rules_enabled app" | (none) "rules_enabled app" "?rules = 0"
    | (fit) "rules_enabled app" "?rules \<noteq> 0" "n + expanded_rules app \<le> ?limit"
    | (over) "rules_enabled app" "?rules \<noteq> 0" "n + expanded_rules app > ?limit" by linarith
  thus ?case
  proof cases
    case off
    with Cons show ?thesis by simp
  next
    case none
    moreover from none(2) have "expanded_rules app = 0" by (simp add: expanded_rules_def)
    ultimately show ?thesis using Cons by simp
  next
    case fit
    have p: "?us * ?rules * ?procs \<le> ?limit" using fit(3) by (simp add: expanded_rules_def)
    hence "\<not> ?us * ?rules > ?limit div ?procs"
      using less_eq_div_iff_mult_less_eq [of ?procs "?us * ?rules" ?limit] by (simp add: not_less)
    moreover have "?us * ?rules * 1 \<le> ?us * ?rules * ?procs" by (intro mult_le_mono2) simp
    with p have "?us * ?rules \<le> ?limit" by linarith
    hence "\<not> ?us > ?limit div ?rules"
      using fit(2) less_eq_div_iff_mult_less_eq [of ?rules ?us ?limit] by linarith
    moreover have "AddExpanded (?us * ?rules * ?procs) ?limit n = Some (n + expanded_rules app)"
      using fit(3) by (simp add: AddExpanded_spec expanded_rules_def)
    ultimately have "ValidateExpandedLoop origins limits n d (app # as) =
        ValidateExpandedLoop origins limits (n + expanded_rules app) d as"
      using fit(1,2) by (simp only: ValidateExpandedLoop.simps Let_def if_False not_True_eq_False option.case)
    with Cons.IH [OF fit(3)] fit(1) show ?thesis by (simp add: add.assoc)
  next
    case over
    hence "AddExpanded (?us * ?rules * ?procs) ?limit n = None"
      by (simp add: AddExpanded_spec expanded_rules_def)
    moreover have "\<not> n + sum_list (map expanded_rules (filter rules_enabled (app # as))) \<le> ?limit"
      using over by simp
    ultimately show ?thesis using over(1,2) by (auto simp: Let_def)
  qed
qed simp

subsection \<open>Loops that resolve items or report errors\<close>

text \<open>
  The contract of the two loops that resolve the paths of an application's rules: an item that resolves is
  appended and reports nothing, every other item reports one error and is left out.
\<close>

locale resolving_loop =
  fixes limits :: RulesLimits
    and item :: "'a \<Rightarrow> 'b option"
    and loop :: "Diagnostic list \<Rightarrow> 'a list \<Rightarrow> 'b list \<times> Diagnostic list"
  assumes loop_Nil: "loop d [] = ([], d)"
    and loop_error: "item r = None \<Longrightarrow> \<exists>code key span.
      loop d (r # rs) = loop (AddDiagnostic limits code key span SevError None d) rs"
    and loop_item: "item r = Some y \<Longrightarrow> loop d (r # rs) = (y # fst (loop d rs), snd (loop d rs))"
begin

lemma loop_extends: "extends limits d (snd (loop d rs))"
proof (induction rs arbitrary: d)
  case (Cons r rs)
  show ?case
  proof (cases "item r")
    case None
    from loop_error [OF this, of d rs] obtain code key span where
      "loop d (r # rs) = loop (AddDiagnostic limits code key span SevError None d) rs" by blast
    with Cons.IH AddDiagnostic_extends show ?thesis by (metis extends_trans)
  next
    case (Some y)
    with Cons.IH show ?thesis by (simp add: loop_item)
  qed
qed (simp add: loop_Nil)

lemma loop_clean:
  assumes "\<not> HasErrors (snd (loop d rs))" "length (snd (loop d rs)) < max_diagnostics limits"
  shows "snd (loop d rs) = d \<and> map item rs = map Some (fst (loop d rs))"
  using assms
proof (induction rs arbitrary: d)
  case (Cons r rs)
  show ?case
  proof (cases "item r")
    case None
    from loop_error [OF this, of d rs] obtain code key span where
      e: "loop d (r # rs) = loop (AddDiagnostic limits code key span SevError None d) rs" by blast
    have "HasErrors (snd (loop d (r # rs)))"
      using AddDiagnostic_error_visible loop_extends Cons.prems(2) unfolding e by blast
    with Cons.prems(1) show ?thesis ..
  next
    case (Some y)
    with Cons show ?thesis by (simp add: loop_item)
  qed
qed (simp add: loop_Nil)

end

definition deny_item :: "RulesLimits \<Rightarrow> DenyRule \<Rightarrow> ResolvedDenyRule option" where
  "deny_item limits rule =
     (if ExceedsPathLimits (deny_path rule) limits then None
      else map_option (\<lambda>p. \<lparr>res_deny_id = deny_id rule, res_deny_path = p\<rparr>)
             (NormalizeRulePath (deny_path rule) limits))"

definition redirect_item :: "RulesLimits \<Rightarrow> RedirectRule \<Rightarrow> ResolvedRedirectRule option" where
  "redirect_item limits rule =
     (if ExceedsPathLimits (redirect_source rule) limits \<or> ExceedsPathLimits (redirect_target rule) limits
      then None
      else case (NormalizeRulePath (redirect_source rule) limits,
                 NormalizeRulePath (redirect_target rule) limits) of
             (Some a, Some b) \<Rightarrow> Some \<lparr>res_id = redirect_id rule, res_source = a, res_target = b\<rparr>
           | _ \<Rightarrow> None)"

interpretation deny_loop: resolving_loop limits "deny_item limits" "ResolveDeny origins limits"
  by unfold_locales (auto simp: deny_item_def split: if_splits option.splits prod.splits)

interpretation redirect_loop: resolving_loop limits "redirect_item limits" "ResolveRedirects origins limits"
  by unfold_locales (auto simp: redirect_item_def split: if_splits option.splits prod.splits)

lemma deny_item_text: "deny_item limits rule = Some r \<Longrightarrow> deny_text r = deny_path rule"
  by (auto simp: deny_item_def dest: NormalizeRulePath_bytes split: if_splits)

lemma redirect_item_edge:
  "redirect_item limits rule = Some r \<Longrightarrow> edge r = (redirect_source rule, redirect_target rule)"
  by (auto simp: redirect_item_def edge_def dest: NormalizeRulePath_bytes split: if_splits option.splits)

subsection \<open>The meaning of an application's rules\<close>

text \<open>
  What an application's rules mean, whatever their order, numbering and redundancy: the package, its user
  and process scope, the file picker flag, the redirected pairs and the paths denied.
\<close>

record rules_meaning =
  m_package :: string
  m_users :: "int set"
  m_processes :: "string set"
  m_file_picker :: bool
  m_redirects :: "(string \<times> string) set"
  m_denied :: "string set"

definition source_meaning :: "AppRules \<Rightarrow> rules_meaning" where
  "source_meaning app =
     \<lparr>m_package = rules_package app, m_users = set (rules_users app),
      m_processes = set (rules_processes app), m_file_picker = rules_file_picker app,
      m_redirects = (\<lambda>r. (redirect_source r, redirect_target r)) ` set (rules_redirects app),
      m_denied = denied_paths (deny_path ` set (rules_deny app))\<rparr>"

definition resolved_meaning :: "ResolvedAppPolicy \<Rightarrow> rules_meaning" where
  "resolved_meaning app =
     \<lparr>m_package = res_package app, m_users = set (res_users app),
      m_processes = set (res_processes app), m_file_picker = res_file_picker app,
      m_redirects = redirect_edges app, m_denied = denied_paths (deny_text ` set (res_deny app))\<rparr>"

definition canonical_meaning :: "CanonicalAppPolicy \<Rightarrow> rules_meaning" where
  "canonical_meaning app =
     \<lparr>m_package = can_package app, m_users = set (can_users app),
      m_processes = set (can_processes app), m_file_picker = can_file_picker app,
      m_redirects = (\<lambda>r. (path_bytes (can_source r), path_bytes (can_target r))) ` set (can_redirects app),
      m_denied = denied_paths (path_bytes ` set (can_deny app))\<rparr>"

lemma CanonicalizeApp_meaning: "canonical_meaning (CanonicalizeApp app) = resolved_meaning app"
  by (simp add: canonical_meaning_def CanonicalizeApp_def resolved_meaning_def redirect_edges_def edge_def
      image_image)

lemma ResolveApp_extends: "extends limits d (snd (ResolveApp origins limits d app))"
proof -
  obtain deny d1 where 1: "ResolveDeny origins limits d (rules_deny app) = (deny, d1)" by fastforce
  obtain red d2 where 2: "ResolveRedirects origins limits d1 (rules_redirects app) = (red, d2)" by fastforce
  define a0 where "a0 = \<lparr>res_package = rules_package app, res_enabled = rules_enabled app,
                 res_users = rules_users app, res_processes = rules_processes app,
                 res_file_picker = rules_file_picker app, res_deny = deny, res_redirects = red\<rparr>"
  obtain a1 d3 where 3: "ValidateRedirects origins limits a0 d2 = (a1, d3)" by fastforce
  obtain a2 d4 where 4: "ValidateDeny origins limits a1 d3 = (a2, d4)" by fastforce
  have "ResolveApp origins limits d app = (a2, d4)"
    by (simp add: ResolveApp_def 1 2 3 4 flip: a0_def)
  moreover have "extends limits d d1" using deny_loop.loop_extends [of limits d origins "rules_deny app"] by (simp add: 1)
  moreover have "extends limits d1 d2" using redirect_loop.loop_extends [of limits d1 origins "rules_redirects app"] by (simp add: 2)
  ultimately show ?thesis
    using ValidateRedirects_frame(4) [OF 3] ValidateDeny_result(5) [OF 4] by (metis extends_trans snd_conv)
qed

lemma ResolveApp_names:
  assumes "ResolveApp origins limits d app = (app', d')"
  shows "res_package app' = rules_package app" "res_processes app' = rules_processes app"
proof -
  obtain deny d1 where 1: "ResolveDeny origins limits d (rules_deny app) = (deny, d1)" by fastforce
  obtain red d2 where 2: "ResolveRedirects origins limits d1 (rules_redirects app) = (red, d2)" by fastforce
  define a0 where "a0 = \<lparr>res_package = rules_package app, res_enabled = rules_enabled app,
                 res_users = rules_users app, res_processes = rules_processes app,
                 res_file_picker = rules_file_picker app, res_deny = deny, res_redirects = red\<rparr>"
  obtain a1 d3 where 3: "ValidateRedirects origins limits a0 d2 = (a1, d3)" by fastforce
  have 4: "ValidateDeny origins limits a1 d3 = (app', d')"
    using assms by (simp add: ResolveApp_def 1 2 3 flip: a0_def)
  have "a1 = a0\<lparr>res_redirects := res_redirects a1\<rparr>" "app' = a1\<lparr>res_deny := res_deny app'\<rparr>"
    using ValidateRedirects_frame(1) [OF 3] ValidateDeny_result(1) [OF 4] .
  hence "res_package app' = res_package a0" "res_processes app' = res_processes a0"
    by (metis ResolvedAppPolicy.select_convs(1,4) ResolvedAppPolicy.surjective ResolvedAppPolicy.update_convs(6,7))+
  thus "res_package app' = rules_package app" "res_processes app' = rules_processes app" by (simp_all add: a0_def)
qed

lemma ResolveApp_clean:
  assumes "ResolveApp origins limits d app = (app', d')" "\<not> HasErrors d'" "length d' < max_diagnostics limits"
  shows "resolved_meaning app' = source_meaning app" "res_enabled app' = rules_enabled app"
    "redirects_accepted (redirect_edges app')"
    "res_file_picker app' \<longrightarrow> redirect_edges app' \<noteq> {}"
    "\<forall>r \<in> set (res_redirects app'). path_bytes (res_source r) \<notin> deny_text ` set (res_deny app')"
    "res_users app' = rules_users app" "res_processes app' = rules_processes app"
proof -
  obtain deny d1 where 1: "ResolveDeny origins limits d (rules_deny app) = (deny, d1)" by fastforce
  obtain red d2 where 2: "ResolveRedirects origins limits d1 (rules_redirects app) = (red, d2)" by fastforce
  define a0 where "a0 = \<lparr>res_package = rules_package app, res_enabled = rules_enabled app,
                 res_users = rules_users app, res_processes = rules_processes app,
                 res_file_picker = rules_file_picker app, res_deny = deny, res_redirects = red\<rparr>"
  obtain a1 d3 where 3: "ValidateRedirects origins limits a0 d2 = (a1, d3)" by fastforce
  have 4: "ValidateDeny origins limits a1 d3 = (app', d')"
    using assms(1) by (simp add: ResolveApp_def 1 2 3 flip: a0_def)
  note f3 = ValidateRedirects_frame [OF 3] and f4 = ValidateDeny_result [OF 4]
  note c3 = extends_clean [OF f4(5) assms(2,3)]
  note c2 = extends_clean [OF f3(4) conjunct1 [OF c3] conjunct2 [OF c3]]
  have e2: "extends limits d1 d2" using redirect_loop.loop_extends [of limits d1 origins "rules_redirects app"] by (simp add: 2)
  note c1 = extends_clean [OF e2 conjunct1 [OF c2] conjunct2 [OF c2]]
  have "map deny_text deny = map deny_path (rules_deny app)"
    using deny_loop.loop_clean [of origins limits d "rules_deny app"] c1
    by (intro map_item_image [where item = "deny_item limits"]) (simp_all add: 1 deny_item_text)
  hence deny: "deny_text ` set deny = deny_path ` set (rules_deny app)" by (metis list.set_map)
  have "map edge red = map (\<lambda>r. (redirect_source r, redirect_target r)) (rules_redirects app)"
    using redirect_loop.loop_clean [of origins limits d1 "rules_redirects app"] c2
    by (intro map_item_image [where item = "redirect_item limits"]) (simp_all add: 2 redirect_item_edge)
  hence red: "edge ` set red = (\<lambda>r. (redirect_source r, redirect_target r)) ` set (rules_redirects app)"
    by (metis list.set_map)
  have a1: "a1 = a0\<lparr>res_redirects := res_redirects a1\<rparr>" and app': "app' = a1\<lparr>res_deny := res_deny app'\<rparr>"
    using f3(1) f4(1) .
  have edges: "redirect_edges app' = redirect_edges a0" using f3(3) app' by (metis redirect_edges_def
        ResolvedAppPolicy.surjective ResolvedAppPolicy.update_convs(6) ResolvedAppPolicy.select_convs(7))
  have fields: "res_package app' = rules_package app" "res_users app' = rules_users app"
    "res_processes app' = rules_processes app" "res_file_picker app' = rules_file_picker app"
    "res_enabled app' = rules_enabled app" "res_redirects app' = res_redirects a1" "res_deny a1 = deny"
    using arg_cong [OF app', of res_package] arg_cong [OF app', of res_users] arg_cong [OF app', of res_processes]
      arg_cong [OF app', of res_file_picker] arg_cong [OF app', of res_enabled] arg_cong [OF app', of res_redirects]
      arg_cong [OF a1, of res_package] arg_cong [OF a1, of res_users] arg_cong [OF a1, of res_processes]
      arg_cong [OF a1, of res_file_picker] arg_cong [OF a1, of res_enabled] arg_cong [OF a1, of res_deny]
    by (simp_all add: a0_def)
  show "resolved_meaning app' = source_meaning app"
    using f4(4) edges red deny by (simp add: resolved_meaning_def source_meaning_def fields redirect_edges_def a0_def)
  show "res_enabled app' = rules_enabled app" "res_users app' = rules_users app"
    "res_processes app' = rules_processes app" by (fact fields)+
  from ValidateRedirects_errors [OF 3] c3
  have "redirects_accepted (redirect_edges a0)" "res_file_picker a0 \<longrightarrow> redirect_edges a0 \<noteq> {}" by auto
  thus "redirects_accepted (redirect_edges app')" "res_file_picker app' \<longrightarrow> redirect_edges app' \<noteq> {}"
    by (simp_all add: edges fields a0_def)
  show "\<forall>r \<in> set (res_redirects app'). path_bytes (res_source r) \<notin> deny_text ` set (res_deny app')"
  proof
    fix r assume "r \<in> set (res_redirects app')"
    hence "DenyConflict (res_deny app') r = None" using f4(6) [OF assms(3)] assms(2) fields(6) by auto
    thus "path_bytes (res_source r) \<notin> deny_text ` set (res_deny app')"
      using DenyConflict_complete [OF f4(3), of r] by auto
  qed
qed

lemma ResolveApps_extends: "extends limits d (snd (ResolveApps origins limits d as))"
proof (induction as arbitrary: d)
  case (Cons app as)
  obtain a d1 where 1: "ResolveApp origins limits d app = (a, d1)" by fastforce
  have "extends limits d d1" using ResolveApp_extends [of limits d origins app] by (simp add: 1)
  with Cons.IH [of d1] show ?case by (auto simp: 1 split: prod.splits intro: extends_trans)
qed simp

lemma ResolveApps_clean:
  assumes "ResolveApps origins limits d as = (res, d')" "\<not> HasErrors d'" "length d' < max_diagnostics limits"
  shows "list_all2 (\<lambda>r app. resolved_meaning r = source_meaning app \<and> res_enabled r = rules_enabled app \<and>
      res_users r = rules_users app \<and> res_processes r = rules_processes app \<and>
      redirects_accepted (redirect_edges r) \<and> (res_file_picker r \<longrightarrow> redirect_edges r \<noteq> {}) \<and>
      (\<forall>x \<in> set (res_redirects r). path_bytes (res_source x) \<notin> deny_text ` set (res_deny r))) res as"
  using assms(1)
proof (induction as arbitrary: d res)
  case (Cons app as)
  obtain a d1 where 1: "ResolveApp origins limits d app = (a, d1)" by fastforce
  obtain rest where 2: "ResolveApps origins limits d1 as = (rest, d')" "res = a # rest"
    using Cons.prems by (auto simp: 1 split: prod.splits)
  have "extends limits d1 d'" using ResolveApps_extends [of limits d1 origins as] by (simp add: 2)
  with assms(2,3) have "\<not> HasErrors d1" "length d1 < max_diagnostics limits" by (auto dest: extends_clean)
  note clean = ResolveApp_clean [OF 1 this]
  show ?case using Cons.IH [OF 2(1)] clean by (simp add: 2(2))
qed simp

lemma CompileRules_success:
  assumes "build_ok (CompileRules parsed limits)" "parsed_document parsed = Some doc"
  obtains resolved d2 blob where
    "ResolveApps (parsed_origins parsed) limits (parsed_diagnostics parsed) (doc_apps doc) = (resolved, d2)"
    "\<not> HasErrors d2" "build_diagnostics (CompileRules parsed limits) = d2"
    "build_canonical (CompileRules parsed limits) =
       Some (CanonicalizePolicy \<lparr>res_allow_legacy_mount = doc_allow_legacy_mount doc, res_apps = resolved\<rparr>)"
    "EncodeAndVerify (CanonicalizePolicy
       \<lparr>res_allow_legacy_mount = doc_allow_legacy_mount doc, res_apps = resolved\<rparr>) = Some blob"
    "build_blob (CompileRules parsed limits) = Some blob"
    "build_requirements (CompileRules parsed limits) =
       Requirements (CanonicalizePolicy \<lparr>res_allow_legacy_mount = doc_allow_legacy_mount doc, res_apps = resolved\<rparr>)"
    "sum_list (map expanded_rules (filter rules_enabled (doc_apps doc))) \<le> max_expanded_rules limits"
proof -
  let ?d0 = "parsed_diagnostics parsed" and ?o = "parsed_origins parsed"
  obtain within d1 where v: "ValidateExpandedRuleLimit doc ?o limits ?d0 = (within, d1)" by fastforce
  obtain resolved d2 where r: "ResolveApps ?o limits d1 (doc_apps doc) = (resolved, d2)" by fastforce
  define c where "c = CanonicalizePolicy \<lparr>res_allow_legacy_mount = doc_allow_legacy_mount doc, res_apps = resolved\<rparr>"
  define out0 where "out0 = \<lparr>build_resolved = None, build_canonical = None,
      build_requirements = no_requirements, build_blob = None, build_diagnostics = ?d0, build_origins = ?o\<rparr>"
  have out0: "build_diagnostics out0 = ?d0" "build_canonical out0 = None" "build_resolved out0 = None"
    "build_blob out0 = None" by (simp_all add: out0_def)
  have eq: "CompileRules parsed limits =
      (if HasErrors ?d0 then out0
       else if \<not> within then out0\<lparr>build_diagnostics := d1\<rparr>
       else if HasErrors d2 then out0\<lparr>build_resolved := Some \<lparr>res_allow_legacy_mount = doc_allow_legacy_mount doc,
              res_apps = resolved\<rparr>, build_diagnostics := d2\<rparr>
       else case EncodeAndVerify c of
          None \<Rightarrow> out0\<lparr>build_resolved := Some \<lparr>res_allow_legacy_mount = doc_allow_legacy_mount doc,
                  res_apps = resolved\<rparr>, build_requirements := Requirements c,
                  build_diagnostics := AddDiagnostic limits kPolicyEncode ''policy_encode_failed'' (Span 0 0)
                                    SevError None d2\<rparr>
        | Some blob \<Rightarrow> out0\<lparr>build_resolved := Some \<lparr>res_allow_legacy_mount = doc_allow_legacy_mount doc,
                  res_apps = resolved\<rparr>, build_requirements := Requirements c,
                  build_diagnostics := d2, build_canonical := Some c, build_blob := Some blob\<rparr>)"
    unfolding CompileRules_def assms(2) Let_def option.case out0_def [symmetric] out0(1) v prod.case r
      c_def [symmetric] ..
  have e0: "\<not> HasErrors ?d0" using assms(1) by (auto simp: eq build_ok_def out0)
  have w: within using assms(1) e0 by (cases within) (auto simp: eq build_ok_def out0)
  have e2: "\<not> HasErrors d2" using assms(1) e0 w by (auto simp: eq build_ok_def)
  have b: "EncodeAndVerify c \<noteq> None" using assms(1) e0 w e2
    by (cases "EncodeAndVerify c") (auto simp: eq build_ok_def out0)
  from b obtain blob where blob: "EncodeAndVerify c = Some blob" by auto
  have sum: "sum_list (map expanded_rules (filter rules_enabled (doc_apps doc))) \<le> max_expanded_rules limits"
    and d1: "d1 = ?d0"
    using ValidateExpandedLoop_spec [of 0 limits "doc_apps doc" ?o ?d0] v w
    by (auto simp: ValidateExpandedRuleLimit_def split: if_splits)
  show ?thesis
    by (rule that [of resolved d2 blob])
      (use e0 w e2 blob sum r d1 in \<open>simp_all add: eq flip: c_def\<close>)
qed

lemma compiled_blob:
  assumes "build_ok (CompileRules parsed limits)"
    "build_canonical (CompileRules parsed limits) = Some canonical"
    "build_blob (CompileRules parsed limits) = Some blob"
  shows "EncodeAndVerify canonical = Some blob"
proof -
  obtain doc where doc: "parsed_document parsed = Some doc"
    using assms(1) by (cases "parsed_document parsed") (auto simp: CompileRules_def build_ok_def)
  from assms(1) doc show ?thesis by (rule CompileRules_success) (use assms(2,3) in simp)
qed

lemma compile_meaning:
  assumes "build_ok (CompileRules parsed limits)" "parsed_document parsed = Some doc"
    "length (build_diagnostics (CompileRules parsed limits)) < max_diagnostics limits"
    "build_canonical (CompileRules parsed limits) = Some canonical"
  shows "mset (map canonical_meaning (can_apps canonical)) =
           mset (map source_meaning (filter rules_enabled (doc_apps doc)))"
    "sorted (map can_package (can_apps canonical))"
    "can_allow_legacy_mount canonical = doc_allow_legacy_mount doc"
    "list_all (\<lambda>app. redirects_accepted (m_redirects (canonical_meaning app))) (can_apps canonical)"
proof -
  from assms(1,2) obtain resolved d2 blob where
    r: "ResolveApps (parsed_origins parsed) limits (parsed_diagnostics parsed) (doc_apps doc) = (resolved, d2)"
    and d2: "\<not> HasErrors d2" "build_diagnostics (CompileRules parsed limits) = d2"
    and c: "canonical = CanonicalizePolicy \<lparr>res_allow_legacy_mount = doc_allow_legacy_mount doc, res_apps = resolved\<rparr>"
    using assms(4) by (metis CompileRules_success option.inject)
  have clean: "list_all2 (\<lambda>r app. resolved_meaning r = source_meaning app \<and> res_enabled r = rules_enabled app \<and>
      res_users r = rules_users app \<and> res_processes r = rules_processes app \<and>
      redirects_accepted (redirect_edges r) \<and> (res_file_picker r \<longrightarrow> redirect_edges r \<noteq> {}) \<and>
      (\<forall>x \<in> set (res_redirects r). path_bytes (res_source x) \<notin> deny_text ` set (res_deny r))) resolved (doc_apps doc)"
    using ResolveApps_clean [OF r d2(1)] assms(3) d2(2) by simp
  hence "list_all2 (\<lambda>r app. resolved_meaning r = source_meaning app \<and> res_enabled r = rules_enabled app)
      resolved (doc_apps doc)" by (rule list_all2_mono) simp
  from mset_list_all2 [OF this] show "mset (map canonical_meaning (can_apps canonical)) =
      mset (map source_meaning (filter rules_enabled (doc_apps doc)))"
    by (simp add: c CanonicalizePolicy_def CanonicalizeApp_meaning comp_def image_mset.compositionality)
  show "sorted (map can_package (can_apps canonical))"
    "can_allow_legacy_mount canonical = doc_allow_legacy_mount doc" by (simp_all add: c CanonicalizePolicy_def)
  have "redirects_accepted (redirect_edges r)" if "r \<in> set resolved" for r
    using clean that by (fastforce simp: list_all2_conv_all_nth in_set_conv_nth)
  thus "list_all (\<lambda>app. redirects_accepted (m_redirects (canonical_meaning app))) (can_apps canonical)"
    by (auto simp: c CanonicalizePolicy_def list_all_iff CanonicalizeApp_meaning resolved_meaning_def)
qed

subsection \<open>The encoded policy\<close>

lemma CanonicalizeApps_each:
  "CanonicalizeApps packages as = Inr as' \<Longrightarrow> list_all2 (\<lambda>a a'. ValidatePolicy a = Inr a') as as'"
proof (induction packages as arbitrary: as' rule: CanonicalizeApps.induct)
  case (2 packages app rest)
  from 2(2) obtain app' rest' where
    new: "package app \<notin> packages" and v: "ValidatePolicy app = Inr app'"
    and m: "media_compat app' = MediaOff"
    and acts: "list_all (\<lambda>r. mount_action r = MountRedirect \<or> mount_action r = MountDeny) (mounts app')"
    and ev: "events app' = []"
    and rest: "CanonicalizeApps (insert (package app) packages) rest = Inr rest'" "as' = app' # rest'"
    by (auto simp: Fail_def split: if_splits sum.splits)
  have "list_all2 (\<lambda>a a'. ValidatePolicy a = Inr a') rest rest'"
    by (rule 2(1) [OF new v _ _ _ rest(1)]) (use m acts ev in simp_all)
  with v rest(2) show ?case by simp
qed simp

lemma CanonicalizeApps_fixed:
  assumes "\<forall>app \<in> set as. canonical_policy app \<and> events app = [] \<and> media_compat app = MediaOff \<and>
      (\<forall>r \<in> set (mounts app). mount_action r = MountRedirect \<or> mount_action r = MountDeny)"
    "distinct (map package as)" "set (map package as) \<inter> packages = {}"
  shows "CanonicalizeApps packages as = Inr as"
  using assms
proof (induction as arbitrary: packages)
  case (Cons app as)
  have "CanonicalizeApps (insert (package app) packages) as = Inr as"
    using Cons.prems by (intro Cons.IH) auto
  moreover have "ValidatePolicy app = Inr app" using Cons.prems by (simp add: ValidatePolicy_canonical)
  ultimately show ?case using Cons.prems by (auto simp: list_all_iff)
qed simp

text \<open>The generation of a decoded document is the one it was encoded with.\<close>

lemma ComputeContentGeneration_decoded:
  assumes "CanonicalizeDocument doc = Inr canon"
  shows "ComputeContentGeneration (decoded_document canon) = ContentGeneration canon"
proof -
  note can = CanonicalizeDocument_cases [OF assms]
  let ?as = "map erase_app (sort_key PackageOrder (apps canon))"
  have fixed: "CanonicalizeApps {} ?as = Inr ?as"
  proof (rule CanonicalizeApps_fixed)
    show "\<forall>app \<in> set ?as. canonical_policy app \<and> events app = [] \<and> media_compat app = MediaOff \<and>
        (\<forall>r \<in> set (mounts app). mount_action r = MountRedirect \<or> mount_action r = MountDeny)"
      using can(5) by auto
    show "distinct (map package ?as)" using can(6) by (simp add: comp_def)
  qed simp
  have ne: "?as \<noteq> []" using can(3) by (metis length_0_conv length_map length_sort)
  have "CanonicalizeDocument (decoded_document canon) = Inr (decoded_document canon)"
    using can(1,2) ne by (simp add: CanonicalizeDocument_def decoded_document_def fixed)
  moreover have "ContentGeneration (decoded_document canon) = ContentGeneration canon"
    unfolding decoded_document_def using can(6) by (intro ContentGeneration_reorder) simp_all
  ultimately show ?thesis by (simp add: ComputeContentGeneration_def)
qed

text \<open>The texts of a canonical policy that the file format can carry.\<close>

definition texts_carried :: "CanonicalPolicy \<Rightarrow> bool" where
  "texts_carried canonical \<longleftrightarrow>
     list_all (\<lambda>app. CHR 0x00 \<notin> set (can_package app) \<and> list_all wire_item (can_processes app))
       (can_apps canonical)"

lemma wire_safe_canonical:
  assumes "CanonicalizeDocument (ToPolicyDocument canonical) = Inr canon" "texts_carried canonical"
  shows "\<forall>app \<in> set (apps canon). wire_safe app"
proof
  fix app' assume app': "app' \<in> set (apps canon)"
  from assms(1) have "CanonicalizeApps {} (map ToAppPolicy (can_apps canonical)) = Inr (apps canon)"
    by (auto simp: CanonicalizeDocument_def ToPolicyDocument_def Fail_def split: if_splits sum.splits)
  from CanonicalizeApps_each [OF this] app' obtain app where app: "app \<in> set (can_apps canonical)"
    and v: "ValidatePolicy (ToAppPolicy app) = Inr app'"
    by (auto simp: list_all2_conv_all_nth in_set_conv_nth) (metis nth_mem)
  from v obtain us where us: "NormalizeUsers (users (ToAppPolicy app)) = Some us" "users app' = us"
    and procs: "processes app' = sort (processes (ToAppPolicy app))" and pkg: "package app' = can_package app"
    by (rule ValidatePolicy_cases) (auto simp: ToAppPolicy_def)
  have "us \<noteq> []"
    using us(1) by (auto simp: NormalizeUsers_def ToAppPolicy_def split: if_splits dest: arg_cong [of _ _ length])
  moreover have "list_all wire_item (processes (ToAppPolicy app))" "processes (ToAppPolicy app) \<noteq> []"
    using assms(2) app by (auto simp: texts_carried_def list_all_iff ToAppPolicy_def wire_item_def)
  ultimately show "wire_safe app'"
    using assms(2) app us(2)
    by (auto simp: wire_safe_def pkg procs texts_carried_def list_all_iff dest: arg_cong [of _ _ length])
qed

lemma EncodeAndVerify_Some:
  assumes "EncodeAndVerify canonical = Some blob"
  shows "EncodePolicy (ToPolicyDocument canonical) = Inr (blob_bytes blob)"
    "blob_generation blob = ComputeContentGeneration (ToPolicyDocument canonical)"
    "blob_generation blob \<noteq> 0" "VerifyPolicyBlob canonical blob"
  using assms by (auto simp: EncodeAndVerify_def Let_def split: sum.splits if_splits)

lemma EncodeAndVerify_complete:
  assumes "CanonicalizeDocument (ToPolicyDocument canonical) = Inr canon"
    "EncodePolicy (ToPolicyDocument canonical) = Inr out" "texts_carried canonical"
    "ContentGeneration canon \<noteq> 0"
  shows "EncodeAndVerify canonical = Some \<lparr>blob_bytes = out, blob_generation = ContentGeneration canon\<rparr>"
proof -
  have gen: "ComputeContentGeneration (ToPolicyDocument canonical) = ContentGeneration canon"
    by (simp add: ComputeContentGeneration_def assms(1))
  from assms(1,2) have out: "out = encoded_file canon" "length (encoded_file canon) \<le> kMaxU32"
    by (auto elim: EncodePolicy_Inr)
  have "DecodePolicy out = Some (Inr (decoded_document canon, ContentGeneration canon))"
    unfolding out(1) by (rule DecodePolicy_encoded [OF assms(1) out(2) wire_safe_canonical [OF assms(1,3)]])
  thus ?thesis
    by (simp add: EncodeAndVerify_def Let_def assms(2,4) gen VerifyPolicyBlob_def VerifyPolicyBytes_def
        ComputeContentGeneration_decoded [OF assms(1)])
qed

lemma verified_blob_decodes:
  assumes "EncodeAndVerify canonical = Some blob" "texts_carried canonical"
  shows "\<exists>canon. CanonicalizeDocument (ToPolicyDocument canonical) = Inr canon \<and>
    DecodePolicy (blob_bytes blob) = Some (Inr (decoded_document canon, blob_generation blob)) \<and>
    blob_generation blob = ContentGeneration canon \<and> ContentGeneration canon \<noteq> 0"
proof -
  note e = EncodeAndVerify_Some [OF assms(1)]
  from e(1) obtain canon where c: "CanonicalizeDocument (ToPolicyDocument canonical) = Inr canon"
    and out: "blob_bytes blob = encoded_file canon" "length (encoded_file canon) \<le> kMaxU32"
    by (rule EncodePolicy_Inr)
  have g: "blob_generation blob = ContentGeneration canon"
    using e(2) by (simp add: ComputeContentGeneration_def c)
  with DecodePolicy_encoded [OF c out(2) wire_safe_canonical [OF c assms(2)]] c e(3) out(1) show ?thesis by simp
qed

subsection \<open>Requirements and admission\<close>

definition has_redirects :: "CanonicalPolicy \<Rightarrow> bool" where
  "has_redirects canonical \<longleftrightarrow> list_ex (\<lambda>app. can_redirects app \<noteq> []) (can_apps canonical)"

definition has_denies :: "CanonicalPolicy \<Rightarrow> bool" where
  "has_denies canonical \<longleftrightarrow> list_ex (\<lambda>app. can_deny app \<noteq> []) (can_apps canonical)"

lemma Requirements_bits:
  "bit (req_mount_actions (Requirements canonical)) n \<longleftrightarrow>
     n = 0 \<and> has_redirects canonical \<or> n = 1 \<and> has_denies canonical"
proof -
  have r: "bit (kMountActionRedirect) n \<longleftrightarrow> n = 0" and d: "bit (kMountActionDenyAnchor) n \<longleftrightarrow> n = 1"
    by (auto simp: kMountActionRedirect_def kMountActionDenyAnchor_def bit_1_iff bit_push_bit_iff bit_2_iff)
  have "bit (foldl (\<lambda>mask app.
            let m1 = (if can_redirects app \<noteq> [] then mask OR kMountActionRedirect else mask)
            in if can_deny app \<noteq> [] then m1 OR kMountActionDenyAnchor else m1) mask as) n \<longleftrightarrow>
      bit mask n \<or> n = 0 \<and> list_ex (\<lambda>app. can_redirects app \<noteq> []) as \<or>
      n = 1 \<and> list_ex (\<lambda>app. can_deny app \<noteq> []) as" for mask as
    by (induction as arbitrary: mask) (auto simp: Let_def bit_or_iff r d)
  from this [of 0 "can_apps canonical"] show ?thesis
    by (simp add: Requirements_def has_redirects_def has_denies_def)
qed

lemma Requirements_nonzero:
  "req_mount_actions (Requirements canonical) \<noteq> 0 \<longleftrightarrow> has_redirects canonical \<or> has_denies canonical"
  using Requirements_bits [of canonical] by (metis bit_0_eq bit_word_eqI bot_apply bot_bool_def)

definition sample_rules :: RulesDocument where
  "sample_rules =
     \<lparr>doc_format = 1, doc_allow_legacy_mount = False,
      doc_apps = [\<lparr>rules_package = ''a.b'', rules_enabled = True, rules_users = [0],
                   rules_processes = [], rules_file_picker = False, rules_deny = [],
                   rules_redirects = [\<lparr>redirect_id = 1, redirect_source = ''D'', redirect_target = ''Q''\<rparr>]\<rparr>]\<rparr>"

definition sample_parsed :: RulesCompileResult where
  "sample_parsed = \<lparr>parsed_document = Some sample_rules, parsed_origins = Map.empty, parsed_diagnostics = []\<rparr>"

definition sample_resolved :: "ResolvedAppPolicy list" where
  "sample_resolved = fst (ResolveApps Map.empty default_limits [] (doc_apps sample_rules))"

definition sample_policy :: CanonicalPolicy where
  "sample_policy = CanonicalizePolicy \<lparr>res_allow_legacy_mount = False, res_apps = sample_resolved\<rparr>"

lemma sample_resolved_eq: "ResolveApps origins default_limits [] (doc_apps sample_rules) = (sample_resolved, [])"
proof -
  have "snd (ResolveApps origins default_limits [] (doc_apps sample_rules)) = []"
    "fst (ResolveApps origins default_limits [] (doc_apps sample_rules)) =
       fst (ResolveApps Map.empty default_limits [] (doc_apps sample_rules))" by code_simp+
  thus ?thesis unfolding sample_resolved_def by (simp add: prod_eq_iff)
qed

definition sample_encoded :: PolicyDocument where
  "sample_encoded = (case CanonicalizeDocument (ToPolicyDocument sample_policy) of Inr d \<Rightarrow> d | Inl _ \<Rightarrow> sample_document)"

lemma sample_encoded_eq: "CanonicalizeDocument (ToPolicyDocument sample_policy) = Inr sample_encoded"
proof -
  have "(case CanonicalizeDocument (ToPolicyDocument sample_policy) of Inr d \<Rightarrow> True | Inl _ \<Rightarrow> False)" by code_simp
  thus ?thesis by (auto simp: sample_encoded_def split: sum.splits)
qed

lemma sample_encoded_facts:
  "policy_file_bound sample_encoded \<le> kMaxU32" "texts_carried sample_policy"
  by code_simp+

lemma sample_generation: "ContentGeneration sample_encoded \<noteq> 0"
proof -
  have "odd (ContentGeneration sample_encoded)"
    unfolding ContentGeneration_def Let_def Fnv1a64_parity by code_simp
  thus ?thesis by auto
qed

lemma sample_encodes: "EncodePolicy (ToPolicyDocument sample_policy) = Inr (encoded_file sample_encoded)"
  by (rule EncodePolicy_fits [OF sample_encoded_eq sample_encoded_facts(1)])

lemma sample_compiles:
  assumes "parsed_document parsed = Some sample_rules" "parsed_diagnostics parsed = []"
  shows "CompileRules parsed default_limits =
     \<lparr>build_resolved = Some \<lparr>res_allow_legacy_mount = False, res_apps = sample_resolved\<rparr>,
      build_canonical = Some sample_policy, build_requirements = Requirements sample_policy,
      build_blob = Some \<lparr>blob_bytes = encoded_file sample_encoded,
                         blob_generation = ContentGeneration sample_encoded\<rparr>,
      build_diagnostics = [], build_origins = parsed_origins parsed\<rparr>"
proof -
  have "ValidateExpandedRuleLimit sample_rules origins default_limits [] = (True, [])" for origins by code_simp
  moreover have "doc_allow_legacy_mount sample_rules = False" by (simp add: sample_rules_def)
  ultimately show ?thesis
    using EncodeAndVerify_complete [OF sample_encoded_eq sample_encodes sample_encoded_facts(2) sample_generation]
    by (simp add: CompileRules_def assms sample_resolved_eq Let_def flip: sample_policy_def)
qed

lemma sample_parsed_fields:
  "parsed_document sample_parsed = Some sample_rules" "parsed_diagnostics sample_parsed = []"
  by (simp_all add: sample_parsed_def)

lemmas sample_compiled = sample_compiles [OF sample_parsed_fields]

lemma sample_build_ok: "build_ok (CompileRules sample_parsed default_limits)"
  by (simp add: build_ok_def sample_compiled)

subsection \<open>Properties\<close>

text \<open>
  Claim C4.  The compiler implements the rules as written.  Let the document compile, with room left in
  the list of diagnostics.  Then the applications of the canonical policy are, up to order, the enabled
  applications of the document with the same package, users, processes and file picker flag, the same
  redirected pairs and the same denied paths; they are sorted by package, the legacy permission is the
  document's, and the redirects of every application pass the conflict and cycle checks.
\<close>

theorem compile_preserves_rules:
  assumes "build_ok (CompileRules parsed limits)" "parsed_document parsed = Some doc"
    "length (build_diagnostics (CompileRules parsed limits)) < max_diagnostics limits"
  shows "\<exists>canonical. build_canonical (CompileRules parsed limits) = Some canonical \<and>
    mset (map canonical_meaning (can_apps canonical)) =
      mset (map source_meaning (filter rules_enabled (doc_apps doc))) \<and>
    sorted (map can_package (can_apps canonical)) \<and>
    can_allow_legacy_mount canonical = doc_allow_legacy_mount doc \<and>
    list_all (\<lambda>app. redirects_accepted (m_redirects (canonical_meaning app))) (can_apps canonical)"
proof -
  from assms(1) obtain canonical where "build_canonical (CompileRules parsed limits) = Some canonical"
    by (auto simp: build_ok_def)
  with compile_meaning [OF assms this] show ?thesis by blast
qed

theorem compile_preserves_rules_witness:
  "mset (map canonical_meaning (can_apps sample_policy)) = {#source_meaning (hd (doc_apps sample_rules))#}"
proof -
  have "parsed_document sample_parsed = Some sample_rules" by (simp add: sample_parsed_def)
  moreover have "filter rules_enabled (doc_apps sample_rules) = [hd (doc_apps sample_rules)]"
    by (simp add: sample_rules_def)
  moreover have "0 < max_diagnostics default_limits" by (simp add: default_limits_def)
  ultimately show ?thesis using compile_preserves_rules [OF sample_build_ok] by (simp add: sample_compiled)
qed

text \<open>
  Claim C18.  A compiled policy file is readable and says what was compiled.  When compilation succeeds
  and the package and process names contain neither NUL nor comma, the file of the result decodes, to
  the canonical form of the policy's document in index order, and its generation is the nonzero content
  generation of that document.
\<close>

theorem compiled_file_decodes:
  assumes "build_ok (CompileRules parsed limits)"
    "build_canonical (CompileRules parsed limits) = Some canonical"
    "build_blob (CompileRules parsed limits) = Some blob" "texts_carried canonical"
  shows "\<exists>canon. CanonicalizeDocument (ToPolicyDocument canonical) = Inr canon \<and>
    DecodePolicy (blob_bytes blob) = Some (Inr (decoded_document canon, blob_generation blob)) \<and>
    blob_generation blob = ContentGeneration canon \<and> ContentGeneration canon \<noteq> 0"
proof -
  from assms(1-3) have "EncodeAndVerify canonical = Some blob" by (rule compiled_blob)
  thus ?thesis using assms(4) by (rule verified_blob_decodes)
qed

theorem compiled_file_decodes_witness:
  "\<exists>g. DecodePolicy (encoded_file sample_encoded) = Some (Inr (decoded_document sample_encoded, g)) \<and> g \<noteq> 0"
  using compiled_file_decodes [OF sample_build_ok, of sample_policy] sample_encoded_facts(2)
  by (simp add: sample_compiled sample_encoded_eq)

text \<open>
  The verification step of the compiler never rejects a good file: whenever the document of a
  canonical policy encodes, its texts fit the format and its content generation is not zero,
  \<open>EncodeAndVerify\<close> returns exactly the encoded bytes with that generation.
\<close>

theorem verification_accepts:
  assumes "CanonicalizeDocument (ToPolicyDocument canonical) = Inr canon"
    "EncodePolicy (ToPolicyDocument canonical) = Inr out" "texts_carried canonical"
    "ContentGeneration canon \<noteq> 0"
  shows "EncodeAndVerify canonical = Some \<lparr>blob_bytes = out, blob_generation = ContentGeneration canon\<rparr>"
  by (rule EncodeAndVerify_complete [OF assms])

theorem verification_accepts_witness:
  "EncodeAndVerify sample_policy =
     Some \<lparr>blob_bytes = encoded_file sample_encoded, blob_generation = ContentGeneration sample_encoded\<rparr>"
  by (rule verification_accepts [OF sample_encoded_eq sample_encodes sample_encoded_facts(2) sample_generation])

text \<open>
  Claim C38.  Once the list of diagnostics is full, the semantic stage reports nothing more, errors
  included: resolving any further applications leaves the list as it is.  With 64 warnings already in the
  list, a two-step redirect cycle and an invalid path pass without an error.
\<close>

theorem full_diagnostics_hide_errors:
  assumes "max_diagnostics limits \<le> length d"
  shows "snd (ResolveApps origins limits d app_list) = d"
  using extends_full [OF ResolveApps_extends assms] .

definition cyclic_rules :: AppRules where
  "cyclic_rules =
     \<lparr>rules_package = ''com.example.app'', rules_enabled = True, rules_users = [0], rules_processes = [],
      rules_file_picker = False, rules_deny = [\<lparr>deny_id = 3, deny_path = ''../x''\<rparr>],
      rules_redirects = [\<lparr>redirect_id = 1, redirect_source = ''A'', redirect_target = ''B''\<rparr>,
                         \<lparr>redirect_id = 2, redirect_source = ''B'', redirect_target = ''A''\<rparr>]\<rparr>"

definition some_warning :: Diagnostic where
  "some_warning = (diagnostic kRuleRedundant ''duplicate_redirect'' (Span 0 0) False)\<lparr>diag_severity := SevWarning\<rparr>"

theorem full_diagnostics_hide_errors_witness:
  "\<not> HasErrors (snd (ResolveApps Map.empty default_limits (replicate 64 some_warning) [cyclic_rules])) \<and>
   HasErrors (snd (ResolveApps Map.empty default_limits [] [cyclic_rules]))"
proof
  have "snd (ResolveApps Map.empty default_limits (replicate 64 some_warning) [cyclic_rules]) =
      replicate 64 some_warning"
    by (rule full_diagnostics_hide_errors) (simp add: default_limits_def)
  thus "\<not> HasErrors (snd (ResolveApps Map.empty default_limits (replicate 64 some_warning) [cyclic_rules]))"
    by (simp add: HasErrors_def some_warning_def list_ex_iff)
  show "HasErrors (snd (ResolveApps Map.empty default_limits [] [cyclic_rules]))" by code_simp
qed

text \<open>
  Admission of a compiled policy is exact.  A device admits the policy, with the requirements
  computed for it, exactly when the policy has a rule, the device has a strict mount primitive and strict
  support for every kind of rule the policy has (or the policy allows the legacy backend and the device
  supports those kinds with it), the storage topology is supported, and provider support is there if some
  application uses the file picker.  The reason is \<open>None\<close> exactly when a backend was found.
\<close>

theorem admission_exact:
  "let result = AdmitPolicy policy (Requirements policy) snapshot; caps = snap_mount snapshot;
       supported_by = (\<lambda>actions. (has_redirects policy \<longrightarrow> bit actions 0) \<and> (has_denies policy \<longrightarrow> bit actions 1)) in
   (admitted result \<longleftrightarrow>
      (has_redirects policy \<or> has_denies policy) \<and>
      (supported_by (strict_actions caps) \<and> (bit (primitives caps) 3 \<or> bit (primitives caps) 2) \<or>
       supported_by (legacy_actions caps) \<and> can_allow_legacy_mount policy \<and> bit (primitives caps) 4) \<and>
      (list_ex can_file_picker (can_apps policy) \<longrightarrow> snap_provider_supported snapshot) \<and>
      snap_topology_supported snapshot)"
proof -
  let ?req = "req_mount_actions (Requirements policy)"
  have bits: "(\<forall>n. bit ?req n \<longrightarrow> bit a n) \<longleftrightarrow>
      (has_redirects policy \<longrightarrow> bit a 0) \<and> (has_denies policy \<longrightarrow> bit a 1)" for a :: u32
    by (auto simp: Requirements_bits)
  have "can_apps policy \<noteq> []" if "has_redirects policy \<or> has_denies policy"
    using that by (auto simp: has_redirects_def has_denies_def)
  thus ?thesis
    unfolding AdmitPolicy_def Let_def AdmissionResult.select_convs selected_backend_usable bits Requirements_nonzero
    by (auto simp: Requirements_def)
qed

definition sample_snapshot :: DeviceSnapshot where
  "sample_snapshot =
     \<lparr>snap_mount = \<lparr>primitives = 4, strict_actions = 3, legacy_actions = 0\<rparr>, snap_provider_supported = False,
      snap_topology_supported = True, snap_capability_generation = 1, snap_topology_generation = 1\<rparr>"

theorem admission_exact_witness: "admitted (AdmitPolicy sample_policy (Requirements sample_policy) sample_snapshot)"
proof -
  have "has_redirects sample_policy" "\<not> list_ex can_file_picker (can_apps sample_policy)" by code_simp+
  moreover have "bit (3::u32) 0" "bit (3::u32) 1" "bit (4::u64) 2" by (simp_all add: bit_numeral_rec)
  ultimately show ?thesis using admission_exact [of sample_policy sample_snapshot]
    by (simp add: sample_snapshot_def Let_def)
qed

text \<open>
  A rule path is accepted exactly when it is not empty, within the byte and component limits,
  and each of its components, one trailing slash aside, is not empty, not a dot or double dot and free of
  control bytes, and starts at an offset of at most 65535; the result is the text as written together with
  the start of every component, and at those offsets the text has the components.
\<close>

theorem NormalizeRulePath_components:
  "NormalizeRulePath input limits =
     (let cs = rule_components input; starts = component_starts 0 cs in
      if input \<noteq> [] \<and> length input \<le> max_path_bytes limits \<and> length cs \<le> max_path_components limits \<and>
         list_all valid_rule_component cs \<and> list_all (\<lambda>k. k \<le> 65535) starts
      then Some \<lparr>path_bytes = input, component_offsets = map of_nat starts\<rparr> else None) \<and>
   list_all2 (\<lambda>k c. take (length c) (drop k input) = c)
     (component_starts 0 (rule_components input)) (rule_components input)"
  using NormalizeRulePath_eq component_starts_locate [of "[]" input] by simp

text \<open>
  The limit on expanded rules is exact and its arithmetic cannot overflow: the check passes,
  and reports nothing, exactly when the sum over the enabled applications of users times rules times
  processes (an empty list counting as one) is at most the limit; otherwise it reports one resource error.
\<close>

theorem expanded_rule_limit_exact:
  "if sum_list (map expanded_rules (filter rules_enabled (doc_apps document))) \<le> max_expanded_rules limits
   then ValidateExpandedRuleLimit document origins limits d = (True, d)
   else \<exists>span. ValidateExpandedRuleLimit document origins limits d =
          (False, AddDiagnostic limits kResourceLimit ''expanded_rule_limit'' span SevError None d)"
  using ValidateExpandedLoop_spec [of 0 limits "doc_apps document" origins d]
  by (simp add: ValidateExpandedRuleLimit_def)

end
