(* ===== verification/PG_Compiler.thy ===== *)
theory PG_Compiler
  imports PG_Desugar PG_Build
begin

text \<open>
  The parser stage of the rules compiler, \<open>rules/src/compiler.cpp\<close>: format probe, arrow scan and
  desugaring of the source, then the decoding of the parsed TOML tree into a \<open>RulesDocument\<close> with the
  origin of every rule.

  The TOML parser is the vendored library toml++.  It is a parameter, \<open>parse\<close>: it takes the generated text
  and the file name and returns an error region or a root table.  A tree node is what the code asks of it: its kind, its
  source region, the entries of a table in iteration order, the elements of an array, and for any other
  node what \<open>value<std::int64_t>\<close>, \<open>value<bool>\<close> and \<open>value<std::string>\<close> return.  The code identifies a
  table by its address; here it is the path from the root, which determines a node because the keys of a
  table are distinct.  Statistics are left out.
\<close>

definition kRuleArrowScope :: string where "kRuleArrowScope = ''PG-RULE-ARROW-SCOPE''"
definition kRedirectSyntax :: string where "kRedirectSyntax = ''PG-REDIRECT-SYNTAX''"
definition kTomlParse :: string where "kTomlParse = ''PG-TOML-PARSE''"
definition kTypeMismatch :: string where "kTypeMismatch = ''PG-RULE-TYPE''"
definition kUnknownField :: string where "kUnknownField = ''PG-RULE-UNKNOWN-FIELD''"

subsection \<open>TOML trees\<close>

record toml_position =
  toml_line :: nat
  toml_column :: nat

type_synonym toml_region = "toml_position \<times> toml_position"

datatype toml_node =
    TomlTable bool toml_region "(string \<times> toml_region \<times> toml_node) list"
  | TomlArray toml_region "toml_node list"
  | TomlValue toml_region "int option" "bool option" "string option"

type_synonym toml_table = "bool \<times> toml_region \<times> (string \<times> toml_region \<times> toml_node) list"

fun node_region :: "toml_node \<Rightarrow> toml_region" where
  "node_region (TomlTable _ r _) = r"
| "node_region (TomlArray r _) = r"
| "node_region (TomlValue r _ _ _) = r"

fun as_table :: "toml_node \<Rightarrow> toml_table option" where
  "as_table (TomlTable i r es) = Some (i, r, es)"
| "as_table _ = None"

fun as_array :: "toml_node \<Rightarrow> toml_node list option" where
  "as_array (TomlArray _ ns) = Some ns"
| "as_array _ = None"

fun value_int :: "toml_node \<Rightarrow> int option" where
  "value_int (TomlValue _ i _ _) = i"
| "value_int _ = None"

fun value_bool :: "toml_node \<Rightarrow> bool option" where
  "value_bool (TomlValue _ _ b _) = b"
| "value_bool _ = None"

fun value_string :: "toml_node \<Rightarrow> string option" where
  "value_string (TomlValue _ _ _ s) = s"
| "value_string _ = None"

definition table_get :: "(string \<times> toml_region \<times> toml_node) list \<Rightarrow> string \<Rightarrow> toml_node option" where
  "table_get es key = map_option snd (map_of es key)"

subsection \<open>Positions in the generated text\<close>

definition Utf8LeadWidth :: "char \<Rightarrow> nat" where
  "Utf8LeadWidth c =
     (let b = byte_of c in
      if and b 0x80 = 0 then 1 else if and b 0xE0 = 0xC0 then 2 else if and b 0xF0 = 0xE0 then 3
      else if and b 0xF8 = 0xF0 then 4 else 1)"

lemma Utf8LeadWidth_pos: "0 < Utf8LeadWidth c"
  by (simp add: Utf8LeadWidth_def Let_def)

function ToByteLoop :: "string \<Rightarrow> nat \<Rightarrow> nat \<Rightarrow> nat \<Rightarrow> nat" where
  "ToByteLoop source column_limit offset column =
     (if offset < length source \<and> column < column_limit \<and> source ! offset \<noteq> newline then
        if source ! offset = carriage_return then ToByteLoop source column_limit (offset + 1) column
        else ToByteLoop source column_limit
               (offset + min (Utf8LeadWidth (source ! offset)) (length source - offset)) (column + 1)
      else offset)"
  by pat_completeness auto
termination
  by (relation "measure (\<lambda>(source, _, offset, _). length source - offset)") (auto intro!: diff_less_mono2 simp: Utf8LeadWidth_pos)

declare ToByteLoop.simps [simp del]

definition ToByte :: "string \<Rightarrow> toml_position \<Rightarrow> nat" where
  "ToByte source position =
     (if toml_line position = 0 \<or> toml_line position > length (LineStarts source) then length source
      else ToByteLoop source (toml_column position) (LineStarts source ! (toml_line position - 1)) 1)"

definition Region :: "string \<Rightarrow> toml_region \<Rightarrow> ByteSpan" where
  "Region source region = Span (ToByte source (fst region)) (ToByte source (snd region))"

subsection \<open>Names\<close>

definition isalpha :: "char \<Rightarrow> bool" where
  "isalpha c \<longleftrightarrow> (CHR ''a'' \<le> c \<and> c \<le> CHR ''z'') \<or> (CHR ''A'' \<le> c \<and> c \<le> CHR ''Z'')"

definition isalnum :: "char \<Rightarrow> bool" where
  "isalnum c \<longleftrightarrow> isalpha c \<or> is_digit c"

text \<open>The loop of \<open>IsPackageName\<close> on the text from \<open>begin\<close> on; it counts the components.\<close>

function PackageLoop :: "nat \<Rightarrow> string \<Rightarrow> nat option" where
  "PackageLoop components rest =
     (if rest = [] then Some components
      else
        let part = takeWhile (\<lambda>c. c \<noteq> CHR ''.'') rest in
        if part = [] \<or> \<not> isalpha (hd part) then None
        else if list_ex (\<lambda>c. \<not> isalnum c \<and> c \<noteq> CHR ''_'') (tl part) then None
        else case dropWhile (\<lambda>c. c \<noteq> CHR ''.'') rest of
               [] \<Rightarrow> Some (components + 1)
             | _ # rest' \<Rightarrow> PackageLoop (components + 1) rest')"
  by pat_completeness auto
termination
  by (relation "measure (\<lambda>(_, rest). length rest)") (auto simp: length_dropWhile_Cons)

declare PackageLoop.simps [simp del]

definition IsPackageName :: "string \<Rightarrow> bool" where
  "IsPackageName name = (case PackageLoop 0 name of None \<Rightarrow> False | Some components \<Rightarrow> components \<ge> 2)"

definition IsProcessName :: "string \<Rightarrow> string \<Rightarrow> bool" where
  "IsProcessName pkg process =
     (if process = pkg then True
      else if \<not> prefix pkg process \<or> length process \<le> length pkg + 1 \<or>
              process ! length pkg \<noteq> CHR '':'' then False
      else \<not> list_ex (\<lambda>c. \<not> isalnum c \<and> c \<noteq> CHR ''_'' \<and> c \<noteq> CHR ''.'') (drop (length pkg + 1) process))"

definition IsRedirectScope :: "string list \<Rightarrow> bool" where
  "IsRedirectScope path \<longleftrightarrow>
     length path = 4 \<and> path ! 0 = ''apps'' \<and> path ! 1 \<noteq> [] \<and> path ! 2 = ''redirect''"

subsection \<open>Inline tables\<close>

record InlineNode =
  inline_generated :: ByteSpan
  inline_path :: "string list"

lemma enumerate_size [termination_simp]:
  "(i, n) \<in> set (enumerate k ns) \<Longrightarrow> size n < Suc (size_list size ns)"
proof -
  assume "(i, n) \<in> set (enumerate k ns)"
  hence "n \<in> set ns" by (metis in_set_enumerate_eq in_set_conv_nth snd_conv fst_conv less_diff_conv2 add.commute)
  thus ?thesis by (meson le_imp_less_Suc order_refl size_list_estimation')
qed

fun CollectInlineNodes :: "string \<Rightarrow> toml_node \<Rightarrow> string list \<Rightarrow> InlineNode list" where
  "CollectInlineNodes source (TomlTable is_inline r es) path =
     (if is_inline then [\<lparr>inline_generated = Region source r, inline_path = path\<rparr>] else []) @
     concat (map (\<lambda>(key, _, child). CollectInlineNodes source child (path @ [key])) es)"
| "CollectInlineNodes source (TomlArray r ns) path =
     concat (map (\<lambda>(index, child). CollectInlineNodes source child (path @ [to_string index]))
       (enumerate 0 ns))"
| "CollectInlineNodes source (TomlValue r i b s) path = []"

subsection \<open>The decoder\<close>

record Decoder =
  dec_diagnostics :: "Diagnostic list"
  dec_origins :: OriginMap
  dec_next_id :: RuleId

text \<open>What the decoder holds fixed: the limits, the desugared source and its text, and the tables bound to
  a rewritten arrow.\<close>

record DecoderEnv =
  env_limits :: RulesLimits
  env_map :: RewriteMap
  env_text :: string
  env_bound :: "string list \<rightharpoonup> GeneratedRedirect"

definition Add :: "RulesLimits \<Rightarrow> string \<Rightarrow> string \<Rightarrow> ByteSpan \<Rightarrow> DiagnosticPhase \<Rightarrow> string \<Rightarrow> Decoder \<Rightarrow> Decoder" where
  "Add limits code key primary phase field_path st =
     (let limit = max (max_diagnostics limits) 1; ds = dec_diagnostics st in
      if length ds < limit then
        st\<lparr>dec_diagnostics := ds @
            [(diagnostic code key primary False)\<lparr>diag_phase := phase, diag_field_path := field_path\<rparr>]\<rparr>
      else if \<not> diag_omitted (last ds) then
        st\<lparr>dec_diagnostics := butlast ds @
            [(diagnostic kDiagnosticsOmitted ''rules.diagnostics_omitted'' primary True)\<lparr>diag_phase := phase\<rparr>]\<rparr>
      else st)"

definition Original :: "DecoderEnv \<Rightarrow> toml_region \<Rightarrow> ByteSpan" where
  "Original env region =
     (case MapGeneratedSpan (env_map env) (Region (env_text env) region) of
        Some sp \<Rightarrow> sp | None \<Rightarrow> Span 0 0)"

abbreviation Report ::
  "DecoderEnv \<Rightarrow> string \<Rightarrow> string \<Rightarrow> ByteSpan \<Rightarrow> string \<Rightarrow> Decoder \<Rightarrow> Decoder" where
  "Report env code key primary field_path \<equiv> Add (env_limits env) code key primary PhaseDecode field_path"

subsubsection \<open>Binding rewritten arrows to their tables\<close>

definition span_identity :: "ByteSpan \<Rightarrow> nat" where
  "span_identity sp = or (push_bit 32 (span_begin sp)) (span_end sp)"

fun IndexInlineNodes :: "(nat \<rightharpoonup> InlineNode) \<Rightarrow> InlineNode list \<Rightarrow> (nat \<rightharpoonup> InlineNode) option" where
  "IndexInlineNodes nodes [] = Some nodes"
| "IndexInlineNodes nodes (node # rest) =
     (if nodes (span_identity (inline_generated node)) \<noteq> None then None
      else IndexInlineNodes (nodes(span_identity (inline_generated node) \<mapsto> node)) rest)"

text \<open>The loop over the redirects returns the failing message and rule, or the bindings.\<close>

fun BindRedirects ::
  "(nat \<rightharpoonup> InlineNode) \<Rightarrow> nat set \<Rightarrow> (string list \<rightharpoonup> GeneratedRedirect) \<Rightarrow> GeneratedRedirect list \<Rightarrow>
   (string \<times> ByteSpan) + (string list \<rightharpoonup> GeneratedRedirect)" where
  "BindRedirects nodes seen bound [] = Inr bound"
| "BindRedirects nodes seen bound (redirect # rest) =
     (let identity = span_identity (generated_table redirect) in
      if identity \<in> seen then Inl (''rules.generated_duplicate'', original_rule redirect)
      else case nodes identity of
             None \<Rightarrow> Inl (''rules.generated_unmatched'', original_rule redirect)
           | Some node \<Rightarrow>
               if bound (inline_path node) \<noteq> None
               then Inl (''rules.generated_unmatched'', original_rule redirect)
               else BindRedirects nodes (insert identity seen) (bound(inline_path node \<mapsto> redirect)) rest)"

fun CheckScopes ::
  "RulesLimits \<Rightarrow> (string list \<rightharpoonup> GeneratedRedirect) \<Rightarrow> InlineNode list \<Rightarrow> bool \<Rightarrow> Decoder \<Rightarrow> bool \<times> Decoder" where
  "CheckScopes limits bound [] scope_error st = (scope_error, st)"
| "CheckScopes limits bound (node # rest) scope_error st =
     (case bound (inline_path node) of
        Some redirect \<Rightarrow>
          if \<not> IsRedirectScope (inline_path node) then
            CheckScopes limits bound rest True
              (Add limits kRuleArrowScope ''rules.arrow_scope'' (original_rule redirect) PhaseDecode
                 ''/apps/<package>/redirect'' st)
          else CheckScopes limits bound rest scope_error st
      | None \<Rightarrow> CheckScopes limits bound rest scope_error st)"

definition BindGenerated ::
  "RulesLimits \<Rightarrow> string \<Rightarrow> GeneratedRedirect list \<Rightarrow> toml_table \<Rightarrow> Decoder \<Rightarrow>
   (string list \<rightharpoonup> GeneratedRedirect) option \<times> Decoder" where
  "BindGenerated limits source reds root st =
     (let inline_nodes = (case root of (i, r, es) \<Rightarrow> CollectInlineNodes source (TomlTable i r es) []) in
      case IndexInlineNodes Map.empty inline_nodes of
        None \<Rightarrow>
          (None, Add limits kDesugarInternal ''rules.generated_duplicate'' (Span 0 0) PhaseInternal [] st)
      | Some nodes \<Rightarrow>
          (case BindRedirects nodes {} Map.empty reds of
             Inl (key, rule) \<Rightarrow> (None, Add limits kDesugarInternal key rule PhaseInternal [] st)
           | Inr bound \<Rightarrow>
               (let (scope_error, st') = CheckScopes limits bound inline_nodes False st
                in (if scope_error then None else Some bound, st'))))"

subsubsection \<open>Fields\<close>

fun CheckFields ::
  "DecoderEnv \<Rightarrow> string list \<Rightarrow> string \<Rightarrow> (string \<times> toml_region \<times> toml_node) list \<Rightarrow> Decoder \<Rightarrow> bool \<times> Decoder" where
  "CheckFields env allowed path [] st = (True, st)"
| "CheckFields env allowed path ((key, region, _) # es) st =
     (if key \<notin> set allowed then
        (False, snd (CheckFields env allowed path es
           (Report env kUnknownField ''rules.unknown_field'' (Original env region) (path @ ''/'' @ key) st)))
      else CheckFields env allowed path es st)"

definition DecodeBool ::
  "DecoderEnv \<Rightarrow> (string \<times> toml_region \<times> toml_node) list \<Rightarrow> string \<Rightarrow> string \<Rightarrow> bool \<Rightarrow> Decoder \<Rightarrow>
   bool \<times> bool \<times> Decoder" where
  "DecodeBool env es key path current st =
     (case table_get es key of
        None \<Rightarrow> (True, current, st)
      | Some node \<Rightarrow>
          (case value_bool node of
             None \<Rightarrow> (False, current, Report env kTypeMismatch ''rules.boolean_required''
                                       (Original env (node_region node)) path st)
           | Some b \<Rightarrow> (True, b, st)))"

definition DecodeCompatibility ::
  "DecoderEnv \<Rightarrow> (string \<times> toml_region \<times> toml_node) list \<Rightarrow> Decoder \<Rightarrow> bool \<times> bool \<times> Decoder" where
  "DecodeCompatibility env es st =
     (let (valid, st1) = CheckFields env [''allow_legacy_mount''] ''/compatibility'' es st;
          (ok, legacy, st2) = DecodeBool env es ''allow_legacy_mount'' ''/compatibility/allow_legacy_mount'' False st1
      in (valid \<and> ok, legacy, st2))"

fun DecodeUserValues ::
  "DecoderEnv \<Rightarrow> string \<Rightarrow> int set \<Rightarrow> int list \<Rightarrow> bool \<Rightarrow> toml_node list \<Rightarrow> Decoder \<Rightarrow> bool \<times> int list \<times> Decoder" where
  "DecodeUserValues env path unique output valid [] st = (valid, output, st)"
| "DecodeUserValues env path unique output valid (node # rest) st =
     (case value_int node of
        None \<Rightarrow> DecodeUserValues env path unique output False rest
                  (Report env kTypeMismatch ''rules.integer_required'' (Original env (node_region node)) path st)
      | Some v \<Rightarrow>
          if v < 0 \<or> v > 99999 then
            DecodeUserValues env path unique output False rest
              (Report env kInvalidValue ''rules.user_invalid'' (Original env (node_region node)) path st)
          else if v \<in> unique then
            DecodeUserValues env path unique output False rest
              (Report env kInvalidValue ''rules.user_invalid'' (Original env (node_region node)) path st)
          else DecodeUserValues env path (insert v unique) (output @ [v]) valid rest st)"

definition DecodeUsers ::
  "DecoderEnv \<Rightarrow> toml_node \<Rightarrow> string \<Rightarrow> int list \<Rightarrow> Decoder \<Rightarrow> bool \<times> int list \<times> Decoder" where
  "DecodeUsers env node path current st =
     (case as_array node of
        None \<Rightarrow> (False, current, Report env kTypeMismatch ''rules.integer_array_required''
                                   (Original env (node_region node)) path st)
      | Some ns \<Rightarrow>
          (let (valid, output, st1) = DecodeUserValues env path {} [] True ns st
           in if output = [] then
                (False, output, Report env kInvalidValue ''rules.users_empty''
                                  (Original env (node_region node)) path st1)
              else (valid, output, st1)))"

fun DecodeProcessValues ::
  "DecoderEnv \<Rightarrow> string \<Rightarrow> string \<Rightarrow> string set \<Rightarrow> string list \<Rightarrow> bool \<Rightarrow> toml_node list \<Rightarrow> Decoder \<Rightarrow>
   bool \<times> string list \<times> Decoder" where
  "DecodeProcessValues env pkg path unique output valid [] st = (valid, output, st)"
| "DecodeProcessValues env pkg path unique output valid (node # rest) st =
     (case value_string node of
        None \<Rightarrow> DecodeProcessValues env pkg path unique output False rest
                  (Report env kTypeMismatch ''rules.string_required'' (Original env (node_region node)) path st)
      | Some v \<Rightarrow>
          if \<not> IsProcessName pkg v \<or> v \<in> unique then
            DecodeProcessValues env pkg path unique output False rest
              (Report env kInvalidValue ''rules.process_invalid'' (Original env (node_region node)) path st)
          else DecodeProcessValues env pkg path (insert v unique) (output @ [v]) valid rest st)"

definition DecodeProcesses ::
  "DecoderEnv \<Rightarrow> toml_node \<Rightarrow> string \<Rightarrow> string \<Rightarrow> string list \<Rightarrow> Decoder \<Rightarrow> bool \<times> string list \<times> Decoder" where
  "DecodeProcesses env node pkg path current st =
     (case as_array node of
        None \<Rightarrow> (False, current, Report env kTypeMismatch ''rules.string_array_required''
                                   (Original env (node_region node)) path st)
      | Some ns \<Rightarrow> DecodeProcessValues env pkg path {} current True ns st)"

subsubsection \<open>Rules\<close>

definition plain_origin :: "ByteSpan \<Rightarrow> RuleOrigin" where
  "plain_origin sp = \<lparr>origin_primary = sp, origin_source = Span 0 0, origin_arrow = Span 0 0,
                      origin_target = Span 0 0, has_redirect_operands = False\<rparr>"

fun DecodeDenyValues ::
  "DecoderEnv \<Rightarrow> string \<Rightarrow> DenyRule list \<Rightarrow> bool \<Rightarrow> toml_node list \<Rightarrow> Decoder \<Rightarrow> bool \<times> DenyRule list \<times> Decoder" where
  "DecodeDenyValues env path output valid [] st = (valid, output, st)"
| "DecodeDenyValues env path output valid (node # rest) st =
     (case value_string node of
        None \<Rightarrow> DecodeDenyValues env path output False rest
                  (Report env kTypeMismatch ''rules.string_required'' (Original env (node_region node)) path st)
      | Some v \<Rightarrow>
          (let rule = dec_next_id st;
               sp = Original env (node_region node);
               output' = output @ [\<lparr>deny_id = rule, deny_path = v\<rparr>];
               (added, origins) = OriginMap_Add (dec_origins st) rule (plain_origin sp);
               st1 = st\<lparr>dec_next_id := rule + 1, dec_origins := origins\<rparr>
           in if \<not> added then
                DecodeDenyValues env path output' False rest
                  (Add (env_limits env) kDesugarInternal ''rules.origin_duplicate'' sp PhaseInternal path st1)
              else DecodeDenyValues env path output' valid rest st1))"

definition DecodeDeny ::
  "DecoderEnv \<Rightarrow> toml_node \<Rightarrow> string \<Rightarrow> Decoder \<Rightarrow> bool \<times> DenyRule list \<times> Decoder" where
  "DecodeDeny env node path st =
     (case as_array node of
        None \<Rightarrow> (False, [], Report env kTypeMismatch ''rules.string_array_required''
                              (Original env (node_region node)) path st)
      | Some ns \<Rightarrow> DecodeDenyValues env path [] True ns st)"

fun DecodeRedirectValues ::
  "DecoderEnv \<Rightarrow> string list \<Rightarrow> string \<Rightarrow> nat \<Rightarrow> RedirectRule list \<Rightarrow> bool \<Rightarrow> toml_node list \<Rightarrow> Decoder \<Rightarrow>
   bool \<times> RedirectRule list \<times> Decoder" where
  "DecodeRedirectValues env node_path path index output valid [] st = (valid, output, st)"
| "DecodeRedirectValues env node_path path index output valid (node # rest) st =
     (case (as_table node, env_bound env (node_path @ [to_string index])) of
        (Some (_, _, es), Some generated) \<Rightarrow>
          (let from_value = (case table_get es ''from'' of None \<Rightarrow> None | Some n \<Rightarrow> value_string n);
               to_value = (case table_get es ''to'' of None \<Rightarrow> None | Some n \<Rightarrow> value_string n)
           in case (from_value, to_value) of
                (Some s, Some t) \<Rightarrow>
                  if length es \<noteq> 2 then
                    DecodeRedirectValues env node_path path (index + 1) output False rest
                      (Add (env_limits env) kDesugarInternal ''rules.generated_shape_invalid''
                         (original_rule generated) PhaseInternal path st)
                  else
                    let output' = output @ [\<lparr>redirect_id = red_id generated, redirect_source = s,
                                             redirect_target = t\<rparr>];
                        origin = \<lparr>origin_primary = original_rule generated,
                                  origin_source = original_source generated,
                                  origin_arrow = original_arrow generated,
                                  origin_target = original_target generated, has_redirect_operands = True\<rparr>;
                        (added, origins) = OriginMap_Add (dec_origins st) (red_id generated) origin;
                        st1 = st\<lparr>dec_origins := origins\<rparr>
                    in if \<not> added then
                         DecodeRedirectValues env node_path path (index + 1) output' False rest
                           (Add (env_limits env) kDesugarInternal ''rules.origin_duplicate''
                              (original_rule generated) PhaseInternal path st1)
                       else DecodeRedirectValues env node_path path (index + 1) output' valid rest st1
              | _ \<Rightarrow>
                  DecodeRedirectValues env node_path path (index + 1) output False rest
                    (Add (env_limits env) kDesugarInternal ''rules.generated_shape_invalid''
                       (original_rule generated) PhaseInternal path st))
      | _ \<Rightarrow>
          DecodeRedirectValues env node_path path (index + 1) output False rest
            (Report env kRedirectSyntax ''rules.redirect_arrow_required'' (Original env (node_region node)) path st))"

definition DecodeRedirect ::
  "DecoderEnv \<Rightarrow> toml_node \<Rightarrow> string list \<Rightarrow> string \<Rightarrow> Decoder \<Rightarrow> bool \<times> RedirectRule list \<times> Decoder" where
  "DecodeRedirect env node node_path path st =
     (case as_array node of
        None \<Rightarrow> (False, [], Report env kRedirectSyntax ''rules.redirect_array_required''
                              (Original env (node_region node)) path st)
      | Some ns \<Rightarrow> DecodeRedirectValues env node_path path 0 [] True ns st)"

subsubsection \<open>Applications and the document\<close>

definition new_app :: "string \<Rightarrow> AppRules" where
  "new_app pkg =
     \<lparr>rules_package = pkg, rules_enabled = True, rules_users = [0], rules_processes = [],
      rules_file_picker = False, rules_deny = [], rules_redirects = []\<rparr>"

definition DecodeApp :: "DecoderEnv \<Rightarrow> toml_table \<Rightarrow> AppRules \<Rightarrow> Decoder \<Rightarrow> bool \<times> AppRules \<times> Decoder" where
  "DecodeApp env table app st =
     (case table of (_, region, es) \<Rightarrow>
      let base = ''/apps/'' @ rules_package app;
          (v0, st0) = CheckFields env [''enabled'', ''users'', ''processes'', ''file_picker'', ''deny'', ''redirect'']
                        base es st;
          (v1, enabled, st1) = DecodeBool env es ''enabled'' (base @ ''/enabled'') (rules_enabled app) st0;
          (v2, picker, st2) = DecodeBool env es ''file_picker'' (base @ ''/file_picker'') (rules_file_picker app) st1;
          (v3, us, st3) = (case table_get es ''users'' of
                             None \<Rightarrow> (True, rules_users app, st2)
                           | Some node \<Rightarrow> DecodeUsers env node (base @ ''/users'') (rules_users app) st2);
          (v4, procs, st4) = (case table_get es ''processes'' of
                                None \<Rightarrow> (True, rules_processes app, st3)
                              | Some node \<Rightarrow> DecodeProcesses env node (rules_package app) (base @ ''/processes'')
                                               (rules_processes app) st3);
          (v5, deny, st5) = (case table_get es ''deny'' of
                               None \<Rightarrow> (True, [], st4)
                             | Some node \<Rightarrow> DecodeDeny env node (base @ ''/deny'') st4);
          (v6, reds, st6) = (case table_get es ''redirect'' of
                               None \<Rightarrow> (True, [], st5)
                             | Some node \<Rightarrow> DecodeRedirect env node [''apps'', rules_package app, ''redirect'']
                                              (base @ ''/redirect'') st5);
          app' = app\<lparr>rules_enabled := enabled, rules_file_picker := picker, rules_users := us,
                     rules_processes := procs, rules_deny := deny, rules_redirects := reds\<rparr>;
          valid = (v0 \<and> v1 \<and> v2 \<and> v3 \<and> v4 \<and> v5 \<and> v6)
      in if length deny + length reds > max_rules_per_app (env_limits env) then
           (False, app', Report env kResourceLimit ''rules.app_rule_limit'' (Original env region) base st6)
         else (valid, app', st6))"

fun DecodeApps ::
  "DecoderEnv \<Rightarrow> bool \<Rightarrow> AppRules list \<Rightarrow> (string \<times> toml_region \<times> toml_node) list \<Rightarrow> Decoder \<Rightarrow>
   bool \<times> AppRules list \<times> Decoder" where
  "DecodeApps env valid output [] st = (valid, output, st)"
| "DecodeApps env valid output ((pkg, key_region, node) # rest) st =
     (if \<not> IsPackageName pkg then
        DecodeApps env False output rest
          (Report env kInvalidValue ''rules.package_invalid'' (Original env key_region) (''/apps/'' @ pkg) st)
      else case as_table node of
             None \<Rightarrow>
               DecodeApps env False output rest
                 (Report env kTypeMismatch ''rules.app_type'' (Original env (node_region node)) (''/apps/'' @ pkg) st)
           | Some table \<Rightarrow>
               (let (ok, app, st1) = DecodeApp env table (new_app pkg) st
                in DecodeApps env (valid \<and> ok) (output @ [app]) rest st1))"

definition DecodeRoot :: "DecoderEnv \<Rightarrow> toml_table \<Rightarrow> Decoder \<Rightarrow> bool \<times> RulesDocument \<times> Decoder" where
  "DecodeRoot env root st =
     (case root of (_, _, es) \<Rightarrow>
      let document = \<lparr>doc_format = 1, doc_allow_legacy_mount = False, doc_apps = []\<rparr>;
          (v0, st0) = CheckFields env [''format'', ''compatibility'', ''apps''] [] es st;
          format_node = table_get es ''format'';
          version = (case format_node of None \<Rightarrow> None | Some n \<Rightarrow> value_int n);
          (v1, st1) = (if version \<noteq> Some 1
                       then (False, Report env kTypeMismatch ''rules.format_type''
                               (case format_node of None \<Rightarrow> Span 0 0 | Some n \<Rightarrow> Original env (node_region n))
                               ''/format'' st0)
                       else (v0, st0));
          (v2, legacy, st2) =
            (case table_get es ''compatibility'' of
               None \<Rightarrow> (v1, False, st1)
             | Some node \<Rightarrow>
                 (case as_table node of
                    None \<Rightarrow> (False, False, Report env kTypeMismatch ''rules.compatibility_type''
                                            (Original env (node_region node)) ''/compatibility'' st1)
                  | Some (_, _, ces) \<Rightarrow>
                      (let (ok, legacy, st') = DecodeCompatibility env ces st1 in (ok \<and> v1, legacy, st'))));
          document1 = document\<lparr>doc_allow_legacy_mount := legacy\<rparr>;
          apps_node = table_get es ''apps'';
          missing = (False, document1,
                     Report env kTypeMismatch ''rules.apps_required''
                       (case apps_node of None \<Rightarrow> Span 0 0 | Some n \<Rightarrow> Original env (node_region n)) ''/apps'' st2)
      in case (case apps_node of None \<Rightarrow> None | Some n \<Rightarrow> as_table n) of
           None \<Rightarrow> missing
         | Some (_, apps_region, aes) \<Rightarrow>
             if aes = [] then missing
             else if length aes > max_apps (env_limits env) then
               (False, document1, Report env kResourceLimit ''rules.apps_limit'' (Original env apps_region) ''/apps'' st2)
             else
               let (valid, decoded_app_list, st3) = DecodeApps env v2 [] aes st2
               in (valid, document1\<lparr>doc_apps := decoded_app_list\<rparr>, st3))"

subsection \<open>The parser stage\<close>

type_synonym toml_parser = "string \<Rightarrow> string \<Rightarrow> toml_region + toml_table"

definition failed_result :: "Diagnostic list \<Rightarrow> RulesCompileResult" where
  "failed_result ds = \<lparr>parsed_document = None, parsed_origins = Map.empty, parsed_diagnostics = ds\<rparr>"

definition DecodeDesugaredRules ::
  "toml_parser \<Rightarrow> SourceBuffer \<Rightarrow> DesugarResult \<Rightarrow> RulesLimits \<Rightarrow> RulesCompileResult" where
  "DecodeDesugaredRules parse source ds limits =
     (if \<not> desugar_ok ds then failed_result (ds_diagnostics ds)
      else
        let text = parser_input ds source;
            st0 = \<lparr>dec_diagnostics = [], dec_origins = Map.empty, dec_next_id = 1\<rparr>
        in case parse text (file_name source) of
             Inl region \<Rightarrow>
               failed_result (dec_diagnostics
                 (Add limits kTomlParse ''rules.toml_parse''
                    (case MapGeneratedSpan (rewrite_map ds) (Region text region) of
                       Some sp \<Rightarrow> sp | None \<Rightarrow> Span 0 0) PhaseParse [] st0))
           | Inr root \<Rightarrow>
               (let (bound, st1) = BindGenerated limits text (redirects ds) root st0
                in case bound of
                     None \<Rightarrow> failed_result (dec_diagnostics st1)
                   | Some bindings \<Rightarrow>
                       let st2 = st1\<lparr>dec_next_id :=
                                   foldl (\<lambda>n redirect. max n (red_id redirect + 1)) (dec_next_id st1)
                                     (redirects ds)\<rparr>;
                           env = \<lparr>env_limits = limits, env_map = rewrite_map ds, env_text = text,
                                  env_bound = bindings\<rparr>;
                           (decoded, document, st3) = DecodeRoot env root st2
                       in if \<not> decoded \<or> dec_diagnostics st3 \<noteq> [] then failed_result (dec_diagnostics st3)
                          else \<lparr>parsed_document = Some document, parsed_origins = dec_origins st3,
                                parsed_diagnostics = dec_diagnostics st3\<rparr>))"

definition ParseRulesDocument :: "toml_parser \<Rightarrow> SourceBuffer \<Rightarrow> RulesLimits \<Rightarrow> RulesCompileResult" where
  "ParseRulesDocument parse source limits =
     (let format = ProbeRulesFormat source in
      if \<not> probe_ok format then failed_result [probe_diagnostic format]
      else
        let lexical = ScanArrowCandidates source limits in
        if \<not> parser_allowed lexical then failed_result (scan_diagnostics lexical)
        else
          let ds = EmitDesugaredSource source (NumberRewrites (scan_candidates lexical)) limits in
          if \<not> desugar_ok ds then failed_result (ds_diagnostics ds)
          else DecodeDesugaredRules parse source ds limits)"

definition CompileRulesSource :: "toml_parser \<Rightarrow> SourceBuffer \<Rightarrow> RulesLimits \<Rightarrow> RulesBuildResult" where
  "CompileRulesSource parse source limits = CompileRules (ParseRulesDocument parse source limits) limits"

subsection \<open>Facts about names\<close>

definition package_component :: "string \<Rightarrow> bool" where
  "package_component c \<longleftrightarrow> c \<noteq> [] \<and> isalpha (hd c) \<and> list_all (\<lambda>x. isalnum x \<or> x = CHR ''_'') (tl c)"

text \<open>The components of a package name.\<close>

abbreviation package_components :: "string \<Rightarrow> string list" where
  "package_components \<equiv> trimmed_split (CHR ''.'')"

lemmas package_components_unfold = trimmed_split_unfold [where d = "CHR ''.''"]

lemma PackageLoop_spec:
  "PackageLoop n rest =
     (if list_all package_component (package_components rest)
      then Some (n + length (package_components rest)) else None)"
proof (induction "length rest" arbitrary: n rest rule: less_induct)
  case less
  show ?case
  proof (cases "rest = []")
    case True
    thus ?thesis by (subst PackageLoop.simps) simp
  next
    case False
    have neg: "list_ex (\<lambda>c. \<not> isalnum c \<and> c \<noteq> CHR ''_'') cs \<longleftrightarrow> \<not> list_all (\<lambda>x. isalnum x \<or> x = CHR ''_'') cs" for cs
      by (auto simp: list_ex_iff list_all_iff)
    show ?thesis
    proof (cases "dropWhile (\<lambda>c. c \<noteq> CHR ''.'') rest")
      case Nil
      show ?thesis
        by (subst PackageLoop.simps, subst (1 2) package_components_unfold [OF False])
          (simp add: False Nil Let_def package_component_def neg)
    next
      case (Cons x r)
      have len: "length r < length rest" by (rule length_dropWhile_Cons [OF Cons])
      show ?thesis
        by (subst PackageLoop.simps, subst (1 2) package_components_unfold [OF False])
          (simp add: False Cons Let_def package_component_def neg less [OF len])
    qed
  qed
qed

lemma IsPackageName_eq:
  "IsPackageName name \<longleftrightarrow>
     length (package_components name) \<ge> 2 \<and> list_all package_component (package_components name)"
  by (auto simp: IsPackageName_def PackageLoop_spec)

definition name_char :: "char \<Rightarrow> bool" where
  "name_char c \<longleftrightarrow> isalnum c \<or> c = CHR ''_'' \<or> c = CHR ''.'' \<or> c = CHR '':''"

lemma name_char_carried: "name_char c \<Longrightarrow> c \<noteq> CHR 0x00 \<and> c \<noteq> CHR '',''"
  by (auto simp: name_char_def isalnum_def isalpha_def is_digit_def less_eq_char_def)

lemma package_component_chars: "package_component c \<Longrightarrow> x \<in> set c \<Longrightarrow> name_char x"
  by (cases c) (auto simp: package_component_def list_all_iff name_char_def isalnum_def)

lemma IsPackageName_chars:
  assumes "IsPackageName name"
  shows "name \<noteq> []" "\<forall>c \<in> set name. name_char c"
proof -
  let ?cs = "split_on (CHR ''.'') name"
  from assms have cs: "2 \<le> length (package_components name)" "list_all package_component (package_components name)"
    by (auto simp: IsPackageName_eq)
  show "name \<noteq> []" using cs(1) by auto
  show "\<forall>c \<in> set name. name_char c"
  proof
    fix c assume c: "c \<in> set name"
    show "name_char c"
    proof (cases "c = CHR ''.''")
      case False
      with c set_split_on [of "CHR ''.''" name] obtain p where "p \<in> set ?cs" "c \<in> set p" by blast
      with split_on_trimmed have "p \<in> set (package_components name)" by fastforce
      with cs(2) \<open>c \<in> set p\<close> show ?thesis by (auto simp: list_all_iff intro: package_component_chars)
    qed (simp add: name_char_def)
  qed
qed

lemma IsProcessName_wire:
  assumes "IsPackageName pkg" "IsProcessName pkg process"
  shows "wire_item process"
proof -
  note pkg = IsPackageName_chars [OF assms(1)]
  have "process \<noteq> [] \<and> (\<forall>c \<in> set process. name_char c)"
  proof (cases "process = pkg")
    case False
    with assms(2) have p: "prefix pkg process" "length process > length pkg + 1" "process ! length pkg = CHR '':''"
      and rest: "\<forall>c \<in> set (drop (length pkg + 1) process). isalnum c \<or> c = CHR ''_'' \<or> c = CHR ''.''"
      by (auto simp: IsProcessName_def list_ex_iff split: if_splits)
    from p(1) obtain q where q: "process = pkg @ q" by (auto simp: prefix_def)
    with p(2,3) obtain q' where "q = CHR '':'' # q'" by (cases q) auto
    with q rest pkg show ?thesis by (auto simp: name_char_def)
  qed (use pkg in simp)
  thus ?thesis using name_char_carried by (auto simp: wire_item_def)
qed

subsection \<open>What the decoder accepts\<close>

definition app_well_formed :: "RulesLimits \<Rightarrow> AppRules \<Rightarrow> bool" where
  "app_well_formed limits app \<longleftrightarrow>
     IsPackageName (rules_package app) \<and>
     rules_users app \<noteq> [] \<and> distinct (rules_users app) \<and> list_all (\<lambda>u. 0 \<le> u \<and> u \<le> 99999) (rules_users app) \<and>
     distinct (rules_processes app) \<and> list_all (IsProcessName (rules_package app)) (rules_processes app) \<and>
     length (rules_deny app) + length (rules_redirects app) \<le> max_rules_per_app limits"

definition app_ids :: "AppRules \<Rightarrow> RuleId list" where
  "app_ids app = map deny_id (rules_deny app) @ map redirect_id (rules_redirects app)"

text \<open>Rule numbers newly entered into the origin map, each once.\<close>

definition ids_added :: "OriginMap \<Rightarrow> OriginMap \<Rightarrow> RuleId list \<Rightarrow> bool" where
  "ids_added before after ids \<longleftrightarrow>
     distinct ids \<and> set ids \<inter> dom before = {} \<and> dom after = dom before \<union> set ids"

lemma ids_added_Nil [simp]: "ids_added before after [] \<longleftrightarrow> dom after = dom before"
  by (simp add: ids_added_def)

lemma ids_added_append:
  "ids_added a b xs \<Longrightarrow> ids_added b c ys \<Longrightarrow> ids_added a c (xs @ ys)"
  by (auto simp: ids_added_def)

lemma OriginMap_Add_ids:
  "OriginMap_Add origins rule origin = (True, origins') \<Longrightarrow> ids_added origins origins' [rule]"
  by (auto simp: OriginMap_Add_def ids_added_def dom_def split: if_splits)

lemma Add_frame [simp]:
  "dec_origins (Add limits code key primary phase field_path st) = dec_origins st"
  "dec_next_id (Add limits code key primary phase field_path st) = dec_next_id st"
  by (simp_all add: Add_def Let_def)

lemma CheckFields_frame [simp]: "dec_origins (snd (CheckFields env allowed path es st)) = dec_origins st"
  by (induction env allowed path es st rule: CheckFields.induct) simp_all

lemma DecodeBool_frame [simp]: "dec_origins (snd (snd (DecodeBool env es key path b st))) = dec_origins st"
  by (simp add: DecodeBool_def split: option.splits)

lemma DecodeUserValues_spec:
  assumes "DecodeUserValues env path unique out valid ns st = (v, out', st')"
    "set out = unique" "distinct out" "list_all (\<lambda>u. 0 \<le> u \<and> u \<le> 99999) out"
  shows "distinct out' \<and> list_all (\<lambda>u. 0 \<le> u \<and> u \<le> 99999) out' \<and> dec_origins st' = dec_origins st"
  using assms
  by (induction ns arbitrary: unique out valid st)
    (auto split: option.splits if_splits)

lemma DecodeUsers_spec:
  assumes "DecodeUsers env node path current st = (v, us, st')"
  shows "dec_origins st' = dec_origins st"
    "v \<Longrightarrow> us \<noteq> [] \<and> distinct us \<and> list_all (\<lambda>u. 0 \<le> u \<and> u \<le> 99999) us"
  using assms DecodeUserValues_spec [of env path "{}" "[]" True _ st]
  by (auto simp: DecodeUsers_def split: option.splits prod.splits if_splits)

lemma DecodeProcessValues_spec:
  assumes "DecodeProcessValues env pkg path unique out valid ns st = (v, out', st')"
    "set out = unique" "distinct out" "list_all (IsProcessName pkg) out"
  shows "distinct out' \<and> list_all (IsProcessName pkg) out' \<and> dec_origins st' = dec_origins st"
  using assms
  by (induction ns arbitrary: unique out valid st)
    (auto split: option.splits if_splits)

lemma DecodeProcesses_spec:
  assumes "DecodeProcesses env node pkg path [] st = (v, procs, st')"
  shows "dec_origins st' = dec_origins st \<and> distinct procs \<and> list_all (IsProcessName pkg) procs"
  using assms DecodeProcessValues_spec [of env pkg path "{}" "[]" True _ st]
  by (auto simp: DecodeProcesses_def split: option.splits)

lemma DecodeDenyValues_spec:
  assumes "DecodeDenyValues env path out valid ns st = (True, out', st')"
  shows "valid \<and> (\<exists>new. out' = out @ new \<and> ids_added (dec_origins st) (dec_origins st') (map deny_id new))"
  using assms
proof (induction ns arbitrary: out valid st)
  case (Cons node rest)
  show ?case
  proof (cases "value_string node")
    case None
    with Cons show ?thesis by auto
  next
    case (Some v)
    define st1 where "st1 = st\<lparr>dec_next_id := dec_next_id st + 1, dec_origins := snd (OriginMap_Add (dec_origins st)
        (dec_next_id st) (plain_origin (Original env (node_region node))))\<rparr>"
    obtain added origins where o: "OriginMap_Add (dec_origins st) (dec_next_id st)
        (plain_origin (Original env (node_region node))) = (added, origins)" by fastforce
    have origins: "origins = dec_origins st1" by (simp add: st1_def o)
    show ?thesis
    proof (cases added)
      case False
      with Cons Some o show ?thesis by (auto simp: Let_def)
    next
      case True
      let ?rule = "\<lparr>deny_id = dec_next_id st, deny_path = v\<rparr>"
      have "DecodeDenyValues env path (out @ [?rule]) valid rest st1 = (True, out', st')"
        using Cons.prems Some o True by (simp add: Let_def st1_def)
      with Cons.IH obtain new where
        "valid" "out' = (out @ [?rule]) @ new"
        "ids_added (dec_origins st1) (dec_origins st') (map deny_id new)"
        by blast
      moreover have "ids_added (dec_origins st) (dec_origins st1) [dec_next_id st]"
        using OriginMap_Add_ids o True origins by metis
      ultimately show ?thesis
        using ids_added_append by (intro conjI exI [of _ "?rule # new"]) fastforce+
    qed
  qed
qed simp

lemma DecodeRedirectValues_spec:
  assumes "DecodeRedirectValues env node_path path index out valid ns st = (True, out', st')"
  shows "valid \<and> (\<exists>new. out' = out @ new \<and> ids_added (dec_origins st) (dec_origins st') (map redirect_id new))"
  using assms
proof (induction ns arbitrary: index out valid st)
  case (Cons node rest)
  have bad: "DecodeRedirectValues env node_path path (Suc index) o1 False rest s1 = (True, out', st') \<longleftrightarrow> False" for o1 s1
    using Cons.IH by blast
  obtain es generated s t where tab: "\<exists>i r. as_table node = Some (i, r, es)"
    and gen: "env_bound env (node_path @ [to_string index]) = Some generated"
    and s: "(case table_get es ''from'' of None \<Rightarrow> None | Some n \<Rightarrow> value_string n) = Some s"
    and t: "(case table_get es ''to'' of None \<Rightarrow> None | Some n \<Rightarrow> value_string n) = Some t"
    and len: "length es = 2"
    using Cons.prems by (auto simp: Let_def bad split: option.splits if_splits)
  define origin where "origin = \<lparr>origin_primary = original_rule generated,
      origin_source = original_source generated, origin_arrow = original_arrow generated,
      origin_target = original_target generated, has_redirect_operands = True\<rparr>"
  obtain added origins where o: "OriginMap_Add (dec_origins st) (red_id generated) origin = (added, origins)" by fastforce
  let ?rule = "\<lparr>redirect_id = red_id generated, redirect_source = s, redirect_target = t\<rparr>"
  let ?st1 = "st\<lparr>dec_origins := origins\<rparr>"
  have step: "DecodeRedirectValues env node_path path index out valid (node # rest) st =
      (if \<not> added then
         DecodeRedirectValues env node_path path (index + 1) (out @ [?rule]) False rest
           (Add (env_limits env) kDesugarInternal ''rules.origin_duplicate''
              (original_rule generated) PhaseInternal path ?st1)
       else DecodeRedirectValues env node_path path (index + 1) (out @ [?rule]) valid rest ?st1)"
    using tab gen s t len o by (auto simp: Let_def origin_def)
  have added: added using Cons.prems unfolding step by (cases added) (auto simp: bad)
  hence "DecodeRedirectValues env node_path path (index + 1) (out @ [?rule]) valid rest ?st1 = (True, out', st')"
    using Cons.prems step by simp
  from Cons.IH [OF this] obtain new where new: "valid" "out' = (out @ [?rule]) @ new"
    "ids_added origins (dec_origins st') (map redirect_id new)" by auto
  have "ids_added (dec_origins st) origins [red_id generated]"
    using OriginMap_Add_ids o added by simp
  from ids_added_append [OF this new(3)] new(1,2) show ?case
    by (intro conjI exI [of _ "?rule # new"]) simp_all
qed simp

lemma DecodeDeny_spec:
  "DecodeDeny env node path st = (True, deny, st') \<Longrightarrow>
   ids_added (dec_origins st) (dec_origins st') (map deny_id deny)"
  by (auto simp: DecodeDeny_def dest: DecodeDenyValues_spec split: option.splits)

lemma DecodeRedirect_spec:
  "DecodeRedirect env node node_path path st = (True, reds, st') \<Longrightarrow>
   ids_added (dec_origins st) (dec_origins st') (map redirect_id reds)"
  by (auto simp: DecodeRedirect_def dest: DecodeRedirectValues_spec split: option.splits)

lemma DecodeApp_spec:
  assumes "DecodeApp env (i, region, es) (new_app pkg) st = (True, app, st')" "IsPackageName pkg"
  shows "app_well_formed (env_limits env) app \<and> ids_added (dec_origins st) (dec_origins st') (app_ids app) \<and>
    rules_package app = pkg"
proof -
  let ?base = "''/apps/'' @ pkg"
  obtain v0 st0 where 0: "CheckFields env [''enabled'', ''users'', ''processes'', ''file_picker'', ''deny'', ''redirect'']
      ?base es st = (v0, st0)" by fastforce
  obtain v1 enabled st1 where 1: "DecodeBool env es ''enabled'' (?base @ ''/enabled'') True st0 = (v1, enabled, st1)"
    using prod_cases3 by blast
  obtain v2 picker st2 where 2: "DecodeBool env es ''file_picker'' (?base @ ''/file_picker'') False st1 = (v2, picker, st2)"
    using prod_cases3 by blast
  obtain v3 us st3 where 3: "(case table_get es ''users'' of None \<Rightarrow> (True, [0], st2)
      | Some node \<Rightarrow> DecodeUsers env node (?base @ ''/users'') [0] st2) = (v3, us, st3)"
    using prod_cases3 by blast
  obtain v4 procs st4 where 4: "(case table_get es ''processes'' of None \<Rightarrow> (True, [], st3)
      | Some node \<Rightarrow> DecodeProcesses env node pkg (?base @ ''/processes'') [] st3) = (v4, procs, st4)"
    using prod_cases3 by blast
  obtain v5 deny st5 where 5: "(case table_get es ''deny'' of None \<Rightarrow> (True, [], st4)
      | Some node \<Rightarrow> DecodeDeny env node (?base @ ''/deny'') st4) = (v5, deny, st5)"
    using prod_cases3 by blast
  obtain v6 reds st6 where 6: "(case table_get es ''redirect'' of None \<Rightarrow> (True, [], st5)
      | Some node \<Rightarrow> DecodeRedirect env node [''apps'', pkg, ''redirect''] (?base @ ''/redirect'') st5) = (v6, reds, st6)"
    using prod_cases3 by blast
  have fields: "rules_package (new_app pkg) = pkg" "rules_enabled (new_app pkg) = True"
    "rules_file_picker (new_app pkg) = False" "rules_users (new_app pkg) = [0]" "rules_processes (new_app pkg) = []"
    by (simp_all add: new_app_def)
  from assms(1) have v: v3 v4 v5 v6
    and app: "app = (new_app pkg)\<lparr>rules_enabled := enabled, rules_file_picker := picker, rules_users := us,
                     rules_processes := procs, rules_deny := deny, rules_redirects := reds\<rparr>"
    and st': "st' = st6" and len: "length deny + length reds \<le> max_rules_per_app (env_limits env)"
    unfolding DecodeApp_def Let_def prod.case fields 0 1 2 3 4 5 6 by (auto split: if_splits)
  have "dec_origins st0 = dec_origins st" by (metis 0 CheckFields_frame snd_conv)
  moreover have "dec_origins st1 = dec_origins st0" by (metis 1 DecodeBool_frame snd_conv)
  moreover have "dec_origins st2 = dec_origins st1" by (metis 2 DecodeBool_frame snd_conv)
  moreover have us: "dec_origins st3 = dec_origins st2 \<and> us \<noteq> [] \<and> distinct us \<and> list_all (\<lambda>u. 0 \<le> u \<and> u \<le> 99999) us"
    using 3 v(1) DecodeUsers_spec by (auto split: option.splits)
  moreover have procs: "dec_origins st4 = dec_origins st3 \<and> distinct procs \<and> list_all (IsProcessName pkg) procs"
    using 4 DecodeProcesses_spec by (auto split: option.splits)
  moreover have "ids_added (dec_origins st4) (dec_origins st5) (map deny_id deny)"
    using 5 v(3) DecodeDeny_spec by (auto split: option.splits)
  moreover have "ids_added (dec_origins st5) (dec_origins st6) (map redirect_id reds)"
    using 6 v(4) DecodeRedirect_spec by (auto split: option.splits)
  ultimately have "ids_added (dec_origins st) (dec_origins st6) (map deny_id deny @ map redirect_id reds)"
    using ids_added_append by simp
  with us procs len assms(2) show ?thesis
    by (simp add: app st' app_well_formed_def app_ids_def new_app_def)
qed

lemma DecodeApps_spec:
  assumes "DecodeApps env valid out es st = (True, out', st')"
  shows "valid \<and> (\<exists>new. out' = out @ new \<and> list_all (app_well_formed (env_limits env)) new \<and>
    map rules_package new = map fst es \<and>
    ids_added (dec_origins st) (dec_origins st') (concat (map app_ids new)))"
  using assms
proof (induction es arbitrary: valid out st)
  case (Cons e rest)
  obtain pkg key_region node where e: "e = (pkg, key_region, node)" by (cases e)
  have bad: "DecodeApps env False o1 rest s1 = (True, out', st') \<longleftrightarrow> False" for o1 s1
    using Cons.IH by blast
  have pkg: "IsPackageName pkg" using Cons.prems unfolding e by (auto simp: bad split: if_splits)
  obtain i r es where tab: "as_table node = Some (i, r, es)"
    using Cons.prems pkg unfolding e by (cases "as_table node") (auto simp: bad)
  obtain ok app st1 where a: "DecodeApp env (i, r, es) (new_app pkg) st = (ok, app, st1)"
    using prod_cases3 by blast
  have rest: "DecodeApps env (valid \<and> ok) (out @ [app]) rest st1 = (True, out', st')"
    using Cons.prems pkg tab a unfolding e by simp
  from Cons.IH [OF rest] obtain new where new: "valid" ok "out' = (out @ [app]) @ new"
    "list_all (app_well_formed (env_limits env)) new" "map rules_package new = map fst rest"
    "ids_added (dec_origins st1) (dec_origins st') (concat (map app_ids new))" by auto
  from a new(2) have "DecodeApp env (i, r, es) (new_app pkg) st = (True, app, st1)" by simp
  note spec = DecodeApp_spec [OF this pkg]
  have "ids_added (dec_origins st) (dec_origins st') (app_ids app @ concat (map app_ids new))"
    using spec new(6) ids_added_append by blast
  with new spec show ?case by (intro conjI exI [of _ "app # new"]) (simp_all add: e)
qed simp

lemma DecodeCompatibility_frame:
  assumes "DecodeCompatibility env es st = (v, legacy, st')"
  shows "dec_origins st' = dec_origins st"
proof -
  obtain v1 st1 where 1: "CheckFields env [''allow_legacy_mount''] ''/compatibility'' es st = (v1, st1)" by fastforce
  obtain v2 l st2 where 2: "DecodeBool env es ''allow_legacy_mount'' ''/compatibility/allow_legacy_mount'' False st1 = (v2, l, st2)"
    using prod_cases3 by blast
  have "st' = st2" using assms by (simp add: DecodeCompatibility_def 1 2)
  moreover have "dec_origins st2 = dec_origins st1" by (metis 2 DecodeBool_frame snd_conv)
  moreover have "dec_origins st1 = dec_origins st" by (metis 1 CheckFields_frame snd_conv)
  ultimately show ?thesis by simp
qed

lemma DecodeRoot_spec:
  assumes "DecodeRoot env root st = (True, doc, st')"
  shows "doc_format doc = 1 \<and> doc_apps doc \<noteq> [] \<and> length (doc_apps doc) \<le> max_apps (env_limits env) \<and>
    list_all (app_well_formed (env_limits env)) (doc_apps doc) \<and>
    ids_added (dec_origins st) (dec_origins st') (concat (map app_ids (doc_apps doc)))"
proof -
  obtain i r es where root: "root = (i, r, es)" by (cases root)
  obtain v0 st0 where 0: "CheckFields env [''format'', ''compatibility'', ''apps''] [] es st = (v0, st0)" by fastforce
  let ?version = "case table_get es ''format'' of None \<Rightarrow> None | Some n \<Rightarrow> value_int n"
  obtain v1 st1 where 1: "(if ?version \<noteq> Some 1
      then (False, Report env kTypeMismatch ''rules.format_type''
              (case table_get es ''format'' of None \<Rightarrow> Span 0 0 | Some n \<Rightarrow> Original env (node_region n)) ''/format'' st0)
      else (v0, st0)) = (v1, st1)" by fastforce
  obtain v2 legacy st2 where 2: "(case table_get es ''compatibility'' of
               None \<Rightarrow> (v1, False, st1)
             | Some node \<Rightarrow>
                 (case as_table node of
                    None \<Rightarrow> (False, False, Report env kTypeMismatch ''rules.compatibility_type''
                                            (Original env (node_region node)) ''/compatibility'' st1)
                  | Some (_, _, ces) \<Rightarrow>
                      (case DecodeCompatibility env ces st1 of (ok, legacy, st') \<Rightarrow> (ok \<and> v1, legacy, st')))) =
      (v2, legacy, st2)" using prod_cases3 by blast
  from assms obtain j ar aes where apps: "table_get es ''apps'' \<noteq> None"
    "(case table_get es ''apps'' of None \<Rightarrow> None | Some n \<Rightarrow> as_table n) = Some (j, ar, aes)"
    "aes \<noteq> []" "length aes \<le> max_apps (env_limits env)"
    unfolding DecodeRoot_def root prod.case Let_def 0 1 2 by (auto split: option.splits if_splits)
  obtain valid as st3 where 3: "DecodeApps env v2 [] aes st2 = (valid, as, st3)" using prod_cases3 by blast
  from assms have res: valid "doc = \<lparr>doc_format = 1, doc_allow_legacy_mount = legacy, doc_apps = as\<rparr>" "st' = st3"
    unfolding DecodeRoot_def root prod.case Let_def 0 1 2 apps(2) option.case using apps(3,4) 3 by auto
  from 3 res(1) DecodeApps_spec obtain new where "as = new" "list_all (app_well_formed (env_limits env)) as"
    "map rules_package as = map fst aes" "ids_added (dec_origins st2) (dec_origins st3) (concat (map app_ids as))"
    by fastforce
  moreover have "dec_origins st0 = dec_origins st" by (metis 0 CheckFields_frame snd_conv)
  moreover have "dec_origins st1 = dec_origins st0" using 1 by (auto split: if_splits)
  moreover have "dec_origins st2 = dec_origins st1"
    using 2 DecodeCompatibility_frame by (fastforce simp: Let_def split: option.splits prod.splits)
  moreover have len: "length as = length aes" by (metis calculation(3) length_map)
  moreover have "as \<noteq> []" using len apps(3) by auto
  ultimately show ?thesis using apps(3,4) res(2,3) by simp
qed

lemma CheckScopes_frame: "dec_origins (snd (CheckScopes limits bound nodes e st)) = dec_origins st"
  by (induction nodes arbitrary: e st) (auto split: option.splits)

lemma BindGenerated_frame: "BindGenerated limits source reds root st = (b, st') \<Longrightarrow> dec_origins st' = dec_origins st"
  unfolding BindGenerated_def Let_def
  by (auto split: option.splits sum.splits prod.splits) (metis CheckScopes_frame snd_conv)+

lemma parsed_document_spec:
  assumes "parsed_document (ParseRulesDocument parse source limits) = Some doc"
  shows "parsed_diagnostics (ParseRulesDocument parse source limits) = []"
    "doc_format doc = 1" "doc_apps doc \<noteq> []" "length (doc_apps doc) \<le> max_apps limits"
    "list_all (app_well_formed limits) (doc_apps doc)"
    "distinct (concat (map app_ids (doc_apps doc)))"
    "dom (parsed_origins (ParseRulesDocument parse source limits)) = set (concat (map app_ids (doc_apps doc)))"
proof -
  define ds where "ds = EmitDesugaredSource source (NumberRewrites (scan_candidates (ScanArrowCandidates source limits))) limits"
  have none: "parsed_document (failed_result d) = None" for d by (simp add: failed_result_def)
  have p: "ParseRulesDocument parse source limits = DecodeDesugaredRules parse source ds limits"
    using assms by (auto simp: ParseRulesDocument_def Let_def ds_def none split: if_splits)
  define st0 where "st0 = \<lparr>dec_diagnostics = [], dec_origins = Map.empty, dec_next_id = 1\<rparr>"
  let ?text = "parser_input ds source"
  from assms obtain root where root: "parse ?text (file_name source) = Inr root" and ok: "desugar_ok ds"
    unfolding p DecodeDesugaredRules_def Let_def by (auto simp: none split: if_splits sum.splits)
  obtain bound st1 where b: "BindGenerated limits ?text (redirects ds) root st0 = (bound, st1)" by fastforce
  have "bound \<noteq> None"
  proof
    assume "bound = None"
    hence "DecodeDesugaredRules parse source ds limits = failed_result (dec_diagnostics st1)"
      unfolding DecodeDesugaredRules_def Let_def st0_def [symmetric] root sum.case b prod.case using ok by simp
    with assms show False by (simp add: p none)
  qed
  then obtain bindings where bindings: "bound = Some bindings" by auto
  define st2 where "st2 = st1\<lparr>dec_next_id := foldl (\<lambda>n redirect. max n (red_id redirect + 1)) (dec_next_id st1) (redirects ds)\<rparr>"
  define env where "env = \<lparr>env_limits = limits, env_map = rewrite_map ds, env_text = ?text, env_bound = bindings\<rparr>"
  obtain decoded document st3 where d: "DecodeRoot env root st2 = (decoded, document, st3)" using prod_cases3 by blast
  have eq: "DecodeDesugaredRules parse source ds limits =
      (if \<not> decoded \<or> dec_diagnostics st3 \<noteq> [] then failed_result (dec_diagnostics st3)
       else \<lparr>parsed_document = Some document, parsed_origins = dec_origins st3,
             parsed_diagnostics = dec_diagnostics st3\<rparr>)"
    unfolding DecodeDesugaredRules_def Let_def st0_def [symmetric] root sum.case b prod.case bindings option.case
      st2_def [symmetric] env_def [symmetric] d
    using ok by simp
  from assms have good: decoded "dec_diagnostics st3 = []" "document = doc"
    unfolding p eq by (auto simp: none split: if_splits)
  have o: "dec_origins st2 = Map.empty" using BindGenerated_frame [OF b] by (simp add: st2_def st0_def)
  have limits: "env_limits env = limits" by (simp add: env_def)
  from d good have "DecodeRoot env root st2 = (True, doc, st3)" by simp
  note spec = DecodeRoot_spec [OF this, unfolded limits o]
  show "parsed_diagnostics (ParseRulesDocument parse source limits) = []" using good by (simp add: p eq)
  show "doc_format doc = 1" "doc_apps doc \<noteq> []" "length (doc_apps doc) \<le> max_apps limits"
    "list_all (app_well_formed limits) (doc_apps doc)" "distinct (concat (map app_ids (doc_apps doc)))"
    using spec by (simp_all add: ids_added_def)
  have "parsed_origins (ParseRulesDocument parse source limits) = dec_origins st3" using good by (simp add: p eq)
  with spec show "dom (parsed_origins (ParseRulesDocument parse source limits)) = set (concat (map app_ids (doc_apps doc)))"
    by (simp add: ids_added_def)
qed

subsection \<open>Names reach the file unharmed\<close>

lemma ResolveApps_names:
  "ResolveApps origins limits d as = (res, d') \<Longrightarrow>
   map (\<lambda>r. (res_package r, res_processes r)) res = map (\<lambda>a. (rules_package a, rules_processes a)) as"
proof (induction as arbitrary: d res)
  case (Cons app as)
  obtain a d1 where 1: "ResolveApp origins limits d app = (a, d1)" by fastforce
  obtain rest where 2: "ResolveApps origins limits d1 as = (rest, d')" "res = a # rest"
    using Cons.prems by (auto simp: 1 split: prod.splits)
  with Cons.IH [OF 2(1)] ResolveApp_names [OF 1] show ?case by simp
qed simp

lemma compiled_texts_carried:
  assumes "build_ok (CompileRulesSource parse source limits)"
    "build_canonical (CompileRulesSource parse source limits) = Some canonical"
  shows "texts_carried canonical"
proof -
  let ?parsed = "ParseRulesDocument parse source limits"
  obtain doc where doc: "parsed_document ?parsed = Some doc"
    using assms(1) by (cases "parsed_document ?parsed") (auto simp: CompileRulesSource_def CompileRules_def build_ok_def)
  from assms(1) doc obtain resolved d2 where
    r: "ResolveApps (parsed_origins ?parsed) limits (parsed_diagnostics ?parsed) (doc_apps doc) = (resolved, d2)"
    and c: "canonical = CanonicalizePolicy \<lparr>res_allow_legacy_mount = doc_allow_legacy_mount doc, res_apps = resolved\<rparr>"
    using assms(2) unfolding CompileRulesSource_def by (metis CompileRules_success option.inject)
  have "CHR 0x00 \<notin> set (rules_package a) \<and> list_all wire_item (rules_processes a)" if "a \<in> set (doc_apps doc)" for a
    using parsed_document_spec(5) [OF doc] that IsPackageName_chars(2) name_char_carried IsProcessName_wire
    by (fastforce simp: list_all_iff app_well_formed_def)
  hence "\<forall>x \<in> set (map (\<lambda>a. (rules_package a, rules_processes a)) (doc_apps doc)).
      CHR 0x00 \<notin> set (fst x) \<and> list_all wire_item (snd x)" by auto
  hence "\<forall>x \<in> set (map (\<lambda>r. (res_package r, res_processes r)) resolved).
      CHR 0x00 \<notin> set (fst x) \<and> list_all wire_item (snd x)" by (simp only: ResolveApps_names [OF r])
  thus ?thesis
    by (auto simp: c texts_carried_def CanonicalizePolicy_def CanonicalizeApp_def list_all_iff)
qed

subsection \<open>Samples\<close>

definition rules_source :: SourceBuffer where
  "rules_source =
     \<lparr>file_name = ''rules.toml'',
      source_bytes = ''format=1'' @ [newline] @ ''apps.'' @ quoted ''a.b'' @ ''.redirect=['' @
        quoted ''D'' @ ''->'' @ quoted ''Q'' @ '']''\<rparr>"

definition at_columns :: "nat \<Rightarrow> nat \<Rightarrow> nat \<Rightarrow> toml_region" where
  "at_columns line first last_column =
     (\<lparr>toml_line = line, toml_column = first\<rparr>, \<lparr>toml_line = line, toml_column = last_column\<rparr>)"

text \<open>A parser that knows the tree of the desugared sample text.\<close>

definition sample_toml :: toml_parser where
  "sample_toml generated name =
     Inr (False, at_columns 1 1 1,
       [(''apps'', at_columns 2 1 5, TomlTable False (at_columns 2 1 5)
           [(''a.b'', at_columns 2 6 11, TomlTable False (at_columns 2 6 11)
               [(''redirect'', at_columns 2 12 20, TomlArray (at_columns 2 21 47)
                   [TomlTable True (at_columns 2 22 46)
                      [(''from'', at_columns 2 24 28, TomlValue (at_columns 2 31 34) None None (Some ''D'')),
                       (''to'', at_columns 2 36 38, TomlValue (at_columns 2 41 44) None None (Some ''Q''))]])])]),
        (''format'', at_columns 1 1 7, TomlValue (at_columns 1 8 9) (Some 1) None None)])"

definition sample_desugared :: DesugarResult where
  "sample_desugared =
     EmitDesugaredSource rules_source
       (NumberRewrites (scan_candidates (ScanArrowCandidates rules_source default_limits))) default_limits"

lemma sample_stages:
  "probe_ok (ProbeRulesFormat rules_source)" "parser_allowed (ScanArrowCandidates rules_source default_limits)"
  "desugar_ok sample_desugared"
  by code_simp+

lemma sample_redirects:
  "redirects sample_desugared =
     [\<lparr>red_id = 1, original_rule = Span 30 38, original_source = Span 30 33, original_arrow = Span 33 35,
       original_target = Span 35 38, generated_table = Span 30 54, generated_source = Span 39 42,
       generated_target = Span 49 52\<rparr>]"
  by code_simp

lemma sample_region: "Region (parser_input sample_desugared rules_source) (at_columns 2 22 46) = Span 30 54"
  by code_simp

lemma sample_names: "IsPackageName ''a.b''" "to_string 0 = ''0''"
  by code_simp+

lemma sample_limits: "max_apps default_limits = 1024" "max_rules_per_app default_limits = 4096"
  by (simp_all add: default_limits_def)

lemma sample_parse: "parsed_document (ParseRulesDocument sample_toml rules_source default_limits) = Some sample_rules"
  unfolding ParseRulesDocument_def Let_def sample_desugared_def [symmetric]
  by (simp add: sample_stages DecodeDesugaredRules_def sample_toml_def Let_def BindGenerated_def sample_region
      sample_redirects IsRedirectScope_def DecodeRoot_def table_get_def sample_names DecodeApp_def new_app_def
      DecodeBool_def DecodeDeny_def DecodeRedirect_def OriginMap_Add_def sample_limits sample_rules_def)

lemma sample_source_compiled:
  "build_ok (CompileRulesSource sample_toml rules_source default_limits)"
  "build_canonical (CompileRulesSource sample_toml rules_source default_limits) = Some sample_policy"
  "build_blob (CompileRulesSource sample_toml rules_source default_limits) =
     Some \<lparr>blob_bytes = encoded_file sample_encoded, blob_generation = ContentGeneration sample_encoded\<rparr>"
  unfolding CompileRulesSource_def sample_compiles [OF sample_parse parsed_document_spec(1) [OF sample_parse]]
  by (simp_all add: build_ok_def)

subsection \<open>Properties\<close>

text \<open>
  Claim C17.  Whatever the TOML parser returns, a document that \<open>ParseRulesDocument\<close> yields is well-formed
  and comes without diagnostics: format 1, between one and the maximal number of applications, each with a valid
  package name, a non-empty list of distinct users between 0 and 99999, distinct process names of that
  package, and no more rules than allowed; no two rules of the document share a number, and exactly these
  numbers have an origin.
\<close>

theorem parsed_document_well_formed:
  assumes "parsed_document (ParseRulesDocument parse source limits) = Some doc"
  shows "parsed_diagnostics (ParseRulesDocument parse source limits) = [] \<and> doc_format doc = 1 \<and>
    doc_apps doc \<noteq> [] \<and> length (doc_apps doc) \<le> max_apps limits \<and>
    list_all (app_well_formed limits) (doc_apps doc) \<and>
    distinct (concat (map app_ids (doc_apps doc))) \<and>
    dom (parsed_origins (ParseRulesDocument parse source limits)) = set (concat (map app_ids (doc_apps doc)))"
  using parsed_document_spec [OF assms] by blast

theorem parsed_document_well_formed_witness:
  "dom (parsed_origins (ParseRulesDocument sample_toml rules_source default_limits)) = {1}"
  using parsed_document_well_formed [OF sample_parse] by (simp add: sample_rules_def app_ids_def)

text \<open>
  Claim C36.  \<open>IsPackageName\<close> accepts exactly the texts of at least two components between dots that begin
  with a letter and continue with letters, digits and underscores, where one dot after the last component
  is tolerated: \<open>com.example.\<close> passes as a package name, \<open>com.\<close> and \<open>.com.example\<close> do not.
\<close>

theorem IsPackageName_components:
  "(IsPackageName name \<longleftrightarrow>
      length (package_components name) \<ge> 2 \<and> list_all package_component (package_components name)) \<and>
   IsPackageName ''com.example.'' \<and> \<not> IsPackageName ''com.'' \<and> \<not> IsPackageName ''.com.example''"
proof -
  have "IsPackageName ''com.example.''" "\<not> IsPackageName ''com.''" "\<not> IsPackageName ''.com.example''"
    by code_simp+
  thus ?thesis using IsPackageName_eq by simp
qed

end
