(* ===== verification/PG_Tools.thy ===== *)
theory PG_Tools
  imports PG_Conflicts
begin

text \<open>
  The rules tools, \<open>rules/src/tools.cpp\<close>: lint warnings (visually confusable paths, the legacy backend), the
  plan of changes between two policies, and the explanation of what a policy does to a path.

  A \<open>std::map\<close> is the list of its entries in key order.  Code points are natural numbers; the decoder
  below yields at most 21 bits, so nothing of the 32-bit arithmetic of the source wraps.
\<close>

subsection \<open>Visual skeletons\<close>

fun DecodeTail :: "nat \<Rightarrow> string \<Rightarrow> nat option" where
  "DecodeTail v [] = Some v"
| "DecodeTail v (c # cs) =
     (if and (byte_of c) 0xC0 \<noteq> 0x80 then None
      else DecodeTail (or (push_bit 6 v) (and (byte_of c) 0x3F)) cs)"

text \<open>The code point at the front of the text and how many bytes it takes.\<close>

definition DecodeCodePoint :: "string \<Rightarrow> nat \<times> nat" where
  "DecodeCodePoint input =
     (let lead = byte_of (hd input); width = Utf8Lead (hd input);
          v = (if width = 2 then and lead 0x1F else if width = 3 then and lead 0x0F
               else if width = 4 then and lead 0x07 else lead)
      in if width > length input then (lead, 1)
         else case DecodeTail v (take (width - 1) (tl input)) of
                None \<Rightarrow> (lead, 1)
              | Some code_point \<Rightarrow> (code_point, width))"

definition AppendCodePoint :: "nat \<Rightarrow> string" where
  "AppendCodePoint v =
     map char_of
       (if v \<le> 0x7F then [v]
        else if v \<le> 0x7FF then [or 0xC0 (drop_bit 6 v), or 0x80 (and v 0x3F)]
        else if v \<le> 0xFFFF then
          [or 0xE0 (drop_bit 12 v), or 0x80 (and (drop_bit 6 v) 0x3F), or 0x80 (and v 0x3F)]
        else
          [or 0xF0 (drop_bit 18 v), or 0x80 (and (drop_bit 12 v) 0x3F),
           or 0x80 (and (drop_bit 6 v) 0x3F), or 0x80 (and v 0x3F)])"

definition tolower :: "nat \<Rightarrow> nat" where
  "tolower b = (if 65 \<le> b \<and> b \<le> 90 then b + 32 else b)"

definition FoldCodePoint :: "nat \<Rightarrow> string" where
  "FoldCodePoint code_point =
     (if 0x0300 \<le> code_point \<and> code_point \<le> 0x036F then []
      else
        let narrow = (if 0xFF01 \<le> code_point \<and> code_point \<le> 0xFF5E then code_point - 0xFEE0 else code_point)
        in AppendCodePoint (if narrow \<le> 0x7F then tolower narrow else narrow))"

lemma DecodeCodePoint_width: "0 < snd (DecodeCodePoint input)"
  by (simp add: DecodeCodePoint_def Let_def Utf8Lead_def split: option.split)

function VisualSkeleton :: "string \<Rightarrow> string" where
  "VisualSkeleton input =
     (if input = [] then []
      else let (code_point, width) = DecodeCodePoint input
           in FoldCodePoint code_point @ VisualSkeleton (drop width input))"
  by pat_completeness auto
termination
proof (relation "measure length")
  fix input :: string and x and code_point width
  assume "input \<noteq> []" "x = DecodeCodePoint input" "(code_point, width) = x"
  thus "(drop width input, input) \<in> measure length"
    using DecodeCodePoint_width [of input] by (metis diff_less in_measure length_drop length_greater_0_conv snd_conv)
qed simp

declare VisualSkeleton.simps [simp del]

subsection \<open>Lint\<close>

fun LintPaths ::
  "OriginMap \<Rightarrow> RulesLimits \<Rightarrow> (string \<times> (string \<times> RuleId)) list \<Rightarrow> Diagnostic list \<Rightarrow> (string \<times> RuleId) list \<Rightarrow>
   Diagnostic list" where
  "LintPaths origins limits skeletons output [] = output"
| "LintPaths origins limits skeletons output ((bytes, rule) # paths) =
     (let skeleton = VisualSkeleton bytes in
      case map_of skeletons skeleton of
        None \<Rightarrow> LintPaths origins limits ((skeleton, (bytes, rule)) # skeletons) output paths
      | Some (first_bytes, first_rule) \<Rightarrow>
          LintPaths origins limits skeletons
            (if first_bytes \<noteq> bytes \<and> length output < max_diagnostics limits
             then output @
               [(diagnostic kLintUnicode ''rules.lint_unicode_near'' (OriginSpan origins rule) False)
                  \<lparr>diag_severity := SevWarning, diag_phase := PhaseSemantic,
                   diag_related := [\<lparr>related_span = OriginSpan origins first_rule,
                                     related_key = ''near_path''\<rparr>]\<rparr>]
             else output) paths)"

definition LintAppPaths :: "ResolvedAppPolicy \<Rightarrow> (string \<times> RuleId) list" where
  "LintAppPaths app =
     map (\<lambda>deny. (path_bytes (res_deny_path deny), res_deny_id deny)) (res_deny app) @
     concat (map (\<lambda>redirect. [(path_bytes (res_source redirect), res_id redirect),
                              (path_bytes (res_target redirect), res_id redirect)]) (res_redirects app))"

definition LintRules :: "RulesBuildResult \<Rightarrow> RulesLimits \<Rightarrow> Diagnostic list" where
  "LintRules result limits =
     (let output = filter (\<lambda>d. diag_severity d = SevWarning) (build_diagnostics result) in
      case build_resolved result of
        None \<Rightarrow> output
      | Some resolved \<Rightarrow>
          foldl (\<lambda>out app. LintPaths (build_origins result) limits [] out (LintAppPaths app))
            (if res_allow_legacy_mount resolved \<and> length output < max_diagnostics limits
             then output @
               [(diagnostic kLintLegacy ''rules.lint_legacy'' (Span 0 0) False)
                  \<lparr>diag_severity := SevWarning, diag_phase := PhaseSemantic\<rparr>]
             else output)
            (res_apps resolved))"

subsection \<open>The plan of changes\<close>

datatype PolicyChangeKind = ChangeAdd | ChangeRemove | ChangeModify

datatype PolicyRuleKind = RuleDeny | RuleRedirect

instantiation PolicyRuleKind :: linorder
begin

definition less_eq_PolicyRuleKind :: "PolicyRuleKind \<Rightarrow> PolicyRuleKind \<Rightarrow> bool" where
  "less_eq_PolicyRuleKind a b \<longleftrightarrow> a = RuleDeny \<or> b = RuleRedirect"

definition less_PolicyRuleKind :: "PolicyRuleKind \<Rightarrow> PolicyRuleKind \<Rightarrow> bool" where
  "less_PolicyRuleKind a b \<longleftrightarrow> a = RuleDeny \<and> b = RuleRedirect"

instance
proof
  fix x y z :: PolicyRuleKind
  show "(x < y) = (x \<le> y \<and> \<not> y \<le> x)" and "x \<le> x" and "x \<le> y \<or> y \<le> x"
    by (cases x; cases y; simp add: less_eq_PolicyRuleKind_def less_PolicyRuleKind_def)+
  show "x \<le> y \<Longrightarrow> y \<le> z \<Longrightarrow> x \<le> z"
    by (cases x; cases y; cases z; simp add: less_eq_PolicyRuleKind_def)
  show "x \<le> y \<Longrightarrow> y \<le> x \<Longrightarrow> x = y"
    by (cases x; cases y; simp add: less_eq_PolicyRuleKind_def)
qed

end

record PolicyChange =
  change_kind :: PolicyChangeKind
  change_rule :: PolicyRuleKind
  change_package :: string
  change_source :: string
  before_target :: string
  after_target :: string

type_synonym PlanKey = "string \<times> PolicyRuleKind \<times> string"

text \<open>\<open>std::map::emplace\<close> on the entries in key order: an existing entry stays.\<close>

fun map_emplace :: "'k::linorder \<Rightarrow> 'v \<Rightarrow> ('k \<times> 'v) list \<Rightarrow> ('k \<times> 'v) list" where
  "map_emplace k v [] = [(k, v)]"
| "map_emplace k v ((k', v') # rest) =
     (if k < k' then (k, v) # (k', v') # rest
      else if k = k' then (k', v') # rest
      else (k', v') # map_emplace k v rest)"

definition IndexApp :: "(PlanKey \<times> string) list \<Rightarrow> CanonicalAppPolicy \<Rightarrow> (PlanKey \<times> string) list" where
  "IndexApp output app =
     (let denied = foldl (\<lambda>out deny. map_emplace (can_package app, RuleDeny, path_bytes deny) [] out)
                     output (can_deny app)
      in foldl (\<lambda>out redirect.
             map_emplace (can_package app, RuleRedirect, path_bytes (can_source redirect))
               (path_bytes (can_target redirect)) out) denied (can_redirects app))"

definition IndexPolicy :: "CanonicalPolicy \<Rightarrow> (PlanKey \<times> string) list" where
  "IndexPolicy policy = foldl IndexApp [] (can_apps policy)"

definition Change :: "PolicyChangeKind \<Rightarrow> PlanKey \<Rightarrow> string \<Rightarrow> string \<Rightarrow> PolicyChange" where
  "Change kind key before after =
     (case key of (pkg, rule, source) \<Rightarrow>
        \<lparr>change_kind = kind, change_rule = rule, change_package = pkg, change_source = source,
         before_target = before, after_target = after\<rparr>)"

fun MergePlan :: "(PlanKey \<times> string) list \<Rightarrow> (PlanKey \<times> string) list \<Rightarrow> PolicyChange list" where
  "MergePlan [] [] = []"
| "MergePlan ((k, v) # old_rules) [] = Change ChangeRemove k v [] # MergePlan old_rules []"
| "MergePlan [] ((k', v') # new_rules) = Change ChangeAdd k' [] v' # MergePlan [] new_rules"
| "MergePlan ((k, v) # old_rules) ((k', v') # new_rules) =
     (if k < k' then Change ChangeRemove k v [] # MergePlan old_rules ((k', v') # new_rules)
      else if k' < k then Change ChangeAdd k' [] v' # MergePlan ((k, v) # old_rules) new_rules
      else (if v \<noteq> v' then [Change ChangeModify k v v'] else []) @ MergePlan old_rules new_rules)"

definition BuildPolicyPlan :: "CanonicalPolicy \<Rightarrow> CanonicalPolicy \<Rightarrow> PolicyChange list" where
  "BuildPolicyPlan before after = MergePlan (IndexPolicy before) (IndexPolicy after)"

subsection \<open>Explaining a path\<close>

record PathExplanation =
  explained_package :: string
  explained_query :: string
  explained_action :: "PolicyRuleKind option"
  explained_source :: "string option"
  explained_target :: "string option"
  shadowed_parents :: "string list"

record Match =
  match_action :: PolicyRuleKind
  match_source :: NormalizedPath
  match_target :: "NormalizedPath option"

definition Matches :: "ResolvedAppPolicy \<Rightarrow> NormalizedPath \<Rightarrow> Match list" where
  "Matches app query =
     map (\<lambda>deny. \<lparr>match_action = RuleDeny, match_source = res_deny_path deny, match_target = None\<rparr>)
       (filter (\<lambda>deny. IsSameOrAncestor (res_deny_path deny) query) (res_deny app)) @
     map (\<lambda>redirect. \<lparr>match_action = RuleRedirect, match_source = res_source redirect,
                      match_target = Some (res_target redirect)\<rparr>)
       (filter (\<lambda>redirect. IsSameOrAncestor (res_source redirect) query) (res_redirects app))"

text \<open>\<open>std::max_element\<close> by path length: the index of the first longest element.\<close>

fun MaxElement :: "nat \<Rightarrow> nat \<Rightarrow> nat \<Rightarrow> nat list \<Rightarrow> nat" where
  "MaxElement best best_size index [] = best"
| "MaxElement best best_size index (n # ns) =
     (if best_size < n then MaxElement index n (index + 1) ns
      else MaxElement best best_size (index + 1) ns)"

definition NoExplanation :: "string \<Rightarrow> string \<Rightarrow> PathExplanation" where
  "NoExplanation pkg path =
     \<lparr>explained_package = pkg, explained_query = path, explained_action = None, explained_source = None,
      explained_target = None, shadowed_parents = []\<rparr>"

definition ExplainPath :: "ResolvedPolicy \<Rightarrow> string \<Rightarrow> string \<Rightarrow> RulesLimits \<Rightarrow> PathExplanation" where
  "ExplainPath policy pkg path limits =
     (case NormalizeRulePath path limits of
        None \<Rightarrow> NoExplanation pkg path
      | Some query \<Rightarrow>
          (case List.find (\<lambda>item. res_package item = pkg) (res_apps policy) of
             None \<Rightarrow> NoExplanation pkg path
           | Some app \<Rightarrow>
               let matches = sort_key (\<lambda>m. (path_bytes (match_source m), match_action m)) (Matches app query);
                   sizes = map (\<lambda>m. length (path_bytes (match_source m))) matches;
                   longest = MaxElement 0 (hd sizes) 1 (tl sizes)
               in if matches = [] then NoExplanation pkg path
                  else (NoExplanation pkg path)
                    \<lparr>explained_action := Some (match_action (matches ! longest)),
                     explained_source := Some (path_bytes (match_source (matches ! longest))),
                     explained_target := map_option path_bytes (match_target (matches ! longest)),
                     shadowed_parents :=
                       sort (map (\<lambda>i. path_bytes (match_source (matches ! i)))
                         (filter (\<lambda>i. i \<noteq> longest) [0..<length matches]))\<rparr>))"

subsection \<open>Facts about the plan of changes\<close>

abbreviation ascending :: "('k::linorder \<times> 'v) list \<Rightarrow> bool" where
  "ascending xs \<equiv> sorted_wrt (<) (map fst xs)"

lemma map_emplace_keys: "fst ` set (map_emplace k v xs) = insert k (fst ` set xs)"
  by (induction k v xs rule: map_emplace.induct) auto

lemma map_emplace_ascending: "ascending xs \<Longrightarrow> ascending (map_emplace k v xs)"
proof (induction k v xs rule: map_emplace.induct)
  case (2 k v k' v' rest)
  have "x \<in> fst ` set (map_emplace k v rest) \<Longrightarrow> k' < x" if "k' < k" for x
    using 2(2) that by (auto simp: map_emplace_keys)
  with 2 show ?case by (auto intro: less_trans)
qed simp

lemma map_emplace_lookup:
  assumes "ascending xs"
  shows "map_of (map_emplace k v xs) = (if map_of xs k = None then (map_of xs)(k \<mapsto> v) else map_of xs)"
  using assms
proof (induction k v xs rule: map_emplace.induct)
  case (2 k v k' v' rest)
  have "map_of rest k = None" if "k \<le> k'"
    using 2(2) that by (fastforce simp: map_of_eq_None_iff)
  with 2 show ?case by (auto simp: fun_eq_iff)
qed auto

text \<open>What a plan says about a key, and what it should say given the old and the new entry.\<close>

definition plan_entry :: "PolicyChange \<Rightarrow> PlanKey \<times> (PolicyChangeKind \<times> string \<times> string)" where
  "plan_entry c =
     ((change_package c, change_rule c, change_source c), (change_kind c, before_target c, after_target c))"

definition required_change :: "string option \<Rightarrow> string option \<Rightarrow> (PolicyChangeKind \<times> string \<times> string) option" where
  "required_change before after =
     (case (before, after) of
        (None, None) \<Rightarrow> None
      | (Some a, None) \<Rightarrow> Some (ChangeRemove, a, [])
      | (None, Some b) \<Rightarrow> Some (ChangeAdd, [], b)
      | (Some a, Some b) \<Rightarrow> if a = b then None else Some (ChangeModify, a, b))"

lemma plan_entry_Change [simp]: "plan_entry (Change kind k a b) = (k, (kind, a, b))"
  by (cases k) (simp add: plan_entry_def Change_def)

lemma MergePlan_keys:
  "fst ` plan_entry ` set (MergePlan xs ys) \<subseteq> fst ` set xs \<union> fst ` set ys"
proof (induction xs ys rule: MergePlan.induct)
  case (4 k v xs k' v' ys)
  show ?case
  proof (cases k k' rule: linorder_cases)
    case less
    with 4(1) show ?thesis by auto
  next
    case equal
    with 4(3) show ?thesis by auto
  next
    case greater
    with 4(2) show ?thesis by auto
  qed
qed auto

lemma MergePlan_ascending:
  assumes "ascending xs" "ascending ys"
  shows "ascending (map plan_entry (MergePlan xs ys))"
  using assms
proof (induction xs ys rule: MergePlan.induct)
  case (2 k v xs)
  thus ?case using MergePlan_keys [of xs "[]"] by fastforce
next
  case (3 k v ys)
  thus ?case using MergePlan_keys [of "[]" ys] by fastforce
next
  case (4 k v xs k' v' ys)
  have bound: "m < x" if "x \<in> fst ` plan_entry ` set (MergePlan as bs)"
    "\<forall>y \<in> fst ` set as \<union> fst ` set bs. m < y" for m x as bs
    using that MergePlan_keys [of as bs] by blast
  show ?case
  proof (cases k k' rule: linorder_cases)
    case less
    have "\<forall>y \<in> fst ` set xs \<union> fst ` set ((k', v') # ys). k < y" using 4(4,5) less by fastforce
    with less 4 bound [of _ xs "(k', v') # ys" k] show ?thesis by (auto simp: image_image)
  next
    case equal
    have "\<forall>y \<in> fst ` set xs \<union> fst ` set ys. k < y" using 4(4,5) equal by fastforce
    with equal 4 bound [of _ xs ys k] show ?thesis by (auto simp: image_image)
  next
    case greater
    have "\<forall>y \<in> fst ` set ((k, v) # xs) \<union> fst ` set ys. k' < y" using 4(4,5) greater by fastforce
    with greater 4 bound [of _ "(k, v) # xs" ys k'] show ?thesis by (auto simp: image_image)
  qed
qed simp

lemma map_of_below: "\<forall>y \<in> fst ` set xs. k < y \<Longrightarrow> map_of xs (k::'k::linorder) = None"
  by (fastforce simp: map_of_eq_None_iff)

lemma MergePlan_lookup:
  assumes "ascending xs" "ascending ys"
  shows "map_of (map plan_entry (MergePlan xs ys)) key = required_change (map_of xs key) (map_of ys key)"
  using assms
proof (induction xs ys rule: MergePlan.induct)
  case 1
  show ?case by (simp add: required_change_def)
next
  case (2 k v xs)
  have "map_of xs k = None" using 2(2) by (intro map_of_below) auto
  with 2 show ?case by (auto simp: required_change_def split: option.splits)
next
  case (3 k v ys)
  have "map_of ys k = None" using 3(3) by (intro map_of_below) auto
  with 3 show ?case by (auto simp: required_change_def split: option.splits)
next
  case (4 k v xs k' v' ys)
  have xs: "\<forall>y \<in> fst ` set xs. k < y" and ys: "\<forall>y \<in> fst ` set ys. k' < y"
    and tails: "ascending xs" "ascending ys" using 4(4,5) by auto
  note none = map_of_below [OF xs] map_of_below [OF ys]
  show ?case
  proof (cases k k' rule: linorder_cases)
    case less
    have "map_of ys k = None" using ys by (intro map_of_below ballI less_trans [OF less]) blast
    hence new: "map_of ((k', v') # ys) k = None" using less by simp
    have "map_of (map plan_entry (MergePlan xs ((k', v') # ys))) key =
        required_change (map_of xs key) (map_of ((k', v') # ys) key)"
      by (rule 4(1) [OF less tails(1) 4(5)])
    with less none new show ?thesis by (cases "key = k") (simp_all add: required_change_def)
  next
    case equal
    hence "\<not> k < k'" "\<not> k' < k" by simp_all
    note IH = 4(3) [OF this tails]
    from equal none IH show ?thesis by (cases "key = k") (simp_all add: required_change_def)
  next
    case greater
    have "map_of xs k' = None" using xs by (intro map_of_below ballI less_trans [OF greater]) blast
    hence old: "map_of ((k, v) # xs) k' = None" using greater by simp
    have "map_of (map plan_entry (MergePlan ((k, v) # xs) ys)) key =
        required_change (map_of ((k, v) # xs) key) (map_of ys key)"
      by (rule 4(2) [OF less_not_sym [OF greater] greater 4(4) tails(2)])
    with greater none old show ?thesis
      by (cases "key = k'") (simp_all add: required_change_def less_not_sym)
  qed
qed

lemma foldl_ascending:
  assumes "\<And>out x. ascending out \<Longrightarrow> ascending (f out x)" "ascending out"
  shows "ascending (foldl f out xs)"
  using assms(2)
proof (induction xs arbitrary: out)
  case (Cons x xs)
  from Cons.IH [OF assms(1) [OF Cons.prems]] show ?case by simp
qed simp

lemma IndexPolicy_ascending: "ascending (IndexPolicy policy)"
proof -
  have "ascending (IndexApp out app)" if "ascending out" for out app
    unfolding IndexApp_def Let_def by (intro foldl_ascending map_emplace_ascending that)
  thus ?thesis unfolding IndexPolicy_def by (intro foldl_ascending) simp_all
qed

lemma foldl_keys:
  assumes "\<And>out x. fst ` set (f out x) = g x \<union> fst ` set out"
  shows "fst ` set (foldl f out xs) = \<Union> (g ` set xs) \<union> fst ` set out"
  by (induction xs arbitrary: out) (auto simp: assms)

definition app_keys :: "CanonicalAppPolicy \<Rightarrow> PlanKey set" where
  "app_keys app =
     (\<lambda>p. (can_package app, RuleDeny, path_bytes p)) ` set (can_deny app) \<union>
     (\<lambda>r. (can_package app, RuleRedirect, path_bytes (can_source r))) ` set (can_redirects app)"

lemma IndexPolicy_keys: "dom (map_of (IndexPolicy policy)) = \<Union> (app_keys ` set (can_apps policy))"
proof -
  have "fst ` set (IndexApp out app) = app_keys app \<union> fst ` set out" for out app
  proof -
    let ?d = "foldl (\<lambda>out deny. map_emplace (can_package app, RuleDeny, path_bytes deny) [] out) out (can_deny app)"
    have "fst ` set ?d = (\<Union>p \<in> set (can_deny app). {(can_package app, RuleDeny, path_bytes p)}) \<union> fst ` set out"
      by (rule foldl_keys) (simp add: map_emplace_keys)
    moreover have "fst ` set (IndexApp out app) =
        (\<Union>r \<in> set (can_redirects app). {(can_package app, RuleRedirect, path_bytes (can_source r))}) \<union> fst ` set ?d"
      unfolding IndexApp_def Let_def by (rule foldl_keys) (simp add: map_emplace_keys)
    ultimately show ?thesis by (auto simp: app_keys_def)
  qed
  from foldl_keys [of IndexApp app_keys, OF this, of "[]" "can_apps policy"]
  show ?thesis by (simp add: IndexPolicy_def dom_map_of_conv_image_fst)
qed

subsection \<open>Facts about explanations\<close>

lemma MaxElement_spec:
  assumes "best < index" "best_size = xs ! best" "\<forall>j < index. xs ! j \<le> best_size" "index \<le> length xs"
  shows "MaxElement best best_size index (drop index xs) < length xs \<and>
    (\<forall>j < length xs. xs ! j \<le> xs ! MaxElement best best_size index (drop index xs))"
  using assms
proof (induction "length xs - index" arbitrary: best best_size index)
  case 0
  thus ?case by simp
next
  case (Suc n)
  hence lt: "index < length xs" by simp
  have drop: "drop index xs = xs ! index # drop (index + 1) xs" using Cons_nth_drop_Suc [OF lt] by simp
  show ?case
  proof (cases "best_size < xs ! index")
    case True
    have "\<forall>j < index + 1. xs ! j \<le> xs ! index" using Suc.prems(3) True less_Suc_eq by fastforce
    with Suc.hyps(1) [of "index + 1" index "xs ! index"] Suc.hyps(2) lt True show ?thesis
      unfolding drop by simp
  next
    case False
    have "\<forall>j < index + 1. xs ! j \<le> best_size" using Suc.prems(3) False less_Suc_eq by fastforce
    with Suc.hyps(1) [of "index + 1" best best_size] Suc.hyps(2) Suc.prems lt False show ?thesis
      unfolding drop by simp
  qed
qed

lemma MaxElement_first:
  assumes "xs \<noteq> []"
  shows "MaxElement 0 (hd xs) 1 (tl xs) < length xs"
    "j < length xs \<Longrightarrow> xs ! j \<le> xs ! MaxElement 0 (hd xs) 1 (tl xs)"
proof -
  have "drop 1 xs = tl xs" by (simp add: drop_Suc)
  moreover have "hd xs = xs ! 0" using assms by (simp add: hd_conv_nth)
  moreover have "1 \<le> length xs" using assms by (cases xs) simp_all
  ultimately show "MaxElement 0 (hd xs) 1 (tl xs) < length xs"
    "j < length xs \<Longrightarrow> xs ! j \<le> xs ! MaxElement 0 (hd xs) 1 (tl xs)"
    using MaxElement_spec [of 0 1 "xs ! 0" xs] by simp_all
qed

lemma mset_without_index:
  "i < length xs \<Longrightarrow>
   add_mset (f (xs ! i)) (mset (map (\<lambda>j. f (xs ! j)) (filter (\<lambda>j. j \<noteq> i) [0..<length xs]))) = mset (map f xs)"
proof -
  assume i: "i < length xs"
  let ?g = "\<lambda>j. f (xs ! j)"
  have "map f xs = map ?g [0..<length xs]" by (rule nth_equalityI) simp_all
  hence "mset (map f xs) = image_mset ?g (mset [0..<length xs])" by (metis mset_map)
  also have "mset [0..<length xs] = add_mset i (mset (filter (\<lambda>j. j \<noteq> i) [0..<length xs]))"
  proof -
    have "[0..<length xs] = [0..<i] @ i # [Suc i..<length xs]"
      using i upt_conv_Cons [of i "length xs"] upt_add_eq_append [of 0 i "length xs - i"] by simp
    thus ?thesis by (auto simp: filter_id_conv)
  qed
  finally show ?thesis by simp
qed

lemma Matches_sources:
  "m \<in> set (Matches app query) \<Longrightarrow> path_prefix (path_bytes (match_source m)) (path_bytes query)"
  by (auto simp: Matches_def IsSameOrAncestor_prefix)

text \<open>Of two ancestors of the same path, the shorter one is an ancestor of the other.\<close>

lemma path_prefix_chain:
  assumes "path_prefix a p" "path_prefix b p" "length a \<le> length b"
  shows "path_prefix a b"
proof -
  from assms(1,2) have "prefix (split_on (CHR ''/'') a) (split_on (CHR ''/'') b) \<or>
      prefix (split_on (CHR ''/'') b) (split_on (CHR ''/'') a)"
    unfolding path_prefix_def by (rule prefix_same_cases)
  thus ?thesis
  proof
    assume "prefix (split_on (CHR ''/'') b) (split_on (CHR ''/'') a)"
    hence "path_prefix b a" by (simp add: path_prefix_def)
    with assms(3) have "a = b" by (auto simp: path_prefix_text)
    thus ?thesis by simp
  qed (simp add: path_prefix_def)
qed

lemma ExplainPath_some:
  assumes "NormalizeRulePath path limits = Some query"
    "List.find (\<lambda>item. res_package item = pkg) (res_apps policy) = Some app"
    "Matches app query \<noteq> []"
  obtains m where "m \<in> set (Matches app query)"
    "\<forall>n \<in> set (Matches app query). length (path_bytes (match_source n)) \<le> length (path_bytes (match_source m))"
    "explained_action (ExplainPath policy pkg path limits) = Some (match_action m)"
    "explained_source (ExplainPath policy pkg path limits) = Some (path_bytes (match_source m))"
    "explained_target (ExplainPath policy pkg path limits) = map_option path_bytes (match_target m)"
    "add_mset (path_bytes (match_source m)) (mset (shadowed_parents (ExplainPath policy pkg path limits))) =
       mset (map (\<lambda>n. path_bytes (match_source n)) (Matches app query))"
    "sorted (shadowed_parents (ExplainPath policy pkg path limits))"
proof -
  define ms where "ms = sort_key (\<lambda>m. (path_bytes (match_source m), match_action m)) (Matches app query)"
  define sizes where "sizes = map (\<lambda>m. length (path_bytes (match_source m))) ms"
  define i where "i = MaxElement 0 (hd sizes) 1 (tl sizes)"
  have set: "set ms = set (Matches app query)" and mset: "mset ms = mset (Matches app query)" by (simp_all add: ms_def)
  hence ne: "ms \<noteq> []" using assms(3) by auto
  hence sizes: "sizes \<noteq> []" by (simp add: sizes_def)
  have i: "i < length ms" using MaxElement_first(1) [OF sizes] by (simp add: i_def sizes_def)
  define m where "m = ms ! i"
  define others where "others = map (\<lambda>j. path_bytes (match_source (ms ! j))) (filter (\<lambda>j. j \<noteq> i) [0..<length ms])"
  have e: "ExplainPath policy pkg path limits = (NoExplanation pkg path)
      \<lparr>explained_action := Some (match_action m), explained_source := Some (path_bytes (match_source m)),
       explained_target := map_option path_bytes (match_target m), shadowed_parents := sort others\<rparr>"
    using ne unfolding ExplainPath_def assms(1,2) option.case Let_def others_def m_def i_def sizes_def ms_def
    by (simp only: if_False)
  have "add_mset (path_bytes (match_source m)) (mset others) = mset (map (\<lambda>m. path_bytes (match_source m)) ms)"
    unfolding m_def others_def by (rule mset_without_index [OF i, of "\<lambda>m. path_bytes (match_source m)"])
  also have "\<dots> = mset (map (\<lambda>n. path_bytes (match_source n)) (Matches app query))"
    unfolding mset_map mset ..
  finally have all: "add_mset (path_bytes (match_source m)) (mset others) =
      mset (map (\<lambda>n. path_bytes (match_source n)) (Matches app query))" .
  have "length (path_bytes (match_source n)) \<le> length (path_bytes (match_source m))"
    if n: "n \<in> set (Matches app query)" for n
  proof -
    from n obtain j where "j < length ms" "n = ms ! j" unfolding set [symmetric] by (metis in_set_conv_nth)
    with MaxElement_first(2) [OF sizes, of j] i show ?thesis by (simp add: sizes_def i_def m_def)
  qed
  moreover have "m \<in> set (Matches app query)" unfolding set [symmetric] m_def by (rule nth_mem [OF i])
  ultimately show ?thesis using all by (intro that [of m]) (simp_all add: e)
qed

lemma ExplainPath_none:
  assumes "NormalizeRulePath path limits = None \<or>
     List.find (\<lambda>item. res_package item = pkg) (res_apps policy) = None \<or>
     (\<exists>query app. NormalizeRulePath path limits = Some query \<and>
        List.find (\<lambda>item. res_package item = pkg) (res_apps policy) = Some app \<and> Matches app query = [])"
  shows "ExplainPath policy pkg path limits = NoExplanation pkg path"
  using assms by (auto simp: ExplainPath_def Let_def split: option.splits)

definition rule_paths :: "ResolvedAppPolicy \<Rightarrow> string set" where
  "rule_paths app = deny_text ` set (res_deny app) \<union> (\<lambda>r. path_bytes (res_source r)) ` set (res_redirects app)"

lemma Matches_paths:
  "(\<lambda>n. path_bytes (match_source n)) ` set (Matches app query) =
     {p \<in> rule_paths app. path_prefix p (path_bytes query)}"
  by (simp add: Matches_def rule_paths_def IsSameOrAncestor_prefix image_Un image_image) blast

lemma Matches_rule:
  assumes "m \<in> set (Matches app query)"
  shows "match_action m = RuleDeny \<and> match_target m = None \<and> path_bytes (match_source m) \<in> deny_text ` set (res_deny app) \<or>
    match_action m = RuleRedirect \<and>
      (\<exists>t. match_target m = Some t \<and> (path_bytes (match_source m), path_bytes t) \<in> redirect_edges app)"
  using assms by (auto simp: Matches_def redirect_edges_def edge_def image_iff)

subsection \<open>Facts about code points\<close>

lemma all_below: "list_all P [0..<n] \<Longrightarrow> i < n \<Longrightarrow> P i"
  by (simp add: list_all_iff)

lemma lead_two: "x < 32 \<Longrightarrow>
  Utf8Lead (char_of (or 0xC0 x)) = 2 \<and> and (byte_of (char_of (or 0xC0 x))) 0x1F = x"
  by (rule all_below [where P = "\<lambda>x. Utf8Lead (char_of (or 0xC0 x)) = 2 \<and>
    and (byte_of (char_of (or 0xC0 x))) 0x1F = x" and n = 32]) code_simp

lemma lead_three: "x < 16 \<Longrightarrow>
  Utf8Lead (char_of (or 0xE0 x)) = 3 \<and> and (byte_of (char_of (or 0xE0 x))) 0x0F = x"
  by (rule all_below [where P = "\<lambda>x. Utf8Lead (char_of (or 0xE0 x)) = 3 \<and>
    and (byte_of (char_of (or 0xE0 x))) 0x0F = x" and n = 16]) code_simp

lemma lead_four: "x < 8 \<Longrightarrow>
  Utf8Lead (char_of (or 0xF0 x)) = 4 \<and> and (byte_of (char_of (or 0xF0 x))) 0x07 = x"
  by (rule all_below [where P = "\<lambda>x. Utf8Lead (char_of (or 0xF0 x)) = 4 \<and>
    and (byte_of (char_of (or 0xF0 x))) 0x07 = x" and n = 8]) code_simp

lemma lead_ascii: "x < 128 \<Longrightarrow> Utf8Lead (char_of x) = 1 \<and> byte_of (char_of x) = x"
  by (rule all_below [where P = "\<lambda>x. Utf8Lead (char_of x) = 1 \<and> byte_of (char_of x) = x" and n = 128])
    code_simp

lemma continuation: "x < 64 \<Longrightarrow>
  and (byte_of (char_of (or 0x80 x))) 0xC0 = 0x80 \<and> and (byte_of (char_of (or 0x80 x))) 0x3F = x"
  by (rule all_below [where P = "\<lambda>x. and (byte_of (char_of (or 0x80 x))) 0xC0 = 0x80 \<and>
    and (byte_of (char_of (or 0x80 x))) 0x3F = x" and n = 64]) code_simp

lemma shift_or: "x < 64 \<Longrightarrow> or (push_bit 6 v) x = v * 64 + (x::nat)"
proof -
  assume x: "x < 64"
  hence t: "take_bit 6 x = x" by (simp add: take_bit_nat_eq_self)
  have "and (push_bit 6 v) (take_bit 6 x) = 0"
    by (rule bit_eqI) (auto simp: bit_and_iff bit_push_bit_iff bit_take_bit_iff)
  hence "push_bit 6 v + x = or (push_bit 6 v) x" using t by (metis disjunctive_add_eq_or)
  thus ?thesis by (simp add: push_bit_eq_mult)
qed

lemma low_bits: "and v 0x3F = v mod (64::nat)"
proof -
  have "(0x3F::nat) = mask 6" by code_simp
  hence "and v 0x3F = take_bit 6 v" by (simp only: take_bit_eq_mask)
  thus ?thesis by (simp add: take_bit_eq_mod)
qed

lemma DecodeTail_step:
  "DecodeTail v (char_of (or 0x80 (w mod 64)) # cs) = DecodeTail (v * 64 + w mod 64) cs"
  using continuation [of "w mod 64"] by (simp add: shift_or del: of_char_of)

declare DecodeTail.simps(2) [simp del]

lemmas code_point_simps = AppendCodePoint_def DecodeCodePoint_def low_bits drop_bit_eq_div DecodeTail_step Let_def

lemma regroup: "v div 4096 * 64 + v div 64 mod 64 = v div (64::nat)"
proof -
  have "v div 4096 = v div 64 div 64" by (simp flip: div_mult2_eq)
  thus ?thesis by (simp add: mult.commute)
qed

lemma regroup_high: "v div 262144 * 64 + v div 4096 mod 64 = v div (4096::nat)"
proof -
  have "v div 262144 = v div 4096 div 64" by (simp flip: div_mult2_eq)
  thus ?thesis by (simp add: mult.commute)
qed

lemma AppendCodePoint_decodes:
  assumes "v < 2 ^ 21"
  shows "DecodeCodePoint (AppendCodePoint v @ rest) = (v, length (AppendCodePoint v))"
proof -
  consider "v < 128" | "128 \<le> v" "v < 2048" | "2048 \<le> v" "v < 65536" | "65536 \<le> v" "v < 2097152"
    using assms by fastforce
  thus ?thesis
  proof cases
    case 1
    with lead_ascii [of v] show ?thesis by (simp add: code_point_simps del: of_char_of)
  next
    case 2
    hence "v div 64 < 32" by simp
    from lead_two [OF this] 2 show ?thesis by (simp add: code_point_simps del: of_char_of)
  next
    case 3
    hence "v div 4096 < 16" by simp
    moreover have "4096 * (v div 4096) + v div 64 mod 64 * 64 + v mod 64 = v"
      using regroup [of v] div_mult_mod_eq [of v 64] by linarith
    ultimately show ?thesis using lead_three [of "v div 4096"] 3
      by (simp add: code_point_simps del: of_char_of)
  next
    case 4
    hence "v div 262144 < 8" by simp
    moreover have "262144 * (v div 262144) + v div 4096 mod 64 * 4096 + v div 64 mod 64 * 64 + v mod 64 = v"
      using regroup [of v] regroup_high [of v] div_mult_mod_eq [of v 64] by linarith
    ultimately show ?thesis using lead_four [of "v div 262144"] 4
      by (simp add: code_point_simps del: of_char_of)
  qed
qed

subsection \<open>Properties\<close>


text \<open>
  The explanation of a path names the innermost rule.  For a valid path and an application of
  the policy: no rule is named exactly when no rule's path equals the queried path or lies above it.
  Otherwise the named source is such a path and every other one lies on the way to it; the action and the
  target are those of a deny or redirect rule at that source; and the remaining ones are listed, sorted,
  as shadowed parents.
\<close>

theorem ExplainPath_innermost:
  assumes "NormalizeRulePath path limits = Some query"
    "List.find (\<lambda>item. res_package item = pkg) (res_apps policy) = Some app"
    "e = ExplainPath policy pkg path limits"
  shows "(explained_source e = None \<longleftrightarrow> \<not> (\<exists>p \<in> rule_paths app. path_prefix p path)) \<and>
    (\<forall>s. explained_source e = Some s \<longrightarrow>
       s \<in> rule_paths app \<and> path_prefix s path \<and> (\<forall>p \<in> rule_paths app. path_prefix p path \<longrightarrow> path_prefix p s) \<and>
       (explained_action e = Some RuleDeny \<and> explained_target e = None \<and> s \<in> deny_text ` set (res_deny app) \<or>
        explained_action e = Some RuleRedirect \<and>
          (\<exists>t. explained_target e = Some t \<and> (s, t) \<in> redirect_edges app)) \<and>
       insert s (set (shadowed_parents e)) = {p \<in> rule_paths app. path_prefix p path} \<and>
       sorted (shadowed_parents e))"
proof (cases "Matches app query = []")
  case True
  have "e = NoExplanation pkg path" using ExplainPath_none assms True by blast
  moreover have "\<not> (\<exists>p \<in> rule_paths app. path_prefix p path)"
    using Matches_paths [of app query] NormalizeRulePath_bytes [OF assms(1)] True by auto
  ultimately show ?thesis by (simp add: NoExplanation_def)
next
  case False
  from ExplainPath_some [OF assms(1,2) False] obtain m where m: "m \<in> set (Matches app query)"
    and longest: "\<forall>n \<in> set (Matches app query).
      length (path_bytes (match_source n)) \<le> length (path_bytes (match_source m))"
    and e: "explained_action e = Some (match_action m)" "explained_source e = Some (path_bytes (match_source m))"
      "explained_target e = map_option path_bytes (match_target m)" "sorted (shadowed_parents e)"
    and shadow: "add_mset (path_bytes (match_source m)) (mset (shadowed_parents e)) =
      mset (map (\<lambda>n. path_bytes (match_source n)) (Matches app query))"
    unfolding assms(3) by blast
  have paths: "(\<lambda>n. path_bytes (match_source n)) ` set (Matches app query) = {p \<in> rule_paths app. path_prefix p path}"
    using Matches_paths [of app query] NormalizeRulePath_bytes [OF assms(1)] by simp
  with m have s: "path_bytes (match_source m) \<in> rule_paths app" "path_prefix (path_bytes (match_source m)) path"
    by auto
  have "path_prefix p (path_bytes (match_source m))" if "p \<in> rule_paths app" "path_prefix p path" for p
  proof -
    from that paths have "p \<in> (\<lambda>n. path_bytes (match_source n)) ` set (Matches app query)" by simp
    then obtain n where "n \<in> set (Matches app query)" "p = path_bytes (match_source n)" by blast
    with longest that(2) s(2) show ?thesis by (blast intro: path_prefix_chain)
  qed
  moreover have "insert (path_bytes (match_source m)) (set (shadowed_parents e)) = {p \<in> rule_paths app. path_prefix p path}"
    using arg_cong [OF shadow, of set_mset] paths by simp
  ultimately show ?thesis using s e Matches_rule [OF m] by auto
qed

definition explained_policy :: ResolvedPolicy where
  "explained_policy =
     \<lparr>res_allow_legacy_mount = False,
      res_apps = [sample_app [''DCIM/Camera/secret''] [(''DCIM'', ''Pictures''), (''DCIM/Camera'', ''Movies'')]]\<rparr>"

theorem ExplainPath_innermost_witness:
  "explained_source (ExplainPath explained_policy ''com.example.app'' ''DCIM/Camera/x'' default_limits) = Some ''DCIM/Camera'' \<and>
   {p \<in> rule_paths (hd (res_apps explained_policy)). path_prefix p ''DCIM/Camera/x''} \<subseteq>
     {p. path_prefix p ''DCIM/Camera''}"
proof -
  let ?e = "ExplainPath explained_policy ''com.example.app'' ''DCIM/Camera/x'' default_limits"
  have "NormalizeRulePath ''DCIM/Camera/x'' default_limits = Some (plain_path ''DCIM/Camera/x'')" by code_simp
  moreover have "List.find (\<lambda>item. res_package item = ''com.example.app'') (res_apps explained_policy) =
      Some (hd (res_apps explained_policy))" by (simp add: explained_policy_def sample_app_def)
  moreover have "explained_source ?e = Some ''DCIM/Camera''" by code_simp
  ultimately show ?thesis using ExplainPath_innermost [OF _ _ refl] by blast
qed

end
