(* ===== verification/PG_Runtime.thy ===== *)
theory PG_Runtime
  imports PG_RoundTrip
begin

text \<open>
  The policy loader of the Zygisk module, \<open>zygisk/src/module_entry.cpp\<close>: from the mapped policy file, a
  process name and a uid to the plan of mounts of that process (\<open>LoadProcessPlan\<close>), with the table
  validation, the scope tests and the expansion of \<open>{user}\<close>.

  The mapped file is a byte list; as in the decoder, \<open>None\<close> at the outside stands for a read outside
  it.  A \<open>const char*\<close> into the file is the text up to its NUL, a null pointer is \<open>None\<close>.  The plan's
  path buffer is the list of its used bytes, so \<open>path_bytes\<close> is its length.  What a failed call leaves
  in the plan is not modelled: every caller discards it.
\<close>

subsection \<open>Constants and plans\<close>

definition kMaxMountRules :: nat where "kMaxMountRules = 64"
definition kMaxPlanPathBytes :: nat where "kMaxPlanPathBytes = 64 * 1024"
definition kMaxProcessNameBytes :: nat where "kMaxProcessNameBytes = 256"
definition kDenyAction :: u8 where "kDenyAction = 0"
definition kRedirectAction :: u8 where "kRedirectAction = 1"

record PlannedMount =
  planned_action :: u8
  planned_visible :: u32
  planned_backing :: u32

record ProcessPlan =
  snapshot_generation :: u64
  plan_generation :: u64
  plan_policy_flags :: u32
  plan_media_compat :: bool
  plan_provider_compat :: bool
  plan_process_name :: string
  plan_mounts :: "PlannedMount list"
  plan_paths :: bytes

definition PlanPath :: "ProcessPlan \<Rightarrow> u32 \<Rightarrow> string option" where
  "PlanPath plan offset =
     (if unat offset < length (plan_paths plan)
      then Some (bytes_string (takeWhile (\<lambda>b. b \<noteq> 0) (drop (unat offset) (plan_paths plan)))) else None)"

definition StorePlanPath :: "ProcessPlan \<Rightarrow> string \<Rightarrow> (u32 \<times> ProcessPlan) option" where
  "StorePlanPath plan path =
     (if length path + 1 > kMaxPlanPathBytes - length (plan_paths plan) then None
      else Some (of_nat (length (plan_paths plan)),
                 plan\<lparr>plan_paths := plan_paths plan @ string_bytes path @ [0]\<rparr>))"

definition IsExecutableMountAction :: "u8 \<Rightarrow> bool" where
  "IsExecutableMountAction action \<longleftrightarrow> action = kDenyAction \<or> action = kRedirectAction"

subsection \<open>Texts\<close>

definition ReadPolicyString :: "bytes \<Rightarrow> u32 \<Rightarrow> u32 \<Rightarrow> string option" where
  "ReadPolicyString data str_offset relative_offset =
     (if unat str_offset > length data \<or>
         unat relative_offset \<ge> length data - unat str_offset then None
      else let text = drop (unat str_offset + unat relative_offset) data in
           if 0 \<in> set text then Some (bytes_string (takeWhile (\<lambda>b. b \<noteq> 0) text)) else None)"

fun ListContainsLoop :: "string \<Rightarrow> string \<Rightarrow> bool" where
  "ListContainsLoop current expected =
     (if current = [] then False
      else if takeWhile (\<lambda>c. c \<noteq> CHR '','') current = expected then True
      else case dropWhile (\<lambda>c. c \<noteq> CHR '','') current of
             [] \<Rightarrow> False
           | _ # rest \<Rightarrow> ListContainsLoop rest expected)"

declare ListContainsLoop.simps [simp del]

definition ListContains :: "string \<Rightarrow> string \<Rightarrow> bool" where
  "ListContains list expected = (if list = ''*'' then True else ListContainsLoop list expected)"

definition ProcessMatches :: "string \<Rightarrow> string \<Rightarrow> string \<Rightarrow> bool" where
  "ProcessMatches package_name process_list process_name =
     (if process_list \<noteq> ''*'' then ListContains process_list process_name
      else package_name = process_name \<or>
           (take (length package_name) process_name = package_name \<and>
            length process_name > length package_name \<and>
            process_name ! length package_name = CHR '':''))"

text \<open>The component loop runs until the end of the text, so a trailing slash passes it.\<close>

fun SafeComponentsLoop :: "string \<Rightarrow> bool" where
  "SafeComponentsLoop component =
     (if component = [] then True
      else let part = takeWhile (\<lambda>c. c \<noteq> CHR ''/'') component in
           if part = [] \<or> part = ''.'' \<or> part = ''..'' then False
           else case dropWhile (\<lambda>c. c \<noteq> CHR ''/'') component of
                  [] \<Rightarrow> True
                | _ # rest \<Rightarrow> SafeComponentsLoop rest)"

declare SafeComponentsLoop.simps [simp del]

definition HasSafePathComponents :: "string \<Rightarrow> bool" where
  "HasSafePathComponents path =
     (if path = [] \<or> hd path = CHR ''/'' then False else SafeComponentsLoop path)"

definition IsAllowedTarget :: "string \<Rightarrow> bool" where
  "IsAllowedTarget path \<longleftrightarrow>
     HasSafePathComponents path \<and> CHR ''{'' \<notin> set path \<and> CHR ''}'' \<notin> set path"

function ExpandRuntimeLoop :: "string \<Rightarrow> nat \<Rightarrow> string \<Rightarrow> string \<Rightarrow> string option" where
  "ExpandRuntimeLoop user capacity output [] = Some output"
| "ExpandRuntimeLoop user capacity output (c # cs) =
     (if prefix ''{user}'' (c # cs) then
        if length output + length user \<ge> capacity then None
        else ExpandRuntimeLoop user capacity (output @ user) (drop 6 (c # cs))
      else if c = CHR ''{'' \<or> c = CHR ''}'' \<or> length output + 1 \<ge> capacity then None
      else ExpandRuntimeLoop user capacity (output @ [c]) cs)"
  by pat_completeness auto
termination
  by (relation "measure (\<lambda>(_, _, _, s). length s)") auto

definition ExpandRuntimePath :: "string \<Rightarrow> u32 \<Rightarrow> nat \<Rightarrow> string option" where
  "ExpandRuntimePath input user capacity =
     (if capacity = 0 then None
      else let text = to_string (unat user) in
           if length text \<ge> 16 then None
           else case ExpandRuntimeLoop text capacity [] input of
                  None \<Rightarrow> None
                | Some output \<Rightarrow> if IsAllowedTarget output then Some output else None)"

definition BuildPathUnderRoot :: "string \<Rightarrow> string \<Rightarrow> nat \<Rightarrow> string option" where
  "BuildPathUnderRoot root logical_path output_size =
     (if root = [] \<or> hd root \<noteq> CHR ''/'' \<or> \<not> IsAllowedTarget logical_path \<or> output_size = 0 then None
      else let output = root @ CHR ''/'' # logical_path in
           if length output < output_size then Some output else None)"

subsection \<open>Validation of the tables\<close>

fun ValidPackageIndexLoop ::
  "bytes \<Rightarrow> PolicyHeader \<Rightarrow> u32 \<Rightarrow> string \<Rightarrow> nat list \<Rightarrow> bool option" where
  "ValidPackageIndexLoop data h prev_hash prev_name [] = Some True"
| "ValidPackageIndexLoop data h prev_hash prev_name (index # rest) =
     (let entry = unat (hdr_package_offset h) + index * kPackageSize in
      do { hash \<leftarrow> Read32 data (entry + kPackageHashOffset);
           name_offset \<leftarrow> Read32 data (entry + kPackageNameOffset);
           case ReadPolicyString data (hdr_string_offset h) name_offset of
             None \<Rightarrow> Some False
           | Some name \<Rightarrow>
               if PackageNameHash name \<noteq> hash \<or>
                  (index > 0 \<and> (hash < prev_hash \<or> (hash = prev_hash \<and> name \<le> prev_name)))
               then Some False
               else ValidPackageIndexLoop data h hash name rest })"

definition ValidPackageIndex :: "bytes \<Rightarrow> PolicyHeader \<Rightarrow> bool option" where
  "ValidPackageIndex data h = ValidPackageIndexLoop data h 0 [] [0..<unat (hdr_package_count h)]"

fun ValidPackageRanges ::
  "bytes \<Rightarrow> PolicyHeader \<Rightarrow> u32 \<Rightarrow> u32 \<Rightarrow> nat list \<Rightarrow> bool option" where
  "ValidPackageRanges data h expected_m expected_e [] =
     Some (expected_m = hdr_mount_count h \<and> expected_e = hdr_event_count h)"
| "ValidPackageRanges data h expected_m expected_e (index # rest) =
     (let entry = unat (hdr_package_offset h) + index * kPackageSize in
      do { first_mount \<leftarrow> Read32 data (entry + kPackageFirstMountOffset);
           package_mount_count \<leftarrow> Read32 data (entry + kPackageMountCountOffset);
           first_event \<leftarrow> Read32 data (entry + kPackageFirstEventOffset);
           package_event_count \<leftarrow> Read32 data (entry + kPackageEventCountOffset);
           failure \<leftarrow> rd8 data (entry + kPackageFailureModeOffset);
           media \<leftarrow> rd8 data (entry + kPackageMediaCompatOffset);
           provider \<leftarrow> rd8 data (entry + kPackageProviderCompatOffset);
           reserved8 \<leftarrow> rd8 data (entry + 43);
           reserved32 \<leftarrow> Read32 data (entry + 44);
           if first_mount \<noteq> expected_m \<or> package_mount_count > hdr_mount_count h - first_mount \<or>
              first_event \<noteq> expected_e \<or> package_event_count > hdr_event_count h - first_event \<or>
              failure > 1 \<or> media > 1 \<or> provider > 1 \<or> reserved8 \<noteq> 0 \<or> reserved32 \<noteq> 0
           then Some False
           else ValidPackageRanges data h (expected_m + package_mount_count)
                  (expected_e + package_event_count) rest })"

fun ValidMountTable :: "bytes \<Rightarrow> PolicyHeader \<Rightarrow> nat list \<Rightarrow> bool option" where
  "ValidMountTable data h [] = Some True"
| "ValidMountTable data h (index # rest) =
     (let rule = unat (hdr_mount_offset h) + index * kMountRuleSize in
      do { action \<leftarrow> rd8 data (rule + kMountActionOffset);
           reserved8 \<leftarrow> rd8 data (rule + 1);
           reserved16 \<leftarrow> Read16 data (rule + 6);
           visible \<leftarrow> Read32 data (rule + kMountVisiblePathOffset);
           backing \<leftarrow> Read32 data (rule + kMountBackingPathOffset);
           if action > 3 \<or> reserved8 \<noteq> 0 \<or> reserved16 \<noteq> 0 \<or>
              ReadPolicyString data (hdr_string_offset h) visible = None \<or>
              ReadPolicyString data (hdr_string_offset h) backing = None
           then Some False else ValidMountTable data h rest })"

fun ValidEventTable :: "bytes \<Rightarrow> PolicyHeader \<Rightarrow> nat list \<Rightarrow> bool option" where
  "ValidEventTable data h [] = Some True"
| "ValidEventTable data h (index # rest) =
     (let rule = unat (hdr_event_offset h) + index * kEventRuleSize in
      do { action \<leftarrow> rd8 data (rule + kEventActionOffset);
           reserved8 \<leftarrow> rd8 data (rule + 1);
           reserved16 \<leftarrow> Read16 data (rule + 2);
           source \<leftarrow> Read32 data (rule + kEventSourcePathOffset);
           target \<leftarrow> Read32 data (rule + kEventTargetPathOffset);
           if action > 1 \<or> reserved8 \<noteq> 0 \<or> reserved16 \<noteq> 0 \<or>
              ReadPolicyString data (hdr_string_offset h) source = None \<or>
              ReadPolicyString data (hdr_string_offset h) target = None
           then Some False else ValidEventTable data h rest })"

definition ValidPolicyTables :: "bytes \<Rightarrow> PolicyHeader \<Rightarrow> bool option" where
  "ValidPolicyTables data h =
     do { ranges \<leftarrow> ValidPackageRanges data h 0 0 [0..<unat (hdr_package_count h)];
          if \<not> ranges then Some False
          else do { mounts_ok \<leftarrow> ValidMountTable data h [0..<unat (hdr_mount_count h)];
                    if \<not> mounts_ok then Some False
                    else ValidEventTable data h [0..<unat (hdr_event_count h)] } }"

text \<open>The header test is the one of \<open>DecodePolicy\<close>; the tables are only looked at when it holds.\<close>

definition ValidPolicyFile :: "bytes \<Rightarrow> PolicyHeader \<Rightarrow> bool option" where
  "ValidPolicyFile data h =
     do { header \<leftarrow> HeaderValid data h;
          if \<not> header then Some False
          else do { index \<leftarrow> ValidPackageIndex data h;
                    if \<not> index then Some False else ValidPolicyTables data h } }"

subsection \<open>Loading a plan\<close>

text \<open>\<open>snprintf("%d", uid / 100000)\<close> on a signed 32-bit uid, and the unsigned quotient.\<close>

definition SignedUserText :: "u32 \<Rightarrow> string" where
  "SignedUserText uid =
     (let v = sint uid; q = nat \<bar>v\<bar> div 100000 in
      if v < 0 \<and> q \<noteq> 0 then CHR ''-'' # to_string q else to_string q)"

definition UserOfUid :: "u32 \<Rightarrow> u32" where
  "UserOfUid uid = of_nat (unat uid div 100000)"

definition LoadRule :: "bytes \<Rightarrow> PolicyHeader \<Rightarrow> u32 \<Rightarrow> ProcessPlan \<Rightarrow> u32 \<Rightarrow> ProcessPlan option option" where
  "LoadRule data h uid plan index =
     (let rule = unat (hdr_mount_offset h) + unat index * kMountRuleSize in
      do { action \<leftarrow> rd8 data (rule + kMountActionOffset);
           visible_offset \<leftarrow> Read32 data (rule + kMountVisiblePathOffset);
           backing_offset \<leftarrow> Read32 data (rule + kMountBackingPathOffset);
           reserved8 \<leftarrow> rd8 data (rule + 1);
           reserved16 \<leftarrow> Read16 data (rule + 6);
           Some (case (ReadPolicyString data (hdr_string_offset h) visible_offset,
                       ReadPolicyString data (hdr_string_offset h) backing_offset) of
                   (Some visible, Some backing) \<Rightarrow>
                     let deny = (action = kDenyAction);
                         expanded = (if deny then (if backing = [] then Some [] else None)
                                     else ExpandRuntimePath backing (UserOfUid uid) PATH_MAX) in
                     if \<not> IsExecutableMountAction action \<or> reserved8 \<noteq> 0 \<or> reserved16 \<noteq> 0 \<or>
                        \<not> IsAllowedTarget visible \<or> expanded = None \<or> length visible \<ge> PATH_MAX
                     then None
                     else (case StorePlanPath plan visible of
                             None \<Rightarrow> None
                           | Some (visible_at, plan1) \<Rightarrow>
                               case StorePlanPath plan1 (the expanded) of
                                 None \<Rightarrow> None
                               | Some (backing_at, plan2) \<Rightarrow>
                                   Some (plan2\<lparr>plan_mounts := plan_mounts plan2 @
                                     [\<lparr>planned_action = action, planned_visible = visible_at,
                                       planned_backing = backing_at\<rparr>]\<rparr>))
                 | _ \<Rightarrow> None) })"

fun LoadRules ::
  "bytes \<Rightarrow> PolicyHeader \<Rightarrow> u32 \<Rightarrow> u32 \<Rightarrow> ProcessPlan \<Rightarrow> nat list \<Rightarrow> ProcessPlan option option" where
  "LoadRules data h uid first_rule plan [] = Some (Some plan)"
| "LoadRules data h uid first_rule plan (rule_index # rest) =
     do { r \<leftarrow> LoadRule data h uid plan (first_rule + of_nat rule_index);
          case r of None \<Rightarrow> Some None
          | Some plan' \<Rightarrow> LoadRules data h uid first_rule plan' rest }"

definition LoadEntry ::
  "bytes \<Rightarrow> PolicyHeader \<Rightarrow> string \<Rightarrow> u32 \<Rightarrow> nat \<Rightarrow> ProcessPlan option option" where
  "LoadEntry data h process_name uid entry =
     do { name_offset \<leftarrow> Read32 data (entry + kPackageNameOffset);
          users_offset \<leftarrow> Read32 data (entry + kPackageUsersOffset);
          processes_offset \<leftarrow> Read32 data (entry + kPackageProcessesOffset);
          first_rule \<leftarrow> Read32 data (entry + kPackageFirstMountOffset);
          rule_count \<leftarrow> Read32 data (entry + kPackageMountCountOffset);
          first_event \<leftarrow> Read32 data (entry + kPackageFirstEventOffset);
          app_event_count \<leftarrow> Read32 data (entry + kPackageEventCountOffset);
          failure \<leftarrow> rd8 data (entry + kPackageFailureModeOffset);
          media \<leftarrow> rd8 data (entry + kPackageMediaCompatOffset);
          provider \<leftarrow> rd8 data (entry + kPackageProviderCompatOffset);
          reserved8 \<leftarrow> rd8 data (entry + 43);
          reserved32 \<leftarrow> Read32 data (entry + 44);
          if failure \<noteq> 0 \<or> media > 1 \<or> provider > 1 \<or> first_event > hdr_event_count h \<or>
             app_event_count > hdr_event_count h - first_event \<or> app_event_count \<noteq> 0 \<or>
             reserved8 \<noteq> 0 \<or> reserved32 \<noteq> 0
          then Some None
          else do {
            generation \<leftarrow> Read64 data kContentGenerationOffset;
            plan_gen \<leftarrow> Read64 data (entry + kPackagePlanGenerationOffset);
            case (ReadPolicyString data (hdr_string_offset h) name_offset,
                  ReadPolicyString data (hdr_string_offset h) users_offset,
                  ReadPolicyString data (hdr_string_offset h) processes_offset) of
              (Some package_name, Some us, Some procs) \<Rightarrow>
                if \<not> ProcessMatches package_name procs process_name \<or>
                   \<not> ListContains us (SignedUserText uid)
                then Some None
                else if first_rule > hdr_mount_count h \<or>
                   rule_count > hdr_mount_count h - first_rule \<or> unat rule_count > kMaxMountRules
                then Some None
                else do {
                  r \<leftarrow> LoadRules data h uid first_rule
                         \<lparr>snapshot_generation = generation, plan_generation = plan_gen,
                          plan_policy_flags = hdr_flags h, plan_media_compat = (media = 1),
                          plan_provider_compat = (provider = 1), plan_process_name = process_name,
                          plan_mounts = [], plan_paths = [0]\<rparr>
                         [0..<unat rule_count];
                  Some (case r of None \<Rightarrow> None
                        | Some plan \<Rightarrow> if plan_mounts plan = [] then None else Some plan) }
            | _ \<Rightarrow> Some None } }"

definition LoadProcessPlan :: "bytes \<Rightarrow> string \<Rightarrow> u32 \<Rightarrow> ProcessPlan option option" where
  "LoadProcessPlan data process_name uid =
     (if length process_name \<ge> kMaxProcessNameBytes then Some None
      else if length data < kHeaderSize then Some None
      else do {
        h \<leftarrow> ReadHeader data;
        valid \<leftarrow> ValidPolicyFile data h;
        if \<not> valid then Some None
        else
          let package_name = takeWhile (\<lambda>c. c \<noteq> CHR '':'') process_name in
          if package_name = [] then Some None
          else do {
            entry \<leftarrow> FindPackageEntry (index_view data h) package_name;
            case entry of None \<Rightarrow> Some None
            | Some offset \<Rightarrow> LoadEntry data h process_name uid offset } })"

definition SameProcessPlan :: "ProcessPlan \<Rightarrow> ProcessPlan \<Rightarrow> bool" where
  "SameProcessPlan expected actual \<longleftrightarrow>
     snapshot_generation expected = snapshot_generation actual \<and>
     plan_generation expected = plan_generation actual \<and>
     plan_policy_flags expected = plan_policy_flags actual \<and>
     length (plan_mounts expected) = length (plan_mounts actual) \<and>
     plan_media_compat expected = plan_media_compat actual \<and>
     plan_provider_compat expected = plan_provider_compat actual \<and>
     plan_process_name expected = plan_process_name actual \<and>
     list_all2 (\<lambda>lhs rhs.
        planned_action lhs = planned_action rhs \<and>
        PlanPath expected (planned_visible lhs) \<noteq> None \<and>
        PlanPath expected (planned_backing lhs) \<noteq> None \<and>
        PlanPath actual (planned_visible rhs) \<noteq> None \<and>
        PlanPath actual (planned_backing rhs) \<noteq> None \<and>
        PlanPath expected (planned_visible lhs) = PlanPath actual (planned_visible rhs) \<and>
        PlanPath expected (planned_backing lhs) = PlanPath actual (planned_backing rhs))
       (plan_mounts expected) (plan_mounts actual)"

subsection \<open>Every read of the loader stays inside the file\<close>

lemma option_case_defined:
  assumes "a = None \<Longrightarrow> d \<noteq> None" "\<And>x. a = Some x \<Longrightarrow> f x \<noteq> None"
  shows "(case a of None \<Rightarrow> d | Some x \<Rightarrow> f x) \<noteq> None"
  using assms by (cases a) auto

lemma package_entry_bound:
  assumes "table_layout data h" "index < unat (hdr_package_count h)"
  shows "unat (hdr_package_offset h) + index * kPackageSize + 48 \<le> length data"
  using assms by (simp add: layout_defs)

lemma ValidPackageIndexLoop_defined:
  assumes "table_layout data h"
  shows "\<forall>i \<in> set is. i < unat (hdr_package_count h) \<Longrightarrow>
    ValidPackageIndexLoop data h ph pn is \<noteq> None"
proof (induction "is" arbitrary: ph pn)
  case (Cons i "is")
  note bound = package_entry_bound [OF assms, of i]
  show ?case
    unfolding ValidPackageIndexLoop.simps Let_def package_offset_defs
    by (intro bind_defined option_case_defined if_defined)
      (use Cons bound in \<open>simp_all add: rd_defined_simps del: not_None_eq\<close>)
qed simp

lemma ValidPackageRanges_defined:
  assumes "table_layout data h"
  shows "\<forall>i \<in> set is. i < unat (hdr_package_count h) \<Longrightarrow>
    ValidPackageRanges data h em ee is \<noteq> None"
proof (induction "is" arbitrary: em ee)
  case (Cons i "is")
  note bound = package_entry_bound [OF assms, of i]
  show ?case
    unfolding ValidPackageRanges.simps Let_def package_offset_defs
    by (intro bind_defined if_defined)
      (use Cons bound in \<open>simp_all add: rd_defined_simps del: not_None_eq\<close>)
qed simp

lemma ValidMountTable_defined:
  assumes "table_layout data h"
  shows "\<forall>i \<in> set is. i < unat (hdr_mount_count h) \<Longrightarrow> ValidMountTable data h is \<noteq> None"
proof (induction "is")
  case (Cons i "is")
  have bound: "unat (hdr_mount_offset h) + i * kMountRuleSize + 16 \<le> length data"
    using assms Cons.prems by (simp add: layout_defs)
  show ?case
    unfolding ValidMountTable.simps Let_def rule_offset_defs
    by (intro bind_defined if_defined)
      (use Cons bound in \<open>simp_all add: rd_defined_simps del: not_None_eq\<close>)
qed simp

lemma ValidEventTable_defined:
  assumes "table_layout data h"
  shows "\<forall>i \<in> set is. i < unat (hdr_event_count h) \<Longrightarrow> ValidEventTable data h is \<noteq> None"
proof (induction "is")
  case (Cons i "is")
  have bound: "unat (hdr_event_offset h) + i * kEventRuleSize + 16 \<le> length data"
    using assms Cons.prems by (simp add: layout_defs)
  show ?case
    unfolding ValidEventTable.simps Let_def rule_offset_defs
    by (intro bind_defined if_defined)
      (use Cons bound in \<open>simp_all add: rd_defined_simps del: not_None_eq\<close>)
qed simp

lemma ValidPolicyFile_defined:
  assumes "kHeaderSize \<le> length data"
  shows "ValidPolicyFile data h \<noteq> None"
proof -
  obtain v where v: "HeaderValid data h = Some v" using HeaderValid_defined [OF assms] by blast
  show ?thesis
  proof (cases v)
    case True
    hence t: "table_layout data h" using v by (simp add: HeaderValid_layout)
    show ?thesis
      unfolding ValidPolicyFile_def v ValidPackageIndex_def ValidPolicyTables_def
      by (intro bind_defined if_defined ValidPackageIndexLoop_defined [OF t]
          ValidPackageRanges_defined [OF t] ValidMountTable_defined [OF t] ValidEventTable_defined [OF t])
        (use True in \<open>simp_all del: not_None_eq\<close>)
  qed (simp add: ValidPolicyFile_def v)
qed

lemma ValidPolicyFile_layout: "ValidPolicyFile data h = Some True \<Longrightarrow> HeaderValid data h = Some True"
  by (auto simp: ValidPolicyFile_def bind_eq_Some_conv split: if_splits)

lemma LoadRule_defined:
  assumes "table_layout data h" "unat index < unat (hdr_mount_count h)"
  shows "LoadRule data h uid plan index \<noteq> None"
proof -
  have bound: "unat (hdr_mount_offset h) + unat index * kMountRuleSize + 16 \<le> length data"
    using assms by (simp add: layout_defs)
  show ?thesis
    unfolding LoadRule_def Let_def rule_offset_defs
    by (intro bind_defined) (use bound in \<open>simp_all add: rd_defined_simps del: not_None_eq\<close>)
qed

lemma LoadRules_defined:
  assumes "table_layout data h"
  shows "(\<And>i. i \<in> set is \<Longrightarrow> unat (first + of_nat i) < unat (hdr_mount_count h)) \<Longrightarrow>
    LoadRules data h uid first plan is \<noteq> None"
proof (induction "is" arbitrary: plan)
  case (Cons i "is")
  show ?case
    unfolding LoadRules.simps
    by (intro bind_defined option_case_defined LoadRule_defined [OF assms])
      (use Cons in \<open>simp_all del: not_None_eq\<close>)
qed simp

lemma LoadEntry_defined:
  assumes t: "table_layout data h" and e: "entry + kPackageSize \<le> length data"
  shows "LoadEntry data h process uid entry \<noteq> None"
proof -
  have size: "56 \<le> length data" using t by (simp add: layout_defs)
  have rules: "LoadRules data h uid first plan [0..<unat count] \<noteq> None"
    if "\<not> hdr_mount_count h < first" "\<not> hdr_mount_count h - first < count" for first count plan
    using that u32_range(3,4) [of first "hdr_mount_count h" count]
    by (intro LoadRules_defined [OF t]) (auto simp: not_less)
  show ?thesis
    unfolding LoadEntry_def package_offset_defs kContentGenerationOffset_def
    by (intro bind_defined if_defined prod_case_option3_defined)
      (use e size in \<open>simp_all add: rd_defined_simps rules kPackageSize_def del: not_None_eq\<close>)
qed

lemma ScanEntries_offset:
  "ScanEntries input view name eh i = Some (Some off) \<Longrightarrow>
   \<exists>j. i \<le> j \<and> j < unat (package_count view) \<and> off = EntryOffset view j"
proof (induction input view name eh i rule: ScanEntries.induct)
  case (1 input view name eh i)
  from 1(2) have i: "i < unat (package_count view)"
    by (subst (asm) ScanEntries.simps) (auto split: if_splits)
  from 1(2) i obtain h where h: "ReadLe32 input (EntryOffset view i + kPackageHashOffset) = Some h" "h = eh"
    by (subst (asm) ScanEntries.simps) (auto simp: bind_eq_Some_conv split: if_splits)
  from 1(2) i h obtain hit where hit: "EntryNameMatches input view name (EntryOffset view i) = Some hit"
    by (subst (asm) ScanEntries.simps) (auto simp: bind_eq_Some_conv split: if_splits)
  show ?case
  proof (cases hit)
    case True
    with 1(2) i h hit have "off = EntryOffset view i"
      by (subst (asm) ScanEntries.simps) (simp split: if_splits)
    with i show ?thesis by blast
  next
    case False
    with 1(2) i h hit have "ScanEntries input view name eh (i + 1) = Some (Some off)"
      by (subst (asm) ScanEntries.simps) (simp split: if_splits)
    with 1(1) [OF i h(1) _ hit] h(2) False show ?thesis by (metis Suc_eq_plus1 Suc_leD)
  qed
qed

lemma FindPackageEntry_offset:
  "FindPackageEntry view name = Some (Some off) \<Longrightarrow>
   ValidPolicyIndex view \<and> (\<exists>j. j < unat (package_count view) \<and> off = EntryOffset view j)"
  by (auto simp: FindPackageEntry_def bind_eq_Some_conv dest!: ScanEntries_offset
      split: if_splits option.splits)

lemma LoadProcessPlan_defined: "LoadProcessPlan data process uid \<noteq> None"
proof (cases "length data < kHeaderSize")
  case False
  hence size: "kHeaderSize \<le> length data" by simp
  obtain h where h: "ReadHeader data = Some h" using ReadHeader_defined [OF size] by blast
  obtain valid where valid: "ValidPolicyFile data h = Some valid"
    using ValidPolicyFile_defined [OF size] by blast
  have find: "FindPackageEntry (index_view data h) name \<noteq> None" for name
    using FindPackageEntry_defined [of "index_view data h" name] by (auto simp: index_view_def)
  have entry: "LoadEntry data h process uid off \<noteq> None"
    if v: valid and f: "FindPackageEntry (index_view data h) name = Some (Some off)" for name off
  proof -
    have t: "table_layout data h"
      using valid v by (simp add: HeaderValid_layout ValidPolicyFile_layout)
    from FindPackageEntry_offset [OF f] obtain j where j: "ValidPolicyIndex (index_view data h)"
      "j < unat (package_count (index_view data h))" "off = EntryOffset (index_view data h) j" by blast
    have "off + kPackageSize \<le> length data"
      using EntryOffset_in_bounds [OF j(1,2)] j(3) by (simp add: index_view_def)
    thus ?thesis by (rule LoadEntry_defined [OF t])
  qed
  show ?thesis
    unfolding LoadProcessPlan_def Let_def h valid Option.bind.simps
    by (intro if_defined bind_defined option_case_defined)
      (use find entry in \<open>simp_all del: not_None_eq\<close>)
qed (simp add: LoadProcessPlan_def)

subsection \<open>Scope and text lemmas\<close>

lemma ListContainsLoop_split:
  "x \<noteq> [] \<Longrightarrow> ListContainsLoop current x \<longleftrightarrow> x \<in> set (split_on CHR '','' current)"
proof (induction "length current" arbitrary: current rule: less_induct)
  case less
  show ?case
  proof (cases "dropWhile (\<lambda>c. c \<noteq> CHR '','') current")
    case Nil
    with less.prems show ?thesis
      by (subst ListContainsLoop.simps, subst split_on_unfold) (auto simp: Nil)
  next
    case (Cons c rest)
    have "length rest < length current" using Cons by (rule length_dropWhile_Cons)
    moreover from this have "current \<noteq> []" by auto
    ultimately show ?thesis using less.hyps [OF _ less.prems]
      by (subst ListContainsLoop.simps, subst split_on_unfold) (auto simp: Cons)
  qed
qed

lemma Join_split:
  assumes "vals \<noteq> []" "\<forall>v \<in> set vals. CHR '','' \<notin> set v"
  shows "split_on CHR '','' (Join vals) = vals" "Join vals = ''*'' \<longleftrightarrow> vals = [''*'']"
proof -
  show s: "split_on CHR '','' (Join vals) = vals" using assms by (simp add: Join_eq split_join)
  show "Join vals = ''*'' \<longleftrightarrow> vals = [''*'']"
  proof
    assume "Join vals = ''*''"
    hence "split_on CHR '','' ''*'' = vals" using s by simp
    thus "vals = [''*'']" by simp
  qed (simp add: Join_eq)
qed

lemma ListContains_Join:
  assumes "vals \<noteq> []" "\<forall>v \<in> set vals. CHR '','' \<notin> set v" "x \<noteq> []"
  shows "ListContains (Join vals) x \<longleftrightarrow> vals = [''*''] \<or> x \<in> set vals"
  using assms by (simp add: ListContains_def ListContainsLoop_split Join_split)

definition process_in_scope :: "AppPolicy \<Rightarrow> string \<Rightarrow> bool" where
  "process_in_scope app process \<longleftrightarrow>
     (if processes app = [''*''] then process = package app \<or> prefix (package app @ '':'') process
      else process \<in> set (processes app))"

definition user_in_scope :: "AppPolicy \<Rightarrow> u32 \<Rightarrow> bool" where
  "user_in_scope app uid \<longleftrightarrow> users app = [''*''] \<or> SignedUserText uid \<in> set (users app)"

lemma prefix_colon:
  "prefix (p @ [c]) s \<longleftrightarrow> take (length p) s = p \<and> length p < length s \<and> s ! length p = c"
proof
  assume "take (length p) s = p \<and> length p < length s \<and> s ! length p = c"
  thus "prefix (p @ [c]) s" by (metis take_Suc_conv_app_nth take_is_prefix)
qed (auto simp: prefix_def nth_append)

lemma ProcessMatches_scope:
  assumes "list_all wire_item (processes app)" "processes app \<noteq> []" "process \<noteq> []"
  shows "ProcessMatches (package app) (Join (processes app)) process \<longleftrightarrow> process_in_scope app process"
proof -
  have c: "\<forall>v \<in> set (processes app). CHR '','' \<notin> set v"
    using assms(1) by (auto simp: list_all_iff wire_item_def)
  show ?thesis
    using Join_split(2) [OF assms(2) c] ListContains_Join [OF assms(2) c assms(3)]
    by (auto simp: ProcessMatches_def process_in_scope_def prefix_colon)
qed

lemma SignedUserText_nonempty: "SignedUserText uid \<noteq> []"
  by (simp add: SignedUserText_def Let_def)

lemma canonical_users_comma: "canonical_users us \<Longrightarrow> \<forall>u \<in> set us. CHR '','' \<notin> set u"
proof
  fix u assume us: "canonical_users us" and u: "u \<in> set us"
  show "CHR '','' \<notin> set u"
  proof (cases "us = [''*'']")
    case False
    with us u have "IsUserNumber u" by (auto simp: canonical_users_def list_all_iff)
    then obtain v where "from_chars 32 u = Some (v, [])"
      by (auto simp: IsUserNumber_def split: option.splits prod.splits list.splits)
    from from_chars_complete [OF this] show ?thesis by (blast dest: is_digit_not_special)
  qed (use u in simp)
qed

lemma ListContains_users:
  assumes "canonical_policy app" "users app \<noteq> []"
  shows "ListContains (Join (users app)) (SignedUserText uid) \<longleftrightarrow> user_in_scope app uid"
  using ListContains_Join [OF assms(2) canonical_users_comma SignedUserText_nonempty] assms(1)
  by (simp add: canonical_policy_def user_in_scope_def)

lemma SafeComponentsLoop_components:
  "\<forall>p \<in> set (split_on CHR ''/'' s). p \<noteq> [] \<and> p \<noteq> ''.'' \<and> p \<noteq> ''..'' \<Longrightarrow> SafeComponentsLoop s"
proof (induction "length s" arbitrary: s rule: less_induct)
  case less
  let ?p = "takeWhile (\<lambda>c. c \<noteq> CHR ''/'') s"
  show ?case
  proof (cases "dropWhile (\<lambda>c. c \<noteq> CHR ''/'') s")
    case Nil
    from less.prems have "?p \<noteq> [] \<and> ?p \<noteq> ''.'' \<and> ?p \<noteq> ''..''"
      by (subst (asm) split_on_unfold) simp
    thus ?thesis by (subst SafeComponentsLoop.simps) (simp add: Nil Let_def)
  next
    case (Cons c rest)
    from less.prems have "?p \<noteq> [] \<and> ?p \<noteq> ''.'' \<and> ?p \<noteq> ''..''"
      "\<forall>p \<in> set (split_on CHR ''/'' rest). p \<noteq> [] \<and> p \<noteq> ''.'' \<and> p \<noteq> ''..''"
      by (subst (asm) split_on_unfold, simp add: Cons)+
    with less.hyps [OF length_dropWhile_Cons [OF Cons]] show ?thesis
      by (subst SafeComponentsLoop.simps) (simp add: Cons Let_def)
  qed
qed

lemma IsAllowedTarget_visible: "canonical_visible s \<Longrightarrow> IsAllowedTarget s"
proof -
  assume v: "canonical_visible s"
  hence l: "is_logical_path s" by (simp add: canonical_visible_def)
  hence "SafeComponentsLoop s"
    by (intro SafeComponentsLoop_components) (auto simp: is_logical_path_def ValidComponent_def)
  with v is_logical_path_nonempty [OF l] is_logical_path_hd [OF l] show ?thesis
    by (simp add: IsAllowedTarget_def HasSafePathComponents_def canonical_visible_def)
qed

lemma ExpandRuntimeLoop_chars:
  "ExpandRuntimeLoop user cap out s = Some t \<Longrightarrow> set t \<subseteq> set out \<union> set s \<union> set user"
proof (induction user cap out s rule: ExpandRuntimeLoop.induct)
  case (2 user cap out c cs)
  show ?case
  proof (cases "prefix ''{user}'' (c # cs)")
    case True
    with 2(3) have "ExpandRuntimeLoop user cap (out @ user) (drop 6 (c # cs)) = Some t"
      and len: "\<not> cap \<le> length out + length user" by (auto split: if_splits)
    from 2(1) [OF True len this(1)] show ?thesis using set_drop_subset [of 6 "c # cs"] by auto
  next
    case False
    with 2(3) have "ExpandRuntimeLoop user cap (out @ [c]) cs = Some t"
      and len: "\<not> (c = CHR ''{'' \<or> c = CHR ''}'' \<or> cap \<le> length out + 1)" by (auto split: if_splits)
    from 2(2) [OF False len this(1)] show ?thesis by auto
  qed
qed simp

lemma ExpandRuntimePath_no_nul:
  assumes "ExpandRuntimePath s user cap = Some t" "CHR 0x00 \<notin> set s"
  shows "CHR 0x00 \<notin> set t"
proof -
  from assms(1) have "ExpandRuntimeLoop (to_string (unat user)) cap [] s = Some t"
    by (auto simp: ExpandRuntimePath_def Let_def split: if_splits option.splits)
  from ExpandRuntimeLoop_chars [OF this] assms(2) to_string_digits is_digit_not_special
  show ?thesis by fastforce
qed

lemma ReadPolicyString_eq:
  assumes "ReadString data str off = Some s" "length data < 2 ^ 32"
  shows "ReadPolicyString data str off = Some s"
proof -
  have lt: "unat str + unat off < length data"
    using assms(1) by (auto simp: ReadString_def split: if_splits)
  hence u: "unat (str + off) = unat str + unat off"
    using assms(2) by (subst unat_add_lem [symmetric]) simp
  let ?text = "drop (unat str + unat off) data"
  from assms(1) have s: "s = bytes_string (takeWhile (\<lambda>b. b \<noteq> 0) ?text)"
    and "unat str + unat off + length (takeWhile (\<lambda>b. b \<noteq> 0) ?text) < length data"
    by (auto simp: ReadString_def Let_def u split: if_splits)
  hence "length (takeWhile (\<lambda>b. b \<noteq> 0) ?text) < length ?text" by simp
  hence "\<exists>x \<in> set ?text. \<not> x \<noteq> 0" by (simp only: length_takeWhile_less)
  hence "0 \<in> set ?text" by auto
  with assms(1) s show ?thesis by (auto simp: ReadPolicyString_def ReadString_def Let_def split: if_splits)
qed

subsection \<open>The abstract plan\<close>

text \<open>What the loader should compute from a document, with no reference to the file format: the rules
  of the application with that package, for a process and a user in scope, with \<open>{user}\<close> expanded.\<close>

definition plan_rule :: "u32 \<Rightarrow> LogicalMountRule \<Rightarrow> (u8 \<times> string \<times> string) option" where
  "plan_rule uid r =
     (if mount_action r = MountDeny then Some (kDenyAction, visible_path r, [])
      else map_option (\<lambda>b. (kRedirectAction, visible_path r, b))
             (ExpandRuntimePath (backing_path r) (UserOfUid uid) PATH_MAX))"

definition rule_text :: "u8 \<times> string \<times> string \<Rightarrow> nat" where
  "rule_text t = (length (fst (snd t)) + 1) + (length (snd (snd t)) + 1)"

type_synonym plan_view = "u64 \<times> u64 \<times> u32 \<times> bool \<times> bool \<times> string \<times> (u8 \<times> string option \<times> string option) list"

definition view_of :: "ProcessPlan \<Rightarrow> plan_view" where
  "view_of plan =
     (snapshot_generation plan, plan_generation plan, plan_policy_flags plan, plan_media_compat plan,
      plan_provider_compat plan, plan_process_name plan,
      map (\<lambda>m. (planned_action m, PlanPath plan (planned_visible m), PlanPath plan (planned_backing m)))
        (plan_mounts plan))"

definition entry_spec :: "u64 \<Rightarrow> u32 \<Rightarrow> bool \<Rightarrow> AppPolicy \<Rightarrow> string \<Rightarrow> u32 \<Rightarrow> plan_view option" where
  "entry_spec gen flags legacy app process uid =
     (if \<not> process_in_scope app process \<or> \<not> user_in_scope app uid \<or>
         length (mounts app) > kMaxMountRules then None
      else case those (map (plan_rule uid) (mounts app)) of
             None \<Rightarrow> None
           | Some rules \<Rightarrow>
               if rules = [] \<or> 1 + sum_list (map rule_text rules) > kMaxPlanPathBytes then None
               else Some (gen, PlanGeneration app FailureOpen legacy, flags, False,
                      provider_compat app = ProviderVirtualize, process,
                      map (\<lambda>(a, v, b). (a, Some v, Some b)) rules))"

definition plan_spec :: "PolicyDocument \<Rightarrow> string \<Rightarrow> u32 \<Rightarrow> plan_view option" where
  "plan_spec canon process uid =
     (let pkg = takeWhile (\<lambda>c. c \<noteq> CHR '':'') process in
      if length process \<ge> kMaxProcessNameBytes \<or> pkg = [] then None
      else case List.find (\<lambda>app. package app = pkg) (apps canon) of
        None \<Rightarrow> None
      | Some app \<Rightarrow>
          entry_spec (ContentGeneration canon)
            (if allow_legacy_string_bind canon then kPolicyFlagAllowLegacyStringBind else 0)
            (allow_legacy_string_bind canon) app process uid)"

definition plan_step :: "u32 \<Rightarrow> ProcessPlan \<Rightarrow> LogicalMountRule \<Rightarrow> ProcessPlan option" where
  "plan_step uid plan r =
     (case plan_rule uid r of
        None \<Rightarrow> None
      | Some (a, v, b) \<Rightarrow>
          (case StorePlanPath plan v of
             None \<Rightarrow> None
           | Some (vo, plan1) \<Rightarrow>
               case StorePlanPath plan1 b of
                 None \<Rightarrow> None
               | Some (bo, plan2) \<Rightarrow>
                   Some (plan2\<lparr>plan_mounts := plan_mounts plan2 @
                     [\<lparr>planned_action = a, planned_visible = vo, planned_backing = bo\<rparr>]\<rparr>)))"

fun plan_steps :: "u32 \<Rightarrow> ProcessPlan \<Rightarrow> LogicalMountRule list \<Rightarrow> ProcessPlan option" where
  "plan_steps uid plan [] = Some plan"
| "plan_steps uid plan (r # rs) =
     (case plan_step uid plan r of None \<Rightarrow> None | Some plan' \<Rightarrow> plan_steps uid plan' rs)"

text \<open>The path buffer: what is stored stays readable while it grows.\<close>

definition paths_hold :: "ProcessPlan \<Rightarrow> (u8 \<times> string \<times> string) list \<Rightarrow> bool" where
  "paths_hold plan rules \<longleftrightarrow>
     length (plan_paths plan) \<le> kMaxPlanPathBytes \<and>
     list_all2 (\<lambda>m (a, v, b). planned_action m = a \<and>
        at_offset (plan_paths plan) (planned_visible m) v \<and>
        at_offset (plan_paths plan) (planned_backing m) b) (plan_mounts plan) rules"

definition plan_frame :: "ProcessPlan \<Rightarrow> ProcessPlan \<Rightarrow> bool" where
  "plan_frame p q \<longleftrightarrow>
     (snapshot_generation q, plan_generation q, plan_policy_flags q, plan_media_compat q,
      plan_provider_compat q, plan_process_name q) =
     (snapshot_generation p, plan_generation p, plan_policy_flags p, plan_media_compat p,
      plan_provider_compat p, plan_process_name p)"

lemma StorePlanPath_cases:
  assumes "length (plan_paths plan) \<le> kMaxPlanPathBytes"
  shows "StorePlanPath plan s =
    (if length (plan_paths plan) + (length s + 1) > kMaxPlanPathBytes then None
     else Some (of_nat (length (plan_paths plan)),
                plan\<lparr>plan_paths := plan_paths plan @ string_bytes s @ [0]\<rparr>))"
  using assms by (auto simp: StorePlanPath_def)

lemma plan_step_result:
  assumes hold: "paths_hold plan rules" and r: "plan_rule uid r = Some t"
  shows "(length (plan_paths plan) + rule_text t > kMaxPlanPathBytes \<and> plan_step uid plan r = None) \<or>
    (\<exists>plan'. plan_step uid plan r = Some plan' \<and> paths_hold plan' (rules @ [t]) \<and> plan_frame plan plan' \<and>
       length (plan_paths plan') = length (plan_paths plan) + rule_text t)"
proof -
  obtain a v b where t: "t = (a, v, b)" by (cases t)
  let ?P = "plan_paths plan" and ?n = "length (plan_paths plan)"
  let ?P1 = "?P @ string_bytes v @ [0]" and ?P2 = "?P @ string_bytes v @ [0] @ string_bytes b @ [0]"
  have le: "?n \<le> kMaxPlanPathBytes" using hold by (simp add: paths_hold_def)
  show ?thesis
  proof (cases "?n + rule_text t > kMaxPlanPathBytes")
    case True
    hence "plan_step uid plan r = None"
      using le by (auto simp: plan_step_def r t rule_text_def StorePlanPath_cases split: option.splits if_splits)
    with True show ?thesis by blast
  next
    case False
    let ?m = "\<lparr>planned_action = a, planned_visible = of_nat ?n, planned_backing = of_nat (length ?P1)\<rparr>"
    let ?plan = "plan\<lparr>plan_paths := ?P2, plan_mounts := plan_mounts plan @ [?m]\<rparr>"
    have step: "plan_step uid plan r = Some ?plan"
      using False le by (simp add: plan_step_def r t rule_text_def StorePlanPath_cases)
    have ext: "at_offset ?P off s \<Longrightarrow> at_offset ?P2 off s" for off s by (rule at_offset_append)
    have atv: "at_offset ?P2 (of_nat ?n) v" by (auto simp: at_offset_def)
    have atb: "at_offset ?P2 (of_nat (length ?P1)) b"
      using at_offset_end [of ?P1 b] by simp
    have old: "list_all2 (\<lambda>m (a, v, b). planned_action m = a \<and> at_offset ?P2 (planned_visible m) v \<and>
        at_offset ?P2 (planned_backing m) b) (plan_mounts plan) rules"
      using conjunct2 [OF hold [unfolded paths_hold_def]]
      by (rule list_all2_mono) (clarsimp simp del: append.simps append_assoc simp: ext)
    have "paths_hold ?plan (rules @ [t])"
      using old atv atb False by (simp add: paths_hold_def t rule_text_def list_all2_appendI)
    moreover have "plan_frame plan ?plan" by (simp add: plan_frame_def)
    moreover have "length (plan_paths ?plan) = ?n + rule_text t" by (simp add: t rule_text_def)
    ultimately show ?thesis using step by blast
  qed
qed

lemma plan_frame_trans: "plan_frame p q \<Longrightarrow> plan_frame q r \<Longrightarrow> plan_frame p r"
  by (simp add: plan_frame_def)

lemma plan_steps_result:
  "paths_hold plan rules \<Longrightarrow>
   (case those (map (plan_rule uid) rs) of
      None \<Rightarrow> plan_steps uid plan rs = None
    | Some new \<Rightarrow>
        if length (plan_paths plan) + sum_list (map rule_text new) > kMaxPlanPathBytes
        then plan_steps uid plan rs = None
        else \<exists>plan'. plan_steps uid plan rs = Some plan' \<and> paths_hold plan' (rules @ new) \<and>
               plan_frame plan plan')"
proof (induction rs arbitrary: plan rules)
  case Nil
  thus ?case by (simp add: paths_hold_def plan_frame_def)
next
  case (Cons r rs)
  show ?case
  proof (cases "plan_rule uid r")
    case None
    thus ?thesis by (simp add: plan_step_def)
  next
    case (Some t)
    from plan_step_result [OF Cons.prems Some] consider
      (full) "length (plan_paths plan) + rule_text t > kMaxPlanPathBytes" "plan_step uid plan r = None"
    | (step) plan1 where "plan_step uid plan r = Some plan1" "paths_hold plan1 (rules @ [t])"
        "plan_frame plan plan1" "length (plan_paths plan1) = length (plan_paths plan) + rule_text t"
      by metis
    thus ?thesis
    proof cases
      case full
      thus ?thesis by (auto simp: Some split: option.splits)
    next
      case step
      from Cons.IH [OF step(2)] step(1,4) Some plan_frame_trans [OF step(3)] show ?thesis
        by (auto simp: add.assoc split: option.splits if_splits)
    qed
  qed
qed

lemma at_offset_text:
  assumes "at_offset bs off s" "CHR 0x00 \<notin> set s" "length bs < 2 ^ 32"
  shows "unat off < length bs \<and> bytes_string (takeWhile (\<lambda>b. b \<noteq> 0) (drop (unat off) bs)) = s"
proof -
  have "ReadString bs 0 off = Some s"
    using ReadString_at [of bs off s "[]"] assms by simp
  thus ?thesis by (auto simp: ReadString_def Let_def split: if_splits)
qed

lemma view_paths:
  assumes "paths_hold plan rules"
    "\<forall>t \<in> set rules. CHR 0x00 \<notin> set (fst (snd t)) \<and> CHR 0x00 \<notin> set (snd (snd t))"
  shows "map (\<lambda>m. (planned_action m, PlanPath plan (planned_visible m), PlanPath plan (planned_backing m)))
           (plan_mounts plan) = map (\<lambda>(a, v, b). (a, Some v, Some b)) rules"
proof -
  from assms(1) have len: "length (plan_paths plan) < 2 ^ 32"
    and all: "list_all2 (\<lambda>m (a, v, b). planned_action m = a \<and>
        at_offset (plan_paths plan) (planned_visible m) v \<and>
        at_offset (plan_paths plan) (planned_backing m) b) (plan_mounts plan) rules"
    by (auto simp: paths_hold_def kMaxPlanPathBytes_def)
  from all assms(2) show ?thesis
    by (induction rule: list_all2_induct)
       (auto simp: PlanPath_def at_offset_text [OF _ _ len] dest: at_offset_text [OF _ _ len])
qed

subsection \<open>The loader on an encoded file\<close>

definition loadable_app :: "AppPolicy \<Rightarrow> bool" where
  "loadable_app app \<longleftrightarrow> canonical_policy app \<and> wire_safe app \<and> events app = [] \<and> media_compat app = MediaOff \<and>
     (\<forall>r \<in> set (mounts app). mount_action r = MountRedirect \<or> mount_action r = MountDeny)"

definition loadable_image :: "bool \<Rightarrow> AppPolicy list \<Rightarrow> bytes \<Rightarrow> PolicyHeader \<Rightarrow> bool" where
  "loadable_image legacy as data h \<longleftrightarrow>
     policy_image legacy as data h \<and> HeaderValid data h = Some True \<and>
     unat (hdr_package_count h) = length as \<and> (\<forall>app \<in> set as. loadable_app app) \<and>
     sorted_wrt (\<lambda>a b. PackageOrder a < PackageOrder b) as"

lemma policy_image_size: "policy_image legacy as data h \<Longrightarrow> length data < 2 ^ 32"
  by (erule policy_imageE)

lemma policy_text:
  "policy_image legacy as data h \<Longrightarrow> ReadString data (hdr_string_offset h) off = Some s \<Longrightarrow>
   ReadPolicyString data (hdr_string_offset h) off = Some s"
  by (rule ReadPolicyString_eq [OF _ policy_image_size])

lemma loadable_mount:
  assumes "loadable_app app" "r \<in> set (mounts app)"
  shows "mount_action r = MountRedirect \<or> mount_action r = MountDeny"
    "IsAllowedTarget (visible_path r)" "length (visible_path r) < PATH_MAX"
    "mount_action r = MountDeny \<Longrightarrow> backing_path r = []"
    "CHR 0x00 \<notin> set (visible_path r)" "CHR 0x00 \<notin> set (backing_path r)"
proof -
  from assms show act: "mount_action r = MountRedirect \<or> mount_action r = MountDeny"
    by (auto simp: loadable_app_def)
  from assms have c: "canonical_mount (package app) r"
    by (auto simp: loadable_app_def canonical_policy_def canonical_mounts_def list_all_iff)
  hence v: "canonical_visible (visible_path r)" using act by (auto simp: canonical_mount_def is_isolate_def)
  thus "IsAllowedTarget (visible_path r)" by (rule IsAllowedTarget_visible)
  from v show "length (visible_path r) < PATH_MAX"
    by (simp add: canonical_visible_def is_logical_path_def kMaxLogicalPathBytes_def PATH_MAX_def)
  from c show "mount_action r = MountDeny \<Longrightarrow> backing_path r = []"
    by (simp add: canonical_mount_def is_isolate_def)
  from assms show "CHR 0x00 \<notin> set (visible_path r)" "CHR 0x00 \<notin> set (backing_path r)"
    by (auto simp: loadable_app_def dest: canonical_no_nul)
qed

lemma image_mount_reads:
  assumes img: "loadable_image legacy as data h" and i: "i < length as" and j: "j < length (mounts (as ! i))"
  obtains v b where
    "mount_entry_reads data
       (unat (hdr_mount_offset h) + unat (of_nat (mounts_before as i) + of_nat j :: u32) * kMountRuleSize)
       (MountAction_code (mount_action (mounts (as ! i) ! j)))
       (mount_depth (mounts (as ! i) ! j)) (mount_flags (mounts (as ! i) ! j)) v b"
    "ReadPolicyString data (hdr_string_offset h) v = Some (visible_path (mounts (as ! i) ! j))"
    "ReadPolicyString data (hdr_string_offset h) b = Some (backing_path (mounts (as ! i) ! j))"
proof -
  let ?k = "mounts_before as i + j" and ?ms = "concat (map mounts as)"
  from img i have p: "policy_image legacy as data h" and app: "loadable_app (as ! i)"
    by (auto simp: loadable_image_def)
  note at = mounts_before_nth [OF i]
  have k: "?k < length ?ms" "?ms ! ?k = mounts (as ! i) ! j" using at(1) [OF j] at(2) j by simp_all
  have "mounts (as ! i) ! j \<in> set (mounts (as ! i))" using j by simp
  note nul = loadable_mount(5,6) [OF app this]
  obtain v b where
    "mount_entry_reads data (unat (hdr_mount_offset h) + unat (of_nat ?k :: u32) * kMountRuleSize)
       (MountAction_code (mount_action (?ms ! ?k))) (mount_depth (?ms ! ?k)) (mount_flags (?ms ! ?k)) v b"
    "ReadString data (hdr_string_offset h) v = Some (visible_path (?ms ! ?k))"
    "ReadString data (hdr_string_offset h) b = Some (backing_path (?ms ! ?k))"
    by (rule mount_image_reads [OF p k(1)]) (use nul k(2) in simp_all)
  thus thesis using that policy_text [OF p] by (simp add: k(2))
qed

lemma LoadRule_image:
  assumes img: "loadable_image legacy as data h" and i: "i < length as" and j: "j < length (mounts (as ! i))"
  shows "LoadRule data h uid plan (of_nat (mounts_before as i) + of_nat j) =
    Some (plan_step uid plan (mounts (as ! i) ! j))"
proof (rule image_mount_reads [OF assms])
  fix v b
  let ?r = "mounts (as ! i) ! j"
  assume rd: "mount_entry_reads data
       (unat (hdr_mount_offset h) + unat (of_nat (mounts_before as i) + of_nat j :: u32) * kMountRuleSize)
       (MountAction_code (mount_action ?r)) (mount_depth ?r) (mount_flags ?r) v b"
    and strs: "ReadPolicyString data (hdr_string_offset h) v = Some (visible_path ?r)"
    "ReadPolicyString data (hdr_string_offset h) b = Some (backing_path ?r)"
  have "loadable_app (as ! i)" "?r \<in> set (mounts (as ! i))" using img i j by (auto simp: loadable_image_def)
  note m = loadable_mount [OF this]
  have exec: "IsExecutableMountAction (MountAction_code (mount_action ?r))"
    using m(1) by (auto simp: IsExecutableMountAction_def kDenyAction_def kRedirectAction_def MountAction_code_def)
  have load: "LoadRule data h uid plan (of_nat (mounts_before as i) + of_nat j) =
     Some (let deny = (MountAction_code (mount_action ?r) = kDenyAction);
               expanded = (if deny then (if backing_path ?r = [] then Some [] else None)
                           else ExpandRuntimePath (backing_path ?r) (UserOfUid uid) PATH_MAX) in
           if expanded = None then None
           else case StorePlanPath plan (visible_path ?r) of
                  None \<Rightarrow> None
                | Some (visible_at, plan1) \<Rightarrow>
                    case StorePlanPath plan1 (the expanded) of
                      None \<Rightarrow> None
                    | Some (backing_at, plan2) \<Rightarrow>
                        Some (plan2\<lparr>plan_mounts := plan_mounts plan2 @
                          [\<lparr>planned_action = MountAction_code (mount_action ?r), planned_visible = visible_at,
                            planned_backing = backing_at\<rparr>]\<rparr>))"
    using rd exec m(2,3) unfolding LoadRule_def Let_def rule_offset_defs mount_entry_reads_def
    by (simp add: strs)
  show ?thesis
    using m(1,4) unfolding load plan_step_def plan_rule_def
    by (auto simp: kDenyAction_def kRedirectAction_def MountAction_code_def split: option.splits)
qed

lemma LoadRules_image:
  assumes img: "loadable_image legacy as data h" and i: "i < length as"
  shows "LoadRules data h uid (of_nat (mounts_before as i)) plan [0..<length (mounts (as ! i))] =
    Some (plan_steps uid plan (mounts (as ! i)))"
proof -
  let ?ms = "mounts (as ! i)"
  have "LoadRules data h uid (of_nat (mounts_before as i)) plan [k..<length ?ms] =
      Some (plan_steps uid plan (drop k ?ms))" if "k \<le> length ?ms" for k plan
    using that
  proof (induction "length ?ms - k" arbitrary: k plan)
    case (Suc n)
    hence k: "k < length ?ms" by simp
    hence up: "[k..<length ?ms] = k # [Suc k..<length ?ms]" by (rule upt_conv_Cons)
    have dr: "drop k ?ms = ?ms ! k # drop (Suc k) ?ms" using k by (rule Cons_nth_drop_Suc [symmetric])
    from Suc.hyps(1) [of "Suc k"] Suc.hyps(2) k show ?case
      unfolding up dr by (simp add: LoadRule_image [OF img i k] split: option.splits)
  qed simp
  from this [of 0] show ?thesis by simp
qed

lemma image_package_reads:
  assumes img: "loadable_image legacy as data h" and i: "i < length as"
    and entry: "entry = unat (hdr_package_offset h) + i * kPackageSize"
  obtains n u p where
    "package_entry_reads data entry (PackageNameHash (package (as ! i))) n u p
       (of_nat (mounts_before as i)) (of_nat (length (mounts (as ! i))))
       (PlanGeneration (as ! i) FailureOpen legacy) 0 (ProviderCompat_code (provider_compat (as ! i)))"
    "ReadPolicyString data (hdr_string_offset h) n = Some (package (as ! i))"
    "ReadPolicyString data (hdr_string_offset h) u = Some (Join (users (as ! i)))"
    "ReadPolicyString data (hdr_string_offset h) p = Some (Join (processes (as ! i)))"
proof -
  from img i have p: "policy_image legacy as data h" and app: "loadable_app (as ! i)"
    by (auto simp: loadable_image_def)
  from app have "canonical_policy (as ! i)" "wire_safe (as ! i)"
    "MediaCompat_code (media_compat (as ! i)) = 0"
    by (simp_all add: loadable_app_def MediaCompat_code_def)
  from package_image_reads [OF p i this(1,2) entry] this(3) policy_text [OF p] that show thesis
    by metis
qed

lemma image_mount_range:
  assumes img: "loadable_image legacy as data h" and i: "i < length as"
  shows "\<not> hdr_mount_count h - of_nat (mounts_before as i) < of_nat (length (mounts (as ! i)))"
    "unat (of_nat (length (mounts (as ! i))) :: u32) = length (mounts (as ! i))"
    "\<not> hdr_mount_count h < of_nat (mounts_before as i)"
proof -
  from img have p: "policy_image legacy as data h" and can: "\<And>app. app \<in> set as \<Longrightarrow> canonical_policy app"
    by (auto simp: loadable_image_def loadable_app_def)
  show "\<not> hdr_mount_count h - of_nat (mounts_before as i) < of_nat (length (mounts (as ! i)))"
    by (rule DecodeMounts_image(2) [OF p i can])
  note c = policy_image_counts [OF p] and m = mounts_before_nth(2) [OF i]
  show "unat (of_nat (length (mounts (as ! i))) :: u32) = length (mounts (as ! i))"
    by (rule unat_u32) (use c(3) m in linarith)
  have "mounts_before as i < 2 ^ 32" using c(3) m by linarith
  thus "\<not> hdr_mount_count h < of_nat (mounts_before as i)"
    using m unfolding c(1) word_less_nat_alt unat_u32 [OF \<open>mounts_before as i < 2 ^ 32\<close>] unat_u32 [OF c(3)]
    by simp
qed

lemma ValidPackageIndex_image:
  assumes img: "loadable_image legacy as data h"
  shows "ValidPackageIndex data h = Some True"
proof -
  from img have n: "unat (hdr_package_count h) = length as"
    and ord: "sorted_wrt (\<lambda>a b. PackageOrder a < PackageOrder b) as" by (auto simp: loadable_image_def)
  have "ValidPackageIndexLoop data h ph pn [k..<length as] = Some True"
    if "k \<le> length as" "0 < k \<Longrightarrow> ph = PackageNameHash (package (as ! (k - 1))) \<and> pn = package (as ! (k - 1))"
    for k ph pn
    using that
  proof (induction "length as - k" arbitrary: k ph pn)
    case (Suc d)
    hence k: "k < length as" by simp
    hence up: "[k..<length as] = k # [Suc k..<length as]" by (rule upt_conv_Cons)
    let ?h = "PackageNameHash (package (as ! k))" and ?n = "package (as ! k)"
    let ?entry = "unat (hdr_package_offset h) + k * kPackageSize"
    have "ValidPackageIndexLoop data h ?h ?n [Suc k..<length as] = Some True"
      using Suc.hyps k by (intro Suc.hyps(1)) simp_all
    moreover have "\<not> (0 < k \<and> (?h < ph \<or> ?h = ph \<and> ?n \<le> pn))"
      using PackageOrder_step [OF ord _ k] Suc.prems(2) by blast
    moreover obtain name_offset where "Read32 data ?entry = Some ?h"
      "Read32 data (?entry + 4) = Some name_offset"
      "ReadPolicyString data (hdr_string_offset h) name_offset = Some ?n"
      by (rule image_package_reads [OF img k refl]) (simp add: package_entry_reads_def that)
    ultimately show ?case
      unfolding up ValidPackageIndexLoop.simps Let_def package_offset_defs by auto
  qed simp
  from this [of 0] show ?thesis by (simp add: ValidPackageIndex_def n)
qed

lemma ValidPackageRanges_image:
  assumes img: "loadable_image legacy as data h"
  shows "ValidPackageRanges data h 0 0 [0..<length as] = Some True"
proof -
  from img have p: "policy_image legacy as data h" by (simp add: loadable_image_def)
  note c = policy_image_counts [OF p]
  have codes: "FailureMode_code FailureOpen \<le> 1" "ProviderCompat_code a \<le> 1" for a
    by (simp add: FailureMode_code_def) (cases a; simp add: ProviderCompat_code_def)
  have "ValidPackageRanges data h (of_nat (mounts_before as k)) 0 [k..<length as] = Some True"
    if "k \<le> length as" for k
    using that
  proof (induction "length as - k" arbitrary: k)
    case 0
    thus ?case by (simp add: c(1,2) mounts_before_def)
  next
    case (Suc d)
    hence k: "k < length as" by simp
    hence up: "[k..<length as] = k # [Suc k..<length as]" by (rule upt_conv_Cons)
    let ?entry = "unat (hdr_package_offset h) + k * kPackageSize"
    have next_k: "ValidPackageRanges data h (of_nat (mounts_before as k) + of_nat (length (mounts (as ! k)))) 0
        [Suc k..<length as] = Some True"
      using Suc.hyps(1) [of "Suc k"] Suc.hyps(2) k mounts_before_nth(3) [OF k] by simp
    show ?case
    proof (rule image_package_reads [OF img k refl])
      fix n u p
      assume "package_entry_reads data ?entry (PackageNameHash (package (as ! k))) n u p
        (of_nat (mounts_before as k)) (of_nat (length (mounts (as ! k))))
        (PlanGeneration (as ! k) FailureOpen legacy) 0 (ProviderCompat_code (provider_compat (as ! k)))"
      with next_k image_mount_range(1) [OF img k] show ?thesis
        unfolding up ValidPackageRanges.simps Let_def package_offset_defs package_entry_reads_def
        by (simp add: c(2) not_less codes)
    qed
  qed
  from this [of 0] show ?thesis by (simp add: mounts_before_def)
qed

lemma image_mount_split:
  assumes "k < length (concat (map mounts as))"
  obtains i j where "i < length as" "j < length (mounts (as ! i))" "k = mounts_before as i + j"
proof -
  have "\<exists>i < n. \<exists>j < length (mounts (as ! i)). k = mounts_before as i + j"
    if "n \<le> length as" "k < mounts_before as n" for n
    using that
  proof (induction n)
    case (Suc n)
    hence n: "n < length as" by simp
    show ?case
    proof (cases "k < mounts_before as n")
      case False
      with Suc.prems(2) mounts_before_nth(3) [OF n]
      show ?thesis by (intro exI [of _ n] conjI exI [of _ "k - mounts_before as n"]) auto
    qed (use Suc.IH n in \<open>metis less_SucI less_imp_le\<close>)
  qed (simp add: mounts_before_def)
  from this [of "length as"] assms that show thesis by (auto simp: mounts_before_def)
qed

lemma ValidMountTable_image:
  assumes img: "loadable_image legacy as data h"
  shows "ValidMountTable data h [0..<unat (hdr_mount_count h)] = Some True"
proof -
  from img have p: "policy_image legacy as data h" by (simp add: loadable_image_def)
  note c = policy_image_counts [OF p]
  have "ValidMountTable data h ks = Some True" if "\<forall>k \<in> set ks. k < length (concat (map mounts as))" for ks
    using that
  proof (induction ks)
    case (Cons k ks)
    then obtain i j where i: "i < length as" and j: "j < length (mounts (as ! i))"
      and k: "k = mounts_before as i + j" by (auto elim: image_mount_split)
    have "(of_nat (mounts_before as i) + of_nat j :: u32) = of_nat k" by (simp add: k)
    moreover have "unat (of_nat k :: u32) = k" using Cons.prems c(3) by (intro unat_u32) simp
    ultimately have u: "unat (of_nat (mounts_before as i) + of_nat j :: u32) = k" by simp
    show ?case
    proof (rule image_mount_reads [OF img i j], unfold u)
      fix v b
      assume "mount_entry_reads data (unat (hdr_mount_offset h) + k * kMountRuleSize)
          (MountAction_code (mount_action (mounts (as ! i) ! j))) (mount_depth (mounts (as ! i) ! j))
          (mount_flags (mounts (as ! i) ! j)) v b"
        "ReadPolicyString data (hdr_string_offset h) v = Some (visible_path (mounts (as ! i) ! j))"
        "ReadPolicyString data (hdr_string_offset h) b = Some (backing_path (mounts (as ! i) ! j))"
      moreover have "\<not> MountAction_code a > 3" for a by (cases a) (simp_all add: MountAction_code_def)
      ultimately show ?thesis
        using Cons unfolding ValidMountTable.simps Let_def rule_offset_defs mount_entry_reads_def by simp
    qed
  qed simp
  thus ?thesis by (simp add: c(1) unat_u32 [OF c(3)])
qed

lemma ValidPolicyFile_image:
  assumes "loadable_image legacy as data h"
  shows "ValidPolicyFile data h = Some True"
proof -
  from assms have n: "unat (hdr_package_count h) = length as" "HeaderValid data h = Some True"
    and e: "hdr_event_count h = 0" by (auto simp: loadable_image_def dest: policy_image_counts(2))
  show ?thesis
    using ValidPackageIndex_image [OF assms] ValidPackageRanges_image [OF assms] ValidMountTable_image [OF assms]
    by (simp add: ValidPolicyFile_def ValidPolicyTables_def n e)
qed

lemma header_flags:
  assumes "HeaderValid data h = Some True"
    "(and (hdr_flags h) kPolicyFlagAllowLegacyStringBind \<noteq> 0) = legacy"
  shows "hdr_flags h = (if legacy then kPolicyFlagAllowLegacyStringBind else 0)"
proof -
  let ?f = "hdr_flags h" and ?k = "kPolicyFlagAllowLegacyStringBind"
  from assms(1) have z: "and ?f (not ?k) = 0"
    by (auto simp: HeaderValid_def bind_eq_Some_conv)
  have "?f = or (and ?f ?k) (and ?f (not ?k))" by (metis bit.conj_cancel_right bit.conj_disj_distrib bit.disj_cancel_right bit.conj_one_right)
  hence f: "?f = and ?f ?k" using z by simp
  have "and ?f 1 = 0 \<or> and ?f 1 = 1" by (simp add: and_one_eq mod_2_eq_odd)
  with f assms(2) show ?thesis by (auto simp: kPolicyFlagAllowLegacyStringBind_def)
qed

lemma plan_rules_no_nul:
  assumes "loadable_app app" "those (map (plan_rule uid) rs) = Some rules" "set rs \<subseteq> set (mounts app)"
  shows "\<forall>t \<in> set rules. CHR 0x00 \<notin> set (fst (snd t)) \<and> CHR 0x00 \<notin> set (snd (snd t))"
  using assms(2,3)
proof (induction rs arbitrary: rules)
  case (Cons r rs)
  then obtain t rules' where t: "plan_rule uid r = Some t" "those (map (plan_rule uid) rs) = Some rules'"
    "rules = t # rules'" by (auto split: option.splits)
  have "r \<in> set (mounts app)" using Cons.prems by simp
  note nul = loadable_mount(5,6) [OF assms(1) this]
  have "CHR 0x00 \<notin> set (fst (snd t)) \<and> CHR 0x00 \<notin> set (snd (snd t))"
    using t(1) nul by (auto simp: plan_rule_def dest: ExpandRuntimePath_no_nul split: if_splits)
  with Cons.IH [OF t(2)] Cons.prems(2) show ?case by (simp add: t(3))
qed simp

lemma those_length: "those xs = Some ys \<Longrightarrow> length ys = length xs"
  by (induction xs arbitrary: ys) (auto split: option.splits)

lemma plan_steps_view:
  assumes app: "loadable_app app"
    and plan: "plan_mounts plan = []" "plan_paths plan = [0]"
  shows "(case plan_steps uid plan (mounts app) of
            None \<Rightarrow> None
          | Some plan' \<Rightarrow> if plan_mounts plan' = [] then None else Some (view_of plan')) =
         (case those (map (plan_rule uid) (mounts app)) of
            None \<Rightarrow> None
          | Some rules \<Rightarrow>
              if rules = [] \<or> 1 + sum_list (map rule_text rules) > kMaxPlanPathBytes then None
              else Some (snapshot_generation plan, plan_generation plan, plan_policy_flags plan,
                     plan_media_compat plan, plan_provider_compat plan, plan_process_name plan,
                     map (\<lambda>(a, v, b). (a, Some v, Some b)) rules))"
proof -
  have hold: "paths_hold plan []" using plan by (simp add: paths_hold_def kMaxPlanPathBytes_def)
  note res = plan_steps_result [OF hold, of uid "mounts app"]
  show ?thesis
  proof (cases "those (map (plan_rule uid) (mounts app))")
    case (Some rules)
    note nul = plan_rules_no_nul [OF app Some subset_refl]
    show ?thesis
    proof (cases "1 + sum_list (map rule_text rules) > kMaxPlanPathBytes")
      case False
      with res Some plan(2) obtain plan' where p: "plan_steps uid plan (mounts app) = Some plan'"
        "paths_hold plan' rules" "plan_frame plan plan'" by auto
      have "length (plan_mounts plan') = length rules"
        using p(2) by (auto simp: paths_hold_def dest: list_all2_lengthD)
      hence "plan_mounts plan' = [] \<longleftrightarrow> rules = []" by (metis length_0_conv)
      with False Some p(1,3) view_paths [OF p(2) nul] show ?thesis
        by (simp add: view_of_def plan_frame_def)
    qed (use res Some plan(2) in simp)
  qed (use res in simp)
qed

lemma LoadEntry_image:
  assumes img: "loadable_image legacy as data h" and i: "i < length as"
    and gen: "Read64 data kContentGenerationOffset = Some gen" and process: "process \<noteq> []"
    and entry: "entry = unat (hdr_package_offset h) + i * kPackageSize"
  shows "map_option (map_option view_of) (LoadEntry data h process uid entry) =
    Some (entry_spec gen (hdr_flags h) legacy (as ! i) process uid)"
proof (rule image_package_reads [OF img i entry])
  fix n u p
  let ?app = "as ! i"
  let ?plan = "\<lparr>snapshot_generation = gen, plan_generation = PlanGeneration ?app FailureOpen legacy,
    plan_policy_flags = hdr_flags h, plan_media_compat = False,
    plan_provider_compat = (ProviderCompat_code (provider_compat ?app) = 1), plan_process_name = process,
    plan_mounts = [], plan_paths = [0]\<rparr>"
  assume rd: "package_entry_reads data entry (PackageNameHash (package ?app)) n u p
       (of_nat (mounts_before as i)) (of_nat (length (mounts ?app)))
       (PlanGeneration ?app FailureOpen legacy) 0 (ProviderCompat_code (provider_compat ?app))"
    and strs: "ReadPolicyString data (hdr_string_offset h) n = Some (package ?app)"
    "ReadPolicyString data (hdr_string_offset h) u = Some (Join (users ?app))"
    "ReadPolicyString data (hdr_string_offset h) p = Some (Join (processes ?app))"
  have app: "loadable_app ?app" and ec: "hdr_event_count h = 0"
    using img i by (auto simp: loadable_image_def dest: policy_image_counts(2))
  hence w: "canonical_policy ?app" "users ?app \<noteq> []" "processes ?app \<noteq> []" "list_all wire_item (processes ?app)"
    by (simp_all add: loadable_app_def wire_safe_def)
  note scope = ProcessMatches_scope [OF w(4,3) process] ListContains_users [OF w(1,2)]
  note range = image_mount_range [OF img i]
  have prov: "(ProviderCompat_code (provider_compat ?app) = 1) = (provider_compat ?app = ProviderVirtualize)"
    "\<not> ProviderCompat_code (provider_compat ?app) > 1"
    by (cases "provider_compat ?app"; simp add: ProviderCompat_code_def)+
  have fail: "FailureMode_code FailureOpen = 0" by (simp add: FailureMode_code_def)
  have load: "LoadEntry data h process uid entry =
     (if \<not> process_in_scope ?app process \<or> \<not> user_in_scope ?app uid \<or> length (mounts ?app) > kMaxMountRules
      then Some None
      else Some (case plan_steps uid ?plan (mounts ?app) of
                   None \<Rightarrow> None | Some plan \<Rightarrow> if plan_mounts plan = [] then None else Some plan))"
    using rd range prov(2) unfolding LoadEntry_def package_offset_defs package_entry_reads_def
    by (simp add: strs scope gen fail ec LoadRules_image [OF img i])
  show ?thesis
    using plan_steps_view [OF app, of ?plan uid] prov(1)
    by (auto simp: load entry_spec_def split: option.splits if_splits)
qed

lemma find_app:
  assumes "distinct (map package as)"
  shows "(case List.find (\<lambda>i. package (sort_key PackageOrder as ! i) = pkg) [0..<length as] of
            None \<Rightarrow> List.find (\<lambda>app. package app = pkg) as = None
          | Some i \<Rightarrow> i < length as \<and>
              List.find (\<lambda>app. package app = pkg) as = Some (sort_key PackageOrder as ! i))"
proof -
  let ?ss = "sort_key PackageOrder as"
  have set_eq: "set ?ss = set as" by simp
  show ?thesis
  proof (cases "List.find (\<lambda>i. package (?ss ! i) = pkg) [0..<length as]")
    case None
    hence "\<forall>i < length ?ss. package (?ss ! i) \<noteq> pkg" by (simp add: find_None_iff)
    hence "\<forall>app \<in> set ?ss. package app \<noteq> pkg" by (metis in_set_conv_nth)
    hence "List.find (\<lambda>app. package app = pkg) as = None" by (simp add: find_None_iff)
    with None show ?thesis by (simp only: option.case)
  next
    case (Some i)
    hence i: "i < length as" "package (?ss ! i) = pkg" by (auto simp: find_Some_iff)
    hence mem: "?ss ! i \<in> set as" by (metis length_sort nth_mem set_eq)
    with i(2) have "List.find (\<lambda>app. package app = pkg) as \<noteq> None" by (auto simp: find_None_iff)
    then obtain app where app: "List.find (\<lambda>app. package app = pkg) as = Some app" by blast
    hence "app \<in> set as" "package app = pkg" by (auto simp: find_Some_iff)
    with assms mem i(2) have "app = ?ss ! i" by (metis distinct_map inj_onD)
    with Some app i(1) show ?thesis by simp
  qed
qed

lemma encoded_file_loadable:
  assumes c: "CanonicalizeDocument doc = Inr canon" and b: "length (encoded_file canon) \<le> kMaxU32"
    and w: "\<forall>app \<in> set (apps canon). wire_safe app"
  obtains h where "ReadHeader (encoded_file canon) = Some h"
    "loadable_image (allow_legacy_string_bind canon) (sort_key PackageOrder (apps canon)) (encoded_file canon) h"
    "hdr_flags h = (if allow_legacy_string_bind canon then kPolicyFlagAllowLegacyStringBind else 0)"
    "Read64 (encoded_file canon) kContentGenerationOffset = Some (ContentGeneration canon)"
proof -
  note can = CanonicalizeDocument_cases [OF c]
  obtain h where h: "ReadHeader (encoded_file canon) = Some h" "HeaderValid (encoded_file canon) h = Some True"
    and img: "policy_image (allow_legacy_string_bind canon) (sort_key PackageOrder (apps canon))
       (encoded_file canon) h" and n: "unat (hdr_package_count h) = length (apps canon)"
    and lg: "(and (hdr_flags h) kPolicyFlagAllowLegacyStringBind \<noteq> 0) = allow_legacy_string_bind canon"
    and gen: "Read64 (encoded_file canon) kContentGenerationOffset = Some (ContentGeneration canon)"
    by (rule encoded_file_valid [OF c b])
  have "loadable_image (allow_legacy_string_bind canon) (sort_key PackageOrder (apps canon)) (encoded_file canon) h"
    using img h(2) n can(5) w sorted_PackageOrder [OF can(6)]
    by (auto simp: loadable_image_def loadable_app_def)
  thus thesis using that h(1) header_flags [OF h(2) lg] gen by blast
qed

lemma LoadProcessPlan_image:
  assumes c: "CanonicalizeDocument doc = Inr canon" and b: "length (encoded_file canon) \<le> kMaxU32"
    and w: "\<forall>app \<in> set (apps canon). wire_safe app" and nul: "CHR 0x00 \<notin> set process"
  shows "map_option (map_option view_of) (LoadProcessPlan (encoded_file canon) process uid) =
    Some (plan_spec canon process uid)"
proof -
  let ?data = "encoded_file canon" and ?as = "sort_key PackageOrder (apps canon)"
  let ?pkg = "takeWhile (\<lambda>c. c \<noteq> CHR '':'') process"
  obtain h where rh: "ReadHeader ?data = Some h"
    and img: "loadable_image (allow_legacy_string_bind canon) ?as ?data h"
    and fl: "hdr_flags h = (if allow_legacy_string_bind canon then kPolicyFlagAllowLegacyStringBind else 0)"
    and gen: "Read64 ?data kContentGenerationOffset = Some (ContentGeneration canon)"
    by (rule encoded_file_loadable [OF c b w])
  have size: "\<not> length ?data < kHeaderSize" by (simp add: encoded_file_def Let_def)
  have load: "LoadProcessPlan ?data process uid =
     (if length process \<ge> kMaxProcessNameBytes \<or> ?pkg = [] then Some None
      else do { entry \<leftarrow> FindPackageEntry (index_view ?data h) ?pkg;
                case entry of None \<Rightarrow> Some None
                | Some offset \<Rightarrow> LoadEntry ?data h process uid offset })"
    using size by (simp add: LoadProcessPlan_def rh ValidPolicyFile_image [OF img])
  show ?thesis
  proof (cases "length process \<ge> kMaxProcessNameBytes \<or> ?pkg = []")
    case True
    thus ?thesis by (auto simp: load plan_spec_def)
  next
    case False
    hence ne: "process \<noteq> []" by auto
    have "CHR 0x00 \<notin> set ?pkg" using nul by (auto dest: set_takeWhileD)
    with img False have find: "FindPackageEntry (index_view ?data h) ?pkg =
        Some (map_option (EntryOffset (index_view ?data h))
          (List.find (\<lambda>i. package (?as ! i) = ?pkg) [0..<length (apps canon)]))"
      using FindPackageEntry_image [of "allow_legacy_string_bind canon" ?as ?data h ?pkg]
      by (auto simp: loadable_image_def loadable_app_def)
    note app = find_app [OF CanonicalizeDocument_cases(6) [OF c], of ?pkg]
    show ?thesis
    proof (cases "List.find (\<lambda>i. package (?as ! i) = ?pkg) [0..<length (apps canon)]")
      case None
      with app False show ?thesis by (simp add: load find plan_spec_def)
    next
      case (Some i)
      with app have i: "i < length ?as" by simp
      have at: "EntryOffset (index_view ?data h) i = unat (hdr_package_offset h) + i * kPackageSize"
        by (simp add: EntryOffset_def index_view_def)
      from Some app False LoadEntry_image [OF img i gen ne at, of uid] fl show ?thesis
        by (simp add: load find plan_spec_def)
    qed
  qed
qed

lemma sample_plan_spec:
  "plan_spec sample_canonical ''com.example.app'' 10123 =
     Some (ContentGeneration sample_canonical, PlanGeneration (hd (apps sample_canonical)) FailureOpen False, 0, False, False,
       ''com.example.app'', [(kRedirectAction, Some ''DCIM/Camera'', Some ''Pictures/app'')])"
proof -
  let ?app = "hd (apps sample_canonical)"
  have facts: "process_in_scope ?app ''com.example.app''" "user_in_scope ?app 10123"
    "length (mounts ?app) \<le> kMaxMountRules" "provider_compat ?app \<noteq> ProviderVirtualize"
    "those (map (plan_rule 10123) (mounts ?app)) = Some [(kRedirectAction, ''DCIM/Camera'', ''Pictures/app'')]"
    "1 + sum_list (map rule_text [(kRedirectAction, ''DCIM/Camera'', ''Pictures/app'')]) \<le> kMaxPlanPathBytes"
    "takeWhile (\<lambda>c. c \<noteq> CHR '':'') ''com.example.app'' = ''com.example.app''"
    "length ''com.example.app'' < kMaxProcessNameBytes" "\<not> allow_legacy_string_bind sample_canonical"
    "List.find (\<lambda>app. package app = ''com.example.app'') (apps sample_canonical) = Some ?app"
    by code_simp+
  show ?thesis
    unfolding plan_spec_def entry_spec_def Let_def facts(7,10) option.case
    using facts(1-4,8,9) facts(6) by (simp add: facts(5))
qed

lemma sample_plan_loads:
  "\<exists>plan. LoadProcessPlan (encoded_file sample_canonical) ''com.example.app'' 10123 = Some (Some plan)"
proof -
  have "length (encoded_file sample_canonical) \<le> kMaxU32"
    using EncodePolicy_fits [OF sample_canonicalize sample_safe(2)] sample_canonicalize by (auto elim: EncodePolicy_Inr)
  from LoadProcessPlan_image [OF sample_canonicalize this sample_safe(1), of "''com.example.app''" 10123]
  show ?thesis by (auto simp: sample_plan_spec)
qed

subsection \<open>Properties\<close>


text \<open>
  Claim C5.  From document to plan, end to end.  Let \<open>EncodePolicy\<close> have written a file for a document
  whose texts survive the format.  Loading that file for a process and a uid gives exactly the plan of
  the abstract specification \<open>plan_spec\<close>: the application named by the process name up to its first
  colon, if the process and the user are in its scope and it has at most 64 rules, with every deny and
  redirect rule in its canonical order, the backing paths with the user number filled in, the two
  generations, the compatibility flags and the process name; and no plan in every other case.
\<close>

theorem loader_implements_policy:
  assumes "CanonicalizeDocument doc = Inr canon" "EncodePolicy doc = Inr out"
    "\<forall>app \<in> set (apps canon). wire_safe app" "CHR 0x00 \<notin> set process"
  shows "\<exists>plan. LoadProcessPlan out process uid = Some plan \<and>
           map_option view_of plan = plan_spec canon process uid"
proof -
  from assms(1,2) have "out = encoded_file canon" "length (encoded_file canon) \<le> kMaxU32"
    by (auto elim: EncodePolicy_Inr)
  with LoadProcessPlan_image [OF assms(1) _ assms(3,4), of uid] show ?thesis by auto
qed

theorem loader_implements_policy_witness:
  "\<exists>out plan. EncodePolicy sample_document = Inr out \<and>
     LoadProcessPlan out ''com.example.app'' 10123 = Some (Some plan) \<and>
     view_of plan = (ContentGeneration sample_canonical,
       PlanGeneration (hd (apps sample_canonical)) FailureOpen False, 0, False, False, ''com.example.app'',
       [(kRedirectAction, Some ''DCIM/Camera'', Some ''Pictures/app'')])"
proof -
  have enc: "EncodePolicy sample_document = Inr (encoded_file sample_canonical)"
    by (rule EncodePolicy_fits [OF sample_canonicalize sample_safe(2)])
  have "CHR 0x00 \<notin> set ''com.example.app''" by simp
  from loader_implements_policy [OF sample_canonicalize enc sample_safe(1) this, of 10123] enc
  show ?thesis unfolding sample_plan_spec by auto
qed

text \<open>
  The comparison of a plan before and after specialization is exact: \<open>SameProcessPlan\<close>
  holds of two plans if and only if they have the same view (generations, flags, process name, and the
  actions and texts of their mounts in order) and every path offset is inside its path buffer.  It
  does not depend on where the two plans store their texts.
\<close>

theorem SameProcessPlan_compares_views:
  "SameProcessPlan p q \<longleftrightarrow>
     view_of p = view_of q \<and>
     list_all (\<lambda>m. PlanPath p (planned_visible m) \<noteq> None \<and> PlanPath p (planned_backing m) \<noteq> None)
       (plan_mounts p)"
proof -
  let ?f = "\<lambda>r m. (planned_action m, PlanPath r (planned_visible m), PlanPath r (planned_backing m))"
  let ?R = "\<lambda>lhs rhs. planned_action lhs = planned_action rhs \<and>
    PlanPath p (planned_visible lhs) \<noteq> None \<and> PlanPath p (planned_backing lhs) \<noteq> None \<and>
    PlanPath q (planned_visible rhs) \<noteq> None \<and> PlanPath q (planned_backing rhs) \<noteq> None \<and>
    PlanPath p (planned_visible lhs) = PlanPath q (planned_visible rhs) \<and>
    PlanPath p (planned_backing lhs) = PlanPath q (planned_backing rhs)"
  have "length ms = length ns \<and> list_all2 ?R ms ns \<longleftrightarrow>
      map (?f p) ms = map (?f q) ns \<and>
      list_all (\<lambda>m. PlanPath p (planned_visible m) \<noteq> None \<and> PlanPath p (planned_backing m) \<noteq> None) ms"
    for ms ns
  proof (induction ms arbitrary: ns)
    case (Cons m ms)
    show ?case using Cons by (cases ns) (auto, metis+)
  qed auto
  note rows = this [of "plan_mounts p" "plan_mounts q"]
  show ?thesis
    unfolding SameProcessPlan_def view_of_def prod.inject using rows by blast
qed

end
