(* ===== verification/PG_Provider.thy ===== *)
theory PG_Provider
  imports PG_Runtime
begin

text \<open>
  Redirection inside the storage providers: \<open>zygisk/src/provider_path_mapper.cpp\<close>,
  \<open>provider_caller_uid.hpp\<close>, \<open>provider_redirect_symbols.hpp\<close> and \<open>provider_redirect_lifecycle.hpp\<close>.
  A provider serves many applications, so its file calls are rewritten by the uid of the caller: a
  visible path below one of the user's storage roots becomes the backing path below the same root, and
  \<open>realpath\<close> results are translated back.

  C strings are \<open>string\<close>; the arrays and buffers the code passes are never null, because the hooks check
  the path they are given first.
\<close>

subsection \<open>The path mapper\<close>

record PathRule =
  caller_uid :: int
  user_id :: u32
  visible_path :: string
  backing_path :: string

definition logical_roots :: "u32 \<Rightarrow> string list" where
  "logical_roots user =
     (let u = to_string (unat user) in
      [''/storage/emulated/'' @ u @ ''/'', ''/mnt/user/'' @ u @ ''/emulated/'' @ u @ ''/'',
       ''/data/media/'' @ u @ ''/''])"

fun LogicalSuffixLoop :: "string \<Rightarrow> string list \<Rightarrow> (string \<times> string) option" where
  "LogicalSuffixLoop path [] = None"
| "LogicalSuffixLoop path (candidate # rest) =
     (if candidate = [] \<or> length candidate \<ge> 128 then LogicalSuffixLoop path rest
      else if take (length candidate) path \<noteq> candidate then LogicalSuffixLoop path rest
      else if length candidate + 1 > 128 then None
      else Some (candidate, drop (length candidate) path))"

definition LogicalSuffix :: "string \<Rightarrow> u32 \<Rightarrow> (string \<times> string) option" where
  "LogicalSuffix path user = LogicalSuffixLoop path (logical_roots user)"

definition MatchesLogicalPath :: "string \<Rightarrow> string \<Rightarrow> string option" where
  "MatchesLogicalPath suffix_text visible =
     (if take (length visible) suffix_text \<noteq> visible then None
      else let tail = drop (length visible) suffix_text in
           if tail \<noteq> [] \<and> hd tail \<noteq> CHR ''/'' then None else Some tail)"

function HasSafeTail :: "string \<Rightarrow> bool" where
  "HasSafeTail tail =
     (if tail = [] then True
      else case dropWhile (\<lambda>c. c = CHR ''/'') tail of
             [] \<Rightarrow> True
           | c # cs \<Rightarrow>
               let part = takeWhile (\<lambda>x. x \<noteq> CHR ''/'') (c # cs) in
               if part = ''.'' \<or> part = ''..'' then False
               else case dropWhile (\<lambda>x. x \<noteq> CHR ''/'') (c # cs) of
                      [] \<Rightarrow> True
                    | _ # rest \<Rightarrow> HasSafeTail rest)"
  by pat_completeness auto
termination
proof (relation "measure length", goal_cases)
  case 2
  thus ?case by (metis in_measure length_dropWhile_Cons length_dropWhile_le order.strict_trans2)
qed simp

declare HasSafeTail.simps [simp del]

definition MatchesVisiblePath :: "PathRule list \<Rightarrow> string \<Rightarrow> bool" where
  "MatchesVisiblePath rules path =
     (if path = [] \<or> hd path \<noteq> CHR ''/'' then False
      else list_ex (\<lambda>rule.
        case LogicalSuffix path (user_id rule) of
          None \<Rightarrow> False
        | Some (_, suffix_text) \<Rightarrow>
            (case MatchesLogicalPath suffix_text (visible_path rule) of
               None \<Rightarrow> False | Some tail \<Rightarrow> HasSafeTail tail)) rules)"

text \<open>
  The selection loops of \<open>RewriteAbsolutePath\<close> and \<open>RestoreAbsolutePath\<close> differ in the path they compare
  (\<open>key\<close>) and in when a later rule replaces the selected one (\<open>better\<close>).  The outer \<open>None\<close> is the early
  return on an unsafe tail.
\<close>

fun SelectRule ::
  "(PathRule \<Rightarrow> string) \<Rightarrow> (PathRule \<Rightarrow> PathRule \<Rightarrow> bool) \<Rightarrow> int \<Rightarrow> string \<Rightarrow>
   (PathRule \<times> string \<times> string) option \<Rightarrow> PathRule list \<Rightarrow> (PathRule \<times> string \<times> string) option option" where
  "SelectRule key better uid path selected [] = Some selected"
| "SelectRule key better uid path selected (rule # rules) =
     (if caller_uid rule \<noteq> uid then SelectRule key better uid path selected rules
      else case LogicalSuffix path (user_id rule) of
             None \<Rightarrow> SelectRule key better uid path selected rules
           | Some (root, suffix_text) \<Rightarrow>
               (case MatchesLogicalPath suffix_text (key rule) of
                  None \<Rightarrow> SelectRule key better uid path selected rules
                | Some tail \<Rightarrow>
                    if \<not> HasSafeTail tail then None
                    else SelectRule key better uid path
                           (case selected of
                              None \<Rightarrow> Some (rule, root, tail)
                            | Some (current, _) \<Rightarrow>
                                if better rule current then Some (rule, root, tail) else selected) rules))"

definition longer_visible :: "PathRule \<Rightarrow> PathRule \<Rightarrow> bool" where
  "longer_visible rule selected \<longleftrightarrow> length (visible_path rule) > length (visible_path selected)"

definition longer_backing :: "PathRule \<Rightarrow> PathRule \<Rightarrow> bool" where
  "longer_backing rule selected \<longleftrightarrow>
     length (backing_path rule) > length (backing_path selected) \<or>
     (length (backing_path rule) = length (backing_path selected) \<and>
      visible_path rule < visible_path selected)"

definition WritePath :: "string \<Rightarrow> nat \<Rightarrow> string \<Rightarrow> string option" where
  "WritePath path capacity output =
     (if 0 < length output \<and> length output < capacity \<and> path \<noteq> output then Some output else None)"

definition RewriteAbsolutePath :: "PathRule list \<Rightarrow> int \<Rightarrow> string \<Rightarrow> nat \<Rightarrow> string option" where
  "RewriteAbsolutePath rules uid path capacity =
     (if capacity = 0 \<or> uid < 10000 \<or> path = [] \<or> hd path \<noteq> CHR ''/'' then None
      else case SelectRule visible_path longer_visible uid path None rules of
             Some (Some (rule, root, tail)) \<Rightarrow> WritePath path capacity (root @ backing_path rule @ tail)
           | _ \<Rightarrow> None)"

definition RestoreAbsolutePath :: "PathRule list \<Rightarrow> int \<Rightarrow> string \<Rightarrow> nat \<Rightarrow> string option" where
  "RestoreAbsolutePath rules uid path capacity =
     (if capacity = 0 \<or> uid < 10000 \<or> path = [] \<or> hd path \<noteq> CHR ''/'' then None
      else case SelectRule backing_path longer_backing uid path None rules of
             Some (Some (rule, root, tail)) \<Rightarrow> WritePath path capacity (root @ visible_path rule @ tail)
           | _ \<Rightarrow> None)"

subsection \<open>The caller of a request\<close>

record CallerUidContext =
  in_path_hook :: bool
  saved_binder_uid :: int
  binder_clear_depth :: u32
  fuse_uid :: int
  fuse_request :: "nat option"

definition IsApplicationCaller :: "int \<Rightarrow> int \<Rightarrow> bool" where
  "IsApplicationCaller uid process_uid \<longleftrightarrow> uid \<ge> 10000 \<and> uid \<noteq> process_uid"

definition BeginBinderIdentityClear ::
  "int \<Rightarrow> int \<Rightarrow> CallerUidContext option \<Rightarrow> CallerUidContext option" where
  "BeginBinderIdentityClear calling_uid process_uid =
     map_option (\<lambda>context.
       let context' = context\<lparr>binder_clear_depth := binder_clear_depth context + 1\<rparr> in
       if binder_clear_depth context = 0
       then context'\<lparr>saved_binder_uid := (if IsApplicationCaller calling_uid process_uid then calling_uid else -1)\<rparr>
       else context')"

definition EndBinderIdentityClear :: "CallerUidContext option \<Rightarrow> CallerUidContext option" where
  "EndBinderIdentityClear =
     map_option (\<lambda>context.
       if binder_clear_depth context = 0 then context
       else let context' = context\<lparr>binder_clear_depth := binder_clear_depth context - 1\<rparr> in
            if binder_clear_depth context' = 0 then context'\<lparr>saved_binder_uid := -1\<rparr> else context')"

definition BeginFuseRequest ::
  "nat option \<Rightarrow> int \<Rightarrow> int \<Rightarrow> CallerUidContext option \<Rightarrow> CallerUidContext option" where
  "BeginFuseRequest request calling_uid process_uid =
     map_option (\<lambda>context.
       if request = None then context
       else context\<lparr>fuse_request := request,
                    fuse_uid := (if IsApplicationCaller calling_uid process_uid then calling_uid else -1)\<rparr>)"

definition EndFuseRequest :: "nat option \<Rightarrow> CallerUidContext option \<Rightarrow> CallerUidContext option" where
  "EndFuseRequest request =
     map_option (\<lambda>context.
       if fuse_request context \<noteq> request then context
       else context\<lparr>fuse_request := None, fuse_uid := -1\<rparr>)"

definition EffectiveCallerUid :: "CallerUidContext option \<Rightarrow> int \<Rightarrow> int \<Rightarrow> int" where
  "EffectiveCallerUid context current_binder_uid process_uid =
     (case context of
        Some c \<Rightarrow>
          if IsApplicationCaller (fuse_uid c) process_uid then fuse_uid c
          else if IsApplicationCaller current_binder_uid process_uid then current_binder_uid
          else if IsApplicationCaller (saved_binder_uid c) process_uid then saved_binder_uid c else -1
      | None \<Rightarrow> if IsApplicationCaller current_binder_uid process_uid then current_binder_uid else -1)"

subsection \<open>Symbols and installation results\<close>

datatype FuseBoundaryMethod = BoundaryNone | RequestBegin | RequestEnd

fun ConsumePrefix :: "string \<Rightarrow> string \<Rightarrow> string option" where
  "ConsumePrefix cursor [] = Some cursor"
| "ConsumePrefix [] (p # ps) = None"
| "ConsumePrefix (c # cs) (p # ps) = (if c \<noteq> p then None else ConsumePrefix cs ps)"

definition StringEquals :: "string option \<Rightarrow> string option \<Rightarrow> bool" where
  "StringEquals lhs rhs = (case (lhs, rhs) of (Some l, Some r) \<Rightarrow> l = r | _ \<Rightarrow> False)"

definition ClassifyFuseBoundarySymbol :: "string option \<Rightarrow> FuseBoundaryMethod" where
  "ClassifyFuseBoundarySymbol symbol =
     (if StringEquals symbol (Some ''fuse_req_userdata'') \<or> StringEquals symbol (Some ''fuse_req_ctx'')
      then RequestBegin
      else case symbol of
             None \<Rightarrow> BoundaryNone
           | Some s \<Rightarrow>
               (case ConsumePrefix s ''fuse_reply_'' of
                  Some cursor \<Rightarrow> if cursor \<noteq> [] then RequestEnd else BoundaryNone
                | None \<Rightarrow> BoundaryNone))"

record InstallResult =
  hook_registration_attempted :: bool
  hooks_committed :: bool
  virtualization_active :: bool
  identity_hook_attempted :: bool
  identity_hooks :: bool

definition no_install :: InstallResult where
  "no_install = \<lparr>hook_registration_attempted = False, hooks_committed = False, virtualization_active = False,
     identity_hook_attempted = False, identity_hooks = False\<rparr>"

definition MustRetainModule :: "InstallResult \<Rightarrow> bool" where
  "MustRetainModule result \<longleftrightarrow> hook_registration_attempted result \<or> identity_hook_attempted result"

definition ShouldEnableHooks :: "InstallResult \<Rightarrow> bool" where
  "ShouldEnableHooks result \<longleftrightarrow> virtualization_active result"

subsection \<open>Storage roots\<close>

lemma length_to_string: "0 < k \<Longrightarrow> n < 10 ^ k \<Longrightarrow> length (to_string n) \<le> k"
proof (induction k arbitrary: n)
  case (Suc k)
  show ?case
  proof (cases "n < 10")
    case False
    hence "k \<noteq> 0" using Suc.prems by (cases k) auto
    with Suc.IH [of "n div 10"] Suc.prems(2) False show ?thesis
      by (subst to_string.simps) (auto simp: div_less_iff_less_mult mult.commute)
  qed (subst to_string.simps, simp)
qed simp

lemma to_string_inj: "to_string m = to_string n \<Longrightarrow> m = n"
  by (metis decimal_value_to_string)

lemma user_text_short: "length (to_string (unat (user :: u32))) \<le> 10"
proof -
  have "unat user < 10 ^ 10" using unsigned_less [of user, where 'a = nat] by simp
  thus ?thesis by (rule length_to_string [rotated]) simp
qed

lemma digits_then_slash:
  assumes "to_string m @ CHR ''/'' # s = to_string n @ CHR ''/'' # t"
  shows "m = n \<and> s = t"
proof -
  have d: "takeWhile is_digit (to_string k @ CHR ''/'' # r) = to_string k" for k r
    using to_string_digits [of k] by (simp add: is_digit_def takeWhile_tail less_eq_char_def)
  from arg_cong [OF assms, of "takeWhile is_digit"] d have "to_string m = to_string n" by simp
  with assms show ?thesis using to_string_inj by simp
qed

lemma logical_roots_unique:
  assumes "root \<in> set (logical_roots u)" "root' \<in> set (logical_roots u')" "root @ s = root' @ s'"
  shows "u = u' \<and> root = root' \<and> s = s'"
proof -
  have "unat u = unat u' \<and> root = root'"
    using assms by (auto simp: logical_roots_def Let_def dest!: digits_then_slash)
  with assms(3) show ?thesis by (auto dest: unsigned_word_eqI)
qed

lemma LogicalSuffix_iff:
  "LogicalSuffix path user = Some (root, rest) \<longleftrightarrow> root \<in> set (logical_roots user) \<and> path = root @ rest"
proof -
  have short: "candidate \<in> set (logical_roots user) \<Longrightarrow> candidate \<noteq> [] \<and> length candidate < 127" for candidate
    using user_text_short [of user] by (auto simp: logical_roots_def Let_def)
  have loop: "LogicalSuffixLoop path cs = Some (root, rest) \<longleftrightarrow> root \<in> set cs \<and> path = root @ rest"
    if "set cs \<subseteq> set (logical_roots user)" for cs
    using that
  proof (induction cs)
    case (Cons c cs)
    have c: "c \<in> set (logical_roots user)" using Cons.prems by simp
    show ?case
    proof (cases "take (length c) path = c")
      case True
      then obtain s where s: "path = c @ s" by (metis append_take_drop_id)
      have "LogicalSuffixLoop path (c # cs) = Some (root, rest) \<longleftrightarrow> c = root \<and> path = root @ rest"
        using short [OF c] by (auto simp: s)
      also have "\<dots> \<longleftrightarrow> root \<in> set (c # cs) \<and> path = root @ rest"
        using logical_roots_unique [OF c, of root user s rest] Cons.prems by (auto simp: s)
      finally show ?thesis .
    next
      case False
      hence "root \<noteq> c \<or> path \<noteq> root @ rest" by auto
      with False Cons short [OF c] show ?thesis by auto
    qed
  qed simp
  show ?thesis unfolding LogicalSuffix_def by (rule loop) simp
qed

lemma MatchesLogicalPath_iff:
  "MatchesLogicalPath text visible = Some tail \<longleftrightarrow>
     text = visible @ tail \<and> (tail = [] \<or> hd tail = CHR ''/'')"
  by (auto simp: MatchesLogicalPath_def Let_def split: if_splits) (metis append_take_drop_id)+

text \<open>No component of the text is \<open>.\<close> or \<open>..\<close>.\<close>

definition no_dots :: "string \<Rightarrow> bool" where
  "no_dots text \<longleftrightarrow> ''.'' \<notin> set (split_on (CHR ''/'') text) \<and> ''..'' \<notin> set (split_on (CHR ''/'') text)"

lemma no_dots_append_sep: "no_dots (p @ CHR ''/'' # r) \<longleftrightarrow> no_dots p \<and> no_dots r"
  by (auto simp: no_dots_def split_on_append_sep)

lemma no_dots_slash [simp]: "no_dots (CHR ''/'' # r) \<longleftrightarrow> no_dots r"
  by (simp add: no_dots_def)

lemma no_dots_dropWhile: "no_dots (dropWhile (\<lambda>c. c = CHR ''/'') t) \<longleftrightarrow> no_dots t"
  by (induction t) auto

lemma no_dots_component: "CHR ''/'' \<notin> set p \<Longrightarrow> no_dots p \<longleftrightarrow> p \<noteq> ''.'' \<and> p \<noteq> ''..''"
  by (auto simp: no_dots_def split_on_free)

lemma no_dots_unfold:
  "no_dots t \<longleftrightarrow>
     (let part = takeWhile (\<lambda>c. c \<noteq> CHR ''/'') t in part \<noteq> ''.'' \<and> part \<noteq> ''..'' \<and>
      (case dropWhile (\<lambda>c. c \<noteq> CHR ''/'') t of [] \<Rightarrow> True | _ # r \<Rightarrow> no_dots r))"
  using split_on_unfold [of "CHR ''/''" t]
  by (cases "dropWhile (\<lambda>c. c \<noteq> CHR ''/'') t")
    (auto simp: no_dots_def Let_def simp del: dropWhile_eq_Nil_conv)

lemma HasSafeTail_iff: "HasSafeTail t \<longleftrightarrow> no_dots t"
proof (induction t rule: HasSafeTail.induct)
  case (1 t)
  have nil: "no_dots []" by (simp add: no_dots_def)
  show ?case
  proof (cases "dropWhile (\<lambda>c. c = CHR ''/'') t")
    case Nil
    have "no_dots t" using no_dots_dropWhile [of t] nil unfolding Nil by simp
    thus ?thesis unfolding HasSafeTail.simps [of t] Nil by simp
  next
    case (Cons c cs)
    hence t: "t \<noteq> []" by auto
    let ?part = "takeWhile (\<lambda>x. x \<noteq> CHR ''/'') (c # cs)"
    have "HasSafeTail t \<longleftrightarrow> ?part \<noteq> ''.'' \<and> ?part \<noteq> ''..'' \<and>
        (case dropWhile (\<lambda>x. x \<noteq> CHR ''/'') (c # cs) of [] \<Rightarrow> True | _ # r \<Rightarrow> HasSafeTail r)"
      unfolding HasSafeTail.simps [of t] Cons Let_def list.case using t by simp
    also have "\<dots> \<longleftrightarrow> no_dots (c # cs)"
    proof (cases "dropWhile (\<lambda>x. x \<noteq> CHR ''/'') (c # cs)")
      case Nil
      show ?thesis unfolding no_dots_unfold [of "c # cs"] Let_def Nil list.case by simp
    next
      case (Cons x r)
      show ?thesis unfolding no_dots_unfold [of "c # cs"] Let_def Cons list.case
        using 1 [OF t \<open>dropWhile (\<lambda>c. c = CHR ''/'') t = c # cs\<close> refl _ Cons] by blast
    qed
    finally show ?thesis using no_dots_dropWhile [of t] Cons by simp
  qed
qed

subsection \<open>Selecting a rule\<close>

text \<open>A rule covers a path when the path lies at or below the rule's path in one of the storage roots of
  the rule's user.\<close>

definition covers :: "(PathRule \<Rightarrow> string) \<Rightarrow> int \<Rightarrow> string \<Rightarrow> PathRule \<Rightarrow> string \<Rightarrow> string \<Rightarrow> bool" where
  "covers key uid path rule root tail \<longleftrightarrow>
     caller_uid rule = uid \<and> root \<in> set (logical_roots (user_id rule)) \<and>
     path = root @ key rule @ tail \<and> (tail = [] \<or> hd tail = CHR ''/'')"

lemma covers_unique:
  assumes "covers key uid path rule root tail" "covers key' uid' path rule' root' tail'"
  shows "user_id rule = user_id rule'" "root = root'" "key rule @ tail = key' rule' @ tail'"
  using logical_roots_unique [of root "user_id rule" root' "user_id rule'" "key rule @ tail" "key' rule' @ tail'"] assms
  by (auto simp: covers_def)

definition rule_match :: "(PathRule \<Rightarrow> string) \<Rightarrow> int \<Rightarrow> string \<Rightarrow> PathRule \<Rightarrow> (PathRule \<times> string \<times> string) list" where
  "rule_match key uid path rule =
     (if caller_uid rule \<noteq> uid then []
      else case LogicalSuffix path (user_id rule) of
             None \<Rightarrow> []
           | Some (root, suffix_text) \<Rightarrow>
               (case MatchesLogicalPath suffix_text (key rule) of
                  None \<Rightarrow> [] | Some tail \<Rightarrow> [(rule, root, tail)]))"

definition covering :: "(PathRule \<Rightarrow> string) \<Rightarrow> int \<Rightarrow> string \<Rightarrow> PathRule list \<Rightarrow> (PathRule \<times> string \<times> string) list" where
  "covering key uid path rules = concat (map (rule_match key uid path) rules)"

lemma covers_match:
  "covers key uid path rule root tail \<longleftrightarrow> caller_uid rule = uid \<and>
     (\<exists>s. LogicalSuffix path (user_id rule) = Some (root, s) \<and> MatchesLogicalPath s (key rule) = Some tail)"
  by (auto simp: covers_def LogicalSuffix_iff MatchesLogicalPath_iff)

lemma rule_match_set:
  "x \<in> set (rule_match key uid path rule) \<longleftrightarrow>
     (\<exists>root tail. x = (rule, root, tail) \<and> covers key uid path rule root tail)"
  by (cases "LogicalSuffix path (user_id rule)";
      cases "MatchesLogicalPath (snd (the (LogicalSuffix path (user_id rule)))) (key rule)")
    (auto simp: rule_match_def covers_match)

lemma covering_set: "set (covering key uid path rules) =
    {(rule, root, tail). rule \<in> set rules \<and> covers key uid path rule root tail}"
  by (auto simp: covering_def rule_match_set)

text \<open>
  How a loop that keeps the better of the selected and the current element selects: the result is one of
  the elements, and none is better than it.  The contract is that of a strict weak order.
\<close>

locale preference =
  fixes better :: "'a \<Rightarrow> 'a \<Rightarrow> bool"
  assumes asym: "better a b \<Longrightarrow> \<not> better b a"
    and incomparable_trans: "\<not> better a b \<Longrightarrow> \<not> better b c \<Longrightarrow> \<not> better a c"
begin

definition pick :: "('a \<times> 'b) option \<Rightarrow> 'a \<times> 'b \<Rightarrow> ('a \<times> 'b) option" where
  "pick selected x =
     (case selected of None \<Rightarrow> Some x | Some y \<Rightarrow> if better (fst x) (fst y) then Some x else selected)"

lemma pick_simps [simp]:
  "pick None x = Some x" "pick (Some y) x = Some (if better (fst x) (fst y) then x else y)"
  by (simp_all add: pick_def)

lemma pick_Some: "foldl pick (Some s) xs \<noteq> None"
  by (induction xs arbitrary: s) auto

lemma picked_best:
  assumes "foldl pick (Some s) xs = Some x"
  shows "x \<in> insert s (set xs) \<and> (\<forall>y \<in> insert s (set xs). \<not> better (fst y) (fst x))"
  using assms
proof (induction xs arbitrary: s)
  case Nil
  thus ?case using asym by auto
next
  case (Cons y xs)
  let ?s = "if better (fst y) (fst s) then y else s"
  have "foldl pick (Some ?s) xs = Some x" using Cons.prems by simp
  from Cons.IH [OF this] have x: "x \<in> insert ?s (set xs)" and best: "\<forall>z \<in> insert ?s (set xs). \<not> better (fst z) (fst x)"
    by auto
  from best have "\<not> better (fst ?s) (fst x)" by simp
  hence "\<not> better (fst y) (fst x)" "\<not> better (fst s) (fst x)"
    using asym incomparable_trans [of "fst s" "fst y" "fst x"] incomparable_trans [of "fst y" "fst s" "fst x"]
    by (auto split: if_splits)
  with x best show ?case by (auto split: if_splits)
qed

lemma selected_best:
  "foldl pick None xs = Some x \<Longrightarrow> x \<in> set xs \<and> (\<forall>y \<in> set xs. \<not> better (fst y) (fst x))"
  using picked_best [of _ _ x] by (cases xs) fastforce+

lemma selected_None: "foldl pick None xs = None \<longleftrightarrow> xs = []"
  using pick_Some by (cases xs) auto

end

interpretation visible_preference: preference longer_visible
  by unfold_locales (auto simp: longer_visible_def)

interpretation backing_preference: preference longer_backing
  by unfold_locales (auto simp: longer_backing_def)

lemma SelectRule_fold:
  "SelectRule key better uid path selected rules =
     (if list_all (\<lambda>(_, _, tail). no_dots tail) (covering key uid path rules)
      then Some (foldl (\<lambda>selected x.
             case selected of None \<Rightarrow> Some x | Some y \<Rightarrow> if better (fst x) (fst y) then Some x else selected)
             selected (covering key uid path rules))
      else None)"
proof (induction rules arbitrary: selected)
  case (Cons rule rules)
  show ?case
    by (auto simp: Cons.IH covering_def rule_match_def HasSafeTail_iff split: option.splits)
qed (simp add: covering_def)

lemmas SelectRule_visible = SelectRule_fold [of visible_path longer_visible,
    folded visible_preference.pick_def [abs_def]]
lemmas SelectRule_backing = SelectRule_fold [of backing_path longer_backing,
    folded backing_preference.pick_def [abs_def]]

end
