(* ===== verification/PG_ProviderHook.thy ===== *)
theory PG_ProviderHook
  imports PG_Provider
begin

text \<open>
  The hooks of \<open>zygisk/src/provider_redirect_hook.cpp\<close>.  The state is what one thread sees: the global
  rules and flags, and its own caller context behind the thread key.  A hooked library function is a
  parameter of its hook, a function of the final arguments and the state, so that it may call hooks
  itself.  The environment holds the answers of the system: the uid of the process, the Binder caller,
  the working directory, the links of \<open>/proc/self/fd\<close> and whether memory can be allocated.
\<close>

definition AT_FDCWD :: int where "AT_FDCWD = -100"
definition ENOSYS :: nat where "ENOSYS = 38"
definition EXDEV_errno :: nat where "EXDEV_errno = 18"
definition kMaxRules :: nat where "kMaxRules = 64"
definition NAME_MAX :: nat where "NAME_MAX = 255"

record HookEnv =
  env_process_uid :: int
  env_binder_uid :: "int option"
  env_cwd :: "string option"
  env_readlink :: "string \<Rightarrow> string option"
  env_alloc :: bool

record HookState =
  g_rules :: "PathRule list"
  g_hooks_enabled :: bool
  g_fuse_install_state :: nat
  g_api :: bool
  g_thread_state_key_ready :: bool
  thread_state :: "CallerUidContext option"
  g_rewrite_log_count :: u32
  rewrite_log :: "(string \<times> int \<times> string \<times> string) list"
  hook_errno :: nat

subsection \<open>Thread state\<close>

definition new_context :: CallerUidContext where
  "new_context = \<lparr>in_path_hook = False, saved_binder_uid = -1, binder_clear_depth = 0, fuse_uid = -1,
     fuse_request = None\<rparr>"

definition InitializeThreadStateKey :: "bool \<Rightarrow> HookState \<Rightarrow> bool \<times> HookState" where
  "InitializeThreadStateKey key_created st =
     (if g_thread_state_key_ready st then (True, st)
      else if \<not> key_created then (False, st)
      else (True, st\<lparr>g_thread_state_key_ready := True\<rparr>))"

definition GetThreadState :: "HookEnv \<Rightarrow> HookState \<Rightarrow> CallerUidContext option \<times> HookState" where
  "GetThreadState env st =
     (if \<not> g_thread_state_key_ready st then (None, st)
      else case thread_state st of
             Some context \<Rightarrow> (Some context, st)
           | None \<Rightarrow> if env_alloc env then (Some new_context, st\<lparr>thread_state := Some new_context\<rparr>)
                     else (None, st))"

text \<open>An update of the context through the pointer that \<open>GetThreadState\<close> returns.\<close>

definition UpdateContext ::
  "HookEnv \<Rightarrow> (CallerUidContext option \<Rightarrow> CallerUidContext option) \<Rightarrow> HookState \<Rightarrow> HookState" where
  "UpdateContext env f st =
     (let (context, st1) = GetThreadState env st in
      case context of None \<Rightarrow> st1 | Some c \<Rightarrow> st1\<lparr>thread_state := f (Some c)\<rparr>)"

definition EnterHook :: "HookEnv \<Rightarrow> HookState \<Rightarrow> bool \<times> HookState" where
  "EnterHook env st =
     (let (context, st1) = GetThreadState env st in
      case context of
        None \<Rightarrow> (False, st1)
      | Some c \<Rightarrow> if in_path_hook c then (False, st1)
                  else (True, st1\<lparr>thread_state := Some (c\<lparr>in_path_hook := True\<rparr>)\<rparr>))"

definition LeaveHook :: "bool \<Rightarrow> 'r \<times> HookState \<Rightarrow> 'r \<times> HookState" where
  "LeaveHook outer result =
     (case result of (r, st) \<Rightarrow>
      (r, if outer then st\<lparr>thread_state := map_option (\<lambda>c. c\<lparr>in_path_hook := False\<rparr>) (thread_state st)\<rparr>
          else st))"

definition RawCallingUid :: "HookEnv \<Rightarrow> int" where
  "RawCallingUid env = (case env_binder_uid env of Some uid \<Rightarrow> uid | None \<Rightarrow> -1)"

definition EffectiveCallingUid :: "HookEnv \<Rightarrow> HookState \<Rightarrow> int \<times> HookState" where
  "EffectiveCallingUid env st =
     (let (context, st1) = GetThreadState env st
      in (EffectiveCallerUid context (RawCallingUid env) (env_process_uid env), st1))"

definition HookedClearCallingIdentity :: "HookEnv \<Rightarrow> (HookState \<Rightarrow> 'r \<times> HookState) \<Rightarrow> HookState \<Rightarrow> 'r \<times> HookState" where
  "HookedClearCallingIdentity env g_binder_clear_identity st =
     g_binder_clear_identity
       (UpdateContext env (BeginBinderIdentityClear (RawCallingUid env) (env_process_uid env)) st)"

definition HookedRestoreCallingIdentity :: "HookEnv \<Rightarrow> (HookState \<Rightarrow> HookState) \<Rightarrow> HookState \<Rightarrow> HookState" where
  "HookedRestoreCallingIdentity env g_binder_restore_identity st =
     UpdateContext env EndBinderIdentityClear (g_binder_restore_identity st)"

subsection \<open>Paths\<close>

function RuleComponentsLoop :: "string \<Rightarrow> bool" where
  "RuleComponentsLoop component =
     (if component = [] then True
      else let part = takeWhile (\<lambda>c. c \<noteq> CHR ''/'') component in
           if part = [] \<or> length part > NAME_MAX \<or> part = ''.'' \<or> part = ''..'' then False
           else case dropWhile (\<lambda>c. c \<noteq> CHR ''/'') component of
                  [] \<Rightarrow> True
                | _ # rest \<Rightarrow> RuleComponentsLoop rest)"
  by pat_completeness auto
termination
  by (relation "measure length") (auto simp: length_dropWhile_Cons)

declare RuleComponentsLoop.simps [simp del]

definition ValidLogicalRulePath :: "string \<Rightarrow> bool" where
  "ValidLogicalRulePath path =
     (if path = [] \<or> hd path = CHR ''/'' \<or> length path \<ge> PATH_MAX \<or>
         CHR ''{'' \<in> set path \<or> CHR ''}'' \<in> set path then False
      else RuleComponentsLoop path)"

definition int_text :: "int \<Rightarrow> string" where
  "int_text i = (if i < 0 then CHR ''-'' # to_string (nat (- i)) else to_string (nat i))"

definition ResolveAtPath :: "HookEnv \<Rightarrow> int \<Rightarrow> string \<Rightarrow> nat \<Rightarrow> string option" where
  "ResolveAtPath env dirfd path capacity =
     (if path = [] then None
      else if hd path = CHR ''/'' then (if length path + 1 > capacity then None else Some path)
      else
        let directory =
              (if dirfd = AT_FDCWD then env_cwd env
               else case env_readlink env (''/proc/self/fd/'' @ int_text dirfd) of
                      None \<Rightarrow> None
                    | Some target \<Rightarrow> if target = [] then None else Some (take (PATH_MAX - 1) target))
        in case directory of
             None \<Rightarrow> None
           | Some d \<Rightarrow>
               let output = d @ ''/'' @ path in
               if length output < capacity then Some output else None)"

definition RewriteAtPath ::
  "HookEnv \<Rightarrow> int \<Rightarrow> string \<Rightarrow> HookState \<Rightarrow> (string \<times> string \<times> int) option \<times> HookState" where
  "RewriteAtPath env dirfd path st =
     (case ResolveAtPath env dirfd path PATH_MAX of
        None \<Rightarrow> (None, st)
      | Some absolute \<Rightarrow>
          if \<not> MatchesVisiblePath (g_rules st) absolute then (None, st)
          else
            let (uid, st1) = EffectiveCallingUid env st in
            case RewriteAbsolutePath (g_rules st1) uid absolute PATH_MAX of
              None \<Rightarrow> (None, st1)
            | Some output \<Rightarrow> (Some (absolute, output, uid), st1))"

definition LogRewrite :: "string \<Rightarrow> int \<Rightarrow> string \<Rightarrow> string \<Rightarrow> HookState \<Rightarrow> HookState" where
  "LogRewrite operation uid from_path to_path st =
     (let st1 = st\<lparr>g_rewrite_log_count := g_rewrite_log_count st + 1\<rparr> in
      if g_rewrite_log_count st \<ge> 64 then st1
      else st1\<lparr>rewrite_log := rewrite_log st1 @ [(operation, uid, from_path, to_path)]\<rparr>)"

subsection \<open>Hooked calls\<close>

type_synonym 'r path_call = "int \<Rightarrow> string option \<Rightarrow> HookState \<Rightarrow> 'r \<times> HookState"

definition WithPath :: "HookEnv \<Rightarrow> string \<Rightarrow> int \<Rightarrow> string option \<Rightarrow> 'r path_call \<Rightarrow> HookState \<Rightarrow> 'r \<times> HookState" where
  "WithPath env operation dirfd path function st =
     (if \<not> g_hooks_enabled st then function dirfd path st
      else
        let (outer, st1) = EnterHook env st in
        case path of
          None \<Rightarrow> LeaveHook outer (function dirfd path st1)
        | Some p \<Rightarrow>
            if \<not> outer then LeaveHook outer (function dirfd path st1)
            else case RewriteAtPath env dirfd p st1 of
                   (None, st2) \<Rightarrow> LeaveHook outer (function dirfd path st2)
                 | (Some (absolute, rewritten, uid), st2) \<Rightarrow>
                     LeaveHook outer
                       (function AT_FDCWD (Some rewritten) (LogRewrite operation uid absolute rewritten st2)))"

type_synonym 'r two_path_call =
  "int \<Rightarrow> string option \<Rightarrow> int \<Rightarrow> string option \<Rightarrow> HookState \<Rightarrow> 'r \<times> HookState"

definition WithTwoPaths ::
  "HookEnv \<Rightarrow> string \<Rightarrow> int \<Rightarrow> string option \<Rightarrow> int \<Rightarrow> string option \<Rightarrow> 'r two_path_call \<Rightarrow> HookState \<Rightarrow>
   'r \<times> HookState" where
  "WithTwoPaths env operation old_dirfd old_path new_dirfd new_path function st =
     (if \<not> g_hooks_enabled st then function old_dirfd old_path new_dirfd new_path st
      else
        let (outer, st1) = EnterHook env st in
        case (old_path, new_path) of
          (Some old_p, Some new_p) \<Rightarrow>
            if \<not> outer then LeaveHook outer (function old_dirfd old_path new_dirfd new_path st1)
            else
              let (old_change, st2) = RewriteAtPath env old_dirfd old_p st1;
                  (new_change, st3) = RewriteAtPath env new_dirfd new_p st2;
                  uid = (case old_change of
                           Some (_, _, u) \<Rightarrow> u
                         | None \<Rightarrow> (case new_change of Some (_, _, u) \<Rightarrow> u | None \<Rightarrow> -1));
                  st4 = (case old_change of None \<Rightarrow> st3 | Some (a, r, _) \<Rightarrow> LogRewrite operation uid a r st3);
                  st5 = (case new_change of None \<Rightarrow> st4 | Some (a, r, _) \<Rightarrow> LogRewrite operation uid a r st4)
              in LeaveHook outer
                   (function (case old_change of None \<Rightarrow> old_dirfd | Some _ \<Rightarrow> AT_FDCWD)
                      (case old_change of None \<Rightarrow> old_path | Some (_, r, _) \<Rightarrow> Some r)
                      (case new_change of None \<Rightarrow> new_dirfd | Some _ \<Rightarrow> AT_FDCWD)
                      (case new_change of None \<Rightarrow> new_path | Some (_, r, _) \<Rightarrow> Some r) st5)
        | _ \<Rightarrow> LeaveHook outer (function old_dirfd old_path new_dirfd new_path st1))"

text \<open>\<open>realpath\<close> translates its result back; the buffer is the caller's or a fresh one.\<close>

definition HookedRealpath ::
  "HookEnv \<Rightarrow> (string option \<Rightarrow> HookState \<Rightarrow> string option \<times> HookState) \<Rightarrow> string option \<Rightarrow> bool \<Rightarrow>
   HookState \<Rightarrow> string option \<times> HookState" where
  "HookedRealpath env g_realpath path caller_buffer st =
     (if \<not> g_hooks_enabled st then g_realpath path st
      else
        let (outer, st1) = EnterHook env st in
        case path of
          None \<Rightarrow> LeaveHook outer (g_realpath path st1)
        | Some p \<Rightarrow>
            if \<not> outer then LeaveHook outer (g_realpath path st1)
            else case RewriteAtPath env AT_FDCWD p st1 of
                   (None, st2) \<Rightarrow> LeaveHook outer (g_realpath path st2)
                 | (Some (absolute, rewritten, uid), st2) \<Rightarrow>
                     LeaveHook outer
                       (case g_realpath (Some rewritten) st2 of
                          (None, st3) \<Rightarrow> (None, st3)
                        | (Some canonical, st3) \<Rightarrow>
                            (case RestoreAbsolutePath (g_rules st3) uid canonical PATH_MAX of
                               None \<Rightarrow> (None, st3\<lparr>hook_errno := EXDEV_errno\<rparr>)
                             | Some restored \<Rightarrow>
                                 if \<not> caller_buffer \<and> \<not> env_alloc env then (None, st3)
                                 else (Some restored, LogRewrite ''realpath'' uid absolute rewritten st3))))"


subsubsection \<open>One hook per library function\<close>

text \<open>The original function takes the path and the other arguments of the call; results written through
  pointers are part of its result.\<close>

definition O_CREAT :: u32 where "O_CREAT = 0x40"

definition HookedOpenCommon ::
  "HookEnv \<Rightarrow> (string option \<Rightarrow> u32 \<Rightarrow> u32 \<Rightarrow> HookState \<Rightarrow> int \<times> HookState) option \<Rightarrow> string \<Rightarrow>
   string option \<Rightarrow> u32 \<Rightarrow> u32 \<Rightarrow> HookState \<Rightarrow> int \<times> HookState" where
  "HookedOpenCommon env original operation path flags mode st =
     (case original of
        None \<Rightarrow> (-1, st\<lparr>hook_errno := ENOSYS\<rparr>)
      | Some f \<Rightarrow> WithPath env operation AT_FDCWD path (\<lambda>_ final_path. f final_path flags mode) st)"

definition HookedOpen where
  "HookedOpen env g_open path flags mode_argument =
     HookedOpenCommon env g_open ''open'' path flags (if flags AND O_CREAT \<noteq> 0 then mode_argument else 0)"

definition HookedOpen64 where
  "HookedOpen64 env g_open64 g_open path flags mode_argument =
     HookedOpenCommon env (if g_open64 \<noteq> None then g_open64 else g_open) ''open64'' path flags
       (if flags AND O_CREAT \<noteq> 0 then mode_argument else 0)"

definition HookedOpenAtCommon ::
  "HookEnv \<Rightarrow> (int \<Rightarrow> string option \<Rightarrow> u32 \<Rightarrow> u32 \<Rightarrow> HookState \<Rightarrow> int \<times> HookState) option \<Rightarrow> string \<Rightarrow>
   int \<Rightarrow> string option \<Rightarrow> u32 \<Rightarrow> u32 \<Rightarrow> HookState \<Rightarrow> int \<times> HookState" where
  "HookedOpenAtCommon env original operation dirfd path flags mode st =
     (case original of
        None \<Rightarrow> (-1, st\<lparr>hook_errno := ENOSYS\<rparr>)
      | Some f \<Rightarrow> WithPath env operation dirfd path
                    (\<lambda>final_dirfd final_path. f final_dirfd final_path flags mode) st)"

definition HookedOpenAt where
  "HookedOpenAt env g_openat dirfd path flags mode_argument =
     HookedOpenAtCommon env g_openat ''openat'' dirfd path flags
       (if flags AND O_CREAT \<noteq> 0 then mode_argument else 0)"

definition HookedOpenAt64 where
  "HookedOpenAt64 env g_openat64 g_openat dirfd path flags mode_argument =
     HookedOpenAtCommon env (if g_openat64 \<noteq> None then g_openat64 else g_openat) ''openat64'' dirfd path flags
       (if flags AND O_CREAT \<noteq> 0 then mode_argument else 0)"

definition HookedStat where
  "HookedStat env g_stat path =
     WithPath env ''stat'' AT_FDCWD path (\<lambda>_ final_path. g_stat final_path)"

definition HookedLstat where
  "HookedLstat env g_lstat path =
     WithPath env ''lstat'' AT_FDCWD path (\<lambda>_ final_path. g_lstat final_path)"

definition HookedStat64 where
  "HookedStat64 env g_stat64 path =
     WithPath env ''stat64'' AT_FDCWD path (\<lambda>_ final_path. g_stat64 final_path)"

definition HookedLstat64 where
  "HookedLstat64 env g_lstat64 path =
     WithPath env ''lstat64'' AT_FDCWD path (\<lambda>_ final_path. g_lstat64 final_path)"

definition HookedAccess where
  "HookedAccess env g_access path mode =
     WithPath env ''access'' AT_FDCWD path (\<lambda>_ final_path. g_access final_path mode)"

definition HookedOpenDir where
  "HookedOpenDir env g_opendir path =
     WithPath env ''opendir'' AT_FDCWD path (\<lambda>_ final_path. g_opendir final_path)"

definition HookedMkdir where
  "HookedMkdir env g_mkdir path mode =
     WithPath env ''mkdir'' AT_FDCWD path (\<lambda>_ final_path. g_mkdir final_path mode)"

definition HookedUnlink where
  "HookedUnlink env g_unlink path =
     WithPath env ''unlink'' AT_FDCWD path (\<lambda>_ final_path. g_unlink final_path)"

definition HookedRemove where
  "HookedRemove env g_remove path =
     WithPath env ''remove'' AT_FDCWD path (\<lambda>_ final_path. g_remove final_path)"

definition HookedRmdir where
  "HookedRmdir env g_rmdir path =
     WithPath env ''rmdir'' AT_FDCWD path (\<lambda>_ final_path. g_rmdir final_path)"

definition HookedReadlink where
  "HookedReadlink env g_readlink path buffer_size =
     WithPath env ''readlink'' AT_FDCWD path (\<lambda>_ final_path. g_readlink final_path buffer_size)"

definition HookedChmod where
  "HookedChmod env g_chmod path mode =
     WithPath env ''chmod'' AT_FDCWD path (\<lambda>_ final_path. g_chmod final_path mode)"

definition HookedChown where
  "HookedChown env g_chown path new_owner new_group =
     WithPath env ''chown'' AT_FDCWD path (\<lambda>_ final_path. g_chown final_path new_owner new_group)"

definition HookedLchown where
  "HookedLchown env g_lchown path new_owner new_group =
     WithPath env ''lchown'' AT_FDCWD path (\<lambda>_ final_path. g_lchown final_path new_owner new_group)"

definition HookedTruncate where
  "HookedTruncate env g_truncate path new_length =
     WithPath env ''truncate'' AT_FDCWD path (\<lambda>_ final_path. g_truncate final_path new_length)"

definition HookedTruncate64 where
  "HookedTruncate64 env g_truncate64 path new_length =
     WithPath env ''truncate64'' AT_FDCWD path (\<lambda>_ final_path. g_truncate64 final_path new_length)"

definition HookedStatVfs where
  "HookedStatVfs env g_statvfs path =
     WithPath env ''statvfs'' AT_FDCWD path (\<lambda>_ final_path. g_statvfs final_path)"

definition HookedStatVfs64 where
  "HookedStatVfs64 env g_statvfs64 path =
     WithPath env ''statvfs64'' AT_FDCWD path (\<lambda>_ final_path. g_statvfs64 final_path)"

definition HookedFstatAt where
  "HookedFstatAt env g_fstatat dirfd path flags =
     WithPath env ''fstatat'' dirfd path (\<lambda>final_dirfd final_path. g_fstatat final_dirfd final_path flags)"

definition HookedFstatAt64 where
  "HookedFstatAt64 env g_fstatat64 dirfd path flags =
     WithPath env ''fstatat64'' dirfd path (\<lambda>final_dirfd final_path. g_fstatat64 final_dirfd final_path flags)"

definition HookedFaccessAt where
  "HookedFaccessAt env g_faccessat dirfd path mode flags =
     WithPath env ''faccessat'' dirfd path (\<lambda>final_dirfd final_path. g_faccessat final_dirfd final_path mode flags)"

definition HookedMkdirAt where
  "HookedMkdirAt env g_mkdirat dirfd path mode =
     WithPath env ''mkdirat'' dirfd path (\<lambda>final_dirfd final_path. g_mkdirat final_dirfd final_path mode)"

definition HookedUnlinkAt where
  "HookedUnlinkAt env g_unlinkat dirfd path flags =
     WithPath env ''unlinkat'' dirfd path (\<lambda>final_dirfd final_path. g_unlinkat final_dirfd final_path flags)"

definition HookedFchmodAt where
  "HookedFchmodAt env g_fchmodat dirfd path mode flags =
     WithPath env ''fchmodat'' dirfd path (\<lambda>final_dirfd final_path. g_fchmodat final_dirfd final_path mode flags)"

definition HookedFchownAt where
  "HookedFchownAt env g_fchownat dirfd path new_owner new_group flags =
     WithPath env ''fchownat'' dirfd path (\<lambda>final_dirfd final_path. g_fchownat final_dirfd final_path new_owner new_group flags)"

definition HookedUtimensAt where
  "HookedUtimensAt env g_utimensat dirfd path timestamps flags =
     WithPath env ''utimensat'' dirfd path (\<lambda>final_dirfd final_path. g_utimensat final_dirfd final_path timestamps flags)"

definition HookedInotifyAddWatch where
  "HookedInotifyAddWatch env g_inotify_add_watch fd path event_mask =
     WithPath env ''inotify_add_watch'' AT_FDCWD path (\<lambda>_ final_path. g_inotify_add_watch fd final_path event_mask)"

definition HookedRename where
  "HookedRename env g_rename old_path new_path =
     WithTwoPaths env ''rename'' AT_FDCWD old_path AT_FDCWD new_path
       (\<lambda>_ final_old _ final_new. g_rename final_old final_new)"

definition HookedRenameAt where
  "HookedRenameAt env g_renameat old_dirfd old_path new_dirfd new_path =
     WithTwoPaths env ''renameat'' old_dirfd old_path new_dirfd new_path g_renameat"

definition HookedRenameAt2 where
  "HookedRenameAt2 env g_renameat2 old_dirfd old_path new_dirfd new_path flags =
     WithTwoPaths env ''renameat2'' old_dirfd old_path new_dirfd new_path
       (\<lambda>final_old_dirfd final_old final_new_dirfd final_new.
          g_renameat2 final_old_dirfd final_old final_new_dirfd final_new flags)"

subsubsection \<open>FUSE requests\<close>

definition CaptureFuseRequest :: "HookEnv \<Rightarrow> nat option \<Rightarrow> int option \<Rightarrow> HookState \<Rightarrow> HookState" where
  "CaptureFuseRequest env request context_uid st =
     (case context_uid of
        None \<Rightarrow> st
      | Some uid \<Rightarrow> UpdateContext env (BeginFuseRequest request uid (env_process_uid env)) st)"

definition HookedFuseReqUserdata ::
  "HookEnv \<Rightarrow> (nat option \<Rightarrow> HookState \<Rightarrow> 'r \<times> HookState) \<Rightarrow> (nat option \<Rightarrow> int option) option \<Rightarrow>
   nat option \<Rightarrow> HookState \<Rightarrow> 'r \<times> HookState" where
  "HookedFuseReqUserdata env g_fuse_req_userdata g_fuse_req_context request st =
     (let (userdata, st1) = g_fuse_req_userdata request st in
      (userdata,
       case g_fuse_req_context of
         None \<Rightarrow> st1
       | Some context_of \<Rightarrow> CaptureFuseRequest env request (context_of request) st1))"

definition HookedFuseReqContext ::
  "HookEnv \<Rightarrow> (nat option \<Rightarrow> int option) \<Rightarrow> nat option \<Rightarrow> HookState \<Rightarrow> int option \<times> HookState" where
  "HookedFuseReqContext env g_fuse_req_context request st =
     (let context = g_fuse_req_context request in (context, CaptureFuseRequest env request context st))"

definition FinishFuseRequest :: "HookEnv \<Rightarrow> nat option \<Rightarrow> HookState \<Rightarrow> HookState" where
  "FinishFuseRequest env request = UpdateContext env (EndFuseRequest request)"

text \<open>The ten reply hooks have this body, with the original reply function in place of \<open>g_reply\<close>.\<close>

definition HookedFuseReply ::
  "HookEnv \<Rightarrow> (nat option \<Rightarrow> HookState \<Rightarrow> 'r \<times> HookState) \<Rightarrow> nat option \<Rightarrow> HookState \<Rightarrow> 'r \<times> HookState" where
  "HookedFuseReply env g_reply request st =
     (let (result, st1) = g_reply request st in (result, FinishFuseRequest env request st1))"

subsection \<open>Registration and installation\<close>

definition PathBasename :: "string \<Rightarrow> string" where
  "PathBasename path = rev (takeWhile (\<lambda>c. c \<noteq> CHR ''/'') (rev path))"

definition kHookTargetBasenames :: "string list" where
  "kHookTargetBasenames =
     [''libjavacore.so'', ''libopenjdk.so'', ''libnativehelper.so'', ''libandroid_runtime.so'', ''libnativeloader.so'']"

definition IsPermanentHookTarget :: "string \<Rightarrow> bool" where
  "IsPermanentHookTarget path = list_ex (\<lambda>candidate. PathBasename path = candidate) kHookTargetBasenames"

definition IsFuseHookTarget :: "string option \<Rightarrow> bool" where
  "IsFuseHookTarget path = (case path of None \<Rightarrow> False | Some p \<Rightarrow> PathBasename p = ''libfuse_jni.so'')"

definition kHookSpecs :: "string list" where
  "kHookSpecs =
     [''open'', ''open64'', ''openat'', ''openat64'', ''stat'', ''lstat'', ''fstatat'', ''stat64'', ''lstat64'',
      ''fstatat64'', ''access'', ''faccessat'', ''opendir'', ''mkdir'', ''mkdirat'', ''unlink'', ''unlinkat'',
      ''remove'', ''rmdir'', ''rename'', ''renameat'', ''renameat2'', ''readlink'', ''realpath'', ''chmod'',
      ''fchmodat'', ''chown'', ''lchown'', ''fchownat'', ''truncate'', ''truncate64'', ''utimensat'', ''statvfs'',
      ''statvfs64'', ''inotify_add_watch'', ''dlopen'', ''android_dlopen_ext'', ''fuse_req_userdata'',
      ''fuse_req_ctx'', ''fuse_reply_err'', ''fuse_reply_entry'', ''fuse_reply_attr'', ''fuse_reply_open'',
      ''fuse_reply_write'', ''fuse_reply_buf'', ''fuse_reply_data'', ''fuse_reply_statfs'',
      ''fuse_reply_create'', ''fuse_reply_none'']"

text \<open>What registration does to an image: the symbols passed to \<open>pltHookRegister\<close>, in order, and the
  bit set of those already registered.\<close>

fun RegisterImportedSymbol :: "string list \<Rightarrow> nat \<Rightarrow> string \<Rightarrow> u64 \<times> string list \<Rightarrow> u64 \<times> string list" where
  "RegisterImportedSymbol [] index symbol acc = acc"
| "RegisterImportedSymbol (spec # specs) index symbol (registered, calls) =
     (if spec \<noteq> symbol then RegisterImportedSymbol specs (index + 1) symbol (registered, calls)
      else let bit = push_bit index (1 :: u64) in
           if registered AND bit \<noteq> 0 then (registered, calls)
           else (registered OR bit, calls @ [spec]))"

text \<open>The loop over the relocations of an image, given the names they import.\<close>

definition RegisterImports :: "string list \<Rightarrow> u64 \<times> string list" where
  "RegisterImports imported =
     foldl (\<lambda>acc symbol. RegisterImportedSymbol kHookSpecs 0 symbol acc) (0, []) imported"

text \<open>\<open>present\<close> are the symbols whose original pointer is set after the commit.\<close>

definition filesystem_complete :: "string set \<Rightarrow> bool" where
  "filesystem_complete present \<longleftrightarrow>
     (''open'' \<in> present \<or> ''openat'' \<in> present) \<and>
     (''stat'' \<in> present \<or> ''stat64'' \<in> present \<or> ''fstatat'' \<in> present \<or> ''fstatat64'' \<in> present) \<and>
     ''access'' \<in> present \<and> ''opendir'' \<in> present \<and> ''mkdir'' \<in> present \<and> ''remove'' \<in> present \<and>
     ''rename'' \<in> present \<and> ''realpath'' \<in> present \<and> ''readlink'' \<in> present \<and> ''chmod'' \<in> present \<and>
     ''chown'' \<in> present \<and> ''statvfs'' \<in> present \<and> ''inotify_add_watch'' \<in> present"

definition RegisterHooks :: "nat \<Rightarrow> bool \<Rightarrow> string set \<Rightarrow> bool \<Rightarrow> InstallResult" where
  "RegisterHooks registration_count committed present binder_identity_hooks =
     \<lparr>hook_registration_attempted = (registration_count \<noteq> 0), hooks_committed = committed,
      virtualization_active = (committed \<and> filesystem_complete present \<and> binder_identity_hooks),
      identity_hook_attempted = binder_identity_hooks, identity_hooks = binder_identity_hooks\<rparr>"

definition MaybeInstallFuseHooks ::
  "string option \<Rightarrow> nat \<Rightarrow> bool \<Rightarrow> string set \<Rightarrow> HookState \<Rightarrow> HookState" where
  "MaybeInstallFuseHooks path registration_count commit present st =
     (if \<not> IsFuseHookTarget path \<or> \<not> g_api st then st
      else if g_fuse_install_state st \<noteq> 0 then st
      else
        let committed = (registration_count \<noteq> 0 \<and> commit);
            request_scope = (''fuse_req_userdata'' \<in> present \<and> ''fuse_req_ctx'' \<in> present \<and>
                             ''fuse_reply_err'' \<in> present \<and> ''fuse_reply_create'' \<in> present)
        in st\<lparr>g_fuse_install_state := (if committed \<and> request_scope then 2 else 3)\<rparr>)"

definition ambiguous :: "PathRule \<Rightarrow> PathRule \<Rightarrow> bool" where
  "ambiguous current input \<longleftrightarrow>
     caller_uid current = caller_uid input \<and> user_id current = user_id input \<and>
     visible_path current = visible_path input \<and> backing_path current \<noteq> backing_path input"

fun CopyRules :: "PathRule list \<Rightarrow> HookState \<Rightarrow> bool \<times> HookState" where
  "CopyRules [] st = (True, st)"
| "CopyRules (input # rules) st =
     (if caller_uid input < 10000 \<or> \<not> ValidLogicalRulePath (visible_path input) \<or>
         \<not> ValidLogicalRulePath (backing_path input) then (False, st)
      else if list_ex (\<lambda>current. ambiguous current input) (g_rules st) then (False, st)
      else CopyRules rules (st\<lparr>g_rules := g_rules st @ [input]\<rparr>))"

text \<open>The outcome of the system in an installation: whether the thread key can be created, how many of the
  three Binder methods could be replaced, and what registering and committing the hooks gave.\<close>

record InstallEnv =
  install_key :: bool
  install_binder_methods :: nat
  install_registrations :: nat
  install_commit :: bool
  install_present :: "string set"

definition Install :: "InstallEnv \<Rightarrow> PathRule list \<Rightarrow> HookState \<Rightarrow> InstallResult \<times> HookState" where
  "Install ienv rules st =
     (if rules = [] \<or> length rules > kMaxRules then (no_install, st)
      else
        let (ready, st1) = InitializeThreadStateKey (install_key ienv) st in
        if \<not> ready then (no_install, st1)
        else
          let st2 = st1\<lparr>g_hooks_enabled := False, g_fuse_install_state := 0, g_api := True, g_rules := []\<rparr>;
              (copied, st3) = CopyRules rules st2
          in if \<not> copied then (no_install, st3)
             else if install_binder_methods ienv < 3 then
               (no_install\<lparr>identity_hook_attempted := install_binder_methods ienv \<noteq> 0\<rparr>, st3)
             else
               let result = RegisterHooks (install_registrations ienv) (install_commit ienv)
                              (install_present ienv) True;
                   st4 = (if ShouldEnableHooks result then st3\<lparr>g_hooks_enabled := True\<rparr> else st3);
                   st5 = (if \<not> virtualization_active result then st4\<lparr>g_rules := []\<rparr> else st4)
               in (result, st5))"

text \<open>The deepest rule of the caller above a path, and where the path lies below it.\<close>

definition deepest_cover ::
  "(PathRule \<Rightarrow> string) \<Rightarrow> PathRule list \<Rightarrow> int \<Rightarrow> string \<Rightarrow> PathRule \<Rightarrow> string \<Rightarrow> string \<Rightarrow> bool" where
  "deepest_cover key rules uid path rule root tail \<longleftrightarrow>
     rule \<in> set rules \<and> covers key uid path rule root tail \<and>
     (\<forall>r \<in> set rules. \<forall>root' tail'. covers key uid path r root' tail' \<longrightarrow> length (key r) \<le> length (key rule))"

definition tails_safe :: "(PathRule \<Rightarrow> string) \<Rightarrow> PathRule list \<Rightarrow> int \<Rightarrow> string \<Rightarrow> bool" where
  "tails_safe key rules uid path \<longleftrightarrow>
     (\<forall>r \<in> set rules. \<forall>root tail. covers key uid path r root tail \<longrightarrow> no_dots tail)"

lemma tails_safe_covering:
  "list_all (\<lambda>(_, _, tail). no_dots tail) (covering key uid path rules) \<longleftrightarrow> tails_safe key rules uid path"
  by (auto simp: list_all_iff covering_set tails_safe_def)

lemma covers_absolute:
  assumes "covers key uid path rule root tail"
  shows "path \<noteq> []" "hd path = CHR ''/''" "root @ s \<noteq> []"
  using assms by (auto simp: covers_def logical_roots_def Let_def)

lemma deepest_cover_same_path:
  assumes "deepest_cover key rules uid path rule root tail" "deepest_cover key rules uid path rule' root' tail'"
  shows "user_id rule = user_id rule'" "root = root'" "key rule = key rule'" "tail = tail'"
proof -
  have c: "covers key uid path rule root tail" "covers key uid path rule' root' tail'"
    and len: "length (key rule) = length (key rule')"
    using assms unfolding deepest_cover_def by (blast, blast, meson order.antisym)
  from covers_unique [OF c] len show "user_id rule = user_id rule'" "root = root'" "key rule = key rule'" "tail = tail'"
    by auto
qed

lemma SelectRule_visible_Some:
  "SelectRule visible_path longer_visible uid path None rules = Some (Some (rule, root, tail)) \<Longrightarrow>
     tails_safe visible_path rules uid path \<and> deepest_cover visible_path rules uid path rule root tail"
  unfolding SelectRule_visible tails_safe_covering
  by (auto simp: deepest_cover_def covering_set longer_visible_def not_less
      dest!: visible_preference.selected_best split: if_splits) blast

lemma SelectRule_visible_None:
  "SelectRule visible_path longer_visible uid path None rules = Some None \<Longrightarrow>
     rule \<in> set rules \<Longrightarrow> \<not> covers visible_path uid path rule root tail"
  unfolding SelectRule_visible
  by (auto simp: visible_preference.selected_None split: if_splits)
    (metis (mono_tags, lifting) case_prodI covering_set empty_iff mem_Collect_eq set_empty)

lemma SelectRule_backing_Some:
  assumes "SelectRule backing_path longer_backing uid path None rules = Some (Some (rule, root, tail))"
  shows "deepest_cover backing_path rules uid path rule root tail"
  using assms unfolding SelectRule_backing tails_safe_covering
  by (auto simp: deepest_cover_def covering_set longer_backing_def not_less
      dest!: backing_preference.selected_best split: if_splits) blast

lemma SelectRule_backing_cover:
  assumes "tails_safe backing_path rules uid path" "rule \<in> set rules" "covers backing_path uid path rule root tail"
  obtains r root' tail' where
    "SelectRule backing_path longer_backing uid path None rules = Some (Some (r, root', tail'))"
proof -
  have "covering backing_path uid path rules \<noteq> []"
    using covering_set [of backing_path uid path rules] assms(2,3) by auto
  then obtain x where "foldl backing_preference.pick None (covering backing_path uid path rules) = Some x"
    using backing_preference.selected_None by blast
  moreover have "list_all (\<lambda>(_, _, tail). no_dots tail) (covering backing_path uid path rules)"
    using assms(1) tails_safe_covering by blast
  ultimately have "SelectRule backing_path longer_backing uid path None rules = Some (Some x)"
    unfolding SelectRule_backing by simp
  thus thesis using that by (cases x) auto
qed

lemma RewriteAbsolutePath_iff:
  assumes "\<forall>r \<in> set rules. \<forall>r' \<in> set rules. \<not> ambiguous r r'"
  shows "RewriteAbsolutePath rules uid path capacity = Some out \<longleftrightarrow>
    10000 \<le> uid \<and> length out < capacity \<and> out \<noteq> path \<and> tails_safe visible_path rules uid path \<and>
    (\<exists>rule root tail. deepest_cover visible_path rules uid path rule root tail \<and>
       out = root @ backing_path rule @ tail)"
    (is "?l \<longleftrightarrow> ?r")
proof
  assume ?l
  then obtain rule root tail where
    "SelectRule visible_path longer_visible uid path None rules = Some (Some (rule, root, tail))"
    "WritePath path capacity (root @ backing_path rule @ tail) = Some out" "10000 \<le> uid"
    by (auto simp: RewriteAbsolutePath_def split: if_splits option.splits)
  with SelectRule_visible_Some [OF this(1)] show ?r by (auto simp: WritePath_def split: if_splits)
next
  assume ?r
  then obtain rule root tail where r: "10000 \<le> uid" "length out < capacity" "out \<noteq> path"
    "tails_safe visible_path rules uid path" "deepest_cover visible_path rules uid path rule root tail"
    "out = root @ backing_path rule @ tail" by blast
  have cov: "covers visible_path uid path rule root tail" "rule \<in> set rules"
    using r(5) by (auto simp: deepest_cover_def)
  have "SelectRule visible_path longer_visible uid path None rules \<noteq> None"
    using r(4) unfolding SelectRule_visible tails_safe_covering by simp
  moreover have "SelectRule visible_path longer_visible uid path None rules \<noteq> Some None"
    using SelectRule_visible_None cov by blast
  ultimately obtain rule' root' tail' where
    sel: "SelectRule visible_path longer_visible uid path None rules = Some (Some (rule', root', tail'))" by auto
  have d: "deepest_cover visible_path rules uid path rule' root' tail'"
    using SelectRule_visible_Some [OF sel] by blast
  note same = deepest_cover_same_path [OF d r(5)]
  have "rule' \<in> set rules" "caller_uid rule' = caller_uid rule"
    using d r(5) by (auto simp: deepest_cover_def covers_def)
  hence "backing_path rule' = backing_path rule"
    using assms cov(2) same(1,3) unfolding ambiguous_def by metis
  hence "root' @ backing_path rule' @ tail' = out" using same r(6) by simp
  moreover have "WritePath path capacity out = Some out"
    using r(2,3) covers_absolute(3) [OF cov(1), of "backing_path rule @ tail"] unfolding r(6) [symmetric]
    by (auto simp: WritePath_def)
  ultimately show ?l using sel r(1,2) covers_absolute(1,2) [OF cov(1)] by (simp add: RewriteAbsolutePath_def)
qed

subsection \<open>Installed rules\<close>

definition rule_valid :: "PathRule \<Rightarrow> bool" where
  "rule_valid r \<longleftrightarrow> 10000 \<le> caller_uid r \<and> ValidLogicalRulePath (visible_path r) \<and> ValidLogicalRulePath (backing_path r)"

definition rules_installed :: "PathRule list \<Rightarrow> bool" where
  "rules_installed rules \<longleftrightarrow>
     (\<forall>r \<in> set rules. rule_valid r) \<and> (\<forall>r \<in> set rules. \<forall>r' \<in> set rules. \<not> ambiguous r r')"

lemma ambiguous_sym: "ambiguous r r' \<longleftrightarrow> ambiguous r' r"
  by (auto simp: ambiguous_def)

lemma ambiguous_irrefl [simp]: "\<not> ambiguous r r"
  by (simp add: ambiguous_def)

lemma CopyRules_installed:
  assumes "rules_installed (g_rules st)"
  shows "rules_installed (g_rules (snd (CopyRules rules st)))"
    "fst (CopyRules rules st) \<Longrightarrow> g_rules (snd (CopyRules rules st)) = g_rules st @ rules"
    "g_hooks_enabled (snd (CopyRules rules st)) = g_hooks_enabled st"
proof -
  have "rules_installed (g_rules (snd (CopyRules rules st))) \<and>
    (fst (CopyRules rules st) \<longrightarrow> g_rules (snd (CopyRules rules st)) = g_rules st @ rules) \<and>
    g_hooks_enabled (snd (CopyRules rules st)) = g_hooks_enabled st"
    using assms
  proof (induction rules arbitrary: st)
    case (Cons r rules)
    show ?case
    proof (cases "rule_valid r \<and> \<not> list_ex (\<lambda>current. ambiguous current r) (g_rules st)")
      case True
      hence "rules_installed (g_rules (st\<lparr>g_rules := g_rules st @ [r]\<rparr>))"
        using Cons.prems by (auto simp: rules_installed_def list_ex_iff ambiguous_sym)
      from Cons.IH [OF this] True show ?thesis by (auto simp: rule_valid_def)
    next
      case False
      thus ?thesis using Cons.prems by (auto simp: rule_valid_def)
    qed
  qed simp
  thus "rules_installed (g_rules (snd (CopyRules rules st)))"
    "fst (CopyRules rules st) \<Longrightarrow> g_rules (snd (CopyRules rules st)) = g_rules st @ rules"
    "g_hooks_enabled (snd (CopyRules rules st)) = g_hooks_enabled st" by auto
qed

lemma Install_outcome:
  assumes "Install ienv rules st = (result, st')"
  shows "virtualization_active result \<Longrightarrow> g_hooks_enabled st' \<and> g_rules st' = rules \<and> rules_installed rules \<and>
      rules \<noteq> [] \<and> length rules \<le> kMaxRules \<and> g_thread_state_key_ready st' \<and>
      install_binder_methods ienv \<ge> 3 \<and> install_commit ienv \<and> filesystem_complete (install_present ienv)"
    "\<not> virtualization_active result \<Longrightarrow> \<not> g_hooks_enabled st' \<or> st' = st"
proof -
  have none: "rules_installed []" by (simp add: rules_installed_def)
  define st2 where "st2 = (snd (InitializeThreadStateKey (install_key ienv) st))
      \<lparr>g_hooks_enabled := False, g_fuse_install_state := 0, g_api := True, g_rules := []\<rparr>"
  have c: "rules_installed (g_rules (snd (CopyRules rules st2)))"
    "fst (CopyRules rules st2) \<Longrightarrow> g_rules (snd (CopyRules rules st2)) = rules"
    "\<not> g_hooks_enabled (snd (CopyRules rules st2))"
    using CopyRules_installed [of st2 rules] none by (auto simp: st2_def)
  have key: "g_thread_state_key_ready (snd (CopyRules rs s)) = g_thread_state_key_ready s" for rs s
    by (induction rs arbitrary: s) auto
  show "virtualization_active result \<Longrightarrow> g_hooks_enabled st' \<and> g_rules st' = rules \<and> rules_installed rules \<and>
      rules \<noteq> [] \<and> length rules \<le> kMaxRules \<and> g_thread_state_key_ready st' \<and>
      install_binder_methods ienv \<ge> 3 \<and> install_commit ienv \<and> filesystem_complete (install_present ienv)"
    using assms c key [of rules st2]
    by (auto simp: Install_def no_install_def RegisterHooks_def ShouldEnableHooks_def Let_def
        InitializeThreadStateKey_def st2_def split: prod.splits if_splits)
  show "\<not> virtualization_active result \<Longrightarrow> \<not> g_hooks_enabled st' \<or> st' = st"
    using assms c
    by (auto simp: Install_def no_install_def RegisterHooks_def ShouldEnableHooks_def Let_def
        InitializeThreadStateKey_def st2_def split: prod.splits if_splits)
qed

lemma RuleComponentsLoop_no_dots: "RuleComponentsLoop p \<Longrightarrow> no_dots p"
proof (induction p rule: RuleComponentsLoop.induct)
  case (1 p)
  show ?case
  proof (cases "p = []")
    case False
    let ?part = "takeWhile (\<lambda>c. c \<noteq> CHR ''/'') p"
    from 1(2) [unfolded RuleComponentsLoop.simps [of p] Let_def] False
    have part: "\<not> (?part = [] \<or> length ?part > NAME_MAX \<or> ?part = ''.'' \<or> ?part = ''..'')"
      and rest: "case dropWhile (\<lambda>c. c \<noteq> CHR ''/'') p of [] \<Rightarrow> True | _ # r \<Rightarrow> RuleComponentsLoop r"
      by (auto split: if_splits)
    show ?thesis
    proof (cases "dropWhile (\<lambda>c. c \<noteq> CHR ''/'') p")
      case Nil
      show ?thesis unfolding no_dots_unfold [of p] Let_def Nil list.case using part by blast
    next
      case (Cons x r)
      show ?thesis unfolding no_dots_unfold [of p] Let_def Cons list.case
        using part rest [unfolded Cons list.case] 1(1) [OF False refl part Cons] by blast
    qed
  qed (simp add: no_dots_def)
qed

lemma ValidLogicalRulePath_facts: "ValidLogicalRulePath p \<Longrightarrow> p \<noteq> [] \<and> no_dots p"
  by (auto simp: ValidLogicalRulePath_def RuleComponentsLoop_no_dots split: if_splits)

lemma no_dots_join: "no_dots p \<Longrightarrow> no_dots tail \<Longrightarrow> tail = [] \<or> hd tail = CHR ''/'' \<Longrightarrow> no_dots (p @ tail)"
  by (cases tail) (auto simp: no_dots_append_sep)

text \<open>
  Claim C9.  Once the hooks are active, the rewriting of a path for a caller is determined by the installed
  rules alone.  It succeeds exactly when the caller is an application, some rule of the caller covers the
  path in a storage root of the rule's user, nothing below a covering rule is \<open>.\<close> or \<open>..\<close>, and the result
  fits and differs from the path; then the path of the deepest covering rule is replaced by its backing
  path.  The result lies in the same storage root and has no \<open>.\<close> or \<open>..\<close> below it: no caller reaches the
  storage of another user.
\<close>

theorem provider_rewrite_exact:
  assumes "Install ienv rules st = (result, st')" "virtualization_active result"
  shows "(RewriteAbsolutePath (g_rules st') uid path PATH_MAX = Some out \<longleftrightarrow>
       10000 \<le> uid \<and> length out < PATH_MAX \<and> out \<noteq> path \<and> tails_safe visible_path rules uid path \<and>
       (\<exists>rule root tail. deepest_cover visible_path rules uid path rule root tail \<and>
          out = root @ backing_path rule @ tail)) \<and>
    (RewriteAbsolutePath (g_rules st') uid path PATH_MAX = Some out \<longrightarrow>
       (\<exists>rule \<in> set rules. \<exists>root below below'. caller_uid rule = uid \<and>
          root \<in> set (logical_roots (user_id rule)) \<and> path = root @ below \<and>
          out = root @ below' \<and> below' \<noteq> [] \<and> no_dots below'))"
proof -
  from Install_outcome(1) [OF assms] have inst: "g_rules st' = rules" "rules_installed rules" by auto
  note iff = RewriteAbsolutePath_iff [of rules uid path PATH_MAX out]
  have exact: "RewriteAbsolutePath (g_rules st') uid path PATH_MAX = Some out \<longleftrightarrow>
       10000 \<le> uid \<and> length out < PATH_MAX \<and> out \<noteq> path \<and> tails_safe visible_path rules uid path \<and>
       (\<exists>rule root tail. deepest_cover visible_path rules uid path rule root tail \<and>
          out = root @ backing_path rule @ tail)"
    using inst iff by (simp add: rules_installed_def)
  {
    assume "RewriteAbsolutePath (g_rules st') uid path PATH_MAX = Some out"
    with exact obtain rule root tail where safe: "tails_safe visible_path rules uid path"
      and d: "deepest_cover visible_path rules uid path rule root tail"
      and out: "out = root @ backing_path rule @ tail" by blast
    have r: "rule \<in> set rules" and c: "covers visible_path uid path rule root tail"
      using d by (auto simp: deepest_cover_def)
    have "no_dots tail" using safe r c by (auto simp: tails_safe_def)
    moreover have "backing_path rule \<noteq> [] \<and> no_dots (backing_path rule)"
      using inst(2) r by (auto simp: rules_installed_def rule_valid_def dest: ValidLogicalRulePath_facts)
    ultimately have "backing_path rule @ tail \<noteq> []" "no_dots (backing_path rule @ tail)"
      using c by (auto simp: covers_def intro: no_dots_join)
    with r c out have "\<exists>rule \<in> set rules. \<exists>root below below'. caller_uid rule = uid \<and>
          root \<in> set (logical_roots (user_id rule)) \<and> path = root @ below \<and>
          out = root @ below' \<and> below' \<noteq> [] \<and> no_dots below'"
      unfolding covers_def by blast
  }
  with exact show ?thesis by blast
qed

definition sample_rules :: "PathRule list" where
  "sample_rules =
     [\<lparr>caller_uid = 10123, user_id = 0, visible_path = ''DCIM'', backing_path = ''A''\<rparr>,
      \<lparr>caller_uid = 10123, user_id = 0, visible_path = ''DCIM/x'', backing_path = ''B''\<rparr>]"

definition sample_install :: InstallEnv where
  "sample_install =
     \<lparr>install_key = True, install_binder_methods = 3, install_registrations = 1, install_commit = True,
      install_present = set kHookSpecs\<rparr>"

definition idle_state :: HookState where
  "idle_state =
     \<lparr>g_rules = [], g_hooks_enabled = False, g_fuse_install_state = 0, g_api = False,
      g_thread_state_key_ready = False, thread_state = None, g_rewrite_log_count = 0, rewrite_log = [],
      hook_errno = 0\<rparr>"

lemma sample_active: "virtualization_active (fst (Install sample_install sample_rules idle_state))"
  by code_simp

theorem provider_rewrite_exact_witness:
  "RewriteAbsolutePath (g_rules (snd (Install sample_install sample_rules idle_state))) 10123
     ''/data/media/0/DCIM/x/y'' PATH_MAX = Some ''/data/media/0/B/y'' \<and>
   (\<exists>rule \<in> set sample_rules. \<exists>root below below'. caller_uid rule = 10123 \<and>
      root \<in> set (logical_roots (user_id rule)) \<and> ''/data/media/0/DCIM/x/y'' = root @ below \<and>
      ''/data/media/0/B/y'' = root @ below' \<and> below' \<noteq> [] \<and> no_dots below')"
proof -
  have "RewriteAbsolutePath (g_rules (snd (Install sample_install sample_rules idle_state))) 10123
     ''/data/media/0/DCIM/x/y'' PATH_MAX = Some ''/data/media/0/B/y''" by code_simp
  with provider_rewrite_exact [OF surjective_pairing sample_active, of 10123 "''/data/media/0/DCIM/x/y''" "''/data/media/0/B/y''"]
  show ?thesis by simp
qed

subsection \<open>Translating back\<close>

definition nested :: "string \<Rightarrow> string \<Rightarrow> bool" where
  "nested outer inner \<longleftrightarrow> (\<exists>t. inner = outer @ t \<and> (t = [] \<or> hd t = CHR ''/''))"

lemma nested_prefixes:
  assumes "a @ s = b @ t" "s = [] \<or> hd s = CHR ''/''" "t = [] \<or> hd t = CHR ''/''"
  shows "nested a b \<or> nested b a"
proof -
  from assms(1) obtain u where "a = b @ u \<and> u @ s = t \<or> a @ u = b \<and> s = u @ t"
    by (auto simp: append_eq_append_conv2)
  thus ?thesis using assms(2,3) unfolding nested_def by (cases u) auto
qed

text \<open>
  Claim C24.  Translating back inverts the rewriting: when no two different visible paths of a caller share
  or nest their backing paths, \<open>RestoreAbsolutePath\<close> gives the caller the very path it asked for.
\<close>

theorem provider_round_trip:
  assumes "Install ienv rules st = (result, st')" "virtualization_active result"
    and separate: "\<forall>r \<in> set rules. \<forall>r' \<in> set rules. caller_uid r = uid \<and> caller_uid r' = uid \<and>
      user_id r = user_id r' \<and> nested (backing_path r) (backing_path r') \<longrightarrow> visible_path r = visible_path r'"
    and out: "RewriteAbsolutePath (g_rules st') uid path PATH_MAX = Some out"
    and fits: "length path < capacity"
  shows "RestoreAbsolutePath (g_rules st') uid out capacity = Some path"
proof -
  from Install_outcome(1) [OF assms(1,2)] have inst: "g_rules st' = rules" "rules_installed rules" by auto
  from out inst obtain rule root tail where uid: "10000 \<le> uid" and ne: "out \<noteq> path"
    and safe: "tails_safe visible_path rules uid path"
    and d: "deepest_cover visible_path rules uid path rule root tail"
    and eq: "out = root @ backing_path rule @ tail"
    by (auto simp: RewriteAbsolutePath_iff rules_installed_def)
  have r: "rule \<in> set rules" and c: "covers visible_path uid path rule root tail"
    using d by (auto simp: deepest_cover_def)
  have cb: "covers backing_path uid out rule root tail" using c eq by (auto simp: covers_def)
  have same: "visible_path r' = visible_path rule \<and> backing_path r' = backing_path rule \<and> root' = root \<and> tail' = tail"
    if "r' \<in> set rules" "covers backing_path uid out r' root' tail'" for r' root' tail'
  proof -
    from covers_unique [OF that(2) cb] have u: "user_id r' = user_id rule" "root' = root"
      "backing_path r' @ tail' = backing_path rule @ tail" by auto
    have "nested (backing_path r') (backing_path rule) \<or> nested (backing_path rule) (backing_path r')"
      using nested_prefixes [OF u(3)] that(2) cb by (simp add: covers_def)
    moreover have k: "caller_uid r' = uid" "caller_uid rule = uid" using that(2) cb by (auto simp: covers_def)
    ultimately have v: "visible_path r' = visible_path rule" using separate that(1) r u(1) by metis
    hence "backing_path r' = backing_path rule"
      using inst(2) that(1) r u(1) k unfolding rules_installed_def ambiguous_def by metis
    with u v show ?thesis by simp
  qed
  have "no_dots tail" using safe r c by (auto simp: tails_safe_def)
  hence "tails_safe backing_path rules uid out" using same unfolding tails_safe_def by blast
  from SelectRule_backing_cover [OF this r cb] obtain r' root' tail' where
    sel: "SelectRule backing_path longer_backing uid out None rules = Some (Some (r', root', tail'))" .
  from SelectRule_backing_Some [OF sel] same [of r' root' tail'] c
  have path: "root' @ visible_path r' @ tail' = path" by (auto simp: deepest_cover_def covers_def)
  have "path \<noteq> []" "out \<noteq> []" "hd out = CHR ''/''" using covers_absolute [OF c] covers_absolute [OF cb] by auto
  moreover have "WritePath out capacity path = Some path"
    using ne fits \<open>path \<noteq> []\<close> by (auto simp: WritePath_def)
  ultimately show ?thesis using sel path uid fits inst(1) by (simp add: RestoreAbsolutePath_def)
qed

theorem provider_round_trip_witness:
  "RestoreAbsolutePath (g_rules (snd (Install sample_install sample_rules idle_state))) 10123
     ''/data/media/0/B/y'' PATH_MAX = Some ''/data/media/0/DCIM/x/y''"
proof (rule provider_round_trip [OF surjective_pairing sample_active])
  show "\<forall>r \<in> set sample_rules. \<forall>r' \<in> set sample_rules. caller_uid r = 10123 \<and> caller_uid r' = 10123 \<and>
      user_id r = user_id r' \<and> nested (backing_path r) (backing_path r') \<longrightarrow> visible_path r = visible_path r'"
    by (simp add: sample_rules_def nested_def)
  show "RewriteAbsolutePath (g_rules (snd (Install sample_install sample_rules idle_state))) 10123
     ''/data/media/0/DCIM/x/y'' PATH_MAX = Some ''/data/media/0/B/y''" by code_simp
  show "length ''/data/media/0/DCIM/x/y'' < PATH_MAX" by (simp add: PATH_MAX_def)
qed

subsection \<open>The caller context\<close>

text \<open>What the context stands for: the uids seen by the nested identity clears, the innermost first, and
  the request being served.\<close>

datatype caller_event =
    ClearIdentity int
  | RestoreIdentity
  | FuseBegin "nat option" int
  | FuseEnd "nat option"

record caller_view =
  cleared_uids :: "int list"
  served :: "(nat \<times> int) option"

fun context_event :: "int \<Rightarrow> caller_event \<Rightarrow> CallerUidContext option \<Rightarrow> CallerUidContext option" where
  "context_event process_uid (ClearIdentity uid) = BeginBinderIdentityClear uid process_uid"
| "context_event process_uid RestoreIdentity = EndBinderIdentityClear"
| "context_event process_uid (FuseBegin request uid) = BeginFuseRequest request uid process_uid"
| "context_event process_uid (FuseEnd request) = EndFuseRequest request"

fun view_event :: "caller_event \<Rightarrow> caller_view \<Rightarrow> caller_view" where
  "view_event (ClearIdentity uid) v = v\<lparr>cleared_uids := uid # cleared_uids v\<rparr>"
| "view_event RestoreIdentity v = v\<lparr>cleared_uids := tl (cleared_uids v)\<rparr>"
| "view_event (FuseBegin request uid) v =
     (case request of None \<Rightarrow> v | Some r \<Rightarrow> v\<lparr>served := Some (r, uid)\<rparr>)"
| "view_event (FuseEnd request) v =
     (if map_option fst (served v) = request then v\<lparr>served := None\<rparr> else v)"

text \<open>The caller a file operation is attributed to: that of the request being served, else the current
  Binder caller, else the caller whose identity was cleared first.\<close>

definition responsible_caller :: "int \<Rightarrow> int \<Rightarrow> caller_view \<Rightarrow> int" where
  "responsible_caller binder_uid process_uid v =
     (let app = (\<lambda>uid. IsApplicationCaller uid process_uid) in
      case served v of
        Some (_, uid) \<Rightarrow> if app uid then uid
                        else if app binder_uid then binder_uid
                        else if cleared_uids v \<noteq> [] \<and> app (last (cleared_uids v)) then last (cleared_uids v) else -1
      | None \<Rightarrow> if app binder_uid then binder_uid
                else if cleared_uids v \<noteq> [] \<and> app (last (cleared_uids v)) then last (cleared_uids v) else -1)"

definition context_rel :: "int \<Rightarrow> CallerUidContext \<Rightarrow> caller_view \<Rightarrow> bool" where
  "context_rel process_uid c v \<longleftrightarrow>
     unat (binder_clear_depth c) = length (cleared_uids v) \<and>
     saved_binder_uid c =
       (if cleared_uids v \<noteq> [] \<and> IsApplicationCaller (last (cleared_uids v)) process_uid
        then last (cleared_uids v) else -1) \<and>
     fuse_request c = map_option fst (served v) \<and>
     fuse_uid c = (case served v of
                     Some (_, uid) \<Rightarrow> if IsApplicationCaller uid process_uid then uid else -1 | None \<Rightarrow> -1)"

lemma minus_one_no_caller [simp]: "\<not> IsApplicationCaller (-1) process_uid"
  by (simp add: IsApplicationCaller_def)

lemma unat_depth_inc: "unat (d :: u32) = n \<Longrightarrow> n + 1 < 2 ^ 32 \<Longrightarrow> unat (d + 1) = n + 1"
  by (simp add: unat_word_ariths)

lemma unat_depth_dec: "d \<noteq> 0 \<Longrightarrow> unat (d :: u32) = n \<Longrightarrow> unat (d - 1) = n - 1"
  by (metis unat_minus_one)

lemma unat_length_zero:
  assumes "unat (d :: u32) = length xs"
  shows "d = 0 \<longleftrightarrow> xs = []"
proof -
  have "d = 0 \<longleftrightarrow> unat d = 0" by (simp add: unsigned_eq_0_iff)
  thus ?thesis using assms by simp
qed

lemma context_rel_event:
  assumes "context_rel process_uid c v" "length (cleared_uids (view_event e v)) < 2 ^ 32"
  shows "\<exists>c'. context_event process_uid e (Some c) = Some c' \<and> context_rel process_uid c' (view_event e v)"
proof (cases e)
  case (ClearIdentity uid)
  have "binder_clear_depth c = 0 \<longleftrightarrow> cleared_uids v = []"
    using assms(1) by (auto simp: context_rel_def intro!: unat_length_zero)
  with ClearIdentity assms show ?thesis
    by (auto simp: context_rel_def BeginBinderIdentityClear_def Let_def unat_depth_inc)
next
  case RestoreIdentity
  have z: "binder_clear_depth c = 0 \<longleftrightarrow> cleared_uids v = []"
    using assms(1) by (auto simp: context_rel_def intro!: unat_length_zero)
  have z': "binder_clear_depth c - 1 = 0 \<longleftrightarrow> tl (cleared_uids v) = []" if "cleared_uids v \<noteq> []"
  proof -
    have "unat (binder_clear_depth c - 1) = length (tl (cleared_uids v))"
      using that z assms(1) by (simp add: context_rel_def unat_depth_dec)
    thus ?thesis by (rule unat_length_zero)
  qed
  show ?thesis
  proof (cases "cleared_uids v = []")
    case True
    with RestoreIdentity assms(1) z show ?thesis by (simp add: context_rel_def EndBinderIdentityClear_def)
  next
    case False
    with RestoreIdentity assms(1) z z' [OF False] show ?thesis
      by (auto simp: context_rel_def EndBinderIdentityClear_def Let_def unat_depth_dec last_tl)
  qed
next
  case (FuseBegin request uid)
  with assms show ?thesis by (cases request) (auto simp: context_rel_def BeginFuseRequest_def)
next
  case (FuseEnd request)
  with assms show ?thesis by (auto simp: context_rel_def EndFuseRequest_def)
qed

lemma context_rel_caller:
  "context_rel process_uid c v \<Longrightarrow>
     EffectiveCallerUid (Some c) binder_uid process_uid = responsible_caller binder_uid process_uid v"
  by (auto simp: context_rel_def EffectiveCallerUid_def responsible_caller_def Let_def split: option.splits)

definition view_events :: "caller_event list \<Rightarrow> caller_view" where
  "view_events es = foldl (\<lambda>v e. view_event e v) \<lparr>cleared_uids = [], served = None\<rparr> es"

definition context_events :: "int \<Rightarrow> caller_event list \<Rightarrow> CallerUidContext option" where
  "context_events process_uid es = foldl (\<lambda>c e. context_event process_uid e c) (Some new_context) es"

text \<open>
  Claim C25.  The caller context implements the stack of identity clears and the request being served.  For
  every sequence of clears, restores, request begins and replies on a thread, as long as fewer than
  \<open>2 ^ 32\<close> clears are nested, a file operation is attributed to the caller that this view makes
  responsible, and always to an application other than the provider itself, or to none.
\<close>

theorem caller_context_refines_stack:
  assumes "\<forall>n \<le> length es. length (cleared_uids (view_events (take n es))) < 2 ^ 32"
  shows "EffectiveCallerUid (context_events process_uid es) binder_uid process_uid =
      responsible_caller binder_uid process_uid (view_events es) \<and>
    (responsible_caller binder_uid process_uid (view_events es) = -1 \<or>
     IsApplicationCaller (responsible_caller binder_uid process_uid (view_events es)) process_uid)"
proof -
  have "\<exists>c. context_events process_uid es = Some c \<and> context_rel process_uid c (view_events es)"
    using assms
  proof (induction es rule: rev_induct)
    case Nil
    show ?case by (simp add: context_events_def view_events_def context_rel_def new_context_def)
  next
    case (snoc e es)
    have "\<forall>n \<le> length es. length (cleared_uids (view_events (take n es))) < 2 ^ 32"
      using snoc.prems by (auto simp: le_Suc_eq)
    from snoc.IH [OF this] obtain c where c: "context_events process_uid es = Some c"
      "context_rel process_uid c (view_events es)" by blast
    have step: "view_events (es @ [e]) = view_event e (view_events es)" by (simp add: view_events_def)
    have "length (cleared_uids (view_event e (view_events es))) < 2 ^ 32"
      using spec [OF snoc.prems, of "length (es @ [e])"] by (simp add: step)
    from context_rel_event [OF c(2) this] c(1) step show ?case by (auto simp: context_events_def)
  qed
  thus ?thesis
    by (auto simp: context_rel_caller) (auto simp: responsible_caller_def Let_def split: option.splits if_splits)
qed

definition sample_events :: "caller_event list" where
  "sample_events = [ClearIdentity 10123, ClearIdentity 10057, RestoreIdentity]"

theorem caller_context_refines_stack_witness:
  "EffectiveCallerUid (context_events 10057 sample_events) 10057 10057 = 10123"
proof -
  have "\<forall>n \<le> length sample_events. length (cleared_uids (view_events (take n sample_events))) < 2 ^ 32"
    by (simp add: sample_events_def view_events_def le_Suc_eq all_conj_distrib)
  from caller_context_refines_stack [OF this, of 10057 10057]
  have "EffectiveCallerUid (context_events 10057 sample_events) 10057 10057 =
      responsible_caller 10057 10057 (view_events sample_events)" by blast
  also have "\<dots> = 10123" by code_simp
  finally show ?thesis .
qed

subsection \<open>Hooked calls\<close>

text \<open>The arguments a hooked call passes on: those of the deepest rule of the responsible caller when the
  hooks are enabled and the thread is not inside a hook already, its own arguments otherwise.\<close>

definition redirected :: "HookEnv \<Rightarrow> HookState \<Rightarrow> int \<Rightarrow> string \<Rightarrow> string option" where
  "redirected env st dirfd path =
     (case fst (GetThreadState env st) of
        None \<Rightarrow> None
      | Some c \<Rightarrow>
          if \<not> g_hooks_enabled st \<or> in_path_hook c then None
          else case ResolveAtPath env dirfd path PATH_MAX of
                 None \<Rightarrow> None
               | Some absolute \<Rightarrow>
                   RewriteAbsolutePath (g_rules st)
                     (EffectiveCallerUid (Some c) (RawCallingUid env) (env_process_uid env)) absolute PATH_MAX)"

definition final_dirfd :: "HookEnv \<Rightarrow> HookState \<Rightarrow> int \<Rightarrow> string option \<Rightarrow> int" where
  "final_dirfd env st dirfd path =
     (case path of None \<Rightarrow> dirfd
      | Some p \<Rightarrow> (case redirected env st dirfd p of None \<Rightarrow> dirfd | Some _ \<Rightarrow> AT_FDCWD))"

definition final_path :: "HookEnv \<Rightarrow> HookState \<Rightarrow> int \<Rightarrow> string option \<Rightarrow> string option" where
  "final_path env st dirfd path =
     (case path of None \<Rightarrow> None
      | Some p \<Rightarrow> (case redirected env st dirfd p of None \<Rightarrow> path | Some out \<Rightarrow> Some out))"

text \<open>The first test of the hooks, made before the caller is known, never stops a rewriting.\<close>

lemma rewritten_matches:
  assumes "RewriteAbsolutePath rules uid path capacity = Some out"
  shows "MatchesVisiblePath rules path"
proof -
  from assms obtain rule root tail where
    sel: "SelectRule visible_path longer_visible uid path None rules = Some (Some (rule, root, tail))"
    by (auto simp: RewriteAbsolutePath_def split: if_splits option.splits)
  from SelectRule_visible_Some [OF sel] have r: "rule \<in> set rules"
    and c: "covers visible_path uid path rule root tail" and "no_dots tail"
    by (auto simp: deepest_cover_def tails_safe_def)
  moreover obtain s where "LogicalSuffix path (user_id rule) = Some (root, s)"
    "MatchesLogicalPath s (visible_path rule) = Some tail" using c by (auto simp: covers_match)
  ultimately show ?thesis using covers_absolute(1,2) [OF c]
    by (auto simp: MatchesVisiblePath_def HasSafeTail_iff list_ex_iff intro!: bexI [of _ rule])
qed

lemma unmatched_not_rewritten: "\<not> MatchesVisiblePath rules path \<Longrightarrow> RewriteAbsolutePath rules uid path capacity = None"
  using rewritten_matches by (cases "RewriteAbsolutePath rules uid path capacity") auto

lemma EnterHook_cases:
  assumes "EnterHook env st = (outer, st1)"
  shows "outer \<longleftrightarrow> (\<exists>c. fst (GetThreadState env st) = Some c \<and> \<not> in_path_hook c)"
    "g_rules st1 = g_rules st" "g_hooks_enabled st1 = g_hooks_enabled st"
    "outer \<Longrightarrow> fst (GetThreadState env st) = Some c \<Longrightarrow> GetThreadState env st1 = (Some (c\<lparr>in_path_hook := True\<rparr>), st1)"
  using assms
  by (auto simp: EnterHook_def GetThreadState_def Let_def split: if_splits option.splits)

lemma EffectiveCallerUid_in_hook [simp]:
  "EffectiveCallerUid (Some (c\<lparr>in_path_hook := b\<rparr>)) binder process = EffectiveCallerUid (Some c) binder process"
  by (simp add: EffectiveCallerUid_def)

lemma RewriteAtPath_redirected:
  assumes "EnterHook env st = (True, st1)" "g_hooks_enabled st" "RewriteAtPath env dirfd p st1 = (change, st2)"
  shows "redirected env st dirfd p = map_option (\<lambda>(_, out, _). out) change" "st2 = st1"
proof -
  from EnterHook_cases(1) [OF assms(1)] obtain c where c: "fst (GetThreadState env st) = Some c" "\<not> in_path_hook c"
    by auto
  have g: "GetThreadState env st1 = (Some (c\<lparr>in_path_hook := True\<rparr>), st1)"
    using EnterHook_cases(4) [OF assms(1)] c(1) by simp
  note r = EnterHook_cases(2) [OF assms(1)]
  show "redirected env st dirfd p = map_option (\<lambda>(_, out, _). out) change"
    using assms(2,3) c g r
    by (auto simp: RewriteAtPath_def redirected_def EffectiveCallingUid_def unmatched_not_rewritten
        split: option.splits if_splits)
  show "st2 = st1"
    using assms(3) g by (auto simp: RewriteAtPath_def EffectiveCallingUid_def split: option.splits if_splits)
qed

lemma redirected_passive: "\<not> g_hooks_enabled st \<Longrightarrow> redirected env st dirfd p = None"
  "EnterHook env st = (False, st1) \<Longrightarrow> redirected env st dirfd p = None"
  using EnterHook_cases(1) [of env st False st1] by (auto simp: redirected_def split: option.splits)

lemma fst_LeaveHook [simp]: "fst (LeaveHook outer r) = fst r"
  by (simp add: LeaveHook_def split: prod.splits)

text \<open>A call whose result does not depend on the hooks' state.\<close>

lemma WithPath_result:
  "fst (WithPath env operation dirfd path (\<lambda>d p s. (f d p, s)) st) =
     f (final_dirfd env st dirfd path) (final_path env st dirfd path)"
proof (cases path)
  case None
  thus ?thesis by (auto simp: WithPath_def final_dirfd_def final_path_def Let_def split: prod.splits)
next
  case (Some p)
  obtain outer st1 where e: "EnterHook env st = (outer, st1)" by fastforce
  show ?thesis
  proof (cases "g_hooks_enabled st \<and> outer")
    case True
    obtain change st2 where a: "RewriteAtPath env dirfd p st1 = (change, st2)" by fastforce
    have "redirected env st dirfd p = map_option (\<lambda>(_, out, _). out) change"
      using RewriteAtPath_redirected(1) [of env st st1] e True a by simp
    with True Some e a show ?thesis
      by (cases change) (auto simp: WithPath_def final_dirfd_def final_path_def)
  next
    case False
    hence "redirected env st dirfd p = None" using redirected_passive e by auto
    with False Some e show ?thesis by (auto simp: WithPath_def final_dirfd_def final_path_def)
  qed
qed

lemma WithTwoPaths_result:
  assumes "old_path = Some old" "new_path = Some new"
  shows "fst (WithTwoPaths env operation old_dirfd old_path new_dirfd new_path (\<lambda>d p d' p' s. (f d p d' p', s)) st) =
     f (final_dirfd env st old_dirfd old_path) (final_path env st old_dirfd old_path)
       (final_dirfd env st new_dirfd new_path) (final_path env st new_dirfd new_path)"
proof -
  obtain outer st1 where e: "EnterHook env st = (outer, st1)" by fastforce
  show ?thesis
  proof (cases "g_hooks_enabled st \<and> outer")
    case True
    obtain change st2 change' st3 where a: "RewriteAtPath env old_dirfd old st1 = (change, st2)"
      "RewriteAtPath env new_dirfd new st1 = (change', st3)" by fastforce
    have "redirected env st old_dirfd old = map_option (\<lambda>(_, out, _). out) change"
      "redirected env st new_dirfd new = map_option (\<lambda>(_, out, _). out) change'" "st2 = st1"
      using RewriteAtPath_redirected [of env st st1] e True a by auto
    with True assms e a show ?thesis
      by (cases change; cases change') (auto simp: WithTwoPaths_def final_dirfd_def final_path_def Let_def)
  next
    case False
    hence "redirected env st d p = None" for d p using redirected_passive e by auto
    with False assms e show ?thesis by (auto simp: WithTwoPaths_def final_dirfd_def final_path_def)
  qed
qed

lemma WithPath_nested:
  assumes "thread_state st = Some c" "in_path_hook c" "g_thread_state_key_ready st"
  shows "WithPath env operation dirfd path function st = function dirfd path st"
  using assms by (cases path) (auto simp: WithPath_def EnterHook_def GetThreadState_def LeaveHook_def split: prod.splits)

lemmas hook_defs = HookedStat_def HookedLstat_def HookedStat64_def HookedLstat64_def HookedAccess_def
  HookedOpenDir_def HookedMkdir_def HookedUnlink_def HookedRemove_def HookedRmdir_def
  HookedReadlink_def HookedChmod_def HookedChown_def HookedLchown_def HookedTruncate_def
  HookedTruncate64_def HookedStatVfs_def HookedStatVfs64_def HookedFstatAt_def HookedFstatAt64_def
  HookedFaccessAt_def HookedMkdirAt_def HookedUnlinkAt_def HookedFchmodAt_def HookedFchownAt_def
  HookedUtimensAt_def HookedInotifyAddWatch_def HookedOpen_def HookedOpenCommon_def HookedOpenAt_def
  HookedOpenAtCommon_def HookedRenameAt_def HookedRename_def

text \<open>
  Every hook calls the library function it replaces with its own flags and the redirected path,
  and nothing else: the path below the backing directory of the deepest rule of the responsible caller,
  relative paths resolved first, or the path it was given when no rule applies, the hooks are disabled or
  the thread is inside a hook already.  All hooks agree on the redirected path, so the calls of a caller
  see one consistent file tree.
\<close>

theorem hooks_pass_redirected_path:
  "fst (HookedStat env (\<lambda>p s. (stat_fn p, s)) path st) = stat_fn (final_path env st AT_FDCWD path) \<and>
   fst (HookedLstat env (\<lambda>p s. (stat_fn p, s)) path st) = stat_fn (final_path env st AT_FDCWD path) \<and>
   fst (HookedStat64 env (\<lambda>p s. (stat_fn p, s)) path st) = stat_fn (final_path env st AT_FDCWD path) \<and>
   fst (HookedLstat64 env (\<lambda>p s. (stat_fn p, s)) path st) = stat_fn (final_path env st AT_FDCWD path) \<and>
   fst (HookedAccess env (\<lambda>p mode s. (mode_fn p mode, s)) path mode st) = mode_fn (final_path env st AT_FDCWD path) mode \<and>
   fst (HookedOpenDir env (\<lambda>p s. (stat_fn p, s)) path st) = stat_fn (final_path env st AT_FDCWD path) \<and>
   fst (HookedMkdir env (\<lambda>p mode s. (mode_fn p mode, s)) path mode st) = mode_fn (final_path env st AT_FDCWD path) mode \<and>
   fst (HookedUnlink env (\<lambda>p s. (stat_fn p, s)) path st) = stat_fn (final_path env st AT_FDCWD path) \<and>
   fst (HookedRemove env (\<lambda>p s. (stat_fn p, s)) path st) = stat_fn (final_path env st AT_FDCWD path) \<and>
   fst (HookedRmdir env (\<lambda>p s. (stat_fn p, s)) path st) = stat_fn (final_path env st AT_FDCWD path) \<and>
   fst (HookedReadlink env (\<lambda>p buffer_size s. (size_fn p buffer_size, s)) path buffer_size st) = size_fn (final_path env st AT_FDCWD path) buffer_size \<and>
   fst (HookedChmod env (\<lambda>p mode s. (mode_fn p mode, s)) path mode st) = mode_fn (final_path env st AT_FDCWD path) mode \<and>
   fst (HookedChown env (\<lambda>p owner_id group_id s. (owner_fn p owner_id group_id, s)) path owner_id group_id st) = owner_fn (final_path env st AT_FDCWD path) owner_id group_id \<and>
   fst (HookedLchown env (\<lambda>p owner_id group_id s. (owner_fn p owner_id group_id, s)) path owner_id group_id st) = owner_fn (final_path env st AT_FDCWD path) owner_id group_id \<and>
   fst (HookedTruncate env (\<lambda>p new_length s. (length_fn p new_length, s)) path new_length st) = length_fn (final_path env st AT_FDCWD path) new_length \<and>
   fst (HookedTruncate64 env (\<lambda>p new_length s. (length_fn p new_length, s)) path new_length st) = length_fn (final_path env st AT_FDCWD path) new_length \<and>
   fst (HookedStatVfs env (\<lambda>p s. (stat_fn p, s)) path st) = stat_fn (final_path env st AT_FDCWD path) \<and>
   fst (HookedStatVfs64 env (\<lambda>p s. (stat_fn p, s)) path st) = stat_fn (final_path env st AT_FDCWD path) \<and>
   fst (HookedFstatAt env (\<lambda>d p fl s. (flags_at d p fl, s)) dirfd path fl st) = flags_at (final_dirfd env st dirfd path) (final_path env st dirfd path) fl \<and>
   fst (HookedFstatAt64 env (\<lambda>d p fl s. (flags_at d p fl, s)) dirfd path fl st) = flags_at (final_dirfd env st dirfd path) (final_path env st dirfd path) fl \<and>
   fst (HookedFaccessAt env (\<lambda>d p mode fl s. (mode_flags_at d p mode fl, s)) dirfd path mode fl st) = mode_flags_at (final_dirfd env st dirfd path) (final_path env st dirfd path) mode fl \<and>
   fst (HookedMkdirAt env (\<lambda>d p mode s. (mode_at d p mode, s)) dirfd path mode st) = mode_at (final_dirfd env st dirfd path) (final_path env st dirfd path) mode \<and>
   fst (HookedUnlinkAt env (\<lambda>d p fl s. (flags_at d p fl, s)) dirfd path fl st) = flags_at (final_dirfd env st dirfd path) (final_path env st dirfd path) fl \<and>
   fst (HookedFchmodAt env (\<lambda>d p mode fl s. (mode_flags_at d p mode fl, s)) dirfd path mode fl st) = mode_flags_at (final_dirfd env st dirfd path) (final_path env st dirfd path) mode fl \<and>
   fst (HookedFchownAt env (\<lambda>d p owner_id group_id fl s. (owner_at d p owner_id group_id fl, s)) dirfd path owner_id group_id fl st) = owner_at (final_dirfd env st dirfd path) (final_path env st dirfd path) owner_id group_id fl \<and>
   fst (HookedUtimensAt env (\<lambda>d p timestamps fl s. (time_at d p timestamps fl, s)) dirfd path timestamps fl st) = time_at (final_dirfd env st dirfd path) (final_path env st dirfd path) timestamps fl \<and>
   fst (HookedInotifyAddWatch env (\<lambda>d p m s. (watch_fn d p m, s)) fd path event_mask st) = watch_fn fd (final_path env st AT_FDCWD path) event_mask \<and>
   fst (HookedOpen env (Some (\<lambda>p fl m s. (open_fn p fl m, s))) path flags mode st) =
     open_fn (final_path env st AT_FDCWD path) flags (if flags AND O_CREAT \<noteq> 0 then mode else 0) \<and>
   fst (HookedOpenAt env (Some (\<lambda>d p fl m s. (open_at d p fl m, s))) dirfd path flags mode st) =
     open_at (final_dirfd env st dirfd path) (final_path env st dirfd path) flags (if flags AND O_CREAT \<noteq> 0 then mode else 0) \<and>
   fst (HookedRenameAt env (\<lambda>d p d' p' s. (rename_at d p d' p', s)) dirfd (Some old_path) new_fd (Some new_path) st) =
     rename_at (final_dirfd env st dirfd (Some old_path)) (final_path env st dirfd (Some old_path))
       (final_dirfd env st new_fd (Some new_path)) (final_path env st new_fd (Some new_path)) \<and>
   fst (HookedRename env (\<lambda>p p' s. (rename_fn p p', s)) (Some old_path) (Some new_path) st) =
     rename_fn (final_path env st AT_FDCWD (Some old_path)) (final_path env st AT_FDCWD (Some new_path))"
proof -
  note one = WithPath_result [where f = "\<lambda>_. f" for f]
  show ?thesis
    unfolding hook_defs option.case
    by (intro conjI; rule one WithPath_result WithTwoPaths_result [where f = "\<lambda>_ p _. f p" for f, OF refl refl]
        WithTwoPaths_result [OF refl refl])
qed


definition sample_env :: HookEnv where
  "sample_env = \<lparr>env_process_uid = 10057, env_binder_uid = Some 10123, env_cwd = None,
     env_readlink = (\<lambda>_. None), env_alloc = True\<rparr>"


subsection \<open>Registration\<close>

text \<open>Each function of the table that an image imports is registered once, however often it is
  relocated.\<close>

lemma RegisterImportedSymbol_miss:
  "symbol \<notin> set specs \<Longrightarrow> RegisterImportedSymbol specs index symbol acc = acc"
  by (induction specs index symbol acc rule: RegisterImportedSymbol.induct) auto

lemma RegisterImportedSymbol_hit:
  "j < length specs \<Longrightarrow> \<forall>i < j. specs ! i \<noteq> specs ! j \<Longrightarrow>
   RegisterImportedSymbol specs index (specs ! j) (registered, calls) =
     (if bit registered (index + j) then (registered, calls)
      else (registered OR push_bit (index + j) 1, calls @ [specs ! j]))" if "index + length specs \<le> 64"
  using that
proof (induction specs arbitrary: index j)
  case (Cons spec specs)
  have set_bit: "registered AND push_bit n 1 \<noteq> 0 \<longleftrightarrow> bit registered n" if "n < 64" for n
    using that by (simp add: bit_iff_and_push_bit_not_eq_0)
  show ?case
  proof (cases j)
    case 0
    thus ?thesis using set_bit [of index] Cons.prems by simp
  next
    case (Suc k)
    have "spec \<noteq> specs ! k" using Cons.prems(2) Suc by force
    moreover have "\<forall>i < k. specs ! i \<noteq> specs ! k" using Cons.prems(2) Suc by force
    ultimately show ?thesis using Cons.IH [of k "index + 1"] Cons.prems Suc by simp
  qed
qed simp

definition registration_inv :: "u64 \<times> string list \<Rightarrow> string set \<Rightarrow> bool" where
  "registration_inv acc seen \<longleftrightarrow>
     (\<forall>i < length kHookSpecs. bit (fst acc) i \<longleftrightarrow> kHookSpecs ! i \<in> set (snd acc)) \<and>
     distinct (snd acc) \<and> set (snd acc) = seen \<inter> set kHookSpecs"

lemma kHookSpecs_table: "distinct kHookSpecs" "length kHookSpecs = 49"
  by (simp_all add: kHookSpecs_def)

lemma registration_step:
  assumes "registration_inv acc seen"
  shows "registration_inv (RegisterImportedSymbol kHookSpecs 0 symbol acc) (insert symbol seen)"
proof (cases "symbol \<in> set kHookSpecs")
  case False
  thus ?thesis using assms RegisterImportedSymbol_miss [OF False] by (simp add: registration_inv_def)
next
  case True
  then obtain j where j: "j < length kHookSpecs" "symbol = kHookSpecs ! j" by (metis in_set_conv_nth)
  obtain registered calls where acc: "acc = (registered, calls)" by (cases acc)
  have first: "\<forall>i < j. kHookSpecs ! i \<noteq> kHookSpecs ! j"
    using j(1) kHookSpecs_table(1) by (auto simp: nth_eq_iff_index_eq)
  have hit: "RegisterImportedSymbol kHookSpecs 0 symbol acc =
     (if bit registered j then (registered, calls) else (registered OR push_bit j 1, calls @ [symbol]))"
    using RegisterImportedSymbol_hit [of 0 kHookSpecs j registered calls] first j kHookSpecs_table(2) acc by simp
  show ?thesis
  proof (cases "bit registered j")
    case True
    with assms hit acc j show ?thesis by (auto simp: registration_inv_def)
  next
    case False
    hence "symbol \<notin> set calls" using assms j acc by (auto simp: registration_inv_def)
    moreover have "bit (registered OR push_bit j 1) i \<longleftrightarrow> bit registered i \<or> i = j" if "i < length kHookSpecs" for i
      using that kHookSpecs_table(2) j(1) by (auto simp: bit_simps)
    moreover have "kHookSpecs ! i = kHookSpecs ! j \<longleftrightarrow> i = j" if "i < length kHookSpecs" for i
      using that j(1) kHookSpecs_table(1) by (simp add: nth_eq_iff_index_eq)
    ultimately show ?thesis using assms hit acc j False by (auto simp: registration_inv_def)
  qed
qed

theorem RegisterImports_once:
  "distinct (snd (RegisterImports imported)) \<and> set (snd (RegisterImports imported)) = set imported \<inter> set kHookSpecs"
proof -
  have "registration_inv (foldl (\<lambda>acc symbol. RegisterImportedSymbol kHookSpecs 0 symbol acc) acc xs) (seen \<union> set xs)"
    if "registration_inv acc seen" for acc seen xs
    using that
  proof (induction xs arbitrary: acc seen)
    case (Cons x xs)
    from Cons.IH [OF registration_step [OF Cons.prems, of x]] show ?case by simp
  qed simp
  from this [of "(0, [])" "{}" imported] show ?thesis
    by (simp add: registration_inv_def RegisterImports_def)
qed

end
