(* ===== verification/PG_ProviderRules.thy ===== *)
theory PG_ProviderRules
  imports PG_ProviderHook
begin

text \<open>
  How the provider process gets its rules: \<open>LoadProviderRules\<close> of \<open>zygisk/src/module_entry.cpp\<close> walks the
  whole policy file and collects, for every application with provider support and every user, the redirects
  with the application's uid.  The uid is the owner of the application's data directory, which the code
  asks the file system for; \<open>package_owner\<close> stands for that answer.  As in \<open>PG_Runtime\<close>, \<open>None\<close> is a read
  outside the mapped file.
\<close>

definition ProviderMount ::
  "bytes \<Rightarrow> PolicyHeader \<Rightarrow> u32 \<Rightarrow> int \<Rightarrow> PathRule list \<Rightarrow> u32 \<Rightarrow> PathRule list option" where
  "ProviderMount data h user caller rules index =
     (let mount = unat (hdr_mount_offset h) + unat index * kMountRuleSize in
      do { action \<leftarrow> rd8 data (mount + kMountActionOffset);
           if action \<noteq> kRedirectAction then Some rules
           else do {
             visible_offset \<leftarrow> Read32 data (mount + kMountVisiblePathOffset);
             backing_offset \<leftarrow> Read32 data (mount + kMountBackingPathOffset);
             Some (case (ReadPolicyString data (hdr_string_offset h) visible_offset,
                         ReadPolicyString data (hdr_string_offset h) backing_offset) of
                     (Some visible, Some backing) \<Rightarrow>
                       if length visible \<ge> PATH_MAX \<or> \<not> IsAllowedTarget visible then rules
                       else (case ExpandRuntimePath backing user PATH_MAX of
                               None \<Rightarrow> rules
                             | Some expanded \<Rightarrow>
                                 rules @ [\<lparr>caller_uid = caller, user_id = user, visible_path = visible,
                                           backing_path = expanded\<rparr>])
                   | _ \<Rightarrow> rules) } })"

fun ProviderMounts ::
  "bytes \<Rightarrow> PolicyHeader \<Rightarrow> nat \<Rightarrow> u32 \<Rightarrow> int \<Rightarrow> u32 \<Rightarrow> PathRule list \<Rightarrow> nat list \<Rightarrow> PathRule list option" where
  "ProviderMounts data h capacity user caller first_mount rules [] = Some rules"
| "ProviderMounts data h capacity user caller first_mount rules (mount_index # rest) =
     (if length rules \<ge> capacity then Some rules
      else do { rules' \<leftarrow> ProviderMount data h user caller rules (first_mount + of_nat mount_index);
                ProviderMounts data h capacity user caller first_mount rules' rest })"

definition package_caller :: "(string \<Rightarrow> u32 option) \<Rightarrow> nat \<Rightarrow> string \<Rightarrow> int option" where
  "package_caller package_owner user package_name =
     (let path = ''/data/user/'' @ to_string user @ ''/'' @ package_name in
      if length path \<ge> PATH_MAX then None
      else case package_owner path of
             None \<Rightarrow> None
           | Some uid \<Rightarrow> if uid < 10000 then None else Some (sint uid))"

function ProviderUsers ::
  "bytes \<Rightarrow> PolicyHeader \<Rightarrow> (string \<Rightarrow> u32 option) \<Rightarrow> nat \<Rightarrow> string \<Rightarrow> u32 \<Rightarrow> u32 \<Rightarrow> PathRule list \<Rightarrow> string \<Rightarrow>
   PathRule list option" where
  "ProviderUsers data h package_owner capacity package_name first_mount app_mount_count rules user =
     (if user = [] then Some rules
      else
        let user_number = fst (strtol user); rest = snd (strtol user) in
        if rest = user \<or> user_number < 0 \<or> user_number > 99999 \<or> (rest \<noteq> [] \<and> hd rest \<noteq> CHR '','') then Some rules
        else
          case package_caller package_owner (nat user_number) package_name of
            None \<Rightarrow>
              (if rest = [] then Some rules
               else ProviderUsers data h package_owner capacity package_name first_mount app_mount_count rules (tl rest))
          | Some caller \<Rightarrow>
              do { rules' \<leftarrow> ProviderMounts data h capacity (of_int user_number) caller first_mount rules
                               [0..<unat app_mount_count];
                   if rest = [] then Some rules'
                   else ProviderUsers data h package_owner capacity package_name first_mount app_mount_count rules'
                          (tl rest) })"
  by pat_completeness auto
termination
proof (relation "measure (\<lambda>(_, _, _, _, _, _, _, _, user). length user)", goal_cases)
  case (2 data h package_owner capacity package_name first_mount app_mount_count rules user)
  thus ?case using strtol_rest [of user] by (cases "snd (strtol user)") auto
next
  case (3 data h package_owner capacity package_name first_mount app_mount_count rules user)
  thus ?case using strtol_rest [of user] by (cases "snd (strtol user)") auto
qed simp

declare ProviderUsers.simps [simp del]

fun ProviderPackages ::
  "bytes \<Rightarrow> PolicyHeader \<Rightarrow> (string \<Rightarrow> u32 option) \<Rightarrow> nat \<Rightarrow> PathRule list \<Rightarrow> nat list \<Rightarrow> PathRule list option" where
  "ProviderPackages data h package_owner capacity rules [] = Some rules"
| "ProviderPackages data h package_owner capacity rules (package_index # rest) =
     (let entry = unat (hdr_package_offset h) + package_index * kPackageSize in
      do { provider \<leftarrow> rd8 data (entry + kPackageProviderCompatOffset);
           if provider \<noteq> 1 then ProviderPackages data h package_owner capacity rules rest
           else do {
             name_offset \<leftarrow> Read32 data (entry + kPackageNameOffset);
             users_offset \<leftarrow> Read32 data (entry + kPackageUsersOffset);
             first_mount \<leftarrow> Read32 data (entry + kPackageFirstMountOffset);
             app_mount_count \<leftarrow> Read32 data (entry + kPackageMountCountOffset);
             case (ReadPolicyString data (hdr_string_offset h) name_offset,
                   ReadPolicyString data (hdr_string_offset h) users_offset) of
               (Some package_name, Some us) \<Rightarrow>
                 if CHR ''*'' \<in> set us then ProviderPackages data h package_owner capacity rules rest
                 else do { rules' \<leftarrow> ProviderUsers data h package_owner capacity package_name first_mount
                                        app_mount_count rules us;
                           ProviderPackages data h package_owner capacity rules' rest }
             | _ \<Rightarrow> ProviderPackages data h package_owner capacity rules rest } })"

text \<open>The result is the list of rules; the function reports success when it is not empty.\<close>

definition LoadProviderRules :: "bytes \<Rightarrow> (string \<Rightarrow> u32 option) \<Rightarrow> nat \<Rightarrow> PathRule list option" where
  "LoadProviderRules data package_owner capacity =
     (if length data < kHeaderSize then Some []
      else do {
        h \<leftarrow> ReadHeader data;
        valid \<leftarrow> ValidPolicyFile data h;
        if \<not> valid then Some []
        else ProviderPackages data h package_owner capacity [] [0..<unat (hdr_package_count h)] })"

subsection \<open>Every read stays inside the file\<close>

lemma prod_case_option2_defined:
  assumes "\<And>x y. a = Some x \<Longrightarrow> b = Some y \<Longrightarrow> f x y \<noteq> None" "d \<noteq> None"
  shows "(case (a, b) of (Some x, Some y) \<Rightarrow> f x y | _ \<Rightarrow> d) \<noteq> None"
  using assms by (auto split: option.splits)

lemma ProviderMount_defined:
  assumes "table_layout data h" "unat index < unat (hdr_mount_count h)"
  shows "ProviderMount data h user caller rules index \<noteq> None"
proof -
  have bound: "unat (hdr_mount_offset h) + unat index * kMountRuleSize + 16 \<le> length data"
    using assms by (simp add: layout_defs)
  show ?thesis
    unfolding ProviderMount_def Let_def rule_offset_defs
    by (intro bind_defined if_defined) (use bound in \<open>simp_all add: rd_defined_simps del: not_None_eq\<close>)
qed

lemma ProviderMounts_defined:
  assumes "table_layout data h"
  shows "(\<And>i. i \<in> set is \<Longrightarrow> unat (first + of_nat i) < unat (hdr_mount_count h)) \<Longrightarrow>
    ProviderMounts data h capacity user caller first rules is \<noteq> None"
proof (induction "is" arbitrary: rules)
  case (Cons i "is")
  show ?case
    unfolding ProviderMounts.simps
    by (intro bind_defined if_defined ProviderMount_defined [OF assms])
      (use Cons in \<open>simp_all del: not_None_eq\<close>)
qed simp

lemma ProviderUsers_defined:
  assumes t: "table_layout data h" and r: "first \<le> hdr_mount_count h" "n \<le> hdr_mount_count h - first"
  shows "ProviderUsers data h package_owner capacity name first n rules user \<noteq> None"
proof (induction "length user" arbitrary: user rules rule: less_induct)
  case less
  have mounts: "ProviderMounts data h capacity u caller first rs [0..<unat n] \<noteq> None" for u caller rs
    using u32_range(3,4) [OF r] by (intro ProviderMounts_defined [OF t]) auto
  have shorter: "length (tl (snd (strtol user))) < length user" if "user \<noteq> []" "snd (strtol user) \<noteq> []"
    using strtol_rest [of user] that by (cases "snd (strtol user)") auto
  show ?case
    by (subst ProviderUsers.simps, unfold Let_def)
      (intro if_defined option_case_defined bind_defined mounts less shorter; simp)
qed

lemma ValidPackageRanges_range:
  assumes "ValidPackageRanges data h em ee is = Some True" "em \<le> hdr_mount_count h" "i \<in> set is"
    "Read32 data (unat (hdr_package_offset h) + i * kPackageSize + kPackageFirstMountOffset) = Some first"
    "Read32 data (unat (hdr_package_offset h) + i * kPackageSize + kPackageMountCountOffset) = Some n"
  shows "first \<le> hdr_mount_count h \<and> n \<le> hdr_mount_count h - first"
  using assms
proof (induction "is" arbitrary: em ee)
  case (Cons j "is")
  from Cons.prems(1) obtain fm nm ee' where
    rd: "Read32 data (unat (hdr_package_offset h) + j * kPackageSize + kPackageFirstMountOffset) = Some fm"
    "Read32 data (unat (hdr_package_offset h) + j * kPackageSize + kPackageMountCountOffset) = Some nm"
    and ok: "fm = em" "\<not> nm > hdr_mount_count h - fm"
    and rest: "ValidPackageRanges data h (em + nm) ee' is = Some True"
    unfolding ValidPackageRanges.simps Let_def by (auto simp: bind_eq_Some_conv split: if_splits)
  have "em + nm \<le> hdr_mount_count h" using u32_range(2) [of em "hdr_mount_count h" nm] ok Cons.prems(2) by simp
  from Cons.IH [OF rest this] Cons.prems(2-5) rd ok show ?case by auto
qed simp

lemma ValidPolicyFile_ranges:
  "ValidPolicyFile data h = Some True \<Longrightarrow>
     ValidPackageRanges data h 0 0 [0..<unat (hdr_package_count h)] = Some True"
  by (auto simp: ValidPolicyFile_def ValidPolicyTables_def bind_eq_Some_conv split: if_splits)

lemma ProviderPackages_defined:
  assumes v: "ValidPolicyFile data h = Some True"
  shows "\<forall>i \<in> set is. i < unat (hdr_package_count h) \<Longrightarrow>
    ProviderPackages data h package_owner capacity rules is \<noteq> None"
proof (induction "is" arbitrary: rules)
  case (Cons i "is")
  have t: "table_layout data h" by (rule HeaderValid_layout [OF ValidPolicyFile_layout [OF v]])
  note bound = package_entry_bound [OF t, of i]
  have i: "i \<in> set [0..<unat (hdr_package_count h)]" using Cons.prems by simp
  have users: "ProviderUsers data h package_owner capacity name first n rs us \<noteq> None"
    if "Read32 data (unat (hdr_package_offset h) + i * kPackageSize + kPackageFirstMountOffset) = Some first"
      "Read32 data (unat (hdr_package_offset h) + i * kPackageSize + kPackageMountCountOffset) = Some n"
    for name first n rs us
    using ValidPackageRanges_range [OF ValidPolicyFile_ranges [OF v] _ i that] ProviderUsers_defined [OF t] by simp
  show ?case
    unfolding ProviderPackages.simps Let_def
    by (intro bind_defined if_defined prod_case_option2_defined users)
      (use Cons bound in \<open>simp_all add: package_offset_defs rd_defined_simps del: not_None_eq\<close>)
qed simp

lemma LoadProviderRules_defined: "LoadProviderRules data package_owner capacity \<noteq> None"
proof (cases "length data < kHeaderSize")
  case False
  hence size: "kHeaderSize \<le> length data" by simp
  obtain h where h: "ReadHeader data = Some h" using ReadHeader_defined [OF size] by blast
  obtain valid where valid: "ValidPolicyFile data h = Some valid"
    using ValidPolicyFile_defined [OF size] by blast
  show ?thesis
    unfolding LoadProviderRules_def h valid Option.bind.simps
    by (intro if_defined ProviderPackages_defined) (use valid in simp_all)
qed (simp add: LoadProviderRules_def)

subsection \<open>The rules of a policy\<close>

definition provider_rule :: "u32 \<Rightarrow> int \<Rightarrow> LogicalMountRule \<Rightarrow> PathRule list" where
  "provider_rule user caller m =
     (if mount_action m \<noteq> MountRedirect then []
      else case ExpandRuntimePath (LogicalMountRule.backing_path m) user PATH_MAX of
             None \<Rightarrow> []
           | Some expanded \<Rightarrow>
               [\<lparr>caller_uid = caller, user_id = user, visible_path = LogicalMountRule.visible_path m,
                 backing_path = expanded\<rparr>])"

definition user_rules :: "(string \<Rightarrow> u32 option) \<Rightarrow> AppPolicy \<Rightarrow> string \<Rightarrow> PathRule list" where
  "user_rules package_owner app u =
     (case package_caller package_owner (UserValue u) (package app) of
        None \<Rightarrow> []
      | Some caller \<Rightarrow> concat (map (provider_rule (of_nat (UserValue u)) caller) (mounts app)))"

definition app_provider_rules :: "(string \<Rightarrow> u32 option) \<Rightarrow> AppPolicy \<Rightarrow> PathRule list" where
  "app_provider_rules package_owner app =
     (if provider_compat app \<noteq> ProviderVirtualize \<or> users app = [''*''] then []
      else concat (map (user_rules package_owner app) (takeWhile (\<lambda>u. UserValue u \<le> 99999) (users app))))"

definition provider_spec :: "(string \<Rightarrow> u32 option) \<Rightarrow> PolicyDocument \<Rightarrow> PathRule list" where
  "provider_spec package_owner canon =
     concat (map (app_provider_rules package_owner) (sort_key PackageOrder (apps canon)))"

text \<open>Filling a list up to a capacity.\<close>

definition fill :: "nat \<Rightarrow> 'a list \<Rightarrow> 'a list \<Rightarrow> 'a list" where
  "fill capacity xs ys = xs @ take (capacity - length xs) ys"

lemma fill_Nil [simp]: "fill capacity xs [] = xs"
  by (simp add: fill_def)

lemma fill_full: "length xs \<ge> capacity \<Longrightarrow> fill capacity xs ys = xs"
  by (simp add: fill_def)

lemma fill_fill [simp]: "fill capacity (fill capacity xs ys) zs = fill capacity xs (ys @ zs)"
  by (auto simp: fill_def min_def)

lemma fill_one: "length xs < capacity \<Longrightarrow> length ys \<le> 1 \<Longrightarrow> fill capacity xs ys = xs @ ys"
  by (simp add: fill_def)

lemma provider_rule_short: "length (provider_rule user caller m) \<le> 1"
  by (simp add: provider_rule_def split: option.split)

lemma ProviderMount_image:
  assumes img: "loadable_image legacy as data h" and i: "i < length as" and j: "j < length (mounts (as ! i))"
  shows "ProviderMount data h user caller rules (of_nat (mounts_before as i) + of_nat j) =
    Some (rules @ provider_rule user caller (mounts (as ! i) ! j))"
proof (rule image_mount_reads [OF assms])
  fix v b
  let ?r = "mounts (as ! i) ! j"
  assume rd: "mount_entry_reads data
       (unat (hdr_mount_offset h) + unat (of_nat (mounts_before as i) + of_nat j :: u32) * kMountRuleSize)
       (MountAction_code (mount_action ?r)) (mount_depth ?r) (mount_flags ?r) v b"
    and strs: "ReadPolicyString data (hdr_string_offset h) v = Some (LogicalMountRule.visible_path ?r)"
    "ReadPolicyString data (hdr_string_offset h) b = Some (LogicalMountRule.backing_path ?r)"
  have "loadable_app (as ! i)" "?r \<in> set (mounts (as ! i))" using img i j by (auto simp: loadable_image_def)
  note m = loadable_mount [OF this]
  have act: "(MountAction_code (mount_action ?r) \<noteq> kRedirectAction) = (mount_action ?r \<noteq> MountRedirect)"
    by (cases "mount_action ?r") (simp_all add: MountAction_code_def kRedirectAction_def)
  show ?thesis
    using rd m(2,3) act unfolding ProviderMount_def Let_def rule_offset_defs mount_entry_reads_def
    by (auto simp: strs provider_rule_def split: option.splits)
qed

lemma ProviderMounts_image:
  assumes img: "loadable_image legacy as data h" and i: "i < length as"
  shows "ProviderMounts data h capacity user caller (of_nat (mounts_before as i)) rules
      [0..<length (mounts (as ! i))] =
    Some (fill capacity rules (concat (map (provider_rule user caller) (mounts (as ! i)))))"
proof -
  let ?ms = "mounts (as ! i)"
  have "ProviderMounts data h capacity user caller (of_nat (mounts_before as i)) rules [k..<length ?ms] =
      Some (fill capacity rules (concat (map (provider_rule user caller) (drop k ?ms))))"
    if "k \<le> length ?ms" for k rules
    using that
  proof (induction "length ?ms - k" arbitrary: k rules)
    case (Suc n)
    hence k: "k < length ?ms" by simp
    hence up: "[k..<length ?ms] = k # [Suc k..<length ?ms]" by (rule upt_conv_Cons)
    have dr: "drop k ?ms = ?ms ! k # drop (Suc k) ?ms" using k by (rule Cons_nth_drop_Suc [symmetric])
    show ?case
    proof (cases "length rules \<ge> capacity")
      case True
      thus ?thesis unfolding up by (simp add: fill_full)
    next
      case False
      let ?new = "provider_rule user caller (?ms ! k)"
      have "rules @ ?new = fill capacity rules ?new"
        using False provider_rule_short [of user caller "?ms ! k"] fill_one [of rules capacity ?new] by simp
      with Suc.hyps(1) [of "Suc k" "rules @ ?new"] Suc.hyps(2) k False show ?thesis
        unfolding up dr by (simp add: ProviderMount_image [OF img i k])
    qed
  qed simp
  from this [of 0] show ?thesis by simp
qed

lemma user_number_text:
  assumes "IsUserNumber u"
  shows "u \<noteq> []" "\<forall>c \<in> set u. is_digit c" "decimal_value 0 u = UserValue u" "UserValue u < 2 ^ 32"
proof -
  from assms obtain v where v: "from_chars 32 u = Some (v, [])"
    by (auto simp: IsUserNumber_def split: option.splits prod.splits list.splits)
  hence all: "\<forall>c \<in> set u. is_digit c" using from_chars_complete by blast
  hence tw: "takeWhile is_digit u = u" by (simp add: takeWhile_all)
  have "v = decimal_value 0 u" using v unfolding from_chars_def Let_def tw by (simp split: if_splits)
  thus "u \<noteq> []" "decimal_value 0 u = UserValue u" "UserValue u < 2 ^ 32"
    using v from_chars_complete [OF v] by (simp_all add: UserValue_def)
  show "\<forall>c \<in> set u. is_digit c" by (rule all)
qed

lemma strtol_user:
  assumes "IsUserNumber u" "r = [] \<or> hd r = CHR '',''"
  shows "strtol (u @ r) = (int (UserValue u), r)"
proof -
  note u = user_number_text [OF assms(1)]
  obtain c u' where c: "u = c # u'" using u(1) by (cases u) auto
  have "is_digit c" using u(2) c by simp
  hence first: "\<not> isspace c" "c \<noteq> CHR ''-''" "c \<noteq> CHR ''+''"
    by (auto simp: is_digit_def isspace_def less_eq_char_def)
  have rest: "takeWhile is_digit r = []" "dropWhile is_digit r = r"
    using assms(2) by (cases r; auto simp: is_digit_def less_eq_char_def)+
  have "takeWhile is_digit (u @ r) = u" "dropWhile is_digit (u @ r) = r"
    using u(2) rest by (simp_all add: takeWhile_append dropWhile_append)
  moreover have "min (int (UserValue u)) (2 ^ 63 - 1) = int (UserValue u)" using u(4) by simp
  ultimately show ?thesis using first u(3) by (simp add: strtol_def Let_def c)
qed

lemma ProviderUsers_image:
  assumes img: "loadable_image legacy as data h" and i: "i < length as"
  shows "list_all IsUserNumber us \<Longrightarrow> us \<noteq> [] \<Longrightarrow>
    ProviderUsers data h package_owner capacity (package (as ! i)) (of_nat (mounts_before as i))
      (of_nat (length (mounts (as ! i)))) rules (Join us) =
    Some (fill capacity rules
      (concat (map (user_rules package_owner (as ! i)) (takeWhile (\<lambda>u. UserValue u \<le> 99999) us))))"
proof (induction us arbitrary: rules)
  case (Cons u us)
  have u: "IsUserNumber u" using Cons.prems by simp
  note un = user_number_text [OF u]
  let ?rest = "if us = [] then [] else CHR '','' # Join us"
  have join: "Join (u # us) = u @ ?rest" by (cases us) (simp_all add: Join_eq)
  have st: "strtol (Join (u # us)) = (int (UserValue u), ?rest)"
    unfolding join by (rule strtol_user [OF u]) simp
  have ne: "Join (u # us) \<noteq> []" "?rest \<noteq> Join (u # us)" using un(1) by (auto simp: join)
  have word: "(of_int (int (UserValue u)) :: u32) = of_nat (UserValue u)" by simp
  note range = image_mount_range(2) [OF img i]
  show ?case
  proof (cases "UserValue u \<le> 99999")
    case False
    thus ?thesis using ne by (subst ProviderUsers.simps) (simp add: st)
  next
    case True
    have IH: "us \<noteq> [] \<Longrightarrow> ProviderUsers data h package_owner capacity (package (as ! i)) (of_nat (mounts_before as i))
      (of_nat (length (mounts (as ! i)))) rs (Join us) =
      Some (fill capacity rs
        (concat (map (user_rules package_owner (as ! i)) (takeWhile (\<lambda>u. UserValue u \<le> 99999) us))))" for rs
      using Cons by simp
    show ?thesis
      using ne True by (subst ProviderUsers.simps)
        (auto simp: st word range ProviderMounts_image [OF img i] user_rules_def IH split: option.splits)
  qed
qed simp

lemma ProviderPackages_image:
  assumes img: "loadable_image legacy as data h"
  shows "ProviderPackages data h package_owner capacity [] [0..<length as] =
    Some (fill capacity [] (concat (map (app_provider_rules package_owner) as)))"
proof -
  have "ProviderPackages data h package_owner capacity rules [k..<length as] =
      Some (fill capacity rules (concat (map (app_provider_rules package_owner) (drop k as))))"
    if "k \<le> length as" for k rules
    using that
  proof (induction "length as - k" arbitrary: k rules)
    case (Suc n)
    hence k: "k < length as" by simp
    hence up: "[k..<length as] = k # [Suc k..<length as]" by (rule upt_conv_Cons)
    have dr: "drop k as = as ! k # drop (Suc k) as" using k by (rule Cons_nth_drop_Suc [symmetric])
    let ?app = "as ! k"
    have "loadable_app ?app" using img k by (simp add: loadable_image_def)
    hence us: "canonical_users (users ?app)" "users ?app \<noteq> []"
      by (simp_all add: loadable_app_def canonical_policy_def wire_safe_def)
    have star: "CHR ''*'' \<in> set (Join (users ?app)) \<longleftrightarrow> users ?app = [''*'']"
      if "users ?app \<noteq> [''*'']"
    proof -
      have "list_all IsUserNumber (users ?app)" using us(1) that by (simp add: canonical_users_def)
      hence "c \<noteq> CHR ''*''" if "u \<in> set (users ?app)" "c \<in> set u" for u c
        using that user_number_text(2) [of u] is_digit_not_special [of c] by (auto simp: list_all_iff)
      hence "CHR ''*'' \<notin> insert (CHR '','') (\<Union> (set ` set (users ?app)))" by fastforce
      thus ?thesis using that set_join_with [of "CHR '',''" "users ?app"] unfolding Join_eq by blast
    qed
    have users: "ProviderUsers data h package_owner capacity (package ?app) (of_nat (mounts_before as k))
        (of_nat (length (mounts ?app))) rules (Join (users ?app)) =
        Some (fill capacity rules (concat (map (user_rules package_owner ?app)
          (takeWhile (\<lambda>u. UserValue u \<le> 99999) (users ?app)))))" if "users ?app \<noteq> [''*'']" for rules
      using ProviderUsers_image [OF img k] us that by (simp add: canonical_users_def)
    have prov: "(ProviderCompat_code (provider_compat ?app) \<noteq> 1) = (provider_compat ?app \<noteq> ProviderVirtualize)"
      by (cases "provider_compat ?app") (simp_all add: ProviderCompat_code_def)
    have IH: "ProviderPackages data h package_owner capacity rs [Suc k..<length as] =
        Some (fill capacity rs (concat (map (app_provider_rules package_owner) (drop (Suc k) as))))" for rs
      using Suc.hyps(1) [of "Suc k" rs] Suc.hyps(2) k by simp
    show ?case
    proof (rule image_package_reads [OF img k refl])
      fix n u p
      assume rd: "package_entry_reads data (unat (hdr_package_offset h) + k * kPackageSize)
          (PackageNameHash (package ?app)) n u p (of_nat (mounts_before as k)) (of_nat (length (mounts ?app)))
          (PlanGeneration ?app FailureOpen legacy) 0 (ProviderCompat_code (provider_compat ?app))"
        and strs: "ReadPolicyString data (hdr_string_offset h) n = Some (package ?app)"
        "ReadPolicyString data (hdr_string_offset h) u = Some (Join (users ?app))"
      show ?thesis
      proof (cases "users ?app = [''*'']")
        case True
        thus ?thesis using rd prov
          unfolding up dr ProviderPackages.simps Let_def package_offset_defs package_entry_reads_def
          by (simp add: strs IH app_provider_rules_def Join_eq)
      next
        case False
        thus ?thesis using rd prov star [OF False]
          unfolding up dr ProviderPackages.simps Let_def package_offset_defs package_entry_reads_def
          by (simp add: strs IH app_provider_rules_def users)
      qed
    qed
  qed simp
  from this [of 0] show ?thesis by simp
qed


definition sample_provider :: PolicyDocument where
  "sample_provider = sample_document\<lparr>apps := map (\<lambda>a. a\<lparr>provider_compat := ProviderVirtualize\<rparr>) (apps sample_document)\<rparr>"

definition sample_provider_canonical :: PolicyDocument where
  "sample_provider_canonical =
     sample_canonical\<lparr>apps := map (\<lambda>a. a\<lparr>provider_compat := ProviderVirtualize\<rparr>) (apps sample_canonical)\<rparr>"

lemma sample_provider_facts:
  "CanonicalizeDocument sample_provider = Inr sample_provider_canonical"
  "\<forall>app \<in> set (apps sample_provider_canonical). wire_safe app"
  "policy_file_bound sample_provider_canonical \<le> kMaxU32"
  by code_simp+


end
