(* ===== verification/PG_Media.thy ===== *)
theory PG_Media
  imports PG_Runtime
begin

text \<open>
  Hiding denied files from media queries: \<open>zygisk/src/media_query_filter.cpp\<close> builds an SQL condition for
  the denied paths, and \<open>zygisk/src/media_query_hook.cpp\<close> adds it to the queries an application sends to
  the media provider.

  Java objects are the data the code reads from them: a string, a list of strings, a bundle with its two
  entries, a query parcel with its fields.  Each JNI call that may raise an exception or return null is a
  flag of the call's outcome.
\<close>

subsection \<open>The filter\<close>

definition Append :: "string \<Rightarrow> nat \<Rightarrow> string \<Rightarrow> string option" where
  "Append output capacity addition =
     (if length output + length addition + 1 > capacity then None else Some (output @ addition))"

definition Copy :: "nat \<Rightarrow> string \<Rightarrow> string option" where
  "Copy capacity text = (if length text + 1 > capacity then None else Some text)"

fun CopyLikeLoop :: "nat \<Rightarrow> string \<Rightarrow> string \<Rightarrow> string option" where
  "CopyLikeLoop capacity output [] = Some output"
| "CopyLikeLoop capacity output (c # cs) =
     (let special = (c = CHR ''%'' \<or> c = CHR ''_'' \<or> c = CHR 0x5C) in
      if special \<and> length output + 1 \<ge> capacity then None
      else let output1 = (if special then output @ [CHR 0x5C] else output) in
           if length output1 + 1 \<ge> capacity then None
           else CopyLikeLoop capacity (output1 @ [c]) cs)"

definition CopyLikePrefix :: "nat \<Rightarrow> string \<Rightarrow> string option" where
  "CopyLikePrefix capacity path =
     (case CopyLikeLoop capacity [] path of
        None \<Rightarrow> None
      | Some output \<Rightarrow> if length output + 3 > capacity then None else Some (output @ ''/%''))"

definition kClause :: string where
  "kClause = ''(_data IS NULL OR (_data != ? AND _data NOT LIKE ? ESCAPE '' @ [CHR 0x27, CHR 0x5C, CHR 0x27] @ ''))''"

fun DenyClauses ::
  "nat \<Rightarrow> nat \<Rightarrow> nat \<Rightarrow> string \<Rightarrow> string list \<Rightarrow> string option list \<Rightarrow> (string \<times> string list) option" where
  "DenyClauses selection_capacity stride index selection arguments [] = Some (selection, arguments)"
| "DenyClauses selection_capacity stride index selection arguments (path # paths) =
     (case path of
        None \<Rightarrow> None
      | Some p \<Rightarrow>
          if p = [] \<or> hd p \<noteq> CHR ''/'' then None
          else if length p = 1 \<or> last p = CHR ''/'' then None
          else
            case (if index > 0 then Append selection selection_capacity '' AND '' else Some selection) of
              None \<Rightarrow> None
            | Some selection1 \<Rightarrow>
                (case Append selection1 selection_capacity kClause of
                   None \<Rightarrow> None
                 | Some selection2 \<Rightarrow>
                     (case Copy stride p of
                        None \<Rightarrow> None
                      | Some exact \<Rightarrow>
                          (case CopyLikePrefix stride p of
                             None \<Rightarrow> None
                           | Some descendants \<Rightarrow>
                               DenyClauses selection_capacity stride (index + 1) selection2
                                 (arguments @ [exact, descendants]) paths))))"

definition BuildDenySelection ::
  "string option list \<Rightarrow> nat \<Rightarrow> nat \<Rightarrow> nat \<Rightarrow> (string \<times> string list) option" where
  "BuildDenySelection deny_paths selection_capacity argument_capacity argument_stride =
     (if deny_paths = [] \<or> selection_capacity = 0 \<or> argument_stride = 0 \<or>
         length deny_paths > argument_capacity div 2 then None
      else DenyClauses selection_capacity argument_stride 0 [] [] deny_paths)"

subsection \<open>Installation\<close>

definition kMaxDenyPaths :: nat where "kMaxDenyPaths = 8"
definition kMaxDenyArguments :: nat where "kMaxDenyArguments = kMaxDenyPaths * 2"
definition kMaxSelectionSize :: nat where "kMaxSelectionSize = 8192"

record MediaHook =
  g_deny_filter :: string
  g_deny_arguments :: "string list"

fun CopyDenyPaths :: "string \<Rightarrow> string option list \<Rightarrow> string list option" where
  "CopyDenyPaths user_prefix [] = Some []"
| "CopyDenyPaths user_prefix (path # paths) =
     (case path of
        None \<Rightarrow> None
      | Some p \<Rightarrow>
          if length p \<ge> PATH_MAX \<or> take (length user_prefix) p \<noteq> user_prefix then None
          else if p = [] then None
          else map_option (\<lambda>copied. p # copied) (CopyDenyPaths user_prefix paths))"

text \<open>\<open>jni_ready\<close>: the classes, methods and cached objects could all be obtained; \<open>transact\<close>: the original
  \<open>transactNative\<close> was returned by the hook registration.\<close>

definition InitializeDenyFilter :: "bool \<Rightarrow> string list \<Rightarrow> MediaHook option" where
  "InitializeDenyFilter jni_ready paths =
     (case BuildDenySelection (map Some paths) kMaxSelectionSize kMaxDenyArguments (PATH_MAX + 4) of
        None \<Rightarrow> None
      | Some (selection, arguments) \<Rightarrow>
          if jni_ready then Some \<lparr>g_deny_filter = selection, g_deny_arguments = arguments\<rparr> else None)"

definition MediaInstall :: "bool \<Rightarrow> bool \<Rightarrow> string option list \<Rightarrow> int \<Rightarrow> MediaHook option" where
  "MediaInstall jni_ready transact deny_paths uid =
     (if deny_paths = [] \<or> length deny_paths > kMaxDenyPaths \<or> uid < 0 then None
      else
        let user_prefix = ''/storage/emulated/'' @ to_string (nat uid div 100000) @ ''/'' in
        if length user_prefix \<ge> 64 then None
        else case CopyDenyPaths user_prefix deny_paths of
               None \<Rightarrow> None
             | Some paths \<Rightarrow>
                 if \<not> jni_ready then None
                 else case InitializeDenyFilter jni_ready paths of
                        None \<Rightarrow> None
                      | Some hook \<Rightarrow> if transact then Some hook else None)"

subsection \<open>Queries\<close>

record QueryBundle =
  query_selection :: "string option"
  query_selection_args :: "string option list option"

text \<open>Outcomes of the JNI calls that rewrite a bundle: whether reading it, reading the text, creating the
  merged objects and writing it back succeed.\<close>

record BundleCalls =
  bundle_read :: bool
  text_read :: bool
  merged_created :: bool
  bundle_written :: bool

definition MergeArguments :: "MediaHook \<Rightarrow> bool \<Rightarrow> string option list option \<Rightarrow> string option list option" where
  "MergeArguments hook created original =
     (let arguments = (case original of None \<Rightarrow> [] | Some xs \<Rightarrow> xs) in
      if \<not> created then None
      else if arguments = [] then Some (map Some (g_deny_arguments hook))
      else Some (arguments @ map Some (g_deny_arguments hook)))"

definition ApplyFilterToBundle :: "MediaHook \<Rightarrow> BundleCalls \<Rightarrow> QueryBundle \<Rightarrow> QueryBundle option" where
  "ApplyFilterToBundle hook calls bundle =
     (if \<not> bundle_read calls then None
      else if query_selection bundle \<noteq> None \<and> \<not> text_read calls then None
      else
        let merged = (case query_selection bundle of
                        None \<Rightarrow> Some (g_deny_filter hook)
                      | Some original_text \<Rightarrow>
                          if original_text = [] then Some (g_deny_filter hook)
                          else let text = ''('' @ original_text @ '') AND ('' @ g_deny_filter hook @ '')'' in
                               if length text \<ge> kMaxSelectionSize then None else Some text)
        in case merged of
             None \<Rightarrow> None
           | Some selection \<Rightarrow>
               (case MergeArguments hook (merged_created calls) (query_selection_args bundle) of
                  None \<Rightarrow> None
                | Some arguments \<Rightarrow>
                    if bundle_written calls
                    then Some \<lparr>query_selection = Some selection, query_selection_args = Some arguments\<rparr>
                    else None))"

record Query =
  query_attribution :: nat
  query_uri :: nat
  query_projection :: "string option list option"
  query_bundle :: "QueryBundle option"
  query_observer :: nat
  query_cancellation :: nat

datatype QueryOutcome = NonMedia | MediaFallback | MediaRewrite | Fallback

text \<open>What the hook finds out about a transaction.\<close>

record TransactCalls =
  is_provider_binder :: bool
  header_read :: bool
  uri_authority :: "string option"
  body_read :: bool
  fully_consumed :: bool
  bundle_created :: bool
  bundle_calls :: BundleCalls
  parcel_obtained :: bool
  parcel_written :: bool

definition IsMediaUri :: "string option \<Rightarrow> bool" where
  "IsMediaUri authority = (authority = Some ''media'')"

text \<open>The result: the query that is passed to the original transaction, and what is recorded of it.  With
  no original transaction nothing is sent.\<close>

definition TransactHook ::
  "MediaHook option \<Rightarrow> int \<Rightarrow> Query option \<Rightarrow> TransactCalls \<Rightarrow> Query option \<times> QueryOutcome option" where
  "TransactHook hook code query calls =
     (case hook of
        None \<Rightarrow> (None, None)
      | Some h \<Rightarrow>
          (case query of
             None \<Rightarrow> (query, None)
           | Some q \<Rightarrow>
               if code \<noteq> 1 then (query, None)
               else if \<not> is_provider_binder calls then (query, Some NonMedia)
               else if \<not> header_read calls then (query, Some Fallback)
               else if \<not> IsMediaUri (uri_authority calls) then (query, Some NonMedia)
               else if \<not> body_read calls \<or> \<not> fully_consumed calls then (query, Some Fallback)
               else
                 case (case query_bundle q of
                         Some b \<Rightarrow> Some b
                       | None \<Rightarrow> if bundle_created calls
                                 then Some \<lparr>query_selection = None, query_selection_args = None\<rparr> else None) of
                   None \<Rightarrow> (query, Some MediaFallback)
                 | Some b \<Rightarrow>
                     (case ApplyFilterToBundle h (bundle_calls calls) b of
                        None \<Rightarrow> (query, Some MediaFallback)
                      | Some b' \<Rightarrow>
                          if \<not> parcel_obtained calls \<or> \<not> parcel_written calls then (query, Some MediaFallback)
                          else (Some (q\<lparr>query_bundle := Some b'\<rparr>), Some MediaRewrite))))"

record QueryCounters =
  g_query_total :: u64
  g_query_non_media :: u64
  g_query_media :: u64
  g_query_rewrite :: u64
  g_query_fallback :: u64

definition RecordQueryPerf :: "QueryOutcome \<Rightarrow> QueryCounters \<Rightarrow> QueryCounters" where
  "RecordQueryPerf outcome k =
     (let k1 = k\<lparr>g_query_total := g_query_total k + 1\<rparr> in
      case outcome of
        NonMedia \<Rightarrow> k1\<lparr>g_query_non_media := g_query_non_media k1 + 1\<rparr>
      | MediaFallback \<Rightarrow> k1\<lparr>g_query_media := g_query_media k1 + 1, g_query_fallback := g_query_fallback k1 + 1\<rparr>
      | MediaRewrite \<Rightarrow> k1\<lparr>g_query_media := g_query_media k1 + 1, g_query_rewrite := g_query_rewrite k1 + 1\<rparr>
      | Fallback \<Rightarrow> k1\<lparr>g_query_fallback := g_query_fallback k1 + 1\<rparr>)"

subsection \<open>What the condition says\<close>

definition like_special :: "char \<Rightarrow> bool" where
  "like_special c \<longleftrightarrow> c = CHR ''%'' \<or> c = CHR ''_'' \<or> c = CHR 0x5C"

definition like_escape :: "string \<Rightarrow> string" where
  "like_escape p = concat (map (\<lambda>c. if like_special c then [CHR 0x5C, c] else [c]) p)"

lemma like_escape_simps [simp]:
  "like_escape [] = []"
  "like_escape (c # p) = (if like_special c then [CHR 0x5C, c] else [c]) @ like_escape p"
  by (simp_all add: like_escape_def)

lemma CopyLikeLoop_Some: "CopyLikeLoop capacity acc p = Some r \<Longrightarrow> r = acc @ like_escape p"
  by (induction capacity acc p rule: CopyLikeLoop.induct)
    (auto simp: Let_def like_special_def split: if_splits)

lemma CopyLikeLoop_fits:
  "length acc + length (like_escape p) < capacity \<Longrightarrow> CopyLikeLoop capacity acc p = Some (acc @ like_escape p)"
proof (induction p arbitrary: acc)
  case (Cons c p)
  show ?case
  proof (cases "like_special c")
    case True
    hence "CopyLikeLoop capacity acc (c # p) = CopyLikeLoop capacity ((acc @ [CHR 0x5C]) @ [c]) p"
      using Cons.prems by (simp add: like_special_def)
    thus ?thesis using Cons.IH [of "(acc @ [CHR 0x5C]) @ [c]"] Cons.prems True by simp
  next
    case False
    hence "CopyLikeLoop capacity acc (c # p) = CopyLikeLoop capacity (acc @ [c]) p"
      using Cons.prems by (simp add: like_special_def)
    thus ?thesis using Cons.IH [of "acc @ [c]"] Cons.prems False by simp
  qed
qed simp

lemma CopyLikePrefix_eq:
  "CopyLikePrefix capacity p =
     (if length (like_escape p) + 3 \<le> capacity then Some (like_escape p @ ''/%'') else None)"
proof (cases "length (like_escape p) + 3 \<le> capacity")
  case True
  hence "CopyLikeLoop capacity [] p = Some (like_escape p)" using CopyLikeLoop_fits [of "[]" p capacity] by simp
  with True show ?thesis by (simp add: CopyLikePrefix_def)
next
  case False
  thus ?thesis using CopyLikeLoop_Some [of capacity "[]" p]
    by (auto simp: CopyLikePrefix_def split: option.splits)
qed

text \<open>The text of the condition: one clause per path, joined by \<open>AND\<close>.\<close>

fun clauses_text :: "nat \<Rightarrow> nat \<Rightarrow> string" where
  "clauses_text index 0 = []"
| "clauses_text index (Suc n) = (if index > 0 then '' AND '' else []) @ kClause @ clauses_text (index + 1) n"

definition deny_arguments :: "string list \<Rightarrow> string list" where
  "deny_arguments paths = concat (map (\<lambda>p. [p, like_escape p @ ''/%'']) paths)"

definition deny_path_ok :: "string \<Rightarrow> bool" where
  "deny_path_ok p \<longleftrightarrow> 1 < length p \<and> hd p = CHR ''/'' \<and> last p \<noteq> CHR ''/''"

lemma DenyClauses_Some:
  assumes "DenyClauses capacity stride index selection arguments deny_paths = Some (s, a)"
  shows "\<exists>paths. deny_paths = map Some paths \<and> list_all deny_path_ok paths \<and>
    s = selection @ clauses_text index (length paths) \<and> a = arguments @ deny_arguments paths"
  using assms
proof (induction deny_paths arbitrary: index selection arguments)
  case Nil
  thus ?case by (simp add: deny_arguments_def)
next
  case (Cons path rest)
  then obtain p where p: "path = Some p" "deny_path_ok p"
    and step: "DenyClauses capacity stride (index + 1)
       (selection @ (if index > 0 then '' AND '' else []) @ kClause) (arguments @ [p, like_escape p @ ''/%'']) rest = Some (s, a)"
    by (auto simp: Append_def Copy_def CopyLikePrefix_eq deny_path_ok_def split: option.splits if_splits)
      (simp_all add: Suc_lessI)
  from Cons.IH [OF step] obtain paths where "rest = map Some paths" "list_all deny_path_ok paths"
    "s = (selection @ (if index > 0 then '' AND '' else []) @ kClause) @ clauses_text (index + 1) (length paths)"
    "a = (arguments @ [p, like_escape p @ ''/%'']) @ deny_arguments paths" by blast
  with p show ?case by (intro exI [of _ "p # paths"]) (simp add: deny_arguments_def)
qed

text \<open>
  A row of the media table passes one clause with its two arguments, and all of them.  \<open>like\<close> is the
  database's \<open>LIKE\<close> with a backslash as escape character; a row without a path has no \<open>_data\<close>.
\<close>

definition clause_holds :: "(string \<Rightarrow> string \<Rightarrow> bool) \<Rightarrow> string option \<Rightarrow> string \<Rightarrow> string \<Rightarrow> bool" where
  "clause_holds like row exact pattern =
     (case row of None \<Rightarrow> True | Some data \<Rightarrow> data \<noteq> exact \<and> \<not> like pattern data)"

fun row_passes :: "(string \<Rightarrow> string \<Rightarrow> bool) \<Rightarrow> string option \<Rightarrow> string list \<Rightarrow> bool" where
  "row_passes like row (exact # pattern # rest) \<longleftrightarrow> clause_holds like row exact pattern \<and> row_passes like row rest"
| "row_passes like row _ = True"

text \<open>The documented behaviour of \<open>LIKE ... ESCAPE\<close> that the filter relies on: a character, escaped or not
  special, matches one character equal to it up to the database's notion of equal letters (\<open>same\<close>), and a
  final percent sign matches any text.\<close>

definition sql_like_laws :: "(char \<Rightarrow> char \<Rightarrow> bool) \<Rightarrow> (string \<Rightarrow> string \<Rightarrow> bool) \<Rightarrow> bool" where
  "sql_like_laws same like \<longleftrightarrow>
     (\<forall>c p s. \<not> like_special c \<longrightarrow> like (c # p) s = (\<exists>d t. s = d # t \<and> same c d \<and> like p t)) \<and>
     (\<forall>c p s. like (CHR 0x5C # c # p) s = (\<exists>d t. s = d # t \<and> same c d \<and> like p t)) \<and>
     (\<forall>s. like ''%'' s)"

lemma like_escaped:
  assumes "sql_like_laws same like"
  shows "like (like_escape p @ q) s \<longleftrightarrow> (\<exists>u t. s = u @ t \<and> list_all2 same p u \<and> like q t)"
proof (induction p arbitrary: s)
  case (Cons c p)
  have "like (like_escape (c # p) @ q) s \<longleftrightarrow> (\<exists>d t. s = d # t \<and> same c d \<and> like (like_escape p @ q) t)"
    using assms unfolding sql_like_laws_def by (cases "like_special c") auto
  also have "\<dots> \<longleftrightarrow> (\<exists>u t. s = u @ t \<and> list_all2 same (c # p) u \<and> like q t)"
    unfolding Cons.IH by (auto simp: list_all2_Cons1) (metis append_Cons)+
  finally show ?case .
qed simp

definition hidden :: "(char \<Rightarrow> char \<Rightarrow> bool) \<Rightarrow> string list \<Rightarrow> string \<Rightarrow> bool" where
  "hidden same paths data \<longleftrightarrow>
     (\<exists>p \<in> set paths. data = p \<or> (\<exists>u t. data = u @ t \<and> list_all2 same (p @ ''/'') u))"

lemma row_passes_iff:
  assumes "sql_like_laws same like"
  shows "row_passes like row (deny_arguments paths) \<longleftrightarrow>
    (case row of None \<Rightarrow> True | Some data \<Rightarrow> \<not> hidden same paths data)"
proof (induction paths)
  case Nil
  show ?case by (simp add: deny_arguments_def hidden_def split: option.split)
next
  case (Cons p paths)
  have slash: "like ''/%'' t \<longleftrightarrow> (\<exists>d r. t = d # r \<and> same (CHR ''/'') d)" for t
    using assms unfolding sql_like_laws_def like_special_def by auto
  have "like (like_escape p @ ''/%'') data \<longleftrightarrow> (\<exists>u t. data = u @ t \<and> list_all2 same (p @ ''/'') u)" for data
  proof -
    have "(\<exists>u t. data = u @ t \<and> list_all2 same (p @ ''/'') u) \<longleftrightarrow>
        (\<exists>u d r. data = (u @ [d]) @ r \<and> list_all2 same p u \<and> same (CHR ''/'') d)"
    proof -
      have "list_all2 same (p @ ''/'') u \<longleftrightarrow> (\<exists>v d. u = v @ [d] \<and> list_all2 same p v \<and> same (CHR ''/'') d)" for u
      proof (cases u rule: rev_cases)
        case (snoc v d)
        show ?thesis
        proof (cases "length p = length v")
          case True
          thus ?thesis using snoc by (simp add: list_all2_append)
        next
          case False
          thus ?thesis using snoc by (auto dest: list_all2_lengthD)
        qed
      qed (auto dest: list_all2_lengthD)
      thus ?thesis by (simp only:) blast
    qed
    also have "\<dots> \<longleftrightarrow> like (like_escape p @ ''/%'') data"
      unfolding like_escaped [OF assms] slash by auto
    finally show ?thesis by blast
  qed
  with Cons show ?case
    by (auto simp: deny_arguments_def clause_holds_def hidden_def split: option.splits)
qed


fun plain_like :: "string \<Rightarrow> string \<Rightarrow> bool" where
  "plain_like [] s = (s = [])"
| "plain_like (c # p) s =
     (if c = CHR ''%'' then plain_like p s \<or> (case s of [] \<Rightarrow> False | _ # t \<Rightarrow> plain_like (c # p) t)
      else if c = CHR ''_'' then (case s of [] \<Rightarrow> False | _ # t \<Rightarrow> plain_like p t)
      else if c = CHR 0x5C then
        (case p of [] \<Rightarrow> False | e # q \<Rightarrow> (case s of [] \<Rightarrow> False | d # t \<Rightarrow> d = e \<and> plain_like q t))
      else (case s of [] \<Rightarrow> False | d # t \<Rightarrow> d = c \<and> plain_like p t))"

lemma plain_like_laws: "sql_like_laws (=) plain_like"
proof -
  have "plain_like ''%'' s" for s by (induction s) auto
  thus ?thesis by (auto simp: sql_like_laws_def like_special_def split: list.splits)
qed


subsection \<open>Rewritten queries\<close>

text \<open>The query sent on is the application's own or the application's with the condition added: its
  selection in parentheses and conjoined with the condition, its arguments followed by those of the
  condition, everything else unchanged.\<close>

definition constrained :: "MediaHook \<Rightarrow> QueryBundle \<Rightarrow> QueryBundle" where
  "constrained hook b =
     \<lparr>query_selection = Some (case query_selection b of
        Some (c # cs) \<Rightarrow> ''('' @ (c # cs) @ '') AND ('' @ g_deny_filter hook @ '')''
      | _ \<Rightarrow> g_deny_filter hook),
      query_selection_args = Some ((case query_selection_args b of None \<Rightarrow> [] | Some xs \<Rightarrow> xs) @
        map Some (g_deny_arguments hook))\<rparr>"

lemma ApplyFilterToBundle_Some: "ApplyFilterToBundle hook calls b = Some b' \<Longrightarrow> b' = constrained hook b"
  by (auto simp: ApplyFilterToBundle_def MergeArguments_def constrained_def Let_def split: option.splits if_splits list.splits)

theorem TransactHook_query:
  assumes "TransactHook (Some hook) code (Some q) calls = (sent, outcome)"
  shows "if outcome = Some MediaRewrite
    then sent = Some (q\<lparr>query_bundle := Some (constrained hook (case query_bundle q of Some b \<Rightarrow> b
           | None \<Rightarrow> \<lparr>query_selection = None, query_selection_args = None\<rparr>))\<rparr>) \<and>
         code = 1 \<and> uri_authority calls = Some ''media''
    else sent = Some q"
  using assms
  by (auto simp: TransactHook_def IsMediaUri_def split: if_splits option.splits dest!: ApplyFilterToBundle_Some)

end
