(* ===== verification/PG_Snapshot.thy ===== *)
theory PG_Snapshot
  imports PG_Topology PG_Mount
begin

text \<open>
  The materialised mount table, \<open>native/mount_info_snapshot.cpp\<close>: \<open>/proc/self/mountinfo\<close> is read into a
  buffer once, split in place (\<open>NextToken\<close> overwrites separators with zero bytes), and every later question
  is answered from offsets into that buffer.  The buffer is a string that the parser updates, offsets are
  natural numbers (the buffer has at most 2 MiB, so the casts to 32 bits keep them), \<open>c_str\<close> reads up to the
  next zero byte.  Timing is left out.
\<close>

subsection \<open>Error codes\<close>

text \<open>The codes of \<open>errno.h\<close> the code names or compares with, and any other code a call may report.  A
  failed call reports a code other than zero, so the type has no zero: success is \<open>None\<close> or \<open>Inr\<close>.\<close>

datatype errno =
  EPERM | ENOENT | ESRCH | EINTR | EIO | ENOMEM | EACCES | EBUSY | EXDEV | ENOTDIR | EINVAL | EFBIG
  | ENAMETOOLONG | ENOSYS | ENODATA | EBADMSG | EOVERFLOW | ENOTSUP | ESTALE | ECANCELED | OtherError nat

subsection \<open>Data\<close>

definition kFilesystemSize :: nat where "kFilesystemSize = 64"
definition kMaxMountInfoBytes :: nat where "kMaxMountInfoBytes = 2 * 1024 * 1024"
definition kMaxMountInfoEntries :: nat where "kMaxMountInfoEntries = 4096"

record MountPathIdentity =
  mi_mount_id :: u64
  mi_parent_mount_id :: u64
  mi_device :: u64
  mi_root :: string
  mi_mountpoint :: string
  mi_filesystem :: string

definition kMountPropagationNone :: "8 word" where "kMountPropagationNone = 0"
definition kMountPropagationShared :: "8 word" where "kMountPropagationShared = push_bit 0 1"
definition kMountPropagationMaster :: "8 word" where "kMountPropagationMaster = push_bit 1 1"
definition kMountPropagationUnbindable :: "8 word" where "kMountPropagationUnbindable = push_bit 2 1"

record MountInfoSnapshotEntry =
  entry_mount_id :: u64
  entry_parent_mount_id :: u64
  entry_device :: u64
  root_offset :: nat
  root_length :: nat
  mountpoint_offset :: nat
  mountpoint_length :: nat
  filesystem_offset :: nat
  filesystem_length :: nat
  entry_propagation :: "8 word"

text \<open>\<open>mapping\<close> tells whether the snapshot owns a buffer; a destroyed or failed one does not.\<close>

record MountInfoSnapshot =
  mapping :: bool
  snapshot_text :: string
  snapshot_entries :: "MountInfoSnapshotEntry list"
  namespace_device :: u64
  namespace_inode :: u64

definition no_snapshot :: MountInfoSnapshot where
  "no_snapshot = \<lparr>mapping = False, snapshot_text = [], snapshot_entries = [], namespace_device = 0,
     namespace_inode = 0\<rparr>"

subsection \<open>Numbers\<close>

text \<open>\<open>strtoull(text, &end, 10)\<close>, and \<open>strtoul\<close> on a 64-bit \<open>unsigned long\<close>: the value and the text from
  \<open>end\<close> on, or \<open>None\<close> when no digit was read or \<open>errno\<close> is \<open>ERANGE\<close>.  A minus sign negates modulo
  \<open>2 ^ 64\<close>.\<close>

definition strtoull :: "string \<Rightarrow> (u64 \<times> string) option" where
  "strtoull txt =
     (let t = dropWhile is_space txt;
          (negative, t1) = (case t of c # r \<Rightarrow> if c = CHR ''-'' then (True, r)
                                               else if c = CHR ''+'' then (False, r) else (False, t)
                                    | [] \<Rightarrow> (False, t));
          digits = takeWhile is_digit t1;
          v = decimal_value 0 digits
      in if digits = [] \<or> v \<ge> 2 ^ 64 then None
         else Some (if negative then - of_nat v else of_nat v, dropWhile is_digit t1))"

definition SnapshotParseUnsigned :: "string \<Rightarrow> u64 option" where
  "SnapshotParseUnsigned txt =
     (if txt = [] then None
      else case strtoull txt of Some (parsed, []) \<Rightarrow> Some parsed | _ \<Rightarrow> None)"

definition makedev :: "u32 \<Rightarrow> u32 \<Rightarrow> u64" where
  "makedev major_value minor_value =
     push_bit 32 (ucast major_value AND 0xFFFFF000) OR push_bit 8 (ucast major_value AND 0xFFF) OR
     push_bit 12 (ucast minor_value AND 0xFFFFFF00) OR (ucast minor_value AND 0xFF)"

definition ParseDevice :: "string \<Rightarrow> u64 option" where
  "ParseDevice txt =
     (case strtoull txt of
        Some (major_value, c # minor_text) \<Rightarrow>
          if c \<noteq> CHR '':'' then None
          else (case strtoull minor_text of
                  Some (minor_value, []) \<Rightarrow> Some (makedev (ucast major_value) (ucast minor_value))
                | _ \<Rightarrow> None)
      | _ \<Rightarrow> None)"

subsection \<open>Tokens\<close>

definition c_str :: "string \<Rightarrow> nat \<Rightarrow> string" where
  "c_str txt offset = takeWhile (\<lambda>c. c \<noteq> CHR 0x00) (drop offset txt)"

text \<open>\<open>NextToken\<close>: the buffer after the call, the new cursor and the offset of the token.\<close>

definition NextToken :: "string \<Rightarrow> nat \<Rightarrow> nat \<Rightarrow> string \<times> nat \<times> nat option" where
  "NextToken txt cursor line_end =
     (let token = cursor + length (takeWhile (\<lambda>c. c = CHR '' '') (take (line_end - cursor) (drop cursor txt))) in
      if token \<ge> line_end then (txt, line_end, None)
      else let current = token + length (takeWhile (\<lambda>c. c \<noteq> CHR '' '') (take (line_end - token) (drop token txt))) in
           if current < line_end then (txt[current := CHR 0x00], current + 1, Some token)
           else (txt, current, Some token))"

fun DecodeLoop :: "nat \<Rightarrow> nat \<Rightarrow> string \<Rightarrow> string option" where
  "DecodeLoop capacity written [] = Some []"
| "DecodeLoop capacity written (c # cs) =
     (if c = CHR 0x5C then
        (case cs of
           d1 # d2 # d3 # rest \<Rightarrow>
             if \<not> is_octal d1 \<or> \<not> is_octal d2 \<or> \<not> is_octal d3 then None
             else let v = octal_value d1 d2 d3 mod 256 in
                  if v = 0 then None
                  else if written + 1 \<ge> capacity then None
                  else map_option ((#) (char_of v)) (DecodeLoop capacity (written + 1) rest)
         | _ \<Rightarrow> None)
      else if written + 1 \<ge> capacity then None
      else map_option ((#) c) (DecodeLoop capacity (written + 1) cs))"

definition DecodeToken :: "string \<Rightarrow> nat \<Rightarrow> nat \<Rightarrow> nat \<Rightarrow> string option" where
  "DecodeToken txt offset len capacity =
     (if capacity = 0 then None else DecodeLoop capacity 0 (take len (drop offset txt)))"

definition IsPathOnMount :: "string \<Rightarrow> string \<Rightarrow> bool" where
  "IsPathOnMount path mount_point =
     (if path = [] \<or> hd path \<noteq> CHR ''/'' then False
      else if mount_point = ''/'' then True
      else prefix mount_point path \<and>
           (length path = length mount_point \<or> path ! length mount_point = CHR ''/''))"

subsection \<open>The parser\<close>

text \<open>The loop over the optional fields: the propagation flags up to the separator, \<open>None\<close> when the line
  ends before it.  The loop ends because every token moves the cursor.\<close>

lemma NextToken_progress:
  assumes "NextToken txt cursor line_end = (txt', cursor', Some token)"
  shows "cursor \<le> token" "token < cursor'" "token < line_end" "cursor' \<le> line_end"
proof -
  define n where "n = length (takeWhile (\<lambda>c. c \<noteq> CHR '' '') (take (line_end - token) (drop token txt)))"
  have n: "n \<le> line_end - token" unfolding n_def by (rule order.trans [OF length_takeWhile_le]) simp
  define m where "m = length (takeWhile (\<lambda>c. c = CHR '' '') (take (line_end - cursor) (drop cursor txt)))"
  have "token = cursor + m" "token < line_end"
    "cursor' = (if token + n < line_end then token + n + 1 else token + n)"
    using assms unfolding NextToken_def Let_def m_def [symmetric]
    by (auto simp: n_def split: if_splits)
  thus "cursor \<le> token" "token < cursor'" "token < line_end" "cursor' \<le> line_end" using n by auto
qed

function OptionalFields :: "string \<Rightarrow> nat \<Rightarrow> nat \<Rightarrow> 8 word \<Rightarrow> (string \<times> nat \<times> 8 word) option" where
  "OptionalFields txt cursor line_end propagation =
     (case NextToken txt cursor line_end of
        (txt', cursor', None) \<Rightarrow> None
      | (txt', cursor', Some token) \<Rightarrow>
          let optional = c_str txt' token in
          if optional = ''-'' then Some (txt', cursor', propagation)
          else OptionalFields txt' cursor' line_end
                 (if prefix ''shared:'' optional then propagation OR kMountPropagationShared
                  else if prefix ''master:'' optional then propagation OR kMountPropagationMaster
                  else if optional = ''unbindable'' then propagation OR kMountPropagationUnbindable
                  else propagation))"
  by pat_completeness auto
termination
proof (relation "measure (\<lambda>(txt, cursor, line_end, _). line_end - cursor)", goal_cases)
  case (2 t cursor line_end propagation t' p cursor' q token optional)
  hence "NextToken t cursor line_end = (t', cursor', Some token)" by simp
  from NextToken_progress [OF this] show ?case by simp
qed simp

declare OptionalFields.simps [simp del]

text \<open>\<open>count\<close> calls of \<open>NextToken\<close> in a row: the offsets of the tokens, \<open>None\<close> when a call finds none.\<close>

fun NextTokens :: "nat \<Rightarrow> string \<Rightarrow> nat \<Rightarrow> nat \<Rightarrow> (string \<times> nat \<times> nat list) option" where
  "NextTokens 0 txt cursor line_end = Some (txt, cursor, [])"
| "NextTokens (Suc n) txt cursor line_end =
     (case NextToken txt cursor line_end of
        (txt', cursor', None) \<Rightarrow> None
      | (txt', cursor', Some token) \<Rightarrow>
          map_option (\<lambda>(t, c, tokens). (t, c, token # tokens)) (NextTokens n txt' cursor' line_end))"

text \<open>One line of the table: \<open>None\<close> is \<open>EBADMSG\<close>.\<close>

definition ParseLine :: "string \<Rightarrow> nat \<Rightarrow> nat \<Rightarrow> (string \<times> MountInfoSnapshotEntry) option" where
  "ParseLine txt line line_end =
     (case NextTokens 6 txt line line_end of
        Some (txt1, cursor1, [mount_id_text, parent_id_text, device_text, root_text, mountpoint_text, _]) \<Rightarrow>
          (case OptionalFields txt1 cursor1 line_end kMountPropagationNone of
             None \<Rightarrow> None
           | Some (txt2, cursor2, propagation) \<Rightarrow>
               (case NextTokens 3 txt2 cursor2 line_end of
                  Some (txt3, _, [filesystem_text, _, _]) \<Rightarrow>
                    (case (SnapshotParseUnsigned (c_str txt3 mount_id_text),
                           SnapshotParseUnsigned (c_str txt3 parent_id_text),
                           ParseDevice (c_str txt3 device_text)) of
                       (Some identifier, Some parent, Some device) \<Rightarrow>
                         let entry = \<lparr>entry_mount_id = identifier, entry_parent_mount_id = parent,
                               entry_device = device,
                               root_offset = root_text, root_length = length (c_str txt3 root_text),
                               mountpoint_offset = mountpoint_text,
                               mountpoint_length = length (c_str txt3 mountpoint_text),
                               filesystem_offset = filesystem_text,
                               filesystem_length = length (c_str txt3 filesystem_text),
                               entry_propagation = propagation\<rparr>
                         in if identifier = 0 \<or> parent = 0 \<or>
                               DecodeToken txt3 root_text (root_length entry) PATH_MAX = None \<or>
                               DecodeToken txt3 mountpoint_text (mountpoint_length entry) PATH_MAX = None \<or>
                               filesystem_length entry = 0 \<or> filesystem_length entry \<ge> kFilesystemSize
                            then None else Some (txt3, entry)
                     | _ \<Rightarrow> None)
                | _ \<Rightarrow> None))
      | _ \<Rightarrow> None)"

function SnapshotLines ::
  "nat \<Rightarrow> string \<Rightarrow> nat \<Rightarrow> MountInfoSnapshotEntry list \<Rightarrow> errno + string \<times> MountInfoSnapshotEntry list" where
  "SnapshotLines text_end txt cursor entries =
     (if cursor \<ge> text_end then Inr (txt, entries)
      else
        let newline = find_char CHR 0x0A (take (text_end - cursor) (drop cursor txt));
            line_end = (case newline of Some k \<Rightarrow> cursor + k | None \<Rightarrow> text_end);
            cursor' = (case newline of Some k \<Rightarrow> cursor + k + 1 | None \<Rightarrow> text_end)
        in if cursor = line_end then SnapshotLines text_end txt cursor' entries
           else if length entries \<ge> kMaxMountInfoEntries then Inl EOVERFLOW
           else let txt' = (if newline \<noteq> None then txt[line_end := CHR 0x00] else txt) in
                (case ParseLine txt' cursor line_end of
                   None \<Rightarrow> Inl EBADMSG
                 | Some (txt'', entry) \<Rightarrow> SnapshotLines text_end txt'' cursor' (entries @ [entry])))"
  by pat_completeness auto
termination
proof (relation "measure (\<lambda>(text_end, _, cursor, _). text_end - cursor)", goal_cases)
  case (2 text_end t cursor entries newline line_end cursor')
  from 2(1) have "cursor < text_end" by simp
  moreover from this have "cursor < cursor'" unfolding 2(4) by (simp split: option.split)
  ultimately show ?case by simp
next
  case (3 text_end t cursor entries newline line_end cursor')
  from 3(1) have "cursor < text_end" by simp
  moreover from this have "cursor < cursor'" unfolding 3(4) by (simp split: option.split)
  ultimately show ?case by simp
qed simp

declare SnapshotLines.simps [simp del]

text \<open>\<open>ParseSnapshot\<close> on the bytes that were read; the buffer ends with a zero byte.\<close>

definition ParseSnapshot :: "u64 \<times> u64 \<Rightarrow> string \<Rightarrow> errno + MountInfoSnapshot" where
  "ParseSnapshot identity bytes =
     (case SnapshotLines (length bytes) (bytes @ [CHR 0x00]) 0 [] of
        Inl e \<Rightarrow> Inl e
      | Inr (txt, entries) \<Rightarrow>
          if entries = [] then Inl ENODATA
          else Inr \<lparr>mapping = True, snapshot_text = txt, snapshot_entries = entries,
                    namespace_device = fst identity, namespace_inode = snd identity\<rparr>)"

subsection \<open>Reading\<close>

text \<open>The answers of the \<open>read\<close> calls on the opened file; after the last one the file has ended.  A call
  returns at most the bytes asked for and leaves the others to the next call.\<close>

datatype ReadAnswer = ReadError errno | ReadBytes string

fun ReadExtra :: "ReadAnswer list \<Rightarrow> errno option" where
  "ReadExtra [] = None"
| "ReadExtra (ReadError e # rest) = (if e = EINTR then ReadExtra rest else Some e)"
| "ReadExtra (ReadBytes b # rest) = (if b = [] then None else Some EFBIG)"

fun ReadMountInfo :: "string \<Rightarrow> ReadAnswer list \<Rightarrow> errno + string" where
  "ReadMountInfo buffer [] = Inr buffer"
| "ReadMountInfo buffer (a # rest) =
     (if length buffer \<ge> kMaxMountInfoBytes then
        (case ReadExtra (a # rest) of Some e \<Rightarrow> Inl e | None \<Rightarrow> Inr buffer)
      else case a of
        ReadError e \<Rightarrow> if e = EINTR then ReadMountInfo buffer rest else Inl e
      | ReadBytes b \<Rightarrow>
          if b = [] then Inr buffer
          else if length b > kMaxMountInfoBytes - length buffer then
            (case ReadExtra (ReadBytes (drop (kMaxMountInfoBytes - length buffer) b) # rest) of
               Some e \<Rightarrow> Inl e | None \<Rightarrow> Inr (buffer @ b))
          else ReadMountInfo (buffer @ b) rest)"

text \<open>The answers of the calls of one capture: \<open>mmap\<close>, the identity of the mount namespace
  (\<open>ReadNamespaceIdentity\<close>), and the mount table.\<close>

record CaptureAnswers =
  answer_mmap :: "errno option"
  answer_namespace :: "errno + u64 \<times> u64"
  answer_mountinfo :: "errno + ReadAnswer list"

definition CaptureMountInfoSnapshot :: "CaptureAnswers \<Rightarrow> errno + MountInfoSnapshot" where
  "CaptureMountInfoSnapshot answers =
     (case answer_mmap answers of Some e \<Rightarrow> Inl e | None \<Rightarrow>
      case answer_namespace answers of Inl e \<Rightarrow> Inl e | Inr identity \<Rightarrow>
      case answer_mountinfo answers of Inl e \<Rightarrow> Inl e | Inr reads \<Rightarrow>
      case ReadMountInfo [] reads of Inl e \<Rightarrow> Inl e | Inr bytes \<Rightarrow>
      ParseSnapshot identity bytes)"

subsection \<open>Lookup\<close>

text \<open>The loop of \<open>FindEntry\<close> with the entry selected so far.\<close>

fun FindEntryLoop ::
  "string \<Rightarrow> string \<Rightarrow> bool \<Rightarrow> (nat \<times> nat) option \<Rightarrow> nat \<Rightarrow> MountInfoSnapshotEntry list \<Rightarrow> errno + nat" where
  "FindEntryLoop txt path exact_mountpoint selected index [] =
     (case selected of None \<Rightarrow> Inl ENOENT | Some (i, _) \<Rightarrow> Inr i)"
| "FindEntryLoop txt path exact_mountpoint selected index (entry # rest) =
     (case DecodeToken txt (mountpoint_offset entry) (mountpoint_length entry) PATH_MAX of
        None \<Rightarrow> Inl EBADMSG
      | Some mount_point \<Rightarrow>
          let matches = (if exact_mountpoint then mount_point = path else IsPathOnMount path mount_point) in
          if \<not> matches \<or>
             (\<not> exact_mountpoint \<and> (case selected of None \<Rightarrow> False | Some (_, n) \<Rightarrow> length mount_point < n))
          then FindEntryLoop txt path exact_mountpoint selected (index + 1) rest
          else FindEntryLoop txt path exact_mountpoint (Some (index, length mount_point)) (index + 1) rest)"

definition FindEntry :: "MountInfoSnapshot \<Rightarrow> string \<Rightarrow> bool \<Rightarrow> errno + nat" where
  "FindEntry snapshot path exact_mountpoint =
     (if \<not> mapping snapshot \<or> path = [] \<or> hd path \<noteq> CHR ''/'' then Inl EINVAL
      else FindEntryLoop (snapshot_text snapshot) path exact_mountpoint None 0 (snapshot_entries snapshot))"

definition FindMountInfoPath :: "MountInfoSnapshot \<Rightarrow> string \<Rightarrow> bool \<Rightarrow> errno + MountPathIdentity" where
  "FindMountInfoPath snapshot path exact_mountpoint =
     (case FindEntry snapshot path exact_mountpoint of
        Inl e \<Rightarrow> Inl e
      | Inr index \<Rightarrow>
          let entry = snapshot_entries snapshot ! index; txt = snapshot_text snapshot in
          (case (DecodeToken txt (root_offset entry) (root_length entry) PATH_MAX,
                 DecodeToken txt (mountpoint_offset entry) (mountpoint_length entry) PATH_MAX) of
             (Some root, Some mount_point) \<Rightarrow>
               if filesystem_length entry \<ge> kFilesystemSize then Inl EBADMSG
               else Inr \<lparr>mi_mount_id = entry_mount_id entry,
                         mi_parent_mount_id = entry_parent_mount_id entry,
                         mi_device = entry_device entry, mi_root = root, mi_mountpoint = mount_point,
                         mi_filesystem = take (filesystem_length entry) (drop (filesystem_offset entry) txt)\<rparr>
           | _ \<Rightarrow> Inl EBADMSG))"

definition MountInfoSnapshotRequiresPrivate :: "MountInfoSnapshot \<Rightarrow> string \<Rightarrow> errno + bool" where
  "MountInfoSnapshotRequiresPrivate snapshot mount_point =
     (case FindEntry snapshot mount_point True of
        Inl e \<Rightarrow> Inl e
      | Inr index \<Rightarrow>
          let propagation = entry_propagation (snapshot_entries snapshot ! index) in
          Inr (propagation AND kMountPropagationShared \<noteq> 0 \<and> propagation AND kMountPropagationMaster = 0))"

text \<open>\<open>current\<close> is the identity of the namespace at the time of the call.\<close>

definition MountInfoSnapshotMatchesCurrentNamespace ::
  "errno + u64 \<times> u64 \<Rightarrow> MountInfoSnapshot \<Rightarrow> bool" where
  "MountInfoSnapshotMatchesCurrentNamespace current snapshot \<longleftrightarrow>
     mapping snapshot \<and>
     current = Inr (namespace_device snapshot, namespace_inode snapshot)"

subsection \<open>The reference: words of a line\<close>

definition space_words :: "string \<Rightarrow> string list" where
  "space_words line = filter (\<lambda>w. w \<noteq> []) (split_on CHR '' '' line)"

definition upto_nul :: "string \<Rightarrow> string" where
  "upto_nul w = takeWhile (\<lambda>c. c \<noteq> CHR 0x00) w"

definition propagation_flags :: "string list \<Rightarrow> 8 word" where
  "propagation_flags optionals =
     (if \<exists>f \<in> set optionals. prefix ''shared:'' f then kMountPropagationShared else 0) OR
     (if \<exists>f \<in> set optionals. prefix ''master:'' f then kMountPropagationMaster else 0) OR
     (if ''unbindable'' \<in> set optionals then kMountPropagationUnbindable else 0)"

definition decode_path :: "string \<Rightarrow> string option" where
  "decode_path token = DecodeLoop PATH_MAX 0 token"

text \<open>What a line of the table says: the mount and its propagation.\<close>

definition line_mount :: "string \<Rightarrow> (MountPathIdentity \<times> 8 word) option" where
  "line_mount line =
     (case map upto_nul (space_words line) of
        id_text # parent_text # device_text # root_text # mountpoint_text # _ # rest \<Rightarrow>
          (case dropWhile (\<lambda>f. f \<noteq> ''-'') rest of
             _ # filesystem # _ # _ # _ \<Rightarrow>
               (case (SnapshotParseUnsigned id_text, SnapshotParseUnsigned parent_text,
                      ParseDevice device_text, decode_path root_text, decode_path mountpoint_text) of
                  (Some i, Some p, Some d, Some r, Some m) \<Rightarrow>
                    if i = 0 \<or> p = 0 \<or> filesystem = [] \<or> length filesystem \<ge> kFilesystemSize then None
                    else Some (\<lparr>mi_mount_id = i, mi_parent_mount_id = p, mi_device = d, mi_root = r,
                                mi_mountpoint = m, mi_filesystem = filesystem\<rparr>,
                               propagation_flags (takeWhile (\<lambda>f. f \<noteq> ''-'') rest))
                | _ \<Rightarrow> None)
           | _ \<Rightarrow> None)
      | _ \<Rightarrow> None)"

definition table_mounts :: "string \<Rightarrow> errno + (MountPathIdentity \<times> 8 word) list" where
  "table_mounts bytes =
     (let rows = filter (\<lambda>l. l \<noteq> []) (split_on CHR 0x0A bytes) in
      case those (map line_mount (take kMaxMountInfoEntries rows)) of
        None \<Rightarrow> Inl EBADMSG
      | Some ms \<Rightarrow> if length rows > kMaxMountInfoEntries then Inl EOVERFLOW
                   else if ms = [] then Inl ENODATA else Inr ms)"

subsection \<open>Tokens in the buffer\<close>

text \<open>While a line is split, the buffer is \<open>before @ rest @ [0] @ after\<close> with the cursor between \<open>before\<close>
  and \<open>rest\<close>.  The settled part is never written again.\<close>

definition settled :: "string \<Rightarrow> string \<Rightarrow> string" where
  "settled before rest = (if rest = [] then before @ [CHR 0x00] else before)"

definition token_at :: "string \<Rightarrow> nat \<Rightarrow> string \<Rightarrow> bool" where
  "token_at txt offset w \<longleftrightarrow> take (Suc (length w)) (drop offset txt) = w @ [CHR 0x00]"

lemma token_at_prefix:
  assumes "token_at txt offset w" "prefix txt txt'"
  shows "token_at txt' offset w"
proof -
  obtain q where q: "txt' = txt @ q" using assms(2) by (auto simp: prefix_def)
  have "length (take (Suc (length w)) (drop offset txt)) = Suc (length w)"
    using assms(1) by (simp add: token_at_def)
  hence "Suc (length w) \<le> length txt - offset" by simp
  thus ?thesis using assms(1) q by (simp add: token_at_def)
qed

lemma token_at_c_str:
  assumes "token_at txt offset w"
  shows "c_str txt offset = upto_nul w" "take (length (upto_nul w)) (drop offset txt) = upto_nul w"
proof -
  have d: "drop offset txt = w @ CHR 0x00 # drop (Suc (length w)) (drop offset txt)"
    using assms append_take_drop_id [of "Suc (length w)" "drop offset txt"]
    by (simp add: token_at_def)
  show "c_str txt offset = upto_nul w" unfolding c_str_def upto_nul_def
    by (subst d) (simp add: takeWhile_tail)
  obtain z where "w = upto_nul w @ z" by (metis upto_nul_def takeWhile_dropWhile_id)
  thus "take (length (upto_nul w)) (drop offset txt) = upto_nul w" by (metis d append.assoc append_eq_conv_conj)
qed

lemma token_at_append: "token_at (p @ w @ CHR 0x00 # q) (length p) w"
  by (simp add: token_at_def)

lemma space_words_skip: "set s \<subseteq> {CHR '' ''} \<Longrightarrow> space_words (s @ u) = space_words u"
  by (induction s) (auto simp: space_words_def)

lemma space_words_word:
  "CHR '' '' \<notin> set w \<Longrightarrow> w \<noteq> [] \<Longrightarrow> space_words (w @ CHR '' '' # r) = w # space_words r"
  "CHR '' '' \<notin> set w \<Longrightarrow> w \<noteq> [] \<Longrightarrow> space_words w = [w]"
  by (simp_all add: space_words_def split_on_append split_on_free)

lemma NextToken_None:
  assumes "dropWhile (\<lambda>c. c = CHR '' '') rest = []"
  shows "NextToken (before @ rest @ CHR 0x00 # after) (length before) (length before + length rest) =
    (before @ rest @ CHR 0x00 # after, length before + length rest, None)" "space_words rest = []"
proof -
  have t: "takeWhile (\<lambda>c. c = CHR '' '') rest = rest"
    using assms takeWhile_dropWhile_id [of "\<lambda>c. c = CHR '' ''" rest] by simp
  thus "NextToken (before @ rest @ CHR 0x00 # after) (length before) (length before + length rest) =
    (before @ rest @ CHR 0x00 # after, length before + length rest, None)"
    unfolding NextToken_def Let_def by (simp add: t)
  have "set rest \<subseteq> {CHR '' ''}" using assms by auto
  from space_words_skip [OF this, of "[]"] show "space_words rest = []" by (simp add: space_words_def)
qed

lemma NextToken_Some:
  assumes "dropWhile (\<lambda>c. c = CHR '' '') rest \<noteq> []"
  obtains before' rest' token w where
    "NextToken (before @ rest @ CHR 0x00 # after) (length before) (length before + length rest) =
       (before' @ rest' @ CHR 0x00 # after, length before', Some token)"
    "length before' + length rest' = length before + length rest"
    "prefix (settled before rest) (settled before' rest')"
    "token_at (settled before' rest') token w"
    "space_words rest = w # space_words rest'"
proof -
  define s where "s = takeWhile (\<lambda>c. c = CHR '' '') rest"
  define u where "u = dropWhile (\<lambda>c. c = CHR '' '') rest"
  define w where "w = takeWhile (\<lambda>c. c \<noteq> CHR '' '') u"
  define v where "v = dropWhile (\<lambda>c. c \<noteq> CHR '' '') u"
  have rest: "rest = s @ w @ v" by (simp add: s_def u_def w_def v_def)
  have u: "u \<noteq> []" "hd u \<noteq> CHR '' ''" using assms hd_dropWhile [of "\<lambda>c. c = CHR '' ''" rest] by (auto simp: u_def)
  have w: "w \<noteq> []" "CHR '' '' \<notin> set w" using u by (auto simp: w_def takeWhile_eq_Nil_iff dest: set_takeWhileD)
  have s: "set s \<subseteq> {CHR '' ''}" by (auto simp: s_def dest: set_takeWhileD)
  have u_eq: "u = w @ v" by (simp add: w_def v_def)
  let ?txt = "before @ rest @ CHR 0x00 # after"
  have t1: "length before + length (takeWhile (\<lambda>c. c = CHR '' '')
      (take (length before + length rest - length before) (drop (length before) ?txt))) = length before + length s"
    by (simp add: s_def)
  have len: "length rest = length s + length w + length v" "length w > 0" using rest w by simp_all
  have d2: "take (length before + length rest - (length before + length s)) (drop (length before + length s) ?txt) = u"
    using rest u_eq by simp
  have step: "NextToken ?txt (length before) (length before + length rest) =
    (if length s + length w < length rest
     then (?txt[length before + length s + length w := CHR 0x00], length before + length s + length w + 1,
           Some (length before + length s))
     else (?txt, length before + length s + length w, Some (length before + length s)))"
    unfolding NextToken_def Let_def t1 d2 w_def [symmetric] using len by simp
  show thesis
  proof (cases v)
    case Nil
    have words: "space_words rest = [w]"
      using space_words_skip [OF s, of w] space_words_word(2) [OF w(2,1)] by (simp add: rest Nil)
    show thesis
      by (rule that [of "before @ s @ w" "[]" "length before + length s" w])
        (use step words token_at_append [of "before @ s" w "[]"] w in
          \<open>simp_all add: rest Nil settled_def space_words_def\<close>)
  next
    case (Cons c r)
    hence c: "c = CHR '' ''" using hd_dropWhile [of "\<lambda>c. c \<noteq> CHR '' ''" u] by (simp add: v_def)
    have words: "space_words rest = w # space_words r"
      using space_words_skip [OF s, of "w @ v"] space_words_word(1) [OF w(2,1)] by (simp add: rest Cons c)
    have upd: "?txt[length before + length s + length w := CHR 0x00] =
        (before @ s @ w @ [CHR 0x00]) @ r @ CHR 0x00 # after"
      by (simp add: rest Cons list_update_append)
    have pre: "prefix (settled before rest) (settled (before @ s @ w @ [CHR 0x00]) r)"
      using w by (simp add: settled_def rest)
    have tok: "token_at (settled (before @ s @ w @ [CHR 0x00]) r) (length before + length s) w"
      using token_at_append [of "before @ s" w "[]"] token_at_append [of "before @ s" w "[CHR 0x00]"]
      by (simp add: settled_def)
    show thesis
      by (rule that [of "before @ s @ w @ [CHR 0x00]" r "length before + length s" w])
        (use step upd words pre tok in \<open>simp_all add: rest Cons\<close>)
  qed
qed

definition advanced :: "string \<Rightarrow> string \<Rightarrow> string \<Rightarrow> string \<Rightarrow> bool" where
  "advanced before rest before' rest' \<longleftrightarrow>
     length before' + length rest' = length before + length rest \<and>
     prefix (settled before rest) (settled before' rest')"

lemma advanced_refl [simp]: "advanced before rest before rest"
  by (simp add: advanced_def)

lemma advanced_trans [trans]:
  "advanced b r b' r' \<Longrightarrow> advanced b' r' b'' r'' \<Longrightarrow> advanced b r b'' r''"
  by (auto simp: advanced_def intro: prefix_order.trans)

text \<open>One step of the scanner, against the words of the rest of the line.\<close>

lemma NextToken_words:
  fixes before rest after
  defines "txt \<equiv> before @ rest @ CHR 0x00 # after" and "line_end \<equiv> length before + length rest"
  shows "case space_words rest of
      [] \<Rightarrow> NextToken txt (length before) line_end = (txt, line_end, None)
    | w # ws \<Rightarrow> \<exists>before' rest' token.
        NextToken txt (length before) line_end = (before' @ rest' @ CHR 0x00 # after, length before', Some token) \<and>
        advanced before rest before' rest' \<and> token_at (settled before' rest') token w \<and>
        space_words rest' = ws"
proof (cases "dropWhile (\<lambda>c. c = CHR '' '') rest = []")
  case True
  from NextToken_None [OF this] show ?thesis by (simp add: txt_def line_end_def)
next
  case False
  obtain before' rest' token w where n:
    "NextToken txt (length before) line_end = (before' @ rest' @ CHR 0x00 # after, length before', Some token)"
    "length before' + length rest' = length before + length rest"
    "prefix (settled before rest) (settled before' rest')"
    "token_at (settled before' rest') token w" and w: "space_words rest = w # space_words rest'"
    unfolding txt_def line_end_def using NextToken_Some [OF False] by metis
  show ?thesis unfolding w using n by (auto simp: advanced_def)
qed

lemma NextTokens_words:
  "case (if length (space_words rest) < n then None else Some (drop n (space_words rest))) of
     None \<Rightarrow> NextTokens n (before @ rest @ CHR 0x00 # after) (length before) (length before + length rest) = None
   | Some ws \<Rightarrow> \<exists>before' rest' tokens.
       NextTokens n (before @ rest @ CHR 0x00 # after) (length before) (length before + length rest) =
         Some (before' @ rest' @ CHR 0x00 # after, length before', tokens) \<and>
       advanced before rest before' rest' \<and>
       list_all2 (token_at (settled before' rest')) tokens (take n (space_words rest)) \<and>
       space_words rest' = ws"
proof (induction n arbitrary: before rest)
  case 0
  show ?case using advanced_refl [of before rest] by fastforce
next
  case (Suc n)
  show ?case
  proof (cases "space_words rest")
    case Nil
    thus ?thesis using NextToken_words [of before rest after] by simp
  next
    case (Cons w ws)
    then obtain before1 rest1 token where s: "NextToken (before @ rest @ CHR 0x00 # after) (length before)
        (length before + length rest) = (before1 @ rest1 @ CHR 0x00 # after, length before1, Some token)"
      and adv: "advanced before rest before1 rest1" and tok: "token_at (settled before1 rest1) token w"
      and ws: "space_words rest1 = ws" using NextToken_words [of before rest after] by auto
    have le: "length before + length rest = length before1 + length rest1"
      using adv by (simp add: advanced_def)
    note IH = Suc.IH [of before1 rest1, folded le, unfolded ws]
    show ?thesis
    proof (cases "length ws < n")
      case True
      thus ?thesis using s IH by (simp add: Cons)
    next
      case False
      then obtain before' rest' tokens where r:
        "NextTokens n (before1 @ rest1 @ CHR 0x00 # after) (length before1) (length before + length rest) =
           Some (before' @ rest' @ CHR 0x00 # after, length before', tokens)"
        "advanced before1 rest1 before' rest'"
        "list_all2 (token_at (settled before' rest')) tokens (take n ws)" "space_words rest' = drop n ws"
        using IH by auto
      have "token_at (settled before' rest') token w"
        using tok r(2) by (auto simp: advanced_def intro: token_at_prefix)
      thus ?thesis using False s r advanced_trans [OF adv r(2)] by (simp add: Cons) blast
    qed
  qed
qed

lemma propagation_flags_Cons:
  "propagation_flags (f # fs) =
     (if prefix ''shared:'' f then kMountPropagationShared
      else if prefix ''master:'' f then kMountPropagationMaster
      else if f = ''unbindable'' then kMountPropagationUnbindable else 0) OR propagation_flags fs"
proof -
  have sep: "\<not> (prefix ''shared:'' f \<and> prefix ''master:'' f)" "\<not> prefix ''shared:'' ''unbindable''"
    "\<not> prefix ''master:'' ''unbindable''"
    by (auto simp: prefix_def)
  have or_simps: "(x OR x) OR y = x OR y" "x OR (x OR y) = x OR y" for x y :: "8 word"
    by (simp_all add: or.assoc or.left_commute)
  show ?thesis using sep by (auto simp: propagation_flags_def or.assoc or.left_commute or.commute or_simps)
qed

lemma OptionalFields_words:
  "case dropWhile (\<lambda>w. upto_nul w \<noteq> ''-'') (space_words rest) of
     [] \<Rightarrow> OptionalFields (before @ rest @ CHR 0x00 # after) (length before) (length before + length rest) flags = None
   | _ # ws \<Rightarrow> \<exists>before' rest'.
       OptionalFields (before @ rest @ CHR 0x00 # after) (length before) (length before + length rest) flags =
         Some (before' @ rest' @ CHR 0x00 # after, length before',
           flags OR propagation_flags (takeWhile (\<lambda>f. f \<noteq> ''-'') (map upto_nul (space_words rest)))) \<and>
       advanced before rest before' rest' \<and> space_words rest' = ws"
proof (induction "space_words rest" arbitrary: before rest flags)
  case Nil
  thus ?case using NextToken_words [of before rest after] by (simp add: OptionalFields.simps Nil [symmetric])
next
  case (Cons w ws)
  have words: "space_words rest = w # ws" using Cons.hyps(2) by simp
  then obtain before1 rest1 token where s: "NextToken (before @ rest @ CHR 0x00 # after) (length before)
      (length before + length rest) = (before1 @ rest1 @ CHR 0x00 # after, length before1, Some token)"
    and adv: "advanced before rest before1 rest1" and tok: "token_at (settled before1 rest1) token w"
    and ws: "space_words rest1 = ws" using NextToken_words [of before rest after] by auto
  have le: "length before + length rest = length before1 + length rest1"
    using adv by (simp add: advanced_def)
  have "prefix (settled before1 rest1) (before1 @ rest1 @ CHR 0x00 # after)" by (simp add: settled_def)
  hence str: "c_str (before1 @ rest1 @ CHR 0x00 # after) token = upto_nul w"
    using tok token_at_prefix token_at_c_str(1) by blast
  note IH = Cons.hyps(1) [OF ws [symmetric], of before1, folded le, unfolded ws]
  show ?case
  proof (cases "upto_nul w = ''-''")
    case True
    have "OptionalFields (before @ rest @ CHR 0x00 # after) (length before) (length before + length rest) flags =
        Some (before1 @ rest1 @ CHR 0x00 # after, length before1, flags)"
      using True s str by (simp add: OptionalFields.simps)
    thus ?thesis using True adv ws
      by (simp add: words propagation_flags_def del: append_assoc) blast
  next
    case False
    define flags' where "flags' = flags OR (if prefix ''shared:'' (upto_nul w) then kMountPropagationShared
      else if prefix ''master:'' (upto_nul w) then kMountPropagationMaster
      else if upto_nul w = ''unbindable'' then kMountPropagationUnbindable else 0)"
    have step: "OptionalFields (before @ rest @ CHR 0x00 # after) (length before) (length before + length rest) flags =
        OptionalFields (before1 @ rest1 @ CHR 0x00 # after) (length before1) (length before + length rest) flags'"
      using s str False
      by (subst OptionalFields.simps) (simp add: flags'_def)
    have fl: "flags' OR propagation_flags fs = flags OR propagation_flags (upto_nul w # fs)" for fs
      by (simp add: propagation_flags_Cons flags'_def or.assoc)
    have dw: "dropWhile (\<lambda>w. upto_nul w \<noteq> ''-'') (w # ws) = dropWhile (\<lambda>w. upto_nul w \<noteq> ''-'') ws"
      using False by simp
    show ?thesis
    proof (cases "dropWhile (\<lambda>w. upto_nul w \<noteq> ''-'') ws")
      case Nil
      thus ?thesis unfolding step words dw using IH [of flags'] unfolding Nil by simp
    next
      case (Cons x xs)
      show ?thesis unfolding step words dw Cons list.case using IH [of flags', unfolded Cons] False
        advanced_trans [OF adv] by (auto simp: fl)
    qed
  qed
qed

subsection \<open>A line and its entry\<close>

definition slice_at :: "string \<Rightarrow> nat \<Rightarrow> nat \<Rightarrow> string \<Rightarrow> bool" where
  "slice_at txt offset len s \<longleftrightarrow> take len (drop offset txt) = s \<and> length s = len"

definition entry_shows :: "string \<Rightarrow> MountInfoSnapshotEntry \<Rightarrow> MountPathIdentity \<times> 8 word \<Rightarrow> bool" where
  "entry_shows txt e m \<longleftrightarrow>
     entry_mount_id e = mi_mount_id (fst m) \<and> entry_parent_mount_id e = mi_parent_mount_id (fst m) \<and>
     entry_device e = mi_device (fst m) \<and> entry_propagation e = snd m \<and>
     (\<exists>r. slice_at txt (root_offset e) (root_length e) r \<and> decode_path r = Some (mi_root (fst m))) \<and>
     (\<exists>p. slice_at txt (mountpoint_offset e) (mountpoint_length e) p \<and>
        decode_path p = Some (mi_mountpoint (fst m))) \<and>
     slice_at txt (filesystem_offset e) (filesystem_length e) (mi_filesystem (fst m)) \<and>
     filesystem_length e < kFilesystemSize"

lemma slice_at_append: "slice_at txt offset len s \<Longrightarrow> slice_at (txt @ q) offset len s"
  by (auto simp: slice_at_def min_def split: if_splits)

lemma entry_shows_append: "entry_shows txt e m \<Longrightarrow> entry_shows (txt @ q) e m"
  unfolding entry_shows_def by (auto dest: slice_at_append)

lemma token_at_slice:
  "token_at txt offset w \<Longrightarrow> slice_at txt offset (length (upto_nul w)) (upto_nul w)"
  by (simp add: slice_at_def token_at_c_str)

lemma DecodeToken_slice: "slice_at txt offset len s \<Longrightarrow> DecodeToken txt offset len PATH_MAX = decode_path s"
  by (simp add: DecodeToken_def decode_path_def slice_at_def PATH_MAX_def)

lemma list_of_six: "length xs \<ge> 6 \<Longrightarrow> \<exists>a b c d e f r. xs = a # b # c # d # e # f # r"
  by (simp add: numeral_eq_Suc Suc_le_length_iff) blast

lemma list_of_three: "length xs \<ge> 3 \<Longrightarrow> \<exists>a b c r. xs = a # b # c # r"
  by (simp add: numeral_eq_Suc Suc_le_length_iff) blast

lemma dropWhile_map_upto: "dropWhile (\<lambda>f. f \<noteq> x) (map g ws) = map g (dropWhile (\<lambda>w. g w \<noteq> x) ws)"
  by (simp add: dropWhile_map comp_def)

text \<open>The checks at the end of a line, on the texts of its fields.\<close>

lemma ParseLine_fields:
  assumes six: "NextTokens 6 txt line line_end = Some (txt1, cursor1, [o1, o2, o3, o4, o5, o6])"
    and opt: "OptionalFields txt1 cursor1 line_end kMountPropagationNone = Some (txt2, cursor2, flags)"
    and three: "NextTokens 3 txt2 cursor2 line_end = Some (txt3, cursor3, [o7, o8, o9])"
    and tok: "list_all2 (token_at parsed) [o1, o2, o3, o4, o5, o7] [w1, w2, w3, w4, w5, w7]"
    and txt3: "prefix parsed txt3"
  shows "case (case (SnapshotParseUnsigned (upto_nul w1), SnapshotParseUnsigned (upto_nul w2),
        ParseDevice (upto_nul w3), decode_path (upto_nul w4), decode_path (upto_nul w5)) of
       (Some i, Some p, Some d, Some r, Some m) \<Rightarrow>
         if i = 0 \<or> p = 0 \<or> upto_nul w7 = [] \<or> length (upto_nul w7) \<ge> kFilesystemSize then None
         else Some (\<lparr>mi_mount_id = i, mi_parent_mount_id = p, mi_device = d, mi_root = r,
                mi_mountpoint = m, mi_filesystem = upto_nul w7\<rparr>, flags)
     | _ \<Rightarrow> None) of
      None \<Rightarrow> ParseLine txt line line_end = None
    | Some m \<Rightarrow> \<exists>entry. ParseLine txt line line_end = Some (txt3, entry) \<and> entry_shows parsed entry m"
proof -
  have p: "token_at parsed o1 w1" "token_at parsed o2 w2" "token_at parsed o3 w3" "token_at parsed o4 w4"
    "token_at parsed o5 w5" "token_at parsed o7 w7" using tok by simp_all
  note t = p [THEN token_at_prefix, OF txt3]
  note str = t [THEN token_at_c_str(1)] and sl' = t [THEN token_at_slice] and sl = p [THEN token_at_slice]
  have dec: "DecodeToken txt3 o4 (length (upto_nul w4)) PATH_MAX = decode_path (upto_nul w4)"
    "DecodeToken txt3 o5 (length (upto_nul w5)) PATH_MAX = decode_path (upto_nul w5)"
    using DecodeToken_slice sl' by blast+
  show ?thesis
    unfolding ParseLine_def six opt three option.case prod.case list.case str
    using sl dec
    by (auto simp: Let_def entry_shows_def split: option.split)
qed

lemma settled_prefix: "prefix (settled before rest) (before @ rest @ CHR 0x00 # after)"
  by (simp add: settled_def)

lemma tokens_later:
  assumes "list_all2 (token_at (settled b r)) tokens ws" "advanced b r b' r'"
  shows "list_all2 (token_at (settled b' r')) tokens ws"
  using assms(1) by (rule list_all2_mono) (use assms(2) token_at_prefix in \<open>auto simp: advanced_def\<close>)

text \<open>The three stages of a line, each in terms of the words that are left.\<close>

lemma NextTokens_enough:
  assumes "n \<le> length (space_words rest)"
  obtains before' rest' tokens where
    "NextTokens n (before @ rest @ CHR 0x00 # after) (length before) (length before + length rest) =
       Some (before' @ rest' @ CHR 0x00 # after, length before', tokens)"
    "advanced before rest before' rest'"
    "list_all2 (token_at (settled before' rest')) tokens (take n (space_words rest))"
    "space_words rest' = drop n (space_words rest)"
  using NextTokens_words [where rest = rest and n = n and before = before and after = after] assms
  by (simp add: leD) blast

lemma NextTokens_few:
  "length (space_words rest) < n \<Longrightarrow>
   NextTokens n (before @ rest @ CHR 0x00 # after) (length before) (length before + length rest) = None"
  using NextTokens_words [where rest = rest and n = n and before = before and after = after] by simp

lemma OptionalFields_found:
  assumes "dropWhile (\<lambda>w. upto_nul w \<noteq> ''-'') (space_words rest) = sep # ws"
  obtains before' rest' where
    "OptionalFields (before @ rest @ CHR 0x00 # after) (length before) (length before + length rest)
       kMountPropagationNone = Some (before' @ rest' @ CHR 0x00 # after, length before',
         propagation_flags (takeWhile (\<lambda>f. f \<noteq> ''-'') (map upto_nul (space_words rest))))"
    "advanced before rest before' rest'" "space_words rest' = ws"
  using OptionalFields_words [where rest = rest and before = before and after = after and
      flags = kMountPropagationNone] assms by (auto simp: kMountPropagationNone_def)

lemma OptionalFields_missing:
  assumes "dropWhile (\<lambda>w. upto_nul w \<noteq> ''-'') (space_words rest) = []"
  shows "OptionalFields (before @ rest @ CHR 0x00 # after) (length before) (length before + length rest)
     kMountPropagationNone = None"
  using OptionalFields_words [where rest = rest and before = before and after = after and
      flags = kMountPropagationNone] unfolding assms list.case .

lemma advanced_length: "advanced b r b' r' \<Longrightarrow> length b + length r = length b' + length r'"
  by (simp add: advanced_def)

lemma line_mount_words:
  assumes "space_words line = w1 # w2 # w3 # w4 # w5 # w6 # ws"
  shows "line_mount line = (case map upto_nul (dropWhile (\<lambda>w. upto_nul w \<noteq> ''-'') ws) of
      _ # filesystem # _ # _ # _ \<Rightarrow>
        (case (SnapshotParseUnsigned (upto_nul w1), SnapshotParseUnsigned (upto_nul w2),
               ParseDevice (upto_nul w3), decode_path (upto_nul w4), decode_path (upto_nul w5)) of
           (Some i, Some p, Some d, Some r, Some m) \<Rightarrow>
             if i = 0 \<or> p = 0 \<or> filesystem = [] \<or> length filesystem \<ge> kFilesystemSize then None
             else Some (\<lparr>mi_mount_id = i, mi_parent_mount_id = p, mi_device = d, mi_root = r,
                    mi_mountpoint = m, mi_filesystem = filesystem\<rparr>,
                  propagation_flags (takeWhile (\<lambda>f. f \<noteq> ''-'') (map upto_nul ws)))
         | _ \<Rightarrow> None)
    | _ \<Rightarrow> None)"
  unfolding line_mount_def assms list.map list.case dropWhile_map_upto ..

text \<open>A line with all its fields.\<close>

lemma ParseLine_scanned:
  fixes before line after
  defines "txt \<equiv> before @ line @ CHR 0x00 # after" and "line_end \<equiv> length before + length line"
  assumes "line \<noteq> []" and six: "NextTokens 6 txt (length before) line_end =
      Some (b1 @ r1 @ CHR 0x00 # after, length b1, [o1, o2, o3, o4, o5, o6])"
    and a1: "advanced before line b1 r1"
    and tok: "list_all2 (token_at (settled b1 r1)) [o1, o2, o3, o4, o5, o6] [w1, w2, w3, w4, w5, w6]"
    and opt: "OptionalFields (b1 @ r1 @ CHR 0x00 # after) (length b1) line_end kMountPropagationNone =
        Some (b2 @ r2 @ CHR 0x00 # after, length b2, flags)"
    and a2: "advanced b1 r1 b2 r2" and vs: "space_words r2 = w7 # w8 # w9 # us"
  shows "case (case (SnapshotParseUnsigned (upto_nul w1), SnapshotParseUnsigned (upto_nul w2),
        ParseDevice (upto_nul w3), decode_path (upto_nul w4), decode_path (upto_nul w5)) of
       (Some i, Some p, Some d, Some r, Some m) \<Rightarrow>
         if i = 0 \<or> p = 0 \<or> upto_nul w7 = [] \<or> length (upto_nul w7) \<ge> kFilesystemSize then None
         else Some (\<lparr>mi_mount_id = i, mi_parent_mount_id = p, mi_device = d, mi_root = r,
                mi_mountpoint = m, mi_filesystem = upto_nul w7\<rparr>, flags)
     | _ \<Rightarrow> None) of
      None \<Rightarrow> ParseLine txt (length before) line_end = None
    | Some m \<Rightarrow> \<exists>parsed entry. ParseLine txt (length before) line_end = Some (parsed @ after, entry) \<and>
        length parsed = Suc line_end \<and> prefix before parsed \<and> entry_shows parsed entry m"
proof -
  note le2 = advanced_length [OF a1, folded line_end_def, unfolded advanced_length [OF a2]]
  obtain b3 r3 tokens' where three: "NextTokens 3 (b2 @ r2 @ CHR 0x00 # after) (length b2) line_end =
      Some (b3 @ r3 @ CHR 0x00 # after, length b3, tokens')"
    and a3: "advanced b2 r2 b3 r3" and tok': "list_all2 (token_at (settled b3 r3)) tokens' [w7, w8, w9]"
    by (rule NextTokens_enough [of 3 r2 b2 after]) (simp_all add: vs le2)
  from tok' obtain o7 o8 o9 where tokens': "tokens' = [o7, o8, o9]" by (auto simp: list_all2_Cons2)
  let ?parsed = "b3 @ r3 @ [CHR 0x00]"
  have pre: "prefix (settled b3 r3) ?parsed" by (simp add: settled_def)
  have "prefix before (settled b3 r3)" "length ?parsed = Suc line_end"
    using advanced_trans [OF a1 advanced_trans [OF a2 a3]] assms(3)
    by (simp_all add: advanced_def settled_def line_end_def)
  hence before: "prefix before ?parsed" and len: "length ?parsed = Suc line_end"
    using pre prefix_order.trans by blast+
  have "list_all2 (token_at (settled b3 r3)) [o1, o2, o3, o4, o5, o7] [w1, w2, w3, w4, w5, w7]"
    using tokens_later [OF tokens_later [OF tok a2] a3] tok' by (simp add: tokens')
  hence "list_all2 (token_at ?parsed) [o1, o2, o3, o4, o5, o7] [w1, w2, w3, w4, w5, w7]"
    by (rule list_all2_mono) (rule token_at_prefix [OF _ pre])
  note F = ParseLine_fields [OF six opt three [unfolded tokens'] this]
  show ?thesis by (rule option.split [THEN iffD2], insert F before len) (auto split: option.splits)
qed

lemma ParseLine_mount:
  fixes before line after
  assumes "line \<noteq> []"
  defines "txt \<equiv> before @ line @ CHR 0x00 # after" and "line_end \<equiv> length before + length line"
  shows "case line_mount line of
      None \<Rightarrow> ParseLine txt (length before) line_end = None
    | Some m \<Rightarrow> \<exists>parsed entry. ParseLine txt (length before) line_end = Some (parsed @ after, entry) \<and>
        length parsed = Suc line_end \<and> prefix before parsed \<and> entry_shows parsed entry m"
proof (cases "length (space_words line) < 6")
  case True
  moreover have "line_mount line = None" using True by (auto simp: line_mount_def split: list.split)
  ultimately show ?thesis by (simp add: ParseLine_def NextTokens_few txt_def line_end_def)
next
  case False
  then obtain w1 w2 w3 w4 w5 w6 ws where words: "space_words line = w1 # w2 # w3 # w4 # w5 # w6 # ws"
    using list_of_six [of "space_words line"] by (meson not_less)
  obtain b1 r1 tokens where six: "NextTokens 6 txt (length before) line_end =
      Some (b1 @ r1 @ CHR 0x00 # after, length b1, tokens)" and a1: "advanced before line b1 r1"
    and tok: "list_all2 (token_at (settled b1 r1)) tokens [w1, w2, w3, w4, w5, w6]"
    and ws: "space_words r1 = ws"
    using NextTokens_enough [of 6 line before after thesis] words unfolding txt_def line_end_def by auto
  from tok obtain o1 o2 o3 o4 o5 o6 where tokens: "tokens = [o1, o2, o3, o4, o5, o6]"
    by (auto simp: list_all2_Cons2)
  note le1 = advanced_length [OF a1, folded line_end_def] and mount = line_mount_words [OF words]
  show ?thesis
  proof (cases "dropWhile (\<lambda>w. upto_nul w \<noteq> ''-'') ws")
    case Nil
    note OptionalFields_missing [of r1 b1 after, unfolded ws, OF Nil, folded le1]
    thus ?thesis unfolding mount Nil by (simp add: ParseLine_def six tokens)
  next
    case (Cons sep vs)
    obtain b2 r2 where opt: "OptionalFields (b1 @ r1 @ CHR 0x00 # after) (length b1) line_end kMountPropagationNone =
        Some (b2 @ r2 @ CHR 0x00 # after, length b2,
          propagation_flags (takeWhile (\<lambda>f. f \<noteq> ''-'') (map upto_nul ws)))"
      and a2: "advanced b1 r1 b2 r2" and vs: "space_words r2 = vs"
      by (rule OptionalFields_found [of r1 sep vs b1 after]) (use Cons in \<open>simp_all add: ws le1\<close>)
    note le2 = le1 [unfolded advanced_length [OF a2]]
    show ?thesis
    proof (cases "length vs < 3")
      case True
      note NextTokens_few [of r2 3 b2 after, unfolded vs, OF True, folded le2]
      thus ?thesis unfolding mount Cons using True
        by (auto simp: ParseLine_def six tokens opt split: list.split)
    next
      case False
      then obtain w7 w8 w9 us where vs': "vs = w7 # w8 # w9 # us"
        using list_of_three [of vs] by (meson not_less)
      show ?thesis unfolding mount Cons vs' list.map list.case txt_def line_end_def
        by (rule ParseLine_scanned [OF assms(1) six [unfolded tokens txt_def line_end_def] a1 tok [unfolded tokens]
              opt [unfolded line_end_def] a2 vs [unfolded vs']])
    qed
  qed
qed

subsection \<open>The whole table\<close>

definition table_rows :: "string \<Rightarrow> string list" where
  "table_rows bytes = filter (\<lambda>l. l \<noteq> []) (split_on CHR 0x0A bytes)"

text \<open>What parsing the rows gives when \<open>room\<close> tail_text entries fit.\<close>

definition rows_mounts :: "nat \<Rightarrow> string list \<Rightarrow> errno + (MountPathIdentity \<times> 8 word) list" where
  "rows_mounts room rows =
     (case those (map line_mount (take room rows)) of
        None \<Rightarrow> Inl EBADMSG
      | Some ms \<Rightarrow> if length rows > room then Inl EOVERFLOW else Inr ms)"

lemma rows_mounts_Nil [simp]: "rows_mounts room [] = Inr []"
  by (simp add: rows_mounts_def)

lemma rows_mounts_full: "rows \<noteq> [] \<Longrightarrow> rows_mounts 0 rows = Inl EOVERFLOW"
  by (simp add: rows_mounts_def)

lemma rows_mounts_Cons:
  "rows_mounts (Suc room) (row # rows) =
     (case line_mount row of None \<Rightarrow> Inl EBADMSG
      | Some m \<Rightarrow> map_sum id ((#) m) (rows_mounts room rows))"
  by (auto simp: rows_mounts_def split: option.splits)

lemma rows_step:
  "room = kMaxMountInfoEntries - length entries \<Longrightarrow> length entries < kMaxMountInfoEntries \<Longrightarrow>
   rows_mounts room (row # rows) =
     (case line_mount row of None \<Rightarrow> Inl EBADMSG
      | Some m \<Rightarrow> map_sum id ((#) m) (rows_mounts (kMaxMountInfoEntries - length (entries @ [e])) rows))"
  by (subst rows_mounts_Cons [symmetric]) (simp add: Suc_diff_Suc)

lemma SnapshotLines_end: "SnapshotLines n txt n entries = Inr (txt, entries)"
  by (simp add: SnapshotLines.simps)

text \<open>The two ways a line can end.\<close>

lemma SnapshotLines_line:
  assumes "CHR 0x0A \<notin> set line" "line \<noteq> []"
  shows "SnapshotLines (length before + length line) (before @ line @ [CHR 0x00]) (length before) entries =
      (if length entries \<ge> kMaxMountInfoEntries then Inl EOVERFLOW
       else case ParseLine (before @ line @ [CHR 0x00]) (length before) (length before + length line) of
              None \<Rightarrow> Inl EBADMSG
            | Some (txt, entry) \<Rightarrow> Inr (txt, entries @ [entry]))"
    and "SnapshotLines (length before + length line + 1 + length rest) (before @ line @ CHR 0x0A # rest @ [CHR 0x00])
         (length before) entries =
      (if length entries \<ge> kMaxMountInfoEntries then Inl EOVERFLOW
       else case ParseLine (before @ line @ CHR 0x00 # rest @ [CHR 0x00]) (length before)
              (length before + length line) of
              None \<Rightarrow> Inl EBADMSG
            | Some (txt, entry) \<Rightarrow>
                SnapshotLines (length before + length line + 1 + length rest) txt
                  (length before + length line + 1) (entries @ [entry]))"
proof -
  have f: "find_char CHR 0x0A line = None" using assms(1) by simp
  show "SnapshotLines (length before + length line) (before @ line @ [CHR 0x00]) (length before) entries =
      (if length entries \<ge> kMaxMountInfoEntries then Inl EOVERFLOW
       else case ParseLine (before @ line @ [CHR 0x00]) (length before) (length before + length line) of
              None \<Rightarrow> Inl EBADMSG
            | Some (txt, entry) \<Rightarrow> Inr (txt, entries @ [entry]))"
    using assms(2) by (subst SnapshotLines.simps) (simp add: f Let_def SnapshotLines_end split: option.split)
  have g: "find_char CHR 0x0A (line @ CHR 0x0A # rest) = Some (length line)"
    using assms(1) by (rule find_char_appendI)
  have t: "take (Suc (length line + length rest)) (line @ CHR 0x0A # rest @ [CHR 0x00]) = line @ CHR 0x0A # rest"
    by simp
  have u: "(before @ line @ CHR 0x0A # rest @ [CHR 0x00])[length before + length line := CHR 0x00] =
      before @ line @ CHR 0x00 # rest @ [CHR 0x00]" by (simp add: list_update_append)
  show "SnapshotLines (length before + length line + 1 + length rest) (before @ line @ CHR 0x0A # rest @ [CHR 0x00])
         (length before) entries =
      (if length entries \<ge> kMaxMountInfoEntries then Inl EOVERFLOW
       else case ParseLine (before @ line @ CHR 0x00 # rest @ [CHR 0x00]) (length before)
              (length before + length line) of
              None \<Rightarrow> Inl EBADMSG
            | Some (txt, entry) \<Rightarrow>
                SnapshotLines (length before + length line + 1 + length rest) txt
                  (length before + length line + 1) (entries @ [entry]))"
    using assms(2) by (subst SnapshotLines.simps) (simp add: g t u Let_def split: option.split)
qed

lemma SnapshotLines_empty:
  "SnapshotLines (length before + 1 + length rest) (before @ CHR 0x0A # rest @ [CHR 0x00]) (length before) entries =
   SnapshotLines (length before + 1 + length rest) (before @ CHR 0x0A # rest @ [CHR 0x00]) (length before + 1) entries"
proof -
  have g: "find_char CHR 0x0A (CHR 0x0A # rest) = Some 0" using find_char_appendI [of _ "[]"] by simp
  show ?thesis by (subst SnapshotLines.simps) (simp add: g Let_def)
qed

text \<open>The outcome of the loop against the outcome on the rows: the same error, or entries that show the
  mounts of the rows, after those found before.\<close>

definition lines_outcome :: "string \<Rightarrow> MountInfoSnapshotEntry list \<Rightarrow> errno + string \<times> MountInfoSnapshotEntry list \<Rightarrow>
    errno + (MountPathIdentity \<times> 8 word) list \<Rightarrow> bool" where
  "lines_outcome before entries result expected \<longleftrightarrow>
     (case expected of
        Inl e \<Rightarrow> result = Inl e
      | Inr ms \<Rightarrow> \<exists>txt es. result = Inr (txt, entries @ es) \<and> prefix before txt \<and> list_all2 (entry_shows txt) es ms)"

lemma lines_outcome_step:
  assumes "lines_outcome parsed (entries @ [e]) result expected" "prefix before parsed" "entry_shows parsed e m"
  shows "lines_outcome before entries result (map_sum id ((#) m) expected)"
proof (cases expected)
  case (Inr ms)
  then obtain t es where r: "result = Inr (t, entries @ e # es)" "prefix parsed t" "list_all2 (entry_shows t) es ms"
    using assms(1) by (auto simp: lines_outcome_def)
  hence "entry_shows t e m" using entry_shows_append [OF assms(3)] by (auto simp: prefix_def)
  moreover have "prefix before t" using assms(2) r(2) prefix_order.trans by blast
  ultimately show ?thesis using r by (auto simp: lines_outcome_def Inr intro!: exI [of _ "e # es"])
qed (use assms(1) in \<open>simp add: lines_outcome_def\<close>)

lemma SnapshotLines_row:
  assumes nl: "CHR 0x0A \<notin> set line" and line: "line \<noteq> []" and max: "length entries \<le> kMaxMountInfoEntries"
    and IH: "\<And>b es. length es \<le> kMaxMountInfoEntries \<Longrightarrow> lines_outcome b es
        (SnapshotLines (length b + length tail_text) (b @ tail_text @ [CHR 0x00]) (length b) es)
        (rows_mounts (kMaxMountInfoEntries - length es) rows)"
  shows "lines_outcome before entries
      (SnapshotLines (length before + length line + 1 + length tail_text) (before @ line @ CHR 0x0A # tail_text @ [CHR 0x00])
         (length before) entries)
      (rows_mounts (kMaxMountInfoEntries - length entries) (line # rows))"
proof (cases "length entries < kMaxMountInfoEntries")
  case room: True
  note step = SnapshotLines_line(2) [OF nl line, of before tail_text entries]
    and parse = ParseLine_mount [OF line, of before "tail_text @ [CHR 0x00]"]
  show ?thesis
  proof (cases "line_mount line")
    case None
    thus ?thesis using parse room step
      by (simp add: rows_step [OF refl room, of _ _ undefined] lines_outcome_def)
  next
    case (Some m)
    then obtain parsed e where p: "ParseLine (before @ line @ CHR 0x00 # tail_text @ [CHR 0x00]) (length before)
          (length before + length line) = Some (parsed @ tail_text @ [CHR 0x00], e)"
        "length parsed = Suc (length before + length line)" "prefix before parsed" "entry_shows parsed e m"
      using parse by auto
    have "lines_outcome parsed (entries @ [e])
        (SnapshotLines (length parsed + length tail_text) (parsed @ tail_text @ [CHR 0x00]) (length parsed) (entries @ [e]))
        (rows_mounts (kMaxMountInfoEntries - length (entries @ [e])) rows)"
      using room by (intro IH) simp
    from lines_outcome_step [OF this p(3,4)] show ?thesis using step room p(1,2)
      by (simp add: rows_step [OF refl room, of _ _ e] Some)
  qed
next
  case False
  thus ?thesis using max SnapshotLines_line(2) [OF nl line, of before tail_text entries]
    by (simp add: rows_mounts_full lines_outcome_def)
qed

lemma SnapshotLines_last_row:
  assumes nl: "CHR 0x0A \<notin> set line" and line: "line \<noteq> []" and max: "length entries \<le> kMaxMountInfoEntries"
  shows "lines_outcome before entries
      (SnapshotLines (length before + length line) (before @ line @ [CHR 0x00]) (length before) entries)
      (rows_mounts (kMaxMountInfoEntries - length entries) [line])"
proof (cases "length entries < kMaxMountInfoEntries")
  case room: True
  show ?thesis unfolding SnapshotLines_line(1) [OF nl line] rows_step [OF refl room, of _ _ undefined]
    using ParseLine_mount [OF line, of before "[]"] room
    by (auto simp: lines_outcome_def split: option.splits)
next
  case False
  thus ?thesis using max
    by (simp add: SnapshotLines_line(1) [OF nl line] rows_mounts_full lines_outcome_def)
qed

lemma SnapshotLines_rows:
  "length entries \<le> kMaxMountInfoEntries \<Longrightarrow>
   lines_outcome before entries
     (SnapshotLines (length before + length rest) (before @ rest @ [CHR 0x00]) (length before) entries)
     (rows_mounts (kMaxMountInfoEntries - length entries) (table_rows rest))"
proof (induction "length rest" arbitrary: before rest entries rule: less_induct)
  case less
  consider "rest = []" | "rest \<noteq> []" "CHR 0x0A \<notin> set rest"
    | line tail_text where "rest = line @ CHR 0x0A # tail_text" "CHR 0x0A \<notin> set line" by (metis split_list_first)
  thus ?case
  proof cases
    case 1
    thus ?thesis by (simp add: SnapshotLines_end lines_outcome_def table_rows_def)
  next
    case 2
    hence "table_rows rest = [rest]" by (simp add: table_rows_def split_on_free)
    thus ?thesis using SnapshotLines_last_row [OF 2(2,1) less.prems] by simp
  next
    case 3
    have IH: "length es \<le> kMaxMountInfoEntries \<Longrightarrow> lines_outcome b es
        (SnapshotLines (length b + length tail_text) (b @ tail_text @ [CHR 0x00]) (length b) es)
        (rows_mounts (kMaxMountInfoEntries - length es) (table_rows tail_text))" for b es
      by (rule less.hyps) (simp_all add: 3(1))
    show ?thesis
    proof (cases "line = []")
      case True
      have "table_rows rest = table_rows tail_text" by (simp add: table_rows_def 3(1) True)
      thus ?thesis using IH [OF less.prems, of "before @ [CHR 0x0A]"] SnapshotLines_empty [of before tail_text entries]
        by (auto simp: 3(1) True lines_outcome_def split: sum.splits dest: append_prefixD)
    next
      case False
      have "table_rows rest = line # table_rows tail_text"
        using False by (simp add: table_rows_def 3(1) split_on_append [OF 3(2)])
      thus ?thesis using SnapshotLines_row [OF 3(2) False less.prems IH, of before]
        by (simp add: 3(1) add.assoc)
    qed
  qed
qed

subsection \<open>The mount in charge of a path\<close>

definition serves :: "bool \<Rightarrow> string \<Rightarrow> MountPathIdentity \<times> 8 word \<Rightarrow> bool" where
  "serves exact path m \<longleftrightarrow>
     (if exact then mi_mountpoint (fst m) = path else IsPathOnMount path (mi_mountpoint (fst m)))"

text \<open>The mount in charge of a path: the innermost one above it, and among mounts at the same place the one
  listed last, which covers the others.\<close>

definition in_charge :: "(MountPathIdentity \<times> 8 word) list \<Rightarrow> bool \<Rightarrow> string \<Rightarrow> nat \<Rightarrow> bool" where
  "in_charge ms exact path i \<longleftrightarrow>
     i < length ms \<and> serves exact path (ms ! i) \<and>
     (\<forall>j < length ms. serves exact path (ms ! j) \<longrightarrow>
        length (mi_mountpoint (fst (ms ! j))) < length (mi_mountpoint (fst (ms ! i))) \<or>
        length (mi_mountpoint (fst (ms ! j))) = length (mi_mountpoint (fst (ms ! i))) \<and> j \<le> i)"

lemma in_charge_unique: "in_charge ms exact path i \<Longrightarrow> in_charge ms exact path j \<Longrightarrow> i = j"
  unfolding in_charge_def by (metis less_not_refl order_antisym order_less_asym)

definition selection_ok ::
  "(MountPathIdentity \<times> 8 word) list \<Rightarrow> bool \<Rightarrow> string \<Rightarrow> (nat \<times> nat) option \<Rightarrow> bool" where
  "selection_ok ms exact path selected \<longleftrightarrow>
     (case selected of
        None \<Rightarrow> \<forall>m \<in> set ms. \<not> serves exact path m
      | Some (i, n) \<Rightarrow> in_charge ms exact path i \<and> n = length (mi_mountpoint (fst (ms ! i))))"

lemma selection_skip:
  assumes "selection_ok ms exact path selected"
    and "\<not> serves exact path m \<or>
      \<not> exact \<and> (case selected of None \<Rightarrow> False | Some (_, n) \<Rightarrow> length (mi_mountpoint (fst m)) < n)"
  shows "selection_ok (ms @ [m]) exact path selected"
  using assms
  by (auto simp: selection_ok_def in_charge_def nth_append less_Suc_eq split: option.splits)

lemma selection_take:
  assumes ok: "selection_ok ms exact path selected" and m: "serves exact path m"
    and longer: "\<not> (\<not> exact \<and> (case selected of None \<Rightarrow> False | Some (_, n) \<Rightarrow> length (mi_mountpoint (fst m)) < n))"
  shows "selection_ok (ms @ [m]) exact path (Some (length ms, length (mi_mountpoint (fst m))))"
proof -
  have "length (mi_mountpoint (fst (ms ! j))) \<le> length (mi_mountpoint (fst m))"
    if "j < length ms" "serves exact path (ms ! j)" for j
  proof (cases exact)
    case True
    thus ?thesis using m that by (simp add: serves_def)
  next
    case False
    have "ms ! j \<in> set ms" using that(1) by simp
    with ok that(2) obtain i n where sel: "selected = Some (i, n)"
      by (cases selected) (auto simp: selection_ok_def)
    hence n: "n \<le> length (mi_mountpoint (fst m))" using longer False by simp
    have "in_charge ms exact path i" "n = length (mi_mountpoint (fst (ms ! i)))"
      using ok sel by (simp_all add: selection_ok_def)
    hence "length (mi_mountpoint (fst (ms ! j))) \<le> n" using that unfolding in_charge_def
      by (metis less_or_eq_imp_le)
    thus ?thesis using n by simp
  qed
  thus ?thesis using m by (auto simp: selection_ok_def in_charge_def nth_append le_less less_Suc_eq)
qed

lemma entry_mountpoint:
  "entry_shows txt e m \<Longrightarrow>
   DecodeToken txt (mountpoint_offset e) (mountpoint_length e) PATH_MAX = Some (mi_mountpoint (fst m))"
  "entry_shows txt e m \<Longrightarrow> DecodeToken txt (root_offset e) (root_length e) PATH_MAX = Some (mi_root (fst m))"
  "entry_shows txt e m \<Longrightarrow> take (filesystem_length e) (drop (filesystem_offset e) txt) = mi_filesystem (fst m)"
  using DecodeToken_slice by (fastforce simp: entry_shows_def) (fastforce simp: entry_shows_def DecodeToken_slice,
    simp add: entry_shows_def slice_at_def)

lemma FindEntryLoop_selection:
  assumes "list_all2 (entry_shows txt) es rest" "selection_ok ms exact path selected"
  shows "\<exists>selected'. selection_ok (ms @ rest) exact path selected' \<and>
    FindEntryLoop txt path exact selected (length ms) es =
      (case selected' of None \<Rightarrow> Inl ENOENT | Some (i, _) \<Rightarrow> Inr i)"
  using assms
proof (induction es arbitrary: rest ms selected)
  case Nil
  thus ?case by (intro exI [of _ selected]) simp
next
  case (Cons e es)
  then obtain m rest' where rest: "rest = m # rest'" and m: "entry_shows txt e m"
    and rest': "list_all2 (entry_shows txt) es rest'" by (auto simp: list_all2_Cons1)
  let ?skip = "\<not> serves exact path m \<or>
      \<not> exact \<and> (case selected of None \<Rightarrow> False | Some (_, n) \<Rightarrow> length (mi_mountpoint (fst m)) < n)"
  let ?selected = "if ?skip then selected else Some (length ms, length (mi_mountpoint (fst m)))"
  have "selection_ok (ms @ [m]) exact path ?selected"
    using selection_skip [OF Cons.prems(2), of m] selection_take [OF Cons.prems(2), of m] by auto
  from Cons.IH [OF rest' this] obtain selected' where "selection_ok (ms @ rest) exact path selected'"
    "FindEntryLoop txt path exact ?selected (length ms + 1) es =
      (case selected' of None \<Rightarrow> Inl ENOENT | Some (i, _) \<Rightarrow> Inr i)" by (auto simp: rest)
  moreover have "FindEntryLoop txt path exact selected (length ms) (e # es) =
      FindEntryLoop txt path exact ?selected (length ms + 1) es"
    by (simp add: entry_mountpoint [OF m] Let_def serves_def)
  ultimately show ?case by metis
qed

lemma ParseSnapshot_table:
  "case table_mounts bytes of
     Inl e \<Rightarrow> ParseSnapshot ns bytes = Inl e
   | Inr ms \<Rightarrow> \<exists>snap. ParseSnapshot ns bytes = Inr snap \<and> mapping snap \<and>
       (namespace_device snap, namespace_inode snap) = ns \<and>
       list_all2 (entry_shows (snapshot_text snap)) (snapshot_entries snap) ms"
proof -
  have t: "table_mounts bytes = (case rows_mounts kMaxMountInfoEntries (table_rows bytes) of
      Inl e \<Rightarrow> Inl e | Inr ms \<Rightarrow> if ms = [] then Inl ENODATA else Inr ms)"
    by (simp add: table_mounts_def rows_mounts_def table_rows_def Let_def split: option.split)
  have "lines_outcome [] [] (SnapshotLines (length bytes) (bytes @ [CHR 0x00]) 0 [])
      (rows_mounts kMaxMountInfoEntries (table_rows bytes))"
    using SnapshotLines_rows [of "[]" "[]" bytes] by simp
  thus ?thesis
    by (cases "rows_mounts kMaxMountInfoEntries (table_rows bytes)")
      (auto simp: t lines_outcome_def ParseSnapshot_def)
qed

lemma FindMountInfoPath_in_charge:
  assumes "mapping snap" and ents: "list_all2 (entry_shows (snapshot_text snap)) (snapshot_entries snap) ms"
  shows "case FindMountInfoPath snap path exact of
      Inl e \<Rightarrow> e = (if path = [] \<or> hd path \<noteq> CHR ''/'' then EINVAL else ENOENT) \<and>
        (e = ENOENT \<longrightarrow> (\<forall>m \<in> set ms. \<not> serves exact path m))
    | Inr identity \<Rightarrow> \<exists>i. in_charge ms exact path i \<and> identity = fst (ms ! i)"
proof (cases "path = [] \<or> hd path \<noteq> CHR ''/''")
  case True
  thus ?thesis by (simp add: FindMountInfoPath_def FindEntry_def)
next
  case False
  obtain selected where sel: "selection_ok ms exact path selected"
    "FindEntry snap path exact = (case selected of None \<Rightarrow> Inl ENOENT | Some (i, _) \<Rightarrow> Inr i)"
    using FindEntryLoop_selection [OF ents, of "[]" exact path None] False assms(1)
    by (auto simp: selection_ok_def FindEntry_def)
  show ?thesis
  proof (cases selected)
    case None
    thus ?thesis using sel False by (simp add: FindMountInfoPath_def selection_ok_def)
  next
    case (Some p)
    then obtain i n where i: "selected = Some (i, n)" "in_charge ms exact path i"
      using sel(1) by (cases p) (simp add: selection_ok_def)
    let ?e = "snapshot_entries snap ! i"
    have "entry_shows (snapshot_text snap) ?e (ms ! i)"
      using ents i(2) by (auto simp: in_charge_def list_all2_conv_all_nth)
    note e = this entry_mountpoint [OF this]
    hence "FindMountInfoPath snap path exact = Inr (fst (ms ! i))"
      using sel(2) i(1) by (simp add: FindMountInfoPath_def entry_shows_def)
    thus ?thesis using i(2) by auto
  qed
qed

lemma RequiresPrivate_in_charge:
  assumes "mapping snap" and ents: "list_all2 (entry_shows (snapshot_text snap)) (snapshot_entries snap) ms"
    and "MountInfoSnapshotRequiresPrivate snap path = Inr private"
  shows "\<exists>i. in_charge ms True path i \<and> private =
    (snd (ms ! i) AND kMountPropagationShared \<noteq> 0 \<and> snd (ms ! i) AND kMountPropagationMaster = 0)"
proof -
  obtain selected where sel: "selection_ok ms True path selected"
    "FindEntry snap path True = (case selected of None \<Rightarrow> Inl ENOENT | Some (i, _) \<Rightarrow> Inr i)"
    using FindEntryLoop_selection [OF ents, of "[]" True path None] assms(1,3)
    by (auto simp: selection_ok_def FindEntry_def MountInfoSnapshotRequiresPrivate_def split: if_splits)
  then obtain i n where i: "selected = Some (i, n)" "in_charge ms True path i"
    using assms(3) by (auto simp: MountInfoSnapshotRequiresPrivate_def selection_ok_def split: option.splits)
  have "entry_shows (snapshot_text snap) (snapshot_entries snap ! i) (ms ! i)"
    using ents i(2) by (auto simp: in_charge_def list_all2_conv_all_nth)
  thus ?thesis using i sel assms(3)
    by (auto simp: MountInfoSnapshotRequiresPrivate_def entry_shows_def Let_def)
qed

text \<open>Reading gives the bytes of the file however the calls split and interrupt it, up to the size limit.\<close>

definition answered_bytes :: "ReadAnswer \<Rightarrow> string" where
  "answered_bytes a = (case a of ReadBytes b \<Rightarrow> b | ReadError _ \<Rightarrow> [])"

theorem ReadMountInfo_any_split:
  assumes "\<forall>a \<in> set reads. a = ReadError EINTR \<or> (\<exists>b. a = ReadBytes b \<and> b \<noteq> [])"
    and "length (buffer @ concat (map answered_bytes reads)) \<le> kMaxMountInfoBytes"
  shows "ReadMountInfo buffer reads = Inr (buffer @ concat (map answered_bytes reads))"
  using assms
proof (induction reads arbitrary: buffer)
  case (Cons a reads)
  show ?case
  proof (cases "a = ReadError EINTR")
    case True
    show ?thesis
    proof (cases "length buffer \<ge> kMaxMountInfoBytes")
      case full: True
      have "length buffer + length (concat (map answered_bytes (a # reads))) \<le> kMaxMountInfoBytes"
        using Cons.prems(2) by (simp only: length_append)
      hence "length (concat (map answered_bytes (a # reads))) = 0" using full by linarith
      hence none: "\<forall>r \<in> set (a # reads). answered_bytes r = []" by (simp only: length_0_conv) simp
      hence "\<forall>r \<in> set (a # reads). r = ReadError EINTR"
        using Cons.prems(1) by (metis ReadAnswer.simps(6) answered_bytes_def)
      moreover have "ReadExtra rs = None" if "\<forall>r \<in> set rs. r = ReadError EINTR" for rs
        using that by (induction rs) auto
      ultimately have "ReadExtra (a # reads) = None" by blast
      moreover have "concat (map answered_bytes (a # reads)) = []" using none by simp
      ultimately show ?thesis using full by (simp only: ReadMountInfo.simps if_True) simp
    next
      case False
      thus ?thesis using Cons.IH [of buffer] Cons.prems True by (simp add: answered_bytes_def)
    qed
  next
    case False
    then obtain b where b: "a = ReadBytes b" "b \<noteq> []" using Cons.prems(1) by auto
    hence pos: "0 < length b" by simp
    have "length buffer + length b \<le> kMaxMountInfoBytes"
      using Cons.prems(2) by (simp add: b answered_bytes_def)
    hence "\<not> length buffer \<ge> kMaxMountInfoBytes" "\<not> length b > kMaxMountInfoBytes - length buffer"
      using pos by linarith+
    thus ?thesis using Cons.IH [of "buffer @ b"] Cons.prems b by (simp add: answered_bytes_def)
  qed
qed simp

text \<open>
  Claim C29.  The snapshot answers like the mount table.  When the table could be read, the capture fails
  with the error of the first bad line, of a table of more than 4096 lines or of an empty one, and otherwise
  gives a snapshot of the current namespace.  Every lookup in that snapshot is decided by the lines alone,
  although the buffer was cut into pieces in place: it finds the mount whose mount point is the deepest
  above the path, or equals it for an exact lookup, the last one listed among those at the same place, with
  the octal escapes of the line decoded; it never reports a damaged entry.
\<close>

theorem snapshot_lookup_exact:
  assumes "answer_mmap answers = None" "answer_namespace answers = Inr ns"
    and "answer_mountinfo answers = Inr reads" "ReadMountInfo [] reads = Inr bytes"
  shows "case table_mounts bytes of
      Inl e \<Rightarrow> CaptureMountInfoSnapshot answers = Inl e
    | Inr ms \<Rightarrow> \<exists>snap. CaptureMountInfoSnapshot answers = Inr snap \<and>
        MountInfoSnapshotMatchesCurrentNamespace (Inr ns) snap \<and>
        (\<forall>path exact.
          case FindMountInfoPath snap path exact of
            Inl e \<Rightarrow> if path = [] \<or> hd path \<noteq> CHR ''/'' then e = EINVAL
                     else e = ENOENT \<and> (\<forall>m \<in> set ms. \<not> serves exact path m)
          | Inr identity \<Rightarrow> \<exists>i. in_charge ms exact path i \<and> identity = fst (ms ! i))"
proof -
  have c: "CaptureMountInfoSnapshot answers = ParseSnapshot ns bytes"
    using assms by (simp add: CaptureMountInfoSnapshot_def)
  show ?thesis
  proof (cases "table_mounts bytes")
    case (Inl e)
    thus ?thesis using ParseSnapshot_table [where bytes = bytes and ns = ns] c by simp
  next
    case (Inr ms)
    then obtain snap where snap: "ParseSnapshot ns bytes = Inr snap" "mapping snap"
        "(namespace_device snap, namespace_inode snap) = ns"
        "list_all2 (entry_shows (snapshot_text snap)) (snapshot_entries snap) ms"
      using ParseSnapshot_table [where bytes = bytes and ns = ns] by auto
    have "case FindMountInfoPath snap path exact of
            Inl e \<Rightarrow> if path = [] \<or> hd path \<noteq> CHR ''/'' then e = EINVAL
                     else e = ENOENT \<and> (\<forall>m \<in> set ms. \<not> serves exact path m)
          | Inr identity \<Rightarrow> \<exists>i. in_charge ms exact path i \<and> identity = fst (ms ! i)" for path exact
      using FindMountInfoPath_in_charge [OF snap(2,4), of path exact] by (simp split: sum.splits if_splits)
    thus ?thesis using snap c Inr by (auto simp: MountInfoSnapshotMatchesCurrentNamespace_def)
  qed
qed

definition sample_table :: string where
  "sample_table = ''21 1 0:5 / /storage rw shared:3 - tmpfs none rw'' @ [CHR 0x0A] @
     ''34 21 0:41 /media /storage/my'' @ [CHR 0x5C] @ ''040card rw - fuse /dev/fuse rw'' @ [CHR 0x0A]"

definition sample_answers :: CaptureAnswers where
  "sample_answers = \<lparr>answer_mmap = None, answer_namespace = Inr (4, 77),
     answer_mountinfo = Inr [ReadError EINTR, ReadBytes sample_table]\<rparr>"

definition sample_mounts :: "(MountPathIdentity \<times> 8 word) list" where
  "sample_mounts =
     [(\<lparr>mi_mount_id = 21, mi_parent_mount_id = 1, mi_device = 5, mi_root = ''/'', mi_mountpoint = ''/storage'',
        mi_filesystem = ''tmpfs''\<rparr>, 1),
      (\<lparr>mi_mount_id = 34, mi_parent_mount_id = 21, mi_device = 41, mi_root = ''/media'',
        mi_mountpoint = ''/storage/my card'', mi_filesystem = ''fuse''\<rparr>, 0)]"

lemma sample_table_mounts: "table_mounts sample_table = Inr sample_mounts"
  by code_simp

lemma sample_read: "ReadMountInfo [] [ReadError EINTR, ReadBytes sample_table] = Inr sample_table"
  by code_simp

theorem snapshot_lookup_exact_witness:
  "\<exists>snap. CaptureMountInfoSnapshot sample_answers = Inr snap \<and>
     (case FindMountInfoPath snap ''/storage/my card/DCIM'' False of
        Inl e \<Rightarrow> e = ENOENT \<and> \<not> serves False ''/storage/my card/DCIM'' (sample_mounts ! 1)
      | Inr identity \<Rightarrow> \<exists>i. in_charge sample_mounts False ''/storage/my card/DCIM'' i \<and>
          identity = fst (sample_mounts ! i))"
proof -
  have "sample_mounts ! 1 \<in> set sample_mounts" by (simp add: sample_mounts_def)
  thus ?thesis
    using snapshot_lookup_exact [of sample_answers "(4, 77)", OF _ _ _ sample_read] sample_table_mounts
    by (fastforce simp: sample_answers_def split: sum.splits)
qed

end
