(* ===== verification/PG_Kernel.thy ===== *)
theory PG_Kernel
  imports PG_Snapshot PG_Runtime "HOL-Library.State_Monad"
begin

text \<open>
  The operating system as the module and the native library use it.  A \<open>kernel\<close> has one operation per
  system call (or library call that asks the system); each acts on a world of any type and may change it,
  so the answers may depend on everything that happened, other processes included.  Nothing is assumed of
  the answers, beyond their types: a new descriptor is a natural number, an error code is not zero.  \<open>logged\<close> wraps a kernel so that it records the successful calls that matter; statements
  about what a function does to the system are statements about that record, and hold for every kernel.
\<close>

abbreviation ret :: "'a \<Rightarrow> ('w, 'a) state" where "ret \<equiv> State_Monad.return"

subsection \<open>Data of the calls\<close>

record Stat =
  st_dev :: u64
  st_ino :: u64
  st_mode :: u32
  st_uid :: u32

definition S_IFMT :: u32 where "S_IFMT = 0xF000"

definition S_ISDIR :: "u32 \<Rightarrow> bool" where "S_ISDIR m \<longleftrightarrow> m AND S_IFMT = 0x4000"

definition S_ISLNK :: "u32 \<Rightarrow> bool" where "S_ISLNK m \<longleftrightarrow> m AND S_IFMT = 0xA000"

text \<open>The two flag sets of \<open>open\<close> and \<open>openat\<close>: \<open>O_PATH\<close> or \<open>O_RDONLY\<close>, each with
  \<open>O_DIRECTORY | O_NOFOLLOW | O_CLOEXEC\<close>.\<close>

datatype OpenMode = PathDirectory | ReadDirectory

datatype RuntimeReason =
  RuntimeNone | RuntimeCapabilityMissing | RuntimeLegacyNotAuthorized | RuntimeUnsupportedAction
  | TopologyChanged | PolicyChanged | PreflightFailed | ApplyFailed | RollbackFailed | OwnerDeath

datatype MountOperationStage =
  StageNone | Preflight | Apply | Verify | RollbackIdentity | RollbackUnmount | RollbackVerify

text \<open>\<open>MountPerfResult\<close> without its clocks.\<close>

record MountPerfResult =
  perf_result :: "errno option"
  perf_rule_count :: nat
  perf_backend :: MountBackendKind
  perf_backend_reason :: MountBackendReason
  perf_failure_stage :: MountOperationStage
  perf_rollback_failed :: bool
  perf_runtime_reason :: RuntimeReason
  perf_snapshot_count :: nat
  perf_topology_generation :: u64

subsection \<open>The calls\<close>

record 'w kernel =
  sys_lstat :: "string \<Rightarrow> ('w, errno + Stat) state"
  sys_stat :: "string \<Rightarrow> ('w, errno + Stat) state"
  sys_fstat :: "int \<Rightarrow> ('w, errno + Stat) state"
  sys_errno :: "('w, errno option) state"
  sys_open :: "string \<Rightarrow> ('w, errno + nat) state"
  sys_openat :: "OpenMode \<Rightarrow> int \<Rightarrow> string \<Rightarrow> ('w, errno + nat) state"
  sys_openat2 :: "int \<Rightarrow> string \<Rightarrow> ('w, errno + nat) state"
  sys_dup :: "int \<Rightarrow> ('w, errno + nat) state"
  sys_close :: "int \<Rightarrow> ('w, unit) state"
  sys_readlink :: "string \<Rightarrow> ('w, errno + string) state"
  sys_fdopendir :: "int \<Rightarrow> ('w, bool) state"
  sys_readdir :: "int \<Rightarrow> ('w, string list \<times> bool) state"
  sys_bind :: "string \<Rightarrow> string \<Rightarrow> ('w, errno option) state"
  sys_open_tree :: "int \<Rightarrow> ('w, errno + nat) state"
  sys_move_mount :: "int \<Rightarrow> int \<Rightarrow> ('w, errno option) state"
  sys_umount :: "string \<Rightarrow> ('w, errno option) state"
  sys_make_private :: "string \<Rightarrow> ('w, errno option) state"
  sys_capture :: "('w, CaptureAnswers) state"
  sys_namespace :: "('w, errno + u64 \<times> u64) state"
  sys_workspace :: "('w, errno option) state"
  sys_open_namespace :: "int \<Rightarrow> ('w, errno + nat) state"
  sys_setns :: "int \<Rightarrow> ('w, errno option) state"
  sys_status_lines :: "int \<Rightarrow> ('w, string list option) state"
  sys_stat_line :: "int \<Rightarrow> ('w, string option) state"
  sys_policy_file :: "('w, bytes option) state"
  sys_proc_entries :: "('w, string list option) state"
  sys_getpid :: "('w, int) state"
  sys_kill :: "int \<Rightarrow> ('w, bool) state"
  sys_sleep :: "nat \<Rightarrow> ('w, unit) state"
  sys_socketpair :: "('w, errno option) state"
  sys_fork :: "('w, errno + 'w) state"
  sys_unshare_private :: "('w, errno option) state"
  sys_receive :: "('w, bool) state"
  shared_load :: "('w, MountTransactionState) state"
  shared_exchange :: "MountTransactionState \<Rightarrow> MountTransactionState \<Rightarrow> ('w, bool) state"
  shared_store :: "MountPerfResult \<Rightarrow> ('w, unit) state"

subsection \<open>The record of a run\<close>

datatype event =
  Opened int | Closed int
  | Moved int int | Bound string string | Unmounted string | MadePrivate string
  | StatusSet MountTransactionState | Killed int

definition observe :: "('a \<Rightarrow> event list) \<Rightarrow> ('w, 'a) state \<Rightarrow> ('w \<times> event list, 'a) state" where
  "observe ev m = State (\<lambda>(w, l). case run_state m w of (a, w') \<Rightarrow> (a, (w', l @ ev a)))"

definition on_fd :: "errno + nat \<Rightarrow> event list" where
  "on_fd r = (case r of Inl _ \<Rightarrow> [] | Inr fd \<Rightarrow> [Opened (int fd)])"

definition on_ok :: "event \<Rightarrow> errno option \<Rightarrow> event list" where
  "on_ok e r = (if r = None then [e] else [])"

definition silent :: "'a \<Rightarrow> event list" where "silent a = []"

definition logged :: "'w kernel \<Rightarrow> ('w \<times> event list) kernel" where
  "logged k = \<lparr>
     sys_lstat = (\<lambda>p. observe silent (sys_lstat k p)),
     sys_stat = (\<lambda>p. observe silent (sys_stat k p)),
     sys_fstat = (\<lambda>fd. observe silent (sys_fstat k fd)),
     sys_errno = observe silent (sys_errno k),
     sys_open = (\<lambda>p. observe on_fd (sys_open k p)),
     sys_openat = (\<lambda>m fd p. observe on_fd (sys_openat k m fd p)),
     sys_openat2 = (\<lambda>fd p. observe on_fd (sys_openat2 k fd p)),
     sys_dup = (\<lambda>fd. observe on_fd (sys_dup k fd)),
     sys_close = (\<lambda>fd. observe (\<lambda>_. [Closed fd]) (sys_close k fd)),
     sys_readlink = (\<lambda>p. observe silent (sys_readlink k p)),
     sys_fdopendir = (\<lambda>fd. observe silent (sys_fdopendir k fd)),
     sys_readdir = (\<lambda>fd. observe silent (sys_readdir k fd)),
     sys_bind = (\<lambda>s t. observe (on_ok (Bound s t)) (sys_bind k s t)),
     sys_open_tree = (\<lambda>fd. observe on_fd (sys_open_tree k fd)),
     sys_move_mount = (\<lambda>s t. observe (on_ok (Moved s t)) (sys_move_mount k s t)),
     sys_umount = (\<lambda>p. observe (on_ok (Unmounted p)) (sys_umount k p)),
     sys_make_private = (\<lambda>p. observe (on_ok (MadePrivate p)) (sys_make_private k p)),
     sys_capture = observe silent (sys_capture k),
     sys_namespace = observe silent (sys_namespace k),
     sys_workspace = observe silent (sys_workspace k),
     sys_open_namespace = (\<lambda>pid. observe on_fd (sys_open_namespace k pid)),
     sys_setns = (\<lambda>fd. observe silent (sys_setns k fd)),
     sys_status_lines = (\<lambda>pid. observe silent (sys_status_lines k pid)),
     sys_stat_line = (\<lambda>pid. observe silent (sys_stat_line k pid)),
     sys_policy_file = observe silent (sys_policy_file k),
     sys_proc_entries = observe silent (sys_proc_entries k),
     sys_getpid = observe silent (sys_getpid k),
     sys_kill = (\<lambda>pid. observe (\<lambda>ok. if ok then [Killed pid] else []) (sys_kill k pid)),
     sys_sleep = (\<lambda>n. observe silent (sys_sleep k n)),
     sys_socketpair = observe silent (sys_socketpair k),
     sys_fork = State (\<lambda>(w, l). case run_state (sys_fork k) w of
                  (r, w') \<Rightarrow> (map_sum id (\<lambda>child. (child, [])) r, (w', l))),
     sys_unshare_private = observe silent (sys_unshare_private k),
     sys_receive = observe silent (sys_receive k),
     shared_load = observe silent (shared_load k),
     shared_exchange = (\<lambda>a b. observe (\<lambda>ok. if ok then [StatusSet b] else []) (shared_exchange k a b)),
     shared_store = (\<lambda>r. observe silent (shared_store k r))\<rparr>"

text \<open>\<open>emits obs m Q\<close>: every run of \<open>m\<close> appends events to the record, and its result and the appended events
  that \<open>obs\<close> selects satisfy \<open>Q\<close>.\<close>

definition emits ::
  "(event \<Rightarrow> bool) \<Rightarrow> ('w \<times> event list, 'a) state \<Rightarrow> ('a \<Rightarrow> event list \<Rightarrow> bool) \<Rightarrow> bool" where
  "emits obs m Q \<longleftrightarrow>
     (\<forall>w l. case run_state m (w, l) of
        (a, (w', l')) \<Rightarrow> \<exists>es. l' = l @ es \<and> Q a (filter obs es))"

named_theorems emits_intro \<open>rules of the event logic\<close>

lemma emits_ret [emits_intro]: "Q a [] \<Longrightarrow> emits obs (ret a) Q"
  by (simp add: emits_def)

lemma emits_bind:
  assumes "emits obs m P" "\<And>a e. P a e \<Longrightarrow> emits obs (f a) (\<lambda>b e'. Q b (e @ e'))"
  shows "emits obs (State_Monad.bind m f) Q"
  unfolding emits_def
proof (intro allI)
  fix w l
  obtain a w1 l1 where m: "run_state m (w, l) = (a, (w1, l1))" by (metis surj_pair)
  then obtain es where es: "l1 = l @ es" "P a (filter obs es)"
    using assms(1) by (auto simp: emits_def dest!: spec [of _ w] spec [of _ l])
  obtain b w2 l2 where f: "run_state (f a) (w1, l1) = (b, (w2, l2))" by (metis surj_pair)
  then obtain es' where "l2 = l1 @ es'" "Q b (filter obs es @ filter obs es')"
    using assms(2) [OF es(2)] by (auto simp: emits_def dest!: spec [of _ w1] spec [of _ l1])
  thus "case run_state (State_Monad.bind m f) (w, l) of
      (a, w', l') \<Rightarrow> \<exists>es. l' = l @ es \<and> Q a (filter obs es)"
    using m f es by (auto intro!: exI [of _ "es @ es'"])
qed

lemma emits_weaken: "emits obs m P \<Longrightarrow> (\<And>a e. P a e \<Longrightarrow> Q a e) \<Longrightarrow> emits obs m Q"
  using emits_bind [of obs m P ret Q] by (simp add: emits_ret)

lemma emits_runD:
  assumes "emits obs m Q" "run_state m (w, l) = (a, (w', l'))"
  obtains es where "l' = l @ es" "Q a (filter obs es)"
proof -
  have "case run_state m (w, l) of (a, (w', l')) \<Rightarrow> \<exists>es. l' = l @ es \<and> Q a (filter obs es)"
    using assms(1) by (simp add: emits_def)
  thus thesis using that assms(2) by auto
qed

lemma emits_wp [emits_intro]:
  "emits obs m (\<lambda>a e. emits obs (f a) (\<lambda>b e'. Q b (e @ e'))) \<Longrightarrow> emits obs (State_Monad.bind m f) Q"
  by (erule emits_bind)

lemma emits_observe [emits_intro]:
  "(\<And>a. Q a (filter obs (ev a))) \<Longrightarrow> emits obs (observe ev m) Q"
  by (auto simp: emits_def observe_def split: prod.splits)

lemma emits_if [emits_intro]:
  "(b \<Longrightarrow> emits obs m Q) \<Longrightarrow> (\<not> b \<Longrightarrow> emits obs m' Q) \<Longrightarrow> emits obs (if b then m else m') Q"
  by simp

lemma emits_case_sum [emits_intro]:
  "(\<And>a. s = Inl a \<Longrightarrow> emits obs (f a) Q) \<Longrightarrow> (\<And>b. s = Inr b \<Longrightarrow> emits obs (g b) Q) \<Longrightarrow>
   emits obs (case s of Inl a \<Rightarrow> f a | Inr b \<Rightarrow> g b) Q"
  by (cases s) simp_all

lemma emits_case_option [emits_intro]:
  "(s = None \<Longrightarrow> emits obs m Q) \<Longrightarrow> (\<And>b. s = Some b \<Longrightarrow> emits obs (g b) Q) \<Longrightarrow>
   emits obs (case s of None \<Rightarrow> m | Some b \<Rightarrow> g b) Q"
  by (cases s) simp_all

lemma emits_case_prod [emits_intro]:
  "(\<And>a b. s = (a, b) \<Longrightarrow> emits obs (f a b) Q) \<Longrightarrow> emits obs (case s of (a, b) \<Rightarrow> f a b) Q"
  by (cases s) simp

lemma emits_fork [emits_intro]:
  "(\<And>r. Q r []) \<Longrightarrow> emits obs (sys_fork (logged k)) Q"
  by (auto simp: emits_def logged_def split: prod.splits)

text \<open>The calls of a logged kernel.\<close>

lemma logged_calls:
  "sys_lstat (logged k) p = observe silent (sys_lstat k p)"
  "sys_stat (logged k) p = observe silent (sys_stat k p)"
  "sys_fstat (logged k) fd = observe silent (sys_fstat k fd)"
  "sys_errno (logged k) = observe silent (sys_errno k)"
  "sys_open (logged k) p = observe on_fd (sys_open k p)"
  "sys_openat (logged k) m fd p = observe on_fd (sys_openat k m fd p)"
  "sys_openat2 (logged k) fd p = observe on_fd (sys_openat2 k fd p)"
  "sys_dup (logged k) fd = observe on_fd (sys_dup k fd)"
  "sys_close (logged k) fd = observe (\<lambda>_. [Closed fd]) (sys_close k fd)"
  "sys_readlink (logged k) p = observe silent (sys_readlink k p)"
  "sys_fdopendir (logged k) fd = observe silent (sys_fdopendir k fd)"
  "sys_readdir (logged k) fd = observe silent (sys_readdir k fd)"
  "sys_bind (logged k) a b = observe (on_ok (Bound a b)) (sys_bind k a b)"
  "sys_open_tree (logged k) fd = observe on_fd (sys_open_tree k fd)"
  "sys_move_mount (logged k) s t = observe (on_ok (Moved s t)) (sys_move_mount k s t)"
  "sys_umount (logged k) p = observe (on_ok (Unmounted p)) (sys_umount k p)"
  "sys_make_private (logged k) p = observe (on_ok (MadePrivate p)) (sys_make_private k p)"
  "sys_capture (logged k) = observe silent (sys_capture k)"
  "sys_namespace (logged k) = observe silent (sys_namespace k)"
  "sys_workspace (logged k) = observe silent (sys_workspace k)"
  "sys_open_namespace (logged k) pid = observe on_fd (sys_open_namespace k pid)"
  "sys_setns (logged k) fd = observe silent (sys_setns k fd)"
  "sys_status_lines (logged k) pid = observe silent (sys_status_lines k pid)"
  "sys_stat_line (logged k) pid = observe silent (sys_stat_line k pid)"
  "sys_policy_file (logged k) = observe silent (sys_policy_file k)"
  "sys_proc_entries (logged k) = observe silent (sys_proc_entries k)"
  "sys_getpid (logged k) = observe silent (sys_getpid k)"
  "sys_kill (logged k) pid = observe (\<lambda>ok. if ok then [Killed pid] else []) (sys_kill k pid)"
  "sys_sleep (logged k) n = observe silent (sys_sleep k n)"
  "sys_socketpair (logged k) = observe silent (sys_socketpair k)"
  "sys_unshare_private (logged k) = observe silent (sys_unshare_private k)"
  "sys_receive (logged k) = observe silent (sys_receive k)"
  "shared_load (logged k) = observe silent (shared_load k)"
  "shared_exchange (logged k) a' b' = observe (\<lambda>ok. if ok then [StatusSet b'] else []) (shared_exchange k a' b')"
  "shared_store (logged k) r = observe silent (shared_store k r)"
  by (simp_all add: logged_def)

lemmas event_simps = silent_def on_fd_def on_ok_def

end
