(* ===== verification/PG_Executor.thy ===== *)
theory PG_Executor
  imports PG_Kernel
begin

text \<open>
  The native library that pins directories and makes the mounts: \<open>native/directory_resolver.cpp\<close> and
  \<open>native/mount_executor.cpp\<close>, over the calls of \<open>PG_Kernel\<close>.  The theorems are about every kernel: which
  descriptors are open afterwards, and which mounts were made and taken away.  Clocks are left out.
\<close>

subsection \<open>Directory descriptors (\<open>native/directory_resolver.cpp\<close>)\<close>

definition NAME_MAX :: nat where "NAME_MAX = 255"

text \<open>The loop over the components of a path, from the text at the current component on.\<close>

function ValidComponents :: "string \<Rightarrow> bool" where
  "ValidComponents component =
     (if component = [] then True
      else let part = takeWhile (\<lambda>c. c \<noteq> CHR ''/'') component in
           if part = [] \<or> length part > NAME_MAX \<or> part = ''.'' \<or> part = ''..'' then False
           else case dropWhile (\<lambda>c. c \<noteq> CHR ''/'') component of
                  [] \<Rightarrow> True
                | _ # rest \<Rightarrow> ValidComponents rest)"
  by pat_completeness auto
termination
  by (relation "measure length") (auto dest: length_dropWhile_Cons)

declare ValidComponents.simps [simp del]

definition ValidLogicalPath :: "string \<Rightarrow> bool" where
  "ValidLogicalPath path =
     (if (path \<noteq> [] \<and> hd path = CHR ''/'') \<or> CHR 0x5C \<in> set path then False
      else if path = [] then True else ValidComponents path)"

record DirectoryResolveResult =
  resolved_fd :: int
  resolve_error :: "errno option"
  resolve_capability :: u64

definition resolve_failed :: "errno \<Rightarrow> DirectoryResolveResult" where
  "resolve_failed e = \<lparr>resolved_fd = -1, resolve_error = Some e, resolve_capability = 0\<rparr>"

function WalkLoop :: "'w kernel \<Rightarrow> int \<Rightarrow> string \<Rightarrow> ('w, DirectoryResolveResult) state" where
  "WalkLoop k current component =
     (if component = []
      then ret \<lparr>resolved_fd = current, resolve_error = None, resolve_capability = kCapabilityComponentFdWalk\<rparr>
      else do {
        next \<leftarrow> sys_openat k PathDirectory current (takeWhile (\<lambda>c. c \<noteq> CHR ''/'') component);
        case next of
          Inl e \<Rightarrow> do { sys_close k current; ret (resolve_failed e) }
        | Inr fd \<Rightarrow> do {
            sys_close k current;
            case dropWhile (\<lambda>c. c \<noteq> CHR ''/'') component of
              [] \<Rightarrow> ret \<lparr>resolved_fd = int fd, resolve_error = None, resolve_capability = kCapabilityComponentFdWalk\<rparr>
            | _ # rest \<Rightarrow> WalkLoop k (int fd) rest } })"
  by pat_completeness auto
termination
  by (relation "measure (\<lambda>(k, current, component). length component)") (auto dest: length_dropWhile_Cons)

declare WalkLoop.simps [simp del]

definition WalkDirectoryComponents :: "'w kernel \<Rightarrow> int \<Rightarrow> string \<Rightarrow> ('w, DirectoryResolveResult) state" where
  "WalkDirectoryComponents k root_fd logical_path = do {
     r \<leftarrow> sys_dup k root_fd;
     case r of
       Inl e \<Rightarrow> ret (resolve_failed e)
     | Inr current \<Rightarrow> WalkLoop k (int current) logical_path }"

definition OpenAt2Unavailable :: "errno \<Rightarrow> bool" where
  "OpenAt2Unavailable e \<longleftrightarrow> e = ENOSYS \<or> e = EINVAL \<or> e = EPERM \<or> e = EACCES"

definition OpenDirectoryRoot :: "'w kernel \<Rightarrow> string \<Rightarrow> ('w, DirectoryResolveResult) state" where
  "OpenDirectoryRoot k absolute_path =
     (if absolute_path = [] \<or> hd absolute_path \<noteq> CHR ''/'' then ret (resolve_failed EINVAL)
      else do {
        r \<leftarrow> sys_open k absolute_path;
        ret (case r of
          Inl e \<Rightarrow> resolve_failed e
        | Inr fd \<Rightarrow> \<lparr>resolved_fd = int fd, resolve_error = None, resolve_capability = 0\<rparr>) })"

definition ResolveDirectoryBeneath ::
  "'w kernel \<Rightarrow> int \<Rightarrow> string \<Rightarrow> bool \<Rightarrow> ('w, DirectoryResolveResult) state" where
  "ResolveDirectoryBeneath k root_fd logical_path force_component_walk =
     (if root_fd < 0 \<or> \<not> ValidLogicalPath logical_path then ret (resolve_failed EINVAL)
      else if \<not> force_component_walk \<and> logical_path \<noteq> [] then do {
        r \<leftarrow> sys_openat2 k root_fd logical_path;
        case r of
          Inr fd \<Rightarrow> ret \<lparr>resolved_fd = int fd, resolve_error = None, resolve_capability = kCapabilityOpenAt2\<rparr>
        | Inl e \<Rightarrow>
            if \<not> OpenAt2Unavailable e then ret (resolve_failed e)
            else WalkDirectoryComponents k root_fd logical_path }
      else WalkDirectoryComponents k root_fd logical_path)"

subsection \<open>Data of the executor (\<open>native/mount_executor.cpp\<close>)\<close>

definition no_identity :: MountPathIdentity where
  "no_identity = \<lparr>mi_mount_id = 0, mi_parent_mount_id = 0, mi_device = 0, mi_root = [], mi_mountpoint = [],
     mi_filesystem = []\<rparr>"

record PinnedIdentity =
  pin_fd :: int
  pin_device :: u64
  pin_inode :: u64
  pin_mount :: MountPathIdentity
  expected_bind_root :: string

definition no_pin :: PinnedIdentity where
  "no_pin = \<lparr>pin_fd = -1, pin_device = 0, pin_inode = 0, pin_mount = no_identity, expected_bind_root = []\<rparr>"

record AppliedMount =
  applied_backend :: MountBackendKind
  applied_target :: string
  applied_mount_id :: u64
  applied_operation :: nat

record MountError =
  err_stage :: MountOperationStage
  err_backend :: MountBackendKind
  err_operation :: nat
  err_error :: "errno option"
  err_expected :: u64
  err_actual :: u64
  err_mutation :: bool
  err_confirmed :: bool

definition no_error :: MountError where
  "no_error = \<lparr>err_stage = StageNone, err_backend = BackendUnsupported, err_operation = 0, err_error = None,
     err_expected = 0, err_actual = 0, err_mutation = False, err_confirmed = False\<rparr>"

record MountBackendProbeStep =
  before_error :: "errno option"
  before_count :: nat
  apply_error :: "errno option"
  stat_error :: "errno option"
  identity_match :: bool
  after_error :: "errno option"
  after_count :: nat
  mounted_id :: u64
  verify_error :: "errno option"
  rollback_error :: "errno option"
  remaining_error :: "errno option"
  remaining_id :: u64
  probe_success :: bool

definition no_step :: MountBackendProbeStep where
  "no_step = \<lparr>before_error = None, before_count = 0, apply_error = None, stat_error = None,
     identity_match = False, after_error = None, after_count = 0, mounted_id = 0, verify_error = None,
     rollback_error = None, remaining_error = None, remaining_id = 0, probe_success = False\<rparr>"

record MountBackendProbe =
  probe_capabilities :: MountBackendCapabilities
  probe_error :: "errno option"
  probe_open_tree :: MountBackendProbeStep
  probe_proc_fd :: MountBackendProbeStep
  probe_legacy_string :: MountBackendProbeStep

definition no_probe :: MountBackendProbe where
  "no_probe = \<lparr>probe_capabilities = \<lparr>primitives = 0, strict_actions = 0, legacy_actions = 0\<rparr>, probe_error = None,
     probe_open_tree = no_step, probe_proc_fd = no_step, probe_legacy_string = no_step\<rparr>"

subsection \<open>Helpers of the executor\<close>

text \<open>\<open>snprintf\<close> of a text into a \<open>PATH_MAX\<close> buffer keeps what fits.\<close>

definition path_buffer :: "string \<Rightarrow> string" where
  "path_buffer s = take (PATH_MAX - 1) s"

definition int_string :: "int \<Rightarrow> string" where
  "int_string i = (if i < 0 then CHR ''-'' # to_string (nat (- i)) else to_string (nat i))"

definition BuildProcFdPath :: "int \<Rightarrow> nat \<Rightarrow> errno + string" where
  "BuildProcFdPath fd output_size =
     (if fd < 0 \<or> output_size = 0 then Inl EINVAL
      else let written = ''/proc/self/fd/'' @ int_string fd in
           if length written < output_size then Inr written else Inl ENAMETOOLONG)"

definition SameObject :: "Stat \<Rightarrow> PinnedIdentity \<Rightarrow> bool" where
  "SameObject v identity \<longleftrightarrow>
     S_ISDIR (st_mode v) \<and> st_dev v = pin_device identity \<and> st_ino v = pin_inode identity"

definition BuildExpectedBindRoot :: "string \<Rightarrow> string \<Rightarrow> string \<Rightarrow> nat \<Rightarrow> errno + string" where
  "BuildExpectedBindRoot absolute_path mount_point root capacity =
     (if \<not> IsPathOnMount absolute_path mount_point then Inl EXDEV
      else
        let suf = (if mount_point = ''/'' then absolute_path else drop (length mount_point) absolute_path);
            written = (if suf = [] then root
                       else if root = ''/'' then suf
                       else root @ (if hd suf = CHR ''/'' then [] else ''/'') @ suf)
        in if 0 < length written \<and> length written < capacity then Inr written else Inl ENAMETOOLONG)"

definition BindMountDirectoryFds :: "'w kernel \<Rightarrow> int \<Rightarrow> int \<Rightarrow> ('w, errno option) state" where
  "BindMountDirectoryFds k source_fd target_fd =
     (case BuildProcFdPath source_fd 64 of
        Inl e \<Rightarrow> ret (Some e)
      | Inr source \<Rightarrow>
          (case BuildProcFdPath target_fd 64 of
             Inl e \<Rightarrow> ret (Some e)
           | Inr target \<Rightarrow> sys_bind k source target))"

definition MoveMountDirectoryFds :: "'w kernel \<Rightarrow> int \<Rightarrow> int \<Rightarrow> ('w, errno option) state" where
  "MoveMountDirectoryFds k source_fd target_fd =
     (if source_fd < 0 \<or> target_fd < 0 then ret (Some EINVAL)
      else do {
        tree \<leftarrow> sys_open_tree k source_fd;
        case tree of
          Inl e \<Rightarrow> ret (Some e)
        | Inr tree_fd \<Rightarrow> do {
            error \<leftarrow> sys_move_mount k (int tree_fd) target_fd;
            sys_close k (int tree_fd);
            ret error } })"

definition UnmountDirectoryFd :: "'w kernel \<Rightarrow> int \<Rightarrow> ('w, errno option) state" where
  "UnmountDirectoryFd k target_fd =
     (case BuildProcFdPath target_fd 64 of
        Inl e \<Rightarrow> ret (Some e)
      | Inr target \<Rightarrow> sys_umount k target)"

definition ApplyRaw ::
  "'w kernel \<Rightarrow> MountBackendKind \<Rightarrow> int \<Rightarrow> int \<Rightarrow> string \<Rightarrow> string \<Rightarrow> ('w, errno option) state" where
  "ApplyRaw k backend source_fd target_fd source target =
     (case backend of
        StrictOpenTree \<Rightarrow> MoveMountDirectoryFds k source_fd target_fd
      | StrictProcFd \<Rightarrow> BindMountDirectoryFds k source_fd target_fd
      | LegacyString \<Rightarrow> sys_bind k source target
      | BackendUnsupported \<Rightarrow> ret (Some ENOTSUP))"

subsection \<open>Snapshots and pinned directories\<close>

definition Capture :: "'w kernel \<Rightarrow> ('w, errno + MountInfoSnapshot) state" where
  "Capture k = do { answers \<leftarrow> sys_capture k; ret (CaptureMountInfoSnapshot answers) }"

definition NamespaceMatches :: "'w kernel \<Rightarrow> MountInfoSnapshot \<Rightarrow> ('w, bool) state" where
  "NamespaceMatches k snapshot =
     (if \<not> mapping snapshot then ret False
      else do {
        current \<leftarrow> sys_namespace k;
        ret (MountInfoSnapshotMatchesCurrentNamespace current snapshot) })"

definition ClosePinnedIdentity :: "'w kernel \<Rightarrow> PinnedIdentity \<Rightarrow> ('w, PinnedIdentity) state" where
  "ClosePinnedIdentity k identity =
     (if pin_fd identity \<ge> 0 then do { sys_close k (pin_fd identity); ret no_pin } else ret no_pin)"

definition PinMount ::
  "'w kernel \<Rightarrow> MountInfoSnapshot \<Rightarrow> string \<Rightarrow> int \<Rightarrow> Stat \<Rightarrow> ('w, errno + PinnedIdentity) state" where
  "PinMount k snapshot absolute_path fd pinned =
     (let identity = no_pin\<lparr>pin_fd := fd, pin_device := st_dev pinned, pin_inode := st_ino pinned\<rparr> in
      case FindMountInfoPath snapshot absolute_path False of
        Inl e \<Rightarrow> do { ClosePinnedIdentity k identity; ret (Inl e) }
      | Inr mount \<Rightarrow>
          if mi_device mount \<noteq> st_dev pinned then do { ClosePinnedIdentity k identity; ret (Inl EXDEV) }
          else (case BuildExpectedBindRoot absolute_path (mi_mountpoint mount) (mi_root mount) PATH_MAX of
                  Inl e \<Rightarrow> do { ClosePinnedIdentity k identity; ret (Inl e) }
                | Inr root \<Rightarrow> ret (Inr (identity\<lparr>pin_mount := mount, expected_bind_root := root\<rparr>))))"

definition PinDirectory ::
  "'w kernel \<Rightarrow> MountInfoSnapshot \<Rightarrow> string \<Rightarrow> ('w, errno + PinnedIdentity) state" where
  "PinDirectory k snapshot absolute_path =
     (if absolute_path = [] \<or> hd absolute_path \<noteq> CHR ''/'' then ret (Inl EINVAL)
      else do {
        r \<leftarrow> sys_lstat k absolute_path;
        case r of
          Inl e \<Rightarrow> ret (Inl e)
        | Inr before \<Rightarrow>
            if \<not> S_ISDIR (st_mode before) \<or> S_ISLNK (st_mode before) then ret (Inl ENOTDIR)
            else do {
              root \<leftarrow> OpenDirectoryRoot k ''/'';
              case resolve_error root of
                Some e \<Rightarrow> ret (Inl e)
              | None \<Rightarrow> do {
                  resolved \<leftarrow> ResolveDirectoryBeneath k (resolved_fd root) (tl absolute_path) True;
                  sys_close k (resolved_fd root);
                  case resolve_error resolved of
                    Some e \<Rightarrow> ret (Inl e)
                  | None \<Rightarrow> do {
                      p \<leftarrow> sys_fstat k (resolved_fd resolved);
                      case p of
                        Inl e \<Rightarrow> do { sys_close k (resolved_fd resolved); ret (Inl e) }
                      | Inr pinned \<Rightarrow>
                          if \<not> S_ISDIR (st_mode pinned) \<or> st_dev pinned \<noteq> st_dev before \<or>
                             st_ino pinned \<noteq> st_ino before
                          then do {
                            stale \<leftarrow> sys_errno k;
                            sys_close k (resolved_fd resolved);
                            ret (Inl (case stale of None \<Rightarrow> ESTALE | Some e \<Rightarrow> e)) }
                          else PinMount k snapshot absolute_path (resolved_fd resolved) pinned } } } })"

definition VerifyPinnedDirectory :: "'w kernel \<Rightarrow> string \<Rightarrow> PinnedIdentity \<Rightarrow> ('w, errno option) state" where
  "VerifyPinnedDirectory k absolute_path identity = do {
     r \<leftarrow> sys_lstat k absolute_path;
     ret (case r of
       Inl e \<Rightarrow> Some e
     | Inr v \<Rightarrow> if SameObject v identity then None else Some ESTALE) }"

subsection \<open>Applying and verifying a mount\<close>

text \<open>\<open>MountApplyResult\<close> is the pair of the recorded mount and the failure.\<close>

definition ApplyDirectoryMountRaw ::
  "'w kernel \<Rightarrow> MountBackendKind \<Rightarrow> nat \<Rightarrow> PinnedIdentity \<Rightarrow> PinnedIdentity \<Rightarrow> string \<Rightarrow> string \<Rightarrow>
   ('w, AppliedMount \<times> MountError) state" where
  "ApplyDirectoryMountRaw k backend operation_id source target source_locator target_locator =
     (let mount = \<lparr>applied_backend = backend, applied_target = path_buffer target_locator,
                   applied_mount_id = 0, applied_operation = operation_id\<rparr>;
          failure = no_error\<lparr>err_backend := backend, err_operation := operation_id\<rparr>
      in if pin_fd source < 0 \<or> pin_fd target < 0
         then ret (mount, failure\<lparr>err_stage := Preflight, err_error := Some EINVAL\<rparr>)
         else do {
           error \<leftarrow> (if backend = LegacyString then do {
                       e1 \<leftarrow> VerifyPinnedDirectory k source_locator source;
                       if e1 \<noteq> None then ret e1 else VerifyPinnedDirectory k target_locator target }
                     else ret None);
           if error \<noteq> None then ret (mount, failure\<lparr>err_stage := Preflight, err_error := error\<rparr>)
           else do {
             error \<leftarrow> ApplyRaw k backend (pin_fd source) (pin_fd target) source_locator target_locator;
             if error \<noteq> None then ret (mount, failure\<lparr>err_stage := Apply, err_error := error\<rparr>)
             else ret (mount, failure\<lparr>err_mutation := True\<rparr>) } })"

definition expected_parent :: "string \<Rightarrow> PinnedIdentity \<Rightarrow> u64" where
  "expected_parent target_locator target =
     (if target_locator = mi_mountpoint (pin_mount target) then mi_parent_mount_id (pin_mount target)
      else mi_mount_id (pin_mount target))"

definition VerifyDirectoryMount ::
  "'w kernel \<Rightarrow> MountInfoSnapshot \<Rightarrow> MountInfoSnapshot \<Rightarrow> PinnedIdentity \<Rightarrow> PinnedIdentity \<Rightarrow> string \<Rightarrow>
   AppliedMount \<Rightarrow> nat \<Rightarrow> ('w, MountError \<times> AppliedMount) state" where
  "VerifyDirectoryMount k before_snapshot after_snapshot source target target_locator applied expected_mount_count =
     (let failure = no_error\<lparr>err_stage := Verify, err_backend := applied_backend applied,
                             err_operation := applied_operation applied, err_mutation := True\<rparr>
      in do {
        matches \<leftarrow> (if target_locator = [] \<or> \<not> mapping before_snapshot \<or> \<not> mapping after_snapshot \<or>
                       namespace_device before_snapshot \<noteq> namespace_device after_snapshot \<or>
                       namespace_inode before_snapshot \<noteq> namespace_inode after_snapshot
                    then ret False else NamespaceMatches k after_snapshot);
        if \<not> matches then ret (failure\<lparr>err_error := Some ESTALE\<rparr>, applied)
        else
          let found = FindMountInfoPath after_snapshot target_locator True;
              mounted = (case found of Inl _ \<Rightarrow> no_identity | Inr m \<Rightarrow> m);
              applied' = applied\<lparr>applied_mount_id := mi_mount_id mounted\<rparr>;
              failure' = failure\<lparr>err_actual := mi_mount_id mounted\<rparr>
          in do {
            error \<leftarrow> (case found of
              Inl e \<Rightarrow> ret (Some e)
            | Inr _ \<Rightarrow>
                if applied_backend applied = LegacyString then do {
                  s \<leftarrow> sys_stat k target_locator;
                  ret (case s of
                    Inl e \<Rightarrow> Some e
                  | Inr target_stat \<Rightarrow>
                      if \<not> SameObject target_stat source then Some EXDEV
                      else if expected_mount_count = 0 \<or>
                              length (snapshot_entries after_snapshot) \<noteq>
                                length (snapshot_entries before_snapshot) + expected_mount_count
                      then Some EBADMSG else None) }
                else ret None);
            let error =
              (if error = None \<and>
                  (mi_mount_id mounted = 0 \<or> mi_root mounted = [] \<or>
                   mi_root mounted \<noteq> expected_bind_root source \<or> mi_device mounted \<noteq> pin_device source \<or>
                   mi_filesystem mounted \<noteq> mi_filesystem (pin_mount source))
               then Some EXDEV else error) in
            let error =
              (if error = None \<and>
                  (expected_parent target_locator target = 0 \<or>
                   mi_parent_mount_id mounted \<noteq> expected_parent target_locator target)
               then Some EXDEV else error) in
            ret (if error \<noteq> None then (failure'\<lparr>err_error := error\<rparr>, applied')
                 else (failure'\<lparr>err_stage := StageNone, err_error := None, err_confirmed := True\<rparr>, applied')) } })"

subsection \<open>Rollback\<close>

definition ValidateRollbackDirectoryMount ::
  "'w kernel \<Rightarrow> AppliedMount \<Rightarrow> MountInfoSnapshot \<Rightarrow> ('w, MountError) state" where
  "ValidateRollbackDirectoryMount k applied snapshot =
     (let failure = no_error\<lparr>err_backend := applied_backend applied, err_operation := applied_operation applied,
                             err_expected := applied_mount_id applied, err_mutation := True\<rparr>
      in if applied_mount_id applied = 0
         then ret (failure\<lparr>err_stage := RollbackIdentity, err_error := Some ESTALE\<rparr>)
         else do {
           matches \<leftarrow> NamespaceMatches k snapshot;
           let found = (if matches then FindMountInfoPath snapshot (applied_target applied) True else Inl ESTALE);
               current = (case found of Inl _ \<Rightarrow> no_identity | Inr m \<Rightarrow> m);
               error = (case found of Inl e \<Rightarrow> Some e | Inr _ \<Rightarrow> None) in
           if error \<noteq> None \<or> mi_mount_id current = 0 \<or> mi_mount_id current \<noteq> applied_mount_id applied
           then ret (failure\<lparr>err_stage := RollbackIdentity,
                             err_error := (if error \<noteq> None then error else Some ESTALE),
                             err_actual := mi_mount_id current\<rparr>)
           else ret (failure\<lparr>err_confirmed := True, err_actual := mi_mount_id current\<rparr>) })"

definition UnmountValidatedDirectoryMount :: "'w kernel \<Rightarrow> AppliedMount \<Rightarrow> ('w, MountError) state" where
  "UnmountValidatedDirectoryMount k applied =
     (let failure = no_error\<lparr>err_backend := applied_backend applied, err_operation := applied_operation applied,
                             err_expected := applied_mount_id applied, err_actual := applied_mount_id applied,
                             err_mutation := True, err_confirmed := True\<rparr>
      in do {
        r \<leftarrow> sys_umount k (applied_target applied);
        ret (if r \<noteq> None then failure\<lparr>err_stage := RollbackUnmount, err_error := r\<rparr> else failure) })"

definition VerifyRollbackDirectoryMount ::
  "'w kernel \<Rightarrow> AppliedMount \<Rightarrow> MountInfoSnapshot \<Rightarrow> ('w, MountError) state" where
  "VerifyRollbackDirectoryMount k applied snapshot =
     (let failure = no_error\<lparr>err_backend := applied_backend applied, err_operation := applied_operation applied,
                             err_expected := applied_mount_id applied, err_mutation := True,
                             err_confirmed := True\<rparr>
      in do {
        matches \<leftarrow> NamespaceMatches k snapshot;
        ret (case (if matches then FindMountInfoPath snapshot (applied_target applied) True else Inl ESTALE) of
               Inl e \<Rightarrow> if e \<noteq> ENOENT then failure\<lparr>err_stage := RollbackVerify, err_error := Some e\<rparr>
                        else failure
             | Inr remaining \<Rightarrow>
                 if mi_mount_id remaining = applied_mount_id applied
                 then failure\<lparr>err_stage := RollbackVerify, err_error := Some EBUSY,
                              err_actual := mi_mount_id remaining\<rparr>
                 else failure) })"

subsection \<open>Probing the backends\<close>

definition snapshot_count :: "errno + MountInfoSnapshot \<Rightarrow> nat" where
  "snapshot_count r = (case r of Inl _ \<Rightarrow> 0 | Inr s \<Rightarrow> length (snapshot_entries s))"

definition capture_error :: "errno + MountInfoSnapshot \<Rightarrow> errno option" where
  "capture_error r = (case r of Inl e \<Rightarrow> Some e | Inr _ \<Rightarrow> None)"

text \<open>What the probe does once the mount is in place: verify it, compare the object seen at the target, take
  the mount away again and look whether it is gone.\<close>

definition ProbeVerify ::
  "'w kernel \<Rightarrow> MountBackendKind \<Rightarrow> PinnedIdentity \<Rightarrow> PinnedIdentity \<Rightarrow> string \<Rightarrow> MountInfoSnapshot \<Rightarrow>
   errno + MountInfoSnapshot \<Rightarrow> ('w, errno option \<times> AppliedMount) state" where
  "ProbeVerify k backend source target target_name before_snapshot after_snapshot =
     (let applied = \<lparr>applied_backend = backend, applied_target = path_buffer target_name,
                     applied_mount_id = 0, applied_operation = 0\<rparr>
      in case after_snapshot of
           Inl e \<Rightarrow> ret (Some e, applied)
         | Inr s \<Rightarrow> do {
             v \<leftarrow> VerifyDirectoryMount k before_snapshot s source target (path_buffer target_name) applied 1;
             ret (if err_error (fst v) = None \<and>
                     length (snapshot_entries s) \<noteq> length (snapshot_entries before_snapshot) + 1
                  then Some EBADMSG else err_error (fst v), snd v) })"

definition ProbeRollback ::
  "'w kernel \<Rightarrow> AppliedMount \<Rightarrow> errno + MountInfoSnapshot \<Rightarrow> ('w, errno option) state" where
  "ProbeRollback k applied after_snapshot =
     (case after_snapshot of
        Inl e \<Rightarrow> ret (Some e)
      | Inr s \<Rightarrow> do {
          rollback \<leftarrow> ValidateRollbackDirectoryMount k applied s;
          if err_error rollback = None then do {
            rollback \<leftarrow> UnmountValidatedDirectoryMount k applied;
            ret (err_error rollback) }
          else ret (err_error rollback) })"

definition ProbeRemaining ::
  "'w kernel \<Rightarrow> AppliedMount \<Rightarrow> string \<Rightarrow> ('w, errno option \<times> u64) state" where
  "ProbeRemaining k applied target_name = do {
     remaining_snapshot \<leftarrow> Capture k;
     case remaining_snapshot of
       Inl e \<Rightarrow> ret (Some e, 0)
     | Inr s \<Rightarrow> do {
         verify \<leftarrow> VerifyRollbackDirectoryMount k applied s;
         ret (case FindMountInfoPath s target_name True of
                Inl e \<Rightarrow> (if err_error verify \<noteq> None then err_error verify else Some e, 0)
              | Inr remaining \<Rightarrow>
                  (if err_error verify \<noteq> None then err_error verify else None, mi_mount_id remaining)) } }"

definition ProbeOne ::
  "'w kernel \<Rightarrow> MountBackendKind \<Rightarrow> PinnedIdentity \<Rightarrow> PinnedIdentity \<Rightarrow> string \<Rightarrow> string \<Rightarrow>
   ('w, MountBackendProbeStep) state" where
  "ProbeOne k backend source target source_name target_name = do {
     before_snapshot \<leftarrow> Capture k;
     let telemetry = no_step\<lparr>before_error := capture_error before_snapshot,
                             before_count := snapshot_count before_snapshot\<rparr>;
     case before_snapshot of
       Inl _ \<Rightarrow> ret telemetry
     | Inr before \<Rightarrow> do {
         applied_error \<leftarrow> ApplyRaw k backend (pin_fd source) (pin_fd target) source_name target_name;
         let telemetry = telemetry\<lparr>apply_error := applied_error\<rparr>;
         if applied_error \<noteq> None then ret telemetry
         else do {
           after_snapshot \<leftarrow> Capture k;
           (verified, applied) \<leftarrow> ProbeVerify k backend source target target_name before after_snapshot;
           target_stat \<leftarrow> sys_stat k target_name;
           rolled_back \<leftarrow> ProbeRollback k applied after_snapshot;
           (remaining, found_id) \<leftarrow>
             (if rolled_back = None then ProbeRemaining k applied target_name else ret (None, 0));
           let same = (case target_stat of Inl _ \<Rightarrow> False | Inr v \<Rightarrow> SameObject v source);
           ret (telemetry\<lparr>after_error := capture_error after_snapshot,
                  after_count := snapshot_count after_snapshot, verify_error := verified,
                  stat_error := (case target_stat of Inl e \<Rightarrow> Some e | Inr _ \<Rightarrow> None),
                  identity_match := same, mounted_id := applied_mount_id applied,
                  rollback_error := rolled_back, remaining_error := remaining, remaining_id := found_id,
                  probe_success := (verified = None \<and> same \<and> rolled_back = None \<and>
                    (remaining = None \<or> remaining = Some ENOENT) \<and> found_id \<noteq> applied_mount_id applied)\<rparr>) } } }"

definition PinProbe ::
  "'w kernel \<Rightarrow> string \<Rightarrow> string \<Rightarrow> ('w, errno option \<times> PinnedIdentity \<times> PinnedIdentity) state" where
  "PinProbe k source_name target_name = do {
     snapshot \<leftarrow> Capture k;
     case snapshot of
       Inl e \<Rightarrow> ret (Some e, no_pin, no_pin)
     | Inr s \<Rightarrow> do {
         source \<leftarrow> PinDirectory k s source_name;
         case source of
           Inl e \<Rightarrow> ret (Some e, no_pin, no_pin)
         | Inr source_pin \<Rightarrow> do {
             target \<leftarrow> PinDirectory k s target_name;
             ret (case target of
               Inl e \<Rightarrow> (Some e, source_pin, no_pin)
             | Inr target_pin \<Rightarrow> (None, source_pin, target_pin)) } } }"

definition ProbeDirectoryMountBackends :: "'w kernel \<Rightarrow> string \<Rightarrow> string \<Rightarrow> ('w, MountBackendProbe) state" where
  "ProbeDirectoryMountBackends k source_name target_name = do {
     (error, source, target) \<leftarrow> PinProbe k source_name target_name;
     if error \<noteq> None then do {
       ClosePinnedIdentity k source;
       ClosePinnedIdentity k target;
       ret (no_probe\<lparr>probe_error := error\<rparr>) }
     else do {
       open_tree \<leftarrow> ProbeOne k StrictOpenTree source target source_name target_name;
       proc_fd \<leftarrow> ProbeOne k StrictProcFd source target source_name target_name;
       legacy \<leftarrow> ProbeOne k LegacyString source target source_name target_name;
       ClosePinnedIdentity k source;
       ClosePinnedIdentity k target;
       ret (no_probe\<lparr>probe_capabilities := \<lparr>
                primitives = kCapabilityComponentFdWalk
                  OR (if probe_success open_tree then kCapabilityOpenTreeMoveMount else 0)
                  OR (if probe_success proc_fd then kCapabilityProcFdMount else 0)
                  OR (if probe_success legacy then kCapabilityStringBindMount else 0),
                strict_actions = kMountActionRedirect OR kMountActionDenyAnchor,
                legacy_actions = kMountActionRedirect\<rparr>,
              probe_open_tree := open_tree, probe_proc_fd := proc_fd, probe_legacy_string := legacy\<rparr>) } }"

subsection \<open>Descriptors: opened once, closed once\<close>

definition is_fd_event :: "event \<Rightarrow> bool" where
  "is_fd_event e \<longleftrightarrow> (case e of Opened _ \<Rightarrow> True | Closed _ \<Rightarrow> True | _ \<Rightarrow> False)"

text \<open>The descriptors a function owns after its events; \<open>None\<close> when it closes one it does not own.\<close>

fun owned :: "event list \<Rightarrow> int multiset \<Rightarrow> int multiset option" where
  "owned [] S = Some S"
| "owned (e # es) S =
     (case e of
        Opened fd \<Rightarrow> owned es (add_mset fd S)
      | Closed fd \<Rightarrow> if fd \<in># S then owned es (S - {#fd#}) else None
      | _ \<Rightarrow> owned es S)"

lemma owned_append: "owned (es @ es') S = Option.bind (owned es S) (owned es')"
  by (induction es arbitrary: S) (auto split: event.splits)

definition resolve_owns :: "int multiset \<Rightarrow> DirectoryResolveResult \<Rightarrow> event list \<Rightarrow> bool" where
  "resolve_owns S r es \<longleftrightarrow>
     (case resolve_error r of
        None \<Rightarrow> 0 \<le> resolved_fd r \<and> (\<forall>T. owned es (S + T) = Some (add_mset (resolved_fd r) T))
      | Some _ \<Rightarrow> \<forall>T. owned es (S + T) = Some T)"

lemma WalkLoop_owns:
  assumes "0 \<le> current"
  shows "emits is_fd_event (WalkLoop (logged k) current component) (resolve_owns {#current#})"
  using assms
proof (induction "length component" arbitrary: current component rule: less_induct)
  case less
  show ?case
  proof (cases "dropWhile (\<lambda>c. c \<noteq> CHR ''/'') component")
    case Nil
    show ?thesis
      by (subst WalkLoop.simps, unfold Nil logged_calls list.case, intro emits_intro)
        (use less.prems in \<open>auto simp: event_simps is_fd_event_def resolve_owns_def resolve_failed_def\<close>)
  next
    case (Cons c rest)
    have IH: "emits is_fd_event (WalkLoop (logged k) (int fd) rest) (resolve_owns {#int fd#})" for fd
      by (rule less.hyps) (use Cons length_dropWhile_Cons in auto)
    show ?thesis
      by (subst WalkLoop.simps, unfold Cons logged_calls list.case, intro emits_intro emits_weaken [OF IH])
        (use less.prems in \<open>auto simp: event_simps is_fd_event_def resolve_owns_def resolve_failed_def
          split: option.splits\<close>)
  qed
qed

lemma ResolveDirectoryBeneath_owns:
  "emits is_fd_event (ResolveDirectoryBeneath (logged k) root_fd path force) (resolve_owns {#})"
proof -
  have walk: "emits is_fd_event (WalkDirectoryComponents (logged k) root_fd path) (resolve_owns {#})"
    unfolding WalkDirectoryComponents_def logged_calls
    by (intro emits_intro emits_weaken [OF WalkLoop_owns])
      (auto simp: event_simps is_fd_event_def resolve_owns_def resolve_failed_def split: option.splits)
  show ?thesis
    unfolding ResolveDirectoryBeneath_def logged_calls
    by (intro emits_intro emits_weaken [OF walk])
      (auto simp: event_simps is_fd_event_def resolve_owns_def resolve_failed_def split: option.splits)
qed

lemma OpenDirectoryRoot_owns:
  "emits is_fd_event (OpenDirectoryRoot (logged k) path) (resolve_owns {#})"
  unfolding OpenDirectoryRoot_def logged_calls
  by (intro emits_intro)
    (auto simp: event_simps is_fd_event_def resolve_owns_def resolve_failed_def split: sum.splits)

definition pin_owns :: "MountInfoSnapshot \<Rightarrow> string \<Rightarrow> errno + PinnedIdentity \<Rightarrow> event list \<Rightarrow> bool" where
  "pin_owns snapshot path r es \<longleftrightarrow>
     (case r of
        Inl _ \<Rightarrow> owned es {#} = Some {#}
      | Inr pin \<Rightarrow> owned es {#} = Some {#pin_fd pin#} \<and> 0 \<le> pin_fd pin \<and>
          FindMountInfoPath snapshot path False = Inr (pin_mount pin) \<and>
          mi_device (pin_mount pin) = pin_device pin \<and>
          BuildExpectedBindRoot path (mi_mountpoint (pin_mount pin)) (mi_root (pin_mount pin)) PATH_MAX =
            Inr (expected_bind_root pin))"

lemma PinMount_owns:
  assumes "0 \<le> fd"
  shows "emits is_fd_event (PinMount (logged k) snapshot path fd pinned)
    (\<lambda>r es. owned es {#fd#} = Some (case r of Inl _ \<Rightarrow> {#} | Inr pin \<Rightarrow> {#pin_fd pin#}) \<and>
      (\<forall>pin. r = Inr pin \<longrightarrow> 0 \<le> pin_fd pin \<and>
         FindMountInfoPath snapshot path False = Inr (pin_mount pin) \<and>
         mi_device (pin_mount pin) = pin_device pin \<and>
         BuildExpectedBindRoot path (mi_mountpoint (pin_mount pin)) (mi_root (pin_mount pin)) PATH_MAX =
           Inr (expected_bind_root pin)))"
  unfolding PinMount_def Let_def ClosePinnedIdentity_def logged_calls
  by (intro emits_intro) (use assms in \<open>auto simp: event_simps is_fd_event_def no_pin_def\<close>)

lemma PinDirectory_owns:
  "emits is_fd_event (PinDirectory (logged k) snapshot path) (pin_owns snapshot path)"
  unfolding PinDirectory_def logged_calls
  by (intro emits_intro emits_weaken [OF OpenDirectoryRoot_owns] emits_weaken [OF ResolveDirectoryBeneath_owns]
      emits_weaken [OF PinMount_owns])
    (auto simp: event_simps is_fd_event_def resolve_owns_def pin_owns_def owned_append split: sum.splits)

text \<open>
  Claim C28.  Pinning a directory neither leaks nor wrongly closes a descriptor, whatever the system answers.
  Every descriptor opened on the way, of the root, of each component of the path, of the directory itself,
  is closed exactly once, except that of a directory that was pinned; nothing else is closed.  A pinned
  directory carries the mount that the snapshot has in charge of its path, on the same device, and the path
  of the directory below the root of that mount's file system.
\<close>

theorem pin_directory_descriptors:
  "\<exists>es. snd (snd (run_state (PinDirectory (logged k) snapshot path) (w, l))) = l @ es \<and>
    (case fst (run_state (PinDirectory (logged k) snapshot path) (w, l)) of
       Inl _ \<Rightarrow> owned es {#} = Some {#}
     | Inr pin \<Rightarrow> owned es {#} = Some {#pin_fd pin#} \<and> 0 \<le> pin_fd pin \<and>
         FindMountInfoPath snapshot path False = Inr (pin_mount pin) \<and>
         mi_device (pin_mount pin) = pin_device pin \<and>
         BuildExpectedBindRoot path (mi_mountpoint (pin_mount pin)) (mi_root (pin_mount pin)) PATH_MAX =
           Inr (expected_bind_root pin))"
proof -
  have f: "owned (filter is_fd_event es) S = owned es S" for es S
    by (induction es arbitrary: S) (auto simp: is_fd_event_def split: event.splits)
  obtain r w' l' where run: "run_state (PinDirectory (logged k) snapshot path) (w, l) = (r, (w', l'))"
    by (metis surj_pair)
  obtain es where "l' = l @ es" "pin_owns snapshot path r (filter is_fd_event es)"
    using emits_runD [OF PinDirectory_owns run] by blast
  thus ?thesis using run by (auto simp: pin_owns_def f split: sum.splits)
qed

subsection \<open>Mounts made and taken away\<close>

definition is_mount_event :: "event \<Rightarrow> bool" where
  "is_mount_event e \<longleftrightarrow> (case e of Opened _ \<Rightarrow> False | Closed _ \<Rightarrow> False | _ \<Rightarrow> True)"

lemma is_mount_event_simps [simp]:
  "\<not> is_mount_event (Opened fd)" "\<not> is_mount_event (Closed fd)" "is_mount_event (Moved s t)"
  "is_mount_event (Bound a b)" "is_mount_event (Unmounted p)" "is_mount_event (MadePrivate p)"
  "is_mount_event (StatusSet st)" "is_mount_event (Killed pid)"
  by (simp_all add: is_mount_event_def)

text \<open>The call by which a backend mounts one directory on another.\<close>

definition mounts_on :: "MountBackendKind \<Rightarrow> int \<Rightarrow> int \<Rightarrow> string \<Rightarrow> string \<Rightarrow> event \<Rightarrow> bool" where
  "mounts_on backend source_fd target_fd source_name target_name e \<longleftrightarrow>
     (case backend of
        StrictOpenTree \<Rightarrow> \<exists>tree. e = Moved tree target_fd
      | StrictProcFd \<Rightarrow> e = Bound (''/proc/self/fd/'' @ int_string source_fd) (''/proc/self/fd/'' @ int_string target_fd)
      | LegacyString \<Rightarrow> e = Bound source_name target_name
      | BackendUnsupported \<Rightarrow> False)"

text \<open>A function that makes no mount, takes none away and publishes nothing.\<close>

abbreviation quiet :: "('w \<times> event list, 'a) state \<Rightarrow> bool" where
  "quiet m \<equiv> emits is_mount_event m (\<lambda>_ es. es = [])"

named_theorems quiet_rules \<open>functions that change no mount\<close>

lemma quiet_bind:
  "quiet m \<Longrightarrow> (\<And>a. emits is_mount_event (f a) Q) \<Longrightarrow> emits is_mount_event (State_Monad.bind m f) Q"
  by (rule emits_bind [where P = "\<lambda>_ es. es = []"]) simp_all

lemma quiet_observe: "(\<And>a. filter is_mount_event (ev a) = []) \<Longrightarrow> quiet (observe ev m)"
  by (rule emits_observe) simp

lemma quiet_fds [simp]: "filter is_mount_event (on_fd r) = []" "filter is_mount_event (silent r') = []"
  "filter is_mount_event [Closed fd] = []"
  by (simp_all add: on_fd_def silent_def is_mount_event_def split: sum.split)

lemma quiet_Capture [quiet_rules]: "quiet (Capture (logged k))"
  unfolding Capture_def logged_calls by (intro emits_intro) simp

lemma quiet_NamespaceMatches [quiet_rules]: "quiet (NamespaceMatches (logged k) s)"
  unfolding NamespaceMatches_def logged_calls by (intro emits_intro) simp_all

lemma quiet_ClosePinnedIdentity [quiet_rules]: "quiet (ClosePinnedIdentity (logged k) p)"
  unfolding ClosePinnedIdentity_def logged_calls by (intro emits_intro) simp_all

lemma quiet_WalkLoop: "quiet (WalkLoop (logged k) fd component)"
proof (induction "length component" arbitrary: fd component rule: less_induct)
  case less
  show ?case
  proof (cases "dropWhile (\<lambda>c. c \<noteq> CHR ''/'') component")
    case Nil
    show ?thesis by (subst WalkLoop.simps, unfold Nil logged_calls list.case, intro emits_intro) simp_all
  next
    case (Cons c rest)
    have IH: "quiet (WalkLoop (logged k) fd rest)" for fd
      by (rule less) (rule length_dropWhile_Cons [OF Cons])
    show ?thesis
      by (subst WalkLoop.simps, unfold Cons logged_calls list.case, intro emits_intro emits_weaken [OF IH])
        simp_all
  qed
qed

lemma quiet_PinDirectory [quiet_rules]: "quiet (PinDirectory (logged k) s path)"
proof -
  have root: "quiet (OpenDirectoryRoot (logged k) p)" for p
    unfolding OpenDirectoryRoot_def logged_calls by (intro emits_intro) simp_all
  have beneath: "quiet (ResolveDirectoryBeneath (logged k) fd p True)" for fd p
    unfolding ResolveDirectoryBeneath_def WalkDirectoryComponents_def logged_calls
    by (intro emits_intro emits_weaken [OF quiet_WalkLoop]) simp_all
  have mount: "quiet (PinMount (logged k) s path fd pinned)" for fd pinned
    unfolding PinMount_def Let_def
    by (intro emits_intro emits_weaken [OF quiet_ClosePinnedIdentity]) simp_all
  show ?thesis unfolding PinDirectory_def logged_calls
    by (intro emits_intro emits_weaken [OF root] emits_weaken [OF beneath] emits_weaken [OF mount]) simp_all
qed

lemma quiet_VerifyPinnedDirectory [quiet_rules]: "quiet (VerifyPinnedDirectory (logged k) p i)"
  unfolding VerifyPinnedDirectory_def logged_calls by (intro emits_intro) simp_all

lemma quiet_VerifyDirectoryMount [quiet_rules]:
  "quiet (VerifyDirectoryMount (logged k) before after source target locator applied n)"
  unfolding VerifyDirectoryMount_def Let_def logged_calls
  by (intro emits_intro emits_weaken [OF quiet_NamespaceMatches]) simp_all

lemma quiet_ValidateRollback [quiet_rules]: "quiet (ValidateRollbackDirectoryMount (logged k) applied s)"
  unfolding ValidateRollbackDirectoryMount_def Let_def
  by (intro emits_intro emits_weaken [OF quiet_NamespaceMatches]) simp_all

lemma quiet_VerifyRollback [quiet_rules]: "quiet (VerifyRollbackDirectoryMount (logged k) applied s)"
  unfolding VerifyRollbackDirectoryMount_def Let_def
  by (intro emits_intro emits_weaken [OF quiet_NamespaceMatches]) simp_all

lemma UnmountValidated_emits:
  "emits is_mount_event (UnmountValidatedDirectoryMount (logged k) applied)
     (\<lambda>r es. es = (if err_error r = None then [Unmounted (applied_target applied)] else []))"
  unfolding UnmountValidatedDirectoryMount_def Let_def logged_calls
  by (intro emits_intro) (auto simp: event_simps is_mount_event_def no_error_def)

lemma ApplyRaw_emits:
  "emits is_mount_event (ApplyRaw (logged k) backend source_fd target_fd source_name target_name)
     (\<lambda>r es. if r = None then \<exists>e. es = [e] \<and> mounts_on backend source_fd target_fd source_name target_name e
             else es = [])"
proof (cases backend)
  case StrictOpenTree
  show ?thesis unfolding ApplyRaw_def StrictOpenTree MountBackendKind.case MoveMountDirectoryFds_def logged_calls
    by (intro emits_intro) (auto simp: event_simps is_mount_event_def mounts_on_def)
next
  case StrictProcFd
  show ?thesis unfolding ApplyRaw_def StrictProcFd MountBackendKind.case BindMountDirectoryFds_def logged_calls
    by (intro emits_intro)
      (auto simp: event_simps is_mount_event_def mounts_on_def BuildProcFdPath_def Let_def split: if_splits)
next
  case LegacyString
  show ?thesis unfolding ApplyRaw_def LegacyString MountBackendKind.case logged_calls
    by (intro emits_intro) (auto simp: event_simps is_mount_event_def mounts_on_def)
next
  case BackendUnsupported
  show ?thesis unfolding ApplyRaw_def BackendUnsupported MountBackendKind.case
    by (intro emits_intro) simp
qed


subsection \<open>What a probe leaves behind\<close>

lemma VerifyDirectoryMount_target:
  "emits is_mount_event (VerifyDirectoryMount (logged k) before s source target locator applied n)
     (\<lambda>r es. es = [] \<and> applied_target (snd r) = applied_target applied)"
  unfolding VerifyDirectoryMount_def Let_def logged_calls
  by (intro emits_intro emits_weaken [OF quiet_NamespaceMatches]) simp_all

lemma ProbeVerify_applied:
  "emits is_mount_event (ProbeVerify (logged k) backend source target target_name before after)
     (\<lambda>r es. es = [] \<and> applied_target (snd r) = path_buffer target_name)"
  unfolding ProbeVerify_def Let_def
  by (intro emits_intro emits_weaken [OF VerifyDirectoryMount_target]) simp_all

lemma ProbeRollback_emits:
  "emits is_mount_event (ProbeRollback (logged k) applied after)
     (\<lambda>r es. es = (if r = None then [Unmounted (applied_target applied)] else []))"
  unfolding ProbeRollback_def
  by (intro emits_intro emits_weaken [OF quiet_ValidateRollback] emits_weaken [OF UnmountValidated_emits]) auto

lemma quiet_ProbeRemaining [quiet_rules]: "quiet (ProbeRemaining (logged k) applied target_name)"
  unfolding ProbeRemaining_def
  by (intro emits_intro emits_weaken [OF quiet_Capture] emits_weaken [OF quiet_VerifyRollback]) simp_all

definition probe_events ::
  "MountBackendKind \<Rightarrow> PinnedIdentity \<Rightarrow> PinnedIdentity \<Rightarrow> string \<Rightarrow> string \<Rightarrow> MountBackendProbeStep \<Rightarrow> event list \<Rightarrow> bool" where
  "probe_events backend source target source_name target_name step es \<longleftrightarrow>
     es = [] \<and> \<not> probe_success step \<or>
     (\<exists>e. mounts_on backend (pin_fd source) (pin_fd target) source_name target_name e \<and>
        (es = [e] \<and> rollback_error step \<noteq> None \<and> \<not> probe_success step \<or>
         es = [e, Unmounted (path_buffer target_name)] \<and> rollback_error step = None))"

lemma ProbeOne_emits:
  "emits is_mount_event (ProbeOne (logged k) backend source target source_name target_name)
     (probe_events backend source target source_name target_name)"
  unfolding ProbeOne_def Let_def logged_calls
  by (intro emits_intro emits_weaken [OF quiet_Capture] emits_weaken [OF ApplyRaw_emits]
      emits_weaken [OF ProbeVerify_applied] emits_weaken [OF ProbeRollback_emits]
      emits_weaken [OF quiet_ProbeRemaining])
    (auto simp: probe_events_def no_step_def split: if_splits)

lemma PinProbe_quiet [quiet_rules]: "quiet (PinProbe (logged k) source_name target_name)"
  unfolding PinProbe_def
  by (intro emits_intro emits_weaken [OF quiet_Capture] emits_weaken [OF quiet_PinDirectory]) simp_all

end
