(* ===== verification/PG_Transaction.thy ===== *)
theory PG_Transaction
  imports PG_Executor
begin

text \<open>
  The mount transaction of a process, \<open>ApplyProcessPlan\<close> of \<open>zygisk/src/module_entry.cpp\<close>, with everything
  it calls: the checks of the target process, the storage topology, the anchor of denied paths, the pinned
  directories, the choice of a backend, the lease, the mounts with their journal, verification, rollback
  and the published outcome.  The plan is the one of \<open>PG_Runtime\<close>; its topology is a separate argument.
  The fixed arrays of the workspace are lists of the entries in use.  Clocks, log texts and the test
  switches of the build are left out.
\<close>

subsection \<open>The process\<close>

text \<open>\<open>sscanf(line, "Uid:\t%u", &real_uid) == 1\<close>.\<close>

definition scan_uid :: "string \<Rightarrow> u32 option" where
  "scan_uid line =
     (if prefix ''Uid:'' line then map_option (\<lambda>(v, _). ucast v) (strtoull (drop 4 line)) else None)"

fun UidMatches :: "u32 \<Rightarrow> string list \<Rightarrow> bool" where
  "UidMatches expected_uid [] = False"
| "UidMatches expected_uid (line # rest) =
     (case scan_uid line of
        Some real_uid \<Rightarrow> real_uid = expected_uid
      | None \<Rightarrow> UidMatches expected_uid rest)"

definition ReadProcessUid :: "'w kernel \<Rightarrow> int \<Rightarrow> u32 \<Rightarrow> ('w, bool) state" where
  "ReadProcessUid k pid expected_uid = do {
     status \<leftarrow> sys_status_lines k pid;
     ret (case status of None \<Rightarrow> False | Some ls \<Rightarrow> UidMatches expected_uid ls) }"

fun SkipFields :: "nat \<Rightarrow> string \<Rightarrow> string option" where
  "SkipFields 0 current = Some current"
| "SkipFields (Suc n) current =
     (case dropWhile (\<lambda>c. c \<noteq> CHR '' '') current of
        [] \<Rightarrow> None
      | rest \<Rightarrow> SkipFields n (dropWhile (\<lambda>c. c = CHR '' '') rest))"

text \<open>The text behind the last closing parenthesis (\<open>strrchr\<close>), without it.\<close>

definition after_last_paren :: "string \<Rightarrow> string option" where
  "after_last_paren line =
     (if CHR '')'' \<in> set line then Some (rev (takeWhile (\<lambda>c. c \<noteq> CHR '')'') (rev line))) else None)"

definition start_time_of :: "string \<Rightarrow> u64 option" where
  "start_time_of line =
     (case after_last_paren line of
        Some (c # current) \<Rightarrow>
          if c \<noteq> CHR '' '' then None
          else (case SkipFields 19 current of
                  None \<Rightarrow> None
                | Some field \<Rightarrow> map_option fst (strtoull field))
      | _ \<Rightarrow> None)"

definition ReadProcessStartTime :: "'w kernel \<Rightarrow> int \<Rightarrow> ('w, u64 option) state" where
  "ReadProcessStartTime k pid = do {
     line \<leftarrow> sys_stat_line k pid;
     ret (case line of None \<Rightarrow> None | Some l \<Rightarrow> start_time_of l) }"

subsection \<open>The members of a mount namespace\<close>

definition proc_pid :: "int \<Rightarrow> string \<Rightarrow> int option" where
  "proc_pid self name =
     (let (v, rest) = strtol name in
      if rest = name \<or> rest \<noteq> [] \<or> v \<le> 0 \<or> v = self then None else Some v)"

definition namespace_path :: "int \<Rightarrow> string" where
  "namespace_path pid = ''/proc/'' @ int_string pid @ ''/ns/mnt''"

text \<open>\<open>static_cast<pid_t>\<close>.\<close>

definition to_pid :: "int \<Rightarrow> int" where "to_pid v = sint (word_of_int v :: u32)"

definition in_namespace :: "u64 \<times> u64 \<Rightarrow> errno + Stat \<Rightarrow> bool" where
  "in_namespace ns r = (case r of Inl _ \<Rightarrow> False | Inr s \<Rightarrow> st_dev s = fst ns \<and> st_ino s = snd ns)"

fun ScanMembers ::
  "'w kernel \<Rightarrow> u64 \<times> u64 \<Rightarrow> bool \<Rightarrow> int \<Rightarrow> string list \<Rightarrow> nat \<times> nat \<Rightarrow> ('w, nat \<times> nat) state" where
  "ScanMembers k ns terminate self [] acc = ret acc"
| "ScanMembers k ns terminate self (name # names) (matched, signaled) =
     (case proc_pid self name of
        None \<Rightarrow> ScanMembers k ns terminate self names (matched, signaled)
      | Some pid \<Rightarrow> do {
          r \<leftarrow> sys_stat k (namespace_path pid);
          if \<not> in_namespace ns r then ScanMembers k ns terminate self names (matched, signaled)
          else if \<not> terminate then ScanMembers k ns terminate self names (matched + 1, signaled)
          else do {
            killed \<leftarrow> sys_kill k (to_pid pid);
            ScanMembers k ns terminate self names
              (matched + 1, if killed then signaled + 1 else signaled) } })"

text \<open>The count of members and the count of signals sent, added to \<open>signaled\<close>.\<close>

definition ScanNamespaceMembers ::
  "'w kernel \<Rightarrow> u64 \<times> u64 \<Rightarrow> bool \<Rightarrow> nat \<Rightarrow> ('w, nat \<times> nat) state" where
  "ScanNamespaceMembers k ns terminate signaled = do {
     entries \<leftarrow> sys_proc_entries k;
     case entries of
       None \<Rightarrow> ret (0, signaled)
     | Some names \<Rightarrow> do {
         self \<leftarrow> sys_getpid k;
         ScanMembers k ns terminate self names (0, signaled) } }"

record NamespaceTerminationResult =
  term_matched :: nat
  term_signaled :: nat
  term_remaining :: nat

fun TerminateLoop ::
  "'w kernel \<Rightarrow> u64 \<times> u64 \<Rightarrow> nat \<Rightarrow> NamespaceTerminationResult \<Rightarrow> ('w, NamespaceTerminationResult) state" where
  "TerminateLoop k ns 0 result = ret result"
| "TerminateLoop k ns (Suc attempts) result = do {
     (remaining, _) \<leftarrow> ScanNamespaceMembers k ns False 0;
     let result = result\<lparr>term_remaining := remaining\<rparr>;
     if remaining = 0 then ret result
     else do {
       sys_sleep k 50000;
       (_, signaled) \<leftarrow> ScanNamespaceMembers k ns True (term_signaled result);
       TerminateLoop k ns attempts (result\<lparr>term_signaled := signaled\<rparr>) } }"

definition TerminateNamespaceMembers :: "'w kernel \<Rightarrow> u64 \<times> u64 \<Rightarrow> ('w, NamespaceTerminationResult) state" where
  "TerminateNamespaceMembers k ns = do {
     (matched, signaled) \<leftarrow> ScanNamespaceMembers k ns True 0;
     TerminateLoop k ns 20 \<lparr>term_matched = matched, term_signaled = signaled, term_remaining = 0\<rparr> }"

fun DisposableEntries ::
  "'w kernel \<Rightarrow> int \<Rightarrow> u32 \<Rightarrow> u64 \<times> u64 \<Rightarrow> int \<Rightarrow> string list \<Rightarrow> bool \<Rightarrow> ('w, bool) state" where
  "DisposableEntries k target_pid target_uid ns self [] target_found = ret target_found"
| "DisposableEntries k target_pid target_uid ns self (name # names) target_found =
     (case proc_pid self name of
        None \<Rightarrow> DisposableEntries k target_pid target_uid ns self names target_found
      | Some pid \<Rightarrow> do {
          r \<leftarrow> sys_stat k (namespace_path pid);
          if \<not> in_namespace ns r then DisposableEntries k target_pid target_uid ns self names target_found
          else if to_pid pid \<noteq> target_pid then ret False
          else do {
            same \<leftarrow> ReadProcessUid k (to_pid pid) target_uid;
            if \<not> same then ret False
            else DisposableEntries k target_pid target_uid ns self names True } })"

definition IsDisposableAppNamespace ::
  "'w kernel \<Rightarrow> int \<Rightarrow> u32 \<Rightarrow> u64 \<times> u64 \<Rightarrow> ('w, bool) state" where
  "IsDisposableAppNamespace k target_pid target_uid ns = do {
     entries \<leftarrow> sys_proc_entries k;
     case entries of
       None \<Rightarrow> ret False
     | Some names \<Rightarrow> do {
         self \<leftarrow> sys_getpid k;
         DisposableEntries k target_pid target_uid ns self names False } }"

subsection \<open>Sources of the mounts\<close>

fun RequiredLoop :: "u32 \<Rightarrow> PlannedMount list \<Rightarrow> u32" where
  "RequiredLoop required [] = required"
| "RequiredLoop required (mount # rest) =
     (if planned_action mount = kDenyAction then RequiredLoop (required OR kMountActionDenyAnchor) rest
      else if planned_action mount = kRedirectAction then RequiredLoop (required OR kMountActionRedirect) rest
      else 0)"

definition RequiredMountActions :: "ProcessPlan \<Rightarrow> u32" where
  "RequiredMountActions plan = RequiredLoop 0 (plan_mounts plan)"

definition infix_of :: "string \<Rightarrow> string \<Rightarrow> bool" where
  "infix_of s t = list_ex (prefix s) (suffixes t)"

definition kDenyAnchorRelativePath :: string where "kDenyAnchorRelativePath = ''run/deny-anchor''"

text \<open>The checks of the anchor itself: an empty directory of root without any permission.\<close>

definition CheckAnchor :: "'w kernel \<Rightarrow> int \<Rightarrow> ('w, (bool \<times> Stat option)) state" where
  "CheckAnchor k anchor_fd = do {
     s \<leftarrow> sys_fstat k anchor_fd;
     case s of
       Inl _ \<Rightarrow> ret (False, None)
     | Inr anchor_stat \<Rightarrow>
         if \<not> (S_ISDIR (st_mode anchor_stat) \<and> st_uid anchor_stat = 0 \<and> st_mode anchor_stat AND 0x1FF = 0)
         then ret (False, Some anchor_stat)
         else do {
           scan \<leftarrow> sys_dup k anchor_fd;
           case scan of
             Inl _ \<Rightarrow> ret (False, Some anchor_stat)
           | Inr scan_fd \<Rightarrow> do {
               opened \<leftarrow> sys_fdopendir k (int scan_fd);
               if \<not> opened then ret (False, Some anchor_stat)
               else do {
                 (names, complete) \<leftarrow> sys_readdir k (int scan_fd);
                 sys_close k (int scan_fd);
                 ret (list_all (\<lambda>n. n = ''.'' \<or> n = ''..'') names \<and> complete, Some anchor_stat) } } } }"

definition BuildDenyAnchorPath :: "'w kernel \<Rightarrow> int \<Rightarrow> nat \<Rightarrow> ('w, string option) state" where
  "BuildDenyAnchorPath k module_dir_fd capacity =
     (if module_dir_fd < 0 \<or> capacity = 0 then ret None
      else do {
        run_dir \<leftarrow> sys_openat k ReadDirectory module_dir_fd ''run'';
        case run_dir of
          Inl _ \<Rightarrow> ret None
        | Inr run_fd \<Rightarrow> do {
            anchor \<leftarrow> sys_openat k ReadDirectory (int run_fd) ''deny-anchor'';
            sys_close k (int run_fd);
            case anchor of
              Inl _ \<Rightarrow> ret None
            | Inr anchor_fd \<Rightarrow> do {
                (valid, anchor_stat) \<leftarrow> CheckAnchor k (int anchor_fd);
                link \<leftarrow> sys_readlink k (''/proc/self/fd/'' @ int_string module_dir_fd);
                let module_path = (case link of Inl _ \<Rightarrow> [] | Inr p \<Rightarrow> path_buffer p);
                let output_path = module_path @ CHR ''/'' # kDenyAnchorRelativePath;
                result \<leftarrow>
                  (if \<not> valid \<or> module_path = [] \<or> hd module_path \<noteq> CHR ''/'' \<or>
                      infix_of '' (deleted)'' module_path \<or> length output_path \<ge> capacity
                   then ret None
                   else do {
                     s \<leftarrow> sys_lstat k output_path;
                     ret (case (s, anchor_stat) of
                       (Inr path_stat, Some a) \<Rightarrow>
                         if st_dev path_stat = st_dev a \<and> st_ino path_stat = st_ino a then Some output_path else None
                     | _ \<Rightarrow> None) });
                sys_close k (int anchor_fd);
                ret result } } })"

subsection \<open>The storage topology of the process\<close>

record RuntimeStorageTopology =
  topo_generation :: u64
  topo_user_id :: u32
  topo_visible_root :: string
  topo_source_root :: string
  topo_visible_identity :: MountPathIdentity
  topo_source_identity :: MountPathIdentity

definition identity_text :: "MountPathIdentity \<Rightarrow> string" where
  "identity_text i =
     to_string (unat (mi_mount_id i)) @ ''|'' @ to_string (unat (mi_parent_mount_id i)) @ ''|'' @
     to_string (unat (mi_device i)) @ ''|'' @ mi_root i @ ''|'' @ mi_filesystem i"

definition TopologyGeneration :: "RuntimeStorageTopology \<Rightarrow> u64" where
  "TopologyGeneration topology =
     (let canonical = ''PGTOPO1|'' @ to_string (unat (topo_user_id topology)) @ ''|'' @
            topo_visible_root topology @ ''|'' @ topo_source_root topology @ ''|'' @
            identity_text (topo_visible_identity topology) @ ''|'' @
            identity_text (topo_source_identity topology)
      in if length canonical \<ge> PATH_MAX * 2 + 512 then 0 else Fnv1a64 (string_bytes canonical))"

definition empty_runtime_topology :: RuntimeStorageTopology where
  "empty_runtime_topology = \<lparr>topo_generation = 0, topo_user_id = 0, topo_visible_root = [], topo_source_root = [],
     topo_visible_identity = no_identity, topo_source_identity = no_identity\<rparr>"

definition SourceCandidates :: "string \<Rightarrow> u32 \<Rightarrow> string list" where
  "SourceCandidates required_source_root user =
     (let u = to_string (unat user) in
      if required_source_root \<noteq> [] then [path_buffer required_source_root]
      else [''/mnt/user/'' @ u @ ''/emulated/'' @ u, ''/mnt/runtime/default/emulated/'' @ u,
            ''/mnt/pass_through/'' @ u @ ''/emulated/'' @ u])"

fun ChooseSource ::
  "'w kernel \<Rightarrow> MountInfoSnapshot \<Rightarrow> RuntimeStorageTopology \<Rightarrow> string list \<Rightarrow> ('w, RuntimeStorageTopology) state" where
  "ChooseSource k snapshot topology [] = ret topology"
| "ChooseSource k snapshot topology (candidate # rest) = do {
     r \<leftarrow> PinDirectory k snapshot candidate;
     case r of
       Inl _ \<Rightarrow> ChooseSource k snapshot topology rest
     | Inr pinned \<Rightarrow> do {
         ClosePinnedIdentity k pinned;
         if pin_device pinned = mi_device (topo_visible_identity topology) \<and>
            mi_filesystem (pin_mount pinned) = mi_filesystem (topo_visible_identity topology)
         then ret (topology\<lparr>topo_source_root := candidate, topo_source_identity := pin_mount pinned\<rparr>)
         else ChooseSource k snapshot topology rest } }"

definition CaptureStorageTopologyFromSnapshot ::
  "'w kernel \<Rightarrow> u32 \<Rightarrow> string \<Rightarrow> MountInfoSnapshot \<Rightarrow> ('w, RuntimeStorageTopology option) state" where
  "CaptureStorageTopologyFromSnapshot k uid required_source_root snapshot =
     (let user = uid div 100000;
          topology = empty_runtime_topology\<lparr>topo_user_id := user,
                       topo_visible_root := ''/storage/emulated/'' @ to_string (unat user)\<rparr>
      in do {
        r \<leftarrow> PinDirectory k snapshot (topo_visible_root topology);
        case r of
          Inl _ \<Rightarrow> ret None
        | Inr visible \<Rightarrow> do {
            ClosePinnedIdentity k visible;
            chosen \<leftarrow> ChooseSource k snapshot (topology\<lparr>topo_visible_identity := pin_mount visible\<rparr>)
                        (SourceCandidates required_source_root user);
            ret (if topo_source_root chosen = [] then None
                 else let generation = TopologyGeneration chosen in
                      if generation = 0 then None else Some (chosen\<lparr>topo_generation := generation\<rparr>)) } })"

definition SameStorageTopology :: "RuntimeStorageTopology \<Rightarrow> RuntimeStorageTopology \<Rightarrow> bool" where
  "SameStorageTopology expected actual \<longleftrightarrow>
     topo_generation expected \<noteq> 0 \<and> topo_generation actual \<noteq> 0 \<and>
     topo_user_id expected = topo_user_id actual \<and>
     topo_visible_root expected = topo_visible_root actual \<and>
     topo_source_root expected = topo_source_root actual \<and>
     mi_device (topo_visible_identity expected) = mi_device (topo_visible_identity actual) \<and>
     mi_device (topo_source_identity expected) = mi_device (topo_source_identity actual) \<and>
     mi_root (topo_visible_identity expected) = mi_root (topo_visible_identity actual) \<and>
     mi_root (topo_source_identity expected) = mi_root (topo_source_identity actual) \<and>
     mi_filesystem (topo_visible_identity expected) = mi_filesystem (topo_visible_identity actual) \<and>
     mi_filesystem (topo_source_identity expected) = mi_filesystem (topo_source_identity actual)"

subsection \<open>Pinning all directories of the plan\<close>

definition BuildMountSourcePath ::
  "ProcessPlan \<Rightarrow> RuntimeStorageTopology \<Rightarrow> PlannedMount \<Rightarrow> string \<Rightarrow> nat \<Rightarrow> string option" where
  "BuildMountSourcePath plan topology mount deny_anchor_path capacity =
     (if planned_action mount = kDenyAction then
        (if deny_anchor_path = [] \<or> hd deny_anchor_path \<noteq> CHR ''/'' then None
         else if length deny_anchor_path < capacity then Some deny_anchor_path else None)
      else case PlanPath plan (planned_backing mount) of
             Some backing \<Rightarrow>
               if planned_action mount = kRedirectAction \<and> backing \<noteq> []
               then BuildPathUnderRoot (topo_source_root topology) backing capacity else None
           | None \<Rightarrow> None)"

definition TargetPath :: "ProcessPlan \<Rightarrow> RuntimeStorageTopology \<Rightarrow> PlannedMount \<Rightarrow> string option" where
  "TargetPath plan topology mount =
     (if \<not> IsExecutableMountAction (planned_action mount) then None
      else case (PlanPath plan (planned_visible mount), PlanPath plan (planned_backing mount)) of
             (Some visible, Some _) \<Rightarrow> BuildPathUnderRoot (topo_visible_root topology) visible PATH_MAX
           | _ \<Rightarrow> None)"

text \<open>The workspace: the sources, each pinned once, and for every rule its source and its target.\<close>

record MountTransactionWorkspace =
  ws_sources :: "PinnedIdentity list"
  ws_source_locators :: "string list"
  ws_source_indexes :: "nat list"
  ws_targets :: "PinnedIdentity list"
  ws_target_locators :: "string list"

definition empty_workspace :: MountTransactionWorkspace where
  "empty_workspace = \<lparr>ws_sources = [], ws_source_locators = [], ws_source_indexes = [], ws_targets = [],
     ws_target_locators = []\<rparr>"

definition source_index :: "string \<Rightarrow> string list \<Rightarrow> nat" where
  "source_index source locators = length (takeWhile (\<lambda>l. l \<noteq> source) locators)"

definition PinRule ::
  "'w kernel \<Rightarrow> MountInfoSnapshot \<Rightarrow> string \<Rightarrow> string \<Rightarrow> MountTransactionWorkspace \<Rightarrow>
   ('w, errno option \<times> MountTransactionWorkspace) state" where
  "PinRule k snapshot source target ws = do {
     (e1, ws1) \<leftarrow>
       (if source_index source (ws_source_locators ws) < length (ws_source_locators ws) then ret (None, ws)
        else do {
          r \<leftarrow> PinDirectory k snapshot source;
          ret (case r of
            Inl e \<Rightarrow> (Some e, ws)
          | Inr pin \<Rightarrow> (None, ws\<lparr>ws_sources := ws_sources ws @ [pin],
                                ws_source_locators := ws_source_locators ws @ [source]\<rparr>)) });
     if e1 \<noteq> None then ret (e1, ws1)
     else do {
       r \<leftarrow> PinDirectory k snapshot target;
       ret (case r of
         Inl e \<Rightarrow> (Some e, ws1)
       | Inr pin \<Rightarrow> (None, ws1\<lparr>
             ws_source_indexes := ws_source_indexes ws1 @ [source_index source (ws_source_locators ws1)],
             ws_targets := ws_targets ws1 @ [pin], ws_target_locators := ws_target_locators ws1 @ [target]\<rparr>)) } }"

fun PinLoop ::
  "'w kernel \<Rightarrow> ProcessPlan \<Rightarrow> RuntimeStorageTopology \<Rightarrow> string \<Rightarrow> MountInfoSnapshot \<Rightarrow>
   MountTransactionWorkspace \<Rightarrow> PlannedMount list \<Rightarrow> ('w, errno option \<times> MountTransactionWorkspace) state" where
  "PinLoop k plan topology anchor snapshot ws [] = ret (None, ws)"
| "PinLoop k plan topology anchor snapshot ws (rule # rules) =
     (case (TargetPath plan topology rule, BuildMountSourcePath plan topology rule anchor PATH_MAX) of
        (Some target, Some source) \<Rightarrow> do {
          (e, ws1) \<leftarrow> PinRule k snapshot source target ws;
          if e \<noteq> None then ret (e, ws1) else PinLoop k plan topology anchor snapshot ws1 rules }
      | _ \<Rightarrow> ret (Some EINVAL, ws))"

fun CloseAll :: "'w kernel \<Rightarrow> PinnedIdentity list \<Rightarrow> ('w, unit) state" where
  "CloseAll k [] = ret ()"
| "CloseAll k (p # ps) = do { ClosePinnedIdentity k p; CloseAll k ps }"

definition CloseWorkspace :: "'w kernel \<Rightarrow> MountTransactionWorkspace \<Rightarrow> ('w, unit) state" where
  "CloseWorkspace k ws = do { CloseAll k (ws_sources ws); CloseAll k (ws_targets ws) }"

subsection \<open>The shared status\<close>

text \<open>The operations of \<open>PG_Mount\<close> on the shared page, as calls: the other process may act between them.\<close>

definition TxTransition :: "'w kernel \<Rightarrow> MountTransactionState \<Rightarrow> MountTransactionState \<Rightarrow> ('w, bool) state" where
  "TxTransition k from_state to_state =
     (if \<not> IsMountTransitionAllowed from_state to_state then ret False else shared_exchange k from_state to_state)"

definition TxPublish ::
  "'w kernel \<Rightarrow> MountPerfResult \<Rightarrow> MountTransactionState \<Rightarrow> MountTransactionState \<Rightarrow> ('w, bool) state" where
  "TxPublish k perf from_state terminal = do { shared_store k perf; TxTransition k from_state terminal }"

definition TxCancelRequested :: "'w kernel \<Rightarrow> ('w, bool) state" where
  "TxCancelRequested k = do { s \<leftarrow> shared_load k; ret (s = CancelRequested) }"

definition TxAcquireLease :: "'w kernel \<Rightarrow> ('w, bool) state" where
  "TxAcquireLease k = do {
     ok \<leftarrow> TxTransition k Pending Applying;
     if ok then ret True
     else do {
       s \<leftarrow> shared_load k;
       if s = CancelRequested then do { TxTransition k CancelRequested Cancelled; ret False } else ret False } }"

subsection \<open>Preflight\<close>

definition StoragePropagationRequiresPrivate :: "MountInfoSnapshot \<Rightarrow> bool" where
  "StoragePropagationRequiresPrivate snapshot =
     (case MountInfoSnapshotRequiresPrivate snapshot ''/storage'' of
        Inl _ \<Rightarrow> True | Inr requires_private \<Rightarrow> requires_private)"

text \<open>The child works on its own copy of the world; the parent sees only what it sends.\<close>

definition ProbeMountBackendsIsolated :: "'w kernel \<Rightarrow> string \<Rightarrow> string \<Rightarrow> ('w, MountBackendProbe) state" where
  "ProbeMountBackendsIsolated k source target = do {
     sockets \<leftarrow> sys_socketpair k;
     case sockets of
       Some e \<Rightarrow> ret (no_probe\<lparr>probe_error := Some e\<rparr>)
     | None \<Rightarrow> do {
         forked \<leftarrow> sys_fork k;
         case forked of
           Inl e \<Rightarrow> ret (no_probe\<lparr>probe_error := Some e\<rparr>)
         | Inr child \<Rightarrow> do {
             let sent = fst (run_state (do {
               unshared \<leftarrow> sys_unshare_private k;
               case unshared of
                 Some e \<Rightarrow> ret (no_probe\<lparr>probe_error := Some e\<rparr>)
               | None \<Rightarrow> ProbeDirectoryMountBackends k source target }) child);
             received \<leftarrow> sys_receive k;
             ret (if received then sent else no_probe\<lparr>probe_error := Some EIO\<rparr>) } } }"

definition start_perf :: "ProcessPlan \<Rightarrow> RuntimeStorageTopology \<Rightarrow> MountPerfResult" where
  "start_perf plan topology = \<lparr>perf_result = Some EIO, perf_rule_count = length (plan_mounts plan),
     perf_backend = BackendUnsupported, perf_backend_reason = ReasonNone, perf_failure_stage = StageNone,
     perf_rollback_failed = False, perf_runtime_reason = RuntimeNone, perf_snapshot_count = 0,
     perf_topology_generation = topo_generation topology\<rparr>"

definition EnterNamespace :: "'w kernel \<Rightarrow> int \<Rightarrow> ('w, errno + u64 \<times> u64) state" where
  "EnterNamespace k pid = do {
     opened \<leftarrow> sys_open_namespace k pid;
     case opened of
       Inl e \<Rightarrow> ret (Inl e)
     | Inr fd \<Rightarrow> do {
         entered \<leftarrow> sys_setns k (int fd);
         case entered of
           Some e \<Rightarrow> do { sys_close k (int fd); ret (Inl e) }
         | None \<Rightarrow> do {
             s \<leftarrow> sys_fstat k (int fd);
             sys_close k (int fd);
             ret (map_sum id (\<lambda>v. (st_dev v, st_ino v)) s) } } }"

text \<open>What the rest of the transaction needs from the preflight.\<close>

record Prepared =
  prep_namespace :: "u64 \<times> u64"
  prep_required :: u32
  prep_mounts :: MountInfoSnapshot
  prep_workspace :: MountTransactionWorkspace
  prep_private :: bool
  prep_backend :: MountBackendKind
  prep_locked :: bool
  prep_perf :: MountPerfResult

definition allow_legacy :: "ProcessPlan \<Rightarrow> bool" where
  "allow_legacy plan \<longleftrightarrow> plan_policy_flags plan AND kPolicyFlagAllowLegacyStringBind \<noteq> 0"

text \<open>The lease checks: the process, its policy and its storage are still those of the plan.\<close>

definition LeaseReason ::
  "'w kernel \<Rightarrow> int \<Rightarrow> u32 \<Rightarrow> ProcessPlan \<Rightarrow> RuntimeStorageTopology \<Rightarrow> u64 \<Rightarrow> MountInfoSnapshot \<Rightarrow>
   ('w, RuntimeReason) state" where
  "LeaseReason k pid uid plan topology expected_start_time current_mounts = do {
     same_uid \<leftarrow> ReadProcessUid k pid uid;
     start \<leftarrow> (if same_uid then ReadProcessStartTime k pid else ret None);
     if start \<noteq> Some expected_start_time then ret PreflightFailed
     else do {
       file \<leftarrow> sys_policy_file k;
       let lease_plan = (case file of None \<Rightarrow> None
                         | Some data \<Rightarrow> Option.bind (LoadProcessPlan data (plan_process_name plan) uid) id);
       if (case lease_plan of None \<Rightarrow> True | Some p \<Rightarrow> \<not> SameProcessPlan plan p) then ret PolicyChanged
       else do {
         lease_topology \<leftarrow> CaptureStorageTopologyFromSnapshot k uid (topo_source_root topology) current_mounts;
         ret (case lease_topology of
                None \<Rightarrow> TopologyChanged
              | Some t \<Rightarrow> if SameStorageTopology topology t then RuntimeNone else TopologyChanged) } } }"

text \<open>The choice of the backend when the storage is shared with other processes.\<close>

definition ChooseBackend ::
  "'w kernel \<Rightarrow> int \<Rightarrow> u32 \<Rightarrow> ProcessPlan \<Rightarrow> u64 \<times> u64 \<Rightarrow> u32 \<Rightarrow> MountTransactionWorkspace \<Rightarrow> MountPerfResult \<Rightarrow>
   ('w, (errno + MountBackendKind) \<times> MountPerfResult) state" where
  "ChooseBackend k pid uid plan ns required ws perf = do {
     probe \<leftarrow> ProbeMountBackendsIsolated k (ws_source_locators ws ! (ws_source_indexes ws ! 0))
               (ws_target_locators ws ! 0);
     let selection = SelectMountBackend required (probe_capabilities probe) (allow_legacy plan);
     let perf = perf\<lparr>perf_backend := selected_backend selection, perf_backend_reason := selection_reason selection\<rparr>;
     if selected_backend selection = BackendUnsupported
     then ret (Inl (case probe_error probe of Some e \<Rightarrow> e | None \<Rightarrow> ENOTSUP),
               perf\<lparr>perf_runtime_reason := PreflightFailed\<rparr>)
     else do {
       disposable \<leftarrow> (if selected_backend selection = LegacyString then IsDisposableAppNamespace k pid uid ns
                      else ret True);
       if \<not> disposable
       then ret (Inl ENOTSUP, perf\<lparr>perf_backend := BackendUnsupported, perf_backend_reason := CapabilityMissing\<rparr>)
       else ret (Inr (selected_backend selection), perf) } }"

text \<open>From the pinned directories to the lease.\<close>

definition PreflightLease ::
  "'w kernel \<Rightarrow> int \<Rightarrow> u32 \<Rightarrow> ProcessPlan \<Rightarrow> RuntimeStorageTopology \<Rightarrow> u64 \<Rightarrow> u64 \<times> u64 \<Rightarrow> u32 \<Rightarrow>
   MountInfoSnapshot \<Rightarrow> MountTransactionWorkspace \<Rightarrow> MountPerfResult \<Rightarrow>
   ('w, (errno \<times> MountPerfResult) + Prepared) state" where
  "PreflightLease k pid uid plan topology expected_start_time ns required current_mounts ws perf = do {
     let private = StoragePropagationRequiresPrivate current_mounts;
     reason \<leftarrow> LeaseReason k pid uid plan topology expected_start_time current_mounts;
     if reason \<noteq> RuntimeNone then ret (Inl (ESTALE, perf\<lparr>perf_runtime_reason := reason\<rparr>))
     else do {
       (choice, perf) \<leftarrow> (if private then ChooseBackend k pid uid plan ns required ws perf
                          else ret (Inr StrictOpenTree, perf));
       case choice of
         Inl e \<Rightarrow> ret (Inl (e, perf))
       | Inr backend \<Rightarrow> do {
           cancelled \<leftarrow> TxCancelRequested k;
           if cancelled then ret (Inl (ECANCELED, perf))
           else do {
             lease \<leftarrow> TxAcquireLease k;
             if \<not> lease then ret (Inl (ECANCELED, perf))
             else ret (Inr \<lparr>prep_namespace = ns, prep_required = required, prep_mounts = current_mounts,
                            prep_workspace = ws, prep_private = private, prep_backend = backend,
                            prep_locked = private, prep_perf = perf\<rparr>) } } } }"

definition PreflightPins ::
  "'w kernel \<Rightarrow> int \<Rightarrow> u32 \<Rightarrow> ProcessPlan \<Rightarrow> RuntimeStorageTopology \<Rightarrow> u64 \<Rightarrow> u64 \<times> u64 \<Rightarrow> u32 \<Rightarrow> string \<Rightarrow>
   MountPerfResult \<Rightarrow> ('w, MountPerfResult + Prepared) state" where
  "PreflightPins k pid uid plan topology expected_start_time ns required anchor perf = do {
     captured \<leftarrow> Capture k;
     case captured of
       Inl e \<Rightarrow> ret (Inl (perf\<lparr>perf_result := Some e\<rparr>))
     | Inr current_mounts \<Rightarrow> do {
         current \<leftarrow> NamespaceMatches k current_mounts;
         if \<not> current then ret (Inl (perf\<lparr>perf_result := Some ESTALE\<rparr>))
         else do {
           let perf = perf\<lparr>perf_snapshot_count := 1\<rparr>;
           (e, ws) \<leftarrow> PinLoop k plan topology anchor current_mounts empty_workspace (plan_mounts plan);
           case e of
             Some err \<Rightarrow> do { CloseWorkspace k ws; ret (Inl (perf\<lparr>perf_result := Some err\<rparr>)) }
           | None \<Rightarrow> do {
               r \<leftarrow> PreflightLease k pid uid plan topology expected_start_time ns required current_mounts ws perf;
               case r of
                 Inl (err, perf) \<Rightarrow> do { CloseWorkspace k ws; ret (Inl (perf\<lparr>perf_result := Some err\<rparr>)) }
               | Inr prepared \<Rightarrow> ret (Inr prepared) } } } }"

definition PreflightPlan ::
  "'w kernel \<Rightarrow> int \<Rightarrow> u32 \<Rightarrow> int \<Rightarrow> ProcessPlan \<Rightarrow> RuntimeStorageTopology \<Rightarrow>
   ('w, MountPerfResult + Prepared) state" where
  "PreflightPlan k pid uid module_dir_fd plan topology =
     (let perf = start_perf plan topology in do {
        cancelled \<leftarrow> TxCancelRequested k;
        if cancelled then ret (Inl (perf\<lparr>perf_result := Some ECANCELED\<rparr>))
        else do {
          same_uid \<leftarrow> ReadProcessUid k pid uid;
          start \<leftarrow> (if same_uid then ReadProcessStartTime k pid else ret None);
          case start of
            None \<Rightarrow> ret (Inl (perf\<lparr>perf_result := Some ESRCH\<rparr>))
          | Some expected_start_time \<Rightarrow> do {
              entered \<leftarrow> EnterNamespace k pid;
              case entered of
                Inl e \<Rightarrow> ret (Inl (perf\<lparr>perf_result := Some e\<rparr>))
              | Inr ns \<Rightarrow> do {
                  let required = RequiredMountActions plan;
                  anchor \<leftarrow> (if required AND kMountActionDenyAnchor \<noteq> 0
                             then BuildDenyAnchorPath k module_dir_fd PATH_MAX else ret (Some []));
                  if required = 0 \<or> anchor = None
                  then ret (Inl (perf\<lparr>perf_result := Some ENOTSUP, perf_runtime_reason := RuntimeUnsupportedAction\<rparr>))
                  else do {
                    let perf = perf\<lparr>perf_backend := StrictOpenTree, perf_backend_reason := ReasonNone\<rparr>;
                    workspace \<leftarrow> sys_workspace k;
                    case workspace of
                      Some e \<Rightarrow> ret (Inl (perf\<lparr>perf_result := Some e\<rparr>))
                    | None \<Rightarrow> PreflightPins k pid uid plan topology expected_start_time ns required
                                (the anchor) perf } } } } })"

subsection \<open>Mounting\<close>

definition backend_rank :: "MountBackendKind \<Rightarrow> nat" where
  "backend_rank b = (case b of StrictOpenTree \<Rightarrow> 3 | StrictProcFd \<Rightarrow> 2 | LegacyString \<Rightarrow> 1 | BackendUnsupported \<Rightarrow> 0)"

lemma NextMountBackend_rank:
  "NextMountBackend b required legacy allowed \<noteq> BackendUnsupported \<Longrightarrow>
   backend_rank (NextMountBackend b required legacy allowed) < backend_rank b"
  by (auto simp: NextMountBackend_def backend_rank_def split: if_splits)

text \<open>The loop over the backends for one rule: the result, the backend it came from and the perf record.\<close>

function ApplyWithFallback ::
  "'w kernel \<Rightarrow> int \<Rightarrow> u32 \<Rightarrow> ProcessPlan \<Rightarrow> Prepared \<Rightarrow> nat \<Rightarrow> nat \<Rightarrow> bool \<Rightarrow> MountBackendKind \<Rightarrow> MountPerfResult \<Rightarrow>
   ('w, (AppliedMount \<times> MountError) \<times> MountBackendKind \<times> MountPerfResult) state" where
  "ApplyWithFallback k pid uid plan prep rule_index src locked backend perf = do {
     result \<leftarrow> ApplyDirectoryMountRaw k backend rule_index
       (ws_sources (prep_workspace prep) ! src) (ws_targets (prep_workspace prep) ! rule_index)
       (ws_source_locators (prep_workspace prep) ! src) (ws_target_locators (prep_workspace prep) ! rule_index);
     if err_error (snd result) = None \<or> err_mutation (snd result) \<or> locked \<or> rule_index \<noteq> 0
     then ret (result, backend, perf)
     else do {
       allowed \<leftarrow> (if backend = StrictProcFd \<and> allow_legacy plan \<and> prep_required prep = kMountActionRedirect
                   then IsDisposableAppNamespace k pid uid (prep_namespace prep) else ret False);
       if NextMountBackend backend (prep_required prep) (allow_legacy plan) allowed = BackendUnsupported
       then ret (result, backend,
                 perf\<lparr>perf_backend := BackendUnsupported,
                      perf_backend_reason :=
                        (if prep_required prep = kMountActionRedirect \<and> \<not> allow_legacy plan
                         then LegacyNotAuthorized else CapabilityMissing)\<rparr>)
       else ApplyWithFallback k pid uid plan prep rule_index src locked
              (NextMountBackend backend (prep_required prep) (allow_legacy plan) allowed)
              (perf\<lparr>perf_backend := NextMountBackend backend (prep_required prep) (allow_legacy plan) allowed\<rparr>) } }"
  by pat_completeness auto
termination
  by (relation "measure (\<lambda>(_, _, _, _, _, _, _, _, backend, _). backend_rank backend)")
    (auto intro: NextMountBackend_rank)

declare ApplyWithFallback.simps [simp del]

text \<open>The variables of the mutation phase.\<close>

record Mutation =
  mut_error :: "errno option"
  mut_backend :: MountBackendKind
  mut_locked :: bool
  mut_journal :: "AppliedMount MutationJournal"
  mut_untracked :: bool
  mut_perf :: MountPerfResult

definition RecordApply ::
  "(AppliedMount \<times> MountError) \<Rightarrow> MountBackendKind \<Rightarrow> MountPerfResult \<Rightarrow> Mutation \<Rightarrow> Mutation" where
  "RecordApply result backend perf m =
     (let mutated = err_mutation (snd result);
          applied = err_error (snd result) = None \<and> mutated;
          perf = (if applied then perf\<lparr>perf_backend := backend, perf_backend_reason := ReasonNone\<rparr> else perf);
          pushed = (if mutated then Journal_Push (fst result) (mut_journal m) else Some (mut_journal m));
          error = (if pushed = None then Some EOVERFLOW else err_error (snd result))
      in \<lparr>mut_error = error, mut_backend = backend, mut_locked = (mut_locked m \<or> applied),
          mut_journal = (case pushed of None \<Rightarrow> mut_journal m | Some j \<Rightarrow> j),
          mut_untracked = (mut_untracked m \<or> pushed = None),
          mut_perf = perf\<lparr>perf_failure_stage := err_stage (snd result)\<rparr>\<rparr>)"

fun MountLoop ::
  "'w kernel \<Rightarrow> int \<Rightarrow> u32 \<Rightarrow> ProcessPlan \<Rightarrow> Prepared \<Rightarrow> nat list \<Rightarrow> Mutation \<Rightarrow> ('w, Mutation) state" where
  "MountLoop k pid uid plan prep [] m = ret m"
| "MountLoop k pid uid plan prep (rule_index # rules) m =
     (if mut_error m \<noteq> None then ret m
      else do {
        cancelled \<leftarrow> TxCancelRequested k;
        if cancelled then ret (m\<lparr>mut_error := Some ECANCELED\<rparr>)
        else
          let src = ws_source_indexes (prep_workspace prep) ! rule_index in
          if src \<ge> length (ws_sources (prep_workspace prep)) then ret (m\<lparr>mut_error := Some EINVAL\<rparr>)
          else do {
            (result, backend, perf) \<leftarrow> ApplyWithFallback k pid uid plan prep rule_index src (mut_locked m)
                                        (mut_backend m) (mut_perf m);
            MountLoop k pid uid plan prep rules (RecordApply result backend perf m) } })"

subsection \<open>Verification\<close>

definition RecordVerify :: "nat \<Rightarrow> MountError \<Rightarrow> AppliedMount \<Rightarrow> Mutation \<Rightarrow> Mutation" where
  "RecordVerify index verify verified m =
     (let updated = (if err_confirmed verify then Journal_UpdateAt index verified (mut_journal m)
                     else Some (mut_journal m));
          error = (if updated = None then Some EOVERFLOW else err_error verify);
          stage = (if updated = None then Verify else err_stage verify)
      in m\<lparr>mut_journal := (case updated of None \<Rightarrow> mut_journal m | Some j \<Rightarrow> j),
           mut_untracked := (mut_untracked m \<or> updated = None),
           mut_error := (if mut_error m = None then error else mut_error m),
           mut_perf := (if error \<noteq> None then (mut_perf m)\<lparr>perf_failure_stage := stage\<rparr> else mut_perf m)\<rparr>)"

text \<open>The loop over the journal after the mounts: it fills in the mount ids of confirmed mounts.\<close>

fun VerifyLoop ::
  "'w kernel \<Rightarrow> ProcessPlan \<Rightarrow> Prepared \<Rightarrow> MountInfoSnapshot \<Rightarrow> nat \<Rightarrow> nat list \<Rightarrow> Mutation \<Rightarrow> ('w, Mutation) state" where
  "VerifyLoop k plan prep after expected_mount_count [] m = ret m"
| "VerifyLoop k plan prep after expected_mount_count (index # indexes) m =
     (let ws = prep_workspace prep in
      case Journal_At index (mut_journal m) of
        Some recorded \<Rightarrow>
          let rule_index = applied_operation recorded; src = ws_source_indexes ws ! rule_index in
          if rule_index \<ge> length (plan_mounts plan) \<or> src \<ge> length (ws_sources ws)
          then VerifyLoop k plan prep after expected_mount_count indexes
                 (m\<lparr>mut_error := (if mut_error m = None then Some EOVERFLOW else mut_error m),
                    mut_untracked := True\<rparr>)
          else do {
            (verify, verified) \<leftarrow> VerifyDirectoryMount k (prep_mounts prep) after (ws_sources ws ! src)
               (ws_targets ws ! rule_index) (ws_target_locators ws ! rule_index) recorded expected_mount_count;
            VerifyLoop k plan prep after expected_mount_count indexes (RecordVerify index verify verified m) }
      | None \<Rightarrow>
          VerifyLoop k plan prep after expected_mount_count indexes
            (m\<lparr>mut_error := (if mut_error m = None then Some EOVERFLOW else mut_error m), mut_untracked := True\<rparr>))"

text \<open>The snapshot after the mounts, where one is needed: the state and the snapshot if it was taken.\<close>

definition VerifyMounts ::
  "'w kernel \<Rightarrow> ProcessPlan \<Rightarrow> Prepared \<Rightarrow> Mutation \<Rightarrow> ('w, Mutation \<times> MountInfoSnapshot option) state" where
  "VerifyMounts k plan prep m =
     (if \<not> NeedsPostMountSnapshot (mut_backend m) (journal_size (mut_journal m) \<noteq> 0) (mut_error m = None)
      then ret (m, None)
      else do {
        captured \<leftarrow> Capture k;
        case captured of
          Inl e \<Rightarrow> ret (m\<lparr>mut_error := (if mut_error m = None then Some e else mut_error m),
                          mut_perf := (mut_perf m)\<lparr>perf_failure_stage := Verify\<rparr>\<rparr>, None)
        | Inr after \<Rightarrow> do {
            let m = m\<lparr>mut_perf := (mut_perf m)\<lparr>perf_snapshot_count := perf_snapshot_count (mut_perf m) + 1\<rparr>\<rparr>;
            m' \<leftarrow> VerifyLoop k plan prep after (journal_size (mut_journal m)) [0..<journal_size (mut_journal m)] m;
            ret (m', Some after) } })"

subsection \<open>Rollback\<close>

text \<open>The three loops over the journal, newest entry first: the error of the first failure.  \<open>At\<close> answers
  every index below the size.\<close>

fun ValidateLoop :: "'w kernel \<Rightarrow> MountInfoSnapshot \<Rightarrow> AppliedMount MutationJournal \<Rightarrow> nat \<Rightarrow> ('w, errno option) state" where
  "ValidateLoop k snapshot journal 0 = ret None"
| "ValidateLoop k snapshot journal (Suc index) =
     (case Journal_At index journal of
        None \<Rightarrow> ret (Some EOVERFLOW)
      | Some applied \<Rightarrow> do {
          rollback \<leftarrow> ValidateRollbackDirectoryMount k applied snapshot;
          if err_error rollback \<noteq> None then ret (err_error rollback)
          else ValidateLoop k snapshot journal index })"

fun UnmountLoop :: "'w kernel \<Rightarrow> AppliedMount MutationJournal \<Rightarrow> nat \<Rightarrow> ('w, errno option) state" where
  "UnmountLoop k journal 0 = ret None"
| "UnmountLoop k journal (Suc index) = do {
     rollback \<leftarrow> UnmountValidatedDirectoryMount k (journal_entries journal ! index);
     if err_error rollback \<noteq> None then ret (err_error rollback) else UnmountLoop k journal index }"

fun VerifyRollbackLoop ::
  "'w kernel \<Rightarrow> MountInfoSnapshot \<Rightarrow> AppliedMount MutationJournal \<Rightarrow> nat \<Rightarrow> ('w, errno option) state" where
  "VerifyRollbackLoop k snapshot journal 0 = ret None"
| "VerifyRollbackLoop k snapshot journal (Suc index) = do {
     rollback \<leftarrow> VerifyRollbackDirectoryMount k (journal_entries journal ! index) snapshot;
     if err_error rollback \<noteq> None then ret (err_error rollback)
     else VerifyRollbackLoop k snapshot journal index }"

text \<open>The identity snapshot of the rollback: the one taken for verification, or a new one if mounts were made.\<close>

definition RollbackSnapshot ::
  "'w kernel \<Rightarrow> nat \<Rightarrow> MountInfoSnapshot option \<Rightarrow> ('w, (errno + MountInfoSnapshot) \<times> nat) state" where
  "RollbackSnapshot k recorded taken =
     (case taken of
        Some s \<Rightarrow> ret (Inr s, 0)
      | None \<Rightarrow>
          if recorded = 0 then ret (Inr no_snapshot, 0)
          else do { captured \<leftarrow> Capture k; ret (captured, case captured of Inl _ \<Rightarrow> 0 | Inr _ \<Rightarrow> 1) })"

text \<open>\<open>None\<close> when the rollback succeeded, else the error of its failure.\<close>

definition Rollback ::
  "'w kernel \<Rightarrow> AppliedMount MutationJournal \<Rightarrow> MountInfoSnapshot option \<Rightarrow> ('w, errno option \<times> nat) state" where
  "Rollback k journal taken = do {
     (before, n) \<leftarrow> RollbackSnapshot k (journal_size journal) taken;
     case before of
       Inl e \<Rightarrow> ret (Some e, n)
     | Inr identity_snapshot \<Rightarrow> do {
         validated \<leftarrow> ValidateLoop k identity_snapshot journal (journal_size journal);
         if validated \<noteq> None then ret (validated, n)
         else do {
           unmounted \<leftarrow> UnmountLoop k journal (journal_size journal);
           if unmounted \<noteq> None then ret (unmounted, n)
           else if journal_size journal = 0 then ret (None, n)
           else do {
             after \<leftarrow> Capture k;
             case after of
               Inl e \<Rightarrow> ret (Some e, n)
             | Inr s \<Rightarrow> do {
                 verified \<leftarrow> VerifyRollbackLoop k s journal (journal_size journal);
                 ret (verified, n + 1) } } } } }"

subsection \<open>The transaction\<close>

text \<open>The early publication of a strict success: whether it succeeded, or the error that replaces it.\<close>

definition PublishStrict :: "'w kernel \<Rightarrow> Mutation \<Rightarrow> ('w, Mutation \<times> bool) state" where
  "PublishStrict k m =
     (if mut_error m \<noteq> None \<or>
         NeedsPostMountSnapshot (mut_backend m) (journal_size (mut_journal m) \<noteq> 0) True
      then ret (m, False)
      else do {
        let perf = (mut_perf m)\<lparr>perf_result := None\<rparr>;
        published \<leftarrow> TxPublish k perf Applying Complete;
        ret (if published then (m\<lparr>mut_perf := perf\<rparr>, True)
             else (m\<lparr>mut_perf := perf, mut_error := Some ECANCELED\<rparr>, False)) })"

definition PublishVerified :: "'w kernel \<Rightarrow> Mutation \<Rightarrow> bool \<Rightarrow> ('w, Mutation) state" where
  "PublishVerified k m already =
     (if mut_error m \<noteq> None \<or> already then ret m
      else do {
        let perf = (mut_perf m)\<lparr>perf_result := None\<rparr>;
        published \<leftarrow> TxPublish k perf Applying Complete;
        ret (m\<lparr>mut_perf := perf, mut_error := (if published then None else Some ECANCELED)\<rparr>) })"

text \<open>The outcome of a failed transaction: the namespace is given up when it may be changed for good.\<close>

definition PublishFailure ::
  "'w kernel \<Rightarrow> u64 \<times> u64 \<Rightarrow> MountPerfResult \<Rightarrow> bool \<Rightarrow> ('w, unit) state" where
  "PublishFailure k ns perf tainted = do {
     current \<leftarrow> shared_load k;
     if tainted then do {
       TxPublish k perf current NamespaceTainted;
       TerminateNamespaceMembers k ns;
       ret () }
     else if current = CancelRequested then do { TxPublish k perf CancelRequested RollbackComplete; ret () }
     else if current = Applying then do { TxPublish k perf Applying RollbackComplete; ret () }
     else ret () }"

definition FinishPlan ::
  "'w kernel \<Rightarrow> Prepared \<Rightarrow> bool \<Rightarrow> Mutation \<Rightarrow> MountInfoSnapshot option \<Rightarrow> ('w, MountPerfResult) state" where
  "FinishPlan k prep propagation_changed m taken = do {
     (failed, n) \<leftarrow> (if mut_error m \<noteq> None then Rollback k (mut_journal m) taken else ret (None, 0));
     let error = (if failed \<noteq> None then failed else mut_error m);
     CloseWorkspace k (prep_workspace prep);
     let perf = (mut_perf m)\<lparr>perf_result := error,
                  perf_rollback_failed := (perf_rollback_failed (mut_perf m) \<or> failed \<noteq> None),
                  perf_snapshot_count := perf_snapshot_count (mut_perf m) + n\<rparr>;
     (if error = None then ret ()
      else PublishFailure k (prep_namespace prep) perf
             (propagation_changed \<or> failed \<noteq> None \<or> mut_untracked m));
     ret perf }"

text \<open>What follows the mounts.\<close>

definition CompletePlan ::
  "'w kernel \<Rightarrow> ProcessPlan \<Rightarrow> Prepared \<Rightarrow> bool \<Rightarrow> Mutation \<Rightarrow> ('w, MountPerfResult) state" where
  "CompletePlan k plan prep propagation_changed m = do {
     cancelled \<leftarrow> (if mut_error m = None then TxCancelRequested k else ret False);
     (m, published) \<leftarrow> PublishStrict k (if cancelled then m\<lparr>mut_error := Some ECANCELED\<rparr> else m);
     (m, taken) \<leftarrow> VerifyMounts k plan prep m;
     m \<leftarrow> PublishVerified k m published;
     FinishPlan k prep propagation_changed m taken }"

definition empty_journal :: "AppliedMount MutationJournal" where
  "empty_journal = Journal_new (replicate kMaxMountRules
     \<lparr>applied_backend = BackendUnsupported, applied_target = [], applied_mount_id = 0, applied_operation = 0\<rparr>)"

definition MutatePlan ::
  "'w kernel \<Rightarrow> int \<Rightarrow> u32 \<Rightarrow> ProcessPlan \<Rightarrow> Prepared \<Rightarrow> ('w, MountPerfResult) state" where
  "MutatePlan k pid uid plan prep = do {
     private_error \<leftarrow> (if prep_private prep then sys_make_private k ''/storage'' else ret None);
     m \<leftarrow> MountLoop k pid uid plan prep [0..<length (plan_mounts plan)]
            \<lparr>mut_error = private_error, mut_backend = prep_backend prep, mut_locked = prep_locked prep,
             mut_journal = empty_journal, mut_untracked = False, mut_perf = prep_perf prep\<rparr>;
     CompletePlan k plan prep (prep_private prep \<and> private_error = None) m }"

definition ApplyProcessPlan ::
  "'w kernel \<Rightarrow> int \<Rightarrow> u32 \<Rightarrow> int \<Rightarrow> ProcessPlan \<Rightarrow> RuntimeStorageTopology \<Rightarrow> ('w, MountPerfResult) state" where
  "ApplyProcessPlan k pid uid module_dir_fd plan topology = do {
     r \<leftarrow> PreflightPlan k pid uid module_dir_fd plan topology;
     case r of
       Inl perf \<Rightarrow> ret perf
     | Inr prep \<Rightarrow> MutatePlan k pid uid plan prep }"

end
