(* ===== verification/PG_AllOrNothing.thy ===== *)
theory PG_AllOrNothing
  imports PG_Transaction
begin

text \<open>
  What the mount transaction of \<open>PG_Transaction\<close> does to the system.  Every function gets a lemma in the event
  logic of \<open>PG_Kernel\<close>: the preflight changes no mount, the mount loop appends one mount per rule and
  journals it, verification changes nothing, the rollback unmounts the journal in reverse.  They compose to
  one statement about \<open>ApplyProcessPlan\<close>.
\<close>

subsection \<open>What the preflight does\<close>

lemma quiet_case [emits_intro]:
  "(\<And>a b. s = Inl (a, b) \<Longrightarrow> emits obs (f a b) Q) \<Longrightarrow> (\<And>c. s = Inr c \<Longrightarrow> emits obs (g c) Q) \<Longrightarrow>
   emits obs (case s of Inl (a, b) \<Rightarrow> f a b | Inr c \<Rightarrow> g c) Q"
  by (auto split: sum.split prod.split)

lemma quiet_ReadProcessUid [quiet_rules]: "quiet (ReadProcessUid (logged k) pid uid)"
  unfolding ReadProcessUid_def logged_calls by (intro emits_intro) simp

lemma quiet_ReadProcessStartTime [quiet_rules]: "quiet (ReadProcessStartTime (logged k) pid)"
  unfolding ReadProcessStartTime_def logged_calls by (intro emits_intro) simp

lemma quiet_DisposableEntries:
  "quiet (DisposableEntries (logged k) pid uid ns self names found)"
proof (induction names arbitrary: found)
  case (Cons name names)
  show ?case unfolding DisposableEntries.simps logged_calls
    by (intro emits_intro emits_weaken [OF Cons.IH] emits_weaken [OF quiet_ReadProcessUid]) simp_all
qed (simp add: emits_ret)

lemma quiet_IsDisposableAppNamespace [quiet_rules]: "quiet (IsDisposableAppNamespace (logged k) pid uid ns)"
  unfolding IsDisposableAppNamespace_def logged_calls
  by (intro emits_intro emits_weaken [OF quiet_DisposableEntries]) simp_all

lemma quiet_BuildDenyAnchorPath [quiet_rules]: "quiet (BuildDenyAnchorPath (logged k) fd capacity)"
proof -
  have c: "quiet (CheckAnchor (logged k) fd)" for fd
    unfolding CheckAnchor_def logged_calls by (intro emits_intro) simp_all
  show ?thesis unfolding BuildDenyAnchorPath_def Let_def logged_calls
    by (intro emits_intro emits_weaken [OF c]) simp_all
qed

lemma quiet_ChooseSource: "quiet (ChooseSource (logged k) s topology candidates)"
proof (induction candidates)
  case (Cons c cs)
  show ?case unfolding ChooseSource.simps
    by (intro emits_intro emits_weaken [OF Cons.IH] emits_weaken [OF quiet_PinDirectory]
        emits_weaken [OF quiet_ClosePinnedIdentity]) simp_all
qed (simp add: emits_ret)

lemma quiet_CaptureStorageTopology [quiet_rules]:
  "quiet (CaptureStorageTopologyFromSnapshot (logged k) uid root s)"
  unfolding CaptureStorageTopologyFromSnapshot_def Let_def
  by (intro emits_intro emits_weaken [OF quiet_ChooseSource] emits_weaken [OF quiet_PinDirectory]
        emits_weaken [OF quiet_ClosePinnedIdentity]) simp_all

lemma quiet_CloseAll: "quiet (CloseAll (logged k) ps)"
proof (induction ps)
  case (Cons p ps)
  show ?case unfolding CloseAll.simps
    by (intro emits_intro emits_weaken [OF Cons.IH] emits_weaken [OF quiet_ClosePinnedIdentity]) simp_all
qed (simp add: emits_ret)

lemma quiet_CloseWorkspace [quiet_rules]: "quiet (CloseWorkspace (logged k) ws)"
  unfolding CloseWorkspace_def by (intro emits_intro emits_weaken [OF quiet_CloseAll]) simp_all

lemma quiet_TxCancelRequested [quiet_rules]: "quiet (TxCancelRequested (logged k))"
  unfolding TxCancelRequested_def logged_calls by (intro emits_intro) simp

lemma quiet_ProbeIsolated [quiet_rules]: "quiet (ProbeMountBackendsIsolated (logged k) source target)"
  unfolding ProbeMountBackendsIsolated_def Let_def logged_calls by (intro emits_intro) simp_all

lemma quiet_LeaseReason [quiet_rules]:
  "quiet (LeaseReason (logged k) pid uid plan topology start s)"
  unfolding LeaseReason_def Let_def logged_calls
  by (intro emits_intro emits_weaken [OF quiet_ReadProcessUid] emits_weaken [OF quiet_ReadProcessStartTime]
      emits_weaken [OF quiet_CaptureStorageTopology]) simp_all

lemma quiet_EnterNamespace [quiet_rules]: "quiet (EnterNamespace (logged k) pid)"
  unfolding EnterNamespace_def logged_calls by (intro emits_intro) simp_all

lemma ChooseBackend_emits:
  "emits is_mount_event (ChooseBackend (logged k) pid uid plan ns required ws perf)
     (\<lambda>r es. es = [] \<and> (fst r = Inr LegacyString \<longrightarrow> allow_legacy plan))"
proof -
  have l: "selected_backend (SelectMountBackend required c legacy) = LegacyString \<Longrightarrow> legacy" for c legacy
    by (auto simp: SelectMountBackend_def split: if_splits)
  show ?thesis unfolding ChooseBackend_def Let_def
    by (intro emits_intro emits_weaken [OF quiet_ProbeIsolated] emits_weaken [OF quiet_IsDisposableAppNamespace])
      (auto dest: l)
qed

lemma TxAcquireLease_emits:
  "emits is_mount_event (TxAcquireLease (logged k))
     (\<lambda>ok es. if ok then es = [StatusSet Applying] else es = [] \<or> es = [StatusSet Cancelled])"
  unfolding TxAcquireLease_def TxTransition_def logged_calls
  by (intro emits_intro) (auto simp: silent_def IsMountTransitionAllowed_def)

text \<open>A workspace that holds the directories of the rules \<open>rules\<close>.\<close>

definition workspace_ok :: "ProcessPlan \<Rightarrow> RuntimeStorageTopology \<Rightarrow> PlannedMount list \<Rightarrow> MountTransactionWorkspace \<Rightarrow> bool" where
  "workspace_ok plan topology rules ws \<longleftrightarrow>
     map Some (ws_target_locators ws) = map (TargetPath plan topology) rules \<and>
     length (ws_targets ws) = length rules \<and> length (ws_source_indexes ws) = length rules \<and>
     length (ws_source_locators ws) = length (ws_sources ws) \<and>
     (\<forall>i \<in> set (ws_source_indexes ws). i < length (ws_sources ws))"

lemma source_index_le: "source_index s ls \<le> length ls"
  by (simp add: source_index_def length_takeWhile_le)

lemma source_index_new: "\<not> source_index s ls < length ls \<Longrightarrow> source_index s (ls @ [s]) = length ls"
  by (auto simp: source_index_def length_takeWhile_less takeWhile_append)

lemma PinRule_workspace:
  assumes "workspace_ok plan topology rules ws" "TargetPath plan topology rule = Some target"
  shows "emits is_mount_event (PinRule (logged k) s source target ws)
    (\<lambda>r es. es = [] \<and> (fst r = None \<longrightarrow> workspace_ok plan topology (rules @ [rule]) (snd r)))"
  unfolding PinRule_def
  by (intro emits_intro emits_weaken [OF quiet_PinDirectory])
    (use assms source_index_new source_index_le in
      \<open>auto simp: workspace_ok_def less_Suc_eq split: sum.splits\<close>)

lemma PinLoop_workspace:
  assumes "workspace_ok plan topology seen ws"
  shows "emits is_mount_event (PinLoop (logged k) plan topology anchor s ws rules)
    (\<lambda>r es. es = [] \<and> (fst r = None \<longrightarrow> workspace_ok plan topology (seen @ rules) (snd r)))"
  using assms
proof (induction rules arbitrary: seen ws)
  case (Cons rule rules)
  show ?case
  proof (cases "TargetPath plan topology rule = None \<or> BuildMountSourcePath plan topology rule anchor PATH_MAX = None")
    case True
    thus ?thesis by (auto simp: emits_ret split: option.split)
  next
    case False
    then obtain target source where t: "TargetPath plan topology rule = Some target"
      "BuildMountSourcePath plan topology rule anchor PATH_MAX = Some source" by auto
    show ?thesis unfolding PinLoop.simps t prod.case option.case
      by (intro emits_intro emits_weaken [OF PinRule_workspace [OF Cons.prems t(1)]])
        (use Cons.IH [of "seen @ [rule]"] in \<open>auto intro!: emits_intro elim!: emits_weaken\<close>)
  qed
qed (simp add: emits_ret)


text \<open>What the preflight hands over.\<close>

definition prepared_ok :: "ProcessPlan \<Rightarrow> RuntimeStorageTopology \<Rightarrow> Prepared \<Rightarrow> bool" where
  "prepared_ok plan topology prep \<longleftrightarrow>
     workspace_ok plan topology (plan_mounts plan) (prep_workspace prep) \<and>
     (prep_backend prep = LegacyString \<longrightarrow> allow_legacy plan)"

lemma PreflightLease_emits:
  assumes "workspace_ok plan topology (plan_mounts plan) ws"
  shows "emits is_mount_event
    (PreflightLease (logged k) pid uid plan topology start ns required s ws perf)
    (\<lambda>r es. case r of Inl _ \<Rightarrow> es = [] \<or> es = [StatusSet Cancelled]
            | Inr prep \<Rightarrow> es = [StatusSet Applying] \<and> prepared_ok plan topology prep)"
  unfolding PreflightLease_def Let_def
  by (intro emits_intro emits_weaken [OF quiet_LeaseReason] emits_weaken [OF ChooseBackend_emits]
      emits_weaken [OF quiet_TxCancelRequested] emits_weaken [OF TxAcquireLease_emits])
    (use assms in \<open>auto simp: prepared_ok_def\<close>)

definition preflight_outcome ::
  "ProcessPlan \<Rightarrow> RuntimeStorageTopology \<Rightarrow> MountPerfResult + Prepared \<Rightarrow> event list \<Rightarrow> bool" where
  "preflight_outcome plan topology r es \<longleftrightarrow>
     (case r of
        Inl perf \<Rightarrow> perf_result perf \<noteq> None \<and> (es = [] \<or> es = [StatusSet Cancelled])
      | Inr prep \<Rightarrow> es = [StatusSet Applying] \<and> prepared_ok plan topology prep)"

lemma PreflightPins_emits:
  "emits is_mount_event (PreflightPins (logged k) pid uid plan topology start ns required anchor perf)
     (preflight_outcome plan topology)"
proof -
  have e: "workspace_ok plan topology [] empty_workspace" by (simp add: workspace_ok_def empty_workspace_def)
  show ?thesis unfolding PreflightPins_def Let_def
    by (intro emits_intro emits_weaken [OF quiet_Capture] emits_weaken [OF quiet_NamespaceMatches]
        emits_weaken [OF PinLoop_workspace [OF e]] emits_weaken [OF PreflightLease_emits]
        emits_weaken [OF quiet_CloseWorkspace])
      (auto simp: preflight_outcome_def)
qed

lemma PreflightPlan_emits:
  "emits is_mount_event (PreflightPlan (logged k) pid uid fd plan topology) (preflight_outcome plan topology)"
  unfolding PreflightPlan_def Let_def logged_calls
  by (intro emits_intro emits_weaken [OF quiet_TxCancelRequested] emits_weaken [OF quiet_ReadProcessUid]
      emits_weaken [OF quiet_ReadProcessStartTime] emits_weaken [OF quiet_EnterNamespace]
      emits_weaken [OF quiet_BuildDenyAnchorPath] emits_weaken [OF PreflightPins_emits])
    (auto simp: preflight_outcome_def)

subsection \<open>What the mounts do\<close>

definition mounted :: "MountBackendKind \<Rightarrow> MountTransactionWorkspace \<Rightarrow> nat \<Rightarrow> event \<Rightarrow> bool" where
  "mounted b ws i e \<longleftrightarrow>
     (let src = ws_source_indexes ws ! i in
      mounts_on b (pin_fd (ws_sources ws ! src)) (pin_fd (ws_targets ws ! i)) (ws_source_locators ws ! src)
        (ws_target_locators ws ! i) e)"

definition journal_record :: "MountBackendKind \<Rightarrow> MountTransactionWorkspace \<Rightarrow> nat \<Rightarrow> AppliedMount" where
  "journal_record b ws i = \<lparr>applied_backend = b, applied_target = path_buffer (ws_target_locators ws ! i),
     applied_mount_id = 0, applied_operation = i\<rparr>"

lemma ApplyDirectoryMountRaw_emits:
  "emits is_mount_event (ApplyDirectoryMountRaw (logged k) b op source target sp tp)
     (\<lambda>r es. if err_error (snd r) = None
        then err_mutation (snd r) \<and>
          fst r = \<lparr>applied_backend = b, applied_target = path_buffer tp, applied_mount_id = 0, applied_operation = op\<rparr> \<and>
          (\<exists>e. es = [e] \<and> mounts_on b (pin_fd source) (pin_fd target) sp tp e)
        else \<not> err_mutation (snd r) \<and> es = [])"
  unfolding ApplyDirectoryMountRaw_def Let_def
  by (intro emits_intro emits_weaken [OF quiet_VerifyPinnedDirectory] emits_weaken [OF ApplyRaw_emits])
    (auto simp: no_error_def split: if_splits)

lemma NextMountBackend_legacy: "NextMountBackend b r legacy a = LegacyString \<Longrightarrow> legacy"
  by (auto simp: NextMountBackend_def split: if_splits)

text \<open>One rule: at most one mount, by the backend that is reported, which only changes for the first rule.\<close>

definition rule_outcome ::
  "ProcessPlan \<Rightarrow> MountTransactionWorkspace \<Rightarrow> nat \<Rightarrow> bool \<Rightarrow> MountBackendKind \<Rightarrow>
   (AppliedMount \<times> MountError) \<times> MountBackendKind \<times> MountPerfResult \<Rightarrow> event list \<Rightarrow> bool" where
  "rule_outcome plan ws i locked backend r es \<longleftrightarrow>
     (case r of (result, b, _) \<Rightarrow>
        (if err_error (snd result) = None
         then err_mutation (snd result) \<and> fst result = journal_record b ws i \<and> (\<exists>e. es = [e] \<and> mounted b ws i e)
         else \<not> err_mutation (snd result) \<and> es = []) \<and>
        (locked \<or> i \<noteq> 0 \<longrightarrow> b = backend) \<and>
        (b = LegacyString \<longrightarrow> backend = LegacyString \<or> allow_legacy plan))"

lemma ApplyWithFallback_emits:
  assumes "src = ws_source_indexes (prep_workspace prep) ! i"
  shows "emits is_mount_event (ApplyWithFallback (logged k) pid uid plan prep i src locked backend perf)
    (rule_outcome plan (prep_workspace prep) i locked backend)"
proof (induction "backend_rank backend" arbitrary: backend perf rule: less_induct)
  case less
  have IH: "emits is_mount_event (ApplyWithFallback (logged k) pid uid plan prep i src locked
        (NextMountBackend backend r (allow_legacy plan) a) perf')
      (rule_outcome plan (prep_workspace prep) i locked (NextMountBackend backend r (allow_legacy plan) a))"
    if "NextMountBackend backend r (allow_legacy plan) a \<noteq> BackendUnsupported" for r a perf'
    by (rule less) (rule NextMountBackend_rank [OF that])
  show ?case
    by (subst ApplyWithFallback.simps)
      (intro emits_intro emits_weaken [OF ApplyDirectoryMountRaw_emits]
        emits_weaken [OF quiet_IsDisposableAppNamespace] emits_weaken [OF IH],
       auto simp: rule_outcome_def mounted_def journal_record_def Let_def assms
         dest: NextMountBackend_legacy split: if_splits)
qed

text \<open>The loop over the rules: the journal holds the mounts made, unless one did not fit.\<close>

definition mutation_ok :: "MountTransactionWorkspace \<Rightarrow> nat \<Rightarrow> Mutation \<Rightarrow> bool" where
  "mutation_ok ws n m \<longleftrightarrow>
     journal_inv (mut_journal m) \<and>
     (\<exists>j \<le> n. map applied_target (journal_log (mut_journal m)) = map (\<lambda>i. path_buffer (ws_target_locators ws ! i)) [0..<j] \<and>
        (\<not> mut_untracked m \<longrightarrow> j = n)) \<and>
     (mut_untracked m \<longrightarrow> mut_error m \<noteq> None)"

definition loop_outcome ::
  "ProcessPlan \<Rightarrow> MountTransactionWorkspace \<Rightarrow> nat \<Rightarrow> nat \<Rightarrow> Mutation \<Rightarrow> Mutation \<Rightarrow> event list \<Rightarrow> bool" where
  "loop_outcome plan ws rules_total n m m' es \<longleftrightarrow>
     mutation_ok ws (n + length es) m' \<and>
     (\<forall>i < length es. mounted (mut_backend m') ws (n + i) (es ! i)) \<and>
     (mut_error m' = None \<longrightarrow> n + length es = rules_total) \<and> n + length es \<le> rules_total \<and>
     (0 < n \<longrightarrow> mut_backend m' = mut_backend m) \<and>
     (mut_backend m' = LegacyString \<longrightarrow> mut_backend m = LegacyString \<or> allow_legacy plan)"

lemma journal_push_log:
  assumes "journal_inv j"
  shows "case Journal_Push e j of None \<Rightarrow> True | Some j' \<Rightarrow> journal_inv j' \<and> journal_log j' = journal_log j @ [e]"
  using journal.push_Some [OF assms] by (auto split: option.split)


lemma MountLoop_stop: "mut_error m \<noteq> None \<Longrightarrow> MountLoop k pid uid plan prep rules m = ret m"
  by (cases rules) simp_all

lemma mutation_ok_error: "mutation_ok ws n m \<Longrightarrow> mutation_ok ws n (m\<lparr>mut_error := Some e\<rparr>)"
  by (simp add: mutation_ok_def)

lemma RecordApply_ok:
  assumes ok: "mutation_ok ws n m" "mut_error m = None"
    and r: "rule_outcome plan ws n (mut_locked m) (mut_backend m) (result, b, perf) es"
  shows "mutation_ok ws (n + length es) (RecordApply result b perf m)"
    "mut_error (RecordApply result b perf m) = None \<Longrightarrow> length es = 1"
    "mut_backend (RecordApply result b perf m) = b"
proof -
  have inv: "journal_inv (mut_journal m)" and not_un: "\<not> mut_untracked m"
    and log: "map applied_target (journal_log (mut_journal m)) = map (\<lambda>i. path_buffer (ws_target_locators ws ! i)) [0..<n]"
    using ok by (auto simp: mutation_ok_def)
  note push = journal_push_log [OF inv, of "fst result"]
  show "mut_backend (RecordApply result b perf m) = b" by (simp add: RecordApply_def Let_def)
  show "mut_error (RecordApply result b perf m) = None \<Longrightarrow> length es = 1"
    using r by (auto simp: RecordApply_def Let_def rule_outcome_def split: if_splits)
  show "mutation_ok ws (n + length es) (RecordApply result b perf m)"
  proof (cases "err_error (snd result)")
    case None
    hence x: "err_mutation (snd result)" "fst result = journal_record b ws n" "length es = 1"
      using r by (auto simp: rule_outcome_def)
    show ?thesis
    proof (cases "Journal_Push (fst result) (mut_journal m)")
      case (Some j)
      hence "map applied_target (journal_log j) = map (\<lambda>i. path_buffer (ws_target_locators ws ! i)) [0..<Suc n]"
        using push log x(2) by (simp add: journal_record_def)
      thus ?thesis using None x not_un push Some
        by (auto simp: mutation_ok_def RecordApply_def Let_def)
    qed (use None x inv log not_un in \<open>auto simp: mutation_ok_def RecordApply_def Let_def intro!: exI [of _ n]\<close>)
  next
    case (Some e)
    hence "\<not> err_mutation (snd result)" "es = []" using r by (auto simp: rule_outcome_def)
    thus ?thesis using Some inv log not_un by (auto simp: mutation_ok_def RecordApply_def Let_def)
  qed
qed

lemma MountLoop_emits:
  assumes "mutation_ok (prep_workspace prep) n m" "n \<le> rules_total"
  shows "emits is_mount_event (MountLoop (logged k) pid uid plan prep [n..<rules_total] m)
    (loop_outcome plan (prep_workspace prep) rules_total n m)"
  using assms
proof (induction "rules_total - n" arbitrary: n m)
  case 0
  thus ?case by (simp add: emits_ret loop_outcome_def)
next
  case (Suc d)
  let ?ws = "prep_workspace prep"
  have upt: "[n..<rules_total] = n # [Suc n..<rules_total]" using Suc.hyps(2) by (simp add: upt_conv_Cons)
  show ?case
  proof (cases "mut_error m")
    case (Some e)
    thus ?thesis using Suc.prems by (simp add: MountLoop_stop emits_ret loop_outcome_def)
  next
    case None
    have stop: "loop_outcome plan ?ws rules_total n m (m\<lparr>mut_error := Some e\<rparr>) []" for e
      using Suc.prems by (simp add: loop_outcome_def mutation_ok_error)
    have step: "emits is_mount_event (MountLoop (logged k) pid uid plan prep [Suc n..<rules_total] (RecordApply result b perf m))
        (\<lambda>m' es'. loop_outcome plan ?ws rules_total n m m' (es @ es'))"
      if r: "rule_outcome plan ?ws n (mut_locked m) (mut_backend m) (result, b, perf) es" for result b perf es
    proof -
      note R = RecordApply_ok [OF Suc.prems(1) None r]
      have b: "0 < n \<Longrightarrow> b = mut_backend m" "b = LegacyString \<Longrightarrow> mut_backend m = LegacyString \<or> allow_legacy plan"
        using r by (auto simp: rule_outcome_def)
      have ev: "length es \<le> 1" "es = [e] \<Longrightarrow> mounted b ?ws n e" for e
        using r by (auto simp: rule_outcome_def split: if_splits)
      show ?thesis
      proof (cases "mut_error (RecordApply result b perf m)")
        case None
        hence len: "length es = 1" using R(2) by simp
        then obtain e where e: "es = [e]" "mounted b ?ws n e" using ev(2) by (cases es) auto
        have "emits is_mount_event (MountLoop (logged k) pid uid plan prep [Suc n..<rules_total] (RecordApply result b perf m))
            (loop_outcome plan ?ws rules_total (Suc n) (RecordApply result b perf m))"
          using Suc.hyps R(1) len by (intro Suc.hyps(1)) auto
        thus ?thesis
          by (rule emits_weaken) (use b e R(3) in \<open>auto simp: loop_outcome_def All_less_Suc2\<close>)
      next
        case (Some err)
        have "length es = 0 \<or> (\<exists>e. es = [e])" using ev(1) by (cases es) auto
        hence "loop_outcome plan ?ws rules_total n m (RecordApply result b perf m) es"
          using R(1,3) b ev(2) Suc.hyps(2) Some by (auto simp: loop_outcome_def)
        thus ?thesis using Some by (simp add: MountLoop_stop emits_ret)
      qed
    qed
    show ?thesis unfolding upt MountLoop.simps Let_def
      by (intro emits_intro emits_weaken [OF quiet_TxCancelRequested] emits_weaken [OF ApplyWithFallback_emits [OF refl]])
        (use None stop step in auto)
  qed
qed

subsection \<open>What verification and rollback do\<close>

definition verified_from :: "MountTransactionWorkspace \<Rightarrow> nat \<Rightarrow> Mutation \<Rightarrow> Mutation \<Rightarrow> bool" where
  "verified_from ws n m m' \<longleftrightarrow>
     mutation_ok ws n m' \<and> mut_backend m' = mut_backend m \<and>
     (mut_error m \<noteq> None \<longrightarrow> mut_error m' = mut_error m)"

lemma verified_from_refl: "mutation_ok ws n m \<Longrightarrow> verified_from ws n m m"
  by (simp add: verified_from_def)

lemma verified_from_trans: "verified_from ws n m m' \<Longrightarrow> verified_from ws n m' m'' \<Longrightarrow> verified_from ws n m m''"
  by (auto simp: verified_from_def)

lemma journal_update_targets:
  assumes "journal_inv j" "Journal_At i j = Some e" "Journal_UpdateAt i v j = Some j'" "applied_target v = applied_target e"
  shows "journal_inv j' \<and> map applied_target (journal_log j') = map applied_target (journal_log j)"
proof -
  have "i < length (journal_log j)" "journal_log j ! i = e"
    using assms(2) journal.at_log [OF assms(1), of i] by (auto split: if_splits)
  thus ?thesis using Journal_UpdateAt_log(2) [OF assms(1,3)] assms(4)
    by (simp add: map_update) (metis list_update_id nth_map)
qed

lemma VerifyLoop_emits:
  assumes "mutation_ok ws n m"
  shows "emits is_mount_event (VerifyLoop (logged k) plan prep after total_mounts indexes m)
    (\<lambda>m' es. es = [] \<and> verified_from ws n m m')"
  using assms
proof (induction indexes arbitrary: m)
  case Nil
  thus ?case by (simp add: emits_ret verified_from_refl)
next
  case (Cons index indexes)
  have IH: "emits is_mount_event (VerifyLoop (logged k) plan prep after total_mounts indexes m1)
      (\<lambda>m' es. es = [] \<and> verified_from ws n m m')" if "verified_from ws n m m1" for m1
    by (rule emits_weaken [OF Cons.IH]) (use that verified_from_trans in \<open>auto simp: verified_from_def\<close>)
  have bad: "verified_from ws n m (m\<lparr>mut_error := (if mut_error m = None then Some EOVERFLOW else mut_error m),
      mut_untracked := True\<rparr>)"
    using Cons.prems by (auto simp: verified_from_def mutation_ok_def)
  show ?case
  proof (cases "Journal_At index (mut_journal m)")
    case None
    show ?thesis unfolding VerifyLoop.simps None option.case Let_def by (rule IH [OF bad])
  next
    case (Some recorded)
    have good: "verified_from ws n m (RecordVerify index verify verified m)"
      if "applied_target verified = applied_target recorded" for verify verified
      using that Cons.prems journal_update_targets [OF _ Some]
      by (auto simp: RecordVerify_def Let_def verified_from_def mutation_ok_def split: option.split)
    show ?thesis unfolding VerifyLoop.simps Some option.case Let_def
      by (intro emits_intro emits_weaken [OF VerifyDirectoryMount_target] IH bad)
        (auto intro!: emits_intro IH good)
  qed
qed

lemma VerifyMounts_emits:
  assumes "mutation_ok ws n m"
  shows "emits is_mount_event (VerifyMounts (logged k) plan prep m) (\<lambda>r es. es = [] \<and> verified_from ws n m (fst r))"
proof -
  have p: "mutation_ok ws n (m\<lparr>mut_perf := perf\<rparr>)" for perf using assms by (simp add: mutation_ok_def)
  have e: "verified_from ws n m (m\<lparr>mut_error := (if mut_error m = None then Some e else mut_error m), mut_perf := perf\<rparr>)" for e perf
    using assms by (auto simp: verified_from_def mutation_ok_def)
  show ?thesis unfolding VerifyMounts_def Let_def
    by (intro emits_intro emits_weaken [OF quiet_Capture] emits_weaken [OF VerifyLoop_emits [OF p]])
      (use assms e in \<open>auto simp: verified_from_def\<close>)
qed

lemma quiet_ValidateLoop: "quiet (ValidateLoop (logged k) s j index)"
proof (induction index)
  case (Suc index)
  show ?case unfolding ValidateLoop.simps
    by (intro emits_intro emits_weaken [OF quiet_ValidateRollback] emits_weaken [OF Suc.IH]) simp_all
qed (simp add: emits_ret)

lemma quiet_VerifyRollbackLoop: "quiet (VerifyRollbackLoop (logged k) s j index)"
proof (induction index)
  case (Suc index)
  show ?case unfolding VerifyRollbackLoop.simps
    by (intro emits_intro emits_weaken [OF quiet_VerifyRollback] emits_weaken [OF Suc.IH]) simp_all
qed (simp add: emits_ret)

definition unmounts :: "string list \<Rightarrow> event list" where
  "unmounts targets = map Unmounted (rev targets)"

lemma UnmountLoop_emits:
  "index \<le> length (journal_entries j) \<Longrightarrow>
   emits is_mount_event (UnmountLoop (logged k) j index)
     (\<lambda>r es. if r = None then es = unmounts (map applied_target (take index (journal_entries j)))
             else \<exists>i. es = take i (unmounts (map applied_target (take index (journal_entries j)))))"
proof (induction index)
  case (Suc index)
  let ?full = "\<lambda>n. unmounts (map applied_target (take n (journal_entries j)))"
  have full: "?full (Suc index) = Unmounted (applied_target (journal_entries j ! index)) # ?full index"
    using Suc.prems by (simp add: unmounts_def take_Suc_conv_app_nth)
  have none: "\<exists>i. [] = take i xs" for xs :: "event list" by (rule exI [of _ 0]) simp
  have cons: "\<exists>i. x # take k xs = take i (x # xs)" for x k and xs :: "event list"
    by (rule exI [of _ "Suc k"]) simp
  show ?case unfolding UnmountLoop.simps full
    by (intro emits_intro emits_weaken [OF UnmountValidated_emits] emits_weaken [OF Suc.IH])
      (use Suc.prems none cons in \<open>auto split: if_splits\<close>)
qed (simp add: emits_ret unmounts_def)

lemma Rollback_emits:
  assumes "journal_inv j"
  shows "emits is_mount_event (Rollback (logged k) j taken)
    (\<lambda>r es. if fst r = None then es = unmounts (map applied_target (journal_log j))
            else \<exists>i. es = take i (unmounts (map applied_target (journal_log j))))"
proof -
  have size: "journal_size j \<le> length (journal_entries j)" using assms by (simp add: journal_inv_def)
  have s: "quiet (RollbackSnapshot (logged k) n taken)" for n
    unfolding RollbackSnapshot_def by (intro emits_intro emits_weaken [OF quiet_Capture]) simp_all
  have none: "\<exists>i. [] = take i xs" and all: "\<exists>i. xs = take i xs" for xs :: "event list"
    by (rule exI [of _ 0], simp, rule exI [of _ "length xs"], simp)
  show ?thesis unfolding Rollback_def journal_log_def
    by (intro emits_intro emits_weaken [OF s] emits_weaken [OF quiet_ValidateLoop]
        emits_weaken [OF UnmountLoop_emits [OF size]] emits_weaken [OF quiet_Capture]
        emits_weaken [OF quiet_VerifyRollbackLoop])
      (use none all in \<open>auto split: if_splits\<close>)
qed

subsection \<open>The outcome of a transaction\<close>

definition is_kill :: "event \<Rightarrow> bool" where
  "is_kill e \<longleftrightarrow> (case e of Killed _ \<Rightarrow> True | _ \<Rightarrow> False)"

lemma ScanEntries_emits: "emits is_mount_event (ScanMembers (logged k) ns terminate self names acc) (\<lambda>_. list_all is_kill)"
proof (induction names arbitrary: acc)
  case Nil
  show ?case by (cases acc) (simp add: emits_ret)
next
  case (Cons name names)
  obtain a b where acc: "acc = (a, b)" by fastforce
  show ?case unfolding acc ScanMembers.simps logged_calls
    by (intro emits_intro emits_weaken [OF Cons.IH]) (auto simp: is_kill_def silent_def)
qed

lemma Scan_emits: "emits is_mount_event (ScanNamespaceMembers (logged k) ns terminate n) (\<lambda>_. list_all is_kill)"
  unfolding ScanNamespaceMembers_def logged_calls
  by (intro emits_intro emits_weaken [OF ScanEntries_emits]) simp_all

lemma Terminate_emits: "emits is_mount_event (TerminateNamespaceMembers (logged k) ns) (\<lambda>_. list_all is_kill)"
proof -
  have loop: "emits is_mount_event (TerminateLoop (logged k) ns attempts r) (\<lambda>_. list_all is_kill)" for attempts r
  proof (induction attempts arbitrary: r)
    case (Suc attempts)
    show ?case unfolding TerminateLoop.simps Let_def logged_calls
      by (intro emits_intro emits_weaken [OF Scan_emits] emits_weaken [OF Suc.IH]) simp_all
  qed (simp add: emits_ret)
  show ?thesis unfolding TerminateNamespaceMembers_def
    by (intro emits_intro emits_weaken [OF Scan_emits] emits_weaken [OF loop]) simp_all
qed

lemma TxPublish_emits:
  "emits is_mount_event (TxPublish (logged k) perf a b) (\<lambda>ok es. es = (if ok then [StatusSet b] else []))"
  unfolding TxPublish_def TxTransition_def logged_calls by (intro emits_intro) simp_all

text \<open>The end of a failed transaction: the rollback is reported, or the namespace is given up.\<close>

definition closing :: "bool \<Rightarrow> event list \<Rightarrow> bool" where
  "closing tainted es \<longleftrightarrow>
     (if tainted then \<exists>kills. list_all is_kill kills \<and> (es = kills \<or> es = StatusSet NamespaceTainted # kills)
      else es = [] \<or> es = [StatusSet RollbackComplete])"

lemma PublishFailure_emits: "emits is_mount_event (PublishFailure (logged k) ns perf tainted) (\<lambda>_. closing tainted)"
  unfolding PublishFailure_def logged_calls
  by (intro emits_intro emits_weaken [OF TxPublish_emits] emits_weaken [OF Terminate_emits])
    (auto simp: closing_def)

definition failed_end :: "string list \<Rightarrow> bool \<Rightarrow> event list \<Rightarrow> bool" where
  "failed_end targets changed es \<longleftrightarrow>
     (\<exists>fin. closing False fin \<and> \<not> changed \<and> es = unmounts targets @ fin) \<or>
     (\<exists>us fin. closing True fin \<and> es = us @ fin \<and> set us \<subseteq> Unmounted ` set targets)"

lemma failed_endI:
  "closing tainted fin \<Longrightarrow> set us \<subseteq> Unmounted ` set targets \<Longrightarrow>
   (\<not> tainted \<Longrightarrow> us = unmounts targets \<and> \<not> changed) \<Longrightarrow> failed_end targets changed (us @ fin)"
  by (cases tainted) (auto simp: failed_end_def)

lemma FinishPlan_emits:
  assumes inv: "journal_inv (mut_journal m)"
    and tracked: "\<not> mut_untracked m \<Longrightarrow> map applied_target (journal_log (mut_journal m)) = targets"
    and some: "set (map applied_target (journal_log (mut_journal m))) \<subseteq> set targets"
  shows "emits is_mount_event (FinishPlan (logged k) prep changed m taken)
    (\<lambda>perf es. if mut_error m = None then perf_result perf = None \<and> es = []
               else perf_result perf \<noteq> None \<and> failed_end targets changed es)"
proof -
  have sub': "set (unmounts (map applied_target (journal_log (mut_journal m)))) \<subseteq> Unmounted ` set targets"
    using some unfolding unmounts_def set_map set_rev by blast
  hence sub: "set (take i (unmounts (map applied_target (journal_log (mut_journal m))))) \<subseteq> Unmounted ` set targets" for i
    using set_take_subset by fastforce
  show ?thesis unfolding FinishPlan_def Let_def
    by (intro emits_intro emits_weaken [OF Rollback_emits [OF inv]] emits_weaken [OF quiet_CloseWorkspace]
        emits_weaken [OF PublishFailure_emits])
      (use tracked sub sub' in \<open>auto intro!: failed_endI split: if_splits\<close>)
qed

lemma PublishStrict_emits:
  assumes "mutation_ok ws n m"
  shows "emits is_mount_event (PublishStrict (logged k) m)
    (\<lambda>r es. es = (if snd r then [StatusSet Complete] else []) \<and> verified_from ws n m (fst r) \<and>
       (snd r \<longrightarrow> mut_error (fst r) = None \<and>
          \<not> NeedsPostMountSnapshot (mut_backend (fst r)) (journal_size (mut_journal (fst r)) \<noteq> 0) True))"
  unfolding PublishStrict_def Let_def
  by (intro emits_intro emits_weaken [OF TxPublish_emits])
    (use assms in \<open>auto simp: verified_from_def mutation_ok_def\<close>)

lemma PublishVerified_emits:
  assumes "mutation_ok ws n m"
  shows "emits is_mount_event (PublishVerified (logged k) m already)
    (\<lambda>m' es. verified_from ws n m m' \<and>
       es = (if mut_error m = None \<and> \<not> already \<and> mut_error m' = None then [StatusSet Complete] else []))"
  unfolding PublishVerified_def Let_def
  by (intro emits_intro emits_weaken [OF TxPublish_emits])
    (use assms in \<open>auto simp: verified_from_def mutation_ok_def\<close>)

text \<open>The targets of the first \<open>n\<close> rules.\<close>

definition first_targets :: "MountTransactionWorkspace \<Rightarrow> nat \<Rightarrow> string list" where
  "first_targets ws n = map (\<lambda>i. path_buffer (ws_target_locators ws ! i)) [0..<n]"

lemma mutation_targets:
  assumes "mutation_ok ws n m"
  shows "journal_inv (mut_journal m)"
    "\<not> mut_untracked m \<Longrightarrow> map applied_target (journal_log (mut_journal m)) = first_targets ws n"
    "set (map applied_target (journal_log (mut_journal m))) \<subseteq> set (first_targets ws n)"
proof -
  show "journal_inv (mut_journal m)" using assms by (simp add: mutation_ok_def)
  obtain j where "j \<le> n" "map applied_target (journal_log (mut_journal m)) = first_targets ws j"
    "\<not> mut_untracked m \<Longrightarrow> j = n" using assms by (auto simp: mutation_ok_def first_targets_def)
  thus "\<not> mut_untracked m \<Longrightarrow> map applied_target (journal_log (mut_journal m)) = first_targets ws n"
    "set (map applied_target (journal_log (mut_journal m))) \<subseteq> set (first_targets ws n)"
    by (auto simp: first_targets_def)
qed

definition completed :: "MountTransactionWorkspace \<Rightarrow> nat \<Rightarrow> nat \<Rightarrow> bool \<Rightarrow> MountPerfResult \<Rightarrow> event list \<Rightarrow> bool" where
  "completed ws rules_total n changed perf es \<longleftrightarrow>
     (if perf_result perf = None then n = rules_total \<and> es = [StatusSet Complete]
      else failed_end (first_targets ws n) changed es)"

lemma CompletePlan_emits:
  assumes ok: "mutation_ok ws n m" and all: "mut_error m = None \<Longrightarrow> n = rules_total"
  shows "emits is_mount_event (CompletePlan (logged k) plan prep changed m) (completed ws rules_total n changed)"
proof -
  have c: "mutation_ok ws n (if cancelled then m\<lparr>mut_error := Some ECANCELED\<rparr> else m)" for cancelled
    using ok by (simp add: mutation_ok_error)
  have finish: "emits is_mount_event (FinishPlan (logged k) prep changed m' taken)
      (\<lambda>perf es'. completed ws rules_total n changed perf (es @ es'))"
    if "mutation_ok ws n m'" "mut_error m' = None \<Longrightarrow> n = rules_total \<and> es = [StatusSet Complete]"
      "mut_error m' \<noteq> None \<Longrightarrow> es = []" for m' taken es
    by (rule emits_weaken [OF FinishPlan_emits [OF mutation_targets [OF that(1)]]])
      (use that(2,3) in \<open>auto simp: completed_def split: if_splits\<close>)
  have published: "emits is_mount_event (do { (m, taken) \<leftarrow> VerifyMounts (logged k) plan prep m1;
        m \<leftarrow> PublishVerified (logged k) m True; FinishPlan (logged k) prep changed m taken })
      (\<lambda>perf es'. completed ws rules_total n changed perf ([StatusSet Complete] @ es'))"
    if "mutation_ok ws n m1" "n = rules_total" "mut_error m1 = None"
      "\<not> NeedsPostMountSnapshot (mut_backend m1) (journal_size (mut_journal m1) \<noteq> 0) True" for m1
  proof -
    have "VerifyMounts (logged k) plan prep m1 = ret (m1, None)" "PublishVerified (logged k) m1 True = ret m1"
      using that by (simp_all add: VerifyMounts_def PublishVerified_def)
    thus ?thesis using that finish [of m1 "[StatusSet Complete]" None] by simp
  qed
  have pending: "emits is_mount_event (do { (m, taken) \<leftarrow> VerifyMounts (logged k) plan prep m1;
        m \<leftarrow> PublishVerified (logged k) m False; FinishPlan (logged k) prep changed m taken })
      (completed ws rules_total n changed)"
    if m1: "mutation_ok ws n m1" "mut_error m1 = None \<Longrightarrow> n = rules_total" for m1
  proof (rule emits_bind [OF VerifyMounts_emits [OF m1(1)]], safe)
    fix m2 and taken :: "MountInfoSnapshot option" and e :: "event list"
    assume "verified_from ws n m1 (fst (m2, taken))"
    hence m2: "mutation_ok ws n m2" "mut_error m2 = None \<Longrightarrow> n = rules_total"
      using m1(2) by (auto simp: verified_from_def)
    show "emits is_mount_event (do { m \<leftarrow> PublishVerified (logged k) m2 False; FinishPlan (logged k) prep changed m taken })
        (\<lambda>b e'. completed ws rules_total n changed b ([] @ e'))"
    proof (rule emits_bind [OF PublishVerified_emits [OF m2(1)]])
      fix m3 es
      assume "verified_from ws n m2 m3 \<and>
        es = (if mut_error m2 = None \<and> \<not> False \<and> mut_error m3 = None then [StatusSet Complete] else [])"
      hence "emits is_mount_event (FinishPlan (logged k) prep changed m3 taken)
          (\<lambda>perf es'. completed ws rules_total n changed perf (es @ es'))"
        using m2(2) by (intro finish) (auto simp: verified_from_def split: if_splits)
      thus "emits is_mount_event (FinishPlan (logged k) prep changed m3 taken)
          (\<lambda>b e'. completed ws rules_total n changed b ([] @ (es @ e')))" by simp
    qed
  qed
  have go_on: "emits is_mount_event (do { (m, taken) \<leftarrow> VerifyMounts (logged k) plan prep (fst r);
        m \<leftarrow> PublishVerified (logged k) m (snd r); FinishPlan (logged k) prep changed m taken })
      (\<lambda>perf es'. completed ws rules_total n changed perf (es @ es'))"
    if "es = (if snd r then [StatusSet Complete] else []) \<and> verified_from ws n m0 (fst r) \<and>
       (snd r \<longrightarrow> mut_error (fst r) = None \<and>
          \<not> NeedsPostMountSnapshot (mut_backend (fst r)) (journal_size (mut_journal (fst r)) \<noteq> 0) True)"
      "mut_error m0 = None \<Longrightarrow> n = rules_total" for r es m0
    using that published [of "fst r"] pending [of "fst r"] by (cases "snd r") (auto simp: verified_from_def)
  have strict: "emits is_mount_event (do { (m, published) \<leftarrow> PublishStrict (logged k) m0;
        (m, taken) \<leftarrow> VerifyMounts (logged k) plan prep m;
        m \<leftarrow> PublishVerified (logged k) m published; FinishPlan (logged k) prep changed m taken })
      (completed ws rules_total n changed)"
    if m0: "mutation_ok ws n m0" "mut_error m0 = None \<Longrightarrow> n = rules_total" for m0
    unfolding case_prod_beta
    by (rule emits_bind [OF PublishStrict_emits [OF m0(1)]])
      (rule go_on [unfolded case_prod_beta, OF _ m0(2)], assumption+)
  have c': "mut_error (if cancelled then m\<lparr>mut_error := Some ECANCELED\<rparr> else m) = None \<Longrightarrow> n = rules_total" for cancelled
    using all by (simp split: if_splits)
  have poll: "emits is_mount_event (if mut_error m = None then TxCancelRequested (logged k) else ret False) (\<lambda>_ e. e = [])"
    by (intro emits_if emits_ret quiet_TxCancelRequested refl)
  show ?thesis unfolding CompletePlan_def
    by (rule emits_bind [OF poll]) (use strict [OF c c'] in simp)
qed


text \<open>The state change that a plan with \<open>rules_total\<close> rules may make, once the lease is held.\<close>

definition mutation_outcome ::
  "ProcessPlan \<Rightarrow> MountTransactionWorkspace \<Rightarrow> MountPerfResult \<Rightarrow> event list \<Rightarrow> bool" where
  "mutation_outcome plan ws perf es \<longleftrightarrow>
     (\<exists>pr mounts rest b.
        es = pr @ mounts @ rest \<and> (pr = [] \<or> pr = [MadePrivate ''/storage'']) \<and>
        (\<forall>i < length mounts. mounted b ws i (mounts ! i)) \<and> (b = LegacyString \<longrightarrow> allow_legacy plan) \<and>
        length mounts \<le> length (plan_mounts plan) \<and>
        completed ws (length (plan_mounts plan)) (length mounts) (pr \<noteq> []) perf rest)"

lemma empty_mutation_ok: "mut_journal m = empty_journal \<Longrightarrow> \<not> mut_untracked m \<Longrightarrow> mutation_ok ws 0 m"
  by (simp add: mutation_ok_def empty_journal_def Journal_new_def journal_inv_def journal_log_def)

lemma MutatePlan_emits:
  assumes "prep_backend prep = LegacyString \<Longrightarrow> allow_legacy plan"
  shows "emits is_mount_event (MutatePlan (logged k) pid uid plan prep) (mutation_outcome plan (prep_workspace prep))"
proof -
  let ?n = "length (plan_mounts plan)"
  have "emits is_mount_event (do {
        m \<leftarrow> MountLoop (logged k) pid uid plan prep [0..<?n]
            \<lparr>mut_error = err, mut_backend = prep_backend prep, mut_locked = prep_locked prep,
             mut_journal = empty_journal, mut_untracked = False, mut_perf = prep_perf prep\<rparr>;
        CompletePlan (logged k) plan prep (pr \<noteq> []) m })
      (\<lambda>perf es. mutation_outcome plan (prep_workspace prep) perf (pr @ es))"
    if p: "pr = [] \<or> pr = [MadePrivate ''/storage'']" for err pr
  proof (rule emits_bind [OF MountLoop_emits])
    fix m es
    assume l: "loop_outcome plan (prep_workspace prep) ?n 0
        \<lparr>mut_error = err, mut_backend = prep_backend prep, mut_locked = prep_locked prep,
             mut_journal = empty_journal, mut_untracked = False, mut_perf = prep_perf prep\<rparr> m es"
    hence ok: "mutation_ok (prep_workspace prep) (length es) m" "mut_error m = None \<Longrightarrow> length es = ?n"
      by (simp_all add: loop_outcome_def)
    show "emits is_mount_event (CompletePlan (logged k) plan prep (pr \<noteq> []) m)
        (\<lambda>perf es'. mutation_outcome plan (prep_workspace prep) perf (pr @ (es @ es')))"
    proof (rule emits_weaken [OF CompletePlan_emits [OF ok]])
      fix perf es'
      assume "completed (prep_workspace prep) ?n (length es) (pr \<noteq> []) perf es'"
      thus "mutation_outcome plan (prep_workspace prep) perf (pr @ (es @ es'))"
        unfolding mutation_outcome_def using l p assms
        by (intro exI [of _ pr] exI [of _ es] exI [of _ es'] exI [of _ "mut_backend m"])
          (auto simp: loop_outcome_def)
    qed
  qed (auto intro: empty_mutation_ok)
  note run = this
  have first: "emits is_mount_event
      (if prep_private prep then observe (on_ok (MadePrivate ''/storage'')) (sys_make_private k ''/storage'') else ret None)
      (\<lambda>err es. es = (if prep_private prep \<and> err = None then [MadePrivate ''/storage''] else []))"
    by (intro emits_intro) (simp_all add: on_ok_def)
  show ?thesis unfolding MutatePlan_def logged_calls
  proof (rule emits_bind [OF first])
    fix err :: "errno option" and es
    assume es: "es = (if prep_private prep \<and> err = None then [MadePrivate ''/storage''] else [])"
    have changed: "(prep_private prep \<and> err = None) = (es \<noteq> [])" by (simp add: es)
    show "emits is_mount_event (do {
        m \<leftarrow> MountLoop (logged k) pid uid plan prep [0..<?n]
            \<lparr>mut_error = err, mut_backend = prep_backend prep, mut_locked = prep_locked prep,
             mut_journal = empty_journal, mut_untracked = False, mut_perf = prep_perf prep\<rparr>;
        CompletePlan (logged k) plan prep (prep_private prep \<and> err = None) m })
      (\<lambda>perf es'. mutation_outcome plan (prep_workspace prep) perf (es @ es'))"
      unfolding changed by (rule run) (simp add: es)
  qed
qed

lemma TargetPath_fits: "TargetPath plan topology mount = Some p \<Longrightarrow> length p < PATH_MAX"
  by (auto simp: TargetPath_def BuildPathUnderRoot_def Let_def split: if_splits option.splits)

lemma first_targets_take:
  assumes "workspace_ok plan topology rules ws" "n \<le> length rules"
  shows "first_targets ws n = take n (ws_target_locators ws)"
proof (rule nth_equalityI)
  have eq: "map Some (ws_target_locators ws) = map (TargetPath plan topology) rules"
    using assms(1) by (simp add: workspace_ok_def)
  have len: "length (ws_target_locators ws) = length rules" using arg_cong [OF eq, of length] by simp
  thus "length (first_targets ws n) = length (take n (ws_target_locators ws))"
    using assms(2) by (simp add: first_targets_def)
  fix i assume "i < length (first_targets ws n)"
  hence i: "i < n" by (simp add: first_targets_def)
  hence "TargetPath plan topology (rules ! i) = Some (ws_target_locators ws ! i)"
    using arg_cong [OF eq, of "\<lambda>xs. xs ! i"] len assms(2) by simp
  from TargetPath_fits [OF this] i show "first_targets ws n ! i = take n (ws_target_locators ws) ! i"
    by (simp add: first_targets_def path_buffer_def)
qed

text \<open>The whole run of a plan, over the events of its record that concern mounts, the shared status and
  other processes.\<close>

definition transaction_outcome ::
  "ProcessPlan \<Rightarrow> RuntimeStorageTopology \<Rightarrow> MountPerfResult \<Rightarrow> event list \<Rightarrow> bool" where
  "transaction_outcome plan topology perf es \<longleftrightarrow>
     perf_result perf \<noteq> None \<and> (es = [] \<or> es = [StatusSet Cancelled]) \<or>
     (\<exists>ws b pr mounts rest.
        es = StatusSet Applying # pr @ mounts @ rest \<and>
        map Some (ws_target_locators ws) = map (TargetPath plan topology) (plan_mounts plan) \<and>
        (pr = [] \<or> pr = [MadePrivate ''/storage'']) \<and> length mounts \<le> length (plan_mounts plan) \<and>
        (\<forall>i < length mounts. mounted b ws i (mounts ! i)) \<and> (b = LegacyString \<longrightarrow> allow_legacy plan) \<and>
        (if perf_result perf = None then length mounts = length (plan_mounts plan) \<and> rest = [StatusSet Complete]
         else failed_end (take (length mounts) (ws_target_locators ws)) (pr \<noteq> []) rest))"

lemma transaction_outcomeI:
  assumes ws: "workspace_ok plan topology (plan_mounts plan) ws" and m: "mutation_outcome plan ws perf es"
  shows "transaction_outcome plan topology perf (StatusSet Applying # es)"
proof -
  obtain pr mounts rest b where es: "es = pr @ mounts @ rest" "pr = [] \<or> pr = [MadePrivate ''/storage'']"
      "\<forall>i < length mounts. mounted b ws i (mounts ! i)" "b = LegacyString \<longrightarrow> allow_legacy plan"
      "length mounts \<le> length (plan_mounts plan)"
      "completed ws (length (plan_mounts plan)) (length mounts) (pr \<noteq> []) perf rest"
    using m unfolding mutation_outcome_def by blast
  show ?thesis unfolding transaction_outcome_def
    by (rule disjI2, rule exI [of _ ws], rule exI [of _ b], rule exI [of _ pr], rule exI [of _ mounts], rule exI [of _ rest])
      (use es first_targets_take [OF ws es(5)] ws in \<open>cases "perf_result perf"; simp add: completed_def workspace_ok_def\<close>)
qed

lemma ApplyProcessPlan_emits:
  "emits is_mount_event (ApplyProcessPlan (logged k) pid uid fd plan topology) (transaction_outcome plan topology)"
proof -
  have mutate: "emits is_mount_event (MutatePlan (logged k) pid uid plan prep)
      (\<lambda>perf es'. transaction_outcome plan topology perf ([StatusSet Applying] @ es'))"
    if "prepared_ok plan topology prep" for prep
    by (rule emits_weaken [OF MutatePlan_emits]) (use that transaction_outcomeI in \<open>auto simp: prepared_ok_def\<close>)
  have stop: "perf_result perf \<noteq> None \<and> (es = [] \<or> es = [StatusSet Cancelled]) \<Longrightarrow> transaction_outcome plan topology perf es"
    for perf es by (simp add: transaction_outcome_def)
  show ?thesis unfolding ApplyProcessPlan_def
  proof (rule emits_bind [OF PreflightPlan_emits])
    fix r es assume "preflight_outcome plan topology r es"
    thus "emits is_mount_event (case r of Inl perf \<Rightarrow> ret perf | Inr prep \<Rightarrow> MutatePlan (logged k) pid uid plan prep)
        (\<lambda>perf es'. transaction_outcome plan topology perf (es @ es'))"
      using mutate stop by (auto simp: preflight_outcome_def emits_ret split: sum.splits)
  qed
qed


end
