(* ===== verification/PG_Control.thy ===== *)
theory PG_Control
  imports PG_Compiler PG_Kernel
begin

text \<open>
  The control part of the daemon, \<open>daemon/src/rules_control.cpp\<close>: reading the rules file, publishing the
  compiled policy, the status files and the \<open>Reconciler\<close>.

  The directories are a \<open>machine\<close>: a disk, that maps paths to the bytes of files, and a source of outcomes that
  decides for each call in turn whether it succeeds, fails or is cut short.  Statements hold for every
  such source.  The files of the run directory are changed by the daemon only; the rules file may change at
  any time, so each reading of it has its own answers.  The \<open>_WIN32\<close> branches and the callbacks that only
  tests install are left out; the injected faults of \<open>PublishOptions\<close> are not.
\<close>

unbundle bit_operations_syntax

subsection \<open>The digest of a source\<close>

text \<open>The round constants, in the rows of the source.\<close>

definition kSha256Round :: "u32 list" where
  "kSha256Round = concat [
    [0x428a2f98, 0x71374491, 0xb5c0fbcf, 0xe9b5dba5, 0x3956c25b],
    [0x59f111f1, 0x923f82a4, 0xab1c5ed5, 0xd807aa98, 0x12835b01],
    [0x243185be, 0x550c7dc3, 0x72be5d74, 0x80deb1fe, 0x9bdc06a7],
    [0xc19bf174, 0xe49b69c1, 0xefbe4786, 0x0fc19dc6, 0x240ca1cc],
    [0x2de92c6f, 0x4a7484aa, 0x5cb0a9dc, 0x76f988da, 0x983e5152],
    [0xa831c66d, 0xb00327c8, 0xbf597fc7, 0xc6e00bf3, 0xd5a79147],
    [0x06ca6351, 0x14292967, 0x27b70a85, 0x2e1b2138, 0x4d2c6dfc],
    [0x53380d13, 0x650a7354, 0x766a0abb, 0x81c2c92e, 0x92722c85],
    [0xa2bfe8a1, 0xa81a664b, 0xc24b8b70, 0xc76c51a3, 0xd192e819],
    [0xd6990624, 0xf40e3585, 0x106aa070, 0x19a4c116, 0x1e376c08],
    [0x2748774c, 0x34b0bcb5, 0x391c0cb3, 0x4ed8aa4a, 0x5b9cca4f],
    [0x682e6ff3, 0x748f82ee, 0x78a5636f, 0x84c87814, 0x8cc70208],
    [0x90befffa, 0xa4506ceb, 0xbef9a3f7, 0xc67178f2]]"

definition RotateRight :: "u32 \<Rightarrow> nat \<Rightarrow> u32" where
  "RotateRight v n = drop_bit n v OR push_bit (32 - n) v"

text \<open>The input, a bit, zeros up to eight bytes before a multiple of 64, and the count of input bits.\<close>

definition Sha256Padding :: "bytes \<Rightarrow> bytes" where
  "Sha256Padding bytes =
     (let bit_count = of_nat (length bytes) * 8 :: u64 in
      bytes @ [0x80] @ replicate ((56 + 64 - (length bytes + 1) mod 64) mod 64) 0 @
      map (\<lambda>i. ucast (drop_bit (56 - 8 * i) bit_count)) [0..<8])"

definition block_word :: "bytes \<Rightarrow> nat \<Rightarrow> u32" where
  "block_word block index =
     push_bit 24 (ucast (block ! (index * 4))) OR push_bit 16 (ucast (block ! (index * 4 + 1))) OR
     push_bit 8 (ucast (block ! (index * 4 + 2))) OR ucast (block ! (index * 4 + 3))"

definition ExpandWord :: "u32 list \<Rightarrow> nat \<Rightarrow> u32 list" where
  "ExpandWord words index =
     (let w15 = words ! (index - 15); w2 = words ! (index - 2);
          s0 = RotateRight w15 7 XOR RotateRight w15 18 XOR drop_bit 3 w15;
          s1 = RotateRight w2 17 XOR RotateRight w2 19 XOR drop_bit 10 w2
      in words @ [words ! (index - 16) + s0 + words ! (index - 7) + s1])"

definition BlockWords :: "bytes \<Rightarrow> u32 list" where
  "BlockWords block = foldl ExpandWord (map (block_word block) [0..<16]) [16..<64]"

type_synonym ShaState = "u32 \<times> u32 \<times> u32 \<times> u32 \<times> u32 \<times> u32 \<times> u32 \<times> u32"

fun ShaRound :: "ShaState \<Rightarrow> u32 \<times> u32 \<Rightarrow> ShaState" where
  "ShaRound (a, b, c, d, e, f, g, h) (round_constant, word) =
     (let sigma1 = RotateRight e 6 XOR RotateRight e 11 XOR RotateRight e 25;
          chosen = (e AND f) XOR (NOT e AND g);
          temp1 = h + sigma1 + chosen + round_constant + word;
          sigma0 = RotateRight a 2 XOR RotateRight a 13 XOR RotateRight a 22;
          majority = (a AND b) XOR (a AND c) XOR (b AND c);
          temp2 = sigma0 + majority
      in (temp1 + temp2, a, b, c, d + temp1, e, f, g))"

fun AddState :: "ShaState \<Rightarrow> ShaState \<Rightarrow> ShaState" where
  "AddState (a, b, c, d, e, f, g, h) (a', b', c', d', e', f', g', h') =
     (a + a', b + b', c + c', d + d', e + e', f + f', g + g', h + h')"

definition ShaBlock :: "ShaState \<Rightarrow> bytes \<Rightarrow> ShaState" where
  "ShaBlock hash block = AddState hash (foldl ShaRound hash (zip kSha256Round (BlockWords block)))"

function ShaBlocks :: "ShaState \<Rightarrow> bytes \<Rightarrow> ShaState" where
  "ShaBlocks hash bytes = (if bytes = [] then hash else ShaBlocks (ShaBlock hash (take 64 bytes)) (drop 64 bytes))"
  by pat_completeness auto
termination by (relation "measure (\<lambda>(_, bytes). length bytes)") (auto simp: neq_Nil_conv)

declare ShaBlocks.simps [simp del]

definition initial_hash :: ShaState where
  "initial_hash = (0x6a09e667, 0xbb67ae85, 0x3c6ef372, 0xa54ff53a, 0x510e527f, 0x9b05688c, 0x1f83d9ab, 0x5be0cd19)"

definition hex8 :: "u32 \<Rightarrow> string" where
  "hex8 v = map (\<lambda>i. hex_digits ! (unat (drop_bit (28 - 4 * i) v) mod 16)) [0..<8]"

definition Sha256 :: "string \<Rightarrow> string" where
  "Sha256 input =
     (case ShaBlocks initial_hash (Sha256Padding (string_bytes input)) of
        (a, b, c, d, e, f, g, h) \<Rightarrow> ''sha256:'' @ concat (map hex8 [a, b, c, d, e, f, g, h]))"

lemma Sha256Padding_blocks: "length (Sha256Padding bytes) mod 64 = 0"
proof -
  have "((n::nat) + 1 + (120 - (n + 1) mod 64) mod 64 + 8) mod 64 = 0" for n
  proof -
    have small: "(120 - r) mod 64 = (if r \<le> 56 then 56 - r else 120 - r)" if "r < 64" for r :: nat
      using that by (simp add: mod_if)
    have r: "(n + 1) mod 64 < 64" by simp
    obtain q where "n + 1 = 64 * q + (n + 1) mod 64" by (metis mult_div_mod_eq)
    hence "\<exists>q'. n + 1 + (120 - (n + 1) mod 64) mod 64 + 8 = 64 * q'"
      unfolding small [OF r] using r by (cases "(n + 1) mod 64 \<le> 56") (auto intro: exI [of _ "q + 1"] exI [of _ "q + 2"])
    thus ?thesis by (elim exE) (simp only: mod_mult_self1_is_0)
  qed
  from this [of "length bytes"] show ?thesis by (simp add: Sha256Padding_def Let_def ac_simps)
qed

lemma Sha256_length: "length (Sha256 input) = 71"
  by (simp add: Sha256_def hex8_def split: prod.split)

subsection \<open>Reading the rules file\<close>

definition kRulesFileName :: string where "kRulesFileName = ''rules.toml''"

definition kCompilerInternal :: string where "kCompilerInternal = ''PG-COMPILER-INTERNAL''"
definition kSourceUnsafe :: string where "kSourceUnsafe = ''PG-SOURCE-UNSAFE''"
definition kSourceRead :: string where "kSourceRead = ''PG-SOURCE-READ''"
definition kSourceUnstable :: string where "kSourceUnstable = ''PG-SOURCE-UNSTABLE''"
definition kSourceBom :: string where "kSourceBom = ''PG-SOURCE-BOM''"

record FileStat =
  fst_regular :: bool
  fst_uid :: u32
  fst_mode :: u32
  fst_size :: int
  fst_device :: u64
  fst_inode :: u64
  fst_mtime :: "int \<times> int"

text \<open>The answers of the calls of one \<open>LoadRulesSource\<close>.  A read answers \<open>None\<close> for an error; after the
  listed answers the file ends.\<close>

record SourceAnswers =
  ans_directory :: bool
  ans_file :: bool
  ans_before :: "FileStat option"
  ans_first :: "string option list"
  ans_seek :: bool
  ans_second :: "string option list"
  ans_after :: "FileStat option"

text \<open>\<open>ReadFd\<close>: pieces until \<open>size\<close> bytes are there, then nothing more.  A read returns at most what is asked.\<close>

fun ReadFd :: "nat \<Rightarrow> string \<Rightarrow> string option list \<Rightarrow> string option" where
  "ReadFd n bytes [] = (if length bytes < n then None else Some bytes)"
| "ReadFd n bytes (a # rest) =
     (if length bytes < n then
        (case a of
           None \<Rightarrow> None
         | Some piece \<Rightarrow>
             if piece = [] then None
             else ReadFd n (bytes @ take (n - length bytes) piece) rest)
      else if a = Some [] then Some bytes else None)"

definition SafeSource :: "u32 \<Rightarrow> FileStat \<Rightarrow> bool" where
  "SafeSource euid s \<longleftrightarrow> fst_regular s \<and> fst_uid s = euid \<and> fst_mode s AND 0x12 = 0"

definition StableSource :: "FileStat \<Rightarrow> FileStat \<Rightarrow> bool" where
  "StableSource before after \<longleftrightarrow>
     fst_device before = fst_device after \<and> fst_inode before = fst_inode after \<and>
     fst_size before = fst_size after \<and> fst_mtime before = fst_mtime after"

definition bom :: string where "bom = [CHR 0xEF, CHR 0xBB, CHR 0xBF]"

record SourceSnapshot =
  snapshot_source :: SourceBuffer
  snapshot_digest :: string

type_synonym code_message = "string \<times> string"

definition FinishSource :: "RulesLimits \<Rightarrow> string \<Rightarrow> code_message + SourceSnapshot" where
  "FinishSource limits bytes =
     (if list_ex (prefix bom) (suffixes (drop (if prefix bom bytes then length bom else 0) bytes))
      then Inl (kSourceBom, ''UTF-8 BOM is only allowed at byte zero'')
      else case SourceBuffer_Create kRulesFileName bytes limits of
             Inl d \<Rightarrow> Inl (diag_code d, diag_key d)
           | Inr source \<Rightarrow> Inr \<lparr>snapshot_source = source, snapshot_digest = Sha256 (source_bytes source)\<rparr>)"

definition LoadRulesSource :: "SourceAnswers \<Rightarrow> u32 \<Rightarrow> RulesLimits \<Rightarrow> code_message + SourceSnapshot" where
  "LoadRulesSource a euid limits =
     (if \<not> ans_directory a then Inl (kSourceRead, ''cannot open rules directory'')
      else if \<not> ans_file a then Inl (kSourceUnsafe, ''cannot securely open rules.toml'')
      else case ans_before a of
        None \<Rightarrow> Inl (kSourceUnsafe, ''rules.toml has unsafe type, owner, or mode'')
      | Some before \<Rightarrow>
          if \<not> SafeSource euid before then Inl (kSourceUnsafe, ''rules.toml has unsafe type, owner, or mode'')
          else if fst_size before < 0 \<or> nat (fst_size before) > max_source_bytes limits
          then Inl (kResourceLimit, ''rules.toml exceeds source byte limit'')
          else case ReadFd (nat (fst_size before)) [] (ans_first a) of
            None \<Rightarrow> Inl (kSourceRead, ''cannot read complete rules.toml'')
          | Some bytes \<Rightarrow>
              if \<not> ans_seek a then Inl (kSourceUnstable, ''cannot repeat stable rules.toml read'')
              else if (case (ReadFd (nat (fst_size before)) [] (ans_second a), ans_after a) of
                         (Some stable_bytes, Some after) \<Rightarrow> StableSource before after \<and> bytes = stable_bytes
                       | _ \<Rightarrow> False)
              then FinishSource limits bytes
              else Inl (kSourceUnstable, ''rules.toml changed during stable read''))"

subsection \<open>The machine\<close>

text \<open>
  The outcome of a call is a number: zero for success, one for failure.  A read may instead return only
  the first \<open>n\<close> bytes and a write may store only the first \<open>n\<close> bytes; a short write is noticed, or not, as the
  destructor of a file stream drops the error of its last flush.
\<close>

record machine =
  disk :: "string \<Rightarrow> bytes option"
  outcomes :: "nat \<Rightarrow> nat"
  calls :: nat
  sources :: "nat \<Rightarrow> SourceAnswers"
  loads :: nat
  clock :: "nat \<Rightarrow> u64"
  sequence :: nat
  euid :: u32

type_synonym 'a action = "(machine, 'a) state"

definition outcome :: "nat action" where
  "outcome = State (\<lambda>m. (outcomes m (calls m), m\<lparr>calls := calls m + 1\<rparr>))"

definition get_file :: "string \<Rightarrow> bytes option action" where
  "get_file path = State (\<lambda>m. (disk m path, m))"

definition put_file :: "string \<Rightarrow> bytes option \<Rightarrow> unit action" where
  "put_file path contents = State (\<lambda>m. ((), m\<lparr>disk := (disk m)(path := contents)\<rparr>))"

definition succeeds :: "bool action" where
  "succeeds = do { n \<leftarrow> outcome; ret (n = 0) }"

definition path_join :: "string \<Rightarrow> string \<Rightarrow> string" where
  "path_join dir name = (if dir = [] \<or> last dir = CHR ''/'' then dir @ name else dir @ CHR ''/'' # name)"

definition ReadAll :: "string \<Rightarrow> bytes option action" where
  "ReadAll path = do {
     contents \<leftarrow> get_file path;
     n \<leftarrow> outcome;
     ret (if n = 0 then contents else if n = 1 then None else map_option (take (n - 2)) contents) }"

text \<open>Opening with \<open>trunc\<close>, writing and closing a stream.  \<open>None\<close>: it could not be opened; else whether the
  stream was good after the write.\<close>

definition write_stream :: "string \<Rightarrow> bytes \<Rightarrow> bool option action" where
  "write_stream path contents = do {
     n \<leftarrow> outcome;
     if n = 1 then ret None
     else do {
       put_file path (Some (if n = 0 then contents else take (n div 2 - 1) contents));
       ret (Some (n = 0 \<or> odd n)) } }"

definition rename_file :: "string \<Rightarrow> string \<Rightarrow> bool action" where
  "rename_file old new = do {
     contents \<leftarrow> get_file old;
     ok \<leftarrow> succeeds;
     if \<not> ok \<or> contents = None then ret False
     else do { put_file old None; put_file new contents; ret True } }"

definition RemoveIfExists :: "string \<Rightarrow> unit action" where
  "RemoveIfExists path = do { ok \<leftarrow> succeeds; if ok then put_file path None else ret () }"

definition is_regular_file :: "string \<Rightarrow> bool action" where
  "is_regular_file path = do { contents \<leftarrow> get_file path; ok \<leftarrow> succeeds; ret (ok \<and> contents \<noteq> None) }"

definition FlushFile :: "string \<Rightarrow> bool action" where
  "FlushFile path = do { contents \<leftarrow> get_file path; opened \<leftarrow> succeeds;
     if \<not> opened \<or> contents = None then ret False else succeeds }"

definition FlushDirectory :: "string \<Rightarrow> bool action" where
  "FlushDirectory path = do { opened \<leftarrow> succeeds; if opened then succeeds else ret False }"

definition UniqueSuffix :: "string action" where
  "UniqueSuffix = State (\<lambda>m.
     (to_string (unat (clock m (sequence m))) @ ''.'' @ to_string (unat (of_nat (sequence m) :: u64)),
      m\<lparr>sequence := sequence m + 1\<rparr>))"

definition next_source :: "RulesLimits \<Rightarrow> (code_message + SourceSnapshot) action" where
  "next_source limits = State (\<lambda>m. (LoadRulesSource (sources m (loads m)) (euid m) limits, m\<lparr>loads := loads m + 1\<rparr>))"

text \<open>\<open>DecodePolicy\<close> never leaves its input, so its outcome is \<open>Some\<close>.\<close>

definition ReadGeneration :: "string \<Rightarrow> u64 option action" where
  "ReadGeneration path = do {
     raw \<leftarrow> ReadAll path;
     ret (case raw of
       None \<Rightarrow> None
     | Some bytes \<Rightarrow> (case DecodePolicy bytes of Some (Inr (_, generation)) \<Rightarrow> Some generation | _ \<Rightarrow> None)) }"

subsection \<open>Publishing a policy\<close>

datatype PublishFault =
  FaultNone | FaultCreate | FaultWrite | FaultSetMode | FaultSetOwner | FaultSetContext | FaultVerify
  | FaultFileSync | FaultRename | FaultDirectorySync

record PublishResult =
  was_published :: bool
  was_unchanged :: bool
  publish_generation :: u64
  publish_message :: string

definition publish_ok :: "PublishResult \<Rightarrow> bool" where
  "publish_ok r \<longleftrightarrow> was_published r \<or> was_unchanged r"

definition active_path :: "string \<Rightarrow> string" where
  "active_path run_directory = path_join run_directory ''policy.bin''"

definition candidate_path :: "string \<Rightarrow> string \<Rightarrow> string" where
  "candidate_path run_directory unique = path_join run_directory (''.policy.bin.candidate.'' @ unique)"

definition backup_path :: "string \<Rightarrow> string \<Rightarrow> string" where
  "backup_path run_directory unique = path_join run_directory (''.policy.bin.backup.'' @ unique)"

text \<open>A failure: the candidate is removed and the message returned.\<close>

definition discard :: "string \<Rightarrow> PublishResult \<Rightarrow> string \<Rightarrow> PublishResult action" where
  "discard temporary output message = do { RemoveIfExists temporary; ret (output\<lparr>publish_message := message\<rparr>) }"

text \<open>The candidate file, from its creation to \<open>fsync\<close>: a message when it failed.\<close>

definition WriteCandidate :: "string \<Rightarrow> PolicyBlob \<Rightarrow> PublishFault \<Rightarrow> string option action" where
  "WriteCandidate temporary blob fail_at = do {
     written \<leftarrow> (if fail_at = FaultWrite then do { write_stream temporary []; ret None }
                 else write_stream temporary (blob_bytes blob));
     case written of
       None \<Rightarrow> ret (Some ''cannot write policy candidate'')
     | Some good \<Rightarrow>
         if \<not> good then ret (Some ''cannot write complete policy candidate'')
         else if fail_at = FaultSetMode then ret (Some ''cannot set policy mode'')
         else do {
           permitted \<leftarrow> succeeds;
           if \<not> permitted \<or> fail_at = FaultSetOwner \<or> fail_at = FaultSetContext
           then ret (Some ''cannot set policy security attributes'')
           else do {
             candidate \<leftarrow> ReadAll temporary;
             if fail_at = FaultVerify \<or> candidate \<noteq> Some (blob_bytes blob) \<or>
                \<not> VerifyPolicyBytes (blob_bytes blob) (blob_generation blob)
             then ret (Some ''policy candidate verification failed'')
             else if fail_at = FaultFileSync then ret (Some ''cannot fsync policy candidate'')
             else do {
               synced \<leftarrow> FlushFile temporary;
               ret (if synced then None else Some ''cannot fsync policy candidate'') } } } }"

text \<open>The end of a publication whose candidate is in place of the active policy.\<close>

definition CommitPolicy ::
  "string \<Rightarrow> string \<Rightarrow> bool \<Rightarrow> PublishFault \<Rightarrow> PublishResult \<Rightarrow> PublishResult action" where
  "CommitPolicy run_directory backup had_active fail_at output = do {
     synced \<leftarrow> (if fail_at = FaultDirectorySync then ret False else FlushDirectory run_directory);
     if \<not> synced then do {
       RemoveIfExists (active_path run_directory);
       (if had_active then do { rename_file backup (active_path run_directory); FlushDirectory run_directory; ret () }
        else ret ());
       ret (output\<lparr>publish_message := ''cannot fsync policy directory; previous policy restored''\<rparr>) }
     else do {
       RemoveIfExists backup;
       FlushDirectory run_directory;
       ret (output\<lparr>was_published := True\<rparr>) } }"

definition ReplacePolicy ::
  "string \<Rightarrow> string \<Rightarrow> string \<Rightarrow> PublishFault \<Rightarrow> PublishResult \<Rightarrow> PublishResult action" where
  "ReplacePolicy run_directory temporary backup fail_at output = do {
     had_active \<leftarrow> is_regular_file (active_path run_directory);
     preserved \<leftarrow> (if had_active then rename_file (active_path run_directory) backup else ret True);
     if \<not> preserved then discard temporary output ''cannot preserve active policy''
     else do {
       replaced \<leftarrow> (if fail_at = FaultRename then ret False
                    else rename_file temporary (active_path run_directory));
       if \<not> replaced then do {
         (if had_active then do { rename_file backup (active_path run_directory); ret () } else ret ());
         discard temporary output ''cannot atomically replace policy.bin'' }
       else CommitPolicy run_directory backup had_active fail_at output } }"

definition Publish :: "string \<Rightarrow> PolicyBlob \<Rightarrow> PublishFault \<Rightarrow> PublishResult action" where
  "Publish run_directory blob fail_at = do {
     let output = \<lparr>was_published = False, was_unchanged = False,
                   publish_generation = blob_generation blob, publish_message = []\<rparr>;
     active_generation \<leftarrow> ReadGeneration (active_path run_directory);
     if active_generation = Some (blob_generation blob) then ret (output\<lparr>was_unchanged := True\<rparr>)
     else do {
       created \<leftarrow> succeeds;
       if \<not> created \<or> fail_at = FaultCreate
       then ret (output\<lparr>publish_message := ''cannot create policy candidate''\<rparr>)
       else do {
         unique \<leftarrow> UniqueSuffix;
         let temporary = candidate_path run_directory unique;
         problem \<leftarrow> WriteCandidate temporary blob fail_at;
         case problem of
           Some message \<Rightarrow> discard temporary output message
         | None \<Rightarrow> ReplacePolicy run_directory temporary (backup_path run_directory unique) fail_at output } } }"

subsection \<open>The status files\<close>

datatype ControlStatus = StatusActive | SourceInvalid | EnvironmentUnsupported | PublishFailed

record ControlState =
  source_digest :: string
  candidate_sequence :: u64
  active_content_generation :: u64
  deployment_epoch :: u64
  capability_generation :: u64
  topology_generation :: u64
  control_status :: ControlStatus
  error_code :: string
  state_message :: string

definition initial_state :: ControlState where
  "initial_state = \<lparr>source_digest = [], candidate_sequence = 0, active_content_generation = 0, deployment_epoch = 0,
     capability_generation = 0, topology_generation = 0, control_status = SourceInvalid, error_code = [],
     state_message = []\<rparr>"

fun StatusName :: "ControlStatus \<Rightarrow> string" where
  "StatusName StatusActive = ''active''"
| "StatusName SourceInvalid = ''source_invalid''"
| "StatusName EnvironmentUnsupported = ''environment_unsupported''"
| "StatusName PublishFailed = ''publish_failed''"

definition JsonEscape :: "string \<Rightarrow> string" where
  "JsonEscape input = concat (map (\<lambda>c.
     (if c = CHR 0x5C \<or> c = CHR 0x22 then [CHR 0x5C] else []) @
     (if c = newline then [CHR 0x5C, CHR ''n''] else if c \<noteq> carriage_return then [c] else [])) input)"

definition number :: "u64 \<Rightarrow> string" where "number v = to_string (unat v)"

definition status_line :: "string \<Rightarrow> string \<Rightarrow> string" where
  "status_line key v = key @ '': '' @ v @ [newline]"

definition RenderControlStatusText :: "ControlState \<Rightarrow> string" where
  "RenderControlStatusText st =
     status_line ''source'' ''rules.toml'' @
     status_line ''source_digest'' (source_digest st) @
     status_line ''candidate_sequence'' (number (candidate_sequence st)) @
     status_line ''active_content_generation'' (number (active_content_generation st)) @
     status_line ''deployment_epoch'' (number (deployment_epoch st)) @
     status_line ''capability_generation'' (number (capability_generation st)) @
     status_line ''topology_generation'' (number (topology_generation st)) @
     status_line ''status'' (StatusName (control_status st)) @
     status_line ''error_code'' (error_code st) @
     status_line ''message'' (state_message st)"

definition RenderControlStatusJson :: "ControlState \<Rightarrow> string" where
  "RenderControlStatusJson st =
     ''{'' @ quoted ''source'' @ '':'' @ quoted ''rules.toml'' @ '','' @
     quoted ''source_digest'' @ '':'' @ quoted (JsonEscape (source_digest st)) @ '','' @
     quoted ''candidate_sequence'' @ '':'' @ number (candidate_sequence st) @ '','' @
     quoted ''active_content_generation'' @ '':'' @ number (active_content_generation st) @ '','' @
     quoted ''deployment_epoch'' @ '':'' @ number (deployment_epoch st) @ '','' @
     quoted ''capability_generation'' @ '':'' @ number (capability_generation st) @ '','' @
     quoted ''topology_generation'' @ '':'' @ number (topology_generation st) @ '','' @
     quoted ''status'' @ '':'' @ quoted (StatusName (control_status st)) @ '','' @
     quoted ''error_code'' @ '':'' @ quoted (JsonEscape (error_code st)) @ '','' @
     quoted ''message'' @ '':'' @ quoted (JsonEscape (state_message st)) @ ''}'' @ [newline]"

text \<open>The text behind the first place where the prefix occurs.\<close>

fun after_first :: "string \<Rightarrow> string \<Rightarrow> string option" where
  "after_first p [] = (if p = [] then Some [] else None)"
| "after_first p (c # cs) = (if prefix p (c # cs) then Some (drop (length p) (c # cs)) else after_first p cs)"

definition ReadStatusNumber :: "string \<Rightarrow> string \<Rightarrow> u64 action" where
  "ReadStatusNumber path key = do {
     raw \<leftarrow> ReadAll path;
     ret (case raw of
       None \<Rightarrow> 0
     | Some bytes \<Rightarrow>
         (case after_first (key @ '': '') (bytes_string bytes) of
            None \<Rightarrow> 0
          | Some rest \<Rightarrow>
              (case from_chars 64 (takeWhile (\<lambda>c. c \<noteq> newline) rest) of
                 Some (parsed, []) \<Rightarrow> of_nat parsed
               | _ \<Rightarrow> 0))) }"

text \<open>The path is that of the file \<open>name\<close> in the directory \<open>dir\<close>.\<close>

definition AtomicWriteText :: "string \<Rightarrow> string \<Rightarrow> string \<Rightarrow> bool action" where
  "AtomicWriteText dir name contents = do {
     unique \<leftarrow> UniqueSuffix;
     let temporary = path_join dir (''.'' @ name @ ''.'' @ unique);
     written \<leftarrow> write_stream temporary (string_bytes contents);
     case written of
       None \<Rightarrow> ret False
     | Some good \<Rightarrow>
         if \<not> good then do { RemoveIfExists temporary; ret False }
         else do {
           permitted \<leftarrow> succeeds;
           synced \<leftarrow> (if permitted then FlushFile temporary else ret False);
           if \<not> synced then do { RemoveIfExists temporary; ret False }
           else do {
             renamed \<leftarrow> rename_file temporary (path_join dir name);
             if \<not> renamed then do { RemoveIfExists temporary; ret False }
             else FlushDirectory dir } } }"

definition WriteControlStatus :: "string \<Rightarrow> ControlState \<Rightarrow> bool action" where
  "WriteControlStatus run_directory st = do {
     created \<leftarrow> succeeds;
     if \<not> created then ret False
     else do {
       written \<leftarrow> AtomicWriteText run_directory ''rules-status.txt'' (RenderControlStatusText st);
       if \<not> written then ret False
       else AtomicWriteText run_directory ''rules-status.json'' (RenderControlStatusJson st) } }"

subsection \<open>The reconciler\<close>

record Reconciler =
  config_directory :: string
  run_directory :: string
  rec_limits :: RulesLimits
  rec_snapshot :: DeviceSnapshot
  ctl_state :: ControlState
  device_dirty :: bool

definition Reconciler_new :: "string \<Rightarrow> string \<Rightarrow> RulesLimits \<Rightarrow> DeviceSnapshot \<Rightarrow> Reconciler action" where
  "Reconciler_new config run limits snapshot = do {
     let new = (\<lambda>st. \<lparr>config_directory = config, run_directory = run, rec_limits = limits, rec_snapshot = snapshot,
                 ctl_state = st, device_dirty = False\<rparr>);
     generation \<leftarrow> ReadGeneration (active_path run);
     case generation of
       None \<Rightarrow> ret (new initial_state)
     | Some g \<Rightarrow>
         if g = 0 then ret (new initial_state)
         else do {
           recorded_generation \<leftarrow> ReadStatusNumber (path_join run ''rules-status.txt'') ''active_content_generation'';
           recorded_epoch \<leftarrow> ReadStatusNumber (path_join run ''rules-status.txt'') ''deployment_epoch'';
           ret (new (initial_state\<lparr>active_content_generation := g,
             deployment_epoch := (if recorded_generation = g \<and> recorded_epoch \<noteq> 0 then recorded_epoch else 1)\<rparr>)) } }"

definition SetDeviceSnapshot :: "DeviceSnapshot \<Rightarrow> Reconciler \<Rightarrow> Reconciler" where
  "SetDeviceSnapshot snapshot r = r\<lparr>rec_snapshot := snapshot, device_dirty := True\<rparr>"

record ReconcileResult =
  result_state :: ControlState
  result_compiled :: bool
  result_published :: bool
  result_unchanged :: bool

definition reconcile_ok :: "ReconcileResult \<Rightarrow> bool" where
  "reconcile_ok r \<longleftrightarrow> control_status (result_state r) = StatusActive"

definition not_activated :: string where
  "not_activated = ''; new configuration was not activated; previous policy remains active''"

text \<open>Every path of \<open>Reconcile\<close> writes the status files and returns the new state.\<close>

definition conclude ::
  "Reconciler \<Rightarrow> ControlState \<Rightarrow> bool \<Rightarrow> bool \<Rightarrow> bool \<Rightarrow> (ReconcileResult \<times> Reconciler) action" where
  "conclude r st compiled published unchanged = do {
     WriteControlStatus (run_directory r) st;
     ret (\<lparr>result_state = st, result_compiled = compiled, result_published = published, result_unchanged = unchanged\<rparr>,
          r\<lparr>ctl_state := st\<rparr>) }"

definition with_generations :: "DeviceSnapshot \<Rightarrow> ControlState \<Rightarrow> ControlState" where
  "with_generations snapshot st = st\<lparr>capability_generation := snap_capability_generation snapshot,
     topology_generation := snap_topology_generation snapshot\<rparr>"

definition failed_state :: "ControlStatus \<Rightarrow> string \<Rightarrow> string \<Rightarrow> ControlState \<Rightarrow> ControlState" where
  "failed_state status code message st = st\<lparr>control_status := status, error_code := code, state_message := message @ not_activated\<rparr>"

definition build_problem :: "RulesBuildResult \<Rightarrow> SourceBuffer \<Rightarrow> code_message" where
  "build_problem built source =
     (case build_diagnostics built of
        [] \<Rightarrow> (kCompilerInternal, ''rules compiler failed'')
      | d # _ \<Rightarrow> (diag_code d, RenderDiagnosticText d source))"

definition PublishBuilt ::
  "Reconciler \<Rightarrow> ControlState \<Rightarrow> PolicyBlob \<Rightarrow> PublishFault \<Rightarrow> (ReconcileResult \<times> Reconciler) action" where
  "PublishBuilt r st blob fail_at = do {
     published \<leftarrow> Publish (run_directory r) blob fail_at;
     if \<not> publish_ok published
     then conclude r (failed_state PublishFailed ''PG-PUBLISH-FAILED'' (publish_message published) st) True False False
     else conclude r (st\<lparr>control_status := StatusActive, error_code := [],
            state_message := (if was_published published then ''policy activated''
                              else ''source validated; policy content unchanged''),
            active_content_generation := blob_generation blob,
            deployment_epoch := deployment_epoch st + (if was_published published then 1 else 0)\<rparr>)
            True (was_published published) (was_unchanged published) }"

definition Reconcile :: "toml_parser \<Rightarrow> PublishFault \<Rightarrow> Reconciler \<Rightarrow> (ReconcileResult \<times> Reconciler) action" where
  "Reconcile parse fail_at r = do {
     let st = ctl_state r;
     loaded \<leftarrow> next_source (rec_limits r);
     case loaded of
       Inl (code, message) \<Rightarrow>
         conclude r (failed_state SourceInvalid code message (st\<lparr>candidate_sequence := candidate_sequence st + 1\<rparr>))
           False False False
     | Inr snapshot \<Rightarrow>
         if snapshot_digest snapshot = source_digest st \<and> \<not> device_dirty r
         then conclude r (with_generations (rec_snapshot r) st) False False True
         else do {
           let st = st\<lparr>source_digest := snapshot_digest snapshot, candidate_sequence := candidate_sequence st + 1\<rparr>;
           let built = CompileRulesSource parse (snapshot_source snapshot) (rec_limits r);
           let r = r\<lparr>device_dirty := False\<rparr>;
           if \<not> build_ok built
           then (case build_problem built (snapshot_source snapshot) of
                   (code, message) \<Rightarrow> conclude r (failed_state SourceInvalid code message st) True False False)
           else if \<not> admitted (AdmitPolicy (the (build_canonical built)) (build_requirements built) (rec_snapshot r))
           then conclude r (failed_state EnvironmentUnsupported ''PG-ADMISSION-UNSUPPORTED''
                  ''device capabilities or topology do not satisfy policy requirements''
                  (with_generations (rec_snapshot r) st)) True False False
           else PublishBuilt r (with_generations (rec_snapshot r) st) (the (build_blob built)) fail_at } }"

record ManagerSaveResult =
  save_reconcile :: ReconcileResult
  was_saved :: bool
  save_error :: code_message

definition save_ok :: "ManagerSaveResult \<Rightarrow> bool" where
  "save_ok s \<longleftrightarrow> was_saved s \<and> reconcile_ok (save_reconcile s)"

definition no_reconcile :: "ControlState \<Rightarrow> ReconcileResult" where
  "no_reconcile st = \<lparr>result_state = st, result_compiled = False, result_published = False, result_unchanged = False\<rparr>"

definition rejected :: "Reconciler \<Rightarrow> code_message \<Rightarrow> (ManagerSaveResult \<times> Reconciler) action" where
  "rejected r problem = ret (\<lparr>save_reconcile = no_reconcile (ctl_state r), was_saved = False, save_error = problem\<rparr>, r)"

text \<open>The checks of a replacement that do not touch the disk.\<close>

definition CheckReplacement :: "toml_parser \<Rightarrow> Reconciler \<Rightarrow> string \<Rightarrow> code_message + SourceBuffer" where
  "CheckReplacement parse r replacement =
     (case SourceBuffer_Create kRulesFileName replacement (rec_limits r) of
        Inl d \<Rightarrow> Inl (diag_code d, diag_key d)
      | Inr candidate \<Rightarrow>
          let built = CompileRulesSource parse candidate (rec_limits r) in
          if \<not> build_ok built then Inl (build_problem built candidate)
          else if \<not> admitted (AdmitPolicy (the (build_canonical built)) (build_requirements built) (rec_snapshot r))
          then Inl (''PG-ADMISSION-UNSUPPORTED'', ''device capabilities or topology do not satisfy policy requirements'')
          else Inr candidate)"

definition SaveRules ::
  "toml_parser \<Rightarrow> string \<Rightarrow> string \<Rightarrow> Reconciler \<Rightarrow> (ManagerSaveResult \<times> Reconciler) action" where
  "SaveRules parse expected_source_digest replacement r = do {
     current \<leftarrow> next_source (rec_limits r);
     case current of
       Inl problem \<Rightarrow> rejected r problem
     | Inr snapshot \<Rightarrow>
         if snapshot_digest snapshot \<noteq> expected_source_digest
         then rejected r (''PG-SOURCE-CONFLICT'', ''rules.toml changed since the Manager snapshot'')
         else case CheckReplacement parse r replacement of
           Inl problem \<Rightarrow> rejected r problem
         | Inr candidate \<Rightarrow> do {
             before_commit \<leftarrow> next_source (rec_limits r);
             case before_commit of
               Inl problem \<Rightarrow> rejected r problem
             | Inr snapshot \<Rightarrow>
                 if snapshot_digest snapshot \<noteq> expected_source_digest
                 then rejected r (''PG-SOURCE-CONFLICT'', ''rules.toml changed while the save was being validated'')
                 else do {
                   written \<leftarrow> AtomicWriteText (config_directory r) kRulesFileName (source_bytes candidate);
                   if \<not> written then rejected r (''PG-SOURCE-WRITE'', ''cannot atomically replace rules.toml'')
                   else do {
                     (result, r) \<leftarrow> Reconcile parse FaultNone r;
                     ret (\<lparr>save_reconcile = result, was_saved = True,
                            save_error = (if reconcile_ok result then ([], [])
                                          else (error_code (result_state result), state_message (result_state result)))\<rparr>, r) } } } }"

end
