(* ===== verification/PG_ControlProofs.thy ===== *)
theory PG_ControlProofs
  imports PG_Control
begin

text \<open>
  What the control part of the daemon guarantees: weakest preconditions for the actions on a machine, the files
  each operation may change, and the properties of publishing, reconciling, saving and restarting.
\<close>

subsection \<open>Reasoning about actions\<close>

definition wp :: "'a action \<Rightarrow> ('a \<Rightarrow> machine \<Rightarrow> bool) \<Rightarrow> machine \<Rightarrow> bool" where
  "wp c Q m \<longleftrightarrow> (case run_state c m of (a, m') \<Rightarrow> Q a m')"

named_theorems wp_simps \<open>what a call returns and changes\<close>

lemma wp_bind [wp_simps]: "wp (State_Monad.bind c f) Q = wp c (\<lambda>a. wp (f a) Q)"
  by (rule ext) (simp add: wp_def split: prod.split)

lemma wp_ret [wp_simps]: "wp (ret a) Q = Q a"
  by (rule ext) (simp add: wp_def)

lemma wp_if [wp_simps]: "wp (if b then c else d) Q m \<longleftrightarrow> (if b then wp c Q m else wp d Q m)"
  by simp

lemma wp_mono: "wp c P m \<Longrightarrow> (\<And>a m'. P a m' \<Longrightarrow> Q a m') \<Longrightarrow> wp c Q m"
  by (auto simp: wp_def split: prod.splits)

lemma wp_conj: "wp c P m \<Longrightarrow> wp c Q m \<Longrightarrow> wp c (\<lambda>a m'. P a m' \<and> Q a m') m"
  by (auto simp: wp_def split: prod.splits)

lemma wp_run: "run_state c m = (a, m') \<Longrightarrow> wp c Q m \<Longrightarrow> Q a m'"
  by (simp add: wp_def)

lemma wp_outcome [wp_simps]: "wp outcome Q m \<longleftrightarrow> Q (outcomes m (calls m)) (m\<lparr>calls := calls m + 1\<rparr>)"
  by (simp add: wp_def outcome_def)

lemma wp_get_file [wp_simps]: "wp (get_file p) Q m \<longleftrightarrow> Q (disk m p) m"
  by (simp add: wp_def get_file_def)

lemma wp_put_file [wp_simps]: "wp (put_file p c) Q m \<longleftrightarrow> Q () (m\<lparr>disk := (disk m)(p := c)\<rparr>)"
  by (simp add: wp_def put_file_def)

lemma wp_UniqueSuffix [wp_simps]:
  "wp UniqueSuffix Q m \<longleftrightarrow>
     Q (to_string (unat (clock m (sequence m))) @ ''.'' @ to_string (unat (of_nat (sequence m) :: u64)))
       (m\<lparr>sequence := sequence m + 1\<rparr>)"
  by (simp add: wp_def UniqueSuffix_def)

lemma wp_next_source [wp_simps]:
  "wp (next_source limits) Q m \<longleftrightarrow> Q (LoadRulesSource (sources m (loads m)) (euid m) limits) (m\<lparr>loads := loads m + 1\<rparr>)"
  by (simp add: wp_def next_source_def)

lemmas file_calls = succeeds_def ReadAll_def write_stream_def rename_file_def RemoveIfExists_def is_regular_file_def
  FlushFile_def FlushDirectory_def

lemma path_join_inj [simp]: "path_join d a = path_join d b \<longleftrightarrow> a = b"
  by (simp add: path_join_def)

lemma publish_paths [simp]:
  "active_path d \<noteq> candidate_path d u" "candidate_path d u \<noteq> active_path d" "active_path d \<noteq> backup_path d u"
  "backup_path d u \<noteq> active_path d" "candidate_path d u \<noteq> backup_path d v" "backup_path d v \<noteq> candidate_path d u"
  by (simp_all add: active_path_def candidate_path_def backup_path_def)

text \<open>A machine on which at most one call does not succeed.\<close>

definition single_fault :: "machine \<Rightarrow> bool" where
  "single_fault m \<longleftrightarrow> (\<forall>i j. outcomes m i \<noteq> 0 \<longrightarrow> outcomes m j \<noteq> 0 \<longrightarrow> i = j)"

text \<open>The outcomes from here on: the \<open>k\<close>-th call has the outcome \<open>n\<close>, all others succeed.\<close>

definition fault_at :: "nat \<Rightarrow> nat \<Rightarrow> machine \<Rightarrow> bool" where
  "fault_at k n m \<longleftrightarrow> (\<forall>i. outcomes m (calls m + i) = (if i = k then n else 0))"

lemma single_fault_at:
  assumes "single_fault m"
  shows "\<exists>k n. fault_at k n m"
proof (cases "\<exists>k. outcomes m (calls m + k) \<noteq> 0")
  case True
  then obtain k where "outcomes m (calls m + k) \<noteq> 0" ..
  hence "outcomes m (calls m + i) = (if i = k then outcomes m (calls m + k) else 0)" for i
    using assms unfolding single_fault_def by (metis add_left_cancel)
  thus ?thesis unfolding fault_at_def by blast
qed (auto simp: fault_at_def)

lemma fault_at_outcomes:
  assumes "fault_at k n m"
  shows "outcomes m (calls m) = (if k = 0 then n else 0)" "outcomes m (Suc (calls m)) = (if k = 1 then n else 0)"
    "outcomes m (Suc (Suc (calls m))) = (if k = 2 then n else 0)"
    "outcomes m (Suc (Suc (Suc (calls m)))) = (if k = 3 then n else 0)"
    "outcomes m (Suc (Suc (Suc (Suc (calls m))))) = (if k = 4 then n else 0)"
    "outcomes m (Suc (Suc (Suc (Suc (Suc (calls m)))))) = (if k = 5 then n else 0)"
    "outcomes m (Suc (Suc (Suc (Suc (Suc (Suc (calls m))))))) = (if k = 6 then n else 0)"
    "outcomes m (Suc (Suc (Suc (Suc (Suc (Suc (Suc (calls m)))))))) = (if k = 7 then n else 0)"
  using assms [unfolded fault_at_def, rule_format, of 0] assms [unfolded fault_at_def, rule_format, of 1]
    assms [unfolded fault_at_def, rule_format, of 2] assms [unfolded fault_at_def, rule_format, of 3]
    assms [unfolded fault_at_def, rule_format, of 4] assms [unfolded fault_at_def, rule_format, of 5]
    assms [unfolded fault_at_def, rule_format, of 6] assms [unfolded fault_at_def, rule_format, of 7]
  by (simp_all add: eq_commute [of _ k] numeral_eq_Suc)

lemma fault_at_later: "fault_at k n m \<Longrightarrow> outcomes m' = outcomes m \<Longrightarrow> calls m' = calls m + i \<Longrightarrow> \<exists>k' n'. fault_at k' n' m' \<and> (n = 0 \<longrightarrow> n' = 0)"
  unfolding fault_at_def by (intro exI [of _ "k - i"] exI [of _ "if i \<le> k then n else 0"]) (auto simp: add.assoc)

subsection \<open>What a publication does\<close>

definition old_or_new :: "string \<Rightarrow> bytes \<Rightarrow> machine \<Rightarrow> machine \<Rightarrow> bool" where
  "old_or_new path new m m' \<longleftrightarrow> disk m' path = disk m path \<or> disk m' path = None \<or> disk m' path = Some new"

lemma CommitPolicy_wp:
  assumes "disk m (active_path d) = Some new" "\<not> was_published out" "\<not> was_unchanged out"
  shows "wp (CommitPolicy d (backup_path d u) had fail_at out)
    (\<lambda>r m'. (if was_published r then disk m' (active_path d) = Some new
             else disk m' (active_path d) \<in> {Some new, None} \<or> had \<and> disk m' (active_path d) = disk m (backup_path d u)) \<and> \<not> was_unchanged r \<and>
            (\<forall>p. p \<noteq> active_path d \<and> p \<noteq> backup_path d u \<longrightarrow> disk m' p = disk m p)) m"
  using assms by (simp add: CommitPolicy_def file_calls wp_simps)

lemma CommitPolicy_one_fault:
  assumes "disk m (active_path d) = Some new" "\<not> was_published out"
    and f: "fault_at k n m" "fail_at = FaultNone \<or> n = 0"
    and "had \<Longrightarrow> disk m (backup_path d u) \<noteq> None"
  shows "wp (CommitPolicy d (backup_path d u) had fail_at out)
    (\<lambda>r m'. disk m' (active_path d) =
       (if was_published r then Some new else if had then disk m (backup_path d u) else None)) m"
  using assms(2,4,5) by (simp add: CommitPolicy_def file_calls wp_simps fault_at_outcomes [OF f(1)] assms(1)) auto

lemma wp_discard [wp_simps]:
  "wp (discard t out msg) Q m \<longleftrightarrow> wp (RemoveIfExists t) (\<lambda>_. Q (out\<lparr>publish_message := msg\<rparr>)) m"
  by (simp add: discard_def wp_simps)

lemma ReplacePolicy_wp:
  assumes "disk m (candidate_path d u) = Some new" "\<not> was_published out" "\<not> was_unchanged out"
  shows "wp (ReplacePolicy d (candidate_path d u) (backup_path d u) fail_at out)
    (\<lambda>r m'. (if was_published r then disk m' (active_path d) = Some new
             else old_or_new (active_path d) new m m') \<and> \<not> was_unchanged r \<and>
            (\<forall>p. p \<noteq> active_path d \<and> p \<noteq> candidate_path d u \<and> p \<noteq> backup_path d u \<longrightarrow> disk m' p = disk m p)) m"
proof -
  note commit = CommitPolicy_wp [where u = u and new = new and out = out and d = d and fail_at = fail_at, OF _ assms(2,3)]
  show ?thesis unfolding ReplacePolicy_def
    by (simp add: wp_simps rename_file_def is_regular_file_def RemoveIfExists_def succeeds_def assms old_or_new_def,
      intro impI conjI; (rule wp_mono [OF commit])?; auto simp: assms(1) split: if_splits)
qed

lemma ReplacePolicy_one_fault:
  assumes c: "disk m (candidate_path d u) = Some new" and o: "\<not> was_published out"
    and f: "fault_at k n m" "fail_at = FaultNone \<or> n = 0"
  shows "wp (ReplacePolicy d (candidate_path d u) (backup_path d u) fail_at out)
    (\<lambda>r m'. disk m' (active_path d) = (if was_published r then Some new else disk m (active_path d))) m"
proof -
  note F = fault_at_outcomes [OF f(1)]
  have later: "calls m \<le> j \<Longrightarrow> outcomes m j = (if j = calls m + k then n else 0)" for j
    using f(1) unfolding fault_at_def by (metis add_left_cancel le_iff_add)
  have commit: "wp (CommitPolicy d (backup_path d u) had fail_at out)
      (\<lambda>r m''. disk m'' (active_path d) = (if was_published r then Some new else disk m (active_path d))) m'"
    if t: "disk m' (active_path d) = Some new" "outcomes m' = outcomes m" "calls m \<le> calls m'"
      "had \<Longrightarrow> disk m' (backup_path d u) = disk m (active_path d) \<and> disk m (active_path d) \<noteq> None"
      "\<not> had \<Longrightarrow> disk m (active_path d) = None \<or> (\<forall>j \<ge> calls m'. outcomes m j = 0) \<and> fail_at = FaultNone" for m' had
  proof (cases "had \<or> disk m (active_path d) = None")
    case True
    obtain k' n' where "fault_at k' n' m'" "n = 0 \<longrightarrow> n' = 0" using fault_at_later [OF f(1) t(2), of "calls m' - calls m"] t(3) by auto
    hence "fault_at k' n' m'" "fail_at = FaultNone \<or> n' = 0" using f(2) by auto
    thus ?thesis by (intro wp_mono [OF CommitPolicy_one_fault [OF t(1) o]]) (use t(4) True in auto)
  next
    case False
    hence "outcomes m' (calls m' + j) = 0" for j using t by auto
    from this [of 0] this [of 1] have "outcomes m' (calls m') = 0" "outcomes m' (Suc (calls m')) = 0" by simp_all
    moreover have "fail_at = FaultNone" "\<not> had" using t(5) False by auto
    ultimately show ?thesis using t(1)
      by (simp add: CommitPolicy_def file_calls wp_simps)
  qed
  show ?thesis unfolding ReplacePolicy_def
    using f(2) o
    by (simp add: wp_simps rename_file_def is_regular_file_def RemoveIfExists_def succeeds_def F c)
      (intro impI conjI commit; auto simp: c F later)
qed

lemma WriteCandidate_wp:
  "wp (WriteCandidate t blob fail_at)
     (\<lambda>problem m'. (problem = None \<longrightarrow> disk m' t = Some (blob_bytes blob)) \<and> (\<forall>p. p \<noteq> t \<longrightarrow> disk m' p = disk m p) \<and>
        outcomes m' = outcomes m \<and> (\<exists>i. calls m' = calls m + i)) m"
  unfolding WriteCandidate_def write_stream_def ReadAll_def FlushFile_def succeeds_def
  by (simp add: wp_simps split: option.split)

lemma wp_case_option:
  "wp (case x of None \<Rightarrow> c | Some y \<Rightarrow> d y) Q m \<longleftrightarrow> (case x of None \<Rightarrow> wp c Q m | Some y \<Rightarrow> wp (d y) Q m)"
  by (simp split: option.split)

lemma ReadGeneration_wp:
  "(\<And>g m'. m' = m\<lparr>calls := calls m + 1\<rparr> \<Longrightarrow> Q g m') \<Longrightarrow> wp (ReadGeneration p) Q m"
  by (simp add: ReadGeneration_def ReadAll_def wp_simps)

text \<open>A call that leaves the disk alone.\<close>

definition same_run :: "machine \<Rightarrow> machine \<Rightarrow> bool" where
  "same_run m m' \<longleftrightarrow> disk m' = disk m \<and> outcomes m' = outcomes m \<and> calls m \<le> calls m'"

lemma same_run_trans: "same_run m m' \<Longrightarrow> same_run m' m'' \<Longrightarrow> same_run m m''"
  by (auto simp: same_run_def)

lemma wp_anyI:
  "(\<And>b m'. same_run m m' \<Longrightarrow> Q b m') \<Longrightarrow> wp succeeds Q m"
  "(\<And>u m'. same_run m m' \<Longrightarrow> Q' u m') \<Longrightarrow> wp UniqueSuffix Q' m"
  by (simp_all add: succeeds_def wp_simps same_run_def)

lemma wp_ifI: "(b \<Longrightarrow> wp c Q m) \<Longrightarrow> (\<not> b \<Longrightarrow> wp d Q m) \<Longrightarrow> wp (if b then c else d) Q m"
  by simp

text \<open>The files a publication works with, and what it may do to them.\<close>

definition policy_file :: "string \<Rightarrow> string \<Rightarrow> bool" where
  "policy_file d p \<longleftrightarrow> p = active_path d \<or> (\<exists>u. p = candidate_path d u \<or> p = backup_path d u)"

definition publish_post :: "string \<Rightarrow> bytes \<Rightarrow> machine \<Rightarrow> PublishResult \<Rightarrow> machine \<Rightarrow> bool" where
  "publish_post d new m r m' \<longleftrightarrow>
     (was_published r \<longrightarrow> disk m' (active_path d) = Some new) \<and>
     (was_unchanged r \<longrightarrow> disk m' = disk m \<and> \<not> was_published r) \<and>
     old_or_new (active_path d) new m m' \<and> (\<forall>p. \<not> policy_file d p \<longrightarrow> disk m' p = disk m p)"

lemma ReplacePolicy_post:
  assumes "disk m1 (candidate_path d u) = Some new" "\<forall>p. p \<noteq> candidate_path d u \<longrightarrow> disk m1 p = disk m p"
    "\<not> was_published out" "\<not> was_unchanged out"
  shows "wp (ReplacePolicy d (candidate_path d u) (backup_path d u) fail_at out) (publish_post d new m) m1"
proof (rule wp_mono [OF ReplacePolicy_wp [OF assms(1,3,4)]])
  fix r :: PublishResult and m' :: machine
  assume r: "(if was_published r then disk m' (active_path d) = Some new
       else old_or_new (active_path d) new m1 m') \<and> \<not> was_unchanged r \<and>
      (\<forall>p. p \<noteq> active_path d \<and> p \<noteq> candidate_path d u \<and> p \<noteq> backup_path d u \<longrightarrow> disk m' p = disk m1 p)"
  hence "disk m' p = disk m p" if "\<not> policy_file d p" for p using that assms(2) by (auto simp: policy_file_def)
  thus "publish_post d new m r m'" using r assms(2) by (auto simp: publish_post_def old_or_new_def split: if_splits)
qed

text \<open>The rest of a publication, for the candidate just written.\<close>

lemma candidate_wp:
  assumes m1: "disk m1 = disk m" and out: "\<not> was_published out" "\<not> was_unchanged out"
  shows "wp (WriteCandidate (candidate_path d u) blob fail_at)
    (\<lambda>problem. wp (case problem of Some message \<Rightarrow> discard (candidate_path d u) out message
       | None \<Rightarrow> ReplacePolicy d (candidate_path d u) (backup_path d u) fail_at out) (publish_post d (blob_bytes blob) m)) m1"
proof (rule wp_mono [OF WriteCandidate_wp], elim conjE)
  fix problem :: "string option" and m2 :: machine
  assume m2: "problem = None \<longrightarrow> disk m2 (candidate_path d u) = Some (blob_bytes blob)"
    "\<forall>p. p \<noteq> candidate_path d u \<longrightarrow> disk m2 p = disk m1 p"
  show "wp (case problem of Some message \<Rightarrow> discard (candidate_path d u) out message
       | None \<Rightarrow> ReplacePolicy d (candidate_path d u) (backup_path d u) fail_at out) (publish_post d (blob_bytes blob) m) m2"
  proof (cases problem)
    case None
    with m2 m1 out show ?thesis by (auto intro!: ReplacePolicy_post)
  next
    case (Some message)
    thus ?thesis using m2 m1 out
      by (auto simp: wp_simps RemoveIfExists_def succeeds_def publish_post_def old_or_new_def policy_file_def)
  qed
qed

lemma Publish_wp: "wp (Publish d blob fail_at) (publish_post d (blob_bytes blob) m) m"
  unfolding Publish_def Let_def wp_bind wp_ret
proof (rule ReadGeneration_wp, goal_cases)
  case (1 g m1)
  have same: "publish_post d (blob_bytes blob) m r m'" if "disk m' = disk m" "\<not> was_published r" for r m'
    using that by (simp add: publish_post_def old_or_new_def)
  show ?case
    unfolding wp_bind wp_ret if_distrib [of "\<lambda>c. wp c _ _"]
    by (auto simp: 1 same_run_def intro!: same wp_anyI candidate_wp)
qed


text \<open>With at most one failing call, also counting an injected fault, the policy survives.\<close>

definition one_fault :: "PublishFault \<Rightarrow> machine \<Rightarrow> bool" where
  "one_fault fail_at m \<longleftrightarrow> (\<exists>k n. fault_at k n m \<and> (fail_at = FaultNone \<or> n = 0))"

lemma one_fault_later:
  assumes "one_fault fail_at m" "outcomes m' = outcomes m" "calls m \<le> calls m'"
  shows "one_fault fail_at m'"
proof -
  obtain k n where f: "fault_at k n m" "fail_at = FaultNone \<or> n = 0" using assms(1) by (auto simp: one_fault_def)
  obtain k' n' where "fault_at k' n' m'" "n = 0 \<longrightarrow> n' = 0"
    using fault_at_later [OF f(1) assms(2), of "calls m' - calls m"] assms(3) by auto
  thus ?thesis using f(2) by (auto simp: one_fault_def)
qed

definition keeps_policy :: "string \<Rightarrow> bytes \<Rightarrow> machine \<Rightarrow> PublishResult \<Rightarrow> machine \<Rightarrow> bool" where
  "keeps_policy d new m r m' \<longleftrightarrow>
     disk m' (active_path d) = (if was_published r then Some new else disk m (active_path d))"

lemma candidate_one_fault:
  assumes m1: "same_run m m1" and f: "one_fault fail_at m" and out: "\<not> was_published out"
  shows "wp (WriteCandidate (candidate_path d u) blob fail_at)
    (\<lambda>problem. wp (case problem of Some message \<Rightarrow> discard (candidate_path d u) out message
       | None \<Rightarrow> ReplacePolicy d (candidate_path d u) (backup_path d u) fail_at out) (keeps_policy d (blob_bytes blob) m)) m1"
proof (rule wp_mono [OF WriteCandidate_wp], elim conjE exE)
  fix problem :: "string option" and m2 :: machine and i
  assume m2: "problem = None \<longrightarrow> disk m2 (candidate_path d u) = Some (blob_bytes blob)"
    "\<forall>p. p \<noteq> candidate_path d u \<longrightarrow> disk m2 p = disk m1 p" "outcomes m2 = outcomes m1" "calls m2 = calls m1 + i"
  have old: "disk m2 (active_path d) = disk m (active_path d)" using m2(2) m1 by (simp add: same_run_def)
  show "wp (case problem of Some message \<Rightarrow> discard (candidate_path d u) out message
       | None \<Rightarrow> ReplacePolicy d (candidate_path d u) (backup_path d u) fail_at out) (keeps_policy d (blob_bytes blob) m) m2"
  proof (cases problem)
    case None
    have "one_fault fail_at m2" by (rule one_fault_later [OF f]) (use m1 m2 in \<open>auto simp: same_run_def\<close>)
    then obtain k n where "fault_at k n m2" "fail_at = FaultNone \<or> n = 0" by (auto simp: one_fault_def)
    hence "wp (ReplacePolicy d (candidate_path d u) (backup_path d u) fail_at out) (keeps_policy d (blob_bytes blob) m) m2"
      using None m2(1) old by (intro wp_mono [OF ReplacePolicy_one_fault [OF _ out]]) (auto simp: keeps_policy_def)
    thus ?thesis using None by simp
  next
    case (Some message)
    thus ?thesis using old out by (auto simp: wp_simps RemoveIfExists_def succeeds_def keeps_policy_def)
  qed
qed

lemma Publish_one_fault:
  assumes "one_fault fail_at m"
  shows "wp (Publish d blob fail_at) (keeps_policy d (blob_bytes blob) m) m"
  unfolding Publish_def Let_def wp_bind wp_ret
proof (rule ReadGeneration_wp, goal_cases)
  case (1 g m1)
  have same: "keeps_policy d (blob_bytes blob) m r m'" if "disk m' = disk m" "\<not> was_published r" for r m'
    using that by (simp add: keeps_policy_def)
  show ?case
    unfolding wp_bind wp_ret if_distrib [of "\<lambda>c. wp c _ _"]
    by (auto simp: 1 same_run_def intro!: same wp_anyI candidate_one_fault assms)
qed

subsection \<open>What the other writes do\<close>

definition temporary_of :: "string \<Rightarrow> string \<Rightarrow> string \<Rightarrow> bool" where
  "temporary_of dir name p \<longleftrightarrow> (\<exists>u. p = path_join dir (''.'' @ name @ ''.'' @ u))"

text \<open>What a write leaves in a file: its bytes, or, after a short write, the first of them.\<close>

definition stored :: "bytes \<Rightarrow> machine \<Rightarrow> bytes option \<Rightarrow> bool" where
  "stored bs m contents \<longleftrightarrow>
     contents = Some bs \<or> (\<exists>n. contents = Some (take n bs)) \<and> (\<exists>i. outcomes m i > 1)"

lemma stored_full [simp]: "stored bs m (Some bs)"
  by (simp add: stored_def)

definition write_post :: "string \<Rightarrow> string \<Rightarrow> bytes \<Rightarrow> machine \<Rightarrow> bool \<Rightarrow> machine \<Rightarrow> bool" where
  "write_post dir name bs m ok m' \<longleftrightarrow>
     (\<not> ok \<and> disk m' (path_join dir name) = disk m (path_join dir name) \<or>
      stored bs m (disk m' (path_join dir name))) \<and>
     (\<forall>p. p \<noteq> path_join dir name \<and> \<not> temporary_of dir name p \<longrightarrow> disk m' p = disk m p) \<and>
     outcomes m' = outcomes m \<and> calls m \<le> calls m' \<and> sources m' = sources m \<and> loads m' = loads m \<and> euid m' = euid m"

lemma dotted_name [simp]: "CHR ''.'' # name @ CHR ''.'' # u \<noteq> name" "name \<noteq> CHR ''.'' # name @ CHR ''.'' # u"
  by (auto dest: arg_cong [of _ _ length])

lemma AtomicWriteText_wp: "wp (AtomicWriteText dir name contents) (write_post dir name (string_bytes contents) m) m"
proof -
  have short: "stored bs m (Some (take k bs))" if "outcomes m (calls m) \<noteq> 0" "outcomes m (calls m) \<noteq> 1" for k bs
  proof -
    have "outcomes m (calls m) > 1" using that by simp
    thus ?thesis unfolding stored_def by blast
  qed
  show ?thesis unfolding AtomicWriteText_def Let_def
    by (simp add: wp_simps wp_case_option file_calls write_post_def temporary_of_def)
      (intro conjI impI; simp add: short)
qed

text \<open>The status files; everything else in any directory stays.\<close>

definition status_file :: "string \<Rightarrow> string \<Rightarrow> bool" where
  "status_file d p \<longleftrightarrow> (\<exists>name \<in> {''rules-status.txt'', ''rules-status.json''}. p = path_join d name \<or> temporary_of d name p)"

definition frame :: "(string \<Rightarrow> bool) \<Rightarrow> machine \<Rightarrow> machine \<Rightarrow> bool" where
  "frame touched m m' \<longleftrightarrow> (\<forall>p. \<not> touched p \<longrightarrow> disk m' p = disk m p) \<and> outcomes m' = outcomes m \<and> calls m \<le> calls m' \<and>
     sources m' = sources m \<and> euid m' = euid m"

lemma frame_trans: "frame t m m' \<Longrightarrow> frame t m' m'' \<Longrightarrow> frame t m m''"
  by (simp add: frame_def)

lemma WriteControlStatus_wp: "wp (WriteControlStatus d st) (\<lambda>_. frame (status_file d) m) m"
proof -
  have w: "wp (AtomicWriteText d name contents) (\<lambda>_. frame (status_file d) m1) m1"
    if "name \<in> {''rules-status.txt'', ''rules-status.json''}" for name contents m1
    by (rule wp_mono [OF AtomicWriteText_wp]) (use that in \<open>auto simp: write_post_def frame_def status_file_def\<close>)
  have s: "wp succeeds (\<lambda>_. frame (status_file d) m) m" by (simp add: succeeds_def wp_simps frame_def)
  show ?thesis unfolding WriteControlStatus_def wp_bind
    by (rule wp_mono [OF s], unfold wp_simps)
      (auto intro!: wp_mono [OF w] elim: frame_trans simp: wp_simps)
qed

subsection \<open>What a reconciliation does\<close>

lemma status_not_policy: "policy_file d p \<Longrightarrow> \<not> status_file d p"
  by (auto simp: policy_file_def status_file_def temporary_of_def active_path_def candidate_path_def backup_path_def)

lemma active_not_status [simp]: "\<not> status_file d (active_path d)"
  by (rule status_not_policy) (simp add: policy_file_def)

lemma conclude_wp:
  assumes "\<And>m'. frame (status_file (run_directory r)) m m' \<Longrightarrow>
    Q (\<lparr>result_state = st, result_compiled = c, result_published = p, result_unchanged = u\<rparr>, r\<lparr>ctl_state := st\<rparr>) m'"
  shows "wp (conclude r st c p u) Q m"
  unfolding conclude_def wp_bind
  by (rule wp_mono [OF WriteControlStatus_wp]) (simp add: wp_simps assms)

text \<open>The policy a loaded source stands for, if it compiles and the device admits it.\<close>

definition admissible :: "toml_parser \<Rightarrow> Reconciler \<Rightarrow> SourceBuffer \<Rightarrow> PolicyBlob \<Rightarrow> bool" where
  "admissible parse r source blob \<longleftrightarrow>
     (let built = CompileRulesSource parse source (rec_limits r) in
      build_ok built \<and> build_blob built = Some blob \<and>
      admitted (AdmitPolicy (the (build_canonical built)) (build_requirements built) (rec_snapshot r)))"

definition activation ::
  "toml_parser \<Rightarrow> Reconciler \<Rightarrow> machine \<Rightarrow> ReconcileResult \<times> Reconciler \<Rightarrow> machine \<Rightarrow> bool" where
  "activation parse r m out m' \<longleftrightarrow>
     (case out of (result, r') \<Rightarrow>
        result_state result = ctl_state r' \<and>
        (if result_published result then
           \<exists>snapshot blob. LoadRulesSource (sources m (loads m)) (euid m) (rec_limits r) = Inr snapshot \<and>
             admissible parse r (snapshot_source snapshot) blob \<and>
             disk m' (active_path (run_directory r)) = Some (blob_bytes blob) \<and>
             ctl_state r' = (ctl_state r)\<lparr>source_digest := snapshot_digest snapshot,
               candidate_sequence := candidate_sequence (ctl_state r) + 1,
               capability_generation := snap_capability_generation (rec_snapshot r),
               topology_generation := snap_topology_generation (rec_snapshot r),
               control_status := StatusActive, error_code := [], state_message := ''policy activated'',
               active_content_generation := blob_generation blob,
               deployment_epoch := deployment_epoch (ctl_state r) + 1\<rparr>
         else
           disk m' (active_path (run_directory r)) = disk m (active_path (run_directory r)) \<and>
           deployment_epoch (ctl_state r') = deployment_epoch (ctl_state r)))"

lemma Reconcile_activation:
  assumes f: "one_fault FaultNone m"
  shows "wp (Reconcile parse FaultNone r) (activation parse r m) m"
proof -
  let ?loaded = "LoadRulesSource (sources m (loads m)) (euid m) (rec_limits r)"
  let ?m = "m\<lparr>loads := loads m + 1\<rparr>"
  have fm: "one_fault FaultNone ?m" by (rule one_fault_later [OF f]) simp_all
  have keep: "wp (conclude r' st c False u) (activation parse r m) m1"
    if "disk m1 (active_path (run_directory r)) = disk m (active_path (run_directory r))"
      "run_directory r' = run_directory r" "deployment_epoch st = deployment_epoch (ctl_state r)" for r' st c u m1
    by (rule conclude_wp) (use that in \<open>simp add: activation_def frame_def\<close>)
  have publish: "wp (PublishBuilt (r\<lparr>device_dirty := False\<rparr>)
        (with_generations (rec_snapshot r) ((ctl_state r)\<lparr>source_digest := snapshot_digest snapshot,
           candidate_sequence := candidate_sequence (ctl_state r) + 1\<rparr>)) blob FaultNone) (activation parse r m) ?m"
    if s: "?loaded = Inr snapshot" "admissible parse r (snapshot_source snapshot) blob" for snapshot blob
  proof -
    have rd: "run_directory (r\<lparr>device_dirty := False\<rparr>) = run_directory r" by simp
    show ?thesis unfolding PublishBuilt_def wp_bind rd
      by (rule wp_mono [OF Publish_one_fault [OF fm]])
        (use s in \<open>auto simp: wp_simps keeps_policy_def publish_ok_def failed_state_def with_generations_def activation_def
           frame_def intro!: keep conclude_wp exI [of _ blob]\<close>)
  qed
  show ?thesis
  proof (cases ?loaded)
    case (Inl problem)
    thus ?thesis by (cases problem) (simp add: Reconcile_def Let_def wp_simps, rule keep, simp_all add: failed_state_def)
  next
    case (Inr snapshot)
    show ?thesis
    proof (cases "build_blob (CompileRulesSource parse (snapshot_source snapshot) (rec_limits r))")
      case None
      thus ?thesis using Inr
        by (auto simp: Reconcile_def Let_def wp_simps build_ok_def failed_state_def with_generations_def split: prod.split intro!: keep)
    next
      case (Some blob)
      thus ?thesis using Inr publish [OF Inr, of blob]
        by (auto simp: Reconcile_def Let_def wp_simps failed_state_def with_generations_def admissible_def
          split: prod.split intro!: keep)
    qed
  qed
qed

subsection \<open>What saving does\<close>

lemma PublishBuilt_frame:
  "wp (PublishBuilt r st blob fail_at) (\<lambda>_ m'. \<forall>p. \<not> policy_file (run_directory r) p \<and> \<not> status_file (run_directory r) p \<longrightarrow> disk m' p = disk m p) m"
  unfolding PublishBuilt_def wp_bind
  by (rule wp_mono [OF Publish_wp])
    (auto simp: wp_simps publish_post_def frame_def intro!: conclude_wp)

lemma Reconcile_frame:
  "wp (Reconcile parse fail_at r) (\<lambda>_ m'. \<forall>p. \<not> policy_file (run_directory r) p \<and> \<not> status_file (run_directory r) p \<longrightarrow> disk m' p = disk m p) m"
proof -
  have publish: "wp (PublishBuilt r' st blob fail_at) (\<lambda>_ m'. \<forall>p. \<not> policy_file (run_directory r) p \<and> \<not> status_file (run_directory r) p \<longrightarrow> disk m' p = disk m p) m1"
    if "run_directory r' = run_directory r" "disk m1 = disk m" for r' st blob m1
    using PublishBuilt_frame [of r' st blob fail_at m1] that by simp
  show ?thesis unfolding Reconcile_def Let_def
    by (simp add: wp_simps split: sum.split prod.split)
      (auto simp: frame_def intro!: conclude_wp publish split: prod.split)
qed

text \<open>When the rules file may be replaced: it had the expected digest twice, and the replacement was checked.\<close>

definition save_checked :: "toml_parser \<Rightarrow> string \<Rightarrow> string \<Rightarrow> Reconciler \<Rightarrow> machine \<Rightarrow> bool" where
  "save_checked parse digest replacement r m \<longleftrightarrow>
     (\<forall>i \<in> {0, 1}. \<exists>snapshot. LoadRulesSource (sources m (loads m + i)) (euid m) (rec_limits r) = Inr snapshot \<and>
        snapshot_digest snapshot = digest) \<and>
     (\<exists>blob. admissible parse r \<lparr>file_name = kRulesFileName, source_bytes = replacement\<rparr> blob)"

definition save_post ::
  "toml_parser \<Rightarrow> string \<Rightarrow> string \<Rightarrow> Reconciler \<Rightarrow> machine \<Rightarrow> ManagerSaveResult \<times> Reconciler \<Rightarrow> machine \<Rightarrow> bool" where
  "save_post parse digest replacement r m out m' \<longleftrightarrow>
     (let rules = path_join (config_directory r) kRulesFileName in
      if was_saved (fst out) then save_checked parse digest replacement r m \<and> stored (string_bytes replacement) m (disk m' rules)
      else snd out = r \<and> disk m' (active_path (run_directory r)) = disk m (active_path (run_directory r)) \<and>
           (disk m' rules = disk m rules \<or>
            save_checked parse digest replacement r m \<and> stored (string_bytes replacement) m (disk m' rules)))"

lemma CheckReplacement_Inr:
  assumes "CheckReplacement parse r replacement = Inr candidate"
  shows "candidate = \<lparr>file_name = kRulesFileName, source_bytes = replacement\<rparr>" "\<exists>blob. admissible parse r candidate blob"
  using assms by (auto simp: CheckReplacement_def SourceBuffer_Create_def Let_def admissible_def build_ok_def split: sum.splits if_splits)

lemma SaveRules_wp:
  assumes away: "\<not> policy_file (run_directory r) (path_join (config_directory r) kRulesFileName)"
    "\<not> status_file (run_directory r) (path_join (config_directory r) kRulesFileName)"
    "active_path (run_directory r) \<noteq> path_join (config_directory r) kRulesFileName"
    "\<not> temporary_of (config_directory r) kRulesFileName (active_path (run_directory r))"
  shows "wp (SaveRules parse digest replacement r) (save_post parse digest replacement r m) m"
proof -
  let ?rules = "path_join (config_directory r) kRulesFileName"
  have keep: "wp (rejected r problem) (save_post parse digest replacement r m) m1" if "disk m1 = disk m" for problem m1
    using that by (simp add: rejected_def wp_simps save_post_def)
  have writing: "wp (AtomicWriteText (config_directory r) kRulesFileName replacement)
      (\<lambda>written. wp (if \<not> written then rejected r (''PG-SOURCE-WRITE'', ''cannot atomically replace rules.toml'')
         else do { (result, r) \<leftarrow> Reconcile parse FaultNone r;
                   ret (\<lparr>save_reconcile = result, was_saved = True,
                     save_error = (if reconcile_ok result then ([], [])
                       else (error_code (result_state result), state_message (result_state result)))\<rparr>, r) })
       (save_post parse digest replacement r m)) m1"
    if m1: "disk m1 = disk m" "outcomes m1 = outcomes m" and ok: "save_checked parse digest replacement r m" for m1
  proof (rule wp_mono [OF AtomicWriteText_wp])
    fix written m2
    assume p: "write_post (config_directory r) kRulesFileName (string_bytes replacement) m1 written m2"
    have other: "disk m2 (active_path (run_directory r)) = disk m (active_path (run_directory r))"
      using p m1 away by (simp add: write_post_def)
    have rules: "\<not> written \<and> disk m2 ?rules = disk m ?rules \<or> stored (string_bytes replacement) m (disk m2 ?rules)"
      using p m1 by (auto simp: write_post_def stored_def)
    have "wp (Reconcile parse FaultNone r)
        (\<lambda>out m'. save_post parse digest replacement r m
           (\<lparr>save_reconcile = fst out, was_saved = True, save_error = e out\<rparr>, snd out) m') m2" if written for e
      by (rule wp_mono [OF Reconcile_frame]) (use rules that ok away in \<open>simp add: save_post_def\<close>)
    thus "wp (if \<not> written then rejected r (''PG-SOURCE-WRITE'', ''cannot atomically replace rules.toml'')
         else do { (result, r) \<leftarrow> Reconcile parse FaultNone r;
                   ret (\<lparr>save_reconcile = result, was_saved = True,
                     save_error = (if reconcile_ok result then ([], [])
                       else (error_code (result_state result), state_message (result_state result)))\<rparr>, r) })
       (save_post parse digest replacement r m) m2"
      using rules other ok by (auto simp: wp_simps rejected_def save_post_def case_prod_beta Let_def)
  qed
  have checked: "save_checked parse digest replacement r m"
    if "LoadRulesSource (sources m (loads m)) (euid m) (rec_limits r) = Inr s0" "snapshot_digest s0 = digest"
      "LoadRulesSource (sources m (Suc (loads m))) (euid m) (rec_limits r) = Inr s1" "snapshot_digest s1 = digest"
      "CheckReplacement parse r replacement = Inr candidate" for s0 s1 candidate
    using that CheckReplacement_Inr [OF that(5)] by (auto simp: save_checked_def)
  have run: "wp (SaveRules parse digest replacement r) Q m =
      (case LoadRulesSource (sources m (loads m)) (euid m) (rec_limits r) of
         Inl problem \<Rightarrow> wp (rejected r problem) Q (m\<lparr>loads := Suc (loads m)\<rparr>)
       | Inr s0 \<Rightarrow> if snapshot_digest s0 \<noteq> digest
           then wp (rejected r (''PG-SOURCE-CONFLICT'', ''rules.toml changed since the Manager snapshot'')) Q (m\<lparr>loads := Suc (loads m)\<rparr>)
           else case CheckReplacement parse r replacement of
             Inl problem \<Rightarrow> wp (rejected r problem) Q (m\<lparr>loads := Suc (loads m)\<rparr>)
           | Inr candidate \<Rightarrow>
               (case LoadRulesSource (sources m (Suc (loads m))) (euid m) (rec_limits r) of
                  Inl problem \<Rightarrow> wp (rejected r problem) Q (m\<lparr>loads := Suc (Suc (loads m))\<rparr>)
                | Inr s1 \<Rightarrow> if snapshot_digest s1 \<noteq> digest
                    then wp (rejected r (''PG-SOURCE-CONFLICT'', ''rules.toml changed while the save was being validated'')) Q (m\<lparr>loads := Suc (Suc (loads m))\<rparr>)
                    else wp (AtomicWriteText (config_directory r) kRulesFileName (source_bytes candidate))
                      (\<lambda>written. wp (if \<not> written then rejected r (''PG-SOURCE-WRITE'', ''cannot atomically replace rules.toml'')
         else do { (result, r) \<leftarrow> Reconcile parse FaultNone r;
                   ret (\<lparr>save_reconcile = result, was_saved = True,
                     save_error = (if reconcile_ok result then ([], [])
                       else (error_code (result_state result), state_message (result_state result)))\<rparr>, r) }) Q)
                      (m\<lparr>loads := Suc (Suc (loads m))\<rparr>)))" for Q
    by (simp add: SaveRules_def wp_bind wp_next_source split: sum.split)
  show ?thesis
  proof (cases "LoadRulesSource (sources m (loads m)) (euid m) (rec_limits r)")
    case (Inl problem)
    thus ?thesis by (simp add: run keep)
  next
    case s0: (Inr s0)
    show ?thesis
    proof (cases "snapshot_digest s0 = digest \<and> (\<exists>candidate s1. CheckReplacement parse r replacement = Inr candidate \<and>
        LoadRulesSource (sources m (Suc (loads m))) (euid m) (rec_limits r) = Inr s1 \<and> snapshot_digest s1 = digest)")
      case True
      then obtain candidate s1 where t: "snapshot_digest s0 = digest" "CheckReplacement parse r replacement = Inr candidate"
        "LoadRulesSource (sources m (Suc (loads m))) (euid m) (rec_limits r) = Inr s1" "snapshot_digest s1 = digest" by blast
      have c: "source_bytes candidate = replacement" using CheckReplacement_Inr(1) [OF t(2)] by simp
      show ?thesis using writing [OF _ _ checked [OF s0 t(1,3,4,2)]] by (simp add: run s0 t c)
    next
      case False
      thus ?thesis by (simp add: run s0 keep split: sum.split) blast
    qed
  qed
qed

subsection \<open>The numbers of the status file\<close>

lemma after_first_None: "c \<in> set p \<Longrightarrow> c \<notin> set s \<Longrightarrow> after_first p s = None"
proof (induction s)
  case (Cons x s)
  have "\<not> prefix p (x # s)" using Cons.prems set_mono_prefix by fastforce
  thus ?case using Cons by simp
qed auto

lemma after_first_line:
  assumes "newline \<notin> set p" "p \<noteq> []"
  shows "after_first p (l @ newline # rest) =
    (case after_first p l of None \<Rightarrow> after_first p rest | Some r \<Rightarrow> Some (r @ newline # rest))"
proof (induction l)
  case Nil
  thus ?case using assms by (cases p) auto
next
  case (Cons x l)
  have "prefix p ((x # l) @ newline # rest) \<longleftrightarrow> prefix p (x # l)"
  proof
    assume "prefix p ((x # l) @ newline # rest)"
    hence "prefix p (x # l) \<or> (\<exists>q. p = (x # l) @ q \<and> prefix q (newline # rest))" by (simp only: prefix_append)
    thus "prefix p (x # l)" using assms(1) by (auto simp: prefix_Cons)
  qed (rule prefix_prefix)
  moreover have "drop (length p) ((x # l) @ newline # rest) = drop (length p) (x # l) @ newline # rest" if "prefix p (x # l)"
    using prefix_length_le [OF that] by (simp only: drop_append) simp
  ultimately show ?case using Cons.IH by auto
qed

text \<open>A key that is not found in the lines before its own is read from its line.\<close>

lemma status_number:
  assumes "newline \<notin> set key" "c \<in> set key" "\<forall>l \<in> set before. c \<notin> set l"
  shows "after_first (key @ '': '') (concat (map (\<lambda>l. l @ [newline]) before) @ status_line key v @ rest) =
    Some (v @ newline # rest)"
  using assms(3)
proof (induction before)
  case Nil
  have "prefix (key @ '': '') (status_line key v @ rest)" by (simp add: status_line_def)
  thus ?case using assms(2) by (cases key) (auto simp: status_line_def)
next
  case (Cons l ls)
  have "after_first (key @ '': '') l = None" using Cons.prems assms(2) by (intro after_first_None [of c]) auto
  thus ?case using Cons assms(1) by (simp add: after_first_line)
qed

lemma newline_not_digit: "newline \<notin> set (number v)"
  using to_string_digits [of "unat v"] by (auto simp: number_def is_digit_def less_eq_char_def)

lemma parse_number: "from_chars 64 (takeWhile (\<lambda>c. c \<noteq> newline) (number v @ newline # rest)) = Some (unat v, [])"
proof -
  have "takeWhile (\<lambda>c. c \<noteq> newline) (number v @ newline # rest) = number v"
    using newline_not_digit by (subst takeWhile_append2) auto
  thus ?thesis using from_chars_to_string [of "unat v" 64] unsigned_less [of v] by (simp add: number_def)
qed

lemma Sha256_chars: "set (Sha256 s) \<subseteq> set (''sha256:'' @ hex_digits)"
proof -
  have "set (hex8 v) \<subseteq> set hex_digits" for v
    by (auto simp: hex8_def hex_digits_def nth_Cons' intro!: nth_mem)
  thus ?thesis by (auto simp: Sha256_def split: prod.splits)
qed


text \<open>The texts a digest can be.\<close>

definition digest_text :: "string \<Rightarrow> bool" where
  "digest_text s \<longleftrightarrow> s = [] \<or> (\<exists>source. s = Sha256 source)"

lemma digest_chars: "digest_text s \<Longrightarrow> CHR ''v'' \<notin> set s \<and> CHR ''y'' \<notin> set s"
  using Sha256_chars by (auto simp: digest_text_def hex_digits_def)

lemma number_chars: "CHR ''v'' \<notin> set (number n)" "CHR ''y'' \<notin> set (number n)"
  using to_string_digits [of "unat n"] by (auto simp: number_def is_digit_def less_eq_char_def)

lemma status_numbers:
  assumes "digest_text (source_digest st)"
  shows "\<exists>rest. after_first (''active_content_generation'' @ '': '') (RenderControlStatusText st) =
      Some (number (active_content_generation st) @ newline # rest)"
    and "\<exists>rest. after_first (''deployment_epoch'' @ '': '') (RenderControlStatusText st) =
      Some (number (deployment_epoch st) @ newline # rest)"
proof -
  define first where "first = [''source: rules.toml'', ''source_digest: '' @ source_digest st,
    ''candidate_sequence: '' @ number (candidate_sequence st)]"
  define generation where "generation = ''active_content_generation: '' @ number (active_content_generation st)"
  note chars = digest_chars [OF assms] number_chars
  obtain rest where whole: "RenderControlStatusText st =
      concat (map (\<lambda>l. l @ [newline]) first) @
      status_line ''active_content_generation'' (number (active_content_generation st)) @
      status_line ''deployment_epoch'' (number (deployment_epoch st)) @ rest"
    by (simp add: RenderControlStatusText_def first_def status_line_def)
  have whole': "RenderControlStatusText st =
      concat (map (\<lambda>l. l @ [newline]) (first @ [generation])) @
      status_line ''deployment_epoch'' (number (deployment_epoch st)) @ rest"
    by (simp add: whole generation_def status_line_def)
  show "\<exists>rest. after_first (''active_content_generation'' @ '': '') (RenderControlStatusText st) =
      Some (number (active_content_generation st) @ newline # rest)"
    unfolding whole by (rule exI, rule status_number [where c = "CHR ''v''"]) (use chars in \<open>simp_all add: first_def\<close>)
  show "\<exists>rest. after_first (''deployment_epoch'' @ '': '') (RenderControlStatusText st) =
      Some (number (deployment_epoch st) @ newline # rest)"
    unfolding whole' by (rule exI, rule status_number [where c = "CHR ''y''"]) (use chars in \<open>simp_all add: first_def generation_def\<close>)
qed

lemma wp_ReadAll_fine:
  "(\<forall>i. outcomes m i = 0) \<Longrightarrow> wp (ReadAll p) Q m = Q (disk m p) (m\<lparr>calls := calls m + 1\<rparr>)"
  by (simp add: ReadAll_def wp_simps)

lemma ReadStatusNumber_fine:
  assumes "\<forall>i. outcomes m i = 0" "disk m p = Some (string_bytes (RenderControlStatusText st))"
    and "\<exists>rest. after_first (key @ '': '') (RenderControlStatusText st) = Some (number n @ newline # rest)"
  shows "wp (ReadStatusNumber p key) Q m = Q n (m\<lparr>calls := calls m + 1\<rparr>)"
proof -
  obtain rest where r: "after_first (key @ '': '') (RenderControlStatusText st) = Some (number n @ newline # rest)"
    using assms(3) ..
  show ?thesis
    by (simp add: ReadStatusNumber_def wp_bind wp_ret wp_ReadAll_fine [OF assms(1)] assms(2) r parse_number)
qed

lemma Reconciler_new_restart:
  assumes fine: "\<forall>i. outcomes m i = 0"
    and policy: "disk m (active_path run) = Some bytes" "DecodePolicy bytes = Some (Inr (document, active_content_generation st))"
    and status: "disk m (path_join run ''rules-status.txt'') = Some (string_bytes (RenderControlStatusText st))"
    and st: "digest_text (source_digest st)" "active_content_generation st \<noteq> 0" "deployment_epoch st \<noteq> 0"
  shows "wp (Reconciler_new config run limits snapshot)
    (\<lambda>r m'. disk m' = disk m \<and> ctl_state r = initial_state\<lparr>active_content_generation := active_content_generation st,
       deployment_epoch := deployment_epoch st\<rparr>) m"
proof -
  have "wp (ReadGeneration (active_path run)) Q m = Q (Some (active_content_generation st)) (m\<lparr>calls := calls m + 1\<rparr>)" for Q
    by (simp add: ReadGeneration_def wp_bind wp_ret wp_ReadAll_fine [OF fine] policy)
  thus ?thesis unfolding Reconciler_new_def Let_def wp_bind
    using st(2,3) fine status
    by (simp add: wp_bind wp_ret ReadStatusNumber_fine [OF _ _ status_numbers(1) [OF st(1)]]
        ReadStatusNumber_fine [OF _ _ status_numbers(2) [OF st(1)]])
qed

subsection \<open>Properties\<close>

lemma single_one_fault: "single_fault m \<Longrightarrow> one_fault FaultNone m"
  using single_fault_at by (auto simp: one_fault_def)

lemma no_fault: "(\<forall>i. outcomes m i = 0) \<Longrightarrow> one_fault fail_at m"
  unfolding one_fault_def fault_at_def by (intro exI [of _ 0]) simp

definition sample_machine :: "(nat \<Rightarrow> nat) \<Rightarrow> SourceAnswers \<Rightarrow> machine" where
  "sample_machine outs answers = \<lparr>disk = (\<lambda>_. None), outcomes = outs, calls = 0, sources = (\<lambda>_. answers), loads = 0,
     clock = (\<lambda>_. 7), sequence = 0, euid = 0\<rparr>"

definition sample_stat :: FileStat where
  "sample_stat = \<lparr>fst_regular = True, fst_uid = 0, fst_mode = 0x180, fst_size = 39, fst_device = 1, fst_inode = 2, fst_mtime = (3, 4)\<rparr>"

definition sample_answers :: SourceAnswers where
  "sample_answers = \<lparr>ans_directory = True, ans_file = True, ans_before = Some sample_stat,
     ans_first = [Some (take 5 (source_bytes rules_source)), Some (drop 5 (source_bytes rules_source))], ans_seek = True,
     ans_second = [Some (source_bytes rules_source)],
     ans_after = Some sample_stat\<rparr>"

definition sample_blob :: PolicyBlob where
  "sample_blob = \<lparr>blob_bytes = encoded_file sample_encoded, blob_generation = ContentGeneration sample_encoded\<rparr>"

lemma sample_blob_verifies: "VerifyPolicyBytes (blob_bytes sample_blob) (blob_generation sample_blob)"
proof -
  have "EncodeAndVerify sample_policy = Some sample_blob"
    using EncodeAndVerify_complete [OF sample_encoded_eq sample_encodes sample_encoded_facts(2) sample_generation]
    by (simp add: sample_blob_def)
  from EncodeAndVerify_Some(4) [OF this] show ?thesis by (simp add: VerifyPolicyBlob_def)
qed

text \<open>Claim C6. One failing call never costs the active policy.  Let at most one call of the operating system
  fail or be cut short, at any place, or let one fault be injected and no call fail.  After \<open>Publish\<close> the file
  \<open>policy.bin\<close> holds the complete new policy if the call reports it as published, and otherwise exactly what it
  held before.\<close>

theorem publish_survives_one_fault:
  assumes "single_fault m" "fail_at = FaultNone \<or> (\<forall>i. outcomes m i = 0)"
    and "run_state (Publish d blob fail_at) m = (r, m')"
  shows "disk m' (active_path d) = (if was_published r then Some (blob_bytes blob) else disk m (active_path d))"
proof -
  have "one_fault fail_at m" using assms(1,2) single_one_fault no_fault by blast
  from wp_run [OF assms(3) Publish_one_fault [OF this]] show ?thesis by (simp add: keeps_policy_def)
qed

theorem publish_survives_one_fault_witness:
  "\<exists>r m'. run_state (Publish ''/run'' sample_blob FaultNone) (sample_machine (\<lambda>i. if i = 8 then 1 else 0) sample_answers) = (r, m') \<and>
     disk m' ''/run/policy.bin'' = (if was_published r then Some (blob_bytes sample_blob) else None)"
proof -
  let ?m = "sample_machine (\<lambda>i. if i = 8 then 1 else 0) sample_answers"
  obtain r m' where run: "run_state (Publish ''/run'' sample_blob FaultNone) ?m = (r, m')" by fastforce
  have "single_fault ?m" by (simp add: single_fault_def sample_machine_def)
  from publish_survives_one_fault [OF this _ run] run show ?thesis
    by (intro exI [of _ r] exI [of _ m']) (simp add: sample_machine_def active_path_def path_join_def)
qed

text \<open>With two failures, of the type query and of the directory's \<open>fsync\<close>, the active policy is lost.\<close>

theorem publish_two_faults:
  assumes "disk m (active_path d) = Some old" "calls m = 0" "outcomes m = (\<lambda>i. if i = 7 \<or> i = 9 then 1 else 0)"
    and "VerifyPolicyBytes (blob_bytes blob) (blob_generation blob)"
    and "\<forall>document. DecodePolicy old \<noteq> Some (Inr (document, blob_generation blob))"
  shows "wp (Publish d blob FaultNone) (\<lambda>r m'. \<not> was_published r \<and> disk m' (active_path d) = None) m"
proof -
  have g: "(case DecodePolicy old of Some (Inr (_, generation)) \<Rightarrow> Some generation | _ \<Rightarrow> None) \<noteq> Some (blob_generation blob)"
    using assms(5) by (auto split: option.splits sum.splits prod.splits)
  show ?thesis
    using g by (simp add: Publish_def Let_def ReadGeneration_def WriteCandidate_def ReplacePolicy_def CommitPolicy_def file_calls
      wp_simps wp_case_option assms(1-4))
qed

text \<open>The file \<open>policy.bin\<close> is a policy file of a generation.\<close>

definition in_force :: "string \<Rightarrow> u64 \<Rightarrow> machine \<Rightarrow> bool" where
  "in_force d generation m \<longleftrightarrow>
     (\<exists>bytes document. disk m (active_path d) = Some bytes \<and> DecodePolicy bytes = Some (Inr (document, generation)))"

text \<open>When no call fails and the bytes of the policy pass the verification with their generation, \<open>Publish\<close>
  reports success, and afterwards \<open>policy.bin\<close> is a policy file of that generation.\<close>

lemma Publish_completes:
  assumes "\<forall>i. outcomes m i = 0" "VerifyPolicyBytes (blob_bytes blob) (blob_generation blob)"
  shows "wp (Publish d blob FaultNone) (\<lambda>r m'. publish_ok r \<and> in_force d (blob_generation blob) m') m"
proof -
  obtain document where doc: "DecodePolicy (blob_bytes blob) = Some (Inr (document, blob_generation blob))"
    using assms(2) by (auto simp: VerifyPolicyBytes_def split: option.splits sum.splits prod.splits)
  show ?thesis
    by (simp add: Publish_def Let_def ReadGeneration_def WriteCandidate_def ReplacePolicy_def CommitPolicy_def file_calls
      wp_simps wp_case_option assms doc publish_ok_def in_force_def split: option.split sum.split prod.split)
qed

definition sample_capabilities :: DeviceSnapshot where
  "sample_capabilities = \<lparr>snap_mount = \<lparr>primitives = 8, strict_actions = 3, legacy_actions = 0\<rparr>,
     snap_provider_supported = True, snap_topology_supported = True, snap_capability_generation = 1,
     snap_topology_generation = 1\<rparr>"

definition sample_reconciler :: Reconciler where
  "sample_reconciler = \<lparr>config_directory = ''/m/config'', run_directory = ''/m/run'', rec_limits = default_limits,
     rec_snapshot = sample_capabilities, ctl_state = initial_state, device_dirty = False\<rparr>"

lemma sample_loads:
  "LoadRulesSource sample_answers 0 default_limits =
     Inr \<lparr>snapshot_source = rules_source, snapshot_digest = Sha256 (source_bytes rules_source)\<rparr>"
  by (simp add: LoadRulesSource_def sample_answers_def sample_stat_def SafeSource_def StableSource_def FinishSource_def bom_def
      SourceBuffer_Create_def default_limits_def kRulesFileName_def rules_source_def quoted_def)

lemma sample_admissible: "admissible sample_toml sample_reconciler rules_source sample_blob"
proof -
  have "build_requirements (CompileRulesSource sample_toml rules_source default_limits) = Requirements sample_policy"
    unfolding CompileRulesSource_def sample_compiles [OF sample_parse parsed_document_spec(1) [OF sample_parse]] by simp
  moreover have "admitted (AdmitPolicy sample_policy (Requirements sample_policy) sample_capabilities)"
    by code_simp
  ultimately show ?thesis
    by (simp add: admissible_def sample_reconciler_def sample_source_compiled sample_blob_def)
qed

lemma CompileRules_verified:
  assumes "build_ok (CompileRulesSource parse source limits)" "build_blob (CompileRulesSource parse source limits) = Some blob"
  shows "VerifyPolicyBytes (blob_bytes blob) (blob_generation blob)"
proof -
  obtain canonical where "build_canonical (CompileRulesSource parse source limits) = Some canonical"
    using assms(1) by (auto simp: build_ok_def)
  with assms have "EncodeAndVerify canonical = Some blob"
    unfolding CompileRulesSource_def by (intro compiled_blob)
  from EncodeAndVerify_Some(4) [OF this] show ?thesis by (simp add: VerifyPolicyBlob_def)
qed

text \<open>Claim C12. A good source is put into force.  When no call fails, the rules file is read stably with a text
  that was not tried last or on a device that changed, and it compiles to a policy that the device admits, then
  \<open>Reconcile\<close> ends with the status active, and \<open>policy.bin\<close> is a policy file of the compiled generation, which is also
  the one of the state.\<close>

theorem reconcile_puts_into_force:
  assumes "\<forall>i. outcomes m i = 0"
    and "LoadRulesSource (sources m (loads m)) (euid m) (rec_limits r) = Inr snapshot"
    and "admissible parse r (snapshot_source snapshot) blob"
    and "snapshot_digest snapshot \<noteq> source_digest (ctl_state r) \<or> device_dirty r"
  shows "\<exists>result r' m'. run_state (Reconcile parse FaultNone r) m = ((result, r'), m') \<and> reconcile_ok result \<and>
    in_force (run_directory r) (blob_generation blob) m' \<and> active_content_generation (ctl_state r') = blob_generation blob"
proof -
  have built: "build_ok (CompileRulesSource parse (snapshot_source snapshot) (rec_limits r))"
    "build_blob (CompileRulesSource parse (snapshot_source snapshot) (rec_limits r)) = Some blob"
    "admitted (AdmitPolicy (the (build_canonical (CompileRulesSource parse (snapshot_source snapshot) (rec_limits r))))
       (build_requirements (CompileRulesSource parse (snapshot_source snapshot) (rec_limits r))) (rec_snapshot r))"
    using assms(3) by (auto simp: admissible_def Let_def)
  let ?Q = "\<lambda>(result, r') m'. reconcile_ok result \<and> in_force (run_directory r) (blob_generation blob) m' \<and>
    active_content_generation (ctl_state r') = blob_generation blob"
  have publish: "wp (PublishBuilt r1 st blob FaultNone) ?Q m1" if "run_directory r1 = run_directory r" "\<forall>i. outcomes m1 i = 0" for r1 st m1
    unfolding PublishBuilt_def wp_bind
    by (rule wp_mono [OF Publish_completes [OF that(2) CompileRules_verified [OF built(1,2)]]])
      (auto simp: wp_simps that(1) frame_def in_force_def reconcile_ok_def intro!: conclude_wp)
  have "wp (Reconcile parse FaultNone r) ?Q m"
    using assms(4) unfolding Reconcile_def Let_def
    by (auto simp: wp_simps assms(1,2) built intro!: publish)
  thus ?thesis by (auto simp: wp_def split: prod.splits)
qed

theorem reconcile_puts_into_force_witness:
  "\<exists>result r' m'. run_state (Reconcile sample_toml FaultNone sample_reconciler) (sample_machine (\<lambda>_. 0) sample_answers) =
      ((result, r'), m') \<and> reconcile_ok result \<and> in_force ''/m/run'' (blob_generation sample_blob) m' \<and>
     active_content_generation (ctl_state r') = blob_generation sample_blob"
proof -
  let ?m = "sample_machine (\<lambda>_. 0) sample_answers"
  have "LoadRulesSource (sources ?m (loads ?m)) (euid ?m) (rec_limits sample_reconciler) =
     Inr \<lparr>snapshot_source = rules_source, snapshot_digest = Sha256 (source_bytes rules_source)\<rparr>"
    using sample_loads by (simp add: sample_machine_def sample_reconciler_def)
  moreover have "\<forall>i. outcomes ?m i = 0" by (simp add: sample_machine_def)
  moreover have "Sha256 (source_bytes rules_source) \<noteq> source_digest (ctl_state sample_reconciler)"
    by (simp add: Sha256_def Let_def sample_reconciler_def initial_state_def split: prod.split)
  moreover have "run_directory sample_reconciler = ''/m/run''" by (simp add: sample_reconciler_def)
  ultimately show ?thesis
    using reconcile_puts_into_force [of ?m sample_reconciler _ sample_toml sample_blob] sample_admissible by simp
qed

text \<open>Claim C11. A policy is activated exactly when it is compiled, admitted and published.  On a machine where
  at most one call fails, \<open>Reconcile\<close> either reports a publication: then the rules file was read stably, its
  text compiles to a policy that the device admits, \<open>policy.bin\<close> holds the compiled bytes, and the state has the
  digest, the generations and an epoch higher by one.  Or it does not: then \<open>policy.bin\<close> and the epoch are the
  same as before.  The reported state is the stored one.\<close>

theorem reconcile_activates_exactly:
  assumes "single_fault m" "run_state (Reconcile parse FaultNone r) m = ((result, r'), m')"
  shows "activation parse r m (result, r') m'"
  by (rule wp_run [OF assms(2)]) (rule Reconcile_activation [OF single_one_fault [OF assms(1)]])

theorem reconcile_activates_exactly_witness:
  "\<exists>result r' m'. run_state (Reconcile sample_toml FaultNone sample_reconciler)
      (sample_machine (\<lambda>i. if i = 1 then 1 else 0) sample_answers) = ((result, r'), m') \<and>
    activation sample_toml sample_reconciler (sample_machine (\<lambda>i. if i = 1 then 1 else 0) sample_answers) (result, r') m'"
proof -
  let ?m = "sample_machine (\<lambda>i. if i = 1 then 1 else 0) sample_answers"
  obtain result r' m' where run: "run_state (Reconcile sample_toml FaultNone sample_reconciler) ?m = ((result, r'), m')"
    by (metis surj_pair)
  have "single_fault ?m" by (simp add: single_fault_def sample_machine_def)
  from reconcile_activates_exactly [OF this run] run show ?thesis by blast
qed

text \<open>Claim C37. A source that was tried once is not tried again.  When the rules file is read with the digest of
  the last tried source and no new device snapshot was set, \<open>Reconcile\<close> neither compiles nor publishes and
  keeps the status, the error code and the message, whatever they are.  So after a publication that failed
  for a passing reason the policy is not published by later runs, and after a source that could not be read
  for a while the status stays invalid although the same source is active.\<close>

theorem reconcile_never_retries:
  assumes "LoadRulesSource (sources m (loads m)) (euid m) (rec_limits r) = Inr snapshot"
    and "snapshot_digest snapshot = source_digest (ctl_state r)" "\<not> device_dirty r"
    and "run_state (Reconcile parse fail_at r) m = ((result, r'), m')"
  shows "\<not> result_compiled result \<and> \<not> result_published result \<and>
    control_status (ctl_state r') = control_status (ctl_state r) \<and> error_code (ctl_state r') = error_code (ctl_state r) \<and>
    state_message (ctl_state r') = state_message (ctl_state r) \<and>
    disk m' (active_path (run_directory r)) = disk m (active_path (run_directory r))"
proof -
  have "wp (Reconcile parse fail_at r) (\<lambda>(result, r') m'. \<not> result_compiled result \<and> \<not> result_published result \<and>
    control_status (ctl_state r') = control_status (ctl_state r) \<and> error_code (ctl_state r') = error_code (ctl_state r) \<and>
    state_message (ctl_state r') = state_message (ctl_state r) \<and>
    disk m' (active_path (run_directory r)) = disk m (active_path (run_directory r))) m"
    using assms(1-3) by (auto simp: Reconcile_def Let_def wp_simps with_generations_def frame_def intro!: conclude_wp)
  from wp_run [OF assms(4) this] show ?thesis by simp
qed

theorem reconcile_never_retries_witness:
  "\<exists>result r' m'. run_state (Reconcile sample_toml FaultNone (sample_reconciler\<lparr>ctl_state := initial_state\<lparr>
        source_digest := Sha256 (source_bytes rules_source), control_status := PublishFailed\<rparr>\<rparr>)) (sample_machine (\<lambda>_. 0) sample_answers) =
      ((result, r'), m') \<and>
    \<not> result_published result \<and> control_status (ctl_state r') = PublishFailed"
proof -
  let ?r = "sample_reconciler\<lparr>ctl_state := initial_state\<lparr>source_digest := Sha256 (source_bytes rules_source), control_status := PublishFailed\<rparr>\<rparr>"
  let ?m = "sample_machine (\<lambda>_. 0) sample_answers"
  obtain result r' m' where run: "run_state (Reconcile sample_toml FaultNone ?r) ?m = ((result, r'), m')" by (metis surj_pair)
  have "LoadRulesSource (sources ?m (loads ?m)) (euid ?m) (rec_limits ?r) =
     Inr \<lparr>snapshot_source = rules_source, snapshot_digest = Sha256 (source_bytes rules_source)\<rparr>"
    using sample_loads by (simp add: sample_machine_def sample_reconciler_def)
  from reconcile_never_retries [OF this _ _ run] run show ?thesis
    by (intro exI [of _ result] exI [of _ r'] exI [of _ m']) (simp add: sample_reconciler_def)
qed

text \<open>The rules file is not one of the files of the run directory.\<close>

definition apart :: "Reconciler \<Rightarrow> bool" where
  "apart r \<longleftrightarrow> \<not> policy_file (run_directory r) (path_join (config_directory r) kRulesFileName) \<and>
     \<not> status_file (run_directory r) (path_join (config_directory r) kRulesFileName) \<and>
     \<not> temporary_of (config_directory r) kRulesFileName (active_path (run_directory r))"

text \<open>Claim C13. Saving is a checked exchange.  \<open>SaveRules\<close> replaces the rules file only if the file had the digest
  the caller expects before and after the checks, and the replacement compiles and is admitted.  A save that is
  reported as done has stored the replacement.  A save that is rejected keeps the reconciler and the active policy,
  and the rules file is the old one or, where only the last step failed, the replacement.  What is stored is the
  whole replacement, unless a write was cut short.\<close>

theorem save_is_checked:
  assumes "apart r" "run_state (SaveRules parse digest replacement r) m = (out, m')"
  shows "save_post parse digest replacement r m out m'"
proof (rule wp_run [OF assms(2)], rule SaveRules_wp)
  show "active_path (run_directory r) \<noteq> path_join (config_directory r) kRulesFileName"
    using assms(1) by (auto simp: apart_def policy_file_def)
qed (use assms(1) in \<open>simp_all add: apart_def\<close>)

theorem save_is_checked_witness:
  "\<exists>out m'. run_state (SaveRules sample_toml ''sha256:0'' ''format = 1'' sample_reconciler) (sample_machine (\<lambda>_. 0) sample_answers) = (out, m') \<and>
     save_post sample_toml ''sha256:0'' ''format = 1'' sample_reconciler (sample_machine (\<lambda>_. 0) sample_answers) out m'"
proof -
  obtain out m' where run: "run_state (SaveRules sample_toml ''sha256:0'' ''format = 1'' sample_reconciler) (sample_machine (\<lambda>_. 0) sample_answers) = (out, m')"
    by fastforce
  have "apart sample_reconciler"
    by (auto simp: apart_def sample_reconciler_def policy_file_def status_file_def temporary_of_def path_join_def
        active_path_def candidate_path_def backup_path_def kRulesFileName_def)
  from save_is_checked [OF this run] run show ?thesis by blast
qed

text \<open>A write that is cut short at the last flush goes unnoticed: the file is replaced by the first part.\<close>

theorem short_write_unnoticed:
  assumes "calls m = 0" "outcomes m = (\<lambda>i. if i = 0 then 3 else 0)"
  shows "wp (AtomicWriteText dir name contents) (\<lambda>ok m'. ok \<and> disk m' (path_join dir name) = Some []) m"
  by (simp add: AtomicWriteText_def Let_def file_calls wp_simps wp_case_option assms)

text \<open>Claim C14. The deployment survives a restart.  Let the active policy have the generation of the state that
  was last written to the status file, and let no call fail.  A new \<open>Reconciler\<close> starts with that generation and
  reads the deployment epoch back from the text of the status file.\<close>

theorem deployment_survives_restart:
  assumes "\<forall>i. outcomes m i = 0"
    and "disk m (active_path run) = Some bytes" "DecodePolicy bytes = Some (Inr (document, active_content_generation st))"
    and "disk m (path_join run ''rules-status.txt'') = Some (string_bytes (RenderControlStatusText st))"
    and "digest_text (source_digest st)" "active_content_generation st \<noteq> 0" "deployment_epoch st \<noteq> 0"
    and "run_state (Reconciler_new config run limits snapshot) m = (r, m')"
  shows "disk m' = disk m \<and> ctl_state r = initial_state\<lparr>active_content_generation := active_content_generation st,
     deployment_epoch := deployment_epoch st\<rparr>"
  by (rule wp_run [OF assms(8) Reconciler_new_restart [OF assms(1-7)]])

theorem deployment_survives_restart_witness:
  "\<exists>r m'. run_state (Reconciler_new ''/m/config'' ''/m/run'' default_limits sample_capabilities)
      ((sample_machine (\<lambda>_. 0) sample_answers)\<lparr>disk := [''/m/run/policy.bin'' \<mapsto> blob_bytes sample_blob,
         ''/m/run/rules-status.txt'' \<mapsto> string_bytes (RenderControlStatusText (initial_state\<lparr>source_digest := Sha256 ''x'',
           active_content_generation := blob_generation sample_blob, deployment_epoch := 5\<rparr>))]\<rparr>) = (r, m') \<and>
     deployment_epoch (ctl_state r) = 5"
proof -
  let ?st = "initial_state\<lparr>source_digest := Sha256 ''x'', active_content_generation := blob_generation sample_blob, deployment_epoch := 5\<rparr>"
  let ?m = "(sample_machine (\<lambda>_. 0) sample_answers)\<lparr>disk := [''/m/run/policy.bin'' \<mapsto> blob_bytes sample_blob,
         ''/m/run/rules-status.txt'' \<mapsto> string_bytes (RenderControlStatusText ?st)]\<rparr>"
  obtain r m' where run: "run_state (Reconciler_new ''/m/config'' ''/m/run'' default_limits sample_capabilities) ?m = (r, m')" by fastforce
  obtain document where doc: "DecodePolicy (blob_bytes sample_blob) = Some (Inr (document, active_content_generation ?st))"
    using sample_blob_verifies by (auto simp: VerifyPolicyBytes_def split: option.splits sum.splits prod.splits)
  have disk: "disk ?m (active_path ''/m/run'') = Some (blob_bytes sample_blob)"
    "disk ?m (path_join ''/m/run'' ''rules-status.txt'') = Some (string_bytes (RenderControlStatusText ?st))"
    by (simp_all add: active_path_def path_join_def)
  have st: "\<forall>i. outcomes ?m i = 0" "digest_text (source_digest ?st)" "active_content_generation ?st \<noteq> 0" "deployment_epoch ?st \<noteq> 0"
    using sample_generation by (auto simp: sample_machine_def digest_text_def sample_blob_def)
  from deployment_survives_restart [OF st(1) disk(1) doc disk(2) st(2-4) run] run show ?thesis by auto
qed

end
