(* ===== verification/Spec2Isabelle.thy ===== *)
theory Spec2Isabelle
  imports PG_Topology PG_Compiler PG_Tools PG_ProviderRules PG_Media PG_AllOrNothing
    PG_ControlProofs
begin

text \<open>
  PathGuard Next redirects and blocks storage paths of Android applications.  A rules file, TOML with an
  arrow syntax for redirects, is compiled to a binary policy file.  A Zygisk module maps that file in every
  application process, looks up the process and mounts the redirects and denials in the process's mount
  namespace.  This development models the C++ sources of that chain and proves it correct.

  \<^bold>\<open>Parts and theories.\<close>  Names of definitions are the names of the sources (paths relative to \<open>src\<close>).
  \<^item> \<open>PG_Prelude\<close>: shared lists, options, splitting and word lemmas.
  \<^item> \<open>PG_Path\<close>: \<open>core/src/path.cpp\<close>, normal forms and placeholders of paths.
  \<^item> \<open>PG_Policy\<close>: \<open>core/include/pathguard/policy.h\<close> and \<open>core/src/validation.cpp\<close>, the policy document
    and its canonical form.
  \<^item> \<open>PG_Format\<close>, \<open>PG_Binary\<close>, \<open>PG_RoundTrip\<close>: \<open>policy_format.h\<close>, \<open>policy_index.h\<close> and
    \<open>core/src/binary.cpp\<close>, the file layout, encoder, decoder and package lookup.
  \<^item> \<open>PG_Runtime\<close>: the policy loader of \<open>zygisk/src/module_entry.cpp\<close>.
  \<^item> \<open>PG_Topology\<close>: \<open>core/src/topology.cpp\<close>, storage roots from mountinfo.
  \<^item> \<open>PG_Mount\<close>: \<open>capabilities.h\<close>, \<open>mount_backend.h\<close>, \<open>mutation_journal.h\<close>, \<open>mount_transaction.h\<close> and the
    status shared by the mounting processes in \<open>module_entry.cpp\<close>.
  \<^item> \<open>PG_Source\<close>, \<open>PG_Scanner\<close>, \<open>PG_Desugar\<close>, \<open>PG_Compiler\<close>: \<open>source.cpp\<close>, \<open>diagnostic.cpp\<close>,
    \<open>format_probe.cpp\<close>, \<open>arrow_scanner.cpp\<close>, \<open>desugarer.cpp\<close> and \<open>compiler.cpp\<close> of \<open>rules/src\<close>, from the text
    to a rules document.
  \<^item> \<open>PG_Semantic\<close>, \<open>PG_Conflicts\<close>, \<open>PG_Build\<close>: \<open>rules/src/semantic.cpp\<close>, from a rules document to the
    canonical policy and the verified file.
  \<^item> \<open>PG_Tools\<close>: \<open>rules/src/tools.cpp\<close>, plans and explanations.
  \<^item> \<open>PG_Provider\<close>, \<open>PG_ProviderHook\<close>: \<open>provider_path_mapper.cpp\<close>, \<open>provider_caller_uid.hpp\<close>,
    \<open>provider_redirect_symbols.hpp\<close>, \<open>provider_redirect_lifecycle.hpp\<close> and \<open>provider_redirect_hook.cpp\<close> of
    \<open>zygisk\<close>: rewriting of paths in the media provider's process, per calling application.
  \<^item> \<open>PG_ProviderRules\<close>: \<open>LoadProviderRules\<close> of \<open>module_entry.cpp\<close>, the rules the hooks work with.
  \<^item> \<open>PG_Media\<close>: \<open>media_query_filter.cpp\<close> and \<open>media_query_hook.cpp\<close>, the filter of media queries.
  \<^item> \<open>PG_Snapshot\<close>: \<open>native/mount_info_snapshot.cpp\<close>, the copy of the kernel's mount list and its lookups.
  \<^item> \<open>PG_Kernel\<close>: the system calls as a record of operations on a world of any type, the record of a run, and
    a logic for what a function adds to it.
  \<^item> \<open>PG_Executor\<close>: \<open>native/directory_resolver.cpp\<close> and \<open>native/mount_executor.cpp\<close>: directories pinned by
    descriptor, the three ways to mount, probing, verification and removal of a mount.
  \<^item> \<open>PG_Transaction\<close>, \<open>PG_AllOrNothing\<close>: \<open>ApplyProcessPlan\<close> of \<open>module_entry.cpp\<close> with all it calls, and what
    it does to the system.
  \<^item> \<open>PG_Control\<close>, \<open>PG_ControlProofs\<close>: \<open>daemon/src/rules_control.cpp\<close>: reading the rules file, publishing the
    policy, status files and the reconciler.

  \<^bold>\<open>Reading the model.\<close>  Texts and files are lists of characters or bytes.  Sizes and offsets of buffers
  in memory are natural numbers; integers of the file format, hashes, masks and flags are words of their
  width, with the source's casts written out.  Errors are values: a sum type where the code returns a
  result or an error, an option where it returns a flag.  A read outside a mapped file is a separate
  outcome of the loader and the decoder, so that memory safety is a theorem and not an assumption.  Loops
  are total functions with a measure; there is no fuel except where a definition says so.  The TOML library
  is a parameter, and so are the answers of system calls; statements about them hold for every value.

  \<^bold>\<open>What is shown.\<close>  For each component its functional behaviour with all errors, the invariants its
  operations keep and the limits they respect; that the decoder inverts the encoder, that both readers of
  the file never leave it, and that a changed payload byte is noticed; that the compiler keeps exactly the
  rules of the text; and, in this theory, that the mounts planned for a process are those the text of the
  rules prescribes.  Some theorems record where the code differs from what it means to do: the overlap
  checks of \<open>PG_Conflicts\<close>, the full diagnostics list of \<open>PG_Build\<close>, the package names of \<open>PG_Compiler\<close>.
  In the provider process, paths are rewritten exactly by the deepest rule of the responsible caller, the
  restored path is the one asked for, the rules are those of the policy file, the installation is all or
  nothing, and the query condition hides exactly the denied files.
  The transaction of a process mounts all rules of its plan or none: for every kernel, so for every error and
  every action of other processes between two calls, a run ends with all rules mounted and reported, with
  everything unmounted again, or with the namespace reported as tainted and its members killed.  Pinning a
  directory leaks no descriptor, and a lookup in a mount list finds the newest of the deepest mounts that hold a path.
  The daemon publishes exactly what was read, compiled and admitted.  One failing call, wherever it is, never
  costs the active policy; saving is a checked exchange; the deployment epoch survives a restart.  The theorems
  also record that a source is never tried twice.

  \<^bold>\<open>Not modelled.\<close>  The vendored TOML library; timing statistics; the walk over loaded ELF
  images and the JNI lookups of the provider hooks, whose outcomes are parameters; the companion thread, the
  module class and the runtime status file of \<open>module_entry.cpp\<close>; the branches for
  Windows; the daemon's main program; the command line tool.
\<close>

subsection \<open>From rules to mounts\<close>

lemma compiled_plan:
  assumes "EncodeAndVerify canonical = Some blob" "texts_carried canonical" "CHR 0x00 \<notin> set process"
  shows "\<exists>canon plan. CanonicalizeDocument (ToPolicyDocument canonical) = Inr canon \<and>
    LoadProcessPlan (blob_bytes blob) process uid = Some plan \<and>
    map_option view_of plan = plan_spec canon process uid"
proof -
  from EncodeAndVerify_Some(1) [OF assms(1)] obtain canon where
    c: "CanonicalizeDocument (ToPolicyDocument canonical) = Inr canon"
    and out: "blob_bytes blob = encoded_file canon" "length (encoded_file canon) \<le> kMaxU32"
    by (rule EncodePolicy_Inr)
  from LoadProcessPlan_image [OF c out(2) wire_safe_canonical [OF c assms(2)] assms(3), of uid] c out(1)
  show ?thesis by auto
qed

text \<open>
  Claim C2.  The whole chain, from the text of a rules file to the mounts of a process, for any TOML
  parser.  Let the source compile to a canonical policy and a file.  The Zygisk module, loading that file
  for a process and a uid, reads only inside the file and builds exactly the plan that the canonical form
  of the policy prescribes for them: the application named by the process, if process and user are in its
  scope, with its deny and redirect rules in order and the user number filled in, and no plan otherwise.
\<close>

theorem compiled_source_enforced:
  assumes "build_ok (CompileRulesSource parse source limits)"
    "build_canonical (CompileRulesSource parse source limits) = Some canonical"
    "build_blob (CompileRulesSource parse source limits) = Some blob"
    "CHR 0x00 \<notin> set process"
  shows "\<exists>canon plan. CanonicalizeDocument (ToPolicyDocument canonical) = Inr canon \<and>
    LoadProcessPlan (blob_bytes blob) process uid = Some plan \<and>
    map_option view_of plan = plan_spec canon process uid"
  using compiled_blob [OF assms(1-3) [unfolded CompileRulesSource_def]] compiled_texts_carried [OF assms(1,2)] assms(4)
  by (rule compiled_plan)

theorem compiled_source_enforced_witness:
  "\<exists>plan. LoadProcessPlan (encoded_file sample_encoded) ''a.b:push'' 10123 = Some plan \<and>
     map_option view_of plan = plan_spec sample_encoded ''a.b:push'' 10123"
  using compiled_source_enforced [OF sample_source_compiled, of "''a.b:push''" 10123]
  by (simp add: sample_encoded_eq)

end
